(* ===== verification/FtxPrelude.thy ===== *)
theory FtxPrelude
  imports Main "HOL-Library.Word" "HOL-Library.Monad_Syntax"
begin

section \<open>Prelude: machine types, memory buffers and shared automation\<close>

text \<open>
  The types, abbreviations and generic lemmas that every component of the library uses.
  The C sources are compiled for the Saturn's SH-2, a 32-bit big-endian machine:
  \<open>unsigned char\<close>, \<open>unsigned short\<close> and \<open>unsigned long\<close> are \<open>8 word\<close>, \<open>16 word\<close> and
  \<open>32 word\<close>, whose arithmetic wraps as C's unsigned arithmetic does. An array or a buffer
  is a list of bytes; a write outside it is the business of each definition, which returns
  \<open>None\<close> where the C would touch memory it does not own.
\<close>

unbundle bit_operations_syntax

type_synonym byte = "8 word"
type_synonym u16 = "16 word"
type_synonym u32 = "32 word"

text \<open>
  Collections of rewrite rules shared by the component theories: \<open>mem_simps\<close> for buffers,
  \<open>layout_simps\<close> for the little-endian fields of on-disk structures.
\<close>

named_theorems mem_simps "reads, writes and lengths of byte buffers"
named_theorems layout_simps "fields of on-disk structures"

subsection \<open>Characters and C strings\<close>

text \<open>The bytes of an ASCII literal.\<close>

definition ascii :: "string \<Rightarrow> byte list" where
  "ascii s = map of_char s"

text \<open>
  The characters of the C string that starts at the head of a memory region: everything
  before the first null byte.
\<close>

definition cstring :: "byte list \<Rightarrow> byte list" where
  "cstring m = takeWhile (\<lambda>c. c \<noteq> 0) m"

lemma cstring_no_null [simp]: "0 \<notin> set (cstring m)"
  unfolding cstring_def by (metis (mono_tags, lifting) set_takeWhileD)

lemma cstring_append_null [simp]: "0 \<notin> set s \<Longrightarrow> cstring (s @ 0 # t) = s"
  by (simp add: cstring_def takeWhile_append)

lemma cstring_id [simp]: "0 \<notin> set s \<Longrightarrow> cstring s = s"
  by (metis (mono_tags, lifting) cstring_def takeWhile_eq_all_conv)

subsection \<open>Buffers\<close>

text \<open>\<open>mem_write off src buf\<close> is \<open>memcpy(buf + off, src, length src)\<close>.\<close>

definition mem_write :: "nat \<Rightarrow> 'a list \<Rightarrow> 'a list \<Rightarrow> 'a list" where
  "mem_write off src buf = take off buf @ src @ drop (off + length src) buf"

text \<open>\<open>mem_read off n buf\<close> are the \<open>n\<close> elements from \<open>off\<close> on.\<close>

definition mem_read :: "nat \<Rightarrow> nat \<Rightarrow> 'a list \<Rightarrow> 'a list" where
  "mem_read off n buf = take n (drop off buf)"

lemma length_mem_write [simp, mem_simps]:
  "off + length src \<le> length buf \<Longrightarrow> length (mem_write off src buf) = length buf"
  by (simp add: mem_write_def)

lemma length_mem_read [simp, mem_simps]:
  "off + n \<le> length buf \<Longrightarrow> length (mem_read off n buf) = n"
  by (simp add: mem_read_def)

lemma nth_mem_write [mem_simps]:
  assumes "off + length src \<le> length buf" "i < length buf"
  shows "mem_write off src buf ! i
    = (if off \<le> i \<and> i < off + length src then src ! (i - off) else buf ! i)"
  using assms by (auto simp: mem_write_def nth_append min_def)

lemma nth_mem_read [mem_simps]:
  "off + n \<le> length buf \<Longrightarrow> i < n \<Longrightarrow> mem_read off n buf ! i = buf ! (off + i)"
  by (simp add: mem_read_def add.commute)

lemma mem_read_write_same [simp, mem_simps]:
  "off + length src \<le> length buf \<Longrightarrow> mem_read off (length src) (mem_write off src buf) = src"
  by (simp add: mem_read_def mem_write_def)

lemma mem_read_write_other [mem_simps]:
  assumes "off + length src \<le> length buf" "o' + n \<le> length buf"
    and "o' + n \<le> off \<or> off + length src \<le> o'"
  shows "mem_read o' n (mem_write off src buf) = mem_read o' n buf"
  using assms by (intro nth_equalityI) (auto simp: mem_simps)

lemma take_mem_write:
  "off + length src \<le> length buf \<Longrightarrow> take (off + length src) (mem_write off src buf) = take off buf @ src"
  by (cases src) (auto simp: mem_write_def min_def)

lemma mem_write_Nil [simp]: "mem_write off [] buf = buf"
  by (simp add: mem_write_def)

lemma mem_write_Cons:
  assumes "off < length buf"
  shows "mem_write off (x # xs) buf = mem_write (off + 1) xs (buf[off := x])"
  using assms by (simp add: mem_write_def upd_conv_take_nth_drop min_def take_Suc_conv_app_nth add.commute)

lemma mem_write_append:
  assumes "off + length xs + length ys \<le> length buf"
  shows "mem_write (off + length xs) ys (mem_write off xs buf) = mem_write off (xs @ ys) buf"
proof -
  have "off \<le> length buf" using assms by simp
  then show ?thesis by (simp add: mem_write_def min_def add.assoc add.left_commute add.commute)
qed

text \<open>
  Checked accesses. \<open>peek m i\<close> is the read \<open>m[i]\<close> and \<open>poke m i v\<close> the write \<open>m[i] = v\<close>; both
  are \<open>None\<close> outside the buffer, where the C has no defined behaviour. A definition written
  with them in the option monad returns \<open>Some\<close> only when every access was inside its buffer.
\<close>

definition peek :: "'a list \<Rightarrow> nat \<Rightarrow> 'a option" where
  "peek m i = (if i < length m then Some (m ! i) else None)"

definition poke :: "'a list \<Rightarrow> nat \<Rightarrow> 'a \<Rightarrow> 'a list option" where
  "poke m i v = (if i < length m then Some (m[i := v]) else None)"

lemma peek_inside [simp]: "i < length m \<Longrightarrow> peek m i = Some (m ! i)"
  by (simp add: peek_def)

lemma poke_inside [simp]: "i < length m \<Longrightarrow> poke m i v = Some (m[i := v])"
  by (simp add: poke_def)

lemma peek_eq_Some: "peek m i = Some x \<longleftrightarrow> i < length m \<and> x = m ! i"
  by (auto simp: peek_def)

lemma poke_eq_Some: "poke m i v = Some m' \<longleftrightarrow> i < length m \<and> m' = m[i := v]"
  by (auto simp: poke_def)

text \<open>Reading a buffer from the front of a suffix.\<close>

lemma drop_eq_Cons_D:
  assumes "drop i m = x # r"
  shows "i < length m" "m ! i = x" "drop (Suc i) m = r"
proof -
  show "i < length m"
    using assms by (metis drop_all leI list.distinct(1))
  then have "drop i m = m ! i # drop (Suc i) m"
    by (rule Cons_nth_drop_Suc [symmetric])
  then show "m ! i = x" "drop (Suc i) m = r"
    using assms by simp_all
qed

lemma drop_eq_Cons_conv: "drop i m = x # r \<longleftrightarrow> peek m i = Some x \<and> drop (Suc i) m = r"
  using Cons_nth_drop_Suc [of i m] by (auto simp: peek_eq_Some dest: drop_eq_Cons_D)

lemma drop_eq_append_D:
  assumes "drop i m = s @ r"
  shows "i + length s \<le> length m \<or> s = []" "mem_read i (length s) m = s" "drop (i + length s) m = r"
proof -
  show "i + length s \<le> length m \<or> s = []"
    using arg_cong [OF assms, of length] by (cases s) auto
  show "mem_read i (length s) m = s"
    using assms by (simp add: mem_read_def)
  show "drop (i + length s) m = r"
    using assms by (metis add.commute append_eq_conv_conj drop_drop)
qed

lemma unat_word_of_nat [simp]:
  "n < 2 ^ LENGTH('a::len) \<Longrightarrow> unat (word_of_nat n :: 'a word) = n"
  by (simp add: unsigned_of_nat take_bit_nat_eq_self)

lemma unat_u32_less: "unat (w :: u32) < 2 ^ 32"
proof -
  have "unat w < 2 ^ LENGTH(32)" by (rule unsigned_less)
  then show ?thesis by simp
qed

subsection \<open>Bytes of a word\<close>

lemma byte_mask [simp]: "(ucast (v AND 0xFF :: u32) :: byte) = ucast v"
proof -
  have "(0xFF::u32) = mask 8" by (simp add: mask_eq_exp_minus_1)
  then have "v AND 0xFF = take_bit 8 v" by (simp add: take_bit_eq_mask)
  then show ?thesis by (auto intro!: bit_eqI simp: bit_simps dest: bit_imp_le_length)
qed

lemma not_bit_ge:
  assumes "unat (v::'a::len word) < 2 ^ k" "k \<le> i"
  shows "\<not> bit v i"
proof -
  have "unat v < 2 ^ i" using assms
    by (metis order_less_le_trans one_le_numeral power_increasing)
  then have "\<not> bit (unat v) i" by (simp add: bit_iff_odd)
  then show ?thesis by (auto simp: bit_simps dest: bit_imp_le_length)
qed

lemma bytes_join_32:
  "push_bit 24 (ucast (ucast (drop_bit 24 v) :: byte)) OR push_bit 16 (ucast (ucast (drop_bit 16 v) :: byte))
  OR push_bit 8 (ucast (ucast (drop_bit 8 v) :: byte)) OR ucast (ucast v :: byte) = (v :: u32)"
proof (rule bit_eqI)
  fix n
  show "bit (push_bit 24 (ucast (ucast (drop_bit 24 v) :: byte)) OR push_bit 16 (ucast (ucast (drop_bit 16 v) :: byte))
  OR push_bit 8 (ucast (ucast (drop_bit 8 v) :: byte)) OR ucast (ucast v :: byte) :: u32) n = bit (v :: u32) n"
    by (cases "n < 8"; cases "n < 16"; cases "n < 24"; cases "n < 32")
     (auto simp: bit_simps dest: bit_imp_le_length)
qed

lemma bytes_join_16:
  assumes "unat v < 2 ^ 16"
  shows "push_bit 8 (ucast (ucast (drop_bit 8 v) :: byte)) OR ucast (ucast v :: byte) = (v :: u32)"
proof (rule bit_eqI)
  fix n
  show "bit (push_bit 8 (ucast (ucast (drop_bit 8 v) :: byte)) OR ucast (ucast v :: byte) :: u32) n = bit (v :: u32) n"
    using not_bit_ge [OF assms, of n] by (cases "n < 8"; cases "n < 16")
     (auto simp: bit_simps dest: bit_imp_le_length)
qed

lemma bytes_join_8:
  assumes "unat v < 2 ^ 8"
  shows "ucast (ucast v :: byte) = (v :: u32)"
proof (rule bit_eqI)
  fix n
  show "bit (ucast (ucast v :: byte) :: u32) n = bit v n"
    using not_bit_ge [OF assms, of n] by (cases "n < 8") (auto simp: bit_simps dest: bit_imp_le_length)
qed

subsection \<open>Exclusive or\<close>

lemma word_xor_eq_0_iff [simp]: "(a :: 'a::len word) XOR b = 0 \<longleftrightarrow> a = b"
  by (auto simp: bit_eq_iff bit_simps)

lemma word_xor_right_cancel [simp]: "(a :: 'a::len word) XOR c = b XOR c \<longleftrightarrow> a = b"
  by (auto simp: bit_eq_iff bit_simps)

lemma word_xor_left_cancel [simp]: "(c :: 'a::len word) XOR a = c XOR b \<longleftrightarrow> a = b"
  by (auto simp: bit_eq_iff bit_simps)

subsection \<open>Tables generated by an XOR-linear function\<close>

text \<open>
  A table of \<open>f 0, f 1, \<dots>, f (2\<^sup>k - 1)\<close> for an XOR-linear \<open>f\<close> is determined by the images of
  the powers of two. \<open>xor_table\<close> rebuilds the table from them, so a constant table of the
  source is checked with one XOR per entry.
\<close>

fun xor_table :: "('b::len) word list \<Rightarrow> 'b word list" where
  "xor_table [] = [0]"
| "xor_table (b # bs) = (let t = xor_table bs in t @ map (\<lambda>x. b XOR x) t)"

lemma word_of_nat_add_pow2:
  assumes "i < 2 ^ k"
  shows "word_of_nat (2 ^ k + i) = ((2 ^ k :: 'a::len word) XOR word_of_nat i)"
proof -
  have "\<not> bit i k"
    using assms by (simp add: bit_iff_odd)
  then have "2 ^ k AND i = (0::nat)"
    by (intro bit_eqI) (auto simp: bit_and_iff bit_exp_iff)
  then have "2 ^ k + i = (2 ^ k XOR i :: nat)"
    by (rule disjunctive_add_eq_xor)
  moreover have "(word_of_nat (2 ^ k XOR i) :: 'a word) = 2 ^ k XOR word_of_nat i"
    by (simp add: of_nat_xor_eq)
  ultimately show ?thesis by simp
qed

lemma xor_table_map:
  fixes f :: "('a::len) word \<Rightarrow> ('b::len) word"
  assumes lin: "\<And>a b. f (a XOR b) = f a XOR f b"
  shows "map (\<lambda>i. f (word_of_nat i)) [0..<2 ^ k] = xor_table (rev (map (\<lambda>j. f (2 ^ j)) [0..<k]))"
proof (induction k)
  case 0
  have "f 0 = f 0 XOR f 0" using lin [of 0 0] by simp
  then show ?case by simp
next
  case (Suc k)
  have "[0..<2 ^ Suc k] = [0..<2 ^ k] @ [2 ^ k..<2 ^ k + 2 ^ k]"
    using upt_add_eq_append [of 0 "2 ^ k" "2 ^ k"]
    by (simp only: power_Suc mult_2 le0 add_0_left)
  also have "[2 ^ k..<2 ^ k + 2 ^ k] = map (\<lambda>i. 2 ^ k + i) [0..<2 ^ k]"
    using map_add_upt [of "2 ^ k" "2 ^ k"] by (simp only: add.commute)
  finally have split: "[0..<2 ^ Suc k] = [0..<2 ^ k] @ map (\<lambda>i. 2 ^ k + i) [0..<2 ^ k]" .
  have "map (\<lambda>i. f (word_of_nat (2 ^ k + i))) [0..<2 ^ k]
      = map (\<lambda>i. f (2 ^ k) XOR f (word_of_nat i)) [0..<2 ^ k]"
    by (rule map_cong) (simp_all only: word_of_nat_add_pow2 lin set_upt atLeastLessThan_iff)
  then show ?case
    by (simp only: split map_append map_map o_def) (simp add: Let_def Suc.IH [symmetric] o_def)
qed

lemma xor_table_nth:
  fixes f :: "('a::len) word \<Rightarrow> ('b::len) word"
  assumes lin: "\<And>a b. f (a XOR b) = f a XOR f b"
    and tab: "t = xor_table (rev (map (\<lambda>j. f (2 ^ j)) [0..<k]))"
    and "unat w < 2 ^ k"
  shows "t ! unat w = f w"
proof -
  have "t = map (\<lambda>i. f (word_of_nat i)) [0..<2 ^ k]"
    using xor_table_map [OF lin, of k] tab by simp
  then show ?thesis using assms(3) by simp
qed

lemma find_append: "find P (xs @ ys) = (case find P xs of None \<Rightarrow> find P ys | Some x \<Rightarrow> Some x)"
  by (induction xs) auto

end
