(* ===== verification/ScCompress.thy ===== *)
theory ScCompress
  imports FtxPrelude
begin

section \<open>LZF compression\<close>

text \<open>
  Models \<open>satcom_lib/sc_compress.c\<close> with the configuration of \<open>lzf/lzfP.h\<close>: \<open>HLOG = 10\<close>,
  \<open>VERY_FAST = 1\<close>, \<open>ULTRA_FAST = 0\<close>, \<open>STRICT_ALIGN = 1\<close>, \<open>INIT_HTAB = 1\<close>, \<open>CHECK_INPUT = 0\<close>. The
  pointers \<open>ip\<close>, \<open>op\<close> and \<open>ref\<close> are offsets into the buffers they point into. Every access
  to a buffer is checked: a routine returns \<open>None\<close> where the C would read or write outside
  its buffers, and \<open>Some (0, \<dots>)\<close> where it reports failure.
\<close>

subsection \<open>The compressor\<close>

abbreviation MAX_LIT :: nat where "MAX_LIT \<equiv> 2 ^ 5"
abbreviation MAX_OFF :: nat where "MAX_OFF \<equiv> 2 ^ 13"
abbreviation MAX_REF :: nat where "MAX_REF \<equiv> 2 ^ 8 + 2 ^ 3"
abbreviation HLOG :: nat where "HLOG \<equiv> 10"
abbreviation HSIZE :: u32 where "HSIZE \<equiv> 1024"

text \<open>
  The hash of three input bytes (\<open>FRST\<close>, \<open>NEXT\<close>, \<open>IDX\<close>). The table holds pointers into
  the input; \<open>memset(htab, 0, \<dots>)\<close> makes every entry the null pointer, here \<open>None\<close>.
\<close>

definition FRST :: "byte list \<Rightarrow> nat \<Rightarrow> u32 option" where
  "FRST ind p = do { p0 \<leftarrow> peek ind p; p1 \<leftarrow> peek ind (p + 1);
     Some (push_bit 8 (ucast p0) OR ucast p1) }"

definition NEXT :: "u32 \<Rightarrow> byte list \<Rightarrow> nat \<Rightarrow> u32 option" where
  "NEXT v ind p = do { p2 \<leftarrow> peek ind (p + 2); Some (push_bit 8 v OR ucast p2) }"

definition IDX :: "u32 \<Rightarrow> nat" where
  "IDX h = unat ((drop_bit (3 * 8 - HLOG) h - h * 5) AND (HSIZE - 1))"

record lzf_state =
  lz_ip :: nat
  lz_op :: nat
  lz_lit :: nat
  lz_hval :: u32
  lz_htab :: "nat \<Rightarrow> nat option"
  lz_out :: "byte list"

text \<open>
  The condition under which the compressor emits a back reference to \<open>ref\<close>, in the order of
  the code's conjunction: later bytes are read only where the earlier tests succeed.
\<close>

definition lzf_match :: "byte list \<Rightarrow> nat option \<Rightarrow> nat \<Rightarrow> bool option" where
  "lzf_match ind slot ip = (case slot of
     None \<Rightarrow> Some False
   | Some ref \<Rightarrow>
       if ref < ip \<and> ip - ref - 1 < MAX_OFF \<and> ip + 4 < length ind \<and> ref > 0
       then do { r0 \<leftarrow> peek ind ref; i0 \<leftarrow> peek ind ip;
         if r0 \<noteq> i0 then Some False else do {
           r1 \<leftarrow> peek ind (ref + 1); i1 \<leftarrow> peek ind (ip + 1);
           if r1 \<noteq> i1 then Some False else do {
             r2 \<leftarrow> peek ind (ref + 2); i2 \<leftarrow> peek ind (ip + 2); Some (r2 = i2) } } }
       else Some False)"

text \<open>
  The length of the match. The sixteen unrolled comparisons \<open>len++; if (ref[len] != ip[len])
  break;\<close> stop at the first difference (the flag says so); otherwise the \<open>do \<dots> while\<close> loop
  goes on up to \<open>maxlen\<close>.
\<close>

fun lzf_cmp16 :: "byte list \<Rightarrow> nat \<Rightarrow> nat \<Rightarrow> nat \<Rightarrow> nat \<Rightarrow> (nat \<times> bool) option" where
  "lzf_cmp16 ind ref ip 0 len = Some (len, False)"
| "lzf_cmp16 ind ref ip (Suc n) len = do {
     r \<leftarrow> peek ind (ref + (len + 1)); i \<leftarrow> peek ind (ip + (len + 1));
     if r \<noteq> i then Some (len + 1, True) else lzf_cmp16 ind ref ip n (len + 1) }"

function lzf_cmp_tail :: "byte list \<Rightarrow> nat \<Rightarrow> nat \<Rightarrow> nat \<Rightarrow> nat \<Rightarrow> nat option" where
  "lzf_cmp_tail ind ref ip maxlen len =
     (if len + 1 < maxlen then do {
        r \<leftarrow> peek ind (ref + (len + 1)); i \<leftarrow> peek ind (ip + (len + 1));
        if r = i then lzf_cmp_tail ind ref ip maxlen (len + 1) else Some (len + 1) }
      else Some (len + 1))"
  by pat_completeness auto
termination
  by (relation "measure (\<lambda>(ind, ref, ip, maxlen, len). maxlen - len)") auto

definition lzf_match_len :: "byte list \<Rightarrow> nat \<Rightarrow> nat \<Rightarrow> nat \<Rightarrow> nat option" where
  "lzf_match_len ind ref ip maxlen =
     (if maxlen > 16 then do {
        (len, stop) \<leftarrow> lzf_cmp16 ind ref ip 16 2;
        if stop then Some len else lzf_cmp_tail ind ref ip maxlen len }
      else lzf_cmp_tail ind ref ip maxlen 2)"

text \<open>
  \<open>op[-lit - 1] = lit - 1\<close>, which ends a literal run, and \<open>op -= !lit\<close>, which takes the
  length byte of an empty run back.
\<close>

definition lzf_stop_run :: "byte list \<Rightarrow> nat \<Rightarrow> nat \<Rightarrow> byte list option" where
  "lzf_stop_run out op lit =
     (if lit + 1 \<le> op then poke out (op - lit - 1) (word_of_nat lit - 1) else None)"

definition lzf_undo_run :: "nat \<Rightarrow> nat \<Rightarrow> nat" where
  "lzf_undo_run op lit = (if lit = 0 then op - 1 else op)"

text \<open>
  The two outcomes of one round of a loop: leave the function with 0, or go on with a new
  state. The literal step is shared by the main loop, which checks the output space first,
  and by the loop over the last bytes, which does not.
\<close>

definition lzf_literal :: "byte list \<Rightarrow> lzf_state \<Rightarrow> lzf_state option" where
  "lzf_literal ind s = do {
     c \<leftarrow> peek ind (lz_ip s);
     out \<leftarrow> poke (lz_out s) (lz_op s) c;
     let lit = lz_lit s + 1;
     let op = lz_op s + 1;
     let ip = lz_ip s + 1;
     if lit = MAX_LIT
     then do { out \<leftarrow> lzf_stop_run out op lit;
       Some (s\<lparr>lz_ip := ip, lz_op := op + 1, lz_lit := 0, lz_out := out\<rparr>) }
     else Some (s\<lparr>lz_ip := ip, lz_op := op, lz_lit := lit, lz_out := out\<rparr>) }"

text \<open>
  A back reference: end the run, measure the match, emit the reference, and (with
  \<open>VERY_FAST\<close>) enter the two positions before the new \<open>ip\<close> into the hash table unless the
  input is all but consumed. The flag says that the main loop is left (\<open>break\<close>).
\<close>

definition lzf_emit :: "byte list \<Rightarrow> nat \<Rightarrow> nat \<Rightarrow> nat \<Rightarrow> (byte list \<times> nat) option" where
  "lzf_emit out op off len =
     (if len < 7
      then do { out \<leftarrow> poke out op (word_of_nat (off div 2 ^ 8 + len * 2 ^ 5)); Some (out, op + 1) }
      else do { out \<leftarrow> poke out op (word_of_nat (off div 2 ^ 8 + 7 * 2 ^ 5));
        out \<leftarrow> poke out (op + 1) (word_of_nat (len - 7)); Some (out, op + 2) })"

definition lzf_backref :: "byte list \<Rightarrow> lzf_state \<Rightarrow> nat \<Rightarrow> (lzf_state \<times> bool) option" where
  "lzf_backref ind s ref = do {
     let ip = lz_ip s;
     let off = ip - ref - 1;
     let maxlen = (let m = length ind - ip - 2 in if m > MAX_REF then MAX_REF else m);
     out \<leftarrow> lzf_stop_run (lz_out s) (lz_op s) (lz_lit s);
     let op = lzf_undo_run (lz_op s) (lz_lit s);
     n \<leftarrow> lzf_match_len ind ref ip maxlen;
     let len = n - 2;
     let ip = ip + 1;
     (out, op) \<leftarrow> lzf_emit out op off len;
     out \<leftarrow> poke out op (word_of_nat off);
     let op = op + 2;
     let ip = ip + (len + 1);
     if ip \<ge> length ind - 2
     then Some (s\<lparr>lz_ip := ip, lz_op := op, lz_lit := 0, lz_out := out\<rparr>, True)
     else do {
       h \<leftarrow> FRST ind (ip - 2);
       h \<leftarrow> NEXT h ind (ip - 2);
       let htab = (lz_htab s)(IDX h := Some (ip - 2));
       h \<leftarrow> NEXT h ind (ip - 1);
       let htab = htab(IDX h := Some (ip - 1));
       Some (s\<lparr>lz_ip := ip, lz_op := op, lz_lit := 0, lz_hval := h, lz_htab := htab, lz_out := out\<rparr>,
         False) } }"

datatype lzf_outcome = Fail "byte list" | Done lzf_state

text \<open>
  One round of \<open>while (ip < in_end - 2)\<close>: \<open>Inl\<close> leaves the loop (with \<open>return 0\<close> or by
  \<open>break\<close>), \<open>Inr\<close> starts the next round.
\<close>

definition lzf_round :: "byte list \<Rightarrow> nat \<Rightarrow> lzf_state \<Rightarrow> (lzf_outcome + lzf_state) option" where
  "lzf_round ind out_len s = do {
     h \<leftarrow> NEXT (lz_hval s) ind (lz_ip s);
     let slot = lz_htab s (IDX h);
     let s = s\<lparr>lz_hval := h, lz_htab := (lz_htab s)(IDX h := Some (lz_ip s))\<rparr>;
     m \<leftarrow> lzf_match ind slot (lz_ip s);
     if m
     then
       (if lz_op s + 3 + 1 \<ge> out_len \<and> lzf_undo_run (lz_op s) (lz_lit s) + 3 + 1 \<ge> out_len
        then Some (Inl (Fail (lz_out s)))
        else do { (s, brk) \<leftarrow> lzf_backref ind s (the slot);
          Some (if brk then Inl (Done s) else Inr s) })
     else
       (if lz_op s \<ge> out_len then Some (Inl (Fail (lz_out s)))
        else do { s \<leftarrow> lzf_literal ind s; Some (Inr s) }) }"

lemma lzf_literal_ip: "lzf_literal ind s = Some s' \<Longrightarrow> lz_ip s' = lz_ip s + 1"
  by (auto simp: lzf_literal_def Let_def bind_eq_Some_conv split: if_splits)

lemma lzf_backref_ip: "lzf_backref ind s ref = Some (s', brk) \<Longrightarrow> lz_ip s < lz_ip s'"
  by (auto simp: lzf_backref_def Let_def bind_eq_Some_conv split: if_splits)

lemma lzf_round_ip: "lzf_round ind out_len s = Some (Inr s') \<Longrightarrow> lz_ip s < lz_ip s'"
  by (auto simp: lzf_round_def Let_def bind_eq_Some_conv
      dest!: lzf_literal_ip lzf_backref_ip split: if_splits)

function lzf_main :: "byte list \<Rightarrow> nat \<Rightarrow> lzf_state \<Rightarrow> lzf_outcome option" where
  "lzf_main ind out_len s =
     (if lz_ip s + 2 < length ind
      then (case lzf_round ind out_len s of
          None \<Rightarrow> None
        | Some (Inl r) \<Rightarrow> Some r
        | Some (Inr s') \<Rightarrow> lzf_main ind out_len s')
      else Some (Done s))"
  by pat_completeness auto
termination
  by (relation "measure (\<lambda>(ind, out_len, s). length ind - lz_ip s)") (auto dest!: lzf_round_ip)

text \<open>The loop \<open>while (ip < in_end)\<close> over the at most two bytes the main loop leaves.\<close>

function lzf_last :: "byte list \<Rightarrow> lzf_state \<Rightarrow> lzf_state option" where
  "lzf_last ind s =
     (if lz_ip s < length ind
      then (case lzf_literal ind s of None \<Rightarrow> None | Some s' \<Rightarrow> lzf_last ind s')
      else Some s)"
  by pat_completeness auto
termination
  by (relation "measure (\<lambda>(ind, s). length ind - lz_ip s)") (auto dest!: lzf_literal_ip)

declare lzf_cmp_tail.simps [simp del] lzf_main.simps [simp del] lzf_last.simps [simp del]

text \<open>
  \<open>lzf_compress\<close> of the whole list \<open>ind\<close> into the buffer \<open>out\<close>, of which it may use
  \<open>out_len\<close> bytes: the number of bytes used, 0 if they do not suffice, and the buffer.
\<close>

definition lzf_compress :: "byte list \<Rightarrow> byte list \<Rightarrow> nat \<Rightarrow> (nat \<times> byte list) option" where
  "lzf_compress ind out out_len =
     (if length ind = 0 \<or> out_len = 0 then Some (0, out)
      else do {
        h \<leftarrow> FRST ind 0;
        r \<leftarrow> lzf_main ind out_len
          \<lparr>lz_ip = 0, lz_op = 1, lz_lit = 0, lz_hval = h, lz_htab = (\<lambda>_. None), lz_out = out\<rparr>;
        case r of
          Fail out \<Rightarrow> Some (0, out)
        | Done s \<Rightarrow>
            if lz_op s + 3 > out_len then Some (0, lz_out s)
            else do {
              s \<leftarrow> lzf_last ind s;
              out \<leftarrow> lzf_stop_run (lz_out s) (lz_op s) (lz_lit s);
              Some (lzf_undo_run (lz_op s) (lz_lit s), out) } })"

subsection \<open>The decompressor\<close>

text \<open>The byte-by-byte copies \<open>*op++ = *ip++\<close> (from the input) and \<open>*op++ = *ref++\<close> (within
  the output, where source and target may overlap).\<close>

fun lzf_copy_in :: "byte list \<Rightarrow> nat \<Rightarrow> nat \<Rightarrow> nat \<Rightarrow> byte list \<Rightarrow> byte list option" where
  "lzf_copy_in ind ip op 0 out = Some out"
| "lzf_copy_in ind ip op (Suc n) out = do {
     c \<leftarrow> peek ind ip; out \<leftarrow> poke out op c; lzf_copy_in ind (ip + 1) (op + 1) n out }"

text \<open>The source pointer of a back reference may stand before the output buffer, so it is an integer; a read
  there is outside the buffer.\<close>

fun lzf_copy_out :: "int \<Rightarrow> nat \<Rightarrow> nat \<Rightarrow> byte list \<Rightarrow> byte list option" where
  "lzf_copy_out ref op 0 out = Some out"
| "lzf_copy_out ref op (Suc n) out = do {
     c \<leftarrow> (if ref < 0 then None else peek out (nat ref)); out \<leftarrow> poke out op c;
     lzf_copy_out (ref + 1) (op + 1) n out }"

text \<open>
  One item of the compressed stream at \<open>ip\<close>: \<open>Inl out\<close> is \<open>return 0\<close>, \<open>Inr (ip, op, out)\<close>
  goes on.
\<close>

definition lzf_item :: "byte list \<Rightarrow> nat \<Rightarrow> nat \<Rightarrow> nat \<Rightarrow> byte list
    \<Rightarrow> (byte list + nat \<times> nat \<times> byte list) option" where
  "lzf_item ind out_len ip op out = do {
     c \<leftarrow> peek ind ip;
     let ctrl = unat c;
     let ip = ip + 1;
     if ctrl < 2 ^ 5
     then do {
       let ctrl = ctrl + 1;
       if op + ctrl > out_len then Some (Inl out)
       else do { out \<leftarrow> lzf_copy_in ind ip op ctrl out; Some (Inr (ip + ctrl, op + ctrl, out)) } }
     else do {
       let len = ctrl div 2 ^ 5;
       let ref = int op - int (ctrl mod 2 ^ 5 * 2 ^ 8) - 1;
       (len, ip) \<leftarrow> (if len = 7 then do { l \<leftarrow> peek ind ip; Some (len + unat l, ip + 1) }
                     else Some (len, ip));
       l \<leftarrow> peek ind ip;
       let ref = ref - int (unat l);
       let ip = ip + 1;
       if op + len + 2 > out_len then Some (Inl out)
       else if ref < 0 then Some (Inl out)
       else do { out \<leftarrow> lzf_copy_out ref op (len + 2) out;
         Some (Inr (ip, op + (len + 2), out)) } } }"

lemma lzf_item_ip: "lzf_item ind out_len ip op out = Some (Inr (ip', r)) \<Longrightarrow> ip < ip'"
  by (auto simp: lzf_item_def Let_def bind_eq_Some_conv split: if_splits prod.splits)

text \<open>The \<open>do \<dots> while (ip < in_end)\<close> loop.\<close>

function lzf_items :: "byte list \<Rightarrow> nat \<Rightarrow> nat \<Rightarrow> nat \<Rightarrow> nat \<Rightarrow> byte list
    \<Rightarrow> (nat \<times> byte list) option" where
  "lzf_items ind in_len out_len ip op out =
     (case lzf_item ind out_len ip op out of
        None \<Rightarrow> None
      | Some (Inl out) \<Rightarrow> Some (0, out)
      | Some (Inr (ip', op', out')) \<Rightarrow>
          if ip' < in_len then lzf_items ind in_len out_len ip' op' out' else Some (op', out'))"
  by pat_completeness auto
termination
  by (relation "measure (\<lambda>(ind, in_len, out_len, ip, op, out). in_len - ip)")
    (auto dest!: lzf_item_ip)

declare lzf_items.simps [simp del]

definition lzf_decompress :: "byte list \<Rightarrow> nat \<Rightarrow> byte list \<Rightarrow> nat \<Rightarrow> (nat \<times> byte list) option" where
  "lzf_decompress ind in_len out out_len = lzf_items ind in_len out_len 0 0 out"

subsection \<open>The container: header and payload\<close>

text \<open>
  \<open>_comp_header_get_data\<close> and \<open>_comp_header_set_data\<close>: big-endian fields of 1, 2 or 4 bytes
  after the flag byte.
\<close>

definition comp_header_get_data :: "byte list \<Rightarrow> nat \<Rightarrow> nat \<Rightarrow> u32 option" where
  "comp_header_get_data header data_size index =
     (let p = 1 + index * data_size in
      if data_size = 4 then do {
        a \<leftarrow> peek header (p + 0); b \<leftarrow> peek header (p + 1);
        c \<leftarrow> peek header (p + 2); d \<leftarrow> peek header (p + 3);
        Some (push_bit 24 (ucast a) OR push_bit 16 (ucast b) OR push_bit 8 (ucast c) OR ucast d) }
      else if data_size = 2 then do {
        a \<leftarrow> peek header (p + 0); b \<leftarrow> peek header (p + 1);
        Some (push_bit 8 (ucast a) OR ucast b) }
      else do { a \<leftarrow> peek header (p + 0); Some (ucast a) })"

definition comp_header_set_data :: "byte list \<Rightarrow> nat \<Rightarrow> nat \<Rightarrow> u32 \<Rightarrow> byte list option" where
  "comp_header_set_data header data_size index val =
     (let p = 1 + index * data_size in
      if data_size = 4 then do {
        h \<leftarrow> poke header (p + 0) (ucast (drop_bit 24 val AND 0xFF));
        h \<leftarrow> poke h (p + 1) (ucast (drop_bit 16 val AND 0xFF));
        h \<leftarrow> poke h (p + 2) (ucast (drop_bit 8 val AND 0xFF));
        poke h (p + 3) (ucast (drop_bit 0 val AND 0xFF)) }
      else if data_size = 2 then do {
        h \<leftarrow> poke header (p + 0) (ucast (drop_bit 8 val AND 0xFF));
        poke h (p + 1) (ucast (drop_bit 0 val AND 0xFF)) }
      else poke header (p + 0) (ucast (drop_bit 0 val AND 0xFF)))"

text \<open>
  \<open>memcpy(buf + off, src, n)\<close> into a buffer of fixed size: \<open>None\<close> when it does not fit.
\<close>

definition mem_copy :: "nat \<Rightarrow> byte list \<Rightarrow> byte list \<Rightarrow> byte list option" where
  "mem_copy off src buf =
     (if off + length src \<le> length buf then Some (mem_write off src buf) else None)"

text \<open>
  \<open>comp_exec\<close> on the input \<open>ind\<close> (of length \<open>inl\<close>) and the output buffer \<open>outd\<close>. The payload
  is compressed into the part of \<open>outd\<close> after the header.
\<close>

definition comp_data_size :: "nat \<Rightarrow> nat" where
  "comp_data_size inl = (if inl > 65500 then 4 else if inl > 240 then 2 else 1)"

definition comp_exec :: "byte list \<Rightarrow> byte list \<Rightarrow> (nat \<times> byte list) option" where
  "comp_exec ind outd = do {
     let inl = length ind;
     let data_size = comp_data_size inl;
     let header_len = 1 + data_size;
     (lzf_ret, outd) \<leftarrow>
       (if inl > 2
        then do { (r, out) \<leftarrow> lzf_compress ind (drop header_len outd) (inl - header_len - 1);
          Some (r, take header_len outd @ out) }
        else Some (0, outd));
     if lzf_ret = 0
     then do {
       let header_len = 1;
       outd \<leftarrow> poke outd 0 (push_bit 4 0 OR (word_of_nat data_size AND 0x7));
       outd \<leftarrow> mem_copy header_len ind outd;
       Some (header_len + inl, outd) }
     else do {
       outd \<leftarrow> poke outd 0 (push_bit 4 1 OR (word_of_nat data_size AND 0x7));
       outd \<leftarrow> comp_header_set_data outd data_size 0 (word_of_nat inl);
       Some (header_len + lzf_ret, outd) } }"

text \<open>
  \<open>_decomp_exec_internal\<close>: \<open>outd = None\<close> is the null pointer, for which only the size is
  computed. \<open>inl - header_len\<close> is unsigned and wraps when the input is shorter than its header.
\<close>

definition decomp_exec_internal :: "byte list \<Rightarrow> nat \<Rightarrow> byte list option
    \<Rightarrow> (nat \<times> byte list option) option" where
  "decomp_exec_internal ind inl outd =
     (if inl = 0 then Some (0, outd)
      else do {
        h \<leftarrow> peek ind 0;
        let compress_flag = drop_bit 4 h;
        let data_size = unat (h AND 0xF);
        if compress_flag > 1 \<or> (data_size \<noteq> 1 \<and> data_size \<noteq> 2 \<and> data_size \<noteq> 4) then Some (0, outd)
        else if compress_flag \<noteq> 0
        then do {
          let header_len = 1 + data_size;
          outl \<leftarrow> comp_header_get_data ind data_size 0;
          case outd of
            None \<Rightarrow> Some (unat outl, None)
          | Some out \<Rightarrow> do {
              (ret, out) \<leftarrow> lzf_decompress (drop header_len ind)
                 (unat (word_of_nat inl - word_of_nat header_len :: u32)) out (unat outl);
              Some (ret, Some out) } }
        else do {
          let header_len = 1;
          let outl = inl - header_len;
          case outd of
            None \<Rightarrow> Some (outl, None)
          | Some out \<Rightarrow>
              if inl \<le> length ind
              then do { out \<leftarrow> mem_copy 0 (mem_read header_len outl ind) out; Some (outl, Some out) }
              else None } })"

definition decomp_exec :: "byte list \<Rightarrow> nat \<Rightarrow> byte list \<Rightarrow> (nat \<times> byte list) option" where
  "decomp_exec ind inl outd = do {
     (ret, out) \<leftarrow> decomp_exec_internal ind inl (Some outd);
     Some (ret, the out) }"

definition decomp_getsize :: "byte list \<Rightarrow> nat \<Rightarrow> nat option" where
  "decomp_getsize ind inl = do {
     (ret, out) \<leftarrow> decomp_exec_internal ind inl None;
     Some ret }"

subsection \<open>The format\<close>

text \<open>
  What the comment in the source calls the compressed format, as a list of items: a literal
  run of 1 to 32 bytes, or a copy of \<open>n\<close> bytes (3 to 264) from \<open>d\<close> bytes back (1 to 8192).
  \<open>lzf_bytes\<close> is their encoding and \<open>lzf_expand\<close> their meaning, given the bytes already
  produced.
\<close>

datatype lzf_tok = Lits "byte list" | Copy nat nat

fun copy_back :: "nat \<Rightarrow> nat \<Rightarrow> byte list \<Rightarrow> byte list" where
  "copy_back d 0 acc = acc"
| "copy_back d (Suc n) acc = copy_back d n (acc @ [acc ! (length acc - d)])"

fun tok_apply :: "byte list \<Rightarrow> lzf_tok \<Rightarrow> byte list" where
  "tok_apply acc (Lits xs) = acc @ xs"
| "tok_apply acc (Copy d n) = copy_back d n acc"

definition lzf_expand :: "byte list \<Rightarrow> lzf_tok list \<Rightarrow> byte list" where
  "lzf_expand acc ts = foldl tok_apply acc ts"

fun tok_ok :: "nat \<Rightarrow> lzf_tok \<Rightarrow> bool" where
  "tok_ok k (Lits xs) = (1 \<le> length xs \<and> length xs \<le> MAX_LIT)"
| "tok_ok k (Copy d n) = (1 \<le> d \<and> d \<le> MAX_OFF \<and> d \<le> k \<and> 3 \<le> n \<and> n \<le> MAX_REF)"

fun toks_ok :: "byte list \<Rightarrow> lzf_tok list \<Rightarrow> bool" where
  "toks_ok acc [] = True"
| "toks_ok acc (t # ts) = (tok_ok (length acc) t \<and> toks_ok (tok_apply acc t) ts)"

fun tok_bytes :: "lzf_tok \<Rightarrow> byte list" where
  "tok_bytes (Lits xs) = word_of_nat (length xs - 1) # xs"
| "tok_bytes (Copy d n) =
     (let off = d - 1; len = n - 2 in
      (if len < 7 then [word_of_nat (off div 2 ^ 8 + len * 2 ^ 5)]
       else [word_of_nat (off div 2 ^ 8 + 7 * 2 ^ 5), word_of_nat (len - 7)])
      @ [word_of_nat off])"

definition lzf_bytes :: "lzf_tok list \<Rightarrow> byte list" where
  "lzf_bytes ts = concat (map tok_bytes ts)"

lemma length_copy_back [simp]: "length (copy_back d n acc) = length acc + n"
  by (induction n arbitrary: acc) simp_all

lemma lzf_expand_Nil [simp]: "lzf_expand acc [] = acc"
  and lzf_expand_Cons [simp]: "lzf_expand acc (t # ts) = lzf_expand (tok_apply acc t) ts"
  and lzf_expand_append [simp]: "lzf_expand acc (ts @ us) = lzf_expand (lzf_expand acc ts) us"
  by (simp_all add: lzf_expand_def)

lemma lzf_bytes_simps [simp]:
  "lzf_bytes [] = []" "lzf_bytes (t # ts) = tok_bytes t @ lzf_bytes ts"
  "lzf_bytes (ts @ us) = lzf_bytes ts @ lzf_bytes us"
  by (simp_all add: lzf_bytes_def)

lemma toks_ok_append [simp]:
  "toks_ok acc (ts @ us) \<longleftrightarrow> toks_ok acc ts \<and> toks_ok (lzf_expand acc ts) us"
  by (induction ts arbitrary: acc) auto

lemma length_tok_apply: "length acc \<le> length (tok_apply acc t)"
  by (cases t) simp_all

lemma length_lzf_expand: "length acc \<le> length (lzf_expand acc ts)"
proof (induction ts arbitrary: acc)
  case (Cons t ts)
  then show ?case using length_tok_apply [of acc t] order_trans by fastforce
qed simp

subsection \<open>The decompressor decodes the format\<close>

lemma lzf_copy_in_eq:
  "ip + n \<le> length ind \<Longrightarrow> op + n \<le> length out
    \<Longrightarrow> lzf_copy_in ind ip op n out = Some (mem_write op (mem_read ip n ind) out)"
proof (induction n arbitrary: ip op out)
  case 0
  then show ?case by (simp add: mem_read_def)
next
  case (Suc n)
  have "mem_write (op + 1) (mem_read (ip + 1) n ind) (out[op := ind ! ip])
      = mem_write op (mem_read ip (Suc n) ind) out"
    using Suc.prems
    by (intro nth_equalityI)
      (auto simp: mem_simps nth_list_update less_Suc_eq_le intro!: arg_cong [where f = "(!) ind"])
  then show ?case using Suc by simp
qed

lemma lzf_copy_out_step:
  "lzf_copy_out (int r) op (Suc n) out = do {
     c \<leftarrow> peek out r; out \<leftarrow> poke out op c; lzf_copy_out (int (r + 1)) (op + 1) n out }"
  by (simp add: add.commute)

lemma lzf_copy_out_eq:
  assumes "1 \<le> d" "d \<le> op" "op + n \<le> length out"
  shows "\<exists>out'. lzf_copy_out (int (op - d)) op n out = Some out' \<and> length out' = length out
    \<and> take (op + n) out' = copy_back d n (take op out)"
  using assms
proof (induction n arbitrary: op out)
  case (Suc n)
  let ?out = "out[op := out ! (op - d)]"
  from Suc.IH [of "op + 1" ?out] Suc.prems obtain out' where
    "lzf_copy_out (int (op - d + 1)) (op + 1) n ?out = Some out'" "length out' = length out"
    "take (op + 1 + n) out' = copy_back d n (take (op + 1) ?out)"
    by (auto simp: Suc_diff_le simp del: of_nat_diff of_nat_Suc)
  moreover have "take (op + 1) ?out = take op out @ [take op out ! (op - d)]"
    using Suc.prems by (simp add: take_Suc_conv_app_nth)
  ultimately show ?case
    unfolding lzf_copy_out_step using Suc.prems by (auto simp: min_def simp del: lzf_copy_out.simps of_nat_diff of_nat_Suc of_nat_add)
qed simp

text \<open>One item of the stream is decoded to one item of the format.\<close>

definition decodes :: "byte list \<Rightarrow> nat \<Rightarrow> nat \<Rightarrow> byte list \<Rightarrow> byte list \<Rightarrow> nat \<Rightarrow> byte list \<Rightarrow> bool" where
  "decodes ind out_len ip acc out ip' acc' \<longleftrightarrow>
     (\<exists>out'. lzf_item ind out_len ip (length acc) out = Some (Inr (ip', length acc', out'))
       \<and> length out' = length out \<and> take (length acc') out' = acc')"

lemma lzf_item_lits:
  assumes ind: "drop ip ind = tok_bytes (Lits xs) @ rest" and ok: "tok_ok k (Lits xs)"
    and out: "take (length acc) out = acc"
    and space: "length (acc @ xs) \<le> out_len" "out_len \<le> length out"
  shows "decodes ind out_len ip acc out (ip + length (tok_bytes (Lits xs))) (acc @ xs)"
proof -
  obtain c :: byte where c: "c = word_of_nat (length xs - 1)" by blast
  have "unat c = length xs - 1"
    unfolding c using ok by (intro unat_word_of_nat) auto
  then have uc: "unat c + 1 = length xs" "unat c < 2 ^ 5" using ok by auto
  from ind have "drop ip ind = c # xs @ rest" by (simp add: c)
  note rd = drop_eq_Cons_D [OF this]
  note xs = drop_eq_append_D [OF rd(3)]
  have nxs: "xs \<noteq> []" using ok by auto
  have copy: "lzf_copy_in ind (ip + 1) (length acc) (length xs) out
      = Some (mem_write (length acc) xs out)"
    using lzf_copy_in_eq [of "ip + 1" "length xs" ind "length acc" out] xs(1,2) nxs space by simp
  have "peek ind ip = Some c" using rd by simp
  then have "lzf_item ind out_len ip (length acc) out
      = Some (Inr (ip + 1 + length xs, length acc + length xs, mem_write (length acc) xs out))"
    using uc copy space(1) by (simp add: lzf_item_def Let_def)
  then show ?thesis
    using space out take_mem_write [of "length acc" xs out] by (simp add: decodes_def)
qed

text \<open>The two bytes that start a back reference carry the high bits of the offset.\<close>

lemma ctrl_copy:
  fixes off l :: nat
  assumes "off < MAX_OFF" "1 \<le> l" "l \<le> 7"
  defines "c \<equiv> word_of_nat (off div 2 ^ 8 + l * 2 ^ 5) :: byte"
  shows "unat c div 2 ^ 5 = l" "unat c mod 2 ^ 5 * 2 ^ 8 + off mod 2 ^ 8 = off" "\<not> unat c < 2 ^ 5"
proof -
  have hi: "off div 2 ^ 8 < 2 ^ 5"
    using assms(1) by (simp add: div_less_iff_less_mult)
  have "off div 2 ^ 8 + l * 2 ^ 5 < 2 ^ 8"
    using hi assms(3) by simp
  then have c: "unat c = off div 2 ^ 8 + l * 2 ^ 5"
    unfolding c_def by (intro unat_word_of_nat) simp
  show "unat c div 2 ^ 5 = l" "\<not> unat c < 2 ^ 5"
    unfolding c using hi assms(2) by simp_all
  have "unat c mod 2 ^ 5 = off div 2 ^ 8"
    unfolding c using hi by simp
  then show "unat c mod 2 ^ 5 * 2 ^ 8 + off mod 2 ^ 8 = off"
    by (simp only: div_mult_mod_eq)
qed

lemma lzf_item_ref:
  assumes c: "peek ind ip = Some c" "\<not> unat c < 2 ^ 5"
    and len: "if unat c div 2 ^ 5 = 7 then peek ind (ip + 1) = Some e \<and> len = 7 + unat e \<and> ip' = ip + 2
      else len = unat c div 2 ^ 5 \<and> ip' = ip + 1"
    and lo: "peek ind ip' = Some lo"
    and ref: "int op - int (unat c mod 2 ^ 5 * 2 ^ 8) - 1 - int (unat lo) = int r"
    and space: "op + len + 2 \<le> out_len"
    and copy: "lzf_copy_out (int r) op (len + 2) out = Some out'"
  shows "lzf_item ind out_len ip op out = Some (Inr (ip' + 1, op + (len + 2), out'))"
proof (cases "unat c div 2 ^ 5 = 7")
  case True
  then have "peek ind (ip + 1) = Some e" "len = 7 + unat e" "ip' = ip + 1 + 1"
    using len by auto
  then show ?thesis
    using c lo ref space copy True by (simp add: lzf_item_def Let_def)
next
  case False
  then have "len = unat c div 2 ^ 5" "ip' = ip + 1"
    using len by auto
  then show ?thesis
    using c lo ref space copy False by (simp add: lzf_item_def Let_def)
qed

lemma lzf_item_copy:
  assumes ind: "drop ip ind = tok_bytes (Copy d n) @ rest" and ok: "tok_ok (length acc) (Copy d n)"
    and out: "take (length acc) out = acc"
    and space: "length acc + n \<le> out_len" "out_len \<le> length out"
  shows "decodes ind out_len ip acc out (ip + length (tok_bytes (Copy d n))) (copy_back d n acc)"
proof -
  obtain off len where d: "d = off + 1" "d - Suc 0 = off" and n: "n = len + 2" "n - 2 = len"
    using ok by (metis Suc_eq_plus1 Suc_pred' diff_Suc_1 le_add_diff_inverse2 less_eq_Suc_le
        numeral_2_eq_2 add_diff_cancel_right' le_trans one_le_numeral tok_ok.simps(2) Suc_leD numeral_3_eq_3
        One_nat_def)
  have off: "off < MAX_OFF" and len: "1 \<le> len" "len \<le> 262"
    using ok d n by auto
  obtain out' where copy: "lzf_copy_out (int (length acc - d)) (length acc) (len + 2) out = Some out'"
    "length out' = length out" "take (length acc + n) out' = copy_back d n acc"
    using lzf_copy_out_eq [of d "length acc" n out] ok out space n
    by (auto simp del: lzf_copy_out.simps of_nat_diff add_2_eq_Suc')
  obtain lo :: byte where lo: "lo = word_of_nat off" by blast
  have ulo: "unat lo = off mod 2 ^ 8"
    unfolding lo by (simp add: unsigned_of_nat take_bit_eq_mod)
  obtain l where l: "l = (if len < 7 then len else 7)" by blast
  obtain c :: byte where c: "c = word_of_nat (off div 2 ^ 8 + l * 2 ^ 5)" by blast
  obtain e :: byte where e: "e = word_of_nat (len - 7)" by blast
  have ue: "unat e = len - 7"
    unfolding e using len by (intro unat_word_of_nat) auto
  have "1 \<le> l" "l \<le> 7" using len l by auto
  note ctrl = ctrl_copy [OF off this, folded c]
  have ref: "int (length acc) - int (unat c mod 2 ^ 5 * 2 ^ 8) - 1 - int (unat lo)
      = int (length acc - d)"
    using ok d ctrl(2) ulo by (simp add: of_nat_diff)
  have bytes: "tok_bytes (Copy d n) = (if len < 7 then [c, lo] else [c, e, lo])"
    by (simp add: Let_def d(2) n(2) c e lo l)
  let ?ip' = "if len < 7 then ip + 1 else ip + 2"
  have "peek ind ip = Some c \<and> peek ind ?ip' = Some lo \<and> (len < 7 \<or> peek ind (ip + 1) = Some e)"
    using ind unfolding bytes by (auto simp: drop_eq_Cons_conv split: if_splits)
  moreover have "unat c div 2 ^ 5 = 7 \<longleftrightarrow> \<not> len < 7"
    using ctrl(1) l by auto
  ultimately have "lzf_item ind out_len ip (length acc) out
      = Some (Inr (?ip' + 1, length acc + (len + 2), out'))"
    using ctrl ref copy(1) space n ue l
    by (intro lzf_item_ref [where c = c and e = e and lo = lo and r = "length acc - d"]) auto
  moreover have "length (tok_bytes (Copy d n)) = (if len < 7 then 2 else 3)"
    unfolding bytes by simp
  ultimately show ?thesis
    using copy(2,3) n by (simp add: decodes_def del: tok_bytes.simps copy_back.simps)
qed

lemma lzf_item_tok:
  assumes "drop ip ind = tok_bytes t @ rest" "tok_ok (length acc) t" "take (length acc) out = acc"
    and "length (tok_apply acc t) \<le> out_len" "out_len \<le> length out"
  shows "decodes ind out_len ip acc out (ip + length (tok_bytes t)) (tok_apply acc t)"
  using assms by (cases t) (auto intro!: lzf_item_lits lzf_item_copy simp del: tok_bytes.simps tok_ok.simps)

lemma tok_bytes_nonempty [simp]: "tok_bytes t \<noteq> []"
  by (cases t) (auto simp: Let_def)

lemma lzf_items_toks:
  assumes "drop ip ind = lzf_bytes ts @ rest" "ts \<noteq> []" "toks_ok acc ts"
    and "take (length acc) out = acc"
    and "length (lzf_expand acc ts) \<le> out_len" "out_len \<le> length out"
  shows "\<exists>out'. lzf_items ind (ip + length (lzf_bytes ts)) out_len ip (length acc) out
      = Some (length (lzf_expand acc ts), out')
    \<and> length out' = length out \<and> take (length (lzf_expand acc ts)) out' = lzf_expand acc ts"
  using assms
proof (induction ts arbitrary: ip acc out)
  case (Cons t ts)
  let ?ip = "ip + length (tok_bytes t)" and ?acc = "tok_apply acc t"
  have "length ?acc \<le> out_len"
    using Cons.prems(5) length_lzf_expand [of ?acc ts] by simp
  then have "decodes ind out_len ip acc out ?ip ?acc"
    using Cons.prems by (intro lzf_item_tok [where rest = "lzf_bytes ts @ rest"]) auto
  then obtain out' where item: "lzf_item ind out_len ip (length acc) out = Some (Inr (?ip, length ?acc, out'))"
    "length out' = length out" "take (length ?acc) out' = ?acc"
    unfolding decodes_def by blast
  show ?case
  proof (cases "ts = []")
    case True
    then show ?thesis using item by (simp add: lzf_items.simps)
  next
    case False
    have "drop ?ip ind = lzf_bytes ts @ rest"
      using Cons.prems(1) by (simp add: drop_eq_append_D(3))
    moreover have "toks_ok ?acc ts" "length (lzf_expand ?acc ts) \<le> out_len" "out_len \<le> length out'"
      using Cons.prems item by simp_all
    ultimately obtain out2 where rest:
      "lzf_items ind (?ip + length (lzf_bytes ts)) out_len ?ip (length ?acc) out'
        = Some (length (lzf_expand ?acc ts), out2)"
      "length out2 = length out" "take (length (lzf_expand ?acc ts)) out2 = lzf_expand ?acc ts"
      using Cons.IH [of ?ip ?acc out'] False item by auto
    have "lzf_bytes ts \<noteq> []"
      using False by (cases ts) simp_all
    then show ?thesis
      using item rest by (simp add: lzf_items.simps [of ind _ out_len ip] add.assoc)
  qed
qed simp

theorem lzf_decompress_toks:
  assumes "toks_ok [] ts" "ts \<noteq> []" "length (lzf_expand [] ts) \<le> out_len" "out_len \<le> length out"
  shows "\<exists>out'. lzf_decompress (lzf_bytes ts @ rest) (length (lzf_bytes ts)) out out_len
      = Some (length (lzf_expand [] ts), out')
    \<and> length out' = length out \<and> take (length (lzf_expand [] ts)) out' = lzf_expand [] ts"
  using lzf_items_toks [of 0 "lzf_bytes ts @ rest" ts rest "[]" out out_len] assms
  by (simp add: lzf_decompress_def)

subsection \<open>The compressor produces the format\<close>

text \<open>
  \<open>done_inv\<close>: the first \<open>n\<close> bytes of the output encode the first \<open>ip\<close> bytes of the input.
  \<open>run_inv\<close>: all but the last \<open>lit\<close> of the \<open>ip\<close> bytes are encoded, and these stand in the
  output as a run whose length byte, at \<open>op - lit - 1\<close>, is still to be written.
\<close>

definition done_inv :: "byte list \<Rightarrow> byte list \<Rightarrow> nat \<Rightarrow> nat \<Rightarrow> bool" where
  "done_inv ind out ip n \<longleftrightarrow> (\<exists>ts. toks_ok [] ts \<and> length (lzf_bytes ts) = n
     \<and> take n out = lzf_bytes ts \<and> lzf_expand [] ts = take ip ind)"

definition run_inv :: "byte list \<Rightarrow> byte list \<Rightarrow> nat \<Rightarrow> nat \<Rightarrow> nat \<Rightarrow> bool" where
  "run_inv ind out ip op lit \<longleftrightarrow> lit \<le> MAX_LIT \<and> lit \<le> ip \<and> ip \<le> length ind \<and> lit + 1 \<le> op
     \<and> done_inv ind out (ip - lit) (op - lit - 1)
     \<and> mem_read (op - lit) lit out = mem_read (ip - lit) lit ind"

lemma run_inv_start: "done_inv ind out ip n \<Longrightarrow> ip \<le> length ind \<Longrightarrow> run_inv ind out ip (n + 1) 0"
  by (simp add: run_inv_def mem_read_def)

lemma done_inv_cong: "done_inv ind out ip n \<Longrightarrow> take n out' = take n out \<Longrightarrow> done_inv ind out' ip n"
  by (simp add: done_inv_def)

lemma done_inv_tok:
  assumes "done_inv ind out ip n" "tok_ok ip t" "ip \<le> length ind"
    and "tok_apply (take ip ind) t = take ip' ind"
    and "take (n + length (tok_bytes t)) out = take n out @ tok_bytes t"
  shows "done_inv ind out ip' (n + length (tok_bytes t))"
proof -
  obtain ts where ts: "toks_ok [] ts" "length (lzf_bytes ts) = n" "take n out = lzf_bytes ts"
      "lzf_expand [] ts = take ip ind"
    using assms(1) by (auto simp: done_inv_def)
  then have "toks_ok [] (ts @ [t])" "lzf_expand [] (ts @ [t]) = take ip' ind"
    "lzf_bytes (ts @ [t]) = lzf_bytes ts @ tok_bytes t"
    using assms(2-4) by simp_all
  then show ?thesis
    unfolding done_inv_def using ts(2,3) assms(5) by (metis length_append)
qed

text \<open>Closing a run, with the byte before it taken back when it is empty.\<close>

lemma lzf_stop_run_inv:
  assumes inv: "run_inv ind out ip op lit" and op: "op \<le> length out"
  shows "\<exists>out'. lzf_stop_run out op lit = Some out' \<and> length out' = length out
    \<and> done_inv ind out' ip (lzf_undo_run op lit)"
proof -
  let ?n = "op - lit - 1" and ?b = "word_of_nat lit - 1 :: byte"
  let ?out = "out[?n := ?b]"
  have b: "lit + 1 \<le> op" "lit \<le> ip" "ip \<le> length ind" "lit \<le> MAX_LIT"
    and old: "done_inv ind out (ip - lit) ?n"
    and run: "mem_read (op - lit) lit out = mem_read (ip - lit) lit ind"
    using inv by (auto simp: run_inv_def)
  have stop: "lzf_stop_run out op lit = Some ?out"
    using b op by (simp add: lzf_stop_run_def)
  have new: "done_inv ind ?out (ip - lit) ?n"
    using old by (rule done_inv_cong) simp
  show ?thesis
  proof (cases "lit = 0")
    case True
    then show ?thesis using stop new by (simp add: lzf_undo_run_def)
  next
    case False
    let ?xs = "mem_read (ip - lit) lit ind"
    have len: "length ?xs = lit" using b by simp
    have "word_of_nat (lit - 1) = ?b" using False by (simp add: of_nat_diff)
    then have tok: "tok_bytes (Lits ?xs) = ?b # ?xs" using len by simp
    have "take (?n + (1 + lit)) ?out = take ?n ?out @ ?b # ?xs"
    proof (rule nth_equalityI)
      show "length (take (?n + (1 + lit)) ?out) = length (take ?n ?out @ ?b # ?xs)"
        using b op len by simp
    next
      fix i assume "i < length (take (?n + (1 + lit)) ?out)"
      then have i: "i < op" using b op by simp
      show "take (?n + (1 + lit)) ?out ! i = (take ?n ?out @ ?b # ?xs) ! i"
      proof (cases "i \<le> ?n")
        case True
        then show ?thesis using b op by (auto simp: nth_append)
      next
        case False
        then obtain k where k: "i = ?n + (1 + k)" "k < lit"
          using i b by (intro that [of "i - ?n - 1"]) auto
        have "out ! (op - lit + k) = ?xs ! k"
          using run [symmetric] k b op by (simp add: nth_mem_read)
        moreover have "op - lit + k = i" "i < ?n + (1 + lit)" "i \<noteq> ?n" using k b by simp_all
        moreover have "length (take ?n ?out) = ?n" using op by simp
        then have "(take ?n ?out @ ?b # ?xs) ! i = ?xs ! k"
          unfolding k(1) by (metis nth_Cons_Suc nth_append_length_plus plus_1_eq_Suc)
        ultimately show ?thesis by (metis nth_list_update_neq nth_take)
      qed
    qed
    moreover have "take (ip - lit) ind @ ?xs = take ip ind"
      using b by (metis le_add_diff_inverse2 mem_read_def take_add)
    ultimately have "done_inv ind ?out ip (?n + length (tok_bytes (Lits ?xs)))"
      using False b len tok
      by (intro done_inv_tok [OF new]) (simp_all del: tok_bytes.simps)
    moreover have "?n + length (tok_bytes (Lits ?xs)) = op"
      using b len by simp
    ultimately show ?thesis
      using stop False by (simp add: lzf_undo_run_def)
  qed
qed

definition lzf_inv :: "byte list \<Rightarrow> lzf_state \<Rightarrow> bool" where
  "lzf_inv ind s \<longleftrightarrow> run_inv ind (lz_out s) (lz_ip s) (lz_op s) (lz_lit s) \<and> lz_lit s < MAX_LIT"

text \<open>One more literal byte extends the pending run.\<close>

lemma run_inv_literal:
  assumes inv: "run_inv ind out ip op lit" and "lit < MAX_LIT" "ip < length ind" "op < length out"
  shows "run_inv ind (out[op := ind ! ip]) (ip + 1) (op + 1) (lit + 1)"
proof -
  have b: "lit + 1 \<le> op" "lit \<le> ip" and old: "done_inv ind out (ip - lit) (op - lit - 1)"
    and run: "mem_read (op - lit) lit out = mem_read (ip - lit) lit ind"
    using inv by (auto simp: run_inv_def)
  have "done_inv ind (out[op := ind ! ip]) (ip - lit) (op - lit - 1)"
    using old by (rule done_inv_cong) simp
  moreover have "mem_read (op - lit) (lit + 1) (out[op := ind ! ip]) = mem_read (ip - lit) (lit + 1) ind"
  proof (rule nth_equalityI)
    fix k assume "k < length (mem_read (op - lit) (lit + 1) (out[op := ind ! ip]))"
    then have k: "k < lit + 1" using assms b by simp
    show "mem_read (op - lit) (lit + 1) (out[op := ind ! ip]) ! k = mem_read (ip - lit) (lit + 1) ind ! k"
    proof (cases "k = lit")
      case True
      then show ?thesis using assms b by (simp add: nth_mem_read)
    next
      case False
      then have "k < lit" using k by simp
      moreover from this have "out ! (op - lit + k) = ind ! (ip - lit + k)"
        using arg_cong [OF run, of "\<lambda>l. l ! k"] b assms by (simp add: nth_mem_read)
      ultimately show ?thesis using assms b by (simp add: nth_mem_read)
    qed
  qed (use assms b in simp)
  ultimately show ?thesis
    using assms b by (simp add: run_inv_def)
qed

lemma lzf_literal_inv:
  assumes inv: "lzf_inv ind s" and space: "lz_ip s < length ind" "lz_op s < length (lz_out s)"
  shows "\<exists>s'. lzf_literal ind s = Some s' \<and> lzf_inv ind s' \<and> lz_ip s' = lz_ip s + 1
    \<and> length (lz_out s') = length (lz_out s) \<and> lz_op s' \<le> lz_op s + 2
    \<and> lzf_undo_run (lz_op s') (lz_lit s') \<le> lz_op s + 1
    \<and> (lz_lit s' \<noteq> 0 \<or> lz_lit s = 0 \<longrightarrow> lz_op s' = lz_op s + 1)"
proof -
  let ?out = "(lz_out s)[lz_op s := ind ! lz_ip s]"
  have run: "run_inv ind ?out (lz_ip s + 1) (lz_op s + 1) (lz_lit s + 1)"
    using assms unfolding lzf_inv_def by (intro run_inv_literal) auto
  show ?thesis
  proof (cases "lz_lit s + 1 = MAX_LIT")
    case False
    then show ?thesis
      using assms run by (simp add: lzf_literal_def Let_def lzf_inv_def lzf_undo_run_def)
  next
    case True
    obtain out' where out': "lzf_stop_run ?out (lz_op s + 1) (lz_lit s + 1) = Some out'"
      "length out' = length ?out" "done_inv ind out' (lz_ip s + 1) (lz_op s + 1)"
      using lzf_stop_run_inv [OF run] space by (auto simp: lzf_undo_run_def)
    have "run_inv ind out' (lz_ip s + 1) (lz_op s + 1 + 1) 0"
      using out'(3) space by (intro run_inv_start) auto
    then show ?thesis
      using space out'(1,2) True by (simp add: lzf_literal_def Let_def lzf_inv_def lzf_undo_run_def)
  qed
qed

text \<open>The match: what the back reference may copy.\<close>

definition matches :: "byte list \<Rightarrow> nat \<Rightarrow> nat \<Rightarrow> nat \<Rightarrow> bool" where
  "matches ind ref ip n \<longleftrightarrow> ref < ip \<and> ip + n \<le> length ind \<and> (\<forall>j<n. ind ! (ref + j) = ind ! (ip + j))"

lemma matches_Suc:
  "matches ind ref ip n \<Longrightarrow> ip + n < length ind \<Longrightarrow> ind ! (ref + n) = ind ! (ip + n)
    \<Longrightarrow> matches ind ref ip (Suc n)"
  by (auto simp: matches_def less_Suc_eq)

lemma lzf_match_Some:
  assumes "ip + 2 < length ind"
  shows "\<exists>b. lzf_match ind slot ip = Some b \<and> (b \<longrightarrow> (\<exists>ref. slot = Some ref \<and> matches ind ref ip 3
    \<and> ip - ref \<le> MAX_OFF \<and> ip + 4 < length ind))"
  using assms
  by (auto simp: lzf_match_def matches_def numeral_3_eq_3 less_Suc_eq split: option.splits)

lemma lzf_cmp_tail_matches:
  assumes "matches ind ref ip (len + 1)" "ip + maxlen < length ind"
  shows "\<exists>n. lzf_cmp_tail ind ref ip maxlen len = Some n \<and> matches ind ref ip n
    \<and> len + 1 \<le> n \<and> n \<le> max maxlen (len + 1)"
  using assms
proof (induction ind ref ip maxlen len rule: lzf_cmp_tail.induct)
  case (1 ind ref ip maxlen len)
  show ?case
  proof (cases "len + 1 < maxlen \<and> ind ! (ref + (len + 1)) = ind ! (ip + (len + 1))")
    case True
    moreover have "matches ind ref ip (len + 1 + 1)"
      using 1 True by (simp add: matches_Suc)
    moreover have "ref < ip" using 1 by (simp add: matches_def)
    ultimately obtain n where "lzf_cmp_tail ind ref ip maxlen (len + 1) = Some n" "matches ind ref ip n"
      "len + 1 + 1 \<le> n" "n \<le> max maxlen (len + 1 + 1)"
      using 1 by fastforce
    then show ?thesis
      using 1 True \<open>ref < ip\<close> by (subst lzf_cmp_tail.simps) auto
  next
    case False
    moreover have "ref < ip" using 1 by (simp add: matches_def)
    ultimately show ?thesis
      using 1 by (subst lzf_cmp_tail.simps) auto
  qed
qed

lemma lzf_cmp16_matches:
  assumes "matches ind ref ip (len + 1)" "ip + len + n < length ind"
  shows "\<exists>m stop. lzf_cmp16 ind ref ip n len = Some (m, stop) \<and> len \<le> m \<and> m \<le> len + n
    \<and> (if stop then len < m \<and> matches ind ref ip m else m = len + n \<and> matches ind ref ip (m + 1))"
  using assms
proof (induction n arbitrary: len)
  case (Suc n)
  have le: "ref < ip" using Suc.prems by (simp add: matches_def)
  show ?case
  proof (cases "ind ! (ref + (len + 1)) = ind ! (ip + (len + 1))")
    case True
    have "matches ind ref ip (len + 1 + 1)"
      using Suc.prems True by (simp add: matches_Suc)
    then obtain m stop where "lzf_cmp16 ind ref ip n (len + 1) = Some (m, stop)"
      "len + 1 \<le> m" "m \<le> len + 1 + n"
      "if stop then len + 1 < m \<and> matches ind ref ip m
       else m = len + 1 + n \<and> matches ind ref ip (m + 1)"
      using Suc.IH [of "len + 1"] Suc.prems by auto
    then show ?thesis using True Suc.prems le by (auto split: if_splits)
  qed (use Suc.prems le in auto)
qed (auto intro: exI [of _ False])

lemma lzf_match_len_matches:
  assumes m: "matches ind ref ip 3" and "ip + 4 < length ind" and maxlen: "ip + maxlen + 2 \<le> length ind" "maxlen \<le> MAX_REF"
    "3 \<le> maxlen"
  shows "\<exists>n. lzf_match_len ind ref ip maxlen = Some n \<and> matches ind ref ip n \<and> 3 \<le> n \<and> n \<le> MAX_REF"
proof (cases "maxlen > 16")
  case True
  obtain k stop where k: "lzf_cmp16 ind ref ip 16 2 = Some (k, stop)" "2 \<le> k" "k \<le> 18"
    "if stop then 2 < k \<and> matches ind ref ip k else k = 2 + 16 \<and> matches ind ref ip (k + 1)"
    using lzf_cmp16_matches [of ind ref ip 2 16] assms True by auto
  show ?thesis
  proof (cases stop)
    case True
    then show ?thesis using k \<open>maxlen > 16\<close> by (auto simp: lzf_match_len_def)
  next
    case False
    then obtain n where "lzf_cmp_tail ind ref ip maxlen k = Some n" "matches ind ref ip n"
      "k + 1 \<le> n" "n \<le> max maxlen (k + 1)"
      using lzf_cmp_tail_matches [of ind ref ip k maxlen] k maxlen by auto
    then show ?thesis using k False \<open>maxlen > 16\<close> maxlen by (auto simp: lzf_match_len_def)
  qed
next
  case False
  obtain n where "lzf_cmp_tail ind ref ip maxlen 2 = Some n" "matches ind ref ip n"
    "3 \<le> n" "n \<le> max maxlen 3"
    using lzf_cmp_tail_matches [of ind ref ip 2 maxlen] m maxlen by auto
  then show ?thesis using False maxlen by (auto simp: lzf_match_len_def)
qed

lemma copy_back_matches:
  "matches ind ref ip n \<Longrightarrow> copy_back (ip - ref) n (take ip ind) = take (ip + n) ind"
proof (induction n arbitrary: ref ip)
  case (Suc n)
  then have b: "ref < ip" "ip < length ind" "ind ! ref = ind ! ip"
    by (auto simp: matches_def dest: spec [of _ 0])
  have "matches ind (ref + 1) (ip + 1) n"
    using Suc.prems by (auto simp: matches_def dest: spec [of _ "Suc _"])
  from Suc.IH [OF this] b show ?case
    by (simp add: take_Suc_conv_app_nth min_def)
qed simp

text \<open>A back reference is emitted after the closed run.\<close>

lemma lzf_emit_inv:
  assumes inv: "done_inv ind out ip op" "ip \<le> length ind"
    and ok: "tok_ok ip (Copy d n)" and copy: "copy_back d n (take ip ind) = take (ip + n) ind"
    and space: "op + 3 \<le> length out"
  shows "\<exists>out1 op1 out2. lzf_emit out op (d - 1) (n - 2) = Some (out1, op1)
    \<and> poke out1 op1 (word_of_nat (d - 1)) = Some out2 \<and> length out2 = length out
    \<and> op1 \<le> op + 2 \<and> done_inv ind out2 (ip + n) (op1 + 1)"
proof -
  let ?b = "tok_bytes (Copy d n)"
  define l where "l = length ?b"
  have l: "l = (if n - 2 < 7 then 2 else 3)" by (simp add: l_def Let_def)
  obtain c :: byte
    where c: "c = word_of_nat ((d - 1) div 2 ^ 8 + (if n - 2 < 7 then n - 2 else 7) * 2 ^ 5)" by blast
  obtain e :: byte where e: "e = word_of_nat (n - 2 - 7)" by blast
  obtain lo :: byte where lo: "lo = word_of_nat (d - 1)" by blast
  have b: "?b = (if n - 2 < 7 then [c, lo] else [c, e, lo])"
    by (simp add: Let_def c e lo)
  let ?out2 = "if n - 2 < 7 then out[op := c, op + 1 := lo] else out[op := c, op + 1 := e, op + 2 := lo]"
  have "take (op + l) ?out2 = take op out @ ?b"
    using space by (auto simp: l b take_Suc_conv_app_nth numeral_3_eq_3 simp del: tok_bytes.simps)
  moreover have "done_inv ind ?out2 ip op"
    using inv(1) by (rule done_inv_cong) simp
  ultimately have "done_inv ind ?out2 (ip + n) (op + l)"
    using done_inv_tok [of ind ?out2 ip op "Copy d n" "ip + n"] inv(2) ok copy
    by (simp add: l_def del: tok_bytes.simps tok_ok.simps)
  then show ?thesis
    using space by (auto simp: lzf_emit_def c e lo l numeral_3_eq_3)
qed

lemma FRST_inside: "p + 1 < length ind
    \<Longrightarrow> FRST ind p = Some (push_bit 8 (ucast (ind ! p)) OR ucast (ind ! (p + 1)))"
  and NEXT_inside: "p + 2 < length ind \<Longrightarrow> NEXT v ind p = Some (push_bit 8 v OR ucast (ind ! (p + 2)))"
  by (simp_all add: FRST_def NEXT_def)

lemma lzf_backref_inv:
  assumes inv: "lzf_inv ind s" and m: "matches ind ref (lz_ip s) 3"
    and off: "lz_ip s - ref \<le> MAX_OFF" and ip: "lz_ip s + 4 < length ind"
    and space: "lzf_undo_run (lz_op s) (lz_lit s) + 4 < out_len" "out_len \<le> length (lz_out s)"
  shows "\<exists>s' brk. lzf_backref ind s ref = Some (s', brk) \<and> lzf_inv ind s'
    \<and> length (lz_out s') = length (lz_out s) \<and> lz_op s' \<le> out_len
    \<and> (brk \<longrightarrow> lz_ip s' + 2 \<ge> length ind)"
proof -
  let ?ip = "lz_ip s" and ?op = "lzf_undo_run (lz_op s) (lz_lit s)" and ?d = "lz_ip s - ref"
  let ?max = "let m = length ind - ?ip - 2 in if m > MAX_REF then MAX_REF else m"
  have "lz_op s \<le> length (lz_out s)"
    using space by (auto simp: lzf_undo_run_def split: if_splits)
  then obtain out0 where stop: "lzf_stop_run (lz_out s) (lz_op s) (lz_lit s) = Some out0"
    "length out0 = length (lz_out s)" "done_inv ind out0 ?ip ?op"
    using lzf_stop_run_inv inv unfolding lzf_inv_def by blast
  have max: "?ip + ?max + 2 \<le> length ind" "?max \<le> MAX_REF" "3 \<le> ?max"
    using ip by (auto simp: Let_def)
  obtain n where len: "lzf_match_len ind ref ?ip ?max = Some n" "matches ind ref ?ip n" "3 \<le> n" "n \<le> MAX_REF"
    using lzf_match_len_matches [OF m ip, of ?max] max by blast
  have b: "ref < ?ip" "?ip + n \<le> length ind"
    using len(2) by (auto simp: matches_def)
  have tok: "tok_ok ?ip (Copy ?d n)"
    using b off len(3,4) by simp
  obtain out1 op1 out2 where emit: "lzf_emit out0 ?op (?d - 1) (n - 2) = Some (out1, op1)"
    "poke out1 op1 (word_of_nat (?d - 1)) = Some out2" "length out2 = length out0"
    "op1 \<le> ?op + 2" "done_inv ind out2 (?ip + n) (op1 + 1)"
    using lzf_emit_inv [OF stop(3) _ tok copy_back_matches [OF len(2)]] b space stop(2) by fastforce
  have run: "run_inv ind out2 (?ip + n) (op1 + 2) 0"
    using run_inv_start [OF emit(5) b(2)] by simp
  have n: "?ip + 1 + (n - 2 + 1) = ?ip + n" using len(3) by simp
  let ?s = "s\<lparr>lz_ip := ?ip + n, lz_op := op1 + 2, lz_lit := 0, lz_out := out2\<rparr>"
  have eq: "lzf_backref ind s ref =
     (if ?ip + n \<ge> length ind - 2 then Some (?s, True)
      else do {
       h \<leftarrow> FRST ind (?ip + n - 2);
       h \<leftarrow> NEXT h ind (?ip + n - 2);
       let htab = (lz_htab s)(IDX h := Some (?ip + n - 2));
       h \<leftarrow> NEXT h ind (?ip + n - 1);
       let htab = htab(IDX h := Some (?ip + n - 1));
       Some (s\<lparr>lz_ip := ?ip + n, lz_op := op1 + 2, lz_lit := 0, lz_hval := h, lz_htab := htab,
         lz_out := out2\<rparr>, False) })"
    unfolding lzf_backref_def Let_def
    by (simp only: stop(1) len(1) [unfolded Let_def] emit(1,2) n bind.bind_lunit prod.case)
  obtain s' brk where "lzf_backref ind s ref = Some (s', brk)"
      "lz_ip s' = ?ip + n" "lz_op s' = op1 + 2" "lz_lit s' = 0" "lz_out s' = out2"
      "brk \<longrightarrow> ?ip + n \<ge> length ind - 2"
    unfolding eq using len(3)
    by (cases "?ip + n \<ge> length ind - 2") (auto simp: Let_def FRST_inside NEXT_inside)
  then show ?thesis
    using run space emit stop(2) by (auto simp: lzf_inv_def intro!: exI)
qed

text \<open>One round of the main loop, and the loop.\<close>

definition lzf_outcome_ok :: "byte list \<Rightarrow> nat \<Rightarrow> nat \<Rightarrow> lzf_outcome \<Rightarrow> bool" where
  "lzf_outcome_ok ind out_len olen r = (case r of
     Fail out \<Rightarrow> length out = olen
   | Done s \<Rightarrow> lzf_inv ind s \<and> length (lz_out s) = olen \<and> lz_ip s + 2 \<ge> length ind)"

lemma lzf_round_inv:
  assumes inv: "lzf_inv ind s" and ip: "lz_ip s + 2 < length ind"
    and out: "out_len \<le> length (lz_out s)"
  shows "\<exists>r. lzf_round ind out_len s = Some r
    \<and> (case r of Inl r \<Rightarrow> lzf_outcome_ok ind out_len (length (lz_out s)) r
      | Inr s' \<Rightarrow> lzf_inv ind s' \<and> length (lz_out s') = length (lz_out s))"
proof -
  obtain h where h: "NEXT (lz_hval s) ind (lz_ip s) = Some h"
    using ip by (auto simp: NEXT_def)
  define s1 where "s1 = s\<lparr>lz_hval := h, lz_htab := (lz_htab s)(IDX h := Some (lz_ip s))\<rparr>"
  have s1: "lzf_inv ind s1" "lz_ip s1 = lz_ip s" "lz_op s1 = lz_op s" "lz_lit s1 = lz_lit s"
      "lz_out s1 = lz_out s"
    using inv by (simp_all add: s1_def lzf_inv_def)
  define slot where "slot = lz_htab s (IDX h)"
  obtain b where b: "lzf_match ind slot (lz_ip s) = Some b"
    "b \<longrightarrow> (\<exists>ref. slot = Some ref \<and> matches ind ref (lz_ip s) 3
      \<and> lz_ip s - ref \<le> MAX_OFF \<and> lz_ip s + 4 < length ind)"
    using lzf_match_Some [OF ip] by blast
  let ?u = "lzf_undo_run (lz_op s) (lz_lit s)"
  have u: "?u \<le> lz_op s" by (simp add: lzf_undo_run_def)
  have round: "lzf_round ind out_len s = (if b then
       (if lz_op s + 3 + 1 \<ge> out_len \<and> ?u + 3 + 1 \<ge> out_len then Some (Inl (Fail (lz_out s)))
        else do { (s, brk) \<leftarrow> lzf_backref ind s1 (the slot);
          Some (if brk then Inl (Done s) else Inr s) })
     else (if lz_op s \<ge> out_len then Some (Inl (Fail (lz_out s)))
        else do { s \<leftarrow> lzf_literal ind s1; Some (Inr s) }))"
    unfolding lzf_round_def Let_def h using b(1)
    by (simp add: s1_def slot_def)
  consider (fail) "b" "lz_op s + 3 + 1 \<ge> out_len \<and> ?u + 3 + 1 \<ge> out_len" | (full) "\<not> b" "lz_op s \<ge> out_len"
    | (ref) "b" "?u + 4 < out_len" | (lit) "\<not> b" "lz_op s < out_len"
    using u by (cases b; cases "?u + 4 < out_len"; cases "lz_op s < out_len") auto
  then show ?thesis
  proof cases
    case ref
    obtain p where p: "slot = Some p" "matches ind p (lz_ip s) 3" "lz_ip s - p \<le> MAX_OFF"
      "lz_ip s + 4 < length ind" using b(2) ref(1) by blast
    obtain s' brk where "lzf_backref ind s1 p = Some (s', brk)" "lzf_inv ind s'"
      "length (lz_out s') = length (lz_out s)" "brk \<longrightarrow> lz_ip s' + 2 \<ge> length ind"
      using lzf_backref_inv [OF s1(1), of p out_len] s1(2-5) p ref(2) out by auto
    then show ?thesis using ref p(1) by (auto simp: round lzf_outcome_ok_def)
  next
    case lit
    then show ?thesis
      using lzf_literal_inv [OF s1(1)] s1(2-5) ip out by (auto simp: round)
  qed (auto simp: round lzf_outcome_ok_def)
qed

lemma lzf_main_inv:
  assumes "lzf_inv ind s" "out_len \<le> length (lz_out s)"
  shows "\<exists>r. lzf_main ind out_len s = Some r \<and> lzf_outcome_ok ind out_len (length (lz_out s)) r"
  using assms
proof (induction ind out_len s rule: lzf_main.induct)
  case (1 ind out_len s)
  show ?case
  proof (cases "lz_ip s + 2 < length ind")
    case True
    then obtain r where "lzf_round ind out_len s = Some r"
      "case r of Inl r \<Rightarrow> lzf_outcome_ok ind out_len (length (lz_out s)) r
        | Inr s' \<Rightarrow> lzf_inv ind s' \<and> length (lz_out s') = length (lz_out s)"
      using lzf_round_inv [OF 1(2) _ 1(3)] by blast
    then show ?thesis
      using 1 True by (subst lzf_main.simps) (auto split: sum.splits)
  next
    case False
    then show ?thesis
      using 1 by (subst lzf_main.simps) (simp add: lzf_outcome_ok_def)
  qed
qed

lemma lzf_last_inv:
  assumes inv: "lzf_inv ind s" and ip: "lz_ip s + 2 \<ge> length ind" and op: "lz_op s + 3 \<le> length (lz_out s)"
  shows "\<exists>s'. lzf_last ind s = Some s' \<and> lzf_inv ind s' \<and> lz_ip s' = length ind
    \<and> length (lz_out s') = length (lz_out s) \<and> lz_op s' \<le> lz_op s + 3
    \<and> lzf_undo_run (lz_op s') (lz_lit s') \<le> lz_op s + 3"
proof (cases "lz_ip s < length ind")
  case False
  then show ?thesis
    using inv by (subst lzf_last.simps) (auto simp: lzf_inv_def run_inv_def lzf_undo_run_def)
next
  case True
  obtain s1 where s1: "lzf_literal ind s = Some s1" "lzf_inv ind s1" "lz_ip s1 = lz_ip s + 1"
    "length (lz_out s1) = length (lz_out s)" "lz_op s1 \<le> lz_op s + 2"
    "lzf_undo_run (lz_op s1) (lz_lit s1) \<le> lz_op s + 1"
    "lz_lit s1 \<noteq> 0 \<or> lz_lit s = 0 \<longrightarrow> lz_op s1 = lz_op s + 1"
    using lzf_literal_inv [OF inv True] op by auto
  show ?thesis
  proof (cases "lz_ip s1 < length ind")
    case False
    moreover have "lz_ip s1 = length ind" using False True s1(3) by simp
    ultimately show ?thesis
      using True s1 by (simp add: lzf_last.simps [of ind s] lzf_last.simps [of ind s1])
  next
    case more: True
    obtain s2 where s2: "lzf_literal ind s1 = Some s2" "lzf_inv ind s2" "lz_ip s2 = lz_ip s1 + 1"
      "length (lz_out s2) = length (lz_out s1)" "lz_op s2 \<le> lz_op s1 + 2"
      "lzf_undo_run (lz_op s2) (lz_lit s2) \<le> lz_op s1 + 1"
      "lz_lit s2 \<noteq> 0 \<or> lz_lit s1 = 0 \<longrightarrow> lz_op s2 = lz_op s1 + 1"
      using lzf_literal_inv [OF s1(2) more] s1(4,5) op by auto
    have "lz_ip s2 = length ind" using more ip s1(3) s2(3) by simp
    moreover have "lz_op s2 \<le> lz_op s + 3"
      using s1(5,7) s2(5,7) by (cases "lz_lit s1 = 0") auto
    ultimately show ?thesis
      using True more s1 s2
      by (simp add: lzf_last.simps [of ind s] lzf_last.simps [of ind s1] lzf_last.simps [of ind s2])
  qed
qed

subsection \<open>Compressing and decompressing\<close>

text \<open>
  Compression of two bytes or more never leaves its buffers, and what it returns is 0 or the
  length of an encoding of the input that fits the space it was given.
\<close>

lemma lzf_compress_encodes:
  assumes len: "2 \<le> length ind" and out: "out_len \<le> length out"
  shows "\<exists>r out'. lzf_compress ind out out_len = Some (r, out') \<and> length out' = length out
    \<and> r \<le> out_len \<and> (r \<noteq> 0 \<longrightarrow> done_inv ind out' (length ind) r)"
proof (cases "out_len = 0")
  case True
  then show ?thesis by (simp add: lzf_compress_def)
next
  case False
  obtain h where h: "FRST ind 0 = Some h"
    using len by (auto simp: FRST_inside)
  let ?s0 = "\<lparr>lz_ip = 0, lz_op = 1, lz_lit = 0, lz_hval = h, lz_htab = (\<lambda>_. None), lz_out = out\<rparr>"
  have "lzf_inv ind ?s0"
    by (auto simp: lzf_inv_def run_inv_def done_inv_def mem_read_def intro!: exI [of _ "[]"])
  then obtain r where r: "lzf_main ind out_len ?s0 = Some r" "lzf_outcome_ok ind out_len (length out) r"
    using lzf_main_inv [of ind ?s0 out_len] out by auto
  show ?thesis
  proof (cases r)
    case (Fail out')
    then show ?thesis
      using r h len False by (auto simp: lzf_compress_def lzf_outcome_ok_def)
  next
    case (Done s)
    then have s: "lzf_inv ind s" "length (lz_out s) = length out" "lz_ip s + 2 \<ge> length ind"
      using r(2) by (simp_all add: lzf_outcome_ok_def)
    show ?thesis
    proof (cases "lz_op s + 3 > out_len")
      case True
      then show ?thesis using r h len False Done s by (auto simp: lzf_compress_def)
    next
      case fits: False
      obtain s' where s': "lzf_last ind s = Some s'" "lzf_inv ind s'" "lz_ip s' = length ind"
        "length (lz_out s') = length out" "lzf_undo_run (lz_op s') (lz_lit s') \<le> lz_op s + 3"
        "lz_op s' \<le> length out"
        using lzf_last_inv [OF s(1,3)] s(2) fits out by auto
      then obtain out' where "lzf_stop_run (lz_out s') (lz_op s') (lz_lit s') = Some out'"
        "length out' = length out" "done_inv ind out' (length ind) (lzf_undo_run (lz_op s') (lz_lit s'))"
        using lzf_stop_run_inv [of ind "lz_out s'" "lz_ip s'"] by (auto simp: lzf_inv_def)
      then show ?thesis
        using r h len False Done fits s s' by (auto simp: lzf_compress_def)
    qed
  qed
qed

text \<open>The header fields are the big-endian bytes of their value.\<close>

definition be_bytes :: "nat \<Rightarrow> u32 \<Rightarrow> byte list" where
  "be_bytes n v = map (\<lambda>i. ucast (drop_bit (8 * (n - 1 - i)) v)) [0..<n]"

lemma length_be_bytes [simp]: "length (be_bytes n v) = n"
  by (simp add: be_bytes_def)

lemma be_bytes_simps:
  "be_bytes (Suc 0) v = [ucast v]" "be_bytes 2 v = [ucast (drop_bit 8 v), ucast v]"
  "be_bytes 4 v = [ucast (drop_bit 24 v), ucast (drop_bit 16 v), ucast (drop_bit 8 v), ucast v]"
  by (simp_all add: be_bytes_def upt_rec)


lemma comp_header_set_data_bytes:
  assumes "n \<in> {1, 2, 4}" "n \<le> length t"
  shows "comp_header_set_data (h # t) n 0 v = Some (h # be_bytes n v @ drop n t)"
proof -
  obtain xs where t: "t = xs @ drop n t" "length xs = n"
    using assms(2) by (metis append_take_drop_id length_take min_absorb2)
  have "comp_header_set_data (h # xs @ u) n 0 v = Some (h # be_bytes n v @ u)" for u
    using assms(1) t(2)
    by (auto simp: comp_header_set_data_def be_bytes_def poke_def length_Suc_conv eval_nat_numeral)
  then show ?thesis using t(1) by metis
qed

lemma comp_header_get_data_bytes:
  assumes "n \<in> {1, 2, 4}" "unat v < 2 ^ (8 * n)"
  shows "comp_header_get_data (h # be_bytes n v @ t) n 0 = Some v"
  using assms bytes_join_8 [of v] bytes_join_16 [of v] bytes_join_32 [of v]
  by (auto simp: comp_header_get_data_def be_bytes_simps)

text \<open>What \<open>comp_exec\<close> leaves in the output buffer.\<close>

definition comp_flag :: "nat \<Rightarrow> nat \<Rightarrow> byte" where
  "comp_flag c len = push_bit 4 (word_of_nat c) OR (word_of_nat (comp_data_size len) AND 0x7)"

definition comp_stored :: "byte list \<Rightarrow> nat \<Rightarrow> byte list \<Rightarrow> bool" where
  "comp_stored ind r packed \<longleftrightarrow> r = length ind + 1 \<and> packed = comp_flag 0 (length ind) # ind"

definition comp_packed :: "byte list \<Rightarrow> nat \<Rightarrow> byte list \<Rightarrow> bool" where
  "comp_packed ind r packed \<longleftrightarrow> r < length ind \<and> (\<exists>ts. ts \<noteq> [] \<and> toks_ok [] ts
     \<and> lzf_expand [] ts = ind
     \<and> packed = comp_flag 1 (length ind)
         # be_bytes (comp_data_size (length ind)) (word_of_nat (length ind)) @ lzf_bytes ts)"

lemma comp_data_size_cases: "comp_data_size n \<in> {1, 2, 4}"
  by (simp add: comp_data_size_def)

lemma comp_data_size_fits: "n < 2 ^ 32 \<Longrightarrow> n < 2 ^ (8 * comp_data_size n)"
  by (simp add: comp_data_size_def)

lemma comp_exec_result:
  assumes out: "length ind < length outd"
  shows "\<exists>r outd'. comp_exec ind outd = Some (r, outd') \<and> length outd' = length outd
    \<and> (comp_stored ind r (take r outd') \<or> comp_packed ind r (take r outd'))"
proof -
  let ?n = "length ind" and ?d = "comp_data_size (length ind)"
  let ?lzf = "if ?n > 2
        then do { (r, out) \<leftarrow> lzf_compress ind (drop (1 + ?d) outd) (?n - (1 + ?d) - 1);
          Some (r, take (1 + ?d) outd @ out) }
        else Some (0, outd)"
  have hdr: "1 + ?d < length outd" if "?n > 2"
    using that out by (auto simp: comp_data_size_def)
  obtain n outd1 where lzf: "?lzf = Some (n, outd1)" "length outd1 = length outd"
    and enc: "n \<noteq> 0 \<longrightarrow> ?n > 2 \<and> 1 + ?d + n < ?n \<and> (\<exists>out. outd1 = take (1 + ?d) outd @ out
      \<and> done_inv ind out ?n n)"
  proof (cases "?n > 2")
    case True
    then have len2: "2 \<le> ?n" by simp
    have space: "?n - (1 + ?d) - 1 \<le> length (drop (1 + ?d) outd)"
      unfolding length_drop using out by linarith
    obtain r out' where "lzf_compress ind (drop (1 + ?d) outd) (?n - (1 + ?d) - 1) = Some (r, out')"
      "length out' = length (drop (1 + ?d) outd)" "r \<le> ?n - (1 + ?d) - 1"
      "r \<noteq> 0 \<longrightarrow> done_inv ind out' ?n r"
      using lzf_compress_encodes [OF _ space] len2 by blast
    then show thesis using True hdr by (intro that [of r "take (1 + ?d) outd @ out'"]) auto
  qed (use that in simp)
  show ?thesis
  proof (cases "n = 0")
    case True
    moreover have "outd1 \<noteq> []" "Suc ?n \<le> length outd1"
      using lzf(2) out by auto
    ultimately have "comp_exec ind outd = Some (1 + ?n, mem_write 1 ind (outd1[0 := comp_flag 0 ?n]))"
      using lzf unfolding comp_exec_def Let_def
      by (simp add: mem_copy_def comp_flag_def poke_def)
    moreover have "take (1 + ?n) (mem_write 1 ind (outd1[0 := comp_flag 0 ?n])) = comp_flag 0 ?n # ind"
      using lzf(2) out by (cases outd1) (auto simp: mem_write_def)
    ultimately show ?thesis
      using lzf(2) out by (simp add: comp_stored_def)
  next
    case False
    then obtain out' ts where e: "?n > 2" "1 + ?d + n < ?n" "outd1 = take (1 + ?d) outd @ out'"
      "toks_ok [] ts" "length (lzf_bytes ts) = n" "take n out' = lzf_bytes ts" "lzf_expand [] ts = ind"
      using enc by (auto simp: done_inv_def)
    obtain h t where t: "outd = h # t" "?d \<le> length t"
      using hdr [OF e(1)] by (cases outd) auto
    have "n \<le> length out'"
      using e(5,6) by (metis length_take min.cobounded1)
    have "comp_header_set_data (comp_flag 1 ?n # take ?d t @ out') ?d 0 (word_of_nat ?n)
        = Some (comp_flag 1 ?n # be_bytes ?d (word_of_nat ?n) @ out')"
      using comp_header_set_data_bytes [OF comp_data_size_cases] t(2) by simp
    then have "comp_exec ind outd
        = Some (1 + ?d + n, comp_flag 1 ?n # be_bytes ?d (word_of_nat ?n) @ out')"
      using lzf(1) e(3) False t(1) unfolding comp_exec_def Let_def
      by (auto simp: comp_flag_def poke_def)
    moreover have "ts \<noteq> []" using e(5) False by auto
    ultimately show ?thesis
      using e lzf(2) t \<open>n \<le> length out'\<close>
      by (auto simp: comp_packed_def intro!: exI [of _ ts])
  qed
qed

lemma comp_flag_fields:
  assumes "c = 0 \<or> c = 1"
  shows "drop_bit 4 (comp_flag c n) = word_of_nat c" "unat (comp_flag c n AND 0xF) = comp_data_size n"
  using assms by (auto simp: comp_flag_def comp_data_size_def)

text \<open>
  The round trip. Every input, compressible or not, is packed into at most one byte more
  than its length, no access leaves a buffer, and unpacking the result restores the input in
  any buffer that has room for it; its size can be asked for beforehand.
\<close>

lemma decomp_stored:
  assumes c: "comp_stored ind r packed" and dst: "length ind \<le> length dst"
  shows "decomp_exec (packed @ rest) r dst = Some (length ind, ind @ drop (length ind) dst)"
    and "decomp_getsize (packed @ rest) r = Some (length ind)"
  using c dst comp_data_size_cases [of "length ind"]
  by (auto simp: comp_stored_def decomp_exec_def decomp_getsize_def decomp_exec_internal_def Let_def
      comp_flag_fields mem_copy_def mem_read_def mem_write_def)

lemma decomp_packed:
  assumes c: "comp_packed ind r packed" and len: "length ind < 2 ^ 32" "r = length packed"
    and dst: "length ind \<le> length dst"
  shows "\<exists>dst'. decomp_exec (packed @ rest) r dst = Some (length ind, dst') \<and> length dst' = length dst
      \<and> take (length ind) dst' = ind"
    and "decomp_getsize (packed @ rest) r = Some (length ind)"
proof -
  let ?n = "length ind" and ?d = "comp_data_size (length ind)"
  obtain ts where ts: "ts \<noteq> []" "toks_ok [] ts" "lzf_expand [] ts = ind"
    "packed = comp_flag 1 ?n # be_bytes ?d (word_of_nat ?n) @ lzf_bytes ts"
    using c by (auto simp: comp_packed_def)
  have u: "unat (word_of_nat ?n :: u32) = ?n"
    using len(1) by simp
  have get: "comp_header_get_data (packed @ rest) ?d 0 = Some (word_of_nat ?n)"
    using comp_header_get_data_bytes [OF comp_data_size_cases, of "word_of_nat ?n" ?n "comp_flag 1 ?n"
        "lzf_bytes ts @ rest"] comp_data_size_fits [OF len(1)] u by (simp add: ts(4))
  have "r = 1 + ?d + length (lzf_bytes ts)" "r < 2 ^ 32"
    using len ts(4) c by (auto simp: comp_packed_def)
  then have "(word_of_nat r - word_of_nat (1 + ?d) :: u32) = word_of_nat (length (lzf_bytes ts))"
    "length (lzf_bytes ts) < 2 ^ 32" by simp_all
  then have inl: "unat (word_of_nat r - word_of_nat (1 + ?d) :: u32) = length (lzf_bytes ts)"
    by simp
  have drop: "drop (1 + ?d) (packed @ rest) = lzf_bytes ts @ rest" by (simp add: ts(4))
  obtain dst' where dst': "lzf_decompress (lzf_bytes ts @ rest) (length (lzf_bytes ts)) dst ?n = Some (?n, dst')"
    "length dst' = length dst" "take ?n dst' = ind"
    using lzf_decompress_toks [OF ts(2,1), of ?n dst rest] ts(3) dst by auto
  have hd: "peek (packed @ rest) 0 = Some (comp_flag 1 ?n)" by (simp add: ts(4))
  have r0: "r \<noteq> 0" using ts(4) len(2) by simp
  have d: "\<not> (?d \<noteq> 1 \<and> ?d \<noteq> 2 \<and> ?d \<noteq> 4)" using comp_data_size_cases [of ?n] by blast
  have "decomp_exec_internal (packed @ rest) r (Some dst) = Some (?n, Some dst')"
    using r0 hd d get u dst'(1) unfolding decomp_exec_internal_def Let_def
    by (auto simp: comp_flag_fields inl drop simp del: One_nat_def of_nat_add drop_append)
  then show "\<exists>dst'. decomp_exec (packed @ rest) r dst = Some (?n, dst') \<and> length dst' = length dst
      \<and> take ?n dst' = ind"
    using dst' by (simp add: decomp_exec_def)
  show "decomp_getsize (packed @ rest) r = Some ?n"
    using r0 hd d get u unfolding decomp_getsize_def decomp_exec_internal_def Let_def
    by (auto simp: comp_flag_fields)
qed

text \<open>
  C18: For every input of less than 2^32 bytes, \<open>comp_exec\<close> into a buffer one byte longer than the
  input stays inside its buffers and uses at most \<open>inl + 1\<close> bytes (the source promises
  \<open>inl + SC_COMP_HEADER_MAXSIZE\<close>); \<open>decomp_exec\<close> of the result into any buffer that has room
  for it restores the input and returns its length, which is also what \<open>decomp_getsize\<close> returns.
\<close>

theorem comp_roundtrip:
  assumes "length ind < length outd" "length ind < 2 ^ 32" "length ind \<le> length dst"
  shows "\<exists>r outd' dst'. comp_exec ind outd = Some (r, outd') \<and> length outd' = length outd
    \<and> r \<le> length ind + 1
    \<and> decomp_exec (take r outd') r dst = Some (length ind, dst')
    \<and> take (length ind) dst' = ind \<and> length dst' = length dst
    \<and> decomp_getsize (take r outd') r = Some (length ind)"
proof -
  obtain r outd' where r: "comp_exec ind outd = Some (r, outd')" "length outd' = length outd"
    "comp_stored ind r (take r outd') \<or> comp_packed ind r (take r outd')"
    using comp_exec_result [OF assms(1)] by blast
  have "r \<le> length ind + 1" using r(3) by (auto simp: comp_stored_def comp_packed_def)
  then have len: "r = length (take r outd')" using r(2) assms(1) by simp
  from r(3) show ?thesis
  proof
    assume "comp_stored ind r (take r outd')"
    then show ?thesis
      using r decomp_stored [of ind r _ dst "[]"] assms(3) \<open>r \<le> length ind + 1\<close> by auto
  next
    assume "comp_packed ind r (take r outd')"
    then show ?thesis
      using r decomp_packed [of ind r _ dst "[]"] assms(2,3) len \<open>r \<le> length ind + 1\<close>
      by (metis append_Nil2)
  qed
qed

lemma comp_roundtrip_witness:
  "\<exists>r outd' dst'. comp_exec (replicate 20 7) (replicate 21 0) = Some (r, outd') \<and> length outd' = 21
    \<and> r \<le> 21 \<and> decomp_exec (take r outd') r (replicate 20 0) = Some (20, dst')
    \<and> take 20 dst' = replicate 20 7 \<and> length dst' = 20
    \<and> decomp_getsize (take r outd') r = Some 20"
  using comp_roundtrip [of "replicate 20 7" "replicate 21 0" "replicate 20 0"] by simp

text \<open>
  C27: \<open>lzf_compress\<close> of two bytes or more reads and writes inside its buffers only, terminates,
  and returns either 0 or the length of an encoding that fits \<open>out_len\<close> and that
  \<open>lzf_decompress\<close> expands to the input, without any other knowledge about the hash table.
\<close>

theorem lzf_roundtrip:
  assumes "2 \<le> length ind" "out_len \<le> length out" "length ind \<le> dst_len" "dst_len \<le> length dst"
  shows "\<exists>r out'. lzf_compress ind out out_len = Some (r, out') \<and> length out' = length out \<and> r \<le> out_len
    \<and> (r = 0 \<or> (\<exists>dst'. lzf_decompress (take r out') r dst dst_len = Some (length ind, dst')
        \<and> length dst' = length dst \<and> take (length ind) dst' = ind))"
proof -
  obtain r out' where r: "lzf_compress ind out out_len = Some (r, out')" "length out' = length out"
    "r \<le> out_len" "r \<noteq> 0 \<longrightarrow> done_inv ind out' (length ind) r"
    using lzf_compress_encodes [OF assms(1,2)] by blast
  show ?thesis
  proof (cases "r = 0")
    case False
    then obtain ts where ts: "toks_ok [] ts" "length (lzf_bytes ts) = r" "take r out' = lzf_bytes ts"
      "lzf_expand [] ts = ind" "ts \<noteq> []"
      using r(4) by (force simp: done_inv_def)
    then show ?thesis
      using r lzf_decompress_toks [OF ts(1,5), of dst_len dst "[]"] assms(3,4) by auto
  qed (use r in auto)
qed

lemma lzf_roundtrip_witness:
  "\<exists>r out'. lzf_compress (replicate 12 9) (replicate 11 0) 11 = Some (r, out') \<and> length out' = 11 \<and> r \<le> 11
    \<and> (r = 0 \<or> (\<exists>dst'. lzf_decompress (take r out') r (replicate 12 0) 12 = Some (12, dst')
        \<and> length dst' = 12 \<and> take 12 dst' = replicate 12 9))"
  using lzf_roundtrip [of "replicate 12 9" 11 "replicate 11 0" 12 "replicate 12 0"] by simp

subsection \<open>The decompressor on arbitrary input\<close>

lemma lzf_copy_out_safe:
  assumes "0 \<le> ref" "ref < int op" "op + n \<le> out_len" "out_len \<le> length out"
  shows "\<exists>out'. lzf_copy_out ref op n out = Some out' \<and> length out' = length out
    \<and> drop out_len out' = drop out_len out"
  using assms
proof (induction n arbitrary: ref op out)
  case (Suc n)
  let ?out = "out[op := out ! nat ref]"
  obtain out' where "lzf_copy_out (ref + 1) (op + 1) n ?out = Some out'" "length out' = length ?out"
    "drop out_len out' = drop out_len ?out"
    using Suc.IH [of "ref + 1" "op + 1" ?out] Suc.prems by auto
  then show ?case using Suc.prems by auto
qed simp

lemma drop_mem_write: "off + length src \<le> k \<Longrightarrow> k \<le> length buf
    \<Longrightarrow> drop k (mem_write off src buf) = drop k buf"
  by (simp add: mem_write_def)

lemma lzf_item_safe:
  assumes "ip + 33 \<le> length ind" "out_len \<le> length out" "op \<le> out_len"
  shows "\<exists>r. lzf_item ind out_len ip op out = Some r \<and> (case r of
      Inl out' \<Rightarrow> out' = out
    | Inr (ip', op', out') \<Rightarrow> op' \<le> out_len \<and> length out' = length out
        \<and> drop out_len out' = drop out_len out)"
proof -
  define c where "c = ind ! ip"
  have c: "peek ind ip = Some c" using assms by (simp add: c_def)
  show ?thesis
  proof (cases "unat c < 2 ^ 5")
    case True
    let ?n = "unat c + 1"
    have rd: "length (mem_read (ip + 1) ?n ind) = ?n"
      using True assms(1) by (intro length_mem_read) simp
    have "lzf_copy_in ind (ip + 1) op ?n out = Some (mem_write op (mem_read (ip + 1) ?n ind) out)"
      if "op + ?n \<le> out_len"
      using True assms that by (intro lzf_copy_in_eq) simp_all
    then show ?thesis
      using c True rd assms(2)
      by (cases "op + ?n \<le> out_len") (auto simp: lzf_item_def Let_def drop_mem_write not_le)
  next
    case False
    let ?long = "unat c div 2 ^ 5 = 7"
    define len where "len = (if ?long then 7 + unat (ind ! (ip + 1)) else unat c div 2 ^ 5)"
    define ip' where "ip' = (if ?long then ip + 2 else ip + 1)"
    define ref where "ref = int op - int (unat c mod 2 ^ 5 * 2 ^ 8) - 1 - int (unat (ind ! ip'))"
    have item: "lzf_item ind out_len ip op out =
      (if op + len + 2 > out_len then Some (Inl out)
       else if ref < 0 then Some (Inl out)
       else do { out \<leftarrow> lzf_copy_out ref op (len + 2) out;
         Some (Inr (ip' + 1, op + (len + 2), out)) })"
      using c False assms(1)
      by (cases ?long) (simp_all add: lzf_item_def Let_def len_def ip'_def ref_def)
    have "ref < int op" unfolding ref_def by linarith
    then have "\<exists>out'. lzf_copy_out ref op (len + 2) out = Some out' \<and> length out' = length out
        \<and> drop out_len out' = drop out_len out" if "0 \<le> ref" "op + (len + 2) \<le> out_len"
      using that assms(2) by (intro lzf_copy_out_safe) auto
    then show ?thesis
      by (cases "op + (len + 2) \<le> out_len"; cases "0 \<le> ref") (auto simp: item simp del: lzf_copy_out.simps add_2_eq_Suc')
  qed
qed

text \<open>
  C33: On arbitrary, possibly malformed input, \<open>lzf_decompress\<close> terminates, never writes outside
  the first \<open>out_len\<close> bytes of the output, never copies from before it, and, although
  \<open>CHECK_INPUT\<close> is off, reads at most 33 bytes past the end of its input.
\<close>

theorem lzf_decompress_safe:
  assumes "in_len + 33 \<le> length ind" "out_len \<le> length out"
  shows "\<exists>n out'. lzf_decompress ind in_len out out_len = Some (n, out') \<and> n \<le> out_len
    \<and> length out' = length out \<and> drop out_len out' = drop out_len out"
proof -
  have "\<exists>n out'. lzf_items ind in_len out_len ip op out = Some (n, out') \<and> n \<le> out_len
      \<and> length out' = length out \<and> drop out_len out' = drop out_len out"
    if "ip \<le> in_len" "in_len + 33 \<le> length ind" "out_len \<le> length out" "op \<le> out_len" for ip op out
    using that
  proof (induction ind in_len out_len ip op out rule: lzf_items.induct)
    case (1 ind in_len out_len ip op out)
    obtain r where r: "lzf_item ind out_len ip op out = Some r"
      "case r of Inl out' \<Rightarrow> out' = out
        | Inr (ip', op', out') \<Rightarrow> op' \<le> out_len \<and> length out' = length out
            \<and> drop out_len out' = drop out_len out"
      using lzf_item_safe [of ip ind out_len out op] 1 by auto
    show ?case
    proof (cases r)
      case (Inl out')
      then show ?thesis using r by (subst lzf_items.simps) auto
    next
      case (Inr b)
      obtain ip' op' out' where b: "b = (ip', op', out')" by (cases b)
      show ?thesis
      proof (cases "ip' < in_len")
        case True
        then obtain n out2 where "lzf_items ind in_len out_len ip' op' out' = Some (n, out2)"
          "n \<le> out_len" "length out2 = length out" "drop out_len out2 = drop out_len out"
          using "1.IH" [OF r(1) Inr b [symmetric] refl True] r(2) 1(3,4) Inr b
          by (auto simp: b)
        then show ?thesis using r Inr b True by (subst lzf_items.simps) auto
      next
        case False
        then show ?thesis using r Inr b by (subst lzf_items.simps) auto
      qed
    qed
  qed
  from this [of 0 out 0] show ?thesis
    using assms by (simp add: lzf_decompress_def)
qed

lemma lzf_decompress_safe_witness:
  "\<exists>n out'. lzf_decompress (0xE0 # replicate 40 255) 2 (replicate 8 0) 8 = Some (n, out') \<and> n \<le> 8
    \<and> length out' = 8 \<and> drop 8 out' = []"
  using lzf_decompress_safe [of 2 "0xE0 # replicate 40 255" 8 "replicate 8 0"] by simp

end
