(* ===== verification/ScCommon.thy ===== *)
theory ScCommon
  imports FtxPrelude
begin

section \<open>SatCom common routines: characters and checksums\<close>

text \<open>
  Models \<open>satcom_lib/sc_common.c\<close>: the character helpers, the table-driven CRC-32 that
  protects RomFs images and the 8-bit CRC that the USB dev cart protocol appends to every
  block. Both tables are copied from the source; the lemmas show that each is the table of
  the bitwise shift-register algorithm, that the update functions compute that algorithm,
  and that a single wrong byte is always noticed.
\<close>

subsection \<open>Characters\<close>

definition sc_toupper :: "byte \<Rightarrow> byte" where
  "sc_toupper c = (if of_char (CHR ''a'') \<le> c \<and> c \<le> of_char (CHR ''z'')
     then c - of_char (CHR ''a'') + of_char (CHR ''A'') else c)"

definition sc_tolower :: "byte \<Rightarrow> byte" where
  "sc_tolower c = (if of_char (CHR ''A'') \<le> c \<and> c \<le> of_char (CHR ''Z'')
     then c - of_char (CHR ''A'') + of_char (CHR ''a'') else c)"

definition char2pchar :: "byte \<Rightarrow> byte" where
  "char2pchar c =
     (if c = 0x00 then of_char (CHR ''~'')
      else if c = 0xFF then of_char (CHR ''X'')
      else if c < of_char (CHR '' '') then of_char (CHR ''.'')
      else if c > 127 then of_char (CHR ''?'')
      else c)"

subsection \<open>CRC-32\<close>

definition crc32_tab :: "u32 list" where
  "crc32_tab = [
    0x00000000, 0x77073096, 0xee0e612c, 0x990951ba, 0x076dc419, 0x706af48f,
    0xe963a535, 0x9e6495a3, 0x0edb8832, 0x79dcb8a4, 0xe0d5e91e, 0x97d2d988,
    0x09b64c2b, 0x7eb17cbd, 0xe7b82d07, 0x90bf1d91, 0x1db71064, 0x6ab020f2,
    0xf3b97148, 0x84be41de, 0x1adad47d, 0x6ddde4eb, 0xf4d4b551, 0x83d385c7,
    0x136c9856, 0x646ba8c0, 0xfd62f97a, 0x8a65c9ec, 0x14015c4f, 0x63066cd9,
    0xfa0f3d63, 0x8d080df5, 0x3b6e20c8, 0x4c69105e, 0xd56041e4, 0xa2677172,
    0x3c03e4d1, 0x4b04d447, 0xd20d85fd, 0xa50ab56b, 0x35b5a8fa, 0x42b2986c,
    0xdbbbc9d6, 0xacbcf940, 0x32d86ce3, 0x45df5c75, 0xdcd60dcf, 0xabd13d59,
    0x26d930ac, 0x51de003a, 0xc8d75180, 0xbfd06116, 0x21b4f4b5, 0x56b3c423,
    0xcfba9599, 0xb8bda50f, 0x2802b89e, 0x5f058808, 0xc60cd9b2, 0xb10be924,
    0x2f6f7c87, 0x58684c11, 0xc1611dab, 0xb6662d3d, 0x76dc4190, 0x01db7106,
    0x98d220bc, 0xefd5102a, 0x71b18589, 0x06b6b51f, 0x9fbfe4a5, 0xe8b8d433,
    0x7807c9a2, 0x0f00f934, 0x9609a88e, 0xe10e9818, 0x7f6a0dbb, 0x086d3d2d,
    0x91646c97, 0xe6635c01, 0x6b6b51f4, 0x1c6c6162, 0x856530d8, 0xf262004e,
    0x6c0695ed, 0x1b01a57b, 0x8208f4c1, 0xf50fc457, 0x65b0d9c6, 0x12b7e950,
    0x8bbeb8ea, 0xfcb9887c, 0x62dd1ddf, 0x15da2d49, 0x8cd37cf3, 0xfbd44c65,
    0x4db26158, 0x3ab551ce, 0xa3bc0074, 0xd4bb30e2, 0x4adfa541, 0x3dd895d7,
    0xa4d1c46d, 0xd3d6f4fb, 0x4369e96a, 0x346ed9fc, 0xad678846, 0xda60b8d0,
    0x44042d73, 0x33031de5, 0xaa0a4c5f, 0xdd0d7cc9, 0x5005713c, 0x270241aa,
    0xbe0b1010, 0xc90c2086, 0x5768b525, 0x206f85b3, 0xb966d409, 0xce61e49f,
    0x5edef90e, 0x29d9c998, 0xb0d09822, 0xc7d7a8b4, 0x59b33d17, 0x2eb40d81,
    0xb7bd5c3b, 0xc0ba6cad, 0xedb88320, 0x9abfb3b6, 0x03b6e20c, 0x74b1d29a,
    0xead54739, 0x9dd277af, 0x04db2615, 0x73dc1683, 0xe3630b12, 0x94643b84,
    0x0d6d6a3e, 0x7a6a5aa8, 0xe40ecf0b, 0x9309ff9d, 0x0a00ae27, 0x7d079eb1,
    0xf00f9344, 0x8708a3d2, 0x1e01f268, 0x6906c2fe, 0xf762575d, 0x806567cb,
    0x196c3671, 0x6e6b06e7, 0xfed41b76, 0x89d32be0, 0x10da7a5a, 0x67dd4acc,
    0xf9b9df6f, 0x8ebeeff9, 0x17b7be43, 0x60b08ed5, 0xd6d6a3e8, 0xa1d1937e,
    0x38d8c2c4, 0x4fdff252, 0xd1bb67f1, 0xa6bc5767, 0x3fb506dd, 0x48b2364b,
    0xd80d2bda, 0xaf0a1b4c, 0x36034af6, 0x41047a60, 0xdf60efc3, 0xa867df55,
    0x316e8eef, 0x4669be79, 0xcb61b38c, 0xbc66831a, 0x256fd2a0, 0x5268e236,
    0xcc0c7795, 0xbb0b4703, 0x220216b9, 0x5505262f, 0xc5ba3bbe, 0xb2bd0b28,
    0x2bb45a92, 0x5cb36a04, 0xc2d7ffa7, 0xb5d0cf31, 0x2cd99e8b, 0x5bdeae1d,
    0x9b64c2b0, 0xec63f226, 0x756aa39c, 0x026d930a, 0x9c0906a9, 0xeb0e363f,
    0x72076785, 0x05005713, 0x95bf4a82, 0xe2b87a14, 0x7bb12bae, 0x0cb61b38,
    0x92d28e9b, 0xe5d5be0d, 0x7cdcefb7, 0x0bdbdf21, 0x86d3d2d4, 0xf1d4e242,
    0x68ddb3f8, 0x1fda836e, 0x81be16cd, 0xf6b9265b, 0x6fb077e1, 0x18b74777,
    0x88085ae6, 0xff0f6a70, 0x66063bca, 0x11010b5c, 0x8f659eff, 0xf862ae69,
    0x616bffd3, 0x166ccf45, 0xa00ae278, 0xd70dd2ee, 0x4e048354, 0x3903b3c2,
    0xa7672661, 0xd06016f7, 0x4969474d, 0x3e6e77db, 0xaed16a4a, 0xd9d65adc,
    0x40df0b66, 0x37d83bf0, 0xa9bcae53, 0xdebb9ec5, 0x47b2cf7f, 0x30b5ffe9,
    0xbdbdf21c, 0xcabac28a, 0x53b39330, 0x24b4a3a6, 0xbad03605, 0xcdd70693,
    0x54de5729, 0x23d967bf, 0xb3667a2e, 0xc4614ab8, 0x5d681b02, 0x2a6f2b94,
    0xb40bbe37, 0xc30c8ea1, 0x5a05df1b, 0x2d02ef8d]"

text \<open>
  The \<open>while (size--)\<close> loop of \<open>crc32_update\<close>, over the bytes of the buffer. The table is
  indexed with the low byte of \<open>crc ^ *p\<close>.
\<close>

fun crc32_loop :: "u32 \<Rightarrow> byte list \<Rightarrow> u32" where
  "crc32_loop crc [] = crc"
| "crc32_loop crc (p # ps) =
     crc32_loop (crc32_tab ! unat ((crc XOR ucast p) AND 0xFF) XOR drop_bit 8 crc) ps"

definition crc32_update :: "u32 \<Rightarrow> byte list \<Rightarrow> u32" where
  "crc32_update crc buf = crc32_loop (crc XOR NOT 0) buf XOR NOT 0"

definition crc32_calc :: "byte list \<Rightarrow> u32" where
  "crc32_calc buf = crc32_update 0 buf"

subsection \<open>The 8-bit CRC of the USB dev cart\<close>

definition crc_usbdc_table :: "byte list" where
  "crc_usbdc_table = [
    0x00, 0x07, 0x0e, 0x09, 0x1c, 0x1b, 0x12, 0x15, 0x38, 0x3f, 0x36, 0x31, 0x24, 0x23, 0x2a, 0x2d,
    0x70, 0x77, 0x7e, 0x79, 0x6c, 0x6b, 0x62, 0x65, 0x48, 0x4f, 0x46, 0x41, 0x54, 0x53, 0x5a, 0x5d,
    0xe0, 0xe7, 0xee, 0xe9, 0xfc, 0xfb, 0xf2, 0xf5, 0xd8, 0xdf, 0xd6, 0xd1, 0xc4, 0xc3, 0xca, 0xcd,
    0x90, 0x97, 0x9e, 0x99, 0x8c, 0x8b, 0x82, 0x85, 0xa8, 0xaf, 0xa6, 0xa1, 0xb4, 0xb3, 0xba, 0xbd,
    0xc7, 0xc0, 0xc9, 0xce, 0xdb, 0xdc, 0xd5, 0xd2, 0xff, 0xf8, 0xf1, 0xf6, 0xe3, 0xe4, 0xed, 0xea,
    0xb7, 0xb0, 0xb9, 0xbe, 0xab, 0xac, 0xa5, 0xa2, 0x8f, 0x88, 0x81, 0x86, 0x93, 0x94, 0x9d, 0x9a,
    0x27, 0x20, 0x29, 0x2e, 0x3b, 0x3c, 0x35, 0x32, 0x1f, 0x18, 0x11, 0x16, 0x03, 0x04, 0x0d, 0x0a,
    0x57, 0x50, 0x59, 0x5e, 0x4b, 0x4c, 0x45, 0x42, 0x6f, 0x68, 0x61, 0x66, 0x73, 0x74, 0x7d, 0x7a,
    0x89, 0x8e, 0x87, 0x80, 0x95, 0x92, 0x9b, 0x9c, 0xb1, 0xb6, 0xbf, 0xb8, 0xad, 0xaa, 0xa3, 0xa4,
    0xf9, 0xfe, 0xf7, 0xf0, 0xe5, 0xe2, 0xeb, 0xec, 0xc1, 0xc6, 0xcf, 0xc8, 0xdd, 0xda, 0xd3, 0xd4,
    0x69, 0x6e, 0x67, 0x60, 0x75, 0x72, 0x7b, 0x7c, 0x51, 0x56, 0x5f, 0x58, 0x4d, 0x4a, 0x43, 0x44,
    0x19, 0x1e, 0x17, 0x10, 0x05, 0x02, 0x0b, 0x0c, 0x21, 0x26, 0x2f, 0x28, 0x3d, 0x3a, 0x33, 0x34,
    0x4e, 0x49, 0x40, 0x47, 0x52, 0x55, 0x5c, 0x5b, 0x76, 0x71, 0x78, 0x7f, 0x6a, 0x6d, 0x64, 0x63,
    0x3e, 0x39, 0x30, 0x37, 0x22, 0x25, 0x2c, 0x2b, 0x06, 0x01, 0x08, 0x0f, 0x1a, 0x1d, 0x14, 0x13,
    0xae, 0xa9, 0xa0, 0xa7, 0xb2, 0xb5, 0xbc, 0xbb, 0x96, 0x91, 0x98, 0x9f, 0x8a, 0x8d, 0x84, 0x83,
    0xde, 0xd9, 0xd0, 0xd7, 0xc2, 0xc5, 0xcc, 0xcb, 0xe6, 0xe1, 0xe8, 0xef, 0xfa, 0xfd, 0xf4, 0xf3]"

definition crc_usbdc_init :: byte where
  "crc_usbdc_init = 0x00"

text \<open>
  \<open>tbl_idx\<close> is an \<open>unsigned int\<close> and \<open>crc << 8\<close> is computed in \<open>int\<close>, so the model
  widens to 32 bits and masks with \<open>0xff\<close> where the code does.
\<close>

fun crc_usbdc_update :: "byte \<Rightarrow> byte list \<Rightarrow> byte" where
  "crc_usbdc_update crc [] = crc AND 0xff"
| "crc_usbdc_update crc (d # ds) =
     (let tbl_idx = (drop_bit 0 (ucast crc :: u32) XOR ucast d) AND 0xff
      in crc_usbdc_update
           (ucast ((ucast (crc_usbdc_table ! unat tbl_idx) XOR push_bit 8 (ucast crc :: u32)) AND 0xff))
           ds)"

definition crc_usbdc_finalize :: "byte \<Rightarrow> byte" where
  "crc_usbdc_finalize crc = crc XOR 0x00"

definition crc8_start :: byte where
  "crc8_start = crc_usbdc_init"

definition crc8_update :: "byte \<Rightarrow> byte \<Rightarrow> byte" where
  "crc8_update crc val = crc_usbdc_update crc [val]"

subsection \<open>The bitwise CRC-32\<close>

text \<open>
  The shift register the comment in the source describes: bits leave at the low end, and a
  one that leaves feeds the polynomial \<open>0xEDB88320\<close> back in.
\<close>

definition crc32_bit :: "u32 \<Rightarrow> u32" where
  "crc32_bit r = drop_bit 1 r XOR (if odd r then 0xEDB88320 else 0)"

definition crc32_byte :: "u32 \<Rightarrow> u32" where
  "crc32_byte r = (crc32_bit ^^ 8) r"

fun crc32_bitwise :: "u32 \<Rightarrow> byte list \<Rightarrow> u32" where
  "crc32_bitwise crc [] = crc"
| "crc32_bitwise crc (p # ps) = crc32_bitwise (crc32_byte (crc XOR ucast p)) ps"

lemma crc32_byte_unroll:
  "crc32_byte r = crc32_bit (crc32_bit (crc32_bit (crc32_bit
     (crc32_bit (crc32_bit (crc32_bit (crc32_bit r)))))))"
  by (simp add: crc32_byte_def eval_nat_numeral)

lemma crc32_bit_xor: "crc32_bit (a XOR b) = crc32_bit a XOR crc32_bit b"
  by (auto simp: crc32_bit_def drop_bit_xor even_xor_iff xor.assoc xor.left_commute)

lemma crc32_byte_xor: "crc32_byte (a XOR b) = crc32_byte a XOR crc32_byte b"
  by (simp add: crc32_byte_unroll crc32_bit_xor)

lemma crc32_tab_basis: "crc32_tab = xor_table (rev (map (\<lambda>j. crc32_byte (2 ^ j)) [0..<8]))"
proof -
  have "rev (map (\<lambda>j. crc32_byte (2 ^ j)) [0..<8]) =
    [0xedb88320, 0x76dc4190, 0x3b6e20c8, 0x1db71064, 0x0edb8832, 0x076dc419, 0xee0e612c, 0x77073096]"
    by (simp add: crc32_byte_unroll crc32_bit_def upt_rec)
  then show ?thesis by (simp add: crc32_tab_def)
qed

lemma unat_and_FF: "unat (x AND 0xFF :: u32) < 2 ^ 8"
proof -
  have "x AND 0xFF \<le> 0xFF" by (rule word_and_le1)
  then have "unat (x AND 0xFF) \<le> unat (0xFF :: u32)" by (simp only: word_le_nat_alt)
  then show ?thesis by simp
qed

lemma crc32_tab_nth: "crc32_tab ! unat (x AND 0xFF) = crc32_byte (x AND 0xFF)"
  by (rule xor_table_nth [OF crc32_byte_xor crc32_tab_basis unat_and_FF])

text \<open>Eight shifts of a register whose low byte is clear feed nothing back.\<close>

lemma crc32_bits_clear: "take_bit n r = 0 \<Longrightarrow> (crc32_bit ^^ n) r = drop_bit n r"
proof (induction n arbitrary: r)
  case (Suc n)
  have clear: "\<not> bit r m" if "m \<le> n" for m
    using Suc.prems that bit_take_bit_iff [of "Suc n" r m] by simp
  have "even r"
    using clear [of 0] by (simp add: bit_0)
  moreover have "take_bit n (drop_bit 1 r) = 0"
    by (rule bit_eqI) (auto simp: bit_simps clear)
  ultimately show ?case
    using Suc.IH [of "drop_bit 1 r"] by (simp add: funpow_Suc_right crc32_bit_def del: funpow.simps)
qed simp

lemma crc32_byte_split: "crc32_byte r = crc32_tab ! unat (r AND 0xFF) XOR drop_bit 8 r"
proof -
  define h where "h = r AND NOT 0xFF"
  have r: "r = (r AND 0xFF) XOR h"
    by (rule bit_eqI) (auto simp: h_def bit_simps)
  have m: "(0xFF :: u32) = mask 8" by (simp add: mask_eq_exp_minus_1)
  have "take_bit 8 h = 0" and "drop_bit 8 h = drop_bit 8 r"
    unfolding h_def m by (rule bit_eqI; auto simp: bit_simps dest: bit_imp_le_length)+
  then have "crc32_byte h = drop_bit 8 r"
    by (simp add: crc32_byte_def crc32_bits_clear)
  then show ?thesis
    using crc32_byte_xor [of "r AND 0xFF" h] r crc32_tab_nth [of r] by simp
qed

lemma crc32_loop_bitwise: "crc32_loop crc ps = crc32_bitwise crc ps"
proof (induction ps arbitrary: crc)
  case (Cons p ps)
  have "drop_bit 8 (crc XOR ucast p) = drop_bit 8 crc"
    by (rule bit_eqI) (auto simp: bit_simps dest: bit_imp_le_length)
  then show ?case
    using crc32_byte_split [of "crc XOR ucast p"] Cons.IH by simp
qed simp

lemma xor_NOT_0 [simp]: "(x :: u32) XOR NOT 0 = NOT x"
  by simp

lemma crc32_update_eq: "crc32_update crc buf = NOT (crc32_bitwise (NOT crc) buf)"
  by (simp add: crc32_update_def crc32_loop_bitwise)

lemma crc32_bitwise_append: "crc32_bitwise c (a @ b) = crc32_bitwise (crc32_bitwise c a) b"
  by (induction a arbitrary: c) simp_all

subsection \<open>What a CRC-32 detects\<close>

lemma crc32_bit_inj: "inj crc32_bit"
proof (rule injI)
  fix a b assume ab: "crc32_bit a = crc32_bit b"
  define d where "d = a XOR b"
  have z: "crc32_bit d = 0"
    using ab by (simp add: d_def crc32_bit_xor)
  have "even d"
  proof (rule ccontr)
    assume "odd d"
    then have "bit (drop_bit 1 d) 31"
      using z by (simp add: crc32_bit_def)
    then show False by (auto simp: bit_simps dest: bit_imp_le_length)
  qed
  then have "drop_bit 1 d = 0" "\<not> bit d 0"
    using z by (simp_all add: crc32_bit_def bit_0)
  then have "\<not> bit d n" for n
    using bit_drop_bit_eq [of 1 d] by (cases n) (auto simp: fun_eq_iff)
  then have "d = 0" by (auto intro: bit_eqI)
  then show "a = b" by (simp add: d_def)
qed

lemma crc32_byte_inj: "inj crc32_byte"
  unfolding crc32_byte_def using inj_fn [OF crc32_bit_inj, of 8] .

text \<open>The little-endian number of at most four bytes, the window one CRC register covers.\<close>

fun le32 :: "byte list \<Rightarrow> u32" where
  "le32 [] = 0"
| "le32 (b # bs) = ucast b XOR push_bit 8 (le32 bs)"

lemma le32_bits: "bit (le32 bs) n \<Longrightarrow> n < 8 * length bs"
proof (induction bs arbitrary: n)
  case (Cons b bs)
  show ?case
  proof (cases "n < 8")
    case False
    then have "\<not> bit b n" by (auto dest: bit_imp_le_length)
    then have "bit (le32 bs) (n - 8)"
      using Cons.prems False by (simp add: bit_simps)
    from Cons.IH [OF this] show ?thesis by simp
  qed simp
qed simp

lemma crc32_byte_push:
  assumes "length bs < 4"
  shows "crc32_byte (push_bit 8 (le32 bs)) = le32 bs"
proof -
  have "take_bit 8 (push_bit 8 (le32 bs)) = 0"
    by (rule bit_eqI) (auto simp: bit_simps)
  moreover have "drop_bit 8 (push_bit 8 (le32 bs)) = le32 bs"
    using assms by (intro bit_eqI) (auto simp: bit_simps dest: le32_bits)
  ultimately show ?thesis
    by (simp add: crc32_byte_def crc32_bits_clear)
qed

lemma crc32_bitwise_window:
  "length bs \<le> 4 \<Longrightarrow> crc32_bitwise s bs = (crc32_byte ^^ length bs) (s XOR le32 bs)"
proof (induction bs arbitrary: s)
  case (Cons b bs)
  have "crc32_byte (s XOR le32 (b # bs)) = crc32_byte (s XOR ucast b) XOR crc32_byte (push_bit 8 (le32 bs))"
    by (simp only: le32.simps crc32_byte_xor xor.assoc)
  also have "\<dots> = crc32_byte (s XOR ucast b) XOR le32 bs"
    using Cons.prems by (simp add: crc32_byte_push)
  finally show ?case
    using Cons by (simp add: funpow_swap1)
qed simp

lemma le32_inj: "length x = length y \<Longrightarrow> length x \<le> 4 \<Longrightarrow> le32 x = le32 y \<Longrightarrow> x = y"
proof (induction x y rule: list_induct2)
  case (Cons a x b y)
  from Cons.prems(2) have bits: "bit (le32 (a # x)) n = bit (le32 (b # y)) n" for n
    by (simp only:)
  have "bit a n = bit b n" if "n < 8" for n
    using bits [of n] that by (simp add: bit_simps)
  then have "a = b" by (intro bit_eqI) simp
  moreover have "bit (le32 x) n = bit (le32 y) n" for n
  proof (cases "n < 24")
    case True
    then show ?thesis
      using bits [of "8 + n"] by (simp add: bit_simps) (auto dest: bit_imp_le_length)
  next
    case False
    then show ?thesis using Cons.hyps Cons.prems(1) by (auto dest!: le32_bits)
  qed
  then have "le32 x = le32 y" by (auto intro: bit_eqI)
  ultimately show ?case using Cons by simp
qed simp

subsection \<open>Checksums that consume one byte at a time\<close>

text \<open>
  The interface both checksums offer: a step on the register that is injective in the
  register and in the byte. Any such checksum separates two messages that differ in one
  byte, wherever that byte stands.
\<close>

locale byte_checksum =
  fixes cstep :: "'s \<Rightarrow> byte \<Rightarrow> 's"
  assumes cstep_register: "cstep s b = cstep t b \<Longrightarrow> s = t"
    and cstep_byte: "cstep s a = cstep s b \<Longrightarrow> a = b"
begin

lemma foldl_register: "foldl cstep s q = foldl cstep t q \<Longrightarrow> s = t"
  by (induction q arbitrary: s t) (auto dest: cstep_register)

lemma foldl_detects:
  assumes "a \<noteq> b"
  shows "foldl cstep s (p @ a # q) \<noteq> foldl cstep s (p @ b # q)"
  using assms cstep_byte [of "foldl cstep s p" a b]
    foldl_register [of "cstep (foldl cstep s p) a" q "cstep (foldl cstep s p) b"] by auto

end

lemma ucast_byte_inj: "(ucast a :: u32) = ucast b \<Longrightarrow> a = (b :: byte)"
  by (rule bit_eqI) (auto simp: bit_simps bit_eq_iff)

interpretation crc32: byte_checksum "\<lambda>r b. crc32_byte (r XOR ucast b)"
  by unfold_locales (auto dest!: injD [OF crc32_byte_inj] ucast_byte_inj)

lemma crc32_bitwise_foldl: "crc32_bitwise s q = foldl (\<lambda>r b. crc32_byte (r XOR ucast b)) s q"
  by (induction q arbitrary: s) simp_all

lemma crc32_bitwise_inj_state: "crc32_bitwise s q = crc32_bitwise t q \<Longrightarrow> s = t"
  by (simp add: crc32_bitwise_foldl crc32.foldl_register)

lemma funpow_inj_eq:
  fixes f :: "'a \<Rightarrow> 'a"
  assumes "inj f" "(f ^^ n) a = (f ^^ n) b"
  shows "a = b"
proof -
  from assms(1) have "inj (f ^^ n)" by (rule inj_fn)
  then show ?thesis using assms(2) by (rule injD)
qed

subsection \<open>The bitwise 8-bit CRC\<close>

text \<open>Here bits leave at the high end and the polynomial is \<open>0x07\<close>.\<close>

definition crc8_bit :: "byte \<Rightarrow> byte" where
  "crc8_bit r = push_bit 1 r XOR (if bit r 7 then 0x07 else 0)"

definition crc8_byte :: "byte \<Rightarrow> byte" where
  "crc8_byte r = (crc8_bit ^^ 8) r"

fun crc8_bitwise :: "byte \<Rightarrow> byte list \<Rightarrow> byte" where
  "crc8_bitwise crc [] = crc"
| "crc8_bitwise crc (p # ps) = crc8_bitwise (crc8_byte (crc XOR p)) ps"

lemma crc8_byte_unroll:
  "crc8_byte r = crc8_bit (crc8_bit (crc8_bit (crc8_bit
     (crc8_bit (crc8_bit (crc8_bit (crc8_bit r)))))))"
  by (simp add: crc8_byte_def eval_nat_numeral)

lemma crc8_bit_xor: "crc8_bit (a XOR b) = crc8_bit a XOR crc8_bit b"
  by (auto simp: crc8_bit_def push_bit_xor bit_xor_iff xor.assoc xor.left_commute)

lemma crc8_byte_xor: "crc8_byte (a XOR b) = crc8_byte a XOR crc8_byte b"
  by (simp add: crc8_byte_unroll crc8_bit_xor)

lemma crc_usbdc_table_basis:
  "crc_usbdc_table = xor_table (rev (map (\<lambda>j. crc8_byte (2 ^ j)) [0..<8]))"
proof -
  have "rev (map (\<lambda>j. crc8_byte (2 ^ j)) [0..<8]) = [0x89, 0xc7, 0xe0, 0x70, 0x38, 0x1c, 0x0e, 0x07]"
    by (simp add: crc8_byte_unroll crc8_bit_def upt_rec)
  then show ?thesis by (simp add: crc_usbdc_table_def)
qed

lemma unat_byte_less: "unat (x :: byte) < 2 ^ 8"
  using unsigned_less [of x] by simp

lemma crc_usbdc_table_nth: "crc_usbdc_table ! unat x = crc8_byte x"
  by (rule xor_table_nth [OF crc8_byte_xor crc_usbdc_table_basis unat_byte_less])

lemma usbdc_index: "unat ((drop_bit 0 (ucast c :: u32) XOR ucast d) AND 0xff) = unat (c XOR d :: byte)"
proof -
  have m: "(0xff :: u32) = mask 8" by (simp add: mask_eq_exp_minus_1)
  have "(drop_bit 0 (ucast c :: u32) XOR ucast d) AND 0xff = ucast (c XOR d)"
    unfolding m by (rule bit_eqI) (auto simp: bit_simps dest: bit_imp_le_length)
  moreover have "unat (c XOR d) < 2 ^ 32"
    using unat_byte_less [of "c XOR d"] by simp
  ultimately show ?thesis by (simp add: unsigned_ucast_eq take_bit_nat_eq_self)
qed

lemma usbdc_step: "ucast ((ucast (t :: byte) XOR push_bit 8 (ucast (c :: byte) :: u32)) AND 0xff) = t"
proof -
  have m: "(0xff :: u32) = mask 8" by (simp add: mask_eq_exp_minus_1)
  show ?thesis
    unfolding m by (rule bit_eqI) (auto simp: bit_simps)
qed

lemma and_0xff_byte [simp]: "(x :: byte) AND 0xff = x"
proof -
  have m: "(0xff :: byte) = mask 8" by (simp add: mask_eq_exp_minus_1)
  show ?thesis unfolding m by (rule bit_eqI) (auto simp: bit_simps)
qed

lemma crc_usbdc_update_bitwise: "crc_usbdc_update crc ds = crc8_bitwise crc ds"
  by (induction ds arbitrary: crc)
    (simp_all only: crc_usbdc_update.simps crc8_bitwise.simps Let_def usbdc_index usbdc_step
      crc_usbdc_table_nth and_0xff_byte)

lemma crc8_bit_inj: "inj crc8_bit"
proof (rule injI)
  fix a b assume ab: "crc8_bit a = crc8_bit b"
  define d where "d = a XOR b"
  have z: "crc8_bit d = 0"
    using ab by (simp add: d_def crc8_bit_xor)
  have "\<not> bit d 7"
  proof
    assume "bit d 7"
    then have "push_bit 1 d = 7" using z by (simp add: crc8_bit_def)
    then have "bit (push_bit 1 d) 0" by (simp add: bit_0)
    then show False by (simp add: bit_0)
  qed
  moreover from this have "push_bit 1 d = 0" using z by (simp add: crc8_bit_def)
  then have "\<not> bit d n" if "n < 7" for n
    using that bit_push_bit_iff [of 1 d "Suc n"] by simp
  ultimately have "\<not> bit d n" for n
    using bit_imp_le_length [of d n] by (cases "n = 7") (auto simp: less_Suc_eq numeral_eq_Suc)
  then have "d = 0" by (auto intro: bit_eqI)
  then show "a = b" by (simp add: d_def)
qed

lemma crc8_byte_inj: "inj crc8_byte"
  unfolding crc8_byte_def using inj_fn [OF crc8_bit_inj, of 8] .

interpretation crc8: byte_checksum "\<lambda>r b. crc8_byte (r XOR b)"
  by unfold_locales (auto dest!: injD [OF crc8_byte_inj])

lemma crc8_bitwise_foldl: "crc8_bitwise s q = foldl (\<lambda>r b. crc8_byte (r XOR b)) s q"
  by (induction q arbitrary: s) simp_all

lemma crc8_byte_0 [simp]: "crc8_byte 0 = 0"
  using crc8_byte_xor [of 0 0] by simp

lemma crc_usbdc_append:
  "crc_usbdc_update c (a @ b) = crc_usbdc_update (crc_usbdc_update c a) b"
  by (simp add: crc_usbdc_update_bitwise crc8_bitwise_foldl)

subsection \<open>Properties\<close>

text \<open>C40: The table-driven \<open>crc32_update\<close> computes the bitwise CRC-32 with polynomial
  \<open>0xEDB88320\<close>, initial value and final XOR of all ones, for every starting CRC and buffer; and
  a buffer may be fed in pieces, each call continuing from the CRC of the previous one.\<close>

theorem crc32_update_correct:
  "crc32_update crc buf = NOT (crc32_bitwise (NOT crc) buf)
    \<and> crc32_update crc (buf @ rest) = crc32_update (crc32_update crc buf) rest"
  by (simp add: crc32_update_eq crc32_bitwise_append)

text \<open>Two buffers of equal length that differ only inside a window of at most four bytes
  have different CRC-32 values, so \<open>romfs_check_header\<close> notices every such corruption.\<close>

theorem crc32_detects_burst:
  assumes "length x = length y" "length x \<le> 4" "x \<noteq> y"
  shows "crc32_update crc (p @ x @ q) \<noteq> crc32_update crc (p @ y @ q)"
proof
  let ?s = "crc32_bitwise (NOT crc) p"
  assume "crc32_update crc (p @ x @ q) = crc32_update crc (p @ y @ q)"
  then have "crc32_bitwise (crc32_bitwise ?s x) q = crc32_bitwise (crc32_bitwise ?s y) q"
    by (simp add: crc32_update_eq crc32_bitwise_append)
  then have "crc32_bitwise ?s x = crc32_bitwise ?s y"
    by (rule crc32_bitwise_inj_state)
  then have "(crc32_byte ^^ length y) (?s XOR le32 x) = (crc32_byte ^^ length y) (?s XOR le32 y)"
    using assms crc32_bitwise_window by metis
  then have "?s XOR le32 x = ?s XOR le32 y"
    by (rule funpow_inj_eq [OF crc32_byte_inj])
  then show False
    using assms le32_inj by simp
qed

theorem crc32_detects_burst_witness:
  "length [1, 2 :: byte] = length [2, 1 :: byte] \<and> length [1, 2 :: byte] \<le> 4 \<and> [1, 2 :: byte] \<noteq> [2, 1]
    \<and> crc32_update 0 ([7] @ [1, 2] @ [9]) \<noteq> crc32_update 0 ([7] @ [2, 1] @ [9])"
  using crc32_detects_burst [of "[1, 2]" "[2, 1]" 0 "[7]" "[9]"] by simp

text \<open>The 8-bit CRC of the USB dev cart is the bitwise CRC with polynomial \<open>0x07\<close>; a
  message followed by its own CRC has CRC zero.\<close>

theorem crc_usbdc_correct:
  "crc_usbdc_update crc data = crc8_bitwise crc data
    \<and> crc_usbdc_update crc (data @ [crc_usbdc_finalize (crc_usbdc_update crc data)]) = 0"
  by (simp add: crc_usbdc_append crc_usbdc_finalize_def crc_usbdc_update_bitwise
      crc8_bitwise_foldl del: crc_usbdc_update.simps)

text \<open>The 8-bit CRC of the USB dev cart separates two messages that differ in exactly one
  byte, whatever precedes and follows it.\<close>

theorem crc_usbdc_detects_byte:
  assumes "a \<noteq> b"
  shows "crc_usbdc_update crc (p @ a # q) \<noteq> crc_usbdc_update crc (p @ b # q)"
  unfolding crc_usbdc_update_bitwise crc8_bitwise_foldl using assms by (rule crc8.foldl_detects)

theorem crc_usbdc_detects_byte_witness:
  "(1 :: byte) \<noteq> 2 \<and> crc_usbdc_update crc_usbdc_init ([7] @ 1 # [9])
    \<noteq> crc_usbdc_update crc_usbdc_init ([7] @ 2 # [9])"
  using crc_usbdc_detects_byte [of 1 2 crc_usbdc_init "[7]" "[9]"] by simp

end
