(* ===== verification/ScRomfs.thy ===== *)
theory ScRomfs
  imports ScCommon ScCompress
begin

section \<open>The read-only file system\<close>

text \<open>
  Models \<open>satcom_lib/sc_romfs.c\<close>. The file system is one block of memory, a list of bytes; a
  pointer into it is an offset. On the Saturn, whose byte order is big endian, \<open>memcpy\<close> of a
  structure from the block reads its words as big-endian ones. A path is the list of its
  characters without the terminating null, which \<open>path_char\<close> supplies. Every routine returns
  \<open>None\<close> where the C would leave the block (or its own buffers); a null pointer is
  \<open>Some None\<close>. The debug output (\<open>logout\<close>) is left out.
\<close>

subsection \<open>Structures\<close>

abbreviation ROMFS_COMP_CHUNK :: nat where "ROMFS_COMP_CHUNK \<equiv> 8 * 1024"
abbreviation SC_FILENAME_MAXLEN :: nat where "SC_FILENAME_MAXLEN \<equiv> 27"
abbreviation FLAG_ENABLED :: byte where "FLAG_ENABLED \<equiv> 0x01"
abbreviation FLAG_FOLDER :: byte where "FLAG_FOLDER \<equiv> 0x02"
abbreviation FLAG_COMPRESSED :: byte where "FLAG_COMPRESSED \<equiv> 0x20"
abbreviation FLAG_LASTENTRY :: byte where "FLAG_LASTENTRY \<equiv> 0x40"

record romfs_header =
  magic :: "byte list"
  h_size :: u32
  h_crc32 :: u32
  folder_cnt :: u32
  file_cnt :: u32

record romfs_entry =
  e_offset :: u32
  e_size :: u32
  e_flags :: byte
  filename_len :: byte

abbreviation HEADER_SIZE :: nat where "HEADER_SIZE \<equiv> 24"
abbreviation ENTRY_SIZE :: nat where "ENTRY_SIZE \<equiv> 10"

definition be32_at :: "byte list \<Rightarrow> nat \<Rightarrow> u32 option" where
  "be32_at m p = do {
     a \<leftarrow> peek m p; b \<leftarrow> peek m (p + 1); c \<leftarrow> peek m (p + 2); d \<leftarrow> peek m (p + 3);
     Some (push_bit 24 (ucast a) OR push_bit 16 (ucast b) OR push_bit 8 (ucast c) OR ucast d) }"

definition be16_at :: "byte list \<Rightarrow> nat \<Rightarrow> u32 option" where
  "be16_at m p = do {
     a \<leftarrow> peek m p; b \<leftarrow> peek m (p + 1);
     Some (push_bit 8 (ucast a) OR ucast b) }"

definition romfs_header_at :: "byte list \<Rightarrow> nat \<Rightarrow> romfs_header option" where
  "romfs_header_at m p =
     (if p + HEADER_SIZE \<le> length m then do {
        hsz \<leftarrow> be32_at m (p + 8); crc \<leftarrow> be32_at m (p + 12);
        fo \<leftarrow> be32_at m (p + 16); fi \<leftarrow> be32_at m (p + 20);
        Some \<lparr>magic = mem_read p 8 m, h_size = hsz, h_crc32 = crc, folder_cnt = fo, file_cnt = fi\<rparr> }
      else None)"

definition romfs_entry_at :: "byte list \<Rightarrow> nat \<Rightarrow> romfs_entry option" where
  "romfs_entry_at m p = do {
     off \<leftarrow> be32_at m p; esz \<leftarrow> be32_at m (p + 4);
     fl \<leftarrow> peek m (p + 8); nl \<leftarrow> peek m (p + 9);
     Some \<lparr>e_offset = off, e_size = esz, e_flags = fl, filename_len = nl\<rparr> }"

subsection \<open>Decompression of a range of a file\<close>

definition romfs_decomp_getsize :: "byte list \<Rightarrow> nat \<Rightarrow> u32 option" where
  "romfs_decomp_getsize ind inl = be32_at ind 0"

text \<open>The copy of one chunk: only the bytes whose position is in the requested range.\<close>

fun romfs_copy_range :: "byte list \<Rightarrow> u32 \<Rightarrow> u32 \<Rightarrow> u32 \<Rightarrow> byte list \<Rightarrow> nat
    \<Rightarrow> (u32 \<times> byte list \<times> nat) option" where
  "romfs_copy_range [] offset sz in_offset outd op = Some (in_offset, outd, op)"
| "romfs_copy_range (c # cs) offset sz in_offset outd op =
     (if in_offset \<ge> offset \<and> in_offset < offset + sz
      then do { outd \<leftarrow> poke outd op c;
        romfs_copy_range cs offset sz (in_offset + 1) outd (op + 1) }
      else romfs_copy_range cs offset sz (in_offset + 1) outd op)"

text \<open>
  The loop over the chunks, with \<open>p\<close> the position of \<open>ind\<close>, \<open>buf\<close> the static buffer a chunk is
  unpacked into and \<open>op\<close> the position of \<open>outd\<close>. Reads of \<open>_romfs_decomp_buffer\<close> past its end
  cannot be missed: \<open>decomp_exec\<close> has written as many bytes as it returns.
\<close>

function romfs_chunks :: "byte list \<Rightarrow> u32 \<Rightarrow> u32 \<Rightarrow> u32 \<Rightarrow> nat \<Rightarrow> u32 \<Rightarrow> u32 \<Rightarrow> byte list
    \<Rightarrow> byte list \<Rightarrow> nat \<Rightarrow> (byte list \<times> byte list) option" where
  "romfs_chunks ind decomp_len offset sz p in_offset len buf outd op =
     (case be16_at ind p of
        None \<Rightarrow> None
      | Some chunklen \<Rightarrow> do {
          let p = p + 2;
          (n, buf) \<leftarrow> decomp_exec (drop p ind) (unat chunklen) buf;
          if n > length buf then None else do {
            (in_offset, outd, op) \<leftarrow> romfs_copy_range (take n buf) offset sz in_offset outd op;
            if in_offset \<ge> offset + sz then Some (buf, outd)
            else do {
              let len = len + word_of_nat n;
              if len < decomp_len
              then romfs_chunks ind decomp_len offset sz (p + unat chunklen) in_offset len buf outd op
              else Some (buf, outd) } } })"
  by pat_completeness auto
termination
  by (relation "measure (\<lambda>(ind, decomp_len, offset, sz, p, _). length ind - p)")
    (auto simp: be16_at_def bind_eq_Some_conv peek_eq_Some)

declare romfs_chunks.simps [simp del]

definition romfs_decomp_exec :: "byte list \<Rightarrow> nat \<Rightarrow> byte list \<Rightarrow> byte list \<Rightarrow> u32 \<Rightarrow> u32
    \<Rightarrow> (u32 \<times> byte list \<times> byte list) option" where
  "romfs_decomp_exec ind inl buf outd offset sz = do {
     decomp_len \<leftarrow> romfs_decomp_getsize ind inl;
     (buf, outd) \<leftarrow> romfs_chunks ind decomp_len offset sz 4 0 0 buf outd 0;
     Some (decomp_len, buf, outd) }"

subsection \<open>The header\<close>

definition romfs_check_header :: "byte list option \<Rightarrow> bool \<Rightarrow> bool option" where
  "romfs_check_header romfs crc_check = (case romfs of
     None \<Rightarrow> Some False
   | Some m \<Rightarrow> do {
       hdr \<leftarrow> romfs_header_at m 0;
       if magic hdr ! 0 \<noteq> of_char (CHR ''R'') then Some False
       else if magic hdr ! 1 \<noteq> of_char (CHR ''o'') then Some False
       else if magic hdr ! 2 \<noteq> of_char (CHR ''m'') then Some False
       else if magic hdr ! 3 \<noteq> of_char (CHR ''F'') then Some False
       else if magic hdr ! 4 \<noteq> of_char (CHR ''s'') then Some False
       else if magic hdr ! 5 \<noteq> of_char (CHR ''1'') then Some False
       else if magic hdr ! 6 \<noteq> 0xCA then Some False
       else if magic hdr ! 7 \<noteq> 0xFE then Some False
       else if h_size hdr < word_of_nat HEADER_SIZE then Some False
       else if crc_check
       then (if unat (h_size hdr) \<le> length m
         then Some (h_crc32 hdr = crc32_calc (mem_read HEADER_SIZE (unat (h_size hdr) - HEADER_SIZE) m))
         else None)
       else Some True })"

subsection \<open>Looking up a path\<close>

fun romfs_compare_chars :: "byte list \<Rightarrow> byte list \<Rightarrow> nat \<Rightarrow> bool option" where
  "romfs_compare_chars [] m txt = Some True"
| "romfs_compare_chars (c # cs) m txt = do {
     t \<leftarrow> peek m txt;
     if c \<noteq> sc_toupper t then Some False else romfs_compare_chars cs m (txt + 1) }"

definition romfs_compare_filename :: "byte list \<Rightarrow> nat \<Rightarrow> byte list \<Rightarrow> nat \<Rightarrow> bool option" where
  "romfs_compare_filename filename len m txt =
     (if len - 1 \<le> length filename then romfs_compare_chars (take (len - 1) filename) m txt else None)"

text \<open>
  The search through the entries of a folder, from the entry at \<open>e\<close> on, for a name of \<open>len\<close>
  bytes including the null: the entry found, or the first entry of the folder found.
\<close>

function romfs_search :: "byte list \<Rightarrow> byte list \<Rightarrow> nat \<Rightarrow> nat \<Rightarrow> nat option option" where
  "romfs_search m filename len e =
     (case peek m (e + 8) of
        None \<Rightarrow> None
      | Some flags \<Rightarrow> do {
          found \<leftarrow> (if flags AND FLAG_ENABLED \<noteq> 0
            then do {
              nl \<leftarrow> peek m (e + 9);
              if unat nl = len then romfs_compare_filename filename len m (e + ENTRY_SIZE)
              else Some False }
            else Some False);
          if found
          then (if flags AND FLAG_FOLDER \<noteq> 0
            then do { entry \<leftarrow> romfs_entry_at m e; Some (Some (unat (e_offset entry))) }
            else Some (Some e))
          else if flags AND FLAG_LASTENTRY \<noteq> 0 then Some None
          else do {
            nl \<leftarrow> peek m (e + 9);
            romfs_search m filename len (e + ENTRY_SIZE + unat nl) } })"
  by pat_completeness auto
termination
  by (relation "measure (\<lambda>(m, filename, len, e). length m - e)")
    (auto simp: peek_eq_Some)

declare romfs_search.simps [simp del]

definition path_char :: "byte list \<Rightarrow> nat \<Rightarrow> byte option" where
  "path_char path i = peek (path @ [0]) i"

text \<open>
  The \<open>do \<dots> while(path[i++] != '\0')\<close> loop. The file name buffer holds \<open>SC_FILENAME_MAXLEN\<close>
  bytes, which the sanity check ensures before the name is copied into it.
\<close>

function romfs_walk :: "byte list \<Rightarrow> byte list \<Rightarrow> nat \<Rightarrow> nat \<Rightarrow> nat \<Rightarrow> nat option option" where
  "romfs_walk m path e i j =
     (case path_char path i of
        None \<Rightarrow> None
      | Some c \<Rightarrow>
          if c = of_char (CHR ''/'') \<or> c = 0
          then (let len = i - j + 1 in
            if len \<le> 1 then Some (Some e)
            else if len > SC_FILENAME_MAXLEN then Some None
            else (case romfs_search m (map sc_toupper (mem_read j (len - 1) path)) len e of
                None \<Rightarrow> None
              | Some None \<Rightarrow> Some None
              | Some (Some e') \<Rightarrow>
                  if c \<noteq> 0 then romfs_walk m path e' (i + 1) (i + 1) else Some (Some e')))
          else romfs_walk m path e (i + 1) j)"
  by pat_completeness auto
termination
  by (relation "measure (\<lambda>(m, path, e, i, j). length path + 1 - i)")
    (auto simp: path_char_def peek_eq_Some)

declare romfs_walk.simps [simp del]

definition romfs_get_first_entry :: "byte list option \<Rightarrow> byte list \<Rightarrow> nat option option" where
  "romfs_get_first_entry romfs path = do {
     ok \<leftarrow> romfs_check_header romfs False;
     if \<not> ok then Some None
     else do {
       c \<leftarrow> path_char path 0;
       let i = (if c = of_char (CHR ''/'') then 1 else 0);
       romfs_walk (the romfs) path HEADER_SIZE i i } }"

text \<open>The next enabled entry of the folder.\<close>

function romfs_next :: "byte list \<Rightarrow> nat \<Rightarrow> nat option option" where
  "romfs_next m e =
     (case peek m (e + 9) of
        None \<Rightarrow> None
      | Some nl \<Rightarrow> do {
          let e = e + ENTRY_SIZE + unat nl;
          flags \<leftarrow> peek m (e + 8);
          if flags AND (FLAG_LASTENTRY OR FLAG_ENABLED) = FLAG_LASTENTRY then Some None
          else if flags AND FLAG_ENABLED = 0 then romfs_next m e
          else Some (Some e) })"
  by pat_completeness auto
termination
  by (relation "measure (\<lambda>(m, e). length m - e)") (auto simp: peek_eq_Some)

declare romfs_next.simps [simp del]

definition romfs_get_next_entry :: "byte list \<Rightarrow> nat option \<Rightarrow> nat option option" where
  "romfs_get_next_entry m entry = (case entry of
     None \<Rightarrow> Some None
   | Some e \<Rightarrow> do {
       flags \<leftarrow> peek m (e + 8);
       if flags AND FLAG_LASTENTRY \<noteq> 0 then Some None else romfs_next m e })"

subsection \<open>Reading an entry\<close>

definition romfs_get_entry_size :: "byte list \<Rightarrow> romfs_entry \<Rightarrow> u32 option" where
  "romfs_get_entry_size m e =
     (if e_flags e AND FLAG_FOLDER \<noteq> 0 then Some 0
      else if e_flags e AND FLAG_COMPRESSED \<noteq> 0
      then romfs_decomp_getsize (drop (unat (e_offset e)) m) (unat (e_size e))
      else Some (e_size e))"

definition romfs_get_entry_data :: "byte list \<Rightarrow> romfs_entry \<Rightarrow> byte list \<Rightarrow> byte list \<Rightarrow> u32 \<Rightarrow> u32
    \<Rightarrow> (byte list \<times> byte list) option" where
  "romfs_get_entry_data m e buf buffer offset sz =
     (if e_flags e AND FLAG_FOLDER \<noteq> 0 then Some (buf, buffer)
      else if e_flags e AND FLAG_COMPRESSED \<noteq> 0
      then do {
        (n, buf, buffer) \<leftarrow> romfs_decomp_exec (drop (unat (e_offset e)) m) (unat (e_size e))
          buf buffer offset sz;
        Some (buf, buffer) }
      else
        (let p = unat (e_offset e + offset) in
         if p + unat sz \<le> length m
         then do { buffer \<leftarrow> mem_copy 0 (mem_read p (unat sz) m) buffer; Some (buf, buffer) }
         else None))"

text \<open>
  The pointer and \<open>*datalen\<close> (always written here). The null that the first test assigns for a
  folder is overwritten by the second \<open>if\<close>, which has no \<open>else\<close> before it.
\<close>

definition romfs_get_entry_ptr :: "romfs_entry \<Rightarrow> u32 option \<times> u32" where
  "romfs_get_entry_ptr e =
     (if e_flags e AND FLAG_COMPRESSED \<noteq> 0 then (None, 0) else (Some (e_offset e), e_size e))"

subsection \<open>Random access to a compressed file\<close>

lemma be16_at_bytes:
  assumes m: "drop p m = be_bytes 2 v @ r" and "unat v < 2 ^ 16"
  shows "be16_at m p = Some v" "drop (p + 2) m = r"
  using m bytes_join_16 [OF assms(2)]
  by (simp_all add: be16_at_def be_bytes_simps drop_eq_Cons_conv)

lemma be32_at_bytes:
  assumes m: "drop p m = be_bytes 4 v @ r"
  shows "be32_at m p = Some v" "drop (p + 4) m = r"
proof -
  have n: "p + 3 = Suc (Suc (Suc p))" "p + 4 = Suc (Suc (Suc (Suc p)))" by simp_all
  show "be32_at m p = Some v" "drop (p + 4) m = r"
    using m bytes_join_32 [of v] unfolding be32_at_def n
    by (simp_all add: be_bytes_simps drop_eq_Cons_conv)
qed

text \<open>
  A compressed file: the length of its contents, then its chunks, each packed by \<open>comp_exec\<close>
  and preceded by its packed length.
\<close>

definition chunk_ok :: "byte list \<Rightarrow> byte list \<Rightarrow> bool" where
  "chunk_ok c p \<longleftrightarrow> (comp_stored c (length p) p \<or> comp_packed c (length p) p)
     \<and> length c \<le> ROMFS_COMP_CHUNK \<and> length p < 2 ^ 16"

definition chunk_bytes :: "(byte list \<times> byte list) list \<Rightarrow> byte list" where
  "chunk_bytes ps = concat (map (\<lambda>(c, p). be_bytes 2 (word_of_nat (length p)) @ p) ps)"

definition romfs_file :: "byte list \<Rightarrow> byte list \<Rightarrow> bool" where
  "romfs_file content m \<longleftrightarrow> (\<exists>ps rest. ps \<noteq> [] \<and> (\<forall>(c, p) \<in> set ps. chunk_ok c p)
     \<and> content = concat (map fst ps)
     \<and> m = be_bytes 4 (word_of_nat (length content)) @ chunk_bytes ps @ rest)"

text \<open>The bytes of \<open>xs\<close>, which stands at position \<open>p\<close>, that lie between \<open>off\<close> and \<open>lim\<close>.\<close>

definition in_range :: "nat \<Rightarrow> nat \<Rightarrow> nat \<Rightarrow> 'a list \<Rightarrow> 'a list" where
  "in_range off lim p xs = drop (off - p) (take (lim - p) xs)"

lemma in_range_Nil [simp]: "in_range off lim p [] = []"
  by (simp add: in_range_def)

lemma in_range_append: "in_range off lim p (xs @ ys) = in_range off lim p xs @ in_range off lim (p + length xs) ys"
  by (auto simp: in_range_def min_def)

lemma in_range_Cons: "in_range off lim p (x # xs)
    = (if off \<le> p \<and> p < lim then [x] else []) @ in_range off lim (p + 1) xs"
  using in_range_append [of off lim p "[x]" xs]
  by (cases "off \<le> p \<and> p < lim") (auto simp: in_range_def)

lemma in_range_beyond: "lim \<le> p \<Longrightarrow> in_range off lim p xs = []"
  by (simp add: in_range_def)

lemma in_range_all: "in_range off (off + n) 0 xs = mem_read off n xs"
  by (simp add: in_range_def mem_read_def take_drop add.commute)

lemma chunk_decomp:
  assumes "chunk_ok c p" "length buf = ROMFS_COMP_CHUNK"
  shows "\<exists>buf'. decomp_exec (p @ rest) (length p) buf = Some (length c, buf')
    \<and> length buf' = length buf \<and> take (length c) buf' = c"
  using assms decomp_stored [of c "length p" p buf rest] decomp_packed [of c "length p" p buf rest]
  by (auto simp: chunk_ok_def)

text \<open>The copy loop writes the part of the chunk that lies in the range.\<close>

lemma romfs_copy_range_eq:
  assumes "p + length cs < 2 ^ 32" "off + n < 2 ^ 32"
    and "op + length (in_range off (off + n) p cs) \<le> length outd"
  shows "romfs_copy_range cs (word_of_nat off) (word_of_nat n) (word_of_nat p) outd op
    = Some (word_of_nat (p + length cs), mem_write op (in_range off (off + n) p cs) outd,
        op + length (in_range off (off + n) p cs))"
  using assms
proof (induction cs arbitrary: p op outd)
  case (Cons c cs)
  have c: "word_of_nat off \<le> (word_of_nat p :: u32) \<longleftrightarrow> off \<le> p"
    "(word_of_nat p :: u32) < word_of_nat (off + n) \<longleftrightarrow> p < off + n"
    using Cons.prems unfolding word_le_nat_alt word_less_nat_alt by (subst (1 2) unat_word_of_nat; simp)+
  have n: "word_of_nat off + word_of_nat n = (word_of_nat (off + n) :: u32)"
    "word_of_nat p + 1 = (word_of_nat (p + 1) :: u32)" by simp_all
  show ?case
  proof (cases "off \<le> p \<and> p < off + n")
    case True
    then show ?thesis
      using Cons.IH [of "p + 1" "op + 1" "outd[op := c]"] Cons.prems c
      by (simp add: in_range_Cons mem_write_Cons n del: of_nat_add)
  next
    case False
    then show ?thesis
      using Cons.IH [of "p + 1" op outd] Cons.prems c
      by (auto simp: in_range_Cons n simp del: of_nat_add)
  qed
qed simp

lemma of_nat_cmp_u32:
  assumes "a < 2 ^ 32" "b < 2 ^ 32"
  shows "(word_of_nat a :: u32) \<le> word_of_nat b \<longleftrightarrow> a \<le> b" "(word_of_nat a :: u32) < word_of_nat b \<longleftrightarrow> a < b"
  using assms unfolding word_le_nat_alt word_less_nat_alt by (subst (1 2) unat_word_of_nat; simp)+

lemma romfs_chunks_eq:
  fixes pre :: "byte list" and off n :: nat
  defines "rng \<equiv> \<lambda>xs. in_range off (off + n) 0 (xs :: byte list)"
  assumes "drop p ind = chunk_bytes ps @ rest" "ps \<noteq> []" "\<forall>(c, q) \<in> set ps. chunk_ok c q"
    and N: "N = length (pre @ concat (map fst ps))" "N < 2 ^ 32" and range: "off + n < 2 ^ 32"
    and "length buf = ROMFS_COMP_CHUNK"
    and "length (rng (pre @ concat (map fst ps))) \<le> length outd"
  shows "\<exists>buf'. length buf' = length buf
    \<and> romfs_chunks ind (word_of_nat N) (word_of_nat off) (word_of_nat n) p
        (word_of_nat (length pre)) (word_of_nat (length pre)) buf
        (mem_write 0 (rng pre) outd) (length (rng pre))
      = Some (buf', mem_write 0 (rng (pre @ concat (map fst ps))) outd)"
  using assms(2-)
proof (induction ps arbitrary: p pre buf)
  case (Cons cq ps)
  obtain c q where cq: "cq = (c, q)" by (cases cq)
  then have ok: "chunk_ok c q" "\<forall>(c, q) \<in> set ps. chunk_ok c q" using Cons.prems(3) by auto
  have qlen: "length q < 2 ^ 16" "unat (word_of_nat (length q) :: u32) = length q"
    using ok(1) by (auto simp: chunk_ok_def)
  have "drop p ind = be_bytes 2 (word_of_nat (length q)) @ q @ chunk_bytes ps @ rest"
    using Cons.prems(1) by (simp add: cq chunk_bytes_def)
  note rd = be16_at_bytes [OF this, unfolded qlen(2), OF qlen(1)]
  obtain buf1 where dec: "decomp_exec (drop (p + 2) ind) (length q) buf = Some (length c, buf1)"
    "length buf1 = length buf" "take (length c) buf1 = c"
    using chunk_decomp [OF ok(1) Cons.prems(7), of "chunk_bytes ps @ rest"] rd(2) by auto
  have clen: "\<not> length buf1 < length c"
    using ok(1) dec(2) Cons.prems(7) by (simp add: chunk_ok_def)
  let ?pre = "pre @ c" and ?ir = "in_range off (off + n) (length pre) c"
  have tot: "length ?pre \<le> N" using Cons.prems(4) by (simp add: cq)
  have rng: "rng ?pre = rng pre @ ?ir" by (simp add: rng_def in_range_append)
  have fits: "length (rng ?pre) \<le> length outd"
    using Cons.prems(8) by (simp add: cq rng_def in_range_append)
  have wr: "mem_write (length (rng pre)) ?ir (mem_write 0 (rng pre) outd) = mem_write 0 (rng ?pre) outd"
    using mem_write_append [of 0 "rng pre" ?ir outd] fits by (simp add: rng)
  have copy: "romfs_copy_range c (word_of_nat off) (word_of_nat n) (word_of_nat (length pre))
      (mem_write 0 (rng pre) outd) (length (rng pre))
    = Some (word_of_nat (length ?pre), mem_write 0 (rng ?pre) outd, length (rng ?pre))"
    using romfs_copy_range_eq [of "length pre" c off n "length (rng pre)" "mem_write 0 (rng pre) outd"]
      tot Cons.prems(5) Cons.prems(6) fits wr by (simp add: rng)
  have w: "word_of_nat off + word_of_nat n = (word_of_nat (off + n) :: u32)"
    "word_of_nat (length pre) + word_of_nat (length c) = (word_of_nat (length ?pre) :: u32)" by simp_all
  have step: "romfs_chunks ind (word_of_nat N) (word_of_nat off) (word_of_nat n) p
        (word_of_nat (length pre)) (word_of_nat (length pre)) buf
        (mem_write 0 (rng pre) outd) (length (rng pre))
      = (if off + n \<le> length ?pre then Some (buf1, mem_write 0 (rng ?pre) outd)
         else if length ?pre < N
         then romfs_chunks ind (word_of_nat N) (word_of_nat off) (word_of_nat n) (p + 2 + length q)
           (word_of_nat (length ?pre)) (word_of_nat (length ?pre)) buf1
           (mem_write 0 (rng ?pre) outd) (length (rng ?pre))
         else Some (buf1, mem_write 0 (rng ?pre) outd))"
    using clen copy tot Cons.prems(5,6)
    by (subst romfs_chunks.simps)
      (simp add: rd(1) qlen(2) dec w of_nat_cmp_u32 Let_def cong: if_cong split del: if_split
        del: of_nat_add length_append add_2_eq_Suc')
  let ?all = "pre @ concat (map fst (cq # ps))"
  have all: "?all = ?pre @ concat (map fst ps)" by (simp add: cq)
  consider (beyond) "off + n \<le> length ?pre" | (last) "\<not> off + n \<le> length ?pre" "\<not> length ?pre < N"
    | (more) "\<not> off + n \<le> length ?pre" "length ?pre < N" by blast
  then show ?case
  proof cases
    case beyond
    then have "rng ?all = rng ?pre"
      unfolding all rng_def in_range_append [of _ _ _ ?pre] by (simp add: in_range_beyond)
    then show ?thesis using step beyond dec(2) by simp
  next
    case last
    then have "concat (map fst ps) = []" using Cons.prems(4) unfolding all by simp
    then have "?all = ?pre" unfolding all by simp
    then show ?thesis using step last dec(2) by simp
  next
    case more
    then have "ps \<noteq> []" using Cons.prems(4) unfolding all by auto
    moreover have "drop (p + 2 + length q) ind = chunk_bytes ps @ rest"
      using drop_eq_append_D(3) [OF rd(2)] by simp
    ultimately obtain buf' where "length buf' = length buf1"
      "romfs_chunks ind (word_of_nat N) (word_of_nat off) (word_of_nat n) (p + 2 + length q)
        (word_of_nat (length ?pre)) (word_of_nat (length ?pre)) buf1
        (mem_write 0 (rng ?pre) outd) (length (rng ?pre))
      = Some (buf', mem_write 0 (rng (?pre @ concat (map fst ps))) outd)"
      using Cons.IH [of "p + 2 + length q" ?pre buf1] ok(2) Cons.prems(4-) dec(2) all by auto
    then show ?thesis using step more dec(2) all by simp
  qed
qed simp

lemma romfs_decomp_exec_range:
  assumes fil: "romfs_file content ind" and len: "length content < 2 ^ 32" "off + n < 2 ^ 32"
    and buf: "length buf = ROMFS_COMP_CHUNK" and outd: "length (mem_read off n content) \<le> length outd"
  shows "\<exists>buf'. length buf' = ROMFS_COMP_CHUNK
    \<and> romfs_decomp_exec ind inl buf outd (word_of_nat off) (word_of_nat n)
      = Some (word_of_nat (length content), buf', mem_write 0 (mem_read off n content) outd)"
proof -
  obtain ps rest where ps: "ps \<noteq> []" "\<forall>(c, p) \<in> set ps. chunk_ok c p" "content = concat (map fst ps)"
    "drop 0 ind = be_bytes 4 (word_of_nat (length content)) @ chunk_bytes ps @ rest"
    using fil by (auto simp: romfs_file_def)
  note hd = be32_at_bytes [OF ps(4)]
  show ?thesis
    using romfs_chunks_eq [of 4 ind ps rest "length content" "[]" off n buf outd] hd ps(1-3) len buf outd
    by (auto simp: romfs_decomp_exec_def romfs_decomp_getsize_def in_range_all)
qed

text \<open>The contents of an entry, however they are stored.\<close>

definition entry_content :: "byte list \<Rightarrow> romfs_entry \<Rightarrow> byte list \<Rightarrow> bool" where
  "entry_content m e content \<longleftrightarrow> length content < 2 ^ 32 \<and> e_flags e AND FLAG_FOLDER = 0
     \<and> (if e_flags e AND FLAG_COMPRESSED \<noteq> 0 then romfs_file content (drop (unat (e_offset e)) m)
        else unat (e_offset e) + unat (e_size e) \<le> length m
          \<and> content = mem_read (unat (e_offset e)) (unat (e_size e)) m)"

text \<open>
  The size reported for a file is the length of its contents, and reading any range of it,
  raw or compressed in chunks, delivers exactly these bytes to the start of the caller's buffer,
  leaves the rest of the buffer alone and stays inside every buffer.
\<close>

theorem romfs_read_range:
  assumes "entry_content m e content" "off + n \<le> length content" "length m < 2 ^ 32"
    and "n \<le> length buffer" "length buf = ROMFS_COMP_CHUNK"
  shows "romfs_get_entry_size m e = Some (word_of_nat (length content))
    \<and> (\<exists>buf'. romfs_get_entry_data m e buf buffer (word_of_nat off) (word_of_nat n)
        = Some (buf', mem_write 0 (mem_read off n content) buffer))"
proof (cases "e_flags e AND FLAG_COMPRESSED = 0")
  case False
  then have fil: "romfs_file content (drop (unat (e_offset e)) m)"
    using assms(1) by (simp add: entry_content_def)
  obtain r where "drop 0 (drop (unat (e_offset e)) m) = be_bytes 4 (word_of_nat (length content)) @ r"
    using fil by (auto simp: romfs_file_def)
  note hd = be32_at_bytes(1) [OF this]
  obtain buf' where "romfs_decomp_exec (drop (unat (e_offset e)) m) (unat (e_size e)) buf buffer
      (word_of_nat off) (word_of_nat n)
    = Some (word_of_nat (length content), buf', mem_write 0 (mem_read off n content) buffer)"
    using romfs_decomp_exec_range [OF fil, of off n buf buffer "unat (e_size e)"] assms
    by (auto simp: entry_content_def)
  then show ?thesis
    using assms False hd
    by (auto simp: entry_content_def romfs_get_entry_size_def romfs_get_entry_data_def
        romfs_decomp_getsize_def)
next
  case True
  then have c: "unat (e_offset e) + unat (e_size e) \<le> length m"
      "content = mem_read (unat (e_offset e)) (unat (e_size e)) m" "length content = unat (e_size e)"
    using assms(1) by (auto simp: entry_content_def)
  have on: "off < 2 ^ 32" "n < 2 ^ 32" using assms(2) c(1,3) assms(3) by linarith+
  then have u: "unat (word_of_nat off :: u32) = off" "unat (word_of_nat n :: u32) = n"
    by simp_all
  have p: "unat (e_offset e + word_of_nat off) = unat (e_offset e) + off"
    using unat_add_lem [of "e_offset e" "word_of_nat off"] c(1,3) assms(2,3) u by simp
  have "mem_read (unat (e_offset e) + off) n m = mem_read off n content"
    using c(1,3) assms(2) unfolding c(2) mem_read_def by (simp add: drop_take add.commute min_def)
  then show ?thesis
    using assms True c p u
    by (auto simp: entry_content_def romfs_get_entry_size_def romfs_get_entry_data_def mem_copy_def
        simp del: unat_word_of_nat)
qed

text \<open>A file of two stored chunks, and one of its ranges that crosses the chunk boundary.\<close>

definition romfs_example :: "byte list" where
  "romfs_example = be_bytes 4 5 @ chunk_bytes [([1, 2, 3], 1 # [1, 2, 3]), ([4, 5], 1 # [4, 5])]"

lemma romfs_example_file: "romfs_file [1, 2, 3, 4, 5] romfs_example"
proof -
  have "chunk_ok [1, 2, 3] [1, 1, 2, 3]" "chunk_ok [4, 5] [1, 4, 5]"
    by (simp_all add: chunk_ok_def comp_stored_def comp_flag_def comp_data_size_def)
  then show ?thesis
    unfolding romfs_file_def
    by (intro exI [of _ "[([1, 2, 3], 1 # [1, 2, 3]), ([4, 5], 1 # [4, 5])]"] exI [of _ "[]"])
      (simp add: romfs_example_def)
qed

lemma romfs_read_range_witness:
  "romfs_get_entry_size romfs_example \<lparr>e_offset = 0, e_size = 15, e_flags = 0x21, filename_len = 2\<rparr> = Some 5
    \<and> (\<exists>buf'. romfs_get_entry_data romfs_example
          \<lparr>e_offset = 0, e_size = 15, e_flags = 0x21, filename_len = 2\<rparr>
          (replicate 8192 0) [0, 0, 9] 2 2 = Some (buf', [3, 4, 9]))"
  using romfs_read_range [of romfs_example
      "\<lparr>e_offset = 0, e_size = 15, e_flags = 0x21, filename_len = 2\<rparr>" "[1, 2, 3, 4, 5]" 2 2 "[0, 0, 9]"
      "replicate 8192 0"] romfs_example_file
  by (simp add: entry_content_def mem_read_def mem_write_def romfs_example_def chunk_bytes_def)

subsection \<open>Folders as lists of entries\<close>

text \<open>
  A folder as it is stored: entries with their names, each name followed by a null; the last
  entry, and no other, carries the end mark.
\<close>

record dent =
  d_offset :: u32
  d_size :: u32
  d_flags :: byte
  d_name :: "byte list"

definition dent_bytes :: "dent \<Rightarrow> byte list" where
  "dent_bytes d = be_bytes 4 (d_offset d) @ be_bytes 4 (d_size d)
     @ [d_flags d, word_of_nat (length (d_name d) + 1)] @ d_name d @ [0]"

definition d_len :: "dent \<Rightarrow> nat" where
  "d_len d = ENTRY_SIZE + (length (d_name d) + 1)"

fun dents_ok :: "dent list \<Rightarrow> bool" where
  "dents_ok [] = False"
| "dents_ok [d] = (length (d_name d) < 255 \<and> d_flags d AND FLAG_LASTENTRY \<noteq> 0)"
| "dents_ok (d # ds) = (length (d_name d) < 255 \<and> d_flags d AND FLAG_LASTENTRY = 0 \<and> dents_ok ds)"

definition folder_at :: "byte list \<Rightarrow> nat \<Rightarrow> dent list \<Rightarrow> bool" where
  "folder_at m e ds \<longleftrightarrow> dents_ok ds \<and> (\<exists>rest. drop e m = concat (map dent_bytes ds) @ rest)"

lemma folder_at_Cons:
  assumes "folder_at m e (d # ds)"
  shows "peek m (e + 8) = Some (d_flags d)" "peek m (e + 9) = Some (word_of_nat (length (d_name d) + 1))"
    and "unat (word_of_nat (length (d_name d) + 1) :: byte) = length (d_name d) + 1"
    and "romfs_entry_at m e = Some \<lparr>e_offset = d_offset d, e_size = d_size d, e_flags = d_flags d,
      filename_len = word_of_nat (length (d_name d) + 1)\<rparr>"
    and "\<exists>r. drop (e + ENTRY_SIZE) m = d_name d @ 0 # r"
    and "ds \<noteq> [] \<Longrightarrow> folder_at m (e + d_len d) ds \<and> d_flags d AND FLAG_LASTENTRY = 0"
    and "ds = [] \<Longrightarrow> d_flags d AND FLAG_LASTENTRY \<noteq> 0"
proof -
  obtain rest where "drop e m = concat (map dent_bytes (d # ds)) @ rest" and ok: "dents_ok (d # ds)"
    using assms by (auto simp: folder_at_def)
  then have a: "drop e m = be_bytes 4 (d_offset d) @ be_bytes 4 (d_size d) @ d_flags d
      # word_of_nat (length (d_name d) + 1) # d_name d @ 0 # concat (map dent_bytes ds) @ rest"
    by (simp add: dent_bytes_def)
  note off = be32_at_bytes [OF a]
  note esz = be32_at_bytes [OF off(2)]
  have b: "drop (e + 8) m = d_flags d
      # word_of_nat (length (d_name d) + 1) # d_name d @ 0 # concat (map dent_bytes ds) @ rest"
    using esz(2) by (simp add: add.assoc)
  note fl = b [unfolded drop_eq_Cons_conv]
  have n: "Suc (e + 8) = e + 9" "Suc (e + 9) = e + 10" by simp_all
  show p8: "peek m (e + 8) = Some (d_flags d)" and p9: "peek m (e + 9) = Some (word_of_nat (length (d_name d) + 1))"
    using fl unfolding n by (simp_all add: drop_eq_Cons_conv)
  show "romfs_entry_at m e = Some \<lparr>e_offset = d_offset d, e_size = d_size d, e_flags = d_flags d,
      filename_len = word_of_nat (length (d_name d) + 1)\<rparr>"
    using off(1) esz(1) p8 p9 by (simp add: romfs_entry_at_def)
  have nm: "drop (e + ENTRY_SIZE) m = d_name d @ 0 # concat (map dent_bytes ds) @ rest"
    using fl unfolding n by (simp add: drop_eq_Cons_conv n)
  then show "\<exists>r. drop (e + ENTRY_SIZE) m = d_name d @ 0 # r" by blast
  have len: "length (d_name d) < 255" using ok by (cases ds) auto
  then show "unat (word_of_nat (length (d_name d) + 1) :: byte) = length (d_name d) + 1"
    by (intro unat_word_of_nat) simp
  have "drop (e + d_len d) m = concat (map dent_bytes ds) @ rest"
    using drop_eq_append_D(3) [of "e + ENTRY_SIZE" m "d_name d @ [0]"] nm by (simp add: d_len_def ac_simps)
  then show "ds \<noteq> [] \<Longrightarrow> folder_at m (e + d_len d) ds \<and> d_flags d AND FLAG_LASTENTRY = 0"
    using ok by (cases ds) (auto simp: folder_at_def)
  show "ds = [] \<Longrightarrow> d_flags d AND FLAG_LASTENTRY \<noteq> 0"
    using ok by simp
qed

lemma romfs_compare_chars_eq:
  assumes "drop p m = xs @ r" "length f = length xs"
  shows "romfs_compare_chars f m p = Some (f = map sc_toupper xs)"
  using assms
proof (induction f arbitrary: p xs)
  case (Cons c f)
  then obtain x xs' where "xs = x # xs'" by (cases xs) auto
  then show ?case
    using Cons by (auto simp: drop_eq_Cons_conv)
qed simp

text \<open>The first enabled entry of that name, ignoring case: its position, or its folder's.\<close>

definition dent_match :: "byte list \<Rightarrow> dent \<Rightarrow> bool" where
  "dent_match f d \<longleftrightarrow> d_flags d AND FLAG_ENABLED \<noteq> 0 \<and> f = map sc_toupper (d_name d)"

fun dir_find :: "byte list \<Rightarrow> nat \<Rightarrow> dent list \<Rightarrow> nat option" where
  "dir_find f e [] = None"
| "dir_find f e (d # ds) =
     (if dent_match f d
      then Some (if d_flags d AND FLAG_FOLDER \<noteq> 0 then unat (d_offset d) else e)
      else dir_find f (e + d_len d) ds)"

lemma romfs_search_step:
  assumes "peek m (e + 8) = Some fl" "peek m (e + 9) = Some nl"
    and "unat nl = len \<Longrightarrow> romfs_compare_filename f len m (e + ENTRY_SIZE) = Some b"
  shows "romfs_search m f len e =
     (if fl AND FLAG_ENABLED \<noteq> 0 \<and> unat nl = len \<and> b
      then (if fl AND FLAG_FOLDER \<noteq> 0
        then do { entry \<leftarrow> romfs_entry_at m e; Some (Some (unat (e_offset entry))) }
        else Some (Some e))
      else if fl AND FLAG_LASTENTRY \<noteq> 0 then Some None
      else romfs_search m f len (e + ENTRY_SIZE + unat nl))"
proof (cases "fl AND FLAG_ENABLED \<noteq> 0 \<and> unat nl = len")
  case True
  then show ?thesis using assms by (subst romfs_search.simps) (cases b; simp)
next
  case False
  then show ?thesis using assms by (subst romfs_search.simps) auto
qed

lemma romfs_search_folder:
  assumes "folder_at m e ds"
  shows "romfs_search m f (length f + 1) e = Some (dir_find f e ds)"
  using assms
proof (induction ds arbitrary: e)
  case Nil
  then show ?case by (simp add: folder_at_def)
next
  case (Cons d ds)
  note d = folder_at_Cons [OF Cons.prems]
  obtain r where r: "drop (e + ENTRY_SIZE) m = d_name d @ 0 # r" using d(5) by blast
  let ?b = "f = map sc_toupper (d_name d)"
  have cmp: "romfs_compare_filename f (length f + 1) m (e + ENTRY_SIZE) = Some ?b"
    if "length (d_name d) + 1 = length f + 1"
    using romfs_compare_chars_eq [OF r, of f] that by (simp add: romfs_compare_filename_def)
  have len: "length (d_name d) + 1 = length f + 1" if ?b using that by simp
  have step: "romfs_search m f (length f + 1) e =
     (if d_flags d AND FLAG_ENABLED \<noteq> 0 \<and> length (d_name d) + 1 = length f + 1 \<and> ?b
      then (if d_flags d AND FLAG_FOLDER \<noteq> 0
        then do { entry \<leftarrow> romfs_entry_at m e; Some (Some (unat (e_offset entry))) }
        else Some (Some e))
      else if d_flags d AND FLAG_LASTENTRY \<noteq> 0 then Some None
      else romfs_search m f (length f + 1) (e + ENTRY_SIZE + (length (d_name d) + 1)))"
    using romfs_search_step [OF d(1,2), of "length f + 1" f ?b] cmp unfolding d(3) by blast
  have pos: "e + ENTRY_SIZE + (length (d_name d) + 1) = e + d_len d" by (simp add: d_len_def)
  show ?case
  proof (cases "dent_match f d")
    case True
    then show ?thesis unfolding step using len d(4) by (simp add: dent_match_def)
  next
    case False
    then have "\<not> (d_flags d AND FLAG_ENABLED \<noteq> 0 \<and> length (d_name d) + 1 = length f + 1 \<and> ?b)"
      unfolding dent_match_def by blast
    then have other: "romfs_search m f (length f + 1) e =
      (if d_flags d AND FLAG_LASTENTRY \<noteq> 0 then Some None
       else romfs_search m f (length f + 1) (e + d_len d))"
      by (subst step) (simp only: pos if_False)
    show ?thesis
    proof (cases "ds = []")
      case True
      then show ?thesis unfolding other using d(7) False by simp
    next
      case more: False
      show ?thesis
        unfolding other using d(6) [OF more] Cons.IH [of "e + d_len d"] False by simp
    qed
  qed
qed

text \<open>
  Searching a folder for a name of at most 26 characters finds the first enabled entry with
  that name, ignoring case, skipping disabled entries and other names, and returns its position,
  or the position of its first entry if it is a folder; without such an entry it returns null. The
  search never leaves the folder.
\<close>

theorem romfs_search_correct:
  assumes "folder_at m e ds"
  shows "romfs_search m (map sc_toupper name) (length name + 1) e
    = Some (dir_find (map sc_toupper name) e ds)"
  using romfs_search_folder [OF assms, of "map sc_toupper name"] by simp

text \<open>Two entries, the first one disabled.\<close>

definition dents_example :: "dent list" where
  "dents_example =
     [\<lparr>d_offset = 100, d_size = 3, d_flags = 0, d_name = ascii ''a''\<rparr>,
      \<lparr>d_offset = 200, d_size = 4, d_flags = 0x41, d_name = ascii ''A''\<rparr>]"

lemma dents_example_at: "folder_at (concat (map dent_bytes dents_example)) 0 dents_example"
  by (auto simp: folder_at_def dents_example_def ascii_def)

lemma romfs_search_correct_witness:
  "romfs_search (concat (map dent_bytes dents_example)) (map sc_toupper (ascii ''a'')) 2 0
    = Some (Some 12)"
proof -
  have "dir_find (map sc_toupper (ascii ''a'')) 0 dents_example = Some 12"
    by (simp add: dents_example_def dent_match_def ascii_def sc_toupper_def d_len_def)
  then show ?thesis
    using romfs_search_correct [OF dents_example_at, of "ascii ''a''"]
    by (simp add: ascii_def numeral_2_eq_2)
qed

text \<open>
  Enumeration. \<open>enabled_from e ds\<close> are the positions of the enabled entries.
\<close>

fun enabled_from :: "nat \<Rightarrow> dent list \<Rightarrow> nat list" where
  "enabled_from e [] = []"
| "enabled_from e (d # ds) =
     (if d_flags d AND FLAG_ENABLED \<noteq> 0 then [e] else []) @ enabled_from (e + d_len d) ds"

definition head_opt :: "'a list \<Rightarrow> 'a option" where
  "head_opt xs = (case xs of [] \<Rightarrow> None | x # _ \<Rightarrow> Some x)"

lemma last_disabled_mask:
  "(fl :: byte) AND (FLAG_LASTENTRY OR FLAG_ENABLED) = FLAG_LASTENTRY
    \<longleftrightarrow> fl AND FLAG_LASTENTRY \<noteq> 0 \<and> fl AND FLAG_ENABLED = 0"
proof -
  obtain l :: byte where l: "l = push_bit 6 1" by blast
  have bl: "bit l n \<longleftrightarrow> n = 6" for n
    by (simp only: l bit_push_bit_iff bit_1_iff possible_bit_word) auto
  have m: "x AND l = (if bit x 6 then l else 0)" "x AND 1 = (if bit x 0 then 1 else 0)" for x :: byte
    by (rule bit_eqI; auto simp: bit_simps bl; metis gr0I)+
  have n: "l OR 1 \<noteq> l" "l \<noteq> 0" "l \<noteq> 1" "1 \<noteq> l" by (simp_all add: l)
  have L: "FLAG_LASTENTRY = l" by (simp add: l)
  show ?thesis
    unfolding L bit.conj_disj_distrib m using n by (cases "bit fl 6"; cases "bit fl 0") simp_all
qed

lemma romfs_next_step:
  assumes "peek m (e + 9) = Some nl" "peek m (e + ENTRY_SIZE + unat nl + 8) = Some fl"
  shows "romfs_next m e =
     (if fl AND (FLAG_LASTENTRY OR FLAG_ENABLED) = FLAG_LASTENTRY then Some None
      else if fl AND FLAG_ENABLED = 0 then romfs_next m (e + ENTRY_SIZE + unat nl)
      else Some (Some (e + ENTRY_SIZE + unat nl)))"
  using assms by (subst romfs_next.simps) (simp add: Let_def)

lemma romfs_next_folder:
  assumes "folder_at m e (d # ds)" "ds \<noteq> []"
  shows "romfs_next m e = Some (head_opt (enabled_from (e + d_len d) ds))"
  using assms
proof (induction ds arbitrary: e d)
  case (Cons d' ds)
  note d = folder_at_Cons [OF Cons.prems(1)]
  have next_: "folder_at m (e + d_len d) (d' # ds)" using d(6) by simp
  note d' = folder_at_Cons [OF next_]
  have pos: "e + ENTRY_SIZE + unat (word_of_nat (length (d_name d) + 1) :: byte) = e + d_len d"
    unfolding d(3) by (simp add: d_len_def)
  have step: "romfs_next m e =
     (if d_flags d' AND (FLAG_LASTENTRY OR FLAG_ENABLED) = FLAG_LASTENTRY then Some None
      else if d_flags d' AND FLAG_ENABLED = 0 then romfs_next m (e + d_len d)
      else Some (Some (e + d_len d)))"
    using romfs_next_step [OF d(2), unfolded pos, OF d'(1)] .
  show ?case
  proof (cases "ds = []")
    case True
    then show ?thesis
      using step d'(7) last_disabled_mask [of "d_flags d'"] by (auto simp: head_opt_def)
  next
    case False
    then show ?thesis
      using step d'(6) last_disabled_mask [of "d_flags d'"] Cons.IH [OF next_] by (auto simp: head_opt_def)
  qed
qed simp

text \<open>
  \<open>romfs_get_next_entry\<close> on an entry of a folder returns the next enabled entry of that
  folder, and null exactly when none follows, so that walking from the first entry visits the
  enabled ones in order and stops at the end mark whether or not the marked entry is enabled.
\<close>

theorem romfs_get_next_entry_correct:
  assumes "folder_at m e (d # ds)"
  shows "romfs_get_next_entry m (Some e) = Some (head_opt (enabled_from (e + d_len d) ds))"
  using folder_at_Cons [OF assms] romfs_next_folder [OF assms]
  by (cases "ds = []") (auto simp: romfs_get_next_entry_def head_opt_def)

lemma romfs_get_next_entry_correct_witness:
  "romfs_get_next_entry (concat (map dent_bytes dents_example)) (Some 0) = Some (Some 12)"
  using romfs_get_next_entry_correct [OF dents_example_at [unfolded dents_example_def]]
  by (simp add: dents_example_def d_len_def head_opt_def ascii_def)

subsection \<open>Paths\<close>

text \<open>
  A path is a list of names. \<open>romfs_resolve\<close> searches one after the other, starting with the
  entries at \<open>e\<close>; \<open>path_bytes\<close> is what the caller passes, with or without a slash at either
  end.
\<close>

fun romfs_resolve :: "byte list \<Rightarrow> nat \<Rightarrow> byte list list \<Rightarrow> nat option option" where
  "romfs_resolve m e [] = Some (Some e)"
| "romfs_resolve m e (c # cs) =
     (case romfs_search m (map sc_toupper c) (length c + 1) e of
        Some (Some e') \<Rightarrow> romfs_resolve m e' cs | r \<Rightarrow> r)"

abbreviation slash :: byte where "slash \<equiv> 0x2F"

fun path_join :: "byte list list \<Rightarrow> byte list" where
  "path_join [] = []"
| "path_join [c] = c"
| "path_join (c # cs) = c @ slash # path_join cs"

definition path_bytes :: "bool \<Rightarrow> byte list list \<Rightarrow> bool \<Rightarrow> byte list" where
  "path_bytes lead cs trail =
     (if lead then [slash] else []) @ path_join cs @ (if trail \<and> cs \<noteq> [] then [slash] else [])"

definition name_ok :: "byte list \<Rightarrow> bool" where
  "name_ok c \<longleftrightarrow> c \<noteq> [] \<and> length c < SC_FILENAME_MAXLEN \<and> slash \<notin> set c \<and> 0 \<notin> set c"

lemma of_char_slash [simp]: "(of_char (CHR ''/'') :: byte) = slash"
  by simp

lemma path_char_eq: "i < length path \<Longrightarrow> path_char path i = Some (path ! i)"
  "path_char path (length path) = Some 0"
  by (simp_all add: path_char_def nth_append)

lemma romfs_walk_skip:
  assumes "drop i path = s @ r" "slash \<notin> set s" "0 \<notin> set s" "j \<le> i"
  shows "romfs_walk m path e i j = romfs_walk m path e (i + length s) j"
  using assms
proof (induction s arbitrary: i)
  case (Cons c s)
  then have c: "i < length path" "path ! i = c" "drop (Suc i) path = s @ r" "c \<noteq> slash" "c \<noteq> 0"
    by (auto dest: drop_eq_Cons_D)
  then have "romfs_walk m path e i j = romfs_walk m path e (i + 1) j"
    by (subst romfs_walk.simps) (simp add: path_char_eq)
  then show ?case using Cons.IH [of "Suc i"] c Cons.prems by simp
qed simp

text \<open>At the end of a component the walk searches for it and goes on behind the separator.\<close>

lemma romfs_walk_name:
  assumes p: "drop j path = c @ r" and ok: "name_ok c" and r: "r = [] \<or> hd r = slash"
  shows "romfs_walk m path e j j =
    (case romfs_search m (map sc_toupper c) (length c + 1) e of
       Some (Some e') \<Rightarrow>
         if r = [] then Some (Some e') else romfs_walk m path e' (j + length c + 1) (j + length c + 1)
     | x \<Rightarrow> x)"
proof -
  let ?i = "j + length c"
  have rest: "drop ?i path = r" and name: "mem_read j (length c) path = c"
    using drop_eq_append_D [OF p] by simp_all
  have le: "?i \<le> length path"
    using drop_eq_append_D(1) [OF p] ok by (auto simp: name_ok_def)
  have ch: "path_char path ?i = Some (if r = [] then 0 else slash)"
  proof (cases r)
    case Nil
    then have "?i = length path" using rest le by simp
    then show ?thesis using Nil by (simp add: path_char_eq)
  next
    case (Cons x xs)
    then show ?thesis using r drop_eq_Cons_D [of ?i path x xs] rest by (simp add: path_char_eq)
  qed
  have "?i - j + 1 - 1 = length c" by simp
  then have "romfs_walk m path e ?i j =
    (case romfs_search m (map sc_toupper c) (length c + 1) e of
       Some (Some e') \<Rightarrow>
         if r = [] then Some (Some e') else romfs_walk m path e' (?i + 1) (?i + 1)
     | x \<Rightarrow> x)"
    using ch ok name
    by (subst romfs_walk.simps) (auto simp: name_ok_def Let_def split: option.splits)
  then show ?thesis
    using romfs_walk_skip [OF p, of j m e] ok by (simp add: name_ok_def)
qed

lemma romfs_walk_end:
  assumes "drop j path = [] \<or> hd (drop j path) = slash" "j \<le> length path"
  shows "romfs_walk m path e j j = Some (Some e)"
proof (cases "j < length path")
  case True
  then have "path ! j = slash" using assms by (simp add: hd_drop_conv_nth)
  then show ?thesis using True by (subst romfs_walk.simps) (simp add: path_char_eq)
next
  case False
  then have "j = length path" using assms by simp
  then show ?thesis by (subst romfs_walk.simps) (simp add: path_char_eq)
qed

lemma romfs_walk_path:
  assumes "drop j path = path_join cs @ (if trail then [slash] else [])" "\<forall>c\<in>set cs. name_ok c" "cs \<noteq> []"
  shows "romfs_walk m path e j j = romfs_resolve m e cs"
  using assms
proof (induction cs arbitrary: j e)
  case (Cons c cs)
  let ?tl = "if trail then [slash] else []"
  have ok: "name_ok c" using Cons.prems(2) by simp
  show ?case
  proof (cases "cs = []")
    case True
    then have p: "drop j path = c @ ?tl" using Cons.prems(1) by simp
    have "romfs_walk m path e' (j + length c + 1) (j + length c + 1) = Some (Some e')" if trail for e'
    proof (rule romfs_walk_end)
      have "drop (j + length c) path = [slash]" using drop_eq_append_D(3) [OF p] that by simp
      then show "drop (j + length c + 1) path = [] \<or> hd (drop (j + length c + 1) path) = slash"
        "j + length c + 1 \<le> length path"
        by (auto dest: drop_eq_Cons_D)
    qed
    then show ?thesis
      using True by (auto simp: romfs_walk_name [OF p ok] split: option.splits)
  next
    case False
    then have p: "drop j path = c @ slash # path_join cs @ ?tl"
      using Cons.prems(1) by (cases cs) auto
    have "drop (j + length c + 1) path = path_join cs @ ?tl"
      using drop_eq_append_D(3) [OF p] by (auto dest: drop_eq_Cons_D)
    then have "romfs_walk m path e' (j + length c + 1) (j + length c + 1) = romfs_resolve m e' cs" for e'
      using Cons.IH Cons.prems(2) False by simp
    then show ?thesis
      using False by (auto simp: romfs_walk_name [OF p ok] split: option.splits)
  qed
qed simp

text \<open>
  Looking up a path in an image with a valid header resolves its names one after the other
  from the root folder, whether or not the path starts or ends with a slash; the empty path is
  the first entry of the root.
\<close>

theorem romfs_lookup_correct:
  assumes "romfs_check_header (Some m) False = Some True" "\<forall>c\<in>set cs. name_ok c"
  shows "romfs_get_first_entry (Some m) (path_bytes lead cs trail) = romfs_resolve m HEADER_SIZE cs"
proof -
  let ?p = "path_bytes lead cs trail"
  let ?i = "if lead then 1 else 0 :: nat"
  have "path_char ?p 0 \<noteq> Some slash" if "\<not> lead"
  proof (cases cs)
    case Nil
    then show ?thesis using that by (simp add: path_bytes_def path_char_def)
  next
    case (Cons c cs')
    then obtain x xs where "c = x # xs" "x \<noteq> slash" using assms(2) by (cases c) (auto simp: name_ok_def)
    then show ?thesis using Cons that by (cases cs') (simp_all add: path_bytes_def path_char_def)
  qed
  moreover have "path_char ?p 0 = Some slash" if lead
    using that by (simp add: path_bytes_def path_char_def)
  moreover have "\<exists>c. path_char ?p 0 = Some c" by (simp add: path_char_def)
  ultimately have start: "romfs_get_first_entry (Some m) ?p = romfs_walk m ?p HEADER_SIZE ?i ?i"
    using assms(1) by (auto simp: romfs_get_first_entry_def Let_def)
  show ?thesis
  proof (cases "cs = []")
    case True
    then have "romfs_walk m ?p HEADER_SIZE ?i ?i = Some (Some HEADER_SIZE)"
      by (intro romfs_walk_end) (simp_all add: path_bytes_def)
    then show ?thesis using True start by simp
  next
    case False
    then have "drop ?i ?p = path_join cs @ (if trail then [slash] else [])"
      by (simp add: path_bytes_def)
    then show ?thesis
      using romfs_walk_path [of ?i ?p cs trail m HEADER_SIZE] assms(2) False start by simp
  qed
qed

text \<open>An image with one folder that holds one file.\<close>

definition romfs_image :: "byte list" where
  "romfs_image = ascii ''RomFs1'' @ [0xCA, 0xFE] @ be_bytes 4 48 @ be_bytes 4 0 @ be_bytes 4 1 @ be_bytes 4 1
     @ dent_bytes \<lparr>d_offset = 36, d_size = 0, d_flags = 0x43, d_name = ascii ''D''\<rparr>
     @ dent_bytes \<lparr>d_offset = 44, d_size = 4, d_flags = 0x41, d_name = ascii ''F''\<rparr>"

lemma romfs_lookup_correct_witness:
  "romfs_get_first_entry (Some romfs_image) (ascii ''/d/f'')
    = romfs_resolve romfs_image HEADER_SIZE [ascii ''d'', ascii ''f'']"
proof -
  have "romfs_check_header (Some romfs_image) False = Some True"
    by (simp add: romfs_check_header_def romfs_image_def romfs_header_at_def be32_at_def be_bytes_simps
        ascii_def mem_read_def dent_bytes_def peek_def)
  moreover have "path_bytes True [ascii ''d'', ascii ''f''] False = ascii ''/d/f''"
    by (simp add: path_bytes_def ascii_def)
  ultimately show ?thesis
    using romfs_lookup_correct [of romfs_image "[ascii ''d'', ascii ''f'']" True False]
    by (simp add: name_ok_def ascii_def)
qed

end
