(* ===== verification/SatCart.thy ===== *)
theory SatCart
  imports FtxPrelude
begin

section \<open>The registers of the cartridge\<close>

text \<open>
  The part of the register map in \<open>satcart.h\<close> that the SD card driver uses. The cartridge keeps the
  levels of the three lines to the card, the LEDs and the flag that a card was inserted again. The
  card itself is the client's: a state of any type and the functions of \<open>card_env\<close>, which say how it
  reacts to a write that sets the lines (\<open>on_pins\<close>, with the levels of CS, DIN and CLK), the level of
  its DOUT line, and what the switch and eject bits of \<open>REG_CPLD_IO\<close> read as. \<open>lap_usec\<close> is the timer
  of the console and \<open>satcart_found\<close> tells whether \<open>sc_extdev_getid\<close> finds this cartridge.
\<close>

abbreviation SD_LEDG_LSHFT :: nat where "SD_LEDG_LSHFT \<equiv> 0"
abbreviation SD_LEDR_LSHFT :: nat where "SD_LEDR_LSHFT \<equiv> 1"
abbreviation SD_EJECT_LSHFT :: nat where "SD_EJECT_LSHFT \<equiv> 7"
abbreviation SD_CSL_LSHFT :: nat where "SD_CSL_LSHFT \<equiv> 0"
abbreviation SD_DIN_LSHFT :: nat where "SD_DIN_LSHFT \<equiv> 1"
abbreviation SD_CLK_LSHFT :: nat where "SD_CLK_LSHFT \<equiv> 2"

record 'c card_env =
  on_pins :: "bool \<Rightarrow> bool \<Rightarrow> bool \<Rightarrow> 'c \<Rightarrow> 'c"
  dout :: "'c \<Rightarrow> bool"
  io_inputs :: "'c \<Rightarrow> byte"
  lap_usec :: "'c \<Rightarrow> u32"
  satcart_found :: bool

record 'c satcart =
  pin_cs :: bool
  pin_din :: bool
  pin_clk :: bool
  leds :: byte
  reinsert :: bool
  the_card :: 'c

text \<open>\<open>REG_SDOUT_BIT\<close> and \<open>REG_SD_IO_0\<close> are one register; \<open>REG_SD_IO n\<close> is number \<open>n\<close> of the four.\<close>

datatype sd_reg = REG_CPLD_IO | REG_SDIN_BITS | REG_SD_CLK_SET | REG_SD_IO nat | REG_SD_REINSERT

abbreviation REG_SDOUT_BIT :: sd_reg where "REG_SDOUT_BIT \<equiv> REG_SD_IO 0"

definition set_pins :: "'c card_env \<Rightarrow> bool \<Rightarrow> bool \<Rightarrow> bool \<Rightarrow> 'c satcart \<Rightarrow> 'c satcart" where
  "set_pins env cs din clk b = b\<lparr>pin_cs := cs, pin_din := din, pin_clk := clk, the_card := on_pins env cs din clk (the_card b)\<rparr>"

definition reg_write :: "'c card_env \<Rightarrow> sd_reg \<Rightarrow> byte \<Rightarrow> 'c satcart \<Rightarrow> 'c satcart" where
  "reg_write env r v b =
     (case r of
        REG_CPLD_IO \<Rightarrow> b\<lparr>leds := v AND 0x03\<rparr>
      | REG_SDIN_BITS \<Rightarrow> set_pins env (bit v SD_CSL_LSHFT) (bit v SD_DIN_LSHFT) (bit v SD_CLK_LSHFT) b
      | REG_SD_CLK_SET \<Rightarrow> set_pins env (pin_cs b) (pin_din b) (bit v 0) b
      | REG_SD_IO n \<Rightarrow> set_pins env (pin_cs b) (bit v n) False b
      | REG_SD_REINSERT \<Rightarrow> (if bit v 0 then b\<lparr>reinsert := False\<rparr> else b))"

definition reg_read :: "'c card_env \<Rightarrow> sd_reg \<Rightarrow> 'c satcart \<Rightarrow> byte" where
  "reg_read env r b =
     (case r of
        REG_CPLD_IO \<Rightarrow> leds b OR (io_inputs env (the_card b) AND 0x90)
      | REG_SDIN_BITS \<Rightarrow> push_bit SD_CSL_LSHFT (of_bool (pin_cs b)) OR push_bit SD_DIN_LSHFT (of_bool (pin_din b))
          OR push_bit SD_CLK_LSHFT (of_bool (pin_clk b))
      | REG_SD_CLK_SET \<Rightarrow> of_bool (pin_clk b)
      | REG_SD_IO n \<Rightarrow> push_bit n (of_bool (dout env (the_card b)))
      | REG_SD_REINSERT \<Rightarrow> of_bool (reinsert b))"

end
