(* ===== verification/SdPacket.thy ===== *)
theory SdPacket
  imports SatCart
begin

section \<open>The SD card protocol\<close>

text \<open>
  Models \<open>sdcard/sdcard_packet.c\<close>, which drives an SD card in SPI mode by setting the lines of the
  cartridge one by one. The state is the structure \<open>sdcard_t\<close>, without the file-system object in it,
  and the cartridge with the card. The fields of the structures \<open>s\<close> and \<open>stats\<close> inside \<open>sdcard_t\<close>
  stand in its record. The log macros expand to nothing and the counters that are only logged are
  left out, as are the settings of the console's bus (\<open>sdc_a_bus_init\<close>) and the waiting time
  (\<open>sc_usleep\<close>), which the card and the rest of the state do not see. A buffer is the memory
  from its address on.
\<close>

abbreviation SDC_OK :: int where "SDC_OK \<equiv> 1"
abbreviation SDC_FAILURE :: int where "SDC_FAILURE \<equiv> 2"
abbreviation SDC_NOHARDWARE :: int where "SDC_NOHARDWARE \<equiv> 3"
abbreviation SDC_NOCARD :: int where "SDC_NOCARD \<equiv> 4"
abbreviation SDC_FATERROR :: int where "SDC_FATERROR \<equiv> 5"
abbreviation SDC_NOFILE :: int where "SDC_NOFILE \<equiv> 7"
abbreviation SDC_TIMEOUT :: byte where "SDC_TIMEOUT \<equiv> 8"

abbreviation SDC_GO_IDLE_STATE :: byte where "SDC_GO_IDLE_STATE \<equiv> 0"
abbreviation SDC_SEND_OP_COND :: byte where "SDC_SEND_OP_COND \<equiv> 1"
abbreviation SDC_SEND_IF_COND :: byte where "SDC_SEND_IF_COND \<equiv> 8"
abbreviation SDC_SEND_CSD :: byte where "SDC_SEND_CSD \<equiv> 9"
abbreviation SDC_SEND_CID :: byte where "SDC_SEND_CID \<equiv> 10"
abbreviation SDC_STOP_TRANSMISSION :: byte where "SDC_STOP_TRANSMISSION \<equiv> 12"
abbreviation SDC_SET_BLOCK_LEN :: byte where "SDC_SET_BLOCK_LEN \<equiv> 16"
abbreviation SDC_READ_SINGLE_BLOCK :: byte where "SDC_READ_SINGLE_BLOCK \<equiv> 17"
abbreviation SDC_READ_MULTIPLE_BLOCKS :: byte where "SDC_READ_MULTIPLE_BLOCKS \<equiv> 18"
abbreviation SDC_WRITE_SINGLE_BLOCK :: byte where "SDC_WRITE_SINGLE_BLOCK \<equiv> 24"
abbreviation SDC_WRITE_MULTIPLE_BLOCKS :: byte where "SDC_WRITE_MULTIPLE_BLOCKS \<equiv> 25"
abbreviation SDC_ERASE_BLOCK_START_ADDR :: byte where "SDC_ERASE_BLOCK_START_ADDR \<equiv> 32"
abbreviation SDC_ERASE_BLOCK_END_ADDR :: byte where "SDC_ERASE_BLOCK_END_ADDR \<equiv> 33"
abbreviation SDC_SD_SEND_OP_COND :: byte where "SDC_SD_SEND_OP_COND \<equiv> 41"
abbreviation SDC_APP_CMD :: byte where "SDC_APP_CMD \<equiv> 55"
abbreviation SDC_READ_OCR :: byte where "SDC_READ_OCR \<equiv> 58"

abbreviation SDC_BLOCK_SIZE :: nat where "SDC_BLOCK_SIZE \<equiv> 512"
abbreviation SDC_POLL_COUNTMAX :: nat where "SDC_POLL_COUNTMAX \<equiv> 200000"
abbreviation SDC_CMDBUFFER_LEN :: nat where "SDC_CMDBUFFER_LEN \<equiv> 24"

datatype led_color = SDC_LED_RED | SDC_LED_GREEN

record 'c sdcard_t =
  sd_csl :: byte
  sd_din :: byte
  sd_clk :: byte
  cid :: "byte list"
  csd :: "byte list"
  version_major :: byte
  version_minor :: byte
  sdhc :: byte
  file_format :: byte
  user_size :: u32
  packet_timeout :: byte
  ccs :: byte
  sd_ver2 :: byte
  mmc :: byte
  duration_usec :: u32
  stat_reg_buffer :: "byte list"
  status_len :: byte
  inserted :: byte
  log_sdcard :: byte
  init_ok :: byte
  init_status :: int
  sd_bus :: "'c satcart"

definition zero_sdcard :: "'c satcart \<Rightarrow> 'c sdcard_t" where
  "zero_sdcard b = \<lparr>sd_csl = 0, sd_din = 0, sd_clk = 0, cid = replicate 16 0, csd = replicate 16 0, version_major = 0,
     version_minor = 0, sdhc = 0, file_format = 0, user_size = 0, packet_timeout = 0, ccs = 0, sd_ver2 = 0, mmc = 0,
     duration_usec = 0, stat_reg_buffer = replicate SDC_CMDBUFFER_LEN 0, status_len = 0, inserted = 0, log_sdcard = 0,
     init_ok = 0, init_status = 0, sd_bus = b\<rparr>"

definition on_bus :: "('c satcart \<Rightarrow> 'c satcart) \<Rightarrow> 'c sdcard_t \<Rightarrow> 'c sdcard_t" where
  "on_bus f sd = sd\<lparr>sd_bus := f (sd_bus sd)\<rparr>"

subsection \<open>Lines and LEDs\<close>

definition sdc_output :: "'c card_env \<Rightarrow> 'c sdcard_t \<Rightarrow> 'c sdcard_t" where
  "sdc_output env sd = on_bus (reg_write env REG_SDIN_BITS
     (push_bit SD_CSL_LSHFT (sd_csl sd) OR push_bit SD_DIN_LSHFT (sd_din sd) OR push_bit SD_CLK_LSHFT (sd_clk sd))) sd"

definition sdc_ledset :: "'c card_env \<Rightarrow> led_color \<Rightarrow> bool \<Rightarrow> 'c sdcard_t \<Rightarrow> 'c sdcard_t" where
  "sdc_ledset env led_color on sd =
     (let tmp = (case led_color of SDC_LED_RED \<Rightarrow> push_bit SD_LEDR_LSHFT 1 | SDC_LED_GREEN \<Rightarrow> push_bit SD_LEDG_LSHFT 1);
          v = reg_read env REG_CPLD_IO (sd_bus sd)
      in on_bus (reg_write env REG_CPLD_IO (if on then v OR tmp else v AND NOT tmp)) sd)"

definition sdc_cs_assert :: "'c card_env \<Rightarrow> 'c sdcard_t \<Rightarrow> 'c sdcard_t" where
  "sdc_cs_assert env sd = on_bus (\<lambda>b. reg_write env REG_SDIN_BITS
     (reg_read env REG_SDIN_BITS b AND NOT (push_bit SD_CSL_LSHFT 1)) b) (sd\<lparr>sd_csl := 0\<rparr>)"

definition sdc_cs_deassert :: "'c card_env \<Rightarrow> 'c sdcard_t \<Rightarrow> 'c sdcard_t" where
  "sdc_cs_deassert env sd = on_bus (\<lambda>b. reg_write env REG_SDIN_BITS
     (reg_read env REG_SDIN_BITS b OR push_bit SD_CSL_LSHFT 1) b) (sd\<lparr>sd_csl := 1\<rparr>)"

subsection \<open>Sending and receiving bytes\<close>

definition send_nibble :: "'c card_env \<Rightarrow> byte \<Rightarrow> 'c satcart \<Rightarrow> 'c satcart" where
  "send_nibble env v b = fold (\<lambda>n b. reg_write env REG_SD_CLK_SET 0x01 (reg_write env (REG_SD_IO n) v b)) [3, 2, 1, 0] b"

definition send_byte :: "'c card_env \<Rightarrow> byte \<Rightarrow> 'c satcart \<Rightarrow> 'c satcart" where
  "send_byte env dat b = send_nibble env dat (send_nibble env (drop_bit 4 dat) b)"

definition sdc_sendbyte_array :: "'c card_env \<Rightarrow> byte list \<Rightarrow> 'c sdcard_t \<Rightarrow> 'c sdcard_t" where
  "sdc_sendbyte_array env ptr sd =
     (let dat = (if ptr = [] then 0 else last ptr)
      in (on_bus (fold (send_byte env) ptr) sd)\<lparr>sd_din := (if dat AND 0x01 \<noteq> 0 then 1 else 0), sd_clk := 1\<rparr>)"

definition sdc_sendbyte :: "'c card_env \<Rightarrow> byte \<Rightarrow> 'c sdcard_t \<Rightarrow> 'c sdcard_t" where
  "sdc_sendbyte env dat sd = sdc_sendbyte_array env [dat] sd"

definition sdc_sendlong :: "'c card_env \<Rightarrow> u32 \<Rightarrow> 'c sdcard_t \<Rightarrow> 'c sdcard_t" where
  "sdc_sendlong env dat sd = sdc_sendbyte_array env
     [ucast (drop_bit 24 dat AND 0xFF), ucast (drop_bit 16 dat AND 0xFF), ucast (drop_bit 8 dat AND 0xFF), ucast (dat AND 0xFF)] sd"

text \<open>One clock: the two writes before every bit that is read.\<close>

definition clock_pulse :: "'c card_env \<Rightarrow> byte \<Rightarrow> byte \<Rightarrow> 'c satcart \<Rightarrow> 'c satcart" where
  "clock_pulse env bitrcv1 bitrcv2 b = reg_write env REG_SDIN_BITS bitrcv2 (reg_write env REG_SDIN_BITS bitrcv1 b)"

definition receive_nibble :: "'c card_env \<Rightarrow> byte \<Rightarrow> byte \<Rightarrow> 'c satcart \<Rightarrow> byte \<times> 'c satcart" where
  "receive_nibble env bitrcv1 bitrcv2 b =
     (let b3 = clock_pulse env bitrcv1 bitrcv2 b;
          b2 = clock_pulse env bitrcv1 bitrcv2 b3;
          b1 = clock_pulse env bitrcv1 bitrcv2 b2;
          b0 = clock_pulse env bitrcv1 bitrcv2 b1
      in (reg_read env (REG_SD_IO 3) b3 OR reg_read env (REG_SD_IO 2) b2
           OR reg_read env (REG_SD_IO 1) b1 OR reg_read env (REG_SD_IO 0) b0, b0))"

fun receive_bytes :: "'c card_env \<Rightarrow> byte \<Rightarrow> byte \<Rightarrow> nat \<Rightarrow> 'c satcart \<Rightarrow> byte list \<times> 'c satcart" where
  "receive_bytes env bitrcv1 bitrcv2 0 b = ([], b)"
| "receive_bytes env bitrcv1 bitrcv2 (Suc len) b =
     (let (tmp1, b) = receive_nibble env bitrcv1 bitrcv2 b;
          (tmp, b) = receive_nibble env bitrcv1 bitrcv2 b;
          (rest, b) = receive_bytes env bitrcv1 bitrcv2 len b
      in ((tmp OR push_bit 4 tmp1) # rest, b))"

definition receive_bits :: "bool \<Rightarrow> bool \<Rightarrow> byte" where
  "receive_bits cs clk = push_bit SD_DIN_LSHFT 1 OR push_bit SD_CLK_LSHFT (of_bool clk) OR push_bit SD_CSL_LSHFT (of_bool cs)"

definition sdc_receivebyte_array :: "'c card_env \<Rightarrow> nat \<Rightarrow> 'c sdcard_t \<Rightarrow> byte list \<times> 'c sdcard_t" where
  "sdc_receivebyte_array env len sd =
     (let bitrcv1 = receive_bits (sd_csl sd \<noteq> 0) True; bitrcv2 = receive_bits (sd_csl sd \<noteq> 0) False;
          (dat, b) = receive_bytes env bitrcv1 bitrcv2 len (sd_bus sd)
      in (dat, sd\<lparr>sd_din := 0, sd_clk := 0, sd_bus := b\<rparr>))"

definition sdc_receivebyte :: "'c card_env \<Rightarrow> 'c sdcard_t \<Rightarrow> byte \<times> 'c sdcard_t" where
  "sdc_receivebyte env sd = (let (dat, sd) = sdc_receivebyte_array env 1 sd in (hd dat, sd))"

subsection \<open>Fields of a register\<close>

text \<open>
  The loop of \<open>sdc_slice\<close>: \<open>n\<close> bits remain, the next is bit number \<open>i\<close> of the buffer and goes to
  position \<open>tmp1\<close>. All three counters are \<open>unsigned char\<close>. A shift by 32 or more and an index
  outside the buffer have no defined value.
\<close>

fun slice_loop :: "nat \<Rightarrow> byte list \<Rightarrow> byte \<Rightarrow> byte \<Rightarrow> u32 \<Rightarrow> u32 option" where
  "slice_loop 0 buf i tmp1 ret = Some ret"
| "slice_loop (Suc n) buf i tmp1 ret = do {
     x \<leftarrow> peek buf (unat (drop_bit 3 i));
     if unat tmp1 < 32
     then slice_loop n buf (i + 1) (tmp1 - 1)
       (ret OR push_bit (unat tmp1) (ucast (drop_bit (unat (7 - (i AND 0x07))) x AND 0x01)))
     else None }"

definition sdc_slice :: "'c sdcard_t \<Rightarrow> byte \<Rightarrow> byte \<Rightarrow> byte \<Rightarrow> u32 option" where
  "sdc_slice sd sz stt end' =
     (let len = stt - end' + 1;
          stt = push_bit 3 (status_len sd) + sz - 1 - stt;
          tmp1 = len - 1;
          tmp2 = stt + len
      in slice_loop (unat tmp2 - unat stt) (stat_reg_buffer sd) stt tmp1 0)"

definition sdc_is_reinsert :: "'c card_env \<Rightarrow> 'c sdcard_t \<Rightarrow> bool" where
  "sdc_is_reinsert env sd \<longleftrightarrow> satcart_found env \<and> reg_read env REG_SD_REINSERT (sd_bus sd) AND 0x01 \<noteq> 0"

subsection \<open>Packets\<close>

text \<open>The argument, the checksum and the length of the response of a command.\<close>

definition packet_arg :: "byte \<Rightarrow> byte \<Rightarrow> u32 \<Rightarrow> u32" where
  "packet_arg card_ccs cmd arg =
     (if card_ccs = 0 \<and> (cmd = SDC_READ_SINGLE_BLOCK \<or> cmd = SDC_READ_MULTIPLE_BLOCKS \<or> cmd = SDC_WRITE_SINGLE_BLOCK
         \<or> cmd = SDC_WRITE_MULTIPLE_BLOCKS \<or> cmd = SDC_ERASE_BLOCK_START_ADDR \<or> cmd = SDC_ERASE_BLOCK_END_ADDR)
      then push_bit 9 arg else arg)"

definition packet_crc :: "byte \<Rightarrow> u32 \<Rightarrow> byte" where
  "packet_crc cmd arg =
     (if cmd = SDC_GO_IDLE_STATE then 0x95
      else if cmd = SDC_SEND_OP_COND then 0xF9
      else if cmd = SDC_SEND_IF_COND then 0x87
      else if cmd = SDC_SD_SEND_OP_COND then (if arg = 0 then 0xE5 else 0x77)
      else 0xFF)"

definition response_lengths :: "byte \<Rightarrow> nat \<times> byte" where
  "response_lengths cmd =
     (if cmd = SDC_SEND_CSD \<or> cmd = SDC_SEND_CID then (17 + 3, 3)
      else if cmd = SDC_SEND_IF_COND \<or> cmd = SDC_READ_OCR then (5, 5)
      else (1, 1))"

text \<open>
  Waiting for a start bit: at most \<open>n\<close> more clocks. The result tells whether the line went low.
\<close>

fun wait_start :: "nat \<Rightarrow> 'c card_env \<Rightarrow> byte \<Rightarrow> byte \<Rightarrow> 'c satcart \<Rightarrow> bool \<times> 'c satcart" where
  "wait_start 0 env bitrcv1 bitrcv2 b = (False, b)"
| "wait_start (Suc n) env bitrcv1 bitrcv2 b =
     (let b = clock_pulse env bitrcv1 bitrcv2 b
      in if reg_read env REG_SDOUT_BIT b = 0 then (True, b) else wait_start n env bitrcv1 bitrcv2 b)"

text \<open>The bits of the header, \<open>n\<close> of them, behind those of \<open>tmp\<close>; then its bytes, the first one
  with \<open>pollcnt\<close> bits.\<close>

fun header_bits :: "nat \<Rightarrow> 'c card_env \<Rightarrow> byte \<Rightarrow> byte \<Rightarrow> byte \<Rightarrow> 'c satcart \<Rightarrow> byte \<times> 'c satcart" where
  "header_bits 0 env bitrcv1 bitrcv2 tmp b = (tmp, b)"
| "header_bits (Suc n) env bitrcv1 bitrcv2 tmp b =
     (let b = clock_pulse env bitrcv1 bitrcv2 b
      in header_bits n env bitrcv1 bitrcv2 (push_bit 1 tmp OR reg_read env REG_SDOUT_BIT b) b)"

fun header_bytes :: "nat \<Rightarrow> nat \<Rightarrow> 'c card_env \<Rightarrow> byte \<Rightarrow> byte \<Rightarrow> 'c satcart \<Rightarrow> byte list \<times> 'c satcart" where
  "header_bytes 0 pollcnt env bitrcv1 bitrcv2 b = ([], b)"
| "header_bytes (Suc rcvcnt) pollcnt env bitrcv1 bitrcv2 b =
     (let (tmp, b) = header_bits pollcnt env bitrcv1 bitrcv2 0 b;
          (rest, b) = header_bytes rcvcnt 8 env bitrcv1 bitrcv2 b
      in (tmp # rest, b))"

text \<open>Giving up: the time is taken, the red LED is lit and the card deselected.\<close>

definition packet_failed :: "'c card_env \<Rightarrow> 'c sdcard_t \<Rightarrow> 'c sdcard_t" where
  "packet_failed env sd =
     (let sd = sd\<lparr>duration_usec := lap_usec env (the_card (sd_bus sd)), packet_timeout := 1\<rparr>
      in sdc_cs_deassert env (sdc_ledset env SDC_LED_RED True sd))"

definition packet_done :: "'c card_env \<Rightarrow> 'c sdcard_t \<Rightarrow> 'c sdcard_t" where
  "packet_done env sd = sdc_ledset env SDC_LED_GREEN False (sd\<lparr>duration_usec := lap_usec env (the_card (sd_bus sd))\<rparr>)"

text \<open>
  Everything up to the header of the response, the part that all commands share. The result tells
  whether the response came; if not, the packet has failed.
\<close>

definition packet_start_bit :: "'c card_env \<Rightarrow> 'c sdcard_t \<Rightarrow> bool \<times> 'c sdcard_t" where
  "packet_start_bit env sd =
     (let (ok, b) = wait_start (SDC_POLL_COUNTMAX + 1) env (receive_bits False True) (receive_bits False False) (sd_bus sd)
      in (ok, if ok then sd\<lparr>sd_bus := b\<rparr> else packet_failed env (sd\<lparr>sd_bus := b\<rparr>)))"

definition packet_command :: "'c card_env \<Rightarrow> byte \<Rightarrow> u32 \<Rightarrow> 'c sdcard_t \<Rightarrow> bool \<times> 'c sdcard_t" where
  "packet_command env cmd arg_tmp sd =
     (let sd = sdc_ledset env SDC_LED_GREEN True sd;
          sd = sd\<lparr>packet_timeout := 0, status_len := 0, duration_usec := 0, stat_reg_buffer := (stat_reg_buffer sd)[0 := 0]\<rparr>;
          sd = sdc_cs_assert env sd;
          arg = packet_arg (ccs sd) cmd arg_tmp;
          sd = sdc_sendbyte env 0xFF sd;
          sd = sdc_sendbyte env (0x40 OR (cmd AND 0x3F)) sd;
          sd = sdc_sendlong env arg sd;
          sd = sdc_sendbyte env (packet_crc cmd arg) sd;
          (response_len, len) = response_lengths cmd;
          sd = sd\<lparr>status_len := len\<rparr>;
          (ok, sd) = packet_start_bit env sd
      in if \<not> ok then (False, sd)
         else let (hdr, b) = header_bytes response_len 7 env (receive_bits False True) (receive_bits False False) (sd_bus sd)
           in (True, sd\<lparr>stat_reg_buffer := mem_write 0 hdr (stat_reg_buffer sd), sd_bus := b\<rparr>))"

text \<open>The blocks of a read command, from position \<open>p\<close> of the buffer on.\<close>

fun read_blocks :: "nat \<Rightarrow> 'c card_env \<Rightarrow> nat \<Rightarrow> byte list \<Rightarrow> 'c sdcard_t \<Rightarrow> bool \<times> byte list \<times> 'c sdcard_t" where
  "read_blocks 0 env p buffer sd = (True, buffer, sd)"
| "read_blocks (Suc blocks_count) env p buffer sd =
     (let (ok, sd) = packet_start_bit env sd
      in if \<not> ok then (False, buffer, sd)
         else let (dat, sd) = sdc_receivebyte_array env SDC_BLOCK_SIZE sd;
                  sd = snd (sdc_receivebyte env sd);
                  sd = snd (sdc_receivebyte env sd);
                  sd = snd (sdc_receivebyte env sd)
           in read_blocks blocks_count env (p + SDC_BLOCK_SIZE) (mem_write p dat buffer) sd)"

text \<open>Waiting while the card holds its line low: the result is whether it stopped; \<open>n\<close> more null
  bytes are accepted.\<close>

fun wait_idle :: "nat \<Rightarrow> 'c card_env \<Rightarrow> 'c sdcard_t \<Rightarrow> bool \<times> 'c sdcard_t" where
  "wait_idle n env sd =
     (let (tmp, sd) = sdc_receivebyte env sd
      in if tmp \<noteq> 0 then (True, sd)
         else case n of 0 \<Rightarrow> (False, packet_failed env sd) | Suc n \<Rightarrow> wait_idle n env sd)"

declare wait_idle.simps [simp del]

fun write_blocks :: "nat \<Rightarrow> 'c card_env \<Rightarrow> bool \<Rightarrow> nat \<Rightarrow> byte list \<Rightarrow> 'c sdcard_t \<Rightarrow> bool \<times> 'c sdcard_t" where
  "write_blocks 0 env multiple p buffer sd = (True, sd)"
| "write_blocks (Suc blocks_count) env multiple p buffer sd =
     (let sd = sdc_sendbyte env (if multiple then 0xFC else 0xFE) sd;
          sd = sdc_sendbyte_array env (mem_read p SDC_BLOCK_SIZE buffer) sd;
          sd = sdc_sendbyte env 0xFF sd;
          sd = sdc_sendbyte env 0xFF sd;
          (tmp, sd) = sdc_receivebyte env sd
      in if tmp AND 0x1F \<noteq> 0x05 then (False, packet_failed env sd)
         else let (ok, sd) = wait_idle (SDC_POLL_COUNTMAX + 1) env sd
           in if \<not> ok then (False, sd)
              else write_blocks blocks_count env multiple (p + SDC_BLOCK_SIZE) buffer
                (if multiple then snd (sdc_receivebyte env sd) else sd))"

text \<open>Deselecting the card for eight clocks and waiting again.\<close>

definition check_idle :: "'c card_env \<Rightarrow> 'c sdcard_t \<Rightarrow> bool \<times> 'c sdcard_t" where
  "check_idle env sd =
     (let (ok, sd) = wait_idle (SDC_POLL_COUNTMAX + 1) env (sdc_cs_assert env (sdc_sendbyte env 0xFF (sdc_cs_deassert env sd)))
      in (ok, if ok then sdc_cs_deassert env sd else sd))"

text \<open>A packet without data, as the one that stops a transmission.\<close>

definition plain_packet :: "'c card_env \<Rightarrow> byte \<Rightarrow> u32 \<Rightarrow> 'c sdcard_t \<Rightarrow> 'c sdcard_t" where
  "plain_packet env cmd arg sd =
     (let (ok, sd) = packet_command env cmd arg sd in if ok then packet_done env sd else sd)"

definition read_phase :: "'c card_env \<Rightarrow> byte \<Rightarrow> byte list \<Rightarrow> nat \<Rightarrow> 'c sdcard_t \<Rightarrow> bool \<times> byte list \<times> 'c sdcard_t" where
  "read_phase env cmd buffer blocks_count sd =
     (let (ok, buffer, sd) = read_blocks blocks_count env 0 buffer sd
      in if \<not> ok then (False, buffer, sd)
         else let sd = (if cmd = SDC_READ_SINGLE_BLOCK then sd else plain_packet env SDC_STOP_TRANSMISSION 0 sd)
           in (True, buffer, snd (sdc_receivebyte env (sdc_cs_deassert env sd))))"

definition write_phase :: "'c card_env \<Rightarrow> byte \<Rightarrow> byte list \<Rightarrow> nat \<Rightarrow> 'c sdcard_t \<Rightarrow> bool \<times> 'c sdcard_t" where
  "write_phase env cmd buffer blocks_count sd =
     (let (ok, sd) = write_blocks blocks_count env (cmd = SDC_WRITE_MULTIPLE_BLOCKS) 0 buffer sd
      in if \<not> ok then (False, sd)
         else if cmd = SDC_WRITE_SINGLE_BLOCK then check_idle env sd
         else let (ok, sd) = wait_idle (SDC_POLL_COUNTMAX + 1) env (sdc_sendbyte env 0xFD sd)
           in if ok then check_idle env sd else (False, sd))"

definition sdc_sendpacket :: "'c card_env \<Rightarrow> byte \<Rightarrow> u32 \<Rightarrow> byte list \<Rightarrow> nat \<Rightarrow> 'c sdcard_t \<Rightarrow> byte \<times> byte list \<times> 'c sdcard_t" where
  "sdc_sendpacket env cmd arg buffer blocks_count sd =
     (let (ok, sd) = packet_command env cmd arg sd;
          (ok, buffer, sd) =
            (if ok \<and> (cmd = SDC_READ_SINGLE_BLOCK \<or> cmd = SDC_READ_MULTIPLE_BLOCKS)
             then read_phase env cmd buffer blocks_count sd else (ok, buffer, sd));
          (ok, sd) =
            (if ok \<and> (cmd = SDC_WRITE_SINGLE_BLOCK \<or> cmd = SDC_WRITE_MULTIPLE_BLOCKS)
             then write_phase env cmd buffer blocks_count sd else (ok, sd));
          sd = (if ok then packet_done env sd else sd)
      in (stat_reg_buffer sd ! 0, buffer, sd))"

subsection \<open>Blocks\<close>

text \<open>
  The loops of \<open>sdc_read_multiple_blocks\<close> and \<open>sdc_write_multiple_blocks\<close>, from block number \<open>i\<close> on. The
  result is the byte returned by the card shifted right by 24, that is 0, or \<open>SDC_TIMEOUT\<close>.
\<close>

definition shifted_response :: "byte \<Rightarrow> byte" where
  "shifted_response r = ucast (drop_bit 24 (ucast r :: u32))"

fun read_multiple :: "nat \<Rightarrow> 'c card_env \<Rightarrow> u32 \<Rightarrow> nat \<Rightarrow> byte \<Rightarrow> byte list \<Rightarrow> 'c sdcard_t \<Rightarrow> byte \<times> byte list \<times> 'c sdcard_t" where
  "read_multiple 0 env start_block i response buffer sd = (response, buffer, sd)"
| "read_multiple (Suc n) env start_block i response buffer sd =
     (let (r, dat, sd) = sdc_sendpacket env SDC_READ_SINGLE_BLOCK (start_block + word_of_nat i) (drop (512 * i) buffer) 1 sd;
          buffer = take (512 * i) buffer @ dat
      in if packet_timeout sd \<noteq> 0 then (SDC_TIMEOUT, buffer, sd)
         else read_multiple n env start_block (i + 1) (shifted_response r) buffer sd)"

definition sdc_read_multiple_blocks :: "'c card_env \<Rightarrow> u32 \<Rightarrow> byte list \<Rightarrow> u32 \<Rightarrow> 'c sdcard_t \<Rightarrow> byte \<times> byte list \<times> 'c sdcard_t" where
  "sdc_read_multiple_blocks env start_block buffer blocks_count sd = read_multiple (unat blocks_count) env start_block 0 0 buffer sd"

fun write_multiple :: "nat \<Rightarrow> 'c card_env \<Rightarrow> u32 \<Rightarrow> nat \<Rightarrow> byte \<Rightarrow> byte list \<Rightarrow> 'c sdcard_t \<Rightarrow> byte \<times> 'c sdcard_t" where
  "write_multiple 0 env start_block i response buffer sd = (response, sd)"
| "write_multiple (Suc n) env start_block i response buffer sd =
     (let (r, dat, sd) = sdc_sendpacket env SDC_WRITE_SINGLE_BLOCK (start_block + word_of_nat i) (drop (512 * i) buffer) 1 sd
      in if packet_timeout sd \<noteq> 0 then (SDC_TIMEOUT, sd)
         else write_multiple n env start_block (i + 1) (shifted_response r) buffer sd)"

definition sdc_write_multiple_blocks :: "'c card_env \<Rightarrow> u32 \<Rightarrow> byte list \<Rightarrow> u32 \<Rightarrow> 'c sdcard_t \<Rightarrow> byte \<times> 'c sdcard_t" where
  "sdc_write_multiple_blocks env start_block buffer blocks_count sd = write_multiple (unat blocks_count) env start_block 0 0 buffer sd"

subsection \<open>Initialising the card\<close>

text \<open>A packet that carries no data; the timeout flag and the first status byte decide.\<close>

definition send_command :: "'c card_env \<Rightarrow> byte \<Rightarrow> u32 \<Rightarrow> 'c sdcard_t \<Rightarrow> 'c sdcard_t" where
  "send_command env cmd arg sd = snd (snd (sdc_sendpacket env cmd arg [] 1 sd))"

definition init_failed :: "'c card_env \<Rightarrow> 'c sdcard_t \<Rightarrow> int \<times> 'c sdcard_t" where
  "init_failed env sd = (SDC_FAILURE,
     sdc_ledset env SDC_LED_RED True (sdc_ledset env SDC_LED_GREEN False (sdc_cs_deassert env sd)))"

definition bad_status :: "'c sdcard_t \<Rightarrow> bool" where
  "bad_status sd \<longleftrightarrow> packet_timeout sd \<noteq> 0 \<or> stat_reg_buffer sd ! 0 \<noteq> 0x01"

text \<open>74 clocks with DIN and CS high.\<close>

fun start_clocks :: "nat \<Rightarrow> 'c card_env \<Rightarrow> 'c sdcard_t \<Rightarrow> 'c sdcard_t" where
  "start_clocks 0 env sd = sd"
| "start_clocks (Suc n) env sd =
     start_clocks n env (sdc_output env ((sdc_output env (sd\<lparr>sd_clk := 1\<rparr>))\<lparr>sd_clk := 0\<rparr>))"

text \<open>CMD8: whether the card is one of version 2, or \<open>None\<close> if its answer is wrong.\<close>

definition check_version :: "'c sdcard_t \<Rightarrow> bool option" where
  "check_version sd =
     (if bad_status sd then Some False
      else if stat_reg_buffer sd ! 1 = 0 \<and> stat_reg_buffer sd ! 2 = 0 \<and> stat_reg_buffer sd ! 3 = 0x01 \<and> stat_reg_buffer sd ! 4 = 0xAA
      then Some True else None)"

text \<open>The loop with ACMD41, or CMD1 for an MMC card: \<open>n\<close> tries remain, and this is number \<open>i\<close>. After the
  last try the C goes on as after a success.\<close>

fun op_cond_loop :: "nat \<Rightarrow> nat \<Rightarrow> 'c card_env \<Rightarrow> 'c sdcard_t \<Rightarrow> bool \<times> 'c sdcard_t" where
  "op_cond_loop 0 i env sd = (True, sd)"
| "op_cond_loop (Suc n) i env sd =
     (let sd = (if mmc sd \<noteq> 0 then send_command env SDC_SEND_OP_COND 0 sd
                else send_command env SDC_SD_SEND_OP_COND (if sd_ver2 sd \<noteq> 0 then 0x40000000 else 0)
                  (send_command env SDC_APP_CMD 0 sd))
      in if packet_timeout sd = 0 \<and> stat_reg_buffer sd ! 0 = 0 then (True, sd)
         else if i = 0 \<and> sd_ver2 sd = 0 then op_cond_loop n (i + 1) env (sd\<lparr>mmc := 1\<rparr>)
         else if bad_status sd then (False, sd)
         else op_cond_loop n (i + 1) env sd)"

text \<open>The size of a card from its CSD register; the \<open>double\<close> of the C holds whole numbers below
  \<open>2 ^ 32\<close> only and is exact.\<close>

definition csd_size_sd :: "'c sdcard_t \<Rightarrow> (u32 \<times> byte) option" where
  "csd_size_sd sd = do {
     read_bl_len \<leftarrow> sdc_slice sd 128 83 80;
     c_size \<leftarrow> sdc_slice sd 128 73 62;
     c_size_mult \<leftarrow> sdc_slice sd 128 49 47;
     format \<leftarrow> sdc_slice sd 128 11 10;
     let block_length = push_bit (unat (ucast read_bl_len :: byte)) 1;
     let mult = push_bit (unat (ucast c_size_mult :: byte) + 2) 1;
     let q = ((c_size + 1) * mult * block_length) div 1048576;
     Some (drop_bit 10 (1000 * q), ucast format) }"

definition csd_size_sdhc :: "'c sdcard_t \<Rightarrow> u32 option" where
  "csd_size_sdhc sd = do {
     c_size \<leftarrow> sdc_slice sd 128 69 48;
     let c_size = c_size + 1;
     Some (drop_bit 10 (1000 * (((c_size + 1) * 524288) div 1048576))) }"

definition init_registers :: "'c card_env \<Rightarrow> 'c sdcard_t \<Rightarrow> (int \<times> 'c sdcard_t) option" where
  "init_registers env sd = do {
     let sd = send_command env SDC_READ_OCR 0 sd;
     let sd = sd\<lparr>ccs := drop_bit 6 (stat_reg_buffer sd ! 1) AND 0x1\<rparr>;
     let sd = send_command env SDC_SEND_CID 0 sd;
     let sd = sd\<lparr>cid := mem_read (unat (status_len sd)) 16 (stat_reg_buffer sd), sdhc := 2, user_size := 0, file_format := 3\<rparr>;
     let sd = send_command env SDC_SEND_CSD 0 (send_command env SDC_APP_CMD 0 sd);
     let offs = unat (status_len sd);
     let tmp = drop_bit 6 (stat_reg_buffer sd ! offs) AND 0x03;
     let sd = sd\<lparr>csd := mem_read offs 16 (stat_reg_buffer sd), sdhc := tmp\<rparr>;
     if tmp \<noteq> 0 \<and> tmp \<noteq> 1 then Some (init_failed env sd)
     else do {
       sd \<leftarrow> (if tmp = 0
         then map_option (\<lambda>(size, format). sd\<lparr>user_size := size, file_format := format\<rparr>) (csd_size_sd sd)
         else map_option (\<lambda>size. sd\<lparr>user_size := size\<rparr>) (csd_size_sdhc sd));
       let sd = (if sd_ver2 sd \<noteq> 0 then send_command env SDC_SET_BLOCK_LEN 512 sd else sd);
       let sd = sdc_cs_deassert env sd;
       Some (SDC_OK, sdc_ledset env SDC_LED_RED False (sdc_ledset env SDC_LED_GREEN False sd)) } }"

definition sdc_init :: "'c card_env \<Rightarrow> 'c sdcard_t \<Rightarrow> (int \<times> 'c sdcard_t) option" where
  "sdc_init env sd =
     (let sd = (zero_sdcard (sd_bus sd))\<lparr>log_sdcard := 1, version_major := 0xFF, version_minor := 0x02,
        sd_csl := 1, sd_din := 1, sd_clk := 1\<rparr>
      in if \<not> satcart_found env then Some (SDC_NOHARDWARE, sd)
         else if reg_read env REG_CPLD_IO (sd_bus sd) AND push_bit SD_EJECT_LSHFT 1 \<noteq> 0 then Some (SDC_NOCARD, sd)
         else let sd = on_bus (reg_write env REG_SD_REINSERT 0x01) (sd\<lparr>inserted := 1\<rparr>);
                  sd = sdc_ledset env SDC_LED_RED True (sdc_ledset env SDC_LED_GREEN True sd);
                  sd = sdc_cs_assert env (start_clocks 74 env (sd\<lparr>sd_csl := 1, sd_din := 1\<rparr>));
                  sd = send_command env SDC_GO_IDLE_STATE 0 sd
           in if bad_status sd then Some (init_failed env sd)
              else let sd = send_command env SDC_SEND_IF_COND 0x000001AA sd
                in case check_version sd of
                    None \<Rightarrow> Some (init_failed env sd)
                  | Some v2 \<Rightarrow>
                      (let (ok, sd) = op_cond_loop 5000 0 env (sd\<lparr>sd_ver2 := of_bool v2, mmc := 0\<rparr>)
                       in if ok then init_registers env sd else Some (init_failed env sd)))"

end
