(* ===== verification/SdBits.thy ===== *)
theory SdBits
  imports SdPacket
begin

section \<open>The bits on the lines of the card\<close>

text \<open>
  What the driver's register accesses come to at the card: a byte that is sent is eight bits, most
  significant first, each put on DIN with the clock low and taken with the rising clock; a bit that
  is received is a clock pulse with DIN high and the level of DOUT after it.
\<close>

subsection \<open>Bytes and bits\<close>

definition bits_of :: "byte \<Rightarrow> bool list" where
  "bits_of x = map (bit x) [7, 6, 5, 4, 3, 2, 1, 0]"

definition byte_of :: "bool list \<Rightarrow> byte" where
  "byte_of bs = horner_sum of_bool 2 (rev bs)"

lemma length_bits_of [simp]: "length (bits_of x) = 8"
  by (simp add: bits_of_def)

lemma byte_of_bits [simp]: "byte_of (bits_of x) = x"
proof -
  have "rev (bits_of x) = map (bit x) [0..<8]" by (simp add: bits_of_def upt_rec eval_nat_numeral)
  then have "byte_of (bits_of x) = take_bit 8 x" by (simp only: byte_of_def horner_sum_bit_eq_take_bit)
  then show ?thesis by (auto intro!: bit_eqI simp: bit_simps dest: bit_imp_le_length)
qed

lemma bit_byte_of: "length bs \<le> 8 \<Longrightarrow> bit (byte_of bs) i \<longleftrightarrow> i < length bs \<and> rev bs ! i"
  by (auto simp: byte_of_def bit_horner_sum_bit_word_iff)

subsection \<open>Sending\<close>

definition tx :: "'c card_env \<Rightarrow> bool \<Rightarrow> bool \<Rightarrow> 'c \<Rightarrow> 'c" where
  "tx env cs b c = on_pins env cs b True (on_pins env cs b False c)"

definition tx_bytes :: "'c card_env \<Rightarrow> bool \<Rightarrow> byte list \<Rightarrow> 'c \<Rightarrow> 'c" where
  "tx_bytes env cs bs c = fold (tx env cs) (concat (map bits_of bs)) c"

lemma tx_bytes_append: "tx_bytes env cs (xs @ ys) c = tx_bytes env cs ys (tx_bytes env cs xs c)"
  by (simp add: tx_bytes_def)

lemma send_nibble_eq:
  "send_nibble env v b = b\<lparr>pin_din := bit v 0, pin_clk := True,
     the_card := fold (tx env (pin_cs b)) (map (bit v) [3, 2, 1, 0]) (the_card b)\<rparr>"
  by (simp add: send_nibble_def reg_write_def set_pins_def tx_def)

lemma send_byte_eq:
  "send_byte env v b = b\<lparr>pin_din := bit v 0, pin_clk := True, the_card := tx_bytes env (pin_cs b) [v] (the_card b)\<rparr>"
  by (simp add: send_byte_def send_nibble_eq tx_bytes_def bits_of_def bit_simps)

lemma send_bytes_eq:
  "bs \<noteq> [] \<Longrightarrow> fold (send_byte env) bs b
    = b\<lparr>pin_din := bit (last bs) 0, pin_clk := True, the_card := tx_bytes env (pin_cs b) bs (the_card b)\<rparr>"
proof (induction bs arbitrary: b)
  case (Cons x xs)
  show ?case
  proof (cases "xs = []")
    case False
    from Cons.IH [OF False, of "send_byte env x b"] show ?thesis
      using False tx_bytes_append [of env "pin_cs b" "[x]" xs "the_card b"]
      by (simp only: fold_simps(2) send_byte_eq [of env x b] last.simps if_False append.simps) simp
  qed (simp add: send_byte_eq)
qed simp

lemma sendbyte_array_eq:
  assumes "bs \<noteq> []"
  shows "sdc_sendbyte_array env bs sd = sd\<lparr>sd_din := of_bool (bit (last bs) 0), sd_clk := 1,
    sd_bus := (sd_bus sd)\<lparr>pin_din := bit (last bs) 0, pin_clk := True,
      the_card := tx_bytes env (pin_cs (sd_bus sd)) bs (the_card (sd_bus sd))\<rparr>\<rparr>"
proof -
  have "(x AND 1 \<noteq> 0) = bit x 0" for x :: byte by (simp add: and_one_eq mod_2_eq_odd bit_0)
  then show ?thesis using assms by (simp add: sdc_sendbyte_array_def on_bus_def send_bytes_eq)
qed

subsection \<open>Receiving\<close>

definition rx :: "'c card_env \<Rightarrow> bool \<Rightarrow> 'c \<Rightarrow> 'c" where
  "rx env cs c = on_pins env cs True False (on_pins env cs True True c)"

text \<open>\<open>replies env cs c bs c'\<close>: clocked \<open>length bs\<close> times, the card \<open>c\<close> puts the bits \<open>bs\<close> on its line and
  becomes \<open>c'\<close>.\<close>

fun replies :: "'c card_env \<Rightarrow> bool \<Rightarrow> 'c \<Rightarrow> bool list \<Rightarrow> 'c \<Rightarrow> bool" where
  "replies env cs c [] c' \<longleftrightarrow> c' = c"
| "replies env cs c (b # bs) c' \<longleftrightarrow> dout env (rx env cs c) = b \<and> replies env cs (rx env cs c) bs c'"

lemma replies_append: "replies env cs c (xs @ ys) c' \<longleftrightarrow> (\<exists>c1. replies env cs c xs c1 \<and> replies env cs c1 ys c')"
  by (induction xs arbitrary: c) auto

definition after_rx :: "'c \<Rightarrow> 'c satcart \<Rightarrow> 'c satcart" where
  "after_rx c b = b\<lparr>pin_din := True, pin_clk := False, the_card := c\<rparr>"

lemma after_rx_simps [simp]:
  "the_card (after_rx c b) = c" "pin_cs (after_rx c b) = pin_cs b" "pin_din (after_rx c b)" "\<not> pin_clk (after_rx c b)"
  "after_rx c (after_rx c' b) = after_rx c b" "leds (after_rx c b) = leds b"
  by (simp_all add: after_rx_def)

lemma clock_pulse_eq:
  assumes "pin_cs b = cs"
  shows "clock_pulse env (receive_bits cs True) (receive_bits cs False) b = after_rx (rx env cs (the_card b)) b"
proof -
  have "bit (receive_bits cs k) 0 = cs" "bit (receive_bits cs k) 1" "bit (receive_bits cs k) 2 = k" for k
    by (auto simp: receive_bits_def bit_simps)
  then show ?thesis
    using assms by (simp add: clock_pulse_def reg_write_def set_pins_def after_rx_def rx_def)
qed

lemma receive_nibble_eq:
  assumes "pin_cs b = cs" "replies env cs (the_card b) [b3, b2, b1, b0] c"
  shows "receive_nibble env (receive_bits cs True) (receive_bits cs False) b = (byte_of [b3, b2, b1, b0], after_rx c b)"
proof -
  have "push_bit 3 (of_bool b3) OR push_bit 2 (of_bool b2) OR push_bit 1 (of_bool b1) OR of_bool b0 = byte_of [b3, b2, b1, b0]"
    by (cases b3; cases b2; cases b1; cases b0) (simp_all add: byte_of_def)
  then show ?thesis
    using assms by (simp add: receive_nibble_def Let_def clock_pulse_eq reg_read_def)
qed

lemma receive_bytes_eq:
  assumes "pin_cs b = cs"
  shows "replies env cs (the_card b) (concat (map bits_of dat)) c \<Longrightarrow> dat \<noteq> [] \<Longrightarrow>
    receive_bytes env (receive_bits cs True) (receive_bits cs False) (length dat) b = (dat, after_rx c b)"
  using assms
proof (induction dat arbitrary: b)
  case (Cons x xs)
  have eq: "bits_of x = map (bit x) [7, 6, 5, 4] @ map (bit x) [3, 2, 1, 0]" by (simp add: bits_of_def)
  obtain c1 c2 where r: "replies env cs (the_card b) (map (bit x) [7, 6, 5, 4]) c1"
      "replies env cs c1 (map (bit x) [3, 2, 1, 0]) c2" "replies env cs c2 (concat (map bits_of xs)) c"
    using Cons.prems(1) unfolding list.map concat.simps replies_append eq by blast
  have n: "receive_nibble env (receive_bits cs True) (receive_bits cs False) b
      = (byte_of (map (bit x) [7, 6, 5, 4]), after_rx c1 b)"
    "receive_nibble env (receive_bits cs True) (receive_bits cs False) (after_rx c1 b)
      = (byte_of (map (bit x) [3, 2, 1, 0]), after_rx c2 b)"
    using receive_nibble_eq [of b cs env "bit x 7" "bit x 6" "bit x 5" "bit x 4" c1]
      receive_nibble_eq [of "after_rx c1 b" cs env "bit x 3" "bit x 2" "bit x 1" "bit x 0" c2] r Cons.prems(3)
    by simp_all
  have v: "byte_of (map (bit x) [3, 2, 1, 0]) OR push_bit 4 (byte_of (map (bit x) [7, 6, 5, 4])) = x"
  proof (rule bit_word_eqI)
    fix n assume "n < LENGTH(8)"
    then have "n = 0 \<or> n = 1 \<or> n = 2 \<or> n = 3 \<or> n = 4 \<or> n = 5 \<or> n = 6 \<or> n = 7" by auto
    then show "bit (byte_of (map (bit x) [3, 2, 1, 0]) OR push_bit 4 (byte_of (map (bit x) [7, 6, 5, 4]))) n = bit x n"
      by (elim disjE) (simp_all add: bit_simps bit_byte_of nth_Cons)
  qed
  show ?case
  proof (cases xs)
    case Nil
    then show ?thesis using n v r(3) by (simp add: Let_def)
  next
    case (Cons y ys)
    have "receive_bytes env (receive_bits cs True) (receive_bits cs False) (length xs) (after_rx c2 b)
        = (xs, after_rx c (after_rx c2 b))"
      by (rule Cons.IH) (use r(3) Cons.prems(3) Cons in simp_all)
    then show ?thesis using n v by (simp add: Let_def)
  qed
qed simp

lemma replies_rx:
  assumes "replies env cs (the_card b) (x # bs) c" "pin_cs b = cs"
  shows "clock_pulse env (receive_bits cs True) (receive_bits cs False) b = after_rx (rx env cs (the_card b)) b"
    "reg_read env (REG_SD_IO n) (after_rx (rx env cs (the_card b)) b) = push_bit n (of_bool x)"
    "replies env cs (the_card (after_rx (rx env cs (the_card b)) b)) bs c"
    "pin_cs (after_rx (rx env cs (the_card b)) b) = cs"
  using assms by (simp_all add: clock_pulse_eq reg_read_def)

lemma wait_start_eq:
  assumes "replies env cs (the_card b) (replicate k True @ [False]) c" "pin_cs b = cs" "k < n"
  shows "wait_start n env (receive_bits cs True) (receive_bits cs False) b = (True, after_rx c b)"
  using assms
proof (induction k arbitrary: n b)
  case 0
  then obtain m where "n = Suc m" by (cases n) auto
  then show ?case
    using 0 replies_rx(1) [of env cs b False "[]" c] replies_rx(2) [of env cs b False "[]" c 0] by (auto simp: Let_def)
next
  case (Suc k)
  then obtain m where m: "n = Suc m" "k < m" by (cases n) auto
  have r: "replies env cs (the_card b) (True # replicate k True @ [False]) c" using Suc.prems(1) by simp
  note rr = replies_rx [OF r Suc.prems(2)]
  show ?case
    using Suc.IH [OF rr(3,4) m(2)] rr(2) [of 0] by (simp add: m(1) Let_def rr(1))
qed

lemma wait_start_timeout:
  assumes "replies env cs (the_card b) (replicate n True) c" "pin_cs b = cs" "0 < n"
  shows "wait_start n env (receive_bits cs True) (receive_bits cs False) b = (False, after_rx c b)"
  using assms
proof (induction n arbitrary: b)
  case (Suc n)
  have r: "replies env cs (the_card b) (True # replicate n True) c" using Suc.prems(1) by simp
  note rr = replies_rx [OF r Suc.prems(2)]
  show ?case
  proof (cases n)
    case 0
    then show ?thesis using rr(2) [of 0] rr(3) by (simp add: Let_def rr(1))
  next
    case (Suc m)
    then show ?thesis using Suc.IH [OF rr(3,4)] rr(2) [of 0] by (simp add: Let_def rr(1))
  qed
qed simp

lemma header_bits_eq:
  assumes "replies env cs (the_card b) bs c" "pin_cs b = cs" "bs \<noteq> []"
  shows "header_bits (length bs) env (receive_bits cs True) (receive_bits cs False) tmp b
    = (foldl (\<lambda>t x. push_bit 1 t OR of_bool x) tmp bs, after_rx c b)"
  using assms
proof (induction bs arbitrary: b tmp)
  case (Cons x bs)
  note rr = replies_rx [OF Cons.prems(1,2)]
  show ?case
  proof (cases "bs = []")
    case True
    then show ?thesis using rr(2) [of 0] rr(3) by (simp add: Let_def rr(1))
  next
    case False
    then show ?thesis using Cons.IH [OF rr(3,4) False] rr(2) [of 0] by (simp add: Let_def rr(1))
  qed
qed simp

lemma foldl_byte_of: "foldl (\<lambda>t x. push_bit 1 t OR of_bool x) 0 bs = byte_of bs"
proof (induction bs rule: rev_induct)
  case (snoc x bs)
  have "push_bit 1 (byte_of bs) OR of_bool x = of_bool x + 2 * byte_of bs"
  proof -
    have "push_bit 1 (byte_of bs) OR of_bool x = push_bit 1 (byte_of bs) + of_bool x"
      by (rule disjunctive_add [symmetric]) (simp only: bit_push_bit_iff bit_of_bool_iff, auto)
    then show ?thesis by (simp add: push_bit_eq_mult)
  qed
  then show ?case using snoc by (simp add: byte_of_def)
qed (simp add: byte_of_def)

lemma header_byte_eq:
  assumes "replies env cs (the_card b) bs c" "pin_cs b = cs" "bs \<noteq> []"
  shows "header_bytes 1 (length bs) env (receive_bits cs True) (receive_bits cs False) b = ([byte_of bs], after_rx c b)"
  using header_bits_eq [OF assms, of 0] by (simp add: Let_def foldl_byte_of [simplified])

end
