(* ===== verification/FatDefs.thy ===== *)
theory FatDefs
  imports FtxPrelude
begin

section \<open>The FAT library: structures and the medium\<close>

text \<open>
  The data of \<open>satcom_lib/sdcard/fat_io_lib\<close> in the configuration of \<open>fat_opts.h\<close> with
  \<open>SC_SATURN\<close>: a big-endian processor, one FAT buffer of one sector, long file names, write
  support, directory listing, time stamps. On-disk words are little endian; the macros of
  \<open>fat_misc.h\<close> read and write them byte by byte, and \<open>FAT_HTONS\<close>/\<open>FAT_HTONL\<close> swap the words of
  structures that are overlaid on a sector.
\<close>

subsection \<open>Words in a sector\<close>

definition GET_32BIT_WORD :: "byte list \<Rightarrow> nat \<Rightarrow> u32 option" where
  "GET_32BIT_WORD buffer location = do {
     b3 \<leftarrow> peek buffer (location + 3); b2 \<leftarrow> peek buffer (location + 2);
     b1 \<leftarrow> peek buffer (location + 1); b0 \<leftarrow> peek buffer (location + 0);
     Some (push_bit 24 (ucast b3) + push_bit 16 (ucast b2) + push_bit 8 (ucast b1) + ucast b0) }"

definition GET_16BIT_WORD :: "byte list \<Rightarrow> nat \<Rightarrow> u32 option" where
  "GET_16BIT_WORD buffer location = do {
     b1 \<leftarrow> peek buffer (location + 1); b0 \<leftarrow> peek buffer (location + 0);
     Some (push_bit 8 (ucast b1) + ucast b0) }"

definition SET_32BIT_WORD :: "byte list \<Rightarrow> nat \<Rightarrow> u32 \<Rightarrow> byte list option" where
  "SET_32BIT_WORD buffer location val = do {
     b \<leftarrow> poke buffer (location + 0) (ucast (val AND 0xFF));
     b \<leftarrow> poke b (location + 1) (ucast (drop_bit 8 val AND 0xFF));
     b \<leftarrow> poke b (location + 2) (ucast (drop_bit 16 val AND 0xFF));
     poke b (location + 3) (ucast (drop_bit 24 val AND 0xFF)) }"

definition SET_16BIT_WORD :: "byte list \<Rightarrow> nat \<Rightarrow> u16 \<Rightarrow> byte list option" where
  "SET_16BIT_WORD buffer location val = do {
     b \<leftarrow> poke buffer (location + 0) (ucast (val AND 0xFF));
     poke b (location + 1) (ucast (drop_bit 8 val AND 0xFF)) }"

definition FAT_HTONS :: "u16 \<Rightarrow> u16" where
  "FAT_HTONS n = push_bit 8 (n AND 0xFF) OR drop_bit 8 (n AND 0xFF00)"

definition FAT_HTONL :: "u32 \<Rightarrow> u32" where
  "FAT_HTONL n = push_bit 24 (n AND 0xFF) OR push_bit 8 (n AND 0xFF00)
     OR drop_bit 8 (n AND 0xFF0000) OR drop_bit 24 (n AND 0xFF000000)"

subsection \<open>Directory entries\<close>

abbreviation FAT_SECTOR_SIZE :: nat where "FAT_SECTOR_SIZE \<equiv> 512"
abbreviation FAT_DIR_ENTRY_SIZE :: nat where "FAT_DIR_ENTRY_SIZE \<equiv> 32"
abbreviation FAT_DIR_ENTRIES_PER_SECTOR :: nat where
  "FAT_DIR_ENTRIES_PER_SECTOR \<equiv> FAT_SECTOR_SIZE div FAT_DIR_ENTRY_SIZE"
abbreviation FAT_SFN_SIZE_FULL :: nat where "FAT_SFN_SIZE_FULL \<equiv> 11"
abbreviation FAT_SFN_SIZE_PARTIAL :: nat where "FAT_SFN_SIZE_PARTIAL \<equiv> 8"
abbreviation FILE_ATTR_SYSHID :: byte where "FILE_ATTR_SYSHID \<equiv> 0x06"
abbreviation FILE_ATTR_VOLUME_ID :: byte where "FILE_ATTR_VOLUME_ID \<equiv> 0x08"
abbreviation FILE_ATTR_LFN_TEXT :: byte where "FILE_ATTR_LFN_TEXT \<equiv> 0x0F"
abbreviation FILE_HEADER_BLANK :: byte where "FILE_HEADER_BLANK \<equiv> 0x00"
abbreviation FILE_HEADER_DELETED :: byte where "FILE_HEADER_DELETED \<equiv> 0xE5"
abbreviation FILE_TYPE_DIR :: byte where "FILE_TYPE_DIR \<equiv> 0x10"
abbreviation FILE_TYPE_FILE :: byte where "FILE_TYPE_FILE \<equiv> 0x20"
abbreviation FAT32_LAST_CLUSTER :: u32 where "FAT32_LAST_CLUSTER \<equiv> 0xFFFFFFFF"
abbreviation FAT32_INVALID_CLUSTER :: u32 where "FAT32_INVALID_CLUSTER \<equiv> 0xFFFFFFFF"

text \<open>
  The structure \<open>fat_dir_entry\<close>. Its words hold the value the processor sees, that is the
  big-endian reading of the bytes. \<open>dir_entry_at\<close> overlays it on a buffer and
  \<open>dir_entry_bytes\<close> is its image in memory.
\<close>

record fat_dir_entry =
  Name :: "byte list"
  Attr :: byte
  NTRes :: byte
  CrtTimeTenth :: byte
  CrtTime :: "byte list"
  CrtDate :: "byte list"
  LstAccDate :: "byte list"
  FstClusHI :: u16
  WrtTime :: "byte list"
  WrtDate :: "byte list"
  FstClusLO :: u16
  FileSize :: u32

definition host16 :: "byte \<Rightarrow> byte \<Rightarrow> u16" where
  "host16 a b = push_bit 8 (ucast a) OR ucast b"

definition host32 :: "byte \<Rightarrow> byte \<Rightarrow> byte \<Rightarrow> byte \<Rightarrow> u32" where
  "host32 a b c d = push_bit 24 (ucast a) OR push_bit 16 (ucast b) OR push_bit 8 (ucast c) OR ucast d"

definition dir_entry_at :: "byte list \<Rightarrow> nat \<Rightarrow> fat_dir_entry" where
  "dir_entry_at m p =
     \<lparr>Name = mem_read p 11 m, Attr = m ! (p + 11), NTRes = m ! (p + 12), CrtTimeTenth = m ! (p + 13),
      CrtTime = mem_read (p + 14) 2 m, CrtDate = mem_read (p + 16) 2 m,
      LstAccDate = mem_read (p + 18) 2 m, FstClusHI = host16 (m ! (p + 20)) (m ! (p + 21)),
      WrtTime = mem_read (p + 22) 2 m, WrtDate = mem_read (p + 24) 2 m,
      FstClusLO = host16 (m ! (p + 26)) (m ! (p + 27)),
      FileSize = host32 (m ! (p + 28)) (m ! (p + 29)) (m ! (p + 30)) (m ! (p + 31))\<rparr>"

definition dir_entry_bytes :: "fat_dir_entry \<Rightarrow> byte list" where
  "dir_entry_bytes e = Name e @ [Attr e, NTRes e, CrtTimeTenth e] @ CrtTime e @ CrtDate e @ LstAccDate e
     @ [ucast (drop_bit 8 (FstClusHI e)), ucast (FstClusHI e)] @ WrtTime e @ WrtDate e
     @ [ucast (drop_bit 8 (FstClusLO e)), ucast (FstClusLO e)]
     @ [ucast (drop_bit 24 (FileSize e)), ucast (drop_bit 16 (FileSize e)),
        ucast (drop_bit 8 (FileSize e)), ucast (FileSize e)]"

subsection \<open>The file system object\<close>

text \<open>
  \<open>struct fat_buffer\<close>, without the link: the chain of FAT buffers is the list \<open>fat_chain\<close> of
  the file system, head first, and a pointer to a buffer is its index there. \<open>fb_ptr\<close> is the
  offset of \<open>ptr\<close> into \<open>sector\<close> (\<open>None\<close> for a null pointer). The functions of the medium act on
  its state \<open>'d\<close>: reading gets the buffer and returns it filled, together with the flag the C
  function returns. The lock hooks are left out.
\<close>

record fat_buffer =
  fb_sector :: "byte list"
  fb_address :: u32
  fb_dirty :: bool
  fb_ptr :: "nat option"

datatype fat_kind = FAT_TYPE_16 | FAT_TYPE_32

type_synonym 'd diskio_read = "u32 \<Rightarrow> byte list \<Rightarrow> u32 \<Rightarrow> 'd \<Rightarrow> bool \<times> byte list \<times> 'd"
type_synonym 'd diskio_write = "u32 \<Rightarrow> byte list \<Rightarrow> u32 \<Rightarrow> 'd \<Rightarrow> bool \<times> 'd"

record 'd fatfs =
  sectors_per_cluster :: byte
  cluster_begin_lba :: u32
  rootdir_first_cluster :: u32
  rootdir_first_sector :: u32
  rootdir_sectors :: u32
  fat_begin_lba :: u32
  fs_info_sector :: u16
  lba_begin :: u32
  fat_sectors :: u32
  next_free_cluster :: u32
  root_entry_count :: u16
  reserved_sectors :: u16
  num_of_fats :: byte
  fat_type :: fat_kind
  read_media :: "'d diskio_read option"
  write_media :: "'d diskio_write option"
  currentsector :: fat_buffer
  fat_chain :: "fat_buffer list"
  medium :: 'd

subsection \<open>The medium behind the library\<close>

text \<open>
  \<open>fat_media_read\<close> and \<open>fat_media_write\<close> of \<open>fat_global.c\<close> outside the Saturn: the disk is a dump
  file, here its bytes. \<open>fseek\<close> gets the 32-bit product \<open>sector * FAT_SECTOR_SIZE\<close>; \<open>fread\<close> stops
  at the end of the file, \<open>fwrite\<close> past it fills the gap with zeros.
\<close>

definition fat_media_read :: "(byte list) diskio_read" where
  "fat_media_read sector buffer sector_count file =
     (let off = unat (sector * 512); n = unat sector_count * FAT_SECTOR_SIZE
      in (True, mem_write 0 (mem_read off n file) buffer, file))"

definition fat_media_write :: "(byte list) diskio_write" where
  "fat_media_write sector buffer sector_count file =
     (let off = unat (sector * 512); n = unat sector_count * FAT_SECTOR_SIZE
      in (True, mem_write off (take n buffer) (file @ replicate (off - length file) 0)))"

text \<open>
  What the library needs of a medium of \<open>size\<close> sectors: a sector that is read is the last one
  written there, and writing one changes no other. Failing is allowed: a failed read leaves the
  medium as it is, a failed write damages at most the sector it was for.
\<close>

locale block_device =
  fixes rd :: "'d diskio_read" and wr :: "'d diskio_write"
    and disk :: "'d \<Rightarrow> u32 \<Rightarrow> byte list" and sectors :: nat and valid :: "'d \<Rightarrow> bool"
  assumes sector_length: "valid d \<Longrightarrow> unat s < sectors \<Longrightarrow> length (disk d s) = FAT_SECTOR_SIZE"
    and read_law: "valid d \<Longrightarrow> unat s < sectors \<Longrightarrow> length buf = FAT_SECTOR_SIZE
      \<Longrightarrow> \<exists>buf' d' ok. rd s buf 1 d = (ok, buf', d') \<and> valid d' \<and> length buf' = FAT_SECTOR_SIZE
        \<and> (ok \<longrightarrow> buf' = disk d s) \<and> (\<forall>t. unat t < sectors \<longrightarrow> disk d' t = disk d t)"
    and write_law: "valid d \<Longrightarrow> unat s < sectors \<Longrightarrow> length buf = FAT_SECTOR_SIZE
      \<Longrightarrow> \<exists>d' ok. wr s buf 1 d = (ok, d') \<and> valid d' \<and> (ok \<longrightarrow> disk d' s = buf)
        \<and> (\<forall>t. unat t < sectors \<longrightarrow> t \<noteq> s \<longrightarrow> disk d' t = disk d t)"

text \<open>
  Files are read several sectors at a time: reading a run of sectors gives them one after the other,
  and touches nothing of the buffer behind them.
\<close>

definition sector_run :: "('d \<Rightarrow> u32 \<Rightarrow> byte list) \<Rightarrow> 'd \<Rightarrow> u32 \<Rightarrow> nat \<Rightarrow> byte list" where
  "sector_run disk d s k = concat (map (\<lambda>i. disk d (s + word_of_nat i)) [0..<k])"

locale run_device = block_device +
  assumes read_run: "valid d \<Longrightarrow> k \<noteq> 0 \<Longrightarrow> unat s + unat k \<le> sectors \<Longrightarrow> unat k * FAT_SECTOR_SIZE \<le> length buf
      \<Longrightarrow> \<exists>buf' d' ok. rd s buf k d = (ok, buf', d') \<and> valid d' \<and> length buf' = length buf
        \<and> (ok \<longrightarrow> buf' = sector_run disk d s (unat k) @ drop (unat k * FAT_SECTOR_SIZE) buf)
        \<and> (\<forall>t. unat t < sectors \<longrightarrow> disk d' t = disk d t)"

text \<open>The dump file is such a medium as long as its size fits 32 bits.\<close>

definition file_sector :: "byte list \<Rightarrow> u32 \<Rightarrow> byte list" where
  "file_sector img s = mem_read (unat s * FAT_SECTOR_SIZE) FAT_SECTOR_SIZE img"

lemma sector_offset:
  assumes "unat (s :: u32) < n" "n * FAT_SECTOR_SIZE \<le> 2 ^ 32"
  shows "unat (s * 512) = unat s * FAT_SECTOR_SIZE"
  using unat_mult_lem [of s 512] assms by simp

lemma sector_disjoint:
  assumes "a \<noteq> (b :: u32)"
  shows "unat a * FAT_SECTOR_SIZE + FAT_SECTOR_SIZE \<le> unat b * FAT_SECTOR_SIZE
    \<or> unat b * FAT_SECTOR_SIZE + FAT_SECTOR_SIZE \<le> unat a * FAT_SECTOR_SIZE"
proof -
  have "unat a \<noteq> unat b" using assms by (simp add: word_unat_eq_iff)
  then show ?thesis by arith
qed

definition file_valid :: "nat \<Rightarrow> byte list \<Rightarrow> bool" where
  "file_valid n img \<longleftrightarrow> length img = n * FAT_SECTOR_SIZE \<and> n * FAT_SECTOR_SIZE \<le> 2 ^ 32"

lemma file_media_read:
  assumes "file_valid n img" "unat s < n" "length buf = FAT_SECTOR_SIZE"
  shows "fat_media_read s buf 1 img = (True, file_sector img s, img)"
proof -
  have "unat s * 512 + 512 \<le> length img"
    using assms(1,2) by (simp add: file_valid_def)
  then have "length (mem_read (unat s * 512) 512 img) = 512" by simp
  then show ?thesis
    using assms sector_offset [of s n]
    by (simp add: fat_media_read_def file_sector_def Let_def file_valid_def mem_write_def)
qed

lemma file_media_write:
  assumes "file_valid n img" "unat s < n" "length buf = FAT_SECTOR_SIZE"
  shows "fat_media_write s buf 1 img = (True, mem_write (unat s * FAT_SECTOR_SIZE) buf img)"
proof -
  have "unat s * 512 \<le> length img"
    using assms(1,2) by (simp add: file_valid_def)
  then show ?thesis
    using assms sector_offset [of s n] by (simp add: fat_media_write_def Let_def file_valid_def)
qed

interpretation file_device: block_device fat_media_read fat_media_write file_sector n "file_valid n"
  for n
proof unfold_locales
  fix img :: "byte list" and s :: u32
  assume v: "file_valid n img" and s: "unat s < n"
  then have b: "unat s * 512 + 512 \<le> length img" by (simp add: file_valid_def)
  then show "length (file_sector img s) = FAT_SECTOR_SIZE"
    by (simp add: file_sector_def)
  fix buf :: "byte list" assume buf: "length buf = FAT_SECTOR_SIZE"
  show "\<exists>buf' d' ok. fat_media_read s buf 1 img = (ok, buf', d') \<and> file_valid n d'
      \<and> length buf' = FAT_SECTOR_SIZE \<and> (ok \<longrightarrow> buf' = file_sector img s)
      \<and> (\<forall>t. unat t < n \<longrightarrow> file_sector d' t = file_sector img t)"
    using file_media_read [OF v s buf] v b by (auto simp: file_sector_def intro: exI [of _ True])
  have "file_sector (mem_write (unat s * 512) buf img) t = file_sector img t" if "unat t < n" "t \<noteq> s" for t
    using sector_disjoint [OF that(2)] that(1) v b buf unfolding file_sector_def
    by (intro mem_read_write_other) (auto simp: file_valid_def)
  moreover have "file_sector (mem_write (unat s * 512) buf img) s = buf"
    using mem_read_write_same [of "unat s * 512" buf img] b buf by (simp add: file_sector_def)
  ultimately show "\<exists>d' ok. fat_media_write s buf 1 img = (ok, d') \<and> file_valid n d'
      \<and> (ok \<longrightarrow> file_sector d' s = buf)
      \<and> (\<forall>t. unat t < n \<longrightarrow> t \<noteq> s \<longrightarrow> file_sector d' t = file_sector img t)"
    using file_media_write [OF v s buf] v b buf by (auto simp: file_valid_def intro: exI [of _ True])
qed

lemma mem_read_blocks:
  "p + k * n \<le> length m \<Longrightarrow> mem_read p (k * n) m = concat (map (\<lambda>i. mem_read (p + i * n) n m) [0..<k])"
proof (induction k)
  case (Suc k)
  then have "mem_read p (k * n) m = concat (map (\<lambda>i. mem_read (p + i * n) n m) [0..<k])" by simp
  moreover have "mem_read p (k * n + n) m = mem_read p (k * n) m @ mem_read (p + k * n) n m"
    unfolding mem_read_def take_add drop_drop by (simp add: add.commute)
  ultimately show ?case by (simp add: add.commute)
qed (simp add: mem_read_def)

interpretation file_runs: run_device fat_media_read fat_media_write file_sector n "file_valid n"
  for n
proof unfold_locales
  fix img :: "byte list" and k s :: u32 and buf :: "byte list"
  assume v: "file_valid n img" and k: "k \<noteq> 0" and s: "unat s + unat k \<le> n" and b: "unat k * 512 \<le> length buf"
  have k0: "0 < unat k" using k by (simp add: unat_gt_0)
  then have off: "unat (s * 512) = unat s * 512" using v s by (intro sector_offset [of s n]) (simp_all add: file_valid_def)
  have fit: "unat s * 512 + unat k * 512 \<le> length img"
  proof -
    have "(unat s + unat k) * 512 \<le> n * 512" using s by (rule mult_le_mono1)
    then show ?thesis using v by (simp add: file_valid_def add_mult_distrib)
  qed
  have sec: "file_sector img (s + word_of_nat i) = mem_read (unat s * 512 + i * 512) 512 img" if "i < unat k" for i
  proof -
    have "unat s + unat k < 2 ^ 32" using s v by (auto simp: file_valid_def)
    then have "unat (s + word_of_nat i) = unat s + i"
      using that unat_add_lem [of s "word_of_nat i"] unat_word_of_nat [of i, where 'a = 32] by simp
    then show ?thesis by (simp add: file_sector_def add_mult_distrib)
  qed
  have run: "sector_run file_sector img s (unat k) = mem_read (unat s * 512) (unat k * 512) img"
    unfolding sector_run_def mem_read_blocks [OF fit] by (rule arg_cong [where f = concat]) (use sec in auto)
  have "length (mem_read (unat s * 512) (unat k * 512) img) = unat k * 512" using fit by simp
  then have "fat_media_read s buf k img
      = (True, sector_run file_sector img s (unat k) @ drop (unat k * 512) buf, img)"
    unfolding fat_media_read_def Let_def off run by (simp add: mem_write_def)
  moreover have "length (sector_run file_sector img s (unat k) @ drop (unat k * 512) buf) = length buf"
    using fit b unfolding run by simp
  ultimately show "\<exists>buf' d' ok. fat_media_read s buf k img = (ok, buf', d') \<and> file_valid n d' \<and> length buf' = length buf
      \<and> (ok \<longrightarrow> buf' = sector_run file_sector img s (unat k) @ drop (unat k * 512) buf)
      \<and> (\<forall>t. unat t < n \<longrightarrow> file_sector d' t = file_sector img t)"
    using v by (intro exI [of _ "sector_run file_sector img s (unat k) @ drop (unat k * 512) buf"] exI [of _ img] exI [of _ True]) simp
qed

subsection \<open>Byte order\<close>

lemma disjoint_add_or:
  fixes x y :: "'a::len word"
  assumes "\<And>i. bit x i \<Longrightarrow> bit y i \<Longrightarrow> False"
  shows "x + y = x OR y"
  using assms by (intro disjunctive_add) auto

lemma GET_WORD_or:
  fixes a b c d :: byte
  shows "push_bit 24 (ucast a) + push_bit 16 (ucast b) + push_bit 8 (ucast c) + ucast d
    = (push_bit 24 (ucast a) OR push_bit 16 (ucast b) OR push_bit 8 (ucast c) OR ucast d :: u32)"
  and "push_bit 8 (ucast c) + ucast d = (push_bit 8 (ucast c) OR ucast d :: u32)"
proof -
  have "push_bit 24 (ucast a) + push_bit 16 (ucast b) = (push_bit 24 (ucast a) OR push_bit 16 (ucast b) :: u32)"
    by (rule disjoint_add_or) (auto simp: bit_simps dest: bit_imp_le_length)
  moreover have "(push_bit 24 (ucast a) OR push_bit 16 (ucast b)) + push_bit 8 (ucast c)
      = ((push_bit 24 (ucast a) OR push_bit 16 (ucast b)) OR push_bit 8 (ucast c) :: u32)"
    by (rule disjoint_add_or) (auto simp: bit_simps dest!: bit_imp_le_length)
  moreover have "(push_bit 24 (ucast a) OR push_bit 16 (ucast b) OR push_bit 8 (ucast c)) + ucast d
      = ((push_bit 24 (ucast a) OR push_bit 16 (ucast b) OR push_bit 8 (ucast c)) OR ucast d :: u32)"
    by (rule disjoint_add_or) (auto simp: bit_simps dest!: bit_imp_le_length)
  ultimately show "push_bit 24 (ucast a) + push_bit 16 (ucast b) + push_bit 8 (ucast c) + ucast d
    = (push_bit 24 (ucast a) OR push_bit 16 (ucast b) OR push_bit 8 (ucast c) OR ucast d :: u32)"
    by (simp add: or.assoc)
  show "push_bit 8 (ucast c) + ucast d = (push_bit 8 (ucast c) OR ucast d :: u32)"
    by (rule disjoint_add_or) (auto simp: bit_simps dest!: bit_imp_le_length)
qed

text \<open>The bytes of a word, least significant first, and their reading and writing.\<close>

definition le_bytes32 :: "u32 \<Rightarrow> byte list" where
  "le_bytes32 v = [ucast v, ucast (drop_bit 8 v), ucast (drop_bit 16 v), ucast (drop_bit 24 v)]"

definition le_bytes16 :: "u16 \<Rightarrow> byte list" where
  "le_bytes16 v = [ucast v, ucast (drop_bit 8 v)]"

lemma byte_mask16 [simp]: "(ucast (v AND 0xFF :: u16) :: byte) = ucast v"
proof -
  have "(0xFF::u16) = mask 8" by (simp add: mask_eq_exp_minus_1)
  then have "v AND 0xFF = take_bit 8 v" by (simp add: take_bit_eq_mask)
  then show ?thesis by (auto intro!: bit_eqI simp: bit_simps dest: bit_imp_le_length)
qed

lemma SET_32BIT_WORD_eq:
  assumes "p + 4 \<le> length m"
  shows "SET_32BIT_WORD m p v = Some (mem_write p (le_bytes32 v) m)"
proof -
  have "mem_write p (le_bytes32 v) m = m[p := ucast v, p + 1 := ucast (drop_bit 8 v),
      p + 2 := ucast (drop_bit 16 v), p + 3 := ucast (drop_bit 24 v)]"
    using assms by (simp add: le_bytes32_def mem_write_Cons numeral_2_eq_2 numeral_3_eq_3)
  then show ?thesis
    using assms by (simp add: SET_32BIT_WORD_def)
qed

lemma SET_16BIT_WORD_eq:
  assumes "p + 2 \<le> length m"
  shows "SET_16BIT_WORD m p v = Some (mem_write p (le_bytes16 v) m)"
  using assms by (simp add: SET_16BIT_WORD_def le_bytes16_def mem_write_Cons)

lemma GET_32BIT_WORD_eq:
  assumes "mem_read p 4 m = le_bytes32 v" "p + 4 \<le> length m"
  shows "GET_32BIT_WORD m p = Some v"
proof -
  have "m ! (p + i) = le_bytes32 v ! i" if "i < 4" for i
    using arg_cong [OF assms(1), of "\<lambda>l. l ! i"] assms(2) that by (simp add: nth_mem_read)
  from this [of 0] this [of 1] this [of 2] this [of 3]
  have "m ! p = ucast v" "m ! (p + 1) = ucast (drop_bit 8 v)" "m ! (p + 2) = ucast (drop_bit 16 v)"
    "m ! (p + 3) = ucast (drop_bit 24 v)"
    by (simp_all add: le_bytes32_def numeral_3_eq_3)
  then show ?thesis
    using assms(2) bytes_join_32 [of v] by (simp add: GET_32BIT_WORD_def GET_WORD_or)
qed

lemma GET_16BIT_WORD_eq:
  assumes "mem_read p 2 m = le_bytes16 v" "p + 2 \<le> length m"
  shows "GET_16BIT_WORD m p = Some (ucast v)"
proof -
  have "m ! (p + i) = le_bytes16 v ! i" if "i < 2" for i
    using arg_cong [OF assms(1), of "\<lambda>l. l ! i"] assms(2) that by (simp add: nth_mem_read)
  from this [of 0] this [of 1]
  have "m ! p = ucast v" "m ! (p + 1) = ucast (drop_bit 8 v)"
    by (simp_all add: le_bytes16_def)
  moreover have "push_bit 8 (ucast (ucast (drop_bit 8 v) :: byte)) OR ucast (ucast v :: byte) = (ucast v :: u32)"
  proof (rule bit_eqI)
    fix n
    show "bit (push_bit 8 (ucast (ucast (drop_bit 8 v) :: byte)) OR ucast (ucast v :: byte) :: u32) n
        = bit (ucast v :: u32) n"
      by (cases "n < 8") (auto simp: bit_simps dest: bit_imp_le_length)
  qed
  ultimately show ?thesis
    using assms(2) by (simp add: GET_16BIT_WORD_def GET_WORD_or)
qed

end
