(* ===== verification/FatTable.thy ===== *)
theory FatTable
  imports FatDefs
begin

section \<open>The file allocation table\<close>

text \<open>
  Models \<open>fat_table.c\<close>. A function that uses the file system takes and returns it; the outer
  option is \<open>None\<close> where the C has no defined behaviour (a null or wild pointer) or does not
  return. Loops over a chain of clusters are partial functions, since a damaged table may hold
  a cycle; that they return on a sound table is proved below.
\<close>

subsection \<open>The sector buffers\<close>

definition fatfs_fat_init :: "nat \<Rightarrow> 'd fatfs \<Rightarrow> 'd fatfs" where
  "fatfs_fat_init buffers fs = fs\<lparr>fat_chain := replicate buffers
     \<lparr>fb_sector = replicate FAT_SECTOR_SIZE 0, fb_address = FAT32_INVALID_CLUSTER, fb_dirty = False,
      fb_ptr = None\<rparr>\<rparr>"

definition set_buffer :: "nat \<Rightarrow> fat_buffer \<Rightarrow> 'd fatfs \<Rightarrow> 'd fatfs" where
  "set_buffer k b fs = fs\<lparr>fat_chain := (fat_chain fs)[k := b]\<rparr>"

text \<open>
  The write-back of one buffer. The number of sectors is limited to the part of the buffer that
  belongs to the table.
\<close>

definition fatfs_fat_writeback :: "'d fatfs \<Rightarrow> nat option \<Rightarrow> (bool \<times> 'd fatfs) option" where
  "fatfs_fat_writeback fs pcur = (case pcur of
     None \<Rightarrow> Some (False, fs)
   | Some k \<Rightarrow> do {
       b \<leftarrow> peek (fat_chain fs) k;
       if fb_dirty b
       then (case write_media fs of
           Some wr \<Rightarrow>
             (let offset = fb_address b - fat_begin_lba fs;
                  cnt = (if offset + 1 \<le> fat_sectors fs then 1 else fat_sectors fs - offset)
              in if length (fb_sector b) < unat cnt * FAT_SECTOR_SIZE then None
                 else (case wr (fb_address b) (fb_sector b) cnt (medium fs) of
                   (ok, d) \<Rightarrow>
                     if ok then Some (True, set_buffer k (b\<lparr>fb_dirty := False\<rparr>) (fs\<lparr>medium := d\<rparr>))
                     else Some (False, fs\<lparr>medium := d\<rparr>)))
         | None \<Rightarrow> Some (True, set_buffer k (b\<lparr>fb_dirty := False\<rparr>) fs))
       else Some (True, fs) })"

text \<open>The search of the chain for a buffer that holds the sector.\<close>

fun chain_find :: "u32 \<Rightarrow> fat_buffer list \<Rightarrow> nat option" where
  "chain_find sector [] = None"
| "chain_find sector (b # bs) =
     (if sector \<ge> fb_address b \<and> sector < fb_address b + 1 then Some 0
      else map_option Suc (chain_find sector bs))"

definition fatfs_fat_read_sector :: "'d fatfs \<Rightarrow> u32 \<Rightarrow> (nat option \<times> 'd fatfs) option" where
  "fatfs_fat_read_sector fs sector = (case chain_find sector (fat_chain fs) of
     Some k \<Rightarrow>
       (let b = fat_chain fs ! k
        in Some (Some k, set_buffer k
             (b\<lparr>fb_ptr := Some (unat (sector - fb_address b) * FAT_SECTOR_SIZE)\<rparr>) fs))
   | None \<Rightarrow>
       if fat_chain fs = [] then None
       else do {
         let fs = fs\<lparr>fat_chain := last (fat_chain fs) # butlast (fat_chain fs)\<rparr>;
         (ok, fs) \<leftarrow> (if fb_dirty (hd (fat_chain fs)) then fatfs_fat_writeback fs (Some 0)
                     else Some (True, fs));
         if \<not> ok then Some (None, fs)
         else do {
           let b = hd (fat_chain fs);
           rd \<leftarrow> read_media fs;
           let (ok, buf, d) = rd sector (fb_sector b) 1 (medium fs);
           let b = b\<lparr>fb_address := sector, fb_sector := buf\<rparr>;
           let fs = fs\<lparr>medium := d\<rparr>;
           if \<not> ok then Some (None, set_buffer 0 (b\<lparr>fb_address := FAT32_INVALID_CLUSTER\<rparr>) fs)
           else Some (Some 0, set_buffer 0 (b\<lparr>fb_ptr := Some 0\<rparr>) fs) } })"

fun fat_purge_from :: "nat \<Rightarrow> nat \<Rightarrow> 'd fatfs \<Rightarrow> (bool \<times> 'd fatfs) option" where
  "fat_purge_from k 0 fs = Some (True, fs)"
| "fat_purge_from k (Suc n) fs = do {
     b \<leftarrow> peek (fat_chain fs) k;
     (ok, fs) \<leftarrow> (if fb_dirty b then fatfs_fat_writeback fs (Some k) else Some (True, fs));
     if \<not> ok then Some (False, fs) else fat_purge_from (Suc k) n fs }"

definition fatfs_fat_purge :: "'d fatfs \<Rightarrow> (bool \<times> 'd fatfs) option" where
  "fatfs_fat_purge fs = fat_purge_from 0 (length (fat_chain fs)) fs"

subsection \<open>Entries\<close>

text \<open>
  The sector of the table an entry is in, counted from its start, and the position of the entry
  in that sector. \<open>pbuf_get\<close> and \<open>pbuf_set\<close> are the macros \<open>FAT16_GET_16BIT_WORD\<close>,
  \<open>FAT32_GET_32BIT_WORD\<close> and their writing counterparts, on the buffer at index \<open>k\<close>.
\<close>

definition fat_sector_offset :: "'d fatfs \<Rightarrow> u32 \<Rightarrow> u32" where
  "fat_sector_offset fs c = (if fat_type fs = FAT_TYPE_16 then c div 256 else c div 128)"

definition fat_position :: "'d fatfs \<Rightarrow> u32 \<Rightarrow> u32" where
  "fat_position fs c =
     (if fat_type fs = FAT_TYPE_16 then (c - fat_sector_offset fs c * 256) * 2
      else (c - fat_sector_offset fs c * 128) * 4)"

definition pbuf_get :: "'d fatfs \<Rightarrow> nat \<Rightarrow> u16 \<Rightarrow> u32 option" where
  "pbuf_get fs k position = do {
     b \<leftarrow> peek (fat_chain fs) k;
     ptr \<leftarrow> fb_ptr b;
     if fat_type fs = FAT_TYPE_16 then GET_16BIT_WORD (fb_sector b) (ptr + unat position)
     else GET_32BIT_WORD (fb_sector b) (ptr + unat position) }"

definition pbuf_set32 :: "'d fatfs \<Rightarrow> nat \<Rightarrow> u16 \<Rightarrow> u32 \<Rightarrow> 'd fatfs option" where
  "pbuf_set32 fs k position val = do {
     b \<leftarrow> peek (fat_chain fs) k;
     ptr \<leftarrow> fb_ptr b;
     s \<leftarrow> SET_32BIT_WORD (fb_sector b) (ptr + unat position) val;
     Some (set_buffer k (b\<lparr>fb_sector := s, fb_dirty := True\<rparr>) fs) }"

definition pbuf_set16 :: "'d fatfs \<Rightarrow> nat \<Rightarrow> u16 \<Rightarrow> u16 \<Rightarrow> 'd fatfs option" where
  "pbuf_set16 fs k position val = do {
     b \<leftarrow> peek (fat_chain fs) k;
     ptr \<leftarrow> fb_ptr b;
     s \<leftarrow> SET_16BIT_WORD (fb_sector b) (ptr + unat position) val;
     Some (set_buffer k (b\<lparr>fb_sector := s, fb_dirty := True\<rparr>) fs) }"

definition fatfs_find_next_cluster :: "'d fatfs \<Rightarrow> u32 \<Rightarrow> (u32 \<times> 'd fatfs) option" where
  "fatfs_find_next_cluster fs current = do {
     let current = (if current = 0 then 2 else current);
     (pbuf, fs) \<leftarrow> fatfs_fat_read_sector fs (fat_begin_lba fs + fat_sector_offset fs current);
     case pbuf of
       None \<Rightarrow> Some (FAT32_LAST_CLUSTER, fs)
     | Some k \<Rightarrow> do {
         nextc \<leftarrow> pbuf_get fs k (ucast (fat_position fs current));
         if fat_type fs = FAT_TYPE_16
         then Some (if nextc \<ge> 0xFFF8 \<and> nextc \<le> 0xFFFF then FAT32_LAST_CLUSTER else nextc, fs)
         else do {
           let nextc = nextc AND 0x0FFFFFFF;
           Some (if nextc \<ge> 0x0FFFFFF8 \<and> nextc \<le> 0x0FFFFFFF then FAT32_LAST_CLUSTER else nextc, fs) } } }"

definition fatfs_set_fs_info_next_free_cluster :: "'d fatfs \<Rightarrow> u32 \<Rightarrow> 'd fatfs option" where
  "fatfs_set_fs_info_next_free_cluster fs newValue =
     (if fat_type fs = FAT_TYPE_16 then Some fs
      else do {
        (pbuf, fs) \<leftarrow> fatfs_fat_read_sector fs (lba_begin fs + ucast (fs_info_sector fs));
        case pbuf of
          None \<Rightarrow> Some fs
        | Some k \<Rightarrow> do {
            fs \<leftarrow> pbuf_set32 fs k 492 newValue;
            let fs = fs\<lparr>next_free_cluster := newValue\<rparr>;
            b \<leftarrow> peek (fat_chain fs) k;
            let fs = (case write_media fs of
                None \<Rightarrow> fs
              | Some wr \<Rightarrow> fs\<lparr>medium := snd (wr (fb_address b) (fb_sector b) 1 (medium fs))\<rparr>);
            Some (set_buffer k (b\<lparr>fb_address := FAT32_INVALID_CLUSTER, fb_dirty := False\<rparr>) fs) } })"

text \<open>The search for a free entry: \<open>None\<close> when the table has no more sectors or cannot be read.\<close>

partial_function (option) fatfs_find_blank_cluster ::
    "'d fatfs \<Rightarrow> u32 \<Rightarrow> (u32 option \<times> 'd fatfs) option" where
  "fatfs_find_blank_cluster fs current =
     (if fat_sector_offset fs current < fat_sectors fs
      then Option.bind (fatfs_fat_read_sector fs (fat_begin_lba fs + fat_sector_offset fs current))
        (\<lambda>(pbuf, fs). case pbuf of
          None \<Rightarrow> Some (None, fs)
        | Some k \<Rightarrow> Option.bind (pbuf_get fs k (ucast (fat_position fs current)))
            (\<lambda>nextc. let nextc = (if fat_type fs = FAT_TYPE_16 then nextc else nextc AND 0x0FFFFFFF)
              in if nextc \<noteq> 0 then fatfs_find_blank_cluster fs (current + 1)
                 else Some (Some current, fs)))
      else Some (None, fs))"

definition fatfs_fat_set_cluster :: "'d fatfs \<Rightarrow> u32 \<Rightarrow> u32 \<Rightarrow> (bool \<times> 'd fatfs) option" where
  "fatfs_fat_set_cluster fs cluster next_cluster = do {
     (pbuf, fs) \<leftarrow> fatfs_fat_read_sector fs (fat_begin_lba fs + fat_sector_offset fs cluster);
     case pbuf of
       None \<Rightarrow> Some (False, fs)
     | Some k \<Rightarrow> do {
         fs \<leftarrow> (if fat_type fs = FAT_TYPE_16
               then pbuf_set16 fs k (ucast (fat_position fs cluster)) (ucast next_cluster)
               else pbuf_set32 fs k (ucast (fat_position fs cluster)) next_cluster);
         Some (True, fs) } }"

partial_function (option) fatfs_free_cluster_chain ::
    "'d fatfs \<Rightarrow> u32 \<Rightarrow> (bool \<times> 'd fatfs) option" where
  "fatfs_free_cluster_chain fs next_cluster =
     (if next_cluster \<noteq> FAT32_LAST_CLUSTER \<and> next_cluster \<noteq> 0
      then Option.bind (fatfs_find_next_cluster fs next_cluster) (\<lambda>(n, fs).
        Option.bind (fatfs_fat_set_cluster fs next_cluster 0) (\<lambda>(ok, fs).
          fatfs_free_cluster_chain fs n))
      else Some (True, fs))"

text \<open>The walk to the last cluster of a chain; \<open>None\<close> where an entry of the chain is 0.\<close>

partial_function (option) fat_chain_end ::
    "'d fatfs \<Rightarrow> u32 \<Rightarrow> u32 \<Rightarrow> (u32 option \<times> 'd fatfs) option" where
  "fat_chain_end fs last_cluster next_cluster =
     (if next_cluster \<noteq> FAT32_LAST_CLUSTER
      then Option.bind (fatfs_find_next_cluster fs next_cluster) (\<lambda>(n, fs).
        if n = 0 then Some (None, fs) else fat_chain_end fs next_cluster n)
      else Some (Some last_cluster, fs))"

definition fatfs_fat_add_cluster_to_chain :: "'d fatfs \<Rightarrow> u32 \<Rightarrow> u32 \<Rightarrow> (bool \<times> 'd fatfs) option" where
  "fatfs_fat_add_cluster_to_chain fs start_cluster newEntry =
     (if start_cluster = FAT32_LAST_CLUSTER then Some (False, fs)
      else do {
        (last_cluster, fs) \<leftarrow> fat_chain_end fs FAT32_LAST_CLUSTER start_cluster;
        case last_cluster of
          None \<Rightarrow> Some (False, fs)
        | Some c \<Rightarrow> do {
            (ok, fs) \<leftarrow> fatfs_fat_set_cluster fs c newEntry;
            (ok, fs) \<leftarrow> fatfs_fat_set_cluster fs newEntry FAT32_LAST_CLUSTER;
            Some (True, fs) } })"

text \<open>Counting: the entries of one buffer, then the sectors of the table.\<close>

function count_entries :: "'d fatfs \<Rightarrow> nat \<Rightarrow> nat \<Rightarrow> u32 \<Rightarrow> u32 option" where
  "count_entries fs k j count =
     (if j < FAT_SECTOR_SIZE
      then do {
        v \<leftarrow> pbuf_get fs k (word_of_nat j);
        count_entries fs k (if fat_type fs = FAT_TYPE_16 then j + 2 else j + 4)
          (if v = 0 then count + 1 else count) }
      else Some count)"
  by pat_completeness auto
termination
  by (relation "measure (\<lambda>(fs, k, j, count). FAT_SECTOR_SIZE - j)") auto

declare count_entries.simps [simp del]

fun count_sectors :: "nat \<Rightarrow> 'd fatfs \<Rightarrow> u32 \<Rightarrow> u32 \<Rightarrow> (u32 \<times> 'd fatfs) option" where
  "count_sectors 0 fs i count = Some (count, fs)"
| "count_sectors (Suc n) fs i count = do {
     (pbuf, fs) \<leftarrow> fatfs_fat_read_sector fs (fat_begin_lba fs + i);
     case pbuf of
       None \<Rightarrow> Some (count, fs)
     | Some k \<Rightarrow> do {
         count \<leftarrow> count_entries fs k 0 count;
         count_sectors n fs (i + 1) count } }"

definition fatfs_count_free_clusters :: "'d fatfs \<Rightarrow> (u32 \<times> 'd fatfs) option" where
  "fatfs_count_free_clusters fs = count_sectors (unat (fat_sectors fs)) fs 0 0"

subsection \<open>What the buffer hides\<close>

text \<open>
  The view of the medium through the buffer: the buffered sector hides the one on the disk.
  \<open>fat_inv\<close> is the invariant of the configured library (one buffer): what is not dirty agrees
  with the disk, and what is dirty belongs to the table. \<open>fat_frame\<close> says that only the buffer
  and the medium changed.
\<close>

definition eff :: "('d \<Rightarrow> u32 \<Rightarrow> byte list) \<Rightarrow> 'd fatfs \<Rightarrow> u32 \<Rightarrow> byte list" where
  "eff disk fs s = (if fb_address (hd (fat_chain fs)) = s then fb_sector (hd (fat_chain fs))
     else disk (medium fs) s)"

definition fat_geometry :: "nat \<Rightarrow> 'd fatfs \<Rightarrow> bool" where
  "fat_geometry sectors fs \<longleftrightarrow> sectors < 2 ^ 32 \<and> unat (fat_begin_lba fs) + unat (fat_sectors fs) \<le> sectors"

definition fat_inv :: "'d diskio_read \<Rightarrow> 'd diskio_write \<Rightarrow> ('d \<Rightarrow> u32 \<Rightarrow> byte list) \<Rightarrow> nat
    \<Rightarrow> ('d \<Rightarrow> bool) \<Rightarrow> 'd fatfs \<Rightarrow> bool" where
  "fat_inv rd wr disk sectors valid fs \<longleftrightarrow>
     read_media fs = Some rd \<and> write_media fs = Some wr \<and> valid (medium fs) \<and> fat_geometry sectors fs
     \<and> (\<exists>b. fat_chain fs = [b] \<and> length (fb_sector b) = FAT_SECTOR_SIZE
         \<and> (if fb_dirty b then unat (fb_address b - fat_begin_lba fs) < unat (fat_sectors fs)
            else fb_address b \<noteq> FAT32_INVALID_CLUSTER \<longrightarrow>
              unat (fb_address b - fat_begin_lba fs) < unat (fat_sectors fs) \<and> fb_sector b = disk (medium fs) (fb_address b)))"

definition fat_frame :: "'d fatfs \<Rightarrow> 'd fatfs \<Rightarrow> bool" where
  "fat_frame fs fs' \<longleftrightarrow> (\<exists>c d. fs' = fs\<lparr>fat_chain := c, medium := d\<rparr>)"

lemma fat_frame_refl [simp]: "fat_frame fs fs"
  unfolding fat_frame_def by (intro exI [of _ "fat_chain fs"] exI [of _ "medium fs"]) simp

lemma fat_frame_trans: "fat_frame fs fs' \<Longrightarrow> fat_frame fs' fs'' \<Longrightarrow> fat_frame fs fs''"
  unfolding fat_frame_def by (elim exE, hypsubst, intro exI) simp

lemma fat_frame_intros [intro, simp]:
  "fat_frame fs (fs\<lparr>fat_chain := c\<rparr>)" "fat_frame fs (fs\<lparr>medium := d\<rparr>)"
  "fat_frame fs (fs\<lparr>medium := d, fat_chain := c\<rparr>)"
  unfolding fat_frame_def
  by (intro exI [of _ c] exI [of _ "medium fs"], simp, intro exI [of _ "fat_chain fs"] exI [of _ d], simp,
    intro exI [of _ c] exI [of _ d], simp)

lemma fat_frame_fields:
  assumes "fat_frame fs fs'"
  shows "sectors_per_cluster fs' = sectors_per_cluster fs" "cluster_begin_lba fs' = cluster_begin_lba fs"
    "rootdir_first_cluster fs' = rootdir_first_cluster fs" "rootdir_first_sector fs' = rootdir_first_sector fs"
    "rootdir_sectors fs' = rootdir_sectors fs" "fat_begin_lba fs' = fat_begin_lba fs"
    "lba_begin fs' = lba_begin fs" "fat_sectors fs' = fat_sectors fs" "fat_type fs' = fat_type fs"
    "root_entry_count fs' = root_entry_count fs" "next_free_cluster fs' = next_free_cluster fs"
    "currentsector fs' = currentsector fs" "read_media fs' = read_media fs" "write_media fs' = write_media fs"
    "fs_info_sector fs' = fs_info_sector fs"
  using assms by (auto simp: fat_frame_def)

text \<open>A buffer that is written back to, or reread from, its sector does not change the view.\<close>

definition same_view :: "('d \<Rightarrow> u32 \<Rightarrow> byte list) \<Rightarrow> nat \<Rightarrow> 'd fatfs \<Rightarrow> 'd fatfs \<Rightarrow> bool" where
  "same_view disk sectors fs fs' \<longleftrightarrow> (\<forall>t. unat t < sectors \<longrightarrow> eff disk fs' t = eff disk fs t)"

lemma same_view_refl [simp]: "same_view disk n fs fs"
  and same_view_trans: "same_view disk n fs fs' \<Longrightarrow> same_view disk n fs' fs'' \<Longrightarrow> same_view disk n fs fs''"
  by (simp_all add: same_view_def)

definition at_sector :: "('d \<Rightarrow> u32 \<Rightarrow> byte list) \<Rightarrow> 'd fatfs \<Rightarrow> u32 \<Rightarrow> bool" where
  "at_sector disk fs s \<longleftrightarrow> (\<exists>b. fat_chain fs = [b] \<and> fb_address b = s \<and> fb_ptr b = Some 0
     \<and> fb_sector b = eff disk fs s)"

text \<open>
  The entries as the view shows them. \<open>raw_entry\<close> is the number stored for a cluster and
  \<open>fat_next\<close> what it says about the next one. An entry belongs to the table when its sector does.
\<close>

definition entry_sector :: "'d fatfs \<Rightarrow> u32 \<Rightarrow> u32" where
  "entry_sector fs c = fat_begin_lba fs + fat_sector_offset fs c"

definition entry_in :: "'d fatfs \<Rightarrow> u32 \<Rightarrow> bool" where
  "entry_in fs c \<longleftrightarrow> fat_sector_offset fs c < fat_sectors fs"

definition entry_number :: "'d fatfs \<Rightarrow> byte list \<Rightarrow> u32 \<Rightarrow> u32" where
  "entry_number fs s c = the (if fat_type fs = FAT_TYPE_16 then GET_16BIT_WORD s (unat (fat_position fs c))
     else GET_32BIT_WORD s (unat (fat_position fs c)))"

definition raw_entry :: "('d \<Rightarrow> u32 \<Rightarrow> byte list) \<Rightarrow> 'd fatfs \<Rightarrow> u32 \<Rightarrow> u32" where
  "raw_entry disk fs c = entry_number fs (eff disk fs (entry_sector fs c)) c"

definition entry_next :: "'d fatfs \<Rightarrow> u32 \<Rightarrow> u32" where
  "entry_next fs v = (if fat_type fs = FAT_TYPE_16
     then (if v \<ge> 0xFFF8 \<and> v \<le> 0xFFFF then FAT32_LAST_CLUSTER else v)
     else (if v AND 0x0FFFFFFF \<ge> 0x0FFFFFF8 then FAT32_LAST_CLUSTER else v AND 0x0FFFFFFF))"

definition fat_next :: "('d \<Rightarrow> u32 \<Rightarrow> byte list) \<Rightarrow> 'd fatfs \<Rightarrow> u32 \<Rightarrow> u32" where
  "fat_next disk fs c = entry_next fs (raw_entry disk fs c)"

definition entry_value :: "'d fatfs \<Rightarrow> u32 \<Rightarrow> u32" where
  "entry_value fs v = (if fat_type fs = FAT_TYPE_16 then ucast (ucast v :: u16) else v)"

definition entry_width :: "'d fatfs \<Rightarrow> nat" where
  "entry_width fs = (if fat_type fs = FAT_TYPE_16 then 2 else 4)"

definition entries_per_sector :: "'d fatfs \<Rightarrow> nat" where
  "entries_per_sector fs = (if fat_type fs = FAT_TYPE_16 then 256 else 128)"

lemma fat_sector_offset_unat: "unat (fat_sector_offset fs c) = unat c div entries_per_sector fs"
  by (simp add: fat_sector_offset_def entries_per_sector_def unat_div)

lemma fat_position_unat: "unat (fat_position fs c) = unat c mod entries_per_sector fs * entry_width fs"
proof -
  have m: "c - c div n * n = c mod n" for n :: u32
    using div_mult_mod_eq [of c n] by (metis add_diff_cancel_left')
  have "unat (c mod 256 * 2) = unat c mod 256 * 2" "unat (c mod 128 * 4) = unat c mod 128 * 4"
    using unat_mult_lem [of "c mod 256" 2] unat_mult_lem [of "c mod 128" 4]
      less_trans [OF mod_less_divisor [of 256 "unat c"], of "2 ^ 31"]
      less_trans [OF mod_less_divisor [of 128 "unat c"], of "2 ^ 30"]
    by (simp_all add: unat_mod)
  then show ?thesis
    by (simp add: fat_position_def fat_sector_offset_def entries_per_sector_def entry_width_def m)
qed

lemma fat_position_bound: "unat (fat_position fs c) + entry_width fs \<le> FAT_SECTOR_SIZE"
proof -
  have "unat c mod 256 < 256" "unat c mod 128 < 128" by simp_all
  then have "unat c mod 256 \<le> 255" "unat c mod 128 \<le> 127" by linarith+
  then show ?thesis
    unfolding fat_position_unat by (auto simp: entries_per_sector_def entry_width_def)
qed

lemma fat_position_u16: "unat (ucast (fat_position fs c) :: u16) = unat (fat_position fs c)"
proof -
  have "unat (fat_position fs c) < 2 ^ 16"
    using fat_position_bound [of fs c] by simp
  then show ?thesis by (simp add: unsigned_ucast_eq take_bit_nat_eq_self)
qed

lemma fat_position_apart:
  assumes "c \<noteq> c'" "fat_sector_offset fs c = fat_sector_offset fs c'"
  shows "unat (fat_position fs c) + entry_width fs \<le> unat (fat_position fs c')
    \<or> unat (fat_position fs c') + entry_width fs \<le> unat (fat_position fs c)"
proof -
  let ?e = "entries_per_sector fs"
  have "unat c div ?e = unat c' div ?e"
    using assms(2) by (metis fat_sector_offset_unat)
  moreover have "unat c \<noteq> unat c'" using assms(1) by (simp add: word_unat_eq_iff)
  ultimately have "unat c mod ?e \<noteq> unat c' mod ?e"
    by (metis div_mult_mod_eq)
  then have "unat c mod ?e + 1 \<le> unat c' mod ?e \<or> unat c' mod ?e + 1 \<le> unat c mod ?e" by linarith
  then have "(unat c mod ?e + 1) * entry_width fs \<le> unat c' mod ?e * entry_width fs
      \<or> (unat c' mod ?e + 1) * entry_width fs \<le> unat c mod ?e * entry_width fs"
    by (meson mult_le_mono1)
  then show ?thesis by (simp add: fat_position_unat add.commute)
qed

lemma entry_sector_inj:
  "entry_sector fs c = entry_sector fs c' \<longleftrightarrow> fat_sector_offset fs c = fat_sector_offset fs c'"
  by (simp add: entry_sector_def)

lemma entry_frame:
  assumes "fat_frame fs fs'"
  shows "entry_sector fs' = entry_sector fs" "entry_in fs' = entry_in fs"
    "entry_number fs' = entry_number fs" "entry_next fs' = entry_next fs" "entry_value fs' = entry_value fs"
    "fat_position fs' = fat_position fs" "fat_sector_offset fs' = fat_sector_offset fs"
    "entries_per_sector fs' = entries_per_sector fs"
  using fat_frame_fields [OF assms]
  by (simp_all add: fun_eq_iff entry_sector_def entry_in_def entry_number_def entry_next_def
      entry_value_def fat_position_def fat_sector_offset_def entries_per_sector_def)

lemma entry_number_cong:
  assumes "mem_read (unat (fat_position fs c)) (entry_width fs) s
      = mem_read (unat (fat_position fs c)) (entry_width fs) s'"
    and "length s = FAT_SECTOR_SIZE" "length s' = FAT_SECTOR_SIZE"
  shows "entry_number fs s c = entry_number fs s' c"
proof -
  let ?p = "unat (fat_position fs c)"
  have b: "?p + entry_width fs \<le> FAT_SECTOR_SIZE" by (rule fat_position_bound)
  have "s ! (?p + i) = s' ! (?p + i)" if "i < entry_width fs" for i
    using arg_cong [OF assms(1), of "\<lambda>l. l ! i"] assms(2,3) b that by (simp add: nth_mem_read)
  from this [of 0] this [of 1] this [of 2] this [of 3] show ?thesis
    using assms(2,3) b
    by (auto simp: entry_number_def entry_width_def GET_16BIT_WORD_def GET_32BIT_WORD_def split: if_splits)
qed

lemma entry_number_set:
  assumes "length s = FAT_SECTOR_SIZE"
  shows "fat_type fs = FAT_TYPE_16 \<Longrightarrow>
      entry_number fs (mem_write (unat (fat_position fs c)) (le_bytes16 (ucast v)) s) c = entry_value fs v"
    and "fat_type fs = FAT_TYPE_32 \<Longrightarrow>
      entry_number fs (mem_write (unat (fat_position fs c)) (le_bytes32 v) s) c = entry_value fs v"
proof -
  let ?p = "unat (fat_position fs c)"
  have b: "?p + entry_width fs \<le> FAT_SECTOR_SIZE" by (rule fat_position_bound)
  have l: "length (le_bytes16 (ucast v)) = 2" "length (le_bytes32 v) = 4"
    by (simp_all add: le_bytes16_def le_bytes32_def)
  { assume t: "fat_type fs = FAT_TYPE_16"
    then have "mem_read ?p 2 (mem_write ?p (le_bytes16 (ucast v)) s) = le_bytes16 (ucast v)"
      using mem_read_write_same [of ?p "le_bytes16 (ucast v)" s] b l assms by (simp add: entry_width_def)
    then show "entry_number fs (mem_write ?p (le_bytes16 (ucast v)) s) c = entry_value fs v"
      using GET_16BIT_WORD_eq t b l assms by (simp add: entry_number_def entry_value_def entry_width_def) }
  { assume t: "fat_type fs = FAT_TYPE_32"
    then have "mem_read ?p 4 (mem_write ?p (le_bytes32 v) s) = le_bytes32 v"
      using mem_read_write_same [of ?p "le_bytes32 v" s] b l assms by (simp add: entry_width_def)
    then show "entry_number fs (mem_write ?p (le_bytes32 v) s) c = entry_value fs v"
      using GET_32BIT_WORD_eq t b l assms by (simp add: entry_number_def entry_value_def entry_width_def) }
qed

text \<open>The clusters of a chain, in order, when \<open>nx\<close> leads from each to the next.\<close>

fun cluster_chain :: "(u32 \<Rightarrow> u32) \<Rightarrow> u32 \<Rightarrow> u32 list \<Rightarrow> bool" where
  "cluster_chain nx c [] \<longleftrightarrow> c = FAT32_LAST_CLUSTER"
| "cluster_chain nx c (x # xs) \<longleftrightarrow> x = c \<and> c \<noteq> 0 \<and> c \<noteq> FAT32_LAST_CLUSTER \<and> cluster_chain nx (nx c) xs"

lemma cluster_chain_unique: "cluster_chain nx c xs \<Longrightarrow> cluster_chain nx c ys \<Longrightarrow> xs = ys"
proof (induction xs arbitrary: c ys)
  case Nil
  then show ?case by (cases ys) auto
next
  case (Cons x xs)
  then show ?case by (cases ys) auto
qed

lemma cluster_chain_suffix: "cluster_chain nx c (xs @ y # ys) \<Longrightarrow> cluster_chain nx y (y # ys)"
  by (induction xs arbitrary: c) auto

lemma cluster_chain_distinct: "cluster_chain nx c xs \<Longrightarrow> distinct xs"
proof (induction xs arbitrary: c)
  case (Cons x xs)
  have "x \<notin> set xs"
  proof
    assume "x \<in> set xs"
    then obtain us vs where "xs = us @ x # vs" by (meson split_list)
    then have "cluster_chain nx x (x # vs)" "cluster_chain nx x (x # us @ x # vs)"
      using Cons.prems cluster_chain_suffix [of nx c "x # us" x vs] by auto
    then show False using cluster_chain_unique by fastforce
  qed
  then show ?case using Cons by auto
qed simp

lemma cluster_chain_cong:
  "cluster_chain nx c xs \<Longrightarrow> (\<And>x. x \<in> set xs \<Longrightarrow> nx' x = nx x) \<Longrightarrow> cluster_chain nx' c xs"
  by (induction xs arbitrary: c) auto

lemma cluster_chain_append:
  "cluster_chain nx c (xs @ [l]) \<Longrightarrow> (\<And>x. x \<in> set xs \<Longrightarrow> nx' x = nx x) \<Longrightarrow> nx' l = d
    \<Longrightarrow> cluster_chain nx' d ys \<Longrightarrow> cluster_chain nx' c (xs @ l # ys)"
  by (induction xs arbitrary: c) auto

lemma cluster_chain_not_end: "cluster_chain nx c xs \<Longrightarrow> x \<in> set xs \<Longrightarrow> x \<noteq> 0 \<and> x \<noteq> FAT32_LAST_CLUSTER"
  by (induction xs arbitrary: c) auto

lemma entry_last [simp]: "entry_next fs (entry_value fs FAT32_LAST_CLUSTER) = FAT32_LAST_CLUSTER"
  by (simp add: entry_next_def entry_value_def)

lemma entry_next_0 [simp]: "entry_next fs (entry_value fs 0) = 0" "entry_value fs 0 = 0"
  by (simp_all add: entry_next_def entry_value_def)

lemma entry_next_eq_0:
  "entry_next fs v = 0 \<longleftrightarrow> (if fat_type fs = FAT_TYPE_16 then v else v AND 0x0FFFFFFF) = 0"
  by (auto simp: entry_next_def)

lemma entry_in_iff: "entry_in fs c \<longleftrightarrow> unat c < unat (fat_sectors fs) * entries_per_sector fs"
proof -
  have "0 < entries_per_sector fs" by (simp add: entries_per_sector_def)
  then show ?thesis
    by (simp add: entry_in_def word_less_nat_alt fat_sector_offset_unat div_less_iff_less_mult)
qed

text \<open>A medium that never fails.\<close>

definition device_ok :: "'d diskio_read \<Rightarrow> 'd diskio_write \<Rightarrow> nat \<Rightarrow> ('d \<Rightarrow> bool) \<Rightarrow> bool" where
  "device_ok rd wr sectors valid \<longleftrightarrow> (\<forall>d s buf. valid d \<longrightarrow> unat s < sectors \<longrightarrow> length buf = FAT_SECTOR_SIZE \<longrightarrow>
     fst (rd s buf 1 d) \<and> fst (wr s buf 1 d))"

context block_device
begin

abbreviation "finv \<equiv> fat_inv rd wr disk sectors valid"
abbreviation "vsame \<equiv> same_view disk sectors"

lemma fat_sector_range:
  assumes "finv fs" "unat (s - fat_begin_lba fs) < unat (fat_sectors fs)"
  shows "unat s < sectors" "s \<noteq> FAT32_INVALID_CLUSTER"
proof -
  let ?o = "s - fat_begin_lba fs"
  have g: "unat (fat_begin_lba fs) + unat (fat_sectors fs) \<le> sectors" "sectors < 2 ^ 32"
    using assms(1) by (auto simp: fat_inv_def fat_geometry_def)
  then have "unat (fat_begin_lba fs + ?o) = unat (fat_begin_lba fs) + unat ?o"
    using unat_add_lem [of "fat_begin_lba fs" ?o] assms(2) by simp
  then have "unat s = unat (fat_begin_lba fs) + unat ?o" by simp
  then show "unat s < sectors" using g assms(2) by linarith
  then show "s \<noteq> FAT32_INVALID_CLUSTER" using g(2) by auto
qed

lemma writeback_lemma:
  assumes i: "finv fs" and dirty: "fb_dirty (hd (fat_chain fs))"
  shows "\<exists>ok fs'. fatfs_fat_writeback fs (Some 0) = Some (ok, fs') \<and> finv fs' \<and> vsame fs fs'
    \<and> fat_frame fs fs' \<and> (ok \<longrightarrow> \<not> fb_dirty (hd (fat_chain fs'))) \<and> (device_ok rd wr sectors valid \<longrightarrow> ok)
    \<and> fb_address (hd (fat_chain fs')) = fb_address (hd (fat_chain fs))
    \<and> fb_sector (hd (fat_chain fs')) = fb_sector (hd (fat_chain fs))"
proof -
  obtain b where b: "fat_chain fs = [b]" "length (fb_sector b) = 512" "fb_dirty b"
    "unat (fb_address b - fat_begin_lba fs) < unat (fat_sectors fs)"
    using i dirty by (auto simp: fat_inv_def)
  let ?o = "fb_address b - fat_begin_lba fs"
  have r: "unat (fb_address b) < sectors" "fb_address b \<noteq> FAT32_INVALID_CLUSTER"
    using fat_sector_range [OF i b(4)] by simp_all
  have "unat (?o + 1) = unat ?o + 1"
    using unat_add_lem [of ?o 1] b(4) unat_u32_less [of "fat_sectors fs"] by simp
  then have cnt: "?o + 1 \<le> fat_sectors fs"
    using b(4) by (simp add: word_le_nat_alt)
  have v: "valid (medium fs)" "write_media fs = Some wr" using i by (auto simp: fat_inv_def)
  obtain d ok where w: "wr (fb_address b) (fb_sector b) 1 (medium fs) = (ok, d)" "valid d"
    "ok \<longrightarrow> disk d (fb_address b) = fb_sector b"
    "\<forall>t. unat t < sectors \<longrightarrow> t \<noteq> fb_address b \<longrightarrow> disk d t = disk (medium fs) t"
    using write_law [OF v(1) r(1) b(2)] by blast
  have okw: "ok" if "device_ok rd wr sectors valid"
    using that v(1) r(1) b(2) w(1) unfolding device_ok_def by fastforce
  show ?thesis
  proof (cases ok)
    case True
    then have "fatfs_fat_writeback fs (Some 0) = Some (True, set_buffer 0 (b\<lparr>fb_dirty := False\<rparr>) (fs\<lparr>medium := d\<rparr>))"
      using b v w cnt by (simp add: fatfs_fat_writeback_def Let_def)
    then show ?thesis
      using i b w r True
      by (auto simp: fat_inv_def fat_geometry_def set_buffer_def same_view_def eff_def)
  next
    case False
    then have "fatfs_fat_writeback fs (Some 0) = Some (False, fs\<lparr>medium := d\<rparr>)"
      using b v w cnt by (simp add: fatfs_fat_writeback_def Let_def)
    then show ?thesis
      using i b w r False okw
      by (auto simp: fat_inv_def fat_geometry_def same_view_def eff_def)
  qed
qed

lemma u32_less_Suc_iff: "s \<ge> a \<and> s < a + 1 \<longleftrightarrow> s = (a :: u32) \<and> a \<noteq> FAT32_INVALID_CLUSTER"
proof (cases "a = FAT32_INVALID_CLUSTER")
  case False
  then have "unat a + 1 < 2 ^ 32"
    using unat_u32_less [of a] word_unat_eq_iff [of a FAT32_INVALID_CLUSTER] by simp
  then have "unat (a + 1) = unat a + 1"
    using unat_add_lem [of a 1] by simp
  then show ?thesis
    using False by (auto simp: word_le_nat_alt word_less_nat_alt word_unat_eq_iff)
qed (auto simp: word_less_nat_alt)

lemma chain_find_one:
  assumes "s \<noteq> FAT32_INVALID_CLUSTER"
  shows "chain_find s [b] = (if fb_address b = s then Some 0 else None)"
  using assms u32_less_Suc_iff [of "fb_address b" s] by auto

text \<open>
  Reading a sector never changes the view, even when the medium fails; if it succeeds the
  buffer holds the sector.
\<close>

lemma read_sector_lemma:
  assumes i: "finv fs" and o: "unat (s - fat_begin_lba fs) < unat (fat_sectors fs)"
  shows "\<exists>r fs'. fatfs_fat_read_sector fs s = Some (r, fs') \<and> finv fs' \<and> vsame fs fs' \<and> fat_frame fs fs'
    \<and> (r = None \<or> r = Some 0 \<and> at_sector disk fs' s) \<and> (device_ok rd wr sectors valid \<longrightarrow> r = Some 0)"
proof -
  have s: "unat s < sectors" and sn: "s \<noteq> FAT32_INVALID_CLUSTER"
    using fat_sector_range [OF i o] by simp_all
  obtain b where b: "fat_chain fs = [b]" "length (fb_sector b) = 512"
    using i by (auto simp: fat_inv_def)
  show ?thesis
  proof (cases "fb_address b = s")
    case True
    then have "fatfs_fat_read_sector fs s = Some (Some 0, set_buffer 0 (b\<lparr>fb_ptr := Some 0\<rparr>) fs)"
      using b by (simp add: fatfs_fat_read_sector_def chain_find_one [OF sn] del: chain_find.simps)
    then show ?thesis
      using i b True by (auto simp: fat_inv_def set_buffer_def same_view_def eff_def at_sector_def fat_geometry_def)
  next
    case False
    have self: "fs\<lparr>fat_chain := last (fat_chain fs) # butlast (fat_chain fs)\<rparr> = fs" using b by simp
    obtain ok fs1 where wb: "(if fb_dirty (hd (fat_chain fs)) then fatfs_fat_writeback fs (Some 0)
        else Some (True, fs)) = Some (ok, fs1)" "finv fs1" "vsame fs fs1" "fat_frame fs fs1"
      "ok \<longrightarrow> \<not> fb_dirty (hd (fat_chain fs1))" "device_ok rd wr sectors valid \<longrightarrow> ok"
    proof (cases "fb_dirty b")
      case True
      then show thesis using that writeback_lemma [OF i] b by fastforce
    next
      case False
      then show thesis using that [of True fs] b i by simp
    qed
    have unf: "fatfs_fat_read_sector fs s = (if \<not> ok then Some (None, fs1)
        else do {
          let b = hd (fat_chain fs1);
          rd \<leftarrow> read_media fs1;
          let (ok, buf, d) = rd s (fb_sector b) 1 (medium fs1);
          let b = b\<lparr>fb_address := s, fb_sector := buf\<rparr>;
          let fs = fs1\<lparr>medium := d\<rparr>;
          if \<not> ok then Some (None, set_buffer 0 (b\<lparr>fb_address := FAT32_INVALID_CLUSTER\<rparr>) fs)
          else Some (Some 0, set_buffer 0 (b\<lparr>fb_ptr := Some 0\<rparr>) fs) })"
      using wb(1) b False sn unfolding fatfs_fat_read_sector_def self
      by (simp add: b chain_find_one [OF sn] del: chain_find.simps)
    show ?thesis
    proof (cases ok)
      case False
      then show ?thesis using unf wb by auto
    next
      case True
      obtain b1 where b1: "fat_chain fs1 = [b1]" "length (fb_sector b1) = 512" "\<not> fb_dirty b1"
        using wb(2,5) True by (auto simp: fat_inv_def)
      have v: "valid (medium fs1)" "read_media fs1 = Some rd" using wb(2) by (auto simp: fat_inv_def)
      obtain buf d ok2 where r: "rd s (fb_sector b1) 1 (medium fs1) = (ok2, buf, d)" "valid d" "length buf = 512"
        "ok2 \<longrightarrow> buf = disk (medium fs1) s" "\<forall>t. unat t < sectors \<longrightarrow> disk d t = disk (medium fs1) t"
        using read_law [OF v(1) s b1(2)] by blast
      have okr: "ok2" if "device_ok rd wr sectors valid"
        using that v(1) s b1(2) r(1) unfolding device_ok_def by fastforce
      let ?b = "b1\<lparr>fb_address := (if ok2 then s else FAT32_INVALID_CLUSTER), fb_sector := buf,
        fb_ptr := (if ok2 then Some 0 else fb_ptr b1)\<rparr>"
      let ?fs = "fs1\<lparr>fat_chain := [?b], medium := d\<rparr>"
      have res: "fatfs_fat_read_sector fs s = Some (if ok2 then Some 0 else None, ?fs)"
        unfolding unf using True b1 v r by (cases ok2) (simp_all add: set_buffer_def)
      have clean: "\<forall>t. unat t < sectors \<longrightarrow> eff disk fs1 t = disk (medium fs1) t"
        using wb(2) b1 by (auto simp: fat_inv_def fat_geometry_def eff_def)
      have nosec: "unat t < sectors \<Longrightarrow> t \<noteq> FAT32_INVALID_CLUSTER" for t :: u32
        using i by (auto simp: fat_inv_def fat_geometry_def)
      have "finv ?fs"
        using wb(2) b1 r o s fat_frame_fields(6,8) [OF wb(4)] by (auto simp: fat_inv_def fat_geometry_def)
      moreover have "vsame fs1 ?fs"
        using clean r nosec s unfolding same_view_def eff_def [of _ ?fs] by auto
      moreover have "fat_frame fs1 ?fs"
        unfolding fat_frame_def by (intro exI [of _ "[?b]"] exI [of _ d]) simp
      moreover have "ok2 \<longrightarrow> at_sector disk ?fs s"
        by (simp add: at_sector_def eff_def)
      ultimately show ?thesis
        using res wb(3,4) okr same_view_trans fat_frame_trans by (cases ok2) (auto intro!: exI)
    qed
  qed
qed

lemma eff_length:
  assumes "finv fs" "unat t < sectors"
  shows "length (eff disk fs t) = FAT_SECTOR_SIZE"
  using assms sector_length unfolding fat_inv_def eff_def by auto

lemma entry_in_sector:
  assumes "finv fs" "entry_in fs c"
  shows "unat (entry_sector fs c) < sectors" "entry_sector fs c \<noteq> FAT32_INVALID_CLUSTER"
    "unat (entry_sector fs c - fat_begin_lba fs) < unat (fat_sectors fs)"
proof -
  show o: "unat (entry_sector fs c - fat_begin_lba fs) < unat (fat_sectors fs)"
    using assms(2) by (simp add: entry_in_def entry_sector_def word_less_nat_alt)
  show "unat (entry_sector fs c) < sectors" "entry_sector fs c \<noteq> FAT32_INVALID_CLUSTER"
    using fat_sector_range [OF assms(1) o] by simp_all
qed

lemma raw_entry_same:
  assumes "finv fs" "fat_frame fs fs'" "vsame fs fs'" "entry_in fs c"
  shows "raw_entry disk fs' c = raw_entry disk fs c" "fat_next disk fs' c = fat_next disk fs c"
proof -
  show "raw_entry disk fs' c = raw_entry disk fs c"
    using assms(3) entry_in_sector [OF assms(1,4)] entry_frame [OF assms(2)]
    by (simp add: raw_entry_def same_view_def)
  then show "fat_next disk fs' c = fat_next disk fs c"
    using entry_frame [OF assms(2)] by (simp add: fat_next_def)
qed

text \<open>Reading and writing an entry once its sector is buffered.\<close>

lemma pbuf_get_entry:
  assumes i: "finv fs" and at: "at_sector disk fs (entry_sector fs c)"
  shows "pbuf_get fs 0 (ucast (fat_position fs c)) = Some (raw_entry disk fs c)"
proof -
  obtain b where b: "fat_chain fs = [b]" "fb_ptr b = Some 0" "fb_sector b = eff disk fs (entry_sector fs c)"
    using at by (auto simp: at_sector_def)
  moreover have "length (fb_sector b) = FAT_SECTOR_SIZE" using i b(1) by (auto simp: fat_inv_def)
  ultimately show ?thesis
    using fat_position_bound [of fs c]
    by (auto simp: pbuf_get_def raw_entry_def entry_number_def fat_position_u16 entry_width_def
        GET_16BIT_WORD_def GET_32BIT_WORD_def)
qed

text \<open>A write of bytes into the buffered sector of the table.\<close>

lemma buffer_write:
  assumes i: "finv fs" and at: "at_sector disk fs s" and b: "fat_chain fs = [b]"
    and s: "unat (s - fat_begin_lba fs) < unat (fat_sectors fs)"
    and l: "p + length bs \<le> FAT_SECTOR_SIZE"
  defines "fs' \<equiv> set_buffer 0 (b\<lparr>fb_sector := mem_write p bs (fb_sector b), fb_dirty := True\<rparr>) fs"
  shows "finv fs'" "fat_frame fs fs'" "eff disk fs' s = mem_write p bs (eff disk fs s)"
    "t \<noteq> s \<Longrightarrow> eff disk fs' t = eff disk fs t"
proof -
  have a: "fb_address b = s" "fb_sector b = eff disk fs s" "length (fb_sector b) = FAT_SECTOR_SIZE"
    using at b i by (auto simp: at_sector_def fat_inv_def)
  then show "finv fs'"
    using i s b l by (auto simp: fs'_def fat_inv_def set_buffer_def fat_geometry_def)
  show "fat_frame fs fs'" by (simp add: fs'_def set_buffer_def)
  show "eff disk fs' s = mem_write p bs (eff disk fs s)" "t \<noteq> s \<Longrightarrow> eff disk fs' t = eff disk fs t"
    using a b by (simp_all add: fs'_def set_buffer_def eff_def)
qed

lemma pbuf_set_entry:
  assumes i: "finv fs" and at: "at_sector disk fs (entry_sector fs c)" and c: "entry_in fs c"
  shows "\<exists>fs'. (if fat_type fs = FAT_TYPE_16 then pbuf_set16 fs 0 (ucast (fat_position fs c)) (ucast v)
      else pbuf_set32 fs 0 (ucast (fat_position fs c)) v) = Some fs' \<and> finv fs' \<and> fat_frame fs fs'
    \<and> (\<forall>x. entry_in fs x \<longrightarrow> raw_entry disk fs' x = (if x = c then entry_value fs v else raw_entry disk fs x))
    \<and> (\<forall>t. t \<noteq> entry_sector fs c \<longrightarrow> eff disk fs' t = eff disk fs t)"
proof -
  let ?s = "entry_sector fs c" and ?p = "unat (fat_position fs c)"
  let ?bs = "if fat_type fs = FAT_TYPE_16 then le_bytes16 (ucast v) else le_bytes32 v"
  obtain b where b: "fat_chain fs = [b]" "fb_ptr b = Some 0" "length (fb_sector b) = FAT_SECTOR_SIZE"
    using at i by (auto simp: at_sector_def fat_inv_def)
  let ?fs = "set_buffer 0 (b\<lparr>fb_sector := mem_write ?p ?bs (fb_sector b), fb_dirty := True\<rparr>) fs"
  have lb: "length ?bs = entry_width fs" by (simp add: entry_width_def le_bytes16_def le_bytes32_def)
  have p: "?p + entry_width fs \<le> FAT_SECTOR_SIZE" by (rule fat_position_bound)
  have res: "(if fat_type fs = FAT_TYPE_16 then pbuf_set16 fs 0 (ucast (fat_position fs c)) (ucast v)
      else pbuf_set32 fs 0 (ucast (fat_position fs c)) v) = Some ?fs"
    using b p by (simp add: pbuf_set16_def pbuf_set32_def fat_position_u16 SET_16BIT_WORD_eq
        SET_32BIT_WORD_eq entry_width_def split: if_splits)
  note w = buffer_write [OF i at b(1) entry_in_sector(3) [OF i c], of ?p ?bs, unfolded lb, OF p]
  have len: "length (eff disk fs ?s) = FAT_SECTOR_SIZE"
    using eff_length [OF i entry_in_sector(1) [OF i c]] .
  have "raw_entry disk ?fs x = (if x = c then entry_value fs v else raw_entry disk fs x)"
    if x: "entry_in fs x" for x
  proof (cases "x = c")
    case True
    then show ?thesis
      using w(2,3) entry_frame [OF w(2)] entry_number_set [OF len, of fs c v]
      by (cases "fat_type fs") (simp_all add: raw_entry_def)
  next
    case False
    show ?thesis
    proof (cases "entry_sector fs x = ?s")
      case True
      have "mem_read (unat (fat_position fs x)) (entry_width fs) (mem_write ?p ?bs (eff disk fs ?s))
          = mem_read (unat (fat_position fs x)) (entry_width fs) (eff disk fs ?s)"
        using fat_position_apart [OF \<open>x \<noteq> c\<close>, of fs] True fat_position_bound [of fs x] p lb len
        by (intro mem_read_write_other) (auto simp: entry_sector_inj)
      then have "entry_number fs (mem_write ?p ?bs (eff disk fs ?s)) x = entry_number fs (eff disk fs ?s) x"
        using len lb p by (intro entry_number_cong) (simp_all del: if_split)
      then show ?thesis
        using w(3) entry_frame [OF w(2)] True False by (simp add: raw_entry_def)
    next
      case False
      then show ?thesis
        using w(4) [of "entry_sector fs x"] entry_frame [OF w(2)] \<open>x \<noteq> c\<close> by (simp add: raw_entry_def)
    qed
  qed
  then show ?thesis using res w(1,2,4) by blast
qed

text \<open>
  The operations on one entry, on any medium: a failing read is taken for the end of the chain,
  and a failing write leaves every entry as it is.
\<close>

lemma read_entry_sector:
  assumes i: "finv fs" and c: "entry_in fs c"
  shows "\<exists>r fs'. fatfs_fat_read_sector fs (fat_begin_lba fs + fat_sector_offset fs c) = Some (r, fs')
    \<and> finv fs' \<and> fat_frame fs fs' \<and> vsame fs fs' \<and> (device_ok rd wr sectors valid \<longrightarrow> r = Some 0)
    \<and> (r = None \<or> r = Some 0 \<and> pbuf_get fs' 0 (ucast (fat_position fs' c)) = Some (raw_entry disk fs c)
        \<and> at_sector disk fs' (entry_sector fs' c))"
proof -
  obtain r fs' where r: "fatfs_fat_read_sector fs (fat_begin_lba fs + fat_sector_offset fs c) = Some (r, fs')"
    "finv fs'" "vsame fs fs'" "fat_frame fs fs'" "device_ok rd wr sectors valid \<longrightarrow> r = Some 0"
    "r = None \<or> r = Some 0 \<and> at_sector disk fs' (entry_sector fs c)"
    using read_sector_lemma [OF i entry_in_sector(3) [OF i c]] unfolding entry_sector_def by blast
  show ?thesis
  proof (cases r)
    case None
    then show ?thesis using r by auto
  next
    case (Some k)
    then have k: "r = Some 0" and at: "at_sector disk fs' (entry_sector fs' c)"
      using r(6) entry_frame [OF r(4)] by auto
    then show ?thesis
      using r(1-5) pbuf_get_entry [OF r(2) at] raw_entry_same [OF i r(4,3) c] by auto
  qed
qed

lemma find_next_lemma:
  assumes i: "finv fs" and c: "entry_in fs (if c = 0 then 2 else c)"
  shows "\<exists>n fs'. fatfs_find_next_cluster fs c = Some (n, fs') \<and> finv fs' \<and> fat_frame fs fs' \<and> vsame fs fs'
    \<and> (n = fat_next disk fs (if c = 0 then 2 else c) \<or> n = FAT32_LAST_CLUSTER \<and> \<not> device_ok rd wr sectors valid)"
proof -
  let ?c = "if c = 0 then 2 else c"
  obtain r fs' where r: "fatfs_fat_read_sector fs (fat_begin_lba fs + fat_sector_offset fs ?c) = Some (r, fs')"
    "finv fs'" "fat_frame fs fs'" "vsame fs fs'" "device_ok rd wr sectors valid \<longrightarrow> r = Some 0"
    "r = None \<or> r = Some 0 \<and> pbuf_get fs' 0 (ucast (fat_position fs' ?c)) = Some (raw_entry disk fs ?c)"
    using read_entry_sector [OF i c] by blast
  have le: "x AND 0x0FFFFFFF \<le> 0x0FFFFFFF" for x :: u32 by (rule word_and_le1)
  note fr = fat_frame_fields [OF r(3)] entry_frame [OF r(3)]
  show ?thesis
    using r fr le by (cases r)
      (auto simp: fatfs_find_next_cluster_def Let_def fat_next_def entry_next_def)
qed

lemma set_cluster_lemma:
  assumes i: "finv fs" and c: "entry_in fs c"
  shows "\<exists>ok fs'. fatfs_fat_set_cluster fs c v = Some (ok, fs') \<and> finv fs' \<and> fat_frame fs fs'
    \<and> (device_ok rd wr sectors valid \<longrightarrow> ok) \<and> (\<not> ok \<longrightarrow> vsame fs fs')
    \<and> (\<forall>x. entry_in fs x \<longrightarrow> raw_entry disk fs' x = (if ok \<and> x = c then entry_value fs v else raw_entry disk fs x))
    \<and> (\<forall>t. unat t < sectors \<longrightarrow> t \<noteq> entry_sector fs c \<longrightarrow> eff disk fs' t = eff disk fs t)"
proof -
  obtain r fs1 where r: "fatfs_fat_read_sector fs (fat_begin_lba fs + fat_sector_offset fs c) = Some (r, fs1)"
    "finv fs1" "fat_frame fs fs1" "vsame fs fs1" "device_ok rd wr sectors valid \<longrightarrow> r = Some 0"
    "r = None \<or> r = Some 0 \<and> at_sector disk fs1 (entry_sector fs1 c)"
    using read_entry_sector [OF i c] by blast
  note fr = fat_frame_fields [OF r(3)] entry_frame [OF r(3)]
  show ?thesis
  proof (cases r)
    case None
    then show ?thesis
      using r raw_entry_same [OF i r(3,4)] by (auto simp: fatfs_fat_set_cluster_def same_view_def)
  next
    case (Some k)
    then have k: "r = Some 0" "at_sector disk fs1 (entry_sector fs1 c)" using r(6) by auto
    obtain fs2 where w: "(if fat_type fs1 = FAT_TYPE_16 then pbuf_set16 fs1 0 (ucast (fat_position fs1 c)) (ucast v)
      else pbuf_set32 fs1 0 (ucast (fat_position fs1 c)) v) = Some fs2" "finv fs2" "fat_frame fs1 fs2"
      "\<forall>x. entry_in fs1 x \<longrightarrow> raw_entry disk fs2 x = (if x = c then entry_value fs1 v else raw_entry disk fs1 x)"
      "\<forall>t. t \<noteq> entry_sector fs1 c \<longrightarrow> eff disk fs2 t = eff disk fs1 t"
      using pbuf_set_entry [OF r(2) k(2), of v] c fr by auto
    have "fatfs_fat_set_cluster fs c v = Some (True, fs2)"
      using r(1) k w(1) by (simp add: fatfs_fat_set_cluster_def)
    then show ?thesis
      using w(2-) r(4) fat_frame_trans [OF r(3) w(3)] fr raw_entry_same [OF i r(3,4)]
      by (auto simp: same_view_def)
  qed
qed

text \<open>Operations on whole chains, on a medium that does not fail.\<close>

lemma free_chain_lemma:
  assumes ok: "device_ok rd wr sectors valid"
  shows "finv fs \<Longrightarrow> cluster_chain (fat_next disk fs) c xs \<Longrightarrow> (\<And>x. x \<in> set xs \<Longrightarrow> entry_in fs x) \<Longrightarrow>
    \<exists>fs'. fatfs_free_cluster_chain fs c = Some (True, fs') \<and> finv fs' \<and> fat_frame fs fs'
      \<and> (\<forall>x. entry_in fs x \<longrightarrow> raw_entry disk fs' x = (if x \<in> set xs then 0 else raw_entry disk fs x))
      \<and> (\<forall>t. unat t < sectors \<longrightarrow> t \<notin> entry_sector fs ` set xs \<longrightarrow> eff disk fs' t = eff disk fs t)"
proof (induction xs arbitrary: fs c)
  case Nil
  then show ?case by (subst fatfs_free_cluster_chain.simps) auto
next
  case (Cons x xs)
  have x: "x = c" "c \<noteq> 0" "c \<noteq> FAT32_LAST_CLUSTER" "cluster_chain (fat_next disk fs) (fat_next disk fs c) xs"
    "c \<notin> set xs" "entry_in fs c"
    using Cons.prems cluster_chain_distinct [OF Cons.prems(2)] by auto
  obtain fs1 where f1: "fatfs_find_next_cluster fs c = Some (fat_next disk fs c, fs1)"
    "finv fs1" "fat_frame fs fs1" "vsame fs fs1"
    using find_next_lemma [OF Cons.prems(1), of c] x ok by auto
  note e1 = entry_frame [OF f1(3)] and r1 = raw_entry_same [OF Cons.prems(1) f1(3,4)]
  obtain ok2 fs2 where f2: "fatfs_fat_set_cluster fs1 c 0 = Some (ok2, fs2)" "finv fs2" "fat_frame fs1 fs2" "ok2"
    "\<forall>y. entry_in fs1 y \<longrightarrow> raw_entry disk fs2 y = (if ok2 \<and> y = c then entry_value fs1 0 else raw_entry disk fs1 y)"
    "\<forall>t. unat t < sectors \<longrightarrow> t \<noteq> entry_sector fs1 c \<longrightarrow> eff disk fs2 t = eff disk fs1 t"
    using set_cluster_lemma [OF f1(2), of c 0] x(6) e1 ok by auto
  note e2 = entry_frame [OF f2(3)]
  have next2: "fat_next disk fs2 y = fat_next disk fs y" if "y \<in> set xs" for y
    using that x(5) Cons.prems(3) f2(5) r1 e1 e2 by (auto simp: fat_next_def)
  obtain fs3 where f3: "fatfs_free_cluster_chain fs2 (fat_next disk fs c) = Some (True, fs3)" "finv fs3"
    "fat_frame fs2 fs3"
    "\<forall>y. entry_in fs2 y \<longrightarrow> raw_entry disk fs3 y = (if y \<in> set xs then 0 else raw_entry disk fs2 y)"
    "\<forall>t. unat t < sectors \<longrightarrow> t \<notin> entry_sector fs2 ` set xs \<longrightarrow> eff disk fs3 t = eff disk fs2 t"
    using Cons.IH [OF f2(2) cluster_chain_cong [OF x(4) next2]] Cons.prems(3) e1 e2 by auto
  have "fatfs_free_cluster_chain fs c = Some (True, fs3)"
    by (subst fatfs_free_cluster_chain.simps) (simp add: x f1(1) f2(1) f3(1))
  moreover have "fat_frame fs fs3"
    using f1(3) f2(3) f3(3) fat_frame_trans by blast
  ultimately show ?case
    using f3(2,4,5) f2(4,5,6) r1 e1 e2 x(1) f1(4) by (auto simp: same_view_def)
qed

lemma chain_end_lemma:
  assumes ok: "device_ok rd wr sectors valid"
  shows "finv fs \<Longrightarrow> cluster_chain (fat_next disk fs) c xs \<Longrightarrow> (\<And>x. x \<in> set xs \<Longrightarrow> entry_in fs x) \<Longrightarrow>
    xs \<noteq> [] \<or> l \<noteq> 0 \<Longrightarrow>
    \<exists>fs'. fat_chain_end fs l c = Some (Some (if xs = [] then l else last xs), fs') \<and> finv fs'
      \<and> fat_frame fs fs' \<and> vsame fs fs'"
proof (induction xs arbitrary: fs c l)
  case Nil
  then show ?case by (subst fat_chain_end.simps) auto
next
  case (Cons x xs)
  have x: "x = c" "c \<noteq> 0" "c \<noteq> FAT32_LAST_CLUSTER" "cluster_chain (fat_next disk fs) (fat_next disk fs c) xs"
    "entry_in fs c"
    using Cons.prems by auto
  then have n0: "fat_next disk fs c \<noteq> 0" by (cases xs) auto
  obtain fs1 where f1: "fatfs_find_next_cluster fs c = Some (fat_next disk fs c, fs1)"
    "finv fs1" "fat_frame fs fs1" "vsame fs fs1"
    using find_next_lemma [OF Cons.prems(1), of c] x ok by auto
  note e1 = entry_frame [OF f1(3)] and r1 = raw_entry_same [OF Cons.prems(1) f1(3,4)]
  have next1: "fat_next disk fs1 y = fat_next disk fs y" if "y \<in> set xs" for y
    using that Cons.prems(3) r1 by auto
  obtain fs2 where f2: "fat_chain_end fs1 c (fat_next disk fs c) = Some (Some (if xs = [] then c else last xs), fs2)"
    "finv fs2" "fat_frame fs1 fs2" "vsame fs1 fs2"
    using Cons.IH [OF f1(2) cluster_chain_cong [OF x(4) next1], of c] Cons.prems(3) e1 x(2) by auto
  have "fat_chain_end fs l c = Some (Some (last (x # xs)), fs2)"
    by (subst fat_chain_end.simps) (simp add: x f1(1) f2(1) n0)
  then show ?case
    using f2 fat_frame_trans [OF f1(3) f2(3)] same_view_trans [OF f1(4) f2(4)] by auto
qed

lemma add_cluster_lemma:
  assumes ok: "device_ok rd wr sectors valid" and i: "finv fs"
    and ch: "cluster_chain (fat_next disk fs) c xs" "xs \<noteq> []" and xs: "\<And>x. x \<in> set xs \<Longrightarrow> entry_in fs x"
    and new: "entry_in fs n" "n \<notin> set xs" "n \<noteq> 0" "n \<noteq> FAT32_LAST_CLUSTER" "entry_next fs (entry_value fs n) = n"
  shows "\<exists>fs'. fatfs_fat_add_cluster_to_chain fs c n = Some (True, fs') \<and> finv fs' \<and> fat_frame fs fs'
    \<and> cluster_chain (fat_next disk fs') c (xs @ [n])
    \<and> (\<forall>x. entry_in fs x \<longrightarrow> x \<noteq> last xs \<longrightarrow> x \<noteq> n \<longrightarrow> raw_entry disk fs' x = raw_entry disk fs x)
    \<and> (\<forall>t. unat t < sectors \<longrightarrow> t \<noteq> entry_sector fs (last xs) \<longrightarrow> t \<noteq> entry_sector fs n
        \<longrightarrow> eff disk fs' t = eff disk fs t)"
proof -
  obtain ys where ys: "xs = ys @ [last xs]" using ch(2) by (metis append_butlast_last_id)
  have l: "entry_in fs (last xs)" "last xs \<noteq> n" "last xs \<notin> set ys"
    using xs ch new(2) ys cluster_chain_distinct [OF ch(1)] by (auto simp: distinct_append)
      (metis distinct_append distinct.simps(2) list.set_intros(1) disjoint_iff list.simps(15))
  obtain fs1 where f1: "fat_chain_end fs FAT32_LAST_CLUSTER c = Some (Some (last xs), fs1)" "finv fs1"
      "fat_frame fs fs1" "vsame fs fs1"
    using chain_end_lemma [OF ok i ch(1) xs, of FAT32_LAST_CLUSTER] ch(2) by auto
  note e1 = entry_frame [OF f1(3)] and r1 = raw_entry_same [OF i f1(3,4)]
  obtain fs2 where f2: "fatfs_fat_set_cluster fs1 (last xs) n = Some (True, fs2)" "finv fs2" "fat_frame fs1 fs2"
    "\<forall>y. entry_in fs1 y \<longrightarrow> raw_entry disk fs2 y = (if y = last xs then entry_value fs1 n else raw_entry disk fs1 y)"
    "\<forall>t. unat t < sectors \<longrightarrow> t \<noteq> entry_sector fs1 (last xs) \<longrightarrow> eff disk fs2 t = eff disk fs1 t"
    using set_cluster_lemma [OF f1(2), of "last xs" n] l(1) e1 ok by fastforce
  note e2 = entry_frame [OF f2(3)]
  obtain fs3 where f3: "fatfs_fat_set_cluster fs2 n FAT32_LAST_CLUSTER = Some (True, fs3)" "finv fs3" "fat_frame fs2 fs3"
    "\<forall>y. entry_in fs2 y \<longrightarrow> raw_entry disk fs3 y = (if y = n then entry_value fs2 FAT32_LAST_CLUSTER else raw_entry disk fs2 y)"
    "\<forall>t. unat t < sectors \<longrightarrow> t \<noteq> entry_sector fs2 n \<longrightarrow> eff disk fs3 t = eff disk fs2 t"
    using set_cluster_lemma [OF f2(2), of n FAT32_LAST_CLUSTER] new(1) e1 e2 ok by fastforce
  note e3 = entry_frame [OF f3(3)]
  have "c \<noteq> FAT32_LAST_CLUSTER" using ch by (cases xs) auto
  then have res: "fatfs_fat_add_cluster_to_chain fs c n = Some (True, fs3)"
    by (simp add: fatfs_fat_add_cluster_to_chain_def f1(1) f2(1) f3(1))
  have raw: "raw_entry disk fs3 y = (if y = n then entry_value fs FAT32_LAST_CLUSTER
      else if y = last xs then entry_value fs n else raw_entry disk fs y)" if "entry_in fs y" for y
    using that f3(4) f2(4) r1 e1 e2 e3 by auto
  have nx: "fat_next disk fs3 y = (if y = n then FAT32_LAST_CLUSTER
      else if y = last xs then n else fat_next disk fs y)" if "entry_in fs y" for y
    using raw [OF that] e1 e2 e3 new(5) by (auto simp: fat_next_def)
  have "cluster_chain (fat_next disk fs3) c (ys @ last xs # [n])"
  proof (rule cluster_chain_append)
    show "cluster_chain (fat_next disk fs) c (ys @ [last xs])" using ch(1) ys by simp
    show "fat_next disk fs3 y = fat_next disk fs y" if "y \<in> set ys" for y
    proof -
      have "y \<in> set xs" using that ys by (metis Un_iff set_append)
      then show ?thesis using nx xs new(2) l(3) that by auto
    qed
    show "fat_next disk fs3 (last xs) = n" using nx l by auto
    show "cluster_chain (fat_next disk fs3) n [n]" using nx new by auto
  qed
  then have "cluster_chain (fat_next disk fs3) c (xs @ [n])" using ys
    by (metis append.assoc append_Cons append_Nil)
  moreover have "fat_frame fs fs3"
    using f1(3) f2(3) f3(3) fat_frame_trans by blast
  ultimately show ?thesis
    using res f3(2,5) f2(5) raw f1(4) e1 e2 by (auto simp: same_view_def)
qed

text \<open>The search for a free cluster, as long as the numbers of the table's entries fit 32 bits.\<close>

lemma find_blank_lemma:
  assumes ok: "device_ok rd wr sectors valid"
  shows "finv fs \<Longrightarrow> unat (fat_sectors fs) < 2 ^ 24 \<Longrightarrow> unat (fat_sectors fs) * entries_per_sector fs \<le> unat c + k \<Longrightarrow>
    \<exists>r fs'. fatfs_find_blank_cluster fs c = Some (r, fs') \<and> finv fs' \<and> fat_frame fs fs' \<and> vsame fs fs'
      \<and> (case r of
           Some x \<Rightarrow> c \<le> x \<and> entry_in fs x \<and> fat_next disk fs x = 0 \<and> (\<forall>y. c \<le> y \<longrightarrow> y < x \<longrightarrow> fat_next disk fs y \<noteq> 0)
         | None \<Rightarrow> \<forall>y. c \<le> y \<longrightarrow> entry_in fs y \<longrightarrow> fat_next disk fs y \<noteq> 0)"
proof (induction k arbitrary: fs c)
  case 0
  then have "\<not> entry_in fs y" if "c \<le> y" for y
    using that by (auto simp: entry_in_iff word_le_nat_alt)
  then show ?case
    using 0 by (subst fatfs_find_blank_cluster.simps) (simp add: entry_in_def)
next
  case (Suc k)
  show ?case
  proof (cases "entry_in fs c")
    case False
    then have "\<not> entry_in fs y" if "c \<le> y" for y
      using that by (auto simp: entry_in_iff word_le_nat_alt)
    then show ?thesis
      using Suc False by (subst fatfs_find_blank_cluster.simps) (simp add: entry_in_def)
  next
    case True
    obtain fs1 where f1: "fatfs_fat_read_sector fs (fat_begin_lba fs + fat_sector_offset fs c) = Some (Some 0, fs1)"
      "finv fs1" "fat_frame fs fs1" "vsame fs fs1"
      "pbuf_get fs1 0 (ucast (fat_position fs1 c)) = Some (raw_entry disk fs c)"
      using read_entry_sector [OF Suc.prems(1) True] ok by fastforce
    note e1 = entry_frame [OF f1(3)] fat_frame_fields [OF f1(3)]
      and r1 = raw_entry_same [OF Suc.prems(1) f1(3,4)]
    have step: "fatfs_find_blank_cluster fs c = (if fat_next disk fs c \<noteq> 0
        then fatfs_find_blank_cluster fs1 (c + 1) else Some (Some c, fs1))"
      using True f1(1,5) e1
      by (subst fatfs_find_blank_cluster.simps)
        (simp add: entry_in_def Let_def fat_next_def entry_next_eq_0)
    show ?thesis
    proof (cases "fat_next disk fs c = 0")
      case True
      then show ?thesis using step f1(2-4) \<open>entry_in fs c\<close> by (auto simp: not_less [symmetric])
    next
      case False
      have lt: "unat c < unat (fat_sectors fs) * entries_per_sector fs" using True by (simp add: entry_in_iff)
      moreover have "unat (fat_sectors fs) * entries_per_sector fs < 2 ^ 32"
        using Suc.prems(2) by (auto simp: entries_per_sector_def)
      ultimately have c1: "unat (c + 1) = unat c + 1" using unat_add_lem [of c 1] by simp
      have above: "c \<le> y \<longleftrightarrow> y = c \<or> c + 1 \<le> y" for y
        using c1 by (auto simp: word_le_nat_alt word_unat_eq_iff)
      obtain r fs2 where f2: "fatfs_find_blank_cluster fs1 (c + 1) = Some (r, fs2)" "finv fs2"
        "fat_frame fs1 fs2" "vsame fs1 fs2"
        "case r of
           Some x \<Rightarrow> c + 1 \<le> x \<and> entry_in fs1 x \<and> fat_next disk fs1 x = 0
             \<and> (\<forall>y. c + 1 \<le> y \<longrightarrow> y < x \<longrightarrow> fat_next disk fs1 y \<noteq> 0)
         | None \<Rightarrow> \<forall>y. c + 1 \<le> y \<longrightarrow> entry_in fs1 y \<longrightarrow> fat_next disk fs1 y \<noteq> 0"
        using Suc.IH [OF f1(2), of "c + 1"] Suc.prems(2,3) e1 c1 by auto
      have less: "entry_in fs y" if "y < x" "entry_in fs x" for x y
        using that by (simp add: entry_in_iff word_less_nat_alt)
      have "case r of
           Some x \<Rightarrow> c \<le> x \<and> entry_in fs x \<and> fat_next disk fs x = 0 \<and> (\<forall>y. c \<le> y \<longrightarrow> y < x \<longrightarrow> fat_next disk fs y \<noteq> 0)
         | None \<Rightarrow> \<forall>y. c \<le> y \<longrightarrow> entry_in fs y \<longrightarrow> fat_next disk fs y \<noteq> 0"
      proof (cases r)
        case None
        then show ?thesis using f2(5) False above e1 r1 by auto
      next
        case (Some x)
        then have x: "c + 1 \<le> x" "entry_in fs x" "fat_next disk fs x = 0"
          "\<forall>y. c + 1 \<le> y \<longrightarrow> y < x \<longrightarrow> fat_next disk fs1 y \<noteq> 0" using f2(5) e1 r1 by auto
        have "fat_next disk fs y \<noteq> 0" if "c \<le> y" "y < x" for y
          using x(4) less [OF that(2) x(2)] r1(2) False above [of y] that by auto
        then show ?thesis using Some x above [of x] by simp
      qed
      then show ?thesis
        using step False f2(1,2) fat_frame_trans [OF f1(3) f2(3)] same_view_trans [OF f1(4) f2(4)] by auto
    qed
  qed
qed

text \<open>Flushing the buffer, and counting.\<close>

lemma clean_view:
  assumes "finv fs" "\<not> fb_dirty (hd (fat_chain fs))" "unat t < sectors"
  shows "eff disk fs t = disk (medium fs) t"
  using assms by (auto simp: fat_inv_def fat_geometry_def eff_def)

lemma purge_lemma:
  assumes i: "finv fs"
  shows "\<exists>ok fs'. fatfs_fat_purge fs = Some (ok, fs') \<and> finv fs' \<and> fat_frame fs fs' \<and> vsame fs fs'
    \<and> (device_ok rd wr sectors valid \<longrightarrow> ok)
    \<and> (ok \<longrightarrow> (\<forall>t. unat t < sectors \<longrightarrow> disk (medium fs') t = eff disk fs t))"
proof -
  obtain b where b: "fat_chain fs = [b]" using i by (auto simp: fat_inv_def)
  show ?thesis
  proof (cases "fb_dirty b")
    case True
    then obtain ok fs' where w: "fatfs_fat_writeback fs (Some 0) = Some (ok, fs')" "finv fs'" "vsame fs fs'"
      "fat_frame fs fs'" "ok \<longrightarrow> \<not> fb_dirty (hd (fat_chain fs'))" "device_ok rd wr sectors valid \<longrightarrow> ok"
      using writeback_lemma [OF i] b by auto
    have "fatfs_fat_purge fs = Some (ok, fs')"
      using b True w(1) by (simp add: fatfs_fat_purge_def)
    then show ?thesis using w clean_view [OF w(2)] by (auto simp: same_view_def)
  next
    case False
    then have "fatfs_fat_purge fs = Some (True, fs)" using b by (simp add: fatfs_fat_purge_def)
    then show ?thesis using i clean_view [OF i] b False by (auto simp: same_view_def)
  qed
qed

lemma count_entries_lemma:
  assumes i: "finv fs" and at: "at_sector disk fs (fat_begin_lba fs + q)"
    and q: "q < fat_sectors fs" "unat q < 2 ^ 24"
  shows "j \<le> entries_per_sector fs \<Longrightarrow> count_entries fs 0 (j * entry_width fs) cnt
    = Some (cnt + word_of_nat (length (filter
        (\<lambda>c. raw_entry disk fs (word_of_nat c) = 0)
        [unat q * entries_per_sector fs + j..<unat q * entries_per_sector fs + entries_per_sector fs])))"
proof (induction "entries_per_sector fs - j" arbitrary: j cnt)
  case 0
  then show ?case
    by (subst count_entries.simps) (auto simp: entries_per_sector_def entry_width_def)
next
  case (Suc n)
  let ?e = "entries_per_sector fs"
  let ?c = "word_of_nat (unat q * ?e + j) :: u32"
  have j: "j < ?e" using Suc.hyps(2) by linarith
  have e: "0 < ?e" "?e \<le> 256" by (simp_all add: entries_per_sector_def)
  have "unat q * ?e + j < (unat q + 1) * ?e" using j by simp
  also have "\<dots> \<le> 2 ^ 24 * 256" using q(2) e(2) by (intro mult_le_mono) auto
  finally have u: "unat ?c = unat q * ?e + j" by (intro unat_word_of_nat) simp
  have off: "fat_sector_offset fs ?c = q"
    by (rule word_unat_eq_iff [THEN iffD2]) (use u j e in \<open>simp add: fat_sector_offset_unat\<close>)
  have pos: "unat (fat_position fs ?c) = j * entry_width fs"
    using j by (simp only: fat_position_unat u) simp
  have lt: "j * entry_width fs < FAT_SECTOR_SIZE"
    using j by (auto simp: entries_per_sector_def entry_width_def split: if_splits)
  have idx: "(word_of_nat (j * entry_width fs) :: u16) = ucast (fat_position fs ?c)"
  proof (rule word_unat_eq_iff [THEN iffD2])
    have "unat (word_of_nat (j * entry_width fs) :: u16) = j * entry_width fs"
      using lt by (intro unat_word_of_nat) simp
    then show "unat (word_of_nat (j * entry_width fs) :: u16) = unat (ucast (fat_position fs ?c) :: u16)"
      by (simp only: fat_position_u16 pos)
  qed
  have get: "pbuf_get fs 0 (word_of_nat (j * entry_width fs)) = Some (raw_entry disk fs ?c)"
    unfolding idx using pbuf_get_entry [OF i] at off by (simp add: entry_sector_def)
  have nxt: "(if fat_type fs = FAT_TYPE_16 then j * entry_width fs + 2 else j * entry_width fs + 4)
      = Suc j * entry_width fs"
    by (simp add: entry_width_def)
  have upt: "[unat q * ?e + j..<unat q * ?e + ?e]
      = (unat q * ?e + j) # [unat q * ?e + Suc j..<unat q * ?e + ?e]"
    using j by (simp add: upt_conv_Cons)
  have IH: "count_entries fs 0 (Suc j * entry_width fs) c' = Some (c' + word_of_nat (length (filter
        (\<lambda>c. raw_entry disk fs (word_of_nat c) = 0) [unat q * ?e + Suc j..<unat q * ?e + ?e])))" for c'
    using Suc.hyps j by (intro Suc.hyps(1)) auto
  show ?case
    unfolding upt
    by (subst count_entries.simps) (simp add: lt get nxt IH del: mult_Suc of_nat_mult of_nat_add)
qed

lemma count_sectors_lemma:
  assumes ok: "device_ok rd wr sectors valid"
  shows "finv fs \<Longrightarrow> unat (fat_sectors fs) < 2 ^ 24 \<Longrightarrow> unat q + n \<le> unat (fat_sectors fs) \<Longrightarrow>
    \<exists>fs'. count_sectors n fs q cnt = Some (cnt + word_of_nat (length (filter
        (\<lambda>c. raw_entry disk fs (word_of_nat c) = 0)
        [unat q * entries_per_sector fs..<(unat q + n) * entries_per_sector fs])), fs')
      \<and> finv fs' \<and> fat_frame fs fs' \<and> vsame fs fs'"
proof (induction n arbitrary: fs q cnt)
  case 0
  then show ?case by simp
next
  case (Suc n)
  let ?e = "entries_per_sector fs"
  let ?zero = "\<lambda>c. raw_entry disk fs (word_of_nat c) = 0"
  have q: "q < fat_sectors fs" "unat q < 2 ^ 24" using Suc.prems by (simp_all add: word_less_nat_alt)
  have e: "0 < ?e" "?e \<le> 256" by (simp_all add: entries_per_sector_def)
  obtain fs1 where f1: "fatfs_fat_read_sector fs (fat_begin_lba fs + q) = Some (Some 0, fs1)"
    "finv fs1" "fat_frame fs fs1" "vsame fs fs1" "at_sector disk fs1 (fat_begin_lba fs + q)"
  proof -
    have "unat (fat_begin_lba fs + q - fat_begin_lba fs) < unat (fat_sectors fs)"
      using q(1) by (simp add: word_less_nat_alt)
    then show thesis using read_sector_lemma [OF Suc.prems(1)] ok that by blast
  qed
  note e1 = entry_frame [OF f1(3)] fat_frame_fields [OF f1(3)]
    and r1 = raw_entry_same [OF Suc.prems(1) f1(3,4)]
  have raw: "raw_entry disk fs1 (word_of_nat c) = raw_entry disk fs (word_of_nat c)"
    if "c < unat (fat_sectors fs) * ?e" for c
  proof -
    have "unat (fat_sectors fs) * ?e < 2 ^ 24 * 256"
      using Suc.prems(2) e by (intro le_less_trans [OF mult_le_mono2 [OF e(2)]]) simp
    then have "unat (word_of_nat c :: u32) = c" using that by (intro unat_word_of_nat) simp
    then have "entry_in fs (word_of_nat c)" using that by (simp add: entry_in_iff)
    then show ?thesis by (rule r1)
  qed
  have end1: "(unat q + 1) * ?e \<le> unat (fat_sectors fs) * ?e" "(unat q + Suc n) * ?e \<le> unat (fat_sectors fs) * ?e"
    using Suc.prems(3) by (intro mult_le_mono1; simp)+
  have c1: "count_entries fs1 0 0 cnt = Some (cnt + word_of_nat (length (filter ?zero [unat q * ?e..<unat q * ?e + ?e])))"
  proof -
    have "filter (\<lambda>c. raw_entry disk fs1 (word_of_nat c) = 0) [unat q * ?e..<unat q * ?e + ?e]
        = filter ?zero [unat q * ?e..<unat q * ?e + ?e]"
      using end1(1) by (intro filter_cong) (auto simp: raw)
    then show ?thesis
      using count_entries_lemma [OF f1(2), of q 0 cnt] f1(5) q e1 by simp
  qed
  have q1: "unat (q + 1) = unat q + 1"
    using unat_add_lem [of q 1] q(2) by simp
  let ?A = "length (filter ?zero [unat q * ?e..<unat q * ?e + ?e])"
  let ?B = "length (filter ?zero [unat q * ?e + ?e..<(unat q + Suc n) * ?e])"
  have fc: "filter (\<lambda>c. raw_entry disk fs1 (word_of_nat c) = 0) [unat q * ?e + ?e..<(unat q + Suc n) * ?e]
      = filter ?zero [unat q * ?e + ?e..<(unat q + Suc n) * ?e]"
    using end1(2) by (intro filter_cong) (auto simp: raw)
  have split: "[unat q * ?e..<(unat q + Suc n) * ?e]
      = [unat q * ?e..<unat q * ?e + ?e] @ [unat q * ?e + ?e..<(unat q + Suc n) * ?e]"
    using upt_add_eq_append [of "unat q * ?e" "unat q * ?e + ?e" "n * ?e"]
      upt_add_eq_append [of "unat q * ?e" "unat q * ?e" ?e]
    by (simp add: algebra_simps upt_add_eq_append)
  have len: "word_of_nat (length (filter ?zero [unat q * ?e..<(unat q + Suc n) * ?e]))
      = (word_of_nat ?A + word_of_nat ?B :: u32)"
    by (simp only: split filter_append length_append of_nat_add)
  have bound: "unat (q + 1) * ?e = unat q * ?e + ?e" "(unat (q + 1) + n) * ?e = (unat q + Suc n) * ?e"
    by (simp_all add: q1)
  have IH: "unat (fat_sectors fs1) < 2 ^ 24" "unat (q + 1) + n \<le> unat (fat_sectors fs1)"
    using Suc.prems(2,3) q1 e1 by simp_all
  obtain fs2 where f2: "count_sectors n fs1 (q + 1) (cnt + word_of_nat ?A)
        = Some (cnt + word_of_nat ?A + word_of_nat ?B, fs2)"
      "finv fs2" "fat_frame fs1 fs2" "vsame fs1 fs2"
    using Suc.IH [OF f1(2) IH, of "cnt + word_of_nat ?A"] unfolding e1 bound fc by blast
  have "count_sectors (Suc n) fs q cnt
      = Some (cnt + word_of_nat (length (filter ?zero [unat q * ?e..<(unat q + Suc n) * ?e])), fs2)"
    unfolding len using f1(1) c1 f2(1) by (simp add: add.assoc)
  then show ?case
    using f2(2) fat_frame_trans [OF f1(3) f2(3)] same_view_trans [OF f1(4) f2(4)] by blast
qed

end

subsection \<open>Properties\<close>

lemma file_device_ok: "device_ok fat_media_read fat_media_write n (file_valid n)"
  by (simp add: device_ok_def fat_media_read_def fat_media_write_def Let_def)

text \<open>
  A small volume to apply the properties to: three sectors, of which the second is a FAT16
  table where cluster 2 leads to cluster 3, the end of that chain, and cluster 5 is an end.
\<close>

definition sample_table :: "byte list" where
  "sample_table = [0xF8, 0xFF, 0xFF, 0xFF, 3, 0, 0xFF, 0xFF, 0, 0, 0xFF, 0xFF] @ replicate 500 0"

definition sample_image :: "byte list" where
  "sample_image = replicate 512 0 @ sample_table @ replicate 512 0"

definition no_buffer :: fat_buffer where
  "no_buffer = \<lparr>fb_sector = replicate 512 0, fb_address = FAT32_INVALID_CLUSTER, fb_dirty = False, fb_ptr = None\<rparr>"

definition sample_fs :: "byte list fatfs" where
  "sample_fs = \<lparr>sectors_per_cluster = 1, cluster_begin_lba = 2, rootdir_first_cluster = 0,
     rootdir_first_sector = 2, rootdir_sectors = 0, fat_begin_lba = 1, fs_info_sector = 0, lba_begin = 0,
     fat_sectors = 1, next_free_cluster = 0, root_entry_count = 0, reserved_sectors = 1, num_of_fats = 1,
     fat_type = FAT_TYPE_16, read_media = Some fat_media_read, write_media = Some fat_media_write,
     currentsector = no_buffer, fat_chain = [no_buffer], medium = sample_image\<rparr>"

lemma sample_inv: "fat_inv fat_media_read fat_media_write file_sector 3 (file_valid 3) sample_fs"
  by (simp add: fat_inv_def sample_fs_def file_valid_def sample_image_def sample_table_def fat_geometry_def
      no_buffer_def)

lemma sample_in: "entry_in sample_fs c \<longleftrightarrow> unat c < 256"
  by (simp add: entry_in_iff entries_per_sector_def sample_fs_def)

lemma sample_raw:
  assumes "unat c < 256"
  shows "raw_entry file_sector sample_fs c = push_bit 8 (ucast (sample_table ! (2 * unat c + 1))) + ucast (sample_table ! (2 * unat c))"
proof -
  have "unat (1 + c div 256) = 1" using assms unat_add_lem [of 1 "c div 256"] by (simp add: unat_div)
  moreover have l: "length sample_table = 512" by (simp add: sample_table_def)
  ultimately have "eff file_sector sample_fs (entry_sector sample_fs c) = sample_table"
    using assms word_unat_eq_iff [of "1 + c div 256" FAT32_INVALID_CLUSTER]
    by (simp add: eff_def sample_fs_def no_buffer_def entry_sector_def fat_sector_offset_def file_sector_def
        sample_image_def mem_read_def)
  then show ?thesis
    using assms l by (simp add: raw_entry_def entry_number_def fat_position_unat entries_per_sector_def
        entry_width_def GET_16BIT_WORD_def sample_fs_def mult.commute)
qed

lemma sample_next: "fat_next file_sector sample_fs 2 = 3" "fat_next file_sector sample_fs 3 = FAT32_LAST_CLUSTER"
  "fat_next file_sector sample_fs 4 = 0" "fat_next file_sector sample_fs 5 = FAT32_LAST_CLUSTER"
  by (simp_all add: fat_next_def sample_raw) (simp_all add: sample_table_def entry_next_def sample_fs_def)
text \<open>
  On any medium, whether or not it fails, looking up the successor of a cluster in the table
  returns what the entry says, the last-cluster mark for every end-of-chain value, and leaves the
  view of the medium as it was; a different answer is possible only on a medium that can fail.
\<close>

theorem fat_find_next_correct:
  assumes "block_device rd wr disk n valid" and "fat_inv rd wr disk n valid fs"
    and "entry_in fs c" and "c \<noteq> 0"
  shows "\<exists>r fs'. fatfs_find_next_cluster fs c = Some (r, fs') \<and> fat_inv rd wr disk n valid fs'
    \<and> same_view disk n fs fs' \<and> fat_frame fs fs'
    \<and> (r = fat_next disk fs c \<or> r = FAT32_LAST_CLUSTER \<and> \<not> device_ok rd wr n valid)"
  using block_device.find_next_lemma [OF assms(1,2), of c] assms(3,4) by auto

theorem fat_find_next_correct_witness:
  "\<exists>fs'. fatfs_find_next_cluster sample_fs 2 = Some (3, fs') \<and> same_view file_sector 3 sample_fs fs'"
  using fat_find_next_correct [OF file_device.block_device_axioms sample_inv, of 2] file_device_ok [of 3]
  by (auto simp: sample_in sample_next)

text \<open>
  C19: setting an entry on any medium changes that entry alone: every other entry of the table
  and every other sector keeps its contents, whichever sector of the table the buffer held
  before. If the sector cannot be read or the buffer cannot be written back, the function says
  so and nothing has changed.
\<close>

theorem fat_set_cluster_correct:
  assumes "block_device rd wr disk n valid" and "fat_inv rd wr disk n valid fs" and "entry_in fs c"
  shows "\<exists>ok fs'. fatfs_fat_set_cluster fs c v = Some (ok, fs') \<and> fat_inv rd wr disk n valid fs' \<and> fat_frame fs fs'
    \<and> (device_ok rd wr n valid \<longrightarrow> ok) \<and> (\<not> ok \<longrightarrow> same_view disk n fs fs')
    \<and> (\<forall>x. entry_in fs x \<longrightarrow> raw_entry disk fs' x = (if ok \<and> x = c then entry_value fs v else raw_entry disk fs x))
    \<and> (\<forall>t. unat t < n \<longrightarrow> t \<noteq> entry_sector fs c \<longrightarrow> eff disk fs' t = eff disk fs t)"
  by (rule block_device.set_cluster_lemma [OF assms])

theorem fat_set_cluster_correct_witness:
  "\<exists>fs'. fatfs_fat_set_cluster sample_fs 4 7 = Some (True, fs') \<and> raw_entry file_sector fs' 4 = 7
    \<and> raw_entry file_sector fs' 2 = 3"
proof -
  have "raw_entry file_sector sample_fs 2 = 3" "entry_value sample_fs 7 = 7"
    by (simp_all add: sample_raw, simp_all add: sample_table_def entry_value_def)
  then show ?thesis
    using fat_set_cluster_correct [OF file_device.block_device_axioms sample_inv, of 4 7] file_device_ok [of 3]
    by (auto simp: sample_in)
qed

text \<open>
  C20: on a medium that does not fail, freeing a chain returns and sets exactly the entries of its clusters to zero; every other
  entry of the table and every sector without an entry of the chain is unchanged.
\<close>

theorem fat_free_chain_correct:
  assumes "block_device rd wr disk n valid" and "device_ok rd wr n valid" and "fat_inv rd wr disk n valid fs"
    and "cluster_chain (fat_next disk fs) c xs" and "\<forall>x\<in>set xs. entry_in fs x"
  shows "\<exists>fs'. fatfs_free_cluster_chain fs c = Some (True, fs') \<and> fat_inv rd wr disk n valid fs'
    \<and> (\<forall>x. entry_in fs x \<longrightarrow> raw_entry disk fs' x = (if x \<in> set xs then 0 else raw_entry disk fs x))
    \<and> (\<forall>t. unat t < n \<longrightarrow> t \<notin> entry_sector fs ` set xs \<longrightarrow> eff disk fs' t = eff disk fs t)"
  using block_device.free_chain_lemma [OF assms(1-4)] assms(5) by blast

theorem fat_free_chain_correct_witness:
  "\<exists>fs'. fatfs_free_cluster_chain sample_fs 2 = Some (True, fs') \<and> raw_entry file_sector fs' 2 = 0
    \<and> raw_entry file_sector fs' 3 = 0 \<and> raw_entry file_sector fs' 5 = 0xFFFF"
proof -
  have "raw_entry file_sector sample_fs 5 = 0xFFFF"
    by (simp add: sample_raw, simp add: sample_table_def)
  then show ?thesis
    using fat_free_chain_correct [OF file_device.block_device_axioms file_device_ok sample_inv, of 2 "[2, 3]"]
    by (auto simp: sample_in sample_next)
qed

text \<open>
  C22: on a medium that does not fail, adding a free cluster to a chain appends it: the chain from the same start then ends with
  the new cluster, and no entry but those of the old last cluster and of the new one changes.
\<close>

theorem fat_add_cluster_correct:
  assumes "block_device rd wr disk n valid" and "device_ok rd wr n valid" and "fat_inv rd wr disk n valid fs"
    and "cluster_chain (fat_next disk fs) c xs" and "xs \<noteq> []" and "\<forall>x\<in>set xs. entry_in fs x"
    and "entry_in fs new" and "new \<notin> set xs" and "new \<noteq> 0" and "new \<noteq> FAT32_LAST_CLUSTER"
    and "entry_next fs (entry_value fs new) = new"
  shows "\<exists>fs'. fatfs_fat_add_cluster_to_chain fs c new = Some (True, fs') \<and> fat_inv rd wr disk n valid fs'
    \<and> cluster_chain (fat_next disk fs') c (xs @ [new])
    \<and> (\<forall>x. entry_in fs x \<longrightarrow> x \<noteq> last xs \<longrightarrow> x \<noteq> new \<longrightarrow> raw_entry disk fs' x = raw_entry disk fs x)"
  using block_device.add_cluster_lemma [OF assms(1-5) _ assms(7-11)] assms(6) by blast

theorem fat_add_cluster_correct_witness:
  "\<exists>fs'. fatfs_fat_add_cluster_to_chain sample_fs 2 4 = Some (True, fs')
    \<and> cluster_chain (fat_next file_sector fs') 2 [2, 3, 4]"
proof -
  have "entry_next sample_fs (entry_value sample_fs 4) = 4"
    by (simp add: entry_next_def entry_value_def)
  then show ?thesis
    using fat_add_cluster_correct [OF file_device.block_device_axioms file_device_ok sample_inv, of 2 "[2, 3]" 4]
    by (auto simp: sample_in sample_next)
qed

text \<open>
  C29: on a medium that does not fail and with a table of fewer than \<open>2 ^ 24\<close> sectors, the search for a free
  cluster returns: the least cluster from the given one on whose
  entry is free, or a failure when every entry from there to the end of the table is in use. It
  changes nothing but the buffer. (When the medium fails the code reports the same failure, although entries may be free.)
\<close>

theorem fat_find_blank_correct:
  assumes "block_device rd wr disk n valid" and "device_ok rd wr n valid" and "fat_inv rd wr disk n valid fs"
    and "unat (fat_sectors fs) < 2 ^ 24"
  shows "\<exists>r fs'. fatfs_find_blank_cluster fs c = Some (r, fs') \<and> fat_inv rd wr disk n valid fs'
    \<and> fat_frame fs fs' \<and> same_view disk n fs fs'
    \<and> (case r of
         Some x \<Rightarrow> c \<le> x \<and> entry_in fs x \<and> fat_next disk fs x = 0
           \<and> (\<forall>y. c \<le> y \<longrightarrow> y < x \<longrightarrow> fat_next disk fs y \<noteq> 0)
       | None \<Rightarrow> \<forall>y. c \<le> y \<longrightarrow> entry_in fs y \<longrightarrow> fat_next disk fs y \<noteq> 0)"
  by (rule block_device.find_blank_lemma [OF assms(1,2,3,4), of _ "unat (fat_sectors fs) * entries_per_sector fs"]) simp

theorem fat_find_blank_correct_witness:
  "\<exists>r fs'. fatfs_find_blank_cluster sample_fs 2 = Some (r, fs') \<and> same_view file_sector 3 sample_fs fs'
    \<and> (\<exists>x. r = Some x \<and> 2 \<le> x \<and> fat_next file_sector sample_fs x = 0)"
proof -
  have "unat (fat_sectors sample_fs) < 2 ^ 24" by (simp add: sample_fs_def)
  from fat_find_blank_correct [OF file_device.block_device_axioms file_device_ok sample_inv this, of 2]
  obtain r fs' where r: "fatfs_find_blank_cluster sample_fs 2 = Some (r, fs')" "same_view file_sector 3 sample_fs fs'"
    "case r of
       Some x \<Rightarrow> 2 \<le> x \<and> entry_in sample_fs x \<and> fat_next file_sector sample_fs x = 0
         \<and> (\<forall>y. 2 \<le> y \<longrightarrow> y < x \<longrightarrow> fat_next file_sector sample_fs y \<noteq> 0)
     | None \<Rightarrow> \<forall>y. 2 \<le> y \<longrightarrow> entry_in sample_fs y \<longrightarrow> fat_next file_sector sample_fs y \<noteq> 0"
    by blast
  have "r \<noteq> None"
  proof
    assume "r = None"
    then have "entry_in sample_fs 4 \<longrightarrow> fat_next file_sector sample_fs 4 \<noteq> 0" using r(3) by simp
    then show False by (simp add: sample_in sample_next)
  qed
  then show ?thesis using r by auto
qed

text \<open>
  C30: flushing the buffer on any medium never changes the view, and when it reports success every
  sector of the medium holds what the view shows, so nothing written is lost.
\<close>

theorem fat_purge_correct:
  assumes "block_device rd wr disk n valid" and "fat_inv rd wr disk n valid fs"
  shows "\<exists>ok fs'. fatfs_fat_purge fs = Some (ok, fs') \<and> fat_inv rd wr disk n valid fs' \<and> fat_frame fs fs'
    \<and> same_view disk n fs fs' \<and> (device_ok rd wr n valid \<longrightarrow> ok)
    \<and> (ok \<longrightarrow> (\<forall>t. unat t < n \<longrightarrow> disk (medium fs') t = eff disk fs t))"
  by (rule block_device.purge_lemma [OF assms])

theorem fat_purge_correct_witness:
  "\<exists>fs'. fatfs_fat_purge sample_fs = Some (True, fs') \<and> file_sector (medium fs') 1 = eff file_sector sample_fs 1"
  using fat_purge_correct [OF file_device.block_device_axioms sample_inv] file_device_ok [of 3]
  by auto

text \<open>
  Counting the free clusters returns the number of entries of the table that are zero. (The
  four reserved bits of a FAT32 entry are counted as in use.)
\<close>

theorem fat_count_free_correct:
  assumes "block_device rd wr disk n valid" and "device_ok rd wr n valid" and "fat_inv rd wr disk n valid fs"
    and "unat (fat_sectors fs) < 2 ^ 24"
  shows "\<exists>fs'. fatfs_count_free_clusters fs
      = Some (word_of_nat (card {c. entry_in fs c \<and> raw_entry disk fs c = 0}), fs')
    \<and> fat_inv rd wr disk n valid fs' \<and> same_view disk n fs fs'"
proof -
  let ?N = "unat (fat_sectors fs) * entries_per_sector fs"
  let ?f = "filter (\<lambda>c. raw_entry disk fs (word_of_nat c) = 0) [0..<?N]"
  have N: "?N < 2 ^ 32" using assms(4) by (auto simp: entries_per_sector_def)
  have "card (set (map word_of_nat ?f :: u32 list)) = length ?f"
  proof (subst distinct_card)
    have "x = y" if "x < ?N" "y < ?N" "word_of_nat x = (word_of_nat y :: u32)" for x y
    proof -
      have "unat (word_of_nat x :: u32) = x" "unat (word_of_nat y :: u32) = y"
        using that(1,2) N by (simp_all add: unat_word_of_nat)
      then show ?thesis using that(3) by metis
    qed
    then show "distinct (map word_of_nat ?f :: u32 list)"
      by (simp add: distinct_map inj_on_def)
  qed simp
  moreover have "set (map word_of_nat ?f) = {c. entry_in fs c \<and> raw_entry disk fs c = 0}"
  proof -
    have "c \<in> set (map word_of_nat ?f)" if "entry_in fs c" "raw_entry disk fs c = 0" for c
      using that by (auto simp: entry_in_iff image_iff intro!: bexI [of _ "unat c"])
    moreover have "entry_in fs (word_of_nat c)" if "c < ?N" for c
      using that N by (simp add: entry_in_iff)
    ultimately show ?thesis by auto
  qed
  ultimately show ?thesis
    using block_device.count_sectors_lemma [OF assms, of 0 "unat (fat_sectors fs)" 0]
    by (auto simp: fatfs_count_free_clusters_def)
qed

theorem fat_count_free_correct_witness:
  "\<exists>fs'. fatfs_count_free_clusters sample_fs
      = Some (word_of_nat (card {c. entry_in sample_fs c \<and> raw_entry file_sector sample_fs c = 0}), fs')"
proof -
  have "unat (fat_sectors sample_fs) < 2 ^ 24" by (simp add: sample_fs_def)
  from fat_count_free_correct [OF file_device.block_device_axioms file_device_ok sample_inv this]
  show ?thesis by blast
qed

end
