(* ===== verification/FatMisc.thy ===== *)
theory FatMisc
  imports FatDefs "HOL-Library.Signed_Division"
begin

section \<open>Names, numbers and dates\<close>

text \<open>
  Models \<open>fat_misc.c\<close>: the long-file-name cache, the classification of directory entries, the
  slots of a long file name, short names and their numeric tails, and the packed times and dates.
  A C string is the list of its characters without the terminating null.
\<close>

subsection \<open>The long-file-name cache\<close>

abbreviation MAX_LONGFILENAME_ENTRIES :: nat where "MAX_LONGFILENAME_ENTRIES \<equiv> 20"
abbreviation MAX_LFN_ENTRY_LENGTH :: nat where "MAX_LFN_ENTRY_LENGTH \<equiv> 13"

text \<open>
  \<open>struct lfn_cache\<close>. The two-dimensional array is kept as the 260 bytes it occupies; the byte
  \<open>Null\<close> follows them in memory.
\<close>

record lfn_cache =
  lfn_String :: "byte list"
  lfn_Null :: byte
  no_of_strings :: byte

definition nameIndexes :: "nat list" where
  "nameIndexes = [1, 3, 5, 7, 9, 0x0E, 0x10, 0x12, 0x14, 0x16, 0x18, 0x1C, 0x1E]"

definition fatfs_lfn_cache_init :: "lfn_cache \<Rightarrow> bool \<Rightarrow> lfn_cache" where
  "fatfs_lfn_cache_init lfn wipeTable =
     (if wipeTable
      then lfn\<lparr>no_of_strings := 0, lfn_String := replicate (MAX_LONGFILENAME_ENTRIES * MAX_LFN_ENTRY_LENGTH) 0\<rparr>
      else lfn\<lparr>no_of_strings := 0\<rparr>)"

text \<open>\<open>entryBuffer\<close> is one 32-byte slot of a directory sector.\<close>

definition fatfs_lfn_cache_entry :: "lfn_cache \<Rightarrow> byte list \<Rightarrow> lfn_cache" where
  "fatfs_lfn_cache_entry lfn entryBuffer =
     (let LFNIndex = entryBuffer ! 0 AND 0x1F
      in if LFNIndex > 20 then lfn
         else if LFNIndex = 0 then lfn
         else
           (let lfn = (if no_of_strings lfn = 0 then lfn\<lparr>no_of_strings := LFNIndex\<rparr> else lfn);
                row = map (\<lambda>i. entryBuffer ! i) [1, 3, 5, 7, 9, 0x0E, 0x10, 0x12, 0x14, 0x16, 0x18, 0x1C, 0x1E];
                row = map (\<lambda>c. if c = 0xFF then 0x20 else c) row
            in lfn\<lparr>lfn_String := mem_write ((unat LFNIndex - 1) * MAX_LFN_ENTRY_LENGTH) row (lfn_String lfn)\<rparr>))"

text \<open>The memory at the returned pointer, and the cache; the string ends at the first null.\<close>

definition fatfs_lfn_cache_get :: "lfn_cache \<Rightarrow> byte list \<times> lfn_cache" where
  "fatfs_lfn_cache_get lfn =
     (let lfn = (if no_of_strings lfn = 20 then lfn\<lparr>lfn_Null := 0\<rparr>
        else if no_of_strings lfn \<noteq> 0
          then lfn\<lparr>lfn_String := (lfn_String lfn)[unat (no_of_strings lfn) * MAX_LFN_ENTRY_LENGTH := 0]\<rparr>
        else lfn\<lparr>lfn_String := (lfn_String lfn)[0 := 0]\<rparr>)
      in (lfn_String lfn @ [lfn_Null lfn], lfn))"

subsection \<open>Kinds of entries\<close>

definition fatfs_entry_lfn_text :: "fat_dir_entry \<Rightarrow> bool" where
  "fatfs_entry_lfn_text e \<longleftrightarrow> Attr e AND FILE_ATTR_LFN_TEXT = FILE_ATTR_LFN_TEXT"

definition fatfs_entry_lfn_invalid :: "fat_dir_entry \<Rightarrow> bool" where
  "fatfs_entry_lfn_invalid e \<longleftrightarrow> Name e ! 0 = FILE_HEADER_BLANK \<or> Name e ! 0 = FILE_HEADER_DELETED
     \<or> Attr e = FILE_ATTR_VOLUME_ID \<or> Attr e AND FILE_ATTR_SYSHID \<noteq> 0"

definition fatfs_entry_lfn_exists :: "lfn_cache \<Rightarrow> fat_dir_entry \<Rightarrow> bool" where
  "fatfs_entry_lfn_exists lfn e \<longleftrightarrow> Attr e \<noteq> FILE_ATTR_LFN_TEXT \<and> Name e ! 0 \<noteq> FILE_HEADER_BLANK
     \<and> Name e ! 0 \<noteq> FILE_HEADER_DELETED \<and> Attr e \<noteq> FILE_ATTR_VOLUME_ID
     \<and> \<not> (Attr e AND FILE_ATTR_SYSHID \<noteq> 0) \<and> no_of_strings lfn \<noteq> 0"

definition fatfs_entry_sfn_only :: "fat_dir_entry \<Rightarrow> bool" where
  "fatfs_entry_sfn_only e \<longleftrightarrow> Attr e \<noteq> FILE_ATTR_LFN_TEXT \<and> Name e ! 0 \<noteq> FILE_HEADER_BLANK
     \<and> Name e ! 0 \<noteq> FILE_HEADER_DELETED \<and> Attr e \<noteq> FILE_ATTR_VOLUME_ID
     \<and> \<not> (Attr e AND FILE_ATTR_SYSHID \<noteq> 0)"

definition fatfs_entry_is_dir :: "fat_dir_entry \<Rightarrow> bool" where
  "fatfs_entry_is_dir e \<longleftrightarrow> Attr e AND FILE_TYPE_DIR \<noteq> 0"

definition fatfs_entry_is_file :: "fat_dir_entry \<Rightarrow> bool" where
  "fatfs_entry_is_file e \<longleftrightarrow> Attr e AND FILE_TYPE_FILE \<noteq> 0"

subsection \<open>The slots of a long name\<close>

definition fatfs_lfn_entries_required :: "byte list \<Rightarrow> nat" where
  "fatfs_lfn_entries_required filename =
     (if length filename \<noteq> 0 then (length filename + MAX_LFN_ENTRY_LENGTH - 1) div MAX_LFN_ENTRY_LENGTH else 0)"

text \<open>The loop that copies the 13 characters; \<open>i\<close> counts up to 13.\<close>

fun lfn_copy :: "byte list \<Rightarrow> nat \<Rightarrow> nat list \<Rightarrow> nat \<Rightarrow> byte list \<Rightarrow> byte list" where
  "lfn_copy filename start [] i buffer = buffer"
| "lfn_copy filename start (x # xs) i buffer = lfn_copy filename start xs (i + 1)
     (if start + i < length filename then buffer[x := filename ! (start + i)]
      else if start + i = length filename then buffer[x := 0x00]
      else buffer[x := 0xFF, x + 1 := 0xFF])"

definition fatfs_filename_to_lfn :: "byte list \<Rightarrow> nat \<Rightarrow> byte \<Rightarrow> byte list" where
  "fatfs_filename_to_lfn filename entry sfnChk =
     (let entriesRequired = fatfs_lfn_entries_required filename;
          start = entry * MAX_LFN_ENTRY_LENGTH;
          buffer = replicate FAT_DIR_ENTRY_SIZE 0;
          buffer = buffer[0 := (if entriesRequired = entry + 1 then word_of_nat (0x40 OR (entry + 1))
            else word_of_nat (entry + 1))];
          buffer = buffer[11 := 0x0F];
          buffer = buffer[13 := sfnChk]
      in lfn_copy filename start nameIndexes 0 buffer)"

subsection \<open>Short names\<close>

definition fatfs_sfn_create_entry :: "byte list \<Rightarrow> u32 \<Rightarrow> u32 \<Rightarrow> bool \<Rightarrow> fat_dir_entry" where
  "fatfs_sfn_create_entry shortfilename filesize startCluster dir =
     \<lparr>Name = take FAT_SFN_SIZE_FULL shortfilename, Attr = (if \<not> dir then FILE_TYPE_FILE else FILE_TYPE_DIR),
      NTRes = 0, CrtTimeTenth = 0, CrtTime = [0, 0], CrtDate = [0x20, 0], LstAccDate = [0x20, 0],
      FstClusHI = FAT_HTONS (ucast (drop_bit 16 startCluster AND 0xFFFF)), WrtTime = [0, 0],
      WrtDate = [0x20, 0], FstClusLO = FAT_HTONS (ucast (startCluster AND 0xFFFF)),
      FileSize = FAT_HTONL filesize\<rparr>"

abbreviation CH_DOT :: byte where "CH_DOT \<equiv> 0x2E"
abbreviation CH_SPACE :: byte where "CH_SPACE \<equiv> 0x20"

definition sfn_upper :: "byte \<Rightarrow> byte" where
  "sfn_upper c = (if c \<ge> 0x61 \<and> c \<le> 0x7A then c - 0x61 + 0x41 else c)"

fun find_dot :: "byte list \<Rightarrow> nat \<Rightarrow> nat option \<Rightarrow> nat option" where
  "find_dot [] i dotPos = dotPos"
| "find_dot (c # cs) i dotPos = find_dot cs (i + 1) (if c = CH_DOT then Some i else dotPos)"

fun sfn_extension :: "byte list \<Rightarrow> nat \<Rightarrow> nat list \<Rightarrow> byte list \<Rightarrow> byte list" where
  "sfn_extension filename dotPos [] ext = ext"
| "sfn_extension filename dotPos (i # is) ext = sfn_extension filename dotPos is
     (if i < length filename then ext[i - (dotPos + 1) := filename ! i] else ext)"

fun sfn_base :: "byte list \<Rightarrow> nat \<Rightarrow> byte list \<Rightarrow> byte list" where
  "sfn_base [] pos out = out"
| "sfn_base (c # cs) pos out =
     (let (pos, out) = (if c \<noteq> CH_SPACE \<and> c \<noteq> CH_DOT then (pos + 1, out[pos := sfn_upper c]) else (pos, out))
      in if pos = FAT_SFN_SIZE_PARTIAL then out else sfn_base cs pos out)"

definition fatfs_lfn_create_sfn :: "byte list \<Rightarrow> byte list \<Rightarrow> bool \<times> byte list" where
  "fatfs_lfn_create_sfn sfn_output filename =
     (if filename \<noteq> [] \<and> hd filename = CH_DOT then (False, sfn_output)
      else
        (let out = mem_write 0 (replicate FAT_SFN_SIZE_FULL CH_SPACE) sfn_output;
             ext = replicate 3 CH_SPACE;
             (ext, len) = (case find_dot filename 0 None of
                 None \<Rightarrow> (ext, length filename)
               | Some dotPos \<Rightarrow> (sfn_extension filename dotPos [dotPos + 1..<dotPos + 1 + 3] ext, dotPos));
             out = sfn_base (take len filename) 0 out
         in (True, mem_write FAT_SFN_SIZE_PARTIAL (map sfn_upper ext) out)))"

text \<open>The digits of a number, least significant first, and the string of them.\<close>

function itoa_digits :: "u32 \<Rightarrow> byte list" where
  "itoa_digits num = (ucast (num mod 10) + 0x30) # (if num div 10 > 0 then itoa_digits (num div 10) else [])"
  by pat_completeness auto
termination
proof (relation "measure unat")
  fix num :: u32 assume "num div 10 > 0"
  then have "0 < unat num div 10" by (simp add: word_less_nat_alt unat_div)
  then show "(num div 10, num) \<in> measure unat" by (simp add: unat_div)
qed simp

declare itoa_digits.simps [simp del]

definition fatfs_itoa :: "u32 \<Rightarrow> byte list" where
  "fatfs_itoa num = rev (itoa_digits num)"

definition fatfs_lfn_generate_tail :: "byte list \<Rightarrow> byte list \<Rightarrow> u32 \<Rightarrow> bool \<times> byte list" where
  "fatfs_lfn_generate_tail sfn_output sfn_input tailNum =
     (if tailNum > 99999 then (False, sfn_output)
      else
        (let tail_str = 0x7E # fatfs_itoa tailNum;
             out = mem_write 0 (take FAT_SFN_SIZE_FULL sfn_input) sfn_output;
             tail_chars = length tail_str
         in (True, mem_write (FAT_SFN_SIZE_PARTIAL - tail_chars) tail_str out)))"

subsection \<open>Times and dates\<close>

definition fatfs_convert_from_fat_time :: "u16 \<Rightarrow> int \<times> int \<times> int" where
  "fatfs_convert_from_fat_time fat_time =
     (uint (drop_bit 11 fat_time AND 0x1F), uint (drop_bit 5 fat_time AND 0x3F), uint (fat_time AND 0x1F) * 2)"

definition fatfs_convert_from_fat_date :: "u16 \<Rightarrow> int \<times> int \<times> int" where
  "fatfs_convert_from_fat_date fat_date =
     (uint (fat_date AND 0x1F), uint (drop_bit 5 fat_date AND 0xF), uint (drop_bit 9 fat_date AND 0x7F) + 1980)"

definition fatfs_convert_to_fat_time :: "int \<Rightarrow> int \<Rightarrow> int \<Rightarrow> u16" where
  "fatfs_convert_to_fat_time hours minutes seconds =
     (let seconds = seconds sdiv 2;
          fat_time = word_of_int (push_bit 11 (hours AND 0x1F));
          fat_time = fat_time OR word_of_int (push_bit 5 (minutes AND 0x3F))
      in fat_time OR word_of_int (seconds AND 0x1F))"

definition fatfs_convert_to_fat_date :: "int \<Rightarrow> int \<Rightarrow> int \<Rightarrow> u16" where
  "fatfs_convert_to_fat_date day month year =
     (let year = (if year \<ge> 1980 then year - 1980 else year);
          fat_date = word_of_int (day AND 0x1F);
          fat_date = fat_date OR word_of_int (push_bit 5 (month AND 0xF))
      in fat_date OR word_of_int (push_bit 9 (year AND 0x7F)))"

subsection \<open>A long name survives its slots\<close>

definition lfn_char :: "byte list \<Rightarrow> nat \<Rightarrow> byte" where
  "lfn_char filename p = (if p < length filename then filename ! p else if p = length filename then 0 else 0xFF)"

lemma length_lfn_copy [simp]: "length (lfn_copy f s xs i b) = length b"
  by (induction f s xs i b rule: lfn_copy.induct) auto

lemma lfn_copy_other:
  "y \<notin> set xs \<Longrightarrow> y \<notin> Suc ` set xs \<Longrightarrow> lfn_copy f s xs i b ! y = b ! y"
  by (induction f s xs i b rule: lfn_copy.induct) auto

lemma lfn_copy_nth:
  "distinct xs \<Longrightarrow> set xs \<inter> Suc ` set xs = {} \<Longrightarrow> (\<And>x. x \<in> set xs \<Longrightarrow> x < length b) \<Longrightarrow> j < length xs \<Longrightarrow>
    lfn_copy f s xs i b ! (xs ! j) = lfn_char f (s + i + j)"
proof (induction f s xs i b arbitrary: j rule: lfn_copy.induct)
  case (2 f s x xs i b)
  show ?case
  proof (cases j)
    case 0
    have "x \<notin> set xs" "x \<notin> Suc ` set xs" using 2(2,3) by auto
    then show ?thesis using 0 2(4) by (auto simp: lfn_copy_other lfn_char_def)
  next
    case (Suc k)
    let ?b = "if s + i < length f then b[x := f ! (s + i)]
      else if s + i = length f then b[x := 0x00] else b[x := 0xFF, x + 1 := 0xFF]"
    have "lfn_copy f s xs (i + 1) ?b ! (xs ! k) = lfn_char f (s + (i + 1) + k)"
      using 2(2-5) Suc by (intro 2(1)) auto
    then show ?thesis using Suc by simp
  qed
qed simp

lemma nameIndexes_facts:
  "distinct nameIndexes" "set nameIndexes \<inter> Suc ` set nameIndexes = {}" "length nameIndexes = 13"
  "set nameIndexes \<subseteq> {0..<32}" "0 \<notin> set nameIndexes" "0 \<notin> Suc ` set nameIndexes" "11 \<notin> set nameIndexes"
  "11 \<notin> Suc ` set nameIndexes" "13 \<notin> set nameIndexes" "13 \<notin> Suc ` set nameIndexes"
  by (simp_all add: nameIndexes_def)

lemma lfn_slot:
  fixes f :: "byte list" and e :: nat and chk :: byte
  defines "s \<equiv> fatfs_filename_to_lfn f e chk"
  assumes e: "e < 20"
  shows "length s = 32" "s ! 11 = 0x0F" "s ! 13 = chk" "s ! 0 AND 0x1F = word_of_nat (e + 1)"
    "j < 13 \<Longrightarrow> s ! (nameIndexes ! j) = lfn_char f (e * 13 + j)"
proof -
  note d = s_def fatfs_filename_to_lfn_def Let_def
  show "length s = 32" "s ! 11 = 0x0F" "s ! 13 = chk"
    by (simp_all add: d lfn_copy_other nameIndexes_facts)
  have "(word_of_nat (e + 1) :: byte) AND 0x1F = word_of_nat (e + 1)"
  proof -
    have "(e + 1) AND 31 = e + 1"
      using e take_bit_nat_eq_self [of "e + 1" 5] by (simp add: take_bit_eq_mask mask_eq_exp_minus_1)
    then show ?thesis by (metis of_nat_and_eq of_nat_numeral)
  qed
  moreover have "(0x40 OR w) AND 0x1F = w AND (0x1F :: byte)" for w
    by (simp add: bit.conj_disj_distrib2)
  moreover have "(word_of_nat (0x40 OR (e + 1)) :: byte) = 0x40 OR word_of_nat (e + 1)"
    by (simp only: of_nat_or_eq of_nat_numeral)
  ultimately show "s ! 0 AND 0x1F = word_of_nat (e + 1)"
    by (simp add: d lfn_copy_other nameIndexes_facts)
  show "s ! (nameIndexes ! j) = lfn_char f (e * 13 + j)" if "j < 13"
    unfolding d using that lfn_copy_nth [OF nameIndexes_facts(1,2), of _ j f "e * 13" 0] nameIndexes_facts(3,4)
    by (auto simp: subset_iff)
qed

text \<open>One slot fills its row of the cache.\<close>

lemma lfn_cache_entry_slot:
  assumes e: "e < 20" and l: "length (lfn_String lfn) = 260" and ff: "0xFF \<notin> set f"
  shows "fatfs_lfn_cache_entry lfn (fatfs_filename_to_lfn f e chk)
    = lfn\<lparr>no_of_strings := (if no_of_strings lfn = 0 then word_of_nat (e + 1) else no_of_strings lfn),
        lfn_String := mem_write (e * 13) (map (\<lambda>j. if e * 13 + j \<le> length f then lfn_char f (e * 13 + j) else 0x20) [0..<13])
          (lfn_String lfn)\<rparr>"
proof -
  let ?s = "fatfs_filename_to_lfn f e chk"
  have u: "unat (word_of_nat (e + 1) :: byte) = e + 1" using e by (intro unat_word_of_nat) simp
  then have n: "\<not> (word_of_nat (e + 1) :: byte) > 20" "(word_of_nat (e + 1) :: byte) \<noteq> 0"
    using e word_unat_eq_iff [of "word_of_nat (e + 1) :: byte" 0]
    by (simp_all add: word_less_nat_alt del: of_nat_Suc of_nat_add)
  have char: "lfn_char f p = 0xFF \<longleftrightarrow> p > length f" for p
    using ff by (auto simp: lfn_char_def in_set_conv_nth)
  have row: "map (\<lambda>c. if c = 0xFF then 0x20 else c) (map (\<lambda>i. ?s ! i) nameIndexes)
      = map (\<lambda>j. if e * 13 + j \<le> length f then lfn_char f (e * 13 + j) else 0x20) [0..<13]"
  proof (rule nth_equalityI)
    fix j assume "j < length (map (\<lambda>c. if c = 0xFF then 0x20 else c) (map (\<lambda>i. ?s ! i) nameIndexes))"
    then have j: "j < 13" by (simp add: nameIndexes_facts)
    then show "map (\<lambda>c. if c = 0xFF then 0x20 else c) (map (\<lambda>i. ?s ! i) nameIndexes) ! j
      = map (\<lambda>j. if e * 13 + j \<le> length f then lfn_char f (e * 13 + j) else 0x20) [0..<13] ! j"
      using lfn_slot(5) [OF e j, of f chk] char by (simp add: nameIndexes_facts)
  qed (simp add: nameIndexes_facts)
  show ?thesis
    unfolding fatfs_lfn_cache_entry_def nameIndexes_def [symmetric] Let_def row lfn_slot(4) [OF e] using u n
    by (simp del: of_nat_Suc of_nat_add)
qed

lemma lfn_cache_slots:
  assumes l: "length (lfn_String lfn) = 260" "no_of_strings lfn = 0" and ff: "0xFF \<notin> set f" and n: "n \<le> 20"
  shows "k \<le> n \<Longrightarrow> \<exists>m. fold (\<lambda>i c. fatfs_lfn_cache_entry c (fatfs_filename_to_lfn f i chk)) (rev [k..<n]) lfn
      = lfn\<lparr>no_of_strings := (if k < n then word_of_nat n else 0), lfn_String := m\<rparr> \<and> length m = 260
    \<and> (\<forall>p. k * 13 \<le> p \<longrightarrow> p < n * 13 \<longrightarrow> m ! p = (if p \<le> length f then lfn_char f p else 0x20))"
proof (induction "n - k" arbitrary: k)
  case 0
  then show ?case using l by (intro exI [of _ "lfn_String lfn"]) simp
next
  case (Suc d)
  then have k: "k < n" "k < 20" using n by simp_all
  obtain m where m: "fold (\<lambda>i c. fatfs_lfn_cache_entry c (fatfs_filename_to_lfn f i chk)) (rev [Suc k..<n]) lfn
      = lfn\<lparr>no_of_strings := (if Suc k < n then word_of_nat n else 0), lfn_String := m\<rparr>" "length m = 260"
    "\<forall>p. Suc k * 13 \<le> p \<longrightarrow> p < n * 13 \<longrightarrow> m ! p = (if p \<le> length f then lfn_char f p else 0x20)"
  proof -
    have "d = n - Suc k" "Suc k \<le> n" using Suc.hyps(2) k(1) by simp_all
    then show thesis using that Suc.hyps(1) [of "Suc k"] by blast
  qed
  let ?row = "map (\<lambda>j. if k * 13 + j \<le> length f then lfn_char f (k * 13 + j) else 0x20) [0..<13]"
  let ?m = "mem_write (k * 13) ?row m"
  have nz: "(word_of_nat n :: byte) \<noteq> 0"
  proof -
    have "unat (word_of_nat n :: byte) = n" using n by (intro unat_word_of_nat) simp
    then show ?thesis using k by auto
  qed
  have fit: "k * 13 + length ?row \<le> length m" using k(2) m(2) by simp
  have "fold (\<lambda>i c. fatfs_lfn_cache_entry c (fatfs_filename_to_lfn f i chk)) (rev [k..<n]) lfn
      = lfn\<lparr>no_of_strings := word_of_nat n, lfn_String := ?m\<rparr>"
  proof -
    have upt: "[k..<n] = k # [Suc k..<n]" using k(1) by (rule upt_conv_Cons)
    show ?thesis
    proof (cases "Suc k < n")
      case True
      then show ?thesis
        using nz m(2) unfolding upt rev.simps fold_append o_apply m(1)
        by (simp add: lfn_cache_entry_slot [OF k(2) _ ff])
    next
      case False
      then have "n = k + 1" using k(1) by simp
      then show ?thesis
        using nz m(2) unfolding upt rev.simps fold_append o_apply m(1)
        by (simp add: lfn_cache_entry_slot [OF k(2) _ ff])
    qed
  qed
  moreover have "?m ! p = (if p \<le> length f then lfn_char f p else 0x20)" if "k * 13 \<le> p" "p < n * 13" for p
    using that m(3) fit k n m(2) by (cases "p < k * 13 + 13") (auto simp: nth_mem_write)
  ultimately show ?case
    using k fit m(2) by (intro exI [of _ ?m]) simp
qed

lemma cstring_eqI:
  assumes "take (length s) m = s" "length s < length m" "m ! length s = 0" "0 \<notin> set s"
  shows "cstring m = s"
proof -
  have "m = s @ 0 # drop (Suc (length s)) m"
    using assms(1,2,3) by (metis append_take_drop_id Cons_nth_drop_Suc)
  then show ?thesis using assms(4) by (metis cstring_append_null)
qed

lemma lfn_entries_bounds:
  assumes "f \<noteq> []"
  defines "n \<equiv> fatfs_lfn_entries_required f"
  shows "0 < n" "length f \<le> n * 13" "n * 13 < length f + 13"
proof -
  have l: "0 < length f" using assms(1) by simp
  have n: "n = (length f + 12) div 13" using assms(1) by (simp add: n_def fatfs_lfn_entries_required_def)
  show "0 < n" "length f \<le> n * 13" "n * 13 < length f + 13"
    unfolding n using l by presburger+
qed

lemma lfn_slots_read:
  assumes "f \<noteq> []" and "length f \<le> 260" and "0 \<notin> set f" and "0xFF \<notin> set f"
    and "length (lfn_String lfn) = 260"
  shows "cstring (fst (fatfs_lfn_cache_get
      (fold (\<lambda>i c. fatfs_lfn_cache_entry c (fatfs_filename_to_lfn f i chk))
        (rev [0..<fatfs_lfn_entries_required f]) (fatfs_lfn_cache_init lfn wipe)))) = f
    \<and> (\<forall>i < fatfs_lfn_entries_required f. fatfs_entry_lfn_text (dir_entry_at (fatfs_filename_to_lfn f i chk) 0)
        \<and> fatfs_filename_to_lfn f i chk ! 13 = chk)"
proof -
  let ?n = "fatfs_lfn_entries_required f" and ?lfn = "fatfs_lfn_cache_init lfn wipe"
  note n = lfn_entries_bounds [OF assms(1)]
  have n20: "?n \<le> 20" using n(3) assms(2) by simp
  have i: "length (lfn_String ?lfn) = 260" "no_of_strings ?lfn = 0"
    using assms(5) by (simp_all add: fatfs_lfn_cache_init_def)
  obtain m where m: "fold (\<lambda>i c. fatfs_lfn_cache_entry c (fatfs_filename_to_lfn f i chk)) (rev [0..<?n]) ?lfn
      = ?lfn\<lparr>no_of_strings := word_of_nat ?n, lfn_String := m\<rparr>" "length m = 260"
    "\<forall>p < ?n * 13. m ! p = (if p \<le> length f then lfn_char f p else 0x20)"
    using lfn_cache_slots [OF i assms(4) n20, of 0 chk] n(1) by auto
  have u: "unat (word_of_nat ?n :: byte) = ?n" using n20 by (intro unat_word_of_nat) simp
  then have w: "(word_of_nat ?n :: byte) = 20 \<longleftrightarrow> ?n = 20" "(word_of_nat ?n :: byte) \<noteq> 0"
    using n(1) word_unat_eq_iff [of "word_of_nat ?n :: byte" 20] by auto
  let ?mem = "fst (fatfs_lfn_cache_get (?lfn\<lparr>no_of_strings := word_of_nat ?n, lfn_String := m\<rparr>))"
  have mem: "?mem ! p = (if ?n * 13 = p then 0 else m ! p)" if "p < 260 \<or> p = ?n * 13" for p
    using that u w n20 m(2) by (auto simp: fatfs_lfn_cache_get_def Let_def nth_append)
  have lm: "length ?mem = 261" using m(2) by (simp add: fatfs_lfn_cache_get_def Let_def)
  have "cstring ?mem = f"
  proof (rule cstring_eqI)
    show "length f < length ?mem" using lm assms(2) by simp
    show "take (length f) ?mem = f"
    proof (rule nth_equalityI)
      show "length (take (length f) ?mem) = length f" using lm assms(2) by simp
      fix p assume "p < length (take (length f) ?mem)"
      then show "take (length f) ?mem ! p = f ! p"
        using n(2) mem [of p] m(3) assms(2) by (auto simp: lfn_char_def)
    qed
    show "?mem ! length f = 0"
    proof (cases "length f = ?n * 13")
      case True
      then show ?thesis using mem [of "length f"] by simp
    next
      case False
      then have "length f < ?n * 13" "length f < 260" using n(2) n20 by linarith+
      then show ?thesis using mem [of "length f"] m(3) False by (simp add: lfn_char_def)
    qed
  qed (rule assms(3))
  moreover have "fatfs_entry_lfn_text (dir_entry_at (fatfs_filename_to_lfn f i chk) 0)
        \<and> fatfs_filename_to_lfn f i chk ! 13 = chk" if "i < ?n" for i
    using lfn_slot [where f = f and e = i and chk = chk] that n20 by (simp add: fatfs_entry_lfn_text_def dir_entry_at_def)
  ultimately show ?thesis using m(1) by simp
qed

text \<open>
  C21: a long file name of 1 to 260 characters, none of them null or 0xFF (an unused place of a slot
  has this byte, so that it comes back as a space), written into its 13-character slots and read back
  last slot first as directories store them, comes out of the cache unchanged, whatever the cache
  held before, and every slot carries the checksum and the attribute of a long-name entry.
\<close>

theorem lfn_slots_roundtrip:
  assumes "f \<noteq> []" and "length f \<le> 260" and "0 \<notin> set f" and "0xFF \<notin> set f"
    and "length (lfn_String lfn) = 260"
  shows "cstring (fst (fatfs_lfn_cache_get
      (fold (\<lambda>i c. fatfs_lfn_cache_entry c (fatfs_filename_to_lfn f i chk))
        (rev [0..<fatfs_lfn_entries_required f]) (fatfs_lfn_cache_init lfn wipe)))) = f
    \<and> (\<forall>i < fatfs_lfn_entries_required f. fatfs_entry_lfn_text (dir_entry_at (fatfs_filename_to_lfn f i chk) 0)
        \<and> fatfs_filename_to_lfn f i chk ! 13 = chk)"
  using lfn_slots_read [OF assms] by blast

theorem lfn_slots_roundtrip_witness:
  "cstring (fst (fatfs_lfn_cache_get
      (fold (\<lambda>i c. fatfs_lfn_cache_entry c (fatfs_filename_to_lfn (ascii ''Saturn save 01.bin'') i 0x5A)) [1, 0]
        (fatfs_lfn_cache_init \<lparr>lfn_String = replicate 260 7, lfn_Null = 7, no_of_strings = 3\<rparr> False))))
    = ascii ''Saturn save 01.bin''"
proof -
  have "rev [0..<fatfs_lfn_entries_required (ascii ''Saturn save 01.bin'')] = [1, 0]"
    by (simp add: fatfs_lfn_entries_required_def ascii_def upt_rec)
  then show ?thesis
    using lfn_slots_roundtrip [of "ascii ''Saturn save 01.bin''" "\<lparr>lfn_String = replicate 260 7, lfn_Null = 7, no_of_strings = 3\<rparr>" "0x5A" False]
    by (simp add: ascii_def)
qed

subsection \<open>Short names\<close>

definition sfn_pad :: "nat \<Rightarrow> byte list \<Rightarrow> byte list" where
  "sfn_pad n xs = xs @ replicate (n - length xs) CH_SPACE"

lemma find_dot_append: "find_dot (xs @ ys) i d = find_dot ys (i + length xs) (find_dot xs i d)"
  by (induction xs arbitrary: i d) simp_all

lemma find_dot_none: "CH_DOT \<notin> set xs \<Longrightarrow> find_dot xs i d = d"
  by (induction xs arbitrary: i d) auto

lemma sfn_base_eq:
  "pos < 8 \<Longrightarrow> length out = 11 \<Longrightarrow> sfn_base cs pos out
    = mem_write pos (take (8 - pos) (map sfn_upper (filter (\<lambda>c. c \<noteq> CH_SPACE \<and> c \<noteq> CH_DOT) cs))) out"
proof (induction cs arbitrary: pos out)
  case (Cons c cs)
  let ?keep = "\<lambda>c. c \<noteq> CH_SPACE \<and> c \<noteq> CH_DOT"
  let ?r = "map sfn_upper (filter ?keep cs)"
  consider "\<not> ?keep c" | "?keep c" "pos = 7" | "?keep c" "pos < 7" using Cons.prems(1) by linarith
  then show ?case
  proof cases
    case 1
    then show ?thesis using Cons by auto
  next
    case 2
    then show ?thesis using Cons.prems by (simp add: mem_write_Cons)
  next
    case 3
    then have "take (8 - pos) (sfn_upper c # ?r) = sfn_upper c # take (8 - (pos + 1)) ?r"
      by (simp add: take_Cons')
    moreover have "sfn_base (c # cs) pos out = sfn_base cs (pos + 1) (out[pos := sfn_upper c])"
      using 3 by simp
    ultimately show ?thesis
      using 3 Cons.IH [of "pos + 1" "out[pos := sfn_upper c]"] Cons.prems by (simp add: mem_write_Cons)
  qed
qed simp

lemma sfn_extension_eq:
  "sfn_extension f d [d + 1..<d + 1 + 3] (replicate 3 CH_SPACE) = sfn_pad 3 (take 3 (drop (d + 1) f))"
proof -
  have u: "[d + 1..<d + 1 + 3] = [d + 1, d + 2, d + 3]" by (simp add: upt_rec)
  have r: "replicate 3 x = [x, x, x]" for x :: byte by (simp add: numeral_3_eq_3)
  have t: "take 3 (drop (d + 1) f) = (if d + 1 < length f then [f ! (d + 1)] else [])
      @ (if d + 2 < length f then [f ! (d + 2)] else []) @ (if d + 3 < length f then [f ! (d + 3)] else [])"
  proof -
    define r where "r = drop (d + 1) f"
    have "d + 1 < length f \<longleftrightarrow> 0 < length r" "d + 2 < length f \<longleftrightarrow> 1 < length r" "d + 3 < length f \<longleftrightarrow> 2 < length r"
      by (auto simp: r_def)
    moreover have "0 < length r \<Longrightarrow> f ! (d + 1) = r ! 0" "1 < length r \<Longrightarrow> f ! (d + 2) = r ! 1"
      "2 < length r \<Longrightarrow> f ! (d + 3) = r ! 2"
      by (auto simp: r_def numeral_3_eq_3)
    ultimately show ?thesis
      unfolding r_def [symmetric] by (cases r; cases "tl r"; cases "tl (tl r)") (auto simp: nth_Cons')
  qed
  show ?thesis
    unfolding u r t by (auto simp: sfn_pad_def numeral_2_eq_2 numeral_3_eq_3)
qed

text \<open>
  The short name made from a long one, for every long name that does not begin with a dot:
  the first eight characters of the part before the last dot that are neither spaces nor dots,
  in upper case and filled with spaces, then the first three characters after the last dot, in
  upper case and filled with spaces. There is no extension when there is no dot.
\<close>

theorem create_sfn_correct:
  assumes "filename = b @ CH_DOT # e \<or> filename = b \<and> CH_DOT \<notin> set b \<and> e = []"
    and "CH_DOT \<notin> set e" and "filename = [] \<or> hd filename \<noteq> CH_DOT" and "length out = 11"
  shows "fatfs_lfn_create_sfn out filename
    = (True, sfn_pad 8 (take 8 (map sfn_upper (filter (\<lambda>c. c \<noteq> CH_SPACE \<and> c \<noteq> CH_DOT) b)))
        @ map sfn_upper (sfn_pad 3 (take 3 e)))"
proof -
  let ?base = "take 8 (map sfn_upper (filter (\<lambda>c. c \<noteq> CH_SPACE \<and> c \<noteq> CH_DOT) b))"
  have init: "mem_write 0 (replicate 11 CH_SPACE) out = replicate 11 CH_SPACE"
    using assms(4) by (simp add: mem_write_def)
  have parts: "(case find_dot filename 0 None of
      None \<Rightarrow> (replicate 3 CH_SPACE, length filename)
    | Some dotPos \<Rightarrow> (sfn_extension filename dotPos [dotPos + 1..<dotPos + 1 + 3] (replicate 3 CH_SPACE), dotPos))
    = (sfn_pad 3 (take 3 e), length b)"
    using assms(1)
  proof (elim disjE)
    assume f: "filename = b @ CH_DOT # e"
    then have "find_dot filename 0 None = Some (length b)"
      using assms(2) by (simp add: find_dot_append find_dot_none)
    then show ?thesis using f by (simp only: option.case sfn_extension_eq) simp
  next
    assume "filename = b \<and> CH_DOT \<notin> set b \<and> e = []"
    then show ?thesis by (simp add: find_dot_none sfn_pad_def)
  qed
  have b: "take (length b) filename = b" using assms(1) by auto
  have l: "length ?base \<le> 8" by simp
  have "mem_write 0 ?base (replicate 11 CH_SPACE) = sfn_pad 8 ?base @ replicate 3 CH_SPACE"
    using l by (simp add: mem_write_def sfn_pad_def flip: replicate_add)
  moreover have "mem_write 8 x (sfn_pad 8 ?base @ replicate 3 CH_SPACE) = sfn_pad 8 ?base @ x"
    if "length x = 3" for x
  proof -
    have "length (sfn_pad 8 ?base) = 8" using l by (simp add: sfn_pad_def del: length_take)
    then show ?thesis using that by (simp add: mem_write_def)
  qed
  moreover have "length (map sfn_upper (sfn_pad 3 (take 3 e))) = 3" by (simp add: sfn_pad_def)
  moreover have "\<not> (filename \<noteq> [] \<and> hd filename = CH_DOT)" using assms(3) by auto
  ultimately show ?thesis
    unfolding fatfs_lfn_create_sfn_def Let_def init parts prod.case
    using b sfn_base_eq [of 0 "replicate 11 CH_SPACE" b] by simp
qed

theorem create_sfn_correct_witness:
  "snd (fatfs_lfn_create_sfn (replicate 11 0) (ascii ''my game.v2.iso'')) = ascii ''MYGAMEV2ISO''"
  using create_sfn_correct [of "ascii ''my game.v2.iso''" "ascii ''my game.v2''" "ascii ''iso''" "replicate 11 0"]
  by (simp add: ascii_def sfn_pad_def sfn_upper_def)

text \<open>The decimal digits.\<close>

definition digits_value :: "byte list \<Rightarrow> nat" where
  "digits_value ds = foldr (\<lambda>d v. unat (d - 0x30) + 10 * v) ds 0"

lemma itoa_digits_all:
  "digits_value (itoa_digits num) = unat num \<and> (\<forall>d \<in> set (itoa_digits num). 0x30 \<le> d \<and> d \<le> 0x39)
    \<and> (\<forall>k. unat num < 10 ^ k \<longrightarrow> 0 < k \<longrightarrow> length (itoa_digits num) \<le> k)"
proof (induction num rule: itoa_digits.induct)
  case (1 num)
  let ?c = "ucast (num mod 10) :: byte"
  have m: "unat ?c = unat num mod 10"
  proof -
    have "unat num mod 10 < 2 ^ 8" by (rule less_trans [OF mod_less_divisor]) simp_all
    then show ?thesis by (simp add: unsigned_ucast_eq unat_mod take_bit_nat_eq_self)
  qed
  then have le: "unat ?c \<le> 9" using mod_less_divisor [of 10 "unat num"] by linarith
  then have "unat (?c + 0x30) = unat ?c + 48" using unat_add_lem [of ?c "0x30"] by simp
  then have digit: "0x30 \<le> ?c + 0x30 \<and> ?c + 0x30 \<le> 0x39" using le by (simp add: word_le_nat_alt)
  have gt: "0 < num div 10 \<longleftrightarrow> 10 \<le> unat num"
    by (simp add: word_less_nat_alt unat_div div_greater_zero_iff)
  show ?case
  proof (cases "0 < num div 10")
    case True
    then have ds: "itoa_digits num = (?c + 0x30) # itoa_digits (num div 10)" by (subst itoa_digits.simps) simp
    have "length (itoa_digits num) \<le> k" if k: "unat num < 10 ^ k" "0 < k" for k
    proof -
      obtain j where j: "k = Suc (Suc j)" using k True gt by (cases k; cases "k - 1") auto
      then have "unat (num div 10) < 10 ^ Suc j" using k(1) by (simp add: unat_div less_mult_imp_div_less mult.commute)
      then show ?thesis using 1 [OF True] j ds by auto
    qed
    then show ?thesis using 1 [OF True] m digit by (auto simp: ds digits_value_def unat_div)
  next
    case False
    then have "itoa_digits num = [?c + 0x30]" by (subst itoa_digits.simps) simp
    then show ?thesis using gt False m digit by (auto simp: digits_value_def)
  qed
qed

lemmas itoa_digits_facts = itoa_digits_all [THEN conjunct1] bspec [OF itoa_digits_all [THEN conjunct2, THEN conjunct1]]
  itoa_digits_all [THEN conjunct2, THEN conjunct2, rule_format]

lemma generate_tail_out:
  assumes "tailNum \<le> 99999" "length sfn = 11" "length out = 11"
  shows "fatfs_lfn_generate_tail out sfn tailNum
    = (True, take (7 - length (itoa_digits tailNum)) sfn @ 0x7E # rev (itoa_digits tailNum) @ drop 8 sfn)"
    "length (itoa_digits tailNum) \<le> 5"
proof -
  show l: "length (itoa_digits tailNum) \<le> 5"
    using itoa_digits_facts(3) [of tailNum 5] assms(1) by (simp add: word_le_nat_alt)
  have "mem_write 0 (take 11 sfn) out = sfn" using assms(2,3) by (simp add: mem_write_def)
  then show "fatfs_lfn_generate_tail out sfn tailNum
    = (True, take (7 - length (itoa_digits tailNum)) sfn @ 0x7E # rev (itoa_digits tailNum) @ drop 8 sfn)"
    using assms(1) l unfolding fatfs_lfn_generate_tail_def Let_def
    by (simp add: fatfs_itoa_def mem_write_def not_less)
qed

text \<open>
  The numeric tails of a short name. For numbers up to 99999 the tail overwrites the end of the
  eight-character base with a tilde and the decimal digits, keeps the extension and the characters
  before it, and two different numbers never give the same name; larger numbers are refused.
\<close>

theorem generate_tail_correct:
  assumes "length sfn = 11" and "length out = 11"
  shows "(t \<le> 99999 \<longrightarrow> (\<exists>r k. fatfs_lfn_generate_tail out sfn t = (True, r) \<and> length r = 11 \<and> k \<le> 5
        \<and> take (7 - k) r = take (7 - k) sfn \<and> r ! (7 - k) = 0x7E \<and> drop 8 r = drop 8 sfn
        \<and> digits_value (rev (take k (drop (8 - k) r))) = unat t))
    \<and> (t > 99999 \<longrightarrow> fatfs_lfn_generate_tail out sfn t = (False, out))
    \<and> (t \<le> 99999 \<longrightarrow> u \<le> 99999 \<longrightarrow> t \<noteq> u \<longrightarrow>
        fatfs_lfn_generate_tail out sfn t \<noteq> fatfs_lfn_generate_tail out sfn u)"
proof (intro conjI impI)
  assume t: "t \<le> 99999"
  let ?k = "length (itoa_digits t)"
  let ?r = "take (7 - ?k) sfn @ 0x7E # rev (itoa_digits t) @ drop 8 sfn"
  note o = generate_tail_out [OF t assms]
  have lt: "length (take (7 - ?k) sfn) = 7 - ?k" using assms(1) by simp
  have "drop (8 - ?k) ?r = rev (itoa_digits t) @ drop 8 sfn" "drop 8 ?r = drop 8 sfn"
    using o(2) lt by (simp_all add: drop_Cons')
  moreover have "?r ! (7 - ?k) = 0x7E" "take (7 - ?k) ?r = take (7 - ?k) sfn"
    using lt by (simp_all add: nth_append)
  moreover have "length ?r = 11" using o(2) assms(1) by simp
  ultimately show "\<exists>r k. fatfs_lfn_generate_tail out sfn t = (True, r) \<and> length r = 11 \<and> k \<le> 5
        \<and> take (7 - k) r = take (7 - k) sfn \<and> r ! (7 - k) = 0x7E \<and> drop 8 r = drop 8 sfn
        \<and> digits_value (rev (take k (drop (8 - k) r))) = unat t"
    using o by (intro exI [of _ ?r] exI [of _ ?k]) (simp add: itoa_digits_facts)
next
  assume "t > 99999"
  then show "fatfs_lfn_generate_tail out sfn t = (False, out)" by (simp add: fatfs_lfn_generate_tail_def)
next
  assume tu: "t \<le> 99999" "u \<le> 99999" "t \<noteq> u"
  have tail: "takeWhile (\<lambda>c. c \<noteq> 0x7E) (rev (take 8 (snd (fatfs_lfn_generate_tail out sfn v)))) = itoa_digits v"
    if "v \<le> 99999" for v
  proof -
    have "c \<noteq> 0x7E" if "c \<in> set (itoa_digits v)" for c
      using itoa_digits_facts(2) [OF that] by (auto simp: word_le_nat_alt)
    then show ?thesis
      using generate_tail_out [OF that assms] assms(1) by (simp add: takeWhile_append take_Cons')
  qed
  then show "fatfs_lfn_generate_tail out sfn t \<noteq> fatfs_lfn_generate_tail out sfn u"
    using tu tail [OF tu(1)] tail [OF tu(2)] itoa_digits_facts(1) by (metis word_unat_eq_iff)
qed

theorem generate_tail_correct_witness:
  "fatfs_lfn_generate_tail (replicate 11 0) (ascii ''README  TXT'') 2
    \<noteq> fatfs_lfn_generate_tail (replicate 11 0) (ascii ''README  TXT'') 12"
  using generate_tail_correct [of "ascii ''README  TXT''" "replicate 11 0" 2 12]
  by (simp add: ascii_def)

subsection \<open>Times and dates\<close>

text \<open>Three fields packed into sixteen bits, most significant first.\<close>

lemma unpack_fields:
  fixes a b c :: int
  assumes "j + k + l = 16"
  defines "t \<equiv> (word_of_int (push_bit (k + l) (take_bit j a)) OR word_of_int (push_bit l (take_bit k b))
    OR word_of_int (take_bit l c) :: u16)"
  shows "uint (drop_bit (k + l) t AND mask j) = take_bit j a" "uint (drop_bit l t AND mask k) = take_bit k b"
    "uint (t AND mask l) = take_bit l c"
  using assms(1) by (auto simp: t_def bit_simps intro!: bit_eqI)

lemma masks:
  "(0x1F :: u16) = mask 5" "(0x3F :: u16) = mask 6" "(0xF :: u16) = mask 4" "(0x7F :: u16) = mask 7"
  "(x :: int) AND 0x1F = take_bit 5 x" "x AND 0x3F = take_bit 6 x" "x AND 0xF = take_bit 4 x" "x AND 0x7F = take_bit 7 x"
  by (simp_all add: take_bit_eq_mask mask_eq_exp_minus_1)

text \<open>
  A time of day packed into a FAT time and unpacked again is the same time with the seconds
  rounded down to an even number.
\<close>

theorem fat_time_roundtrip:
  assumes "0 \<le> h" "h < 24" "0 \<le> m" "m < 60" "0 \<le> s" "s < 60"
  shows "fatfs_convert_from_fat_time (fatfs_convert_to_fat_time h m s) = (h, m, s - s mod 2)"
proof -
  have s2: "s sdiv 2 = s div 2" using assms(5) by (cases "s = 0") (simp_all add: signed_divide_int_def)
  have "take_bit 5 h = h" "take_bit 6 m = m" "take_bit 5 (s div 2) = s div 2"
    using assms by (auto intro!: take_bit_int_eq_self)
  moreover have "s div 2 * 2 = s - s mod 2" by (simp add: minus_mod_eq_div_mult)
  ultimately show ?thesis
    using unpack_fields [of 5 6 5 h m "s div 2"]
    by (simp add: fatfs_convert_from_fat_time_def fatfs_convert_to_fat_time_def Let_def masks s2 or.assoc)
qed

theorem fat_time_roundtrip_witness:
  "fatfs_convert_from_fat_time (fatfs_convert_to_fat_time 23 59 59) = (23, 59, 58)"
  using fat_time_roundtrip [of 23 59 59] by simp

text \<open>
  A date from 1980 to 2107 packed into a FAT date and unpacked again is the same date.
\<close>

theorem fat_date_roundtrip:
  assumes "1 \<le> d" "d \<le> 31" "1 \<le> m" "m \<le> 12" "1980 \<le> y" "y \<le> 2107"
  shows "fatfs_convert_from_fat_date (fatfs_convert_to_fat_date d m y) = (d, m, y)"
proof -
  have "take_bit 5 d = d" "take_bit 4 m = m" "take_bit 7 (y - 1980) = y - 1980"
    using assms by (auto intro!: take_bit_int_eq_self)
  then show ?thesis
    using unpack_fields [of 7 4 5 "y - 1980" m d] assms(5)
    by (simp add: fatfs_convert_from_fat_date_def fatfs_convert_to_fat_date_def Let_def masks or.commute or.left_commute)
qed

theorem fat_date_roundtrip_witness:
  "fatfs_convert_from_fat_date (fatfs_convert_to_fat_date 22 11 1994) = (22, 11, 1994)"
  using fat_date_roundtrip [of 22 11 1994] by simp

end
