(* ===== verification/FatString.thy ===== *)
theory FatString
  imports FtxPrelude
begin

section \<open>Paths and names\<close>

text \<open>
  Models \<open>fat_string.c\<close>. A C string is the list of its characters without the terminating null;
  \<open>char_at\<close> reads a character of it, the null included, and is \<open>None\<close> beyond. Characters are
  compared as the C compares them; \<open>char\<close> is signed on the Saturn's compiler, which matters only
  for the sign of \<open>FileString_StrCmpNoCase\<close>. An output buffer is the string left in it.
\<close>

definition char_at :: "byte list \<Rightarrow> nat \<Rightarrow> byte option" where
  "char_at s i = (if i < length s then Some (s ! i) else if i = length s then Some 0 else None)"

abbreviation CHAR_SLASH :: byte where "CHAR_SLASH \<equiv> 0x2F"
abbreviation CHAR_BACKSLASH :: byte where "CHAR_BACKSLASH \<equiv> 0x5C"
abbreviation CHAR_COLON :: byte where "CHAR_COLON \<equiv> 0x3A"
abbreviation CHAR_DOT :: byte where "CHAR_DOT \<equiv> 0x2E"
abbreviation CHAR_SPACE :: byte where "CHAR_SPACE \<equiv> 0x20"

definition lower_case :: "byte \<Rightarrow> byte" where
  "lower_case a = (if a \<ge> 0x41 \<and> a \<le> 0x5A then a + 32 else a)"

text \<open>
  The recognition of the two path formats, shared by the two functions below: the separator and
  the path after the root. \<open>Some None\<close> is the error return.
\<close>

definition path_format :: "byte list \<Rightarrow> (byte \<times> byte list) option option" where
  "path_format path = do {
     c0 \<leftarrow> char_at path 0;
     if c0 = CHAR_SLASH then Some (Some (CHAR_SLASH, drop 1 path))
     else do {
       c1 \<leftarrow> char_at path 1;
       windows \<leftarrow> (if c1 = CHAR_COLON then Some True
                  else do { c2 \<leftarrow> char_at path 2; Some (c2 = CHAR_BACKSLASH) });
       if windows then (if length path < 3 then None else Some (Some (CHAR_BACKSLASH, drop 3 path)))
       else Some None } }"

text \<open>The rest of the path after the next separator.\<close>

fun after_separator :: "byte \<Rightarrow> byte list \<Rightarrow> byte list" where
  "after_separator sep [] = []"
| "after_separator sep (c # cs) = (if c = sep then cs else after_separator sep cs)"

lemma after_separator_length: "length (after_separator sep cs) \<le> length cs"
  by (induction sep cs rule: after_separator.induct) auto

function count_levels :: "byte \<Rightarrow> byte list \<Rightarrow> int" where
  "count_levels sep path = (if path = [] then 0 else 1 + count_levels sep (after_separator sep path))"
  by pat_completeness auto
termination
proof (relation "measure (\<lambda>(sep, path). length path)")
  fix sep :: byte and path :: "byte list" assume "path \<noteq> []"
  then show "((sep, after_separator sep path), sep, path) \<in> measure (\<lambda>(sep, path). length path)"
    using after_separator_length [of sep "tl path"] by (cases path) auto
qed simp

declare count_levels.simps [simp del]

definition fatfs_total_path_levels :: "byte list \<Rightarrow> int option" where
  "fatfs_total_path_levels path = do {
     f \<leftarrow> path_format path;
     case f of None \<Rightarrow> Some (- 1)
     | Some (expectedchar, path) \<Rightarrow> Some (count_levels expectedchar path - 1) }"

fun get_substring_loop :: "byte \<Rightarrow> int \<Rightarrow> int \<Rightarrow> byte list \<Rightarrow> int \<Rightarrow> byte list \<Rightarrow> byte list" where
  "get_substring_loop sep levelreq max_len [] levels output = output"
| "get_substring_loop sep levelreq max_len (c # cs) levels output =
     (let levels = (if c = sep then levels + 1 else levels);
          output = (if levels = levelreq \<and> c \<noteq> sep \<and> int (length output) < max_len - 1 then output @ [c] else output)
      in get_substring_loop sep levelreq max_len cs levels output)"

definition fatfs_get_substring :: "byte list \<Rightarrow> int \<Rightarrow> byte list \<Rightarrow> int \<Rightarrow> (int \<times> byte list) option" where
  "fatfs_get_substring path levelreq output max_len =
     (if max_len \<le> 0 then Some (- 1, output)
      else do {
        f \<leftarrow> path_format path;
        case f of None \<Rightarrow> Some (- 1, output)
        | Some (expectedchar, path) \<Rightarrow>
            (let out = get_substring_loop expectedchar levelreq max_len path 0 []
             in Some (if out \<noteq> [] then 0 else - 1, out)) })"

text \<open>The results of \<open>fatfs_split_path\<close> are the status, the path and the file name.\<close>

definition fatfs_split_path :: "byte list \<Rightarrow> byte list \<Rightarrow> int \<Rightarrow> byte list \<Rightarrow> int
    \<Rightarrow> (int \<times> byte list \<times> byte list) option" where
  "fatfs_split_path full_path path max_path filename max_filename = do {
     levels \<leftarrow> fatfs_total_path_levels full_path;
     if levels = - 1 then Some (- 1, path, filename)
     else do {
       (r, filename) \<leftarrow> fatfs_get_substring full_path levels filename max_filename;
       if r \<noteq> 0 then Some (- 1, path, filename)
       else if levels = 0 then Some (0, [], filename)
       else
         (let strindex = int (length full_path) - int (length filename);
              strindex = (if strindex > max_path then max_path else strindex)
          in if strindex < 1 then None
             else Some (0, take (nat strindex - 1) full_path, filename)) } }"

fun FileString_StrCmpNoCase :: "byte list \<Rightarrow> byte list \<Rightarrow> nat \<Rightarrow> int" where
  "FileString_StrCmpNoCase s1 s2 0 = 0"
| "FileString_StrCmpNoCase s1 s2 (Suc n) =
     (let a = lower_case (case s1 of [] \<Rightarrow> 0 | c # cs \<Rightarrow> c);
          b = lower_case (case s2 of [] \<Rightarrow> 0 | c # cs \<Rightarrow> c);
          diff = sint a - sint b
      in if diff \<noteq> 0 then diff
         else if s1 = [] \<or> s2 = [] then 0
         else FileString_StrCmpNoCase (tl s1) (tl s2) n)"

fun last_dot :: "byte list \<Rightarrow> nat \<Rightarrow> int \<Rightarrow> int" where
  "last_dot [] i dotPos = dotPos"
| "last_dot (c # cs) i dotPos = last_dot cs (i + 1) (if c = CHAR_DOT then int i else dotPos)"

definition FileString_GetExtension :: "byte list \<Rightarrow> int" where
  "FileString_GetExtension str = last_dot str 0 (- 1)"

fun trim_length :: "byte list \<Rightarrow> nat \<Rightarrow> nat \<Rightarrow> nat" where
  "trim_length str 0 len = len"
| "trim_length str (Suc n) len = (if str ! n = CHAR_SPACE then trim_length str n n else len)"

definition FileString_TrimLength :: "byte list \<Rightarrow> nat \<Rightarrow> nat" where
  "FileString_TrimLength str strLen = trim_length str strLen strLen"

definition fatfs_compare_names :: "byte list \<Rightarrow> byte list \<Rightarrow> bool" where
  "fatfs_compare_names strA strB =
     (let ext1Pos = FileString_GetExtension strA; ext2Pos = FileString_GetExtension strB
      in if ext1Pos = - 1 \<and> ext2Pos \<noteq> - 1 then False
         else if ext2Pos = - 1 \<and> ext1Pos \<noteq> - 1 then False
         else
           (let ext1 = drop (nat (ext1Pos + 1)) strA; ext2 = drop (nat (ext2Pos + 1)) strB
            in if ext1Pos \<noteq> - 1 \<and> length ext1 \<noteq> length ext2 then False
               else if ext1Pos \<noteq> - 1 \<and> FileString_StrCmpNoCase ext1 ext2 (length ext1) \<noteq> 0 then False
               else
                 (let file1Len = (if ext1Pos \<noteq> - 1 then nat ext1Pos else length strA);
                      file2Len = (if ext1Pos \<noteq> - 1 then nat ext2Pos else length strB);
                      file1Len = FileString_TrimLength strA file1Len;
                      file2Len = FileString_TrimLength strB file2Len
                  in if file1Len \<noteq> file2Len then False
                     else FileString_StrCmpNoCase strA strB file1Len = 0)))"

fun fatfs_string_ends_with_slash :: "byte list \<Rightarrow> bool" where
  "fatfs_string_ends_with_slash [] = False"
| "fatfs_string_ends_with_slash (c # cs) =
     (if cs = [] \<and> (c = CHAR_BACKSLASH \<or> c = CHAR_SLASH) then True else fatfs_string_ends_with_slash cs)"

fun sfn_display_loop :: "byte list \<Rightarrow> nat \<Rightarrow> byte list" where
  "sfn_display_loop [] len = []"
| "sfn_display_loop (a # cs) len =
     (if len \<le> 11
      then (if a = CHAR_SPACE then sfn_display_loop cs len else lower_case a # sfn_display_loop cs (len + 1))
      else [])"

definition fatfs_get_sfn_display_name :: "byte list \<Rightarrow> int \<times> byte list" where
  "fatfs_get_sfn_display_name inp = (1, sfn_display_loop inp 0)"

definition fatfs_get_extension :: "byte list \<Rightarrow> byte list \<Rightarrow> int \<Rightarrow> int \<times> byte list" where
  "fatfs_get_extension filename out maxlen =
     (let ext_pos = FileString_GetExtension filename
      in if ext_pos > 0 \<and> maxlen \<noteq> 0
         then (1, map lower_case (take (nat (maxlen - 1)) (drop (nat (ext_pos + 1)) filename)))
         else (0, out))"

text \<open>
  The first loop of \<open>fatfs_create_path_string\<close> returns what it copied, the last character and the
  separator it found.
\<close>

fun create_path_loop :: "byte list \<Rightarrow> int \<Rightarrow> int \<Rightarrow> byte \<Rightarrow> byte \<Rightarrow> byte list \<times> int \<times> byte \<times> byte" where
  "create_path_loop [] len maxlen lst sep = ([], len, lst, sep)"
| "create_path_loop (c # cs) len maxlen lst sep =
     (if len < maxlen - 2
      then (case create_path_loop cs (len + 1) maxlen c (if c = CHAR_BACKSLASH then CHAR_BACKSLASH else sep) of
        (out, r) \<Rightarrow> (c # out, r))
      else ([], len, lst, sep))"

definition fatfs_create_path_string :: "byte list \<Rightarrow> byte list \<Rightarrow> byte list \<Rightarrow> int \<Rightarrow> int \<times> byte list" where
  "fatfs_create_path_string path filename out maxlen =
     (if maxlen > 0
      then (case create_path_loop path 0 maxlen 0 CHAR_SLASH of
        (copied, len, lst, sep) \<Rightarrow>
          (1, copied @ (if lst \<noteq> CHAR_BACKSLASH \<and> lst \<noteq> CHAR_SLASH then [sep] else [])
              @ take (nat (maxlen - 1 - len)) filename))
      else (0, out))"

subsection \<open>Comparing names\<close>

definition trim_spaces :: "byte list \<Rightarrow> byte list" where
  "trim_spaces s = rev (dropWhile (\<lambda>c. c = CHAR_SPACE) (rev s))"

text \<open>What two names must share to be the same file: the extension after the last dot, if any, and
  the rest without the spaces at its end, both without regard to case.\<close>

definition name_key :: "byte list \<Rightarrow> byte list option \<times> byte list" where
  "name_key s = (if CHAR_DOT \<in> set s
     then (Some (map lower_case (rev (takeWhile (\<lambda>c. c \<noteq> CHAR_DOT) (rev s)))),
       map lower_case (trim_spaces (rev (tl (dropWhile (\<lambda>c. c \<noteq> CHAR_DOT) (rev s))))))
     else (None, map lower_case (trim_spaces s)))"

lemma name_key_dot:
  assumes "CHAR_DOT \<notin> set e"
  shows "name_key (b @ CHAR_DOT # e) = (Some (map lower_case e), map lower_case (trim_spaces b))"
proof -
  have "takeWhile (\<lambda>c. c \<noteq> CHAR_DOT) (rev e @ CHAR_DOT # rev b) = rev e"
    "dropWhile (\<lambda>c. c \<noteq> CHAR_DOT) (rev e @ CHAR_DOT # rev b) = CHAR_DOT # rev b"
    using assms by (auto simp: takeWhile_append dropWhile_append)
  then show ?thesis by (simp add: name_key_def)
qed

lemma last_dot_append: "last_dot (xs @ ys) i d = last_dot ys (i + length xs) (last_dot xs i d)"
  by (induction xs arbitrary: i d) simp_all

lemma last_dot_none: "CHAR_DOT \<notin> set xs \<Longrightarrow> last_dot xs i d = d"
  by (induction xs arbitrary: i d) auto

lemma GetExtension_cases:
  obtains "FileString_GetExtension s = - 1" "CHAR_DOT \<notin> set s"
  | b e where "s = b @ CHAR_DOT # e" "CHAR_DOT \<notin> set e" "FileString_GetExtension s = int (length b)"
proof (cases "CHAR_DOT \<in> set s")
  case False
  then show thesis using that(1) by (simp add: FileString_GetExtension_def last_dot_none)
next
  case True
  then obtain b e where s: "s = b @ CHAR_DOT # e" "CHAR_DOT \<notin> set e" by (meson split_list_last)
  then have "FileString_GetExtension s = int (length b)"
    by (simp add: FileString_GetExtension_def last_dot_append last_dot_none)
  then show thesis using that(2) s by blast
qed

lemma StrCmpNoCase_eq_0:
  "n \<le> length s1 \<Longrightarrow> n \<le> length s2 \<Longrightarrow>
    FileString_StrCmpNoCase s1 s2 n = 0 \<longleftrightarrow> map lower_case (take n s1) = map lower_case (take n s2)"
proof (induction s1 s2 n rule: FileString_StrCmpNoCase.induct)
  case (2 s1 s2 n)
  then obtain a r1 b r2 where "s1 = a # r1" "s2 = b # r2" by (cases s1; cases s2) auto
  then show ?case using 2 by (auto simp: Let_def signed_word_eqI)
qed simp

lemma trim_length_take:
  "n \<le> length s \<Longrightarrow> trim_length s n n \<le> n \<and> take (trim_length s n n) s = trim_spaces (take n s)"
proof (induction n)
  case (Suc n)
  then have "take (Suc n) s = take n s @ [s ! n]" by (simp add: take_Suc_conv_app_nth)
  then show ?case using Suc by (auto simp: trim_spaces_def)
qed (simp add: trim_spaces_def)

lemma TrimLength_take:
  assumes "n \<le> length s"
  shows "FileString_TrimLength s n \<le> n" "take (FileString_TrimLength s n) s = trim_spaces (take n s)"
    "length (trim_spaces (take n s)) = FileString_TrimLength s n"
  using trim_length_take [OF assms] assms
  by (auto simp: FileString_TrimLength_def) (metis length_take min.absorb2 order_trans)

lemma compare_trimmed:
  assumes "m \<le> length s" "n \<le> length t"
  shows "(FileString_TrimLength s m = FileString_TrimLength t n
      \<and> FileString_StrCmpNoCase s t (FileString_TrimLength s m) = 0)
    \<longleftrightarrow> map lower_case (trim_spaces (take m s)) = map lower_case (trim_spaces (take n t))"
proof -
  note s = TrimLength_take [OF assms(1)] and t = TrimLength_take [OF assms(2)]
  show ?thesis
  proof (cases "FileString_TrimLength s m = FileString_TrimLength t n")
    case True
    then show ?thesis
      using s t assms StrCmpNoCase_eq_0 [of "FileString_TrimLength s m" s t] by auto
  next
    case False
    then show ?thesis using s(3) t(3) by (metis length_map)
  qed
qed

lemma compare_names_key: "fatfs_compare_names a b \<longleftrightarrow> name_key a = name_key b"
proof (cases a rule: GetExtension_cases)
  case 1
  note a = 1
  show ?thesis
  proof (cases b rule: GetExtension_cases)
    case 1
    then show ?thesis
      using a compare_trimmed [of "length a" a "length b" b]
      by (auto simp: fatfs_compare_names_def Let_def name_key_def)
  next
    case (2 bb be)
    then show ?thesis using a by (simp add: fatfs_compare_names_def name_key_def)
  qed
next
  case (2 ab ae)
  note a = 2
  show ?thesis
  proof (cases b rule: GetExtension_cases)
    case 1
    then show ?thesis using a by (simp add: fatfs_compare_names_def name_key_def)
  next
    case (2 bb be)
    have p: "nat (int (length ab) + 1) = Suc (length ab)" "nat (int (length bb) + 1) = Suc (length bb)"
      by simp_all
    have "fatfs_compare_names a b \<longleftrightarrow> length ae = length be \<and> FileString_StrCmpNoCase ae be (length ae) = 0
        \<and> FileString_TrimLength a (length ab) = FileString_TrimLength b (length bb)
        \<and> FileString_StrCmpNoCase a b (FileString_TrimLength a (length ab)) = 0"
      unfolding fatfs_compare_names_def Let_def a(3) 2(3) p using a(1) 2(1) by auto
    also have "\<dots> \<longleftrightarrow> map lower_case ae = map lower_case be
        \<and> map lower_case (trim_spaces ab) = map lower_case (trim_spaces bb)"
    proof -
      have "length ae = length be \<and> FileString_StrCmpNoCase ae be (length ae) = 0
          \<longleftrightarrow> map lower_case ae = map lower_case be"
        using StrCmpNoCase_eq_0 [of "length ae" ae be] map_eq_imp_length_eq [of lower_case ae lower_case be]
        by (cases "length ae = length be") auto
      then show ?thesis
        using compare_trimmed [of "length ab" a "length bb" b] a(1) 2(1) by auto
    qed
    finally show ?thesis using a 2 by (simp add: name_key_dot)
  qed
qed

text \<open>
  Two names are taken for the same file exactly when their extensions, if they have one, and
  their parts before it, without the spaces at the end, agree up to the case of letters. So the
  comparison is reflexive, symmetric and transitive.
\<close>

theorem compare_names_correct: "fatfs_compare_names a b \<longleftrightarrow> name_key a = name_key b"
  by (rule compare_names_key)

subsection \<open>Taking paths apart and putting them together\<close>

fun join_path :: "byte \<Rightarrow> byte list list \<Rightarrow> byte list" where
  "join_path sep [] = []"
| "join_path sep [c] = c"
| "join_path sep (c # cs) = c @ sep # join_path sep cs"

definition path_root :: "byte \<Rightarrow> byte list \<Rightarrow> bool" where
  "path_root sep root \<longleftrightarrow> (sep = CHAR_SLASH \<and> root = [CHAR_SLASH]
     \<or> sep = CHAR_BACKSLASH \<and> length root = 3 \<and> root ! 0 \<noteq> CHAR_SLASH
       \<and> (root ! 1 = CHAR_COLON \<or> root ! 2 = CHAR_BACKSLASH))"

definition path_names :: "byte \<Rightarrow> byte list list \<Rightarrow> bool" where
  "path_names sep cs \<longleftrightarrow> cs \<noteq> [] \<and> (\<forall>c \<in> set cs. c \<noteq> [] \<and> sep \<notin> set c)"

lemma path_format_root:
  assumes "path_root sep root"
  shows "path_format (root @ p) = Some (Some (sep, p))"
proof -
  consider "sep = CHAR_SLASH" "root = [CHAR_SLASH]"
    | a b c where "sep = CHAR_BACKSLASH" "root = [a, b, c]" "a \<noteq> CHAR_SLASH" "b = CHAR_COLON \<or> c = CHAR_BACKSLASH"
    using assms by (auto simp: path_root_def numeral_3_eq_3 length_Suc_conv)
  then show ?thesis
    by cases (auto simp: path_format_def char_at_def)
qed

lemma after_separator_append:
  "sep \<notin> set c \<Longrightarrow> after_separator sep (c @ rest) = (if rest = [] then [] else after_separator sep rest)"
  by (induction c) auto

lemma count_levels_join: "path_names sep cs \<Longrightarrow> count_levels sep (join_path sep cs) = int (length cs)"
proof (induction sep cs rule: join_path.induct)
  case (2 sep c)
  then show ?case
    using after_separator_append [of sep c "[]"]
    by (simp add: path_names_def count_levels.simps [of sep c] count_levels.simps [of sep "[]"])
next
  case (3 sep c d cs)
  then have "count_levels sep (join_path sep (d # cs)) = int (length (d # cs))" "sep \<notin> set c"
    by (simp_all add: path_names_def)
  then show ?case
    by (subst count_levels.simps) (simp add: after_separator_append)
qed (simp add: path_names_def)

lemma substring_append:
  "get_substring_loop sep l m (xs @ ys) k out
    = get_substring_loop sep l m ys (k + int (length (filter (\<lambda>c. c = sep) xs))) (get_substring_loop sep l m xs k out)"
  by (induction xs arbitrary: k out) (simp_all add: add.assoc)

lemma substring_name:
  "sep \<notin> set c \<Longrightarrow> int (length out + length c) < m \<Longrightarrow>
    get_substring_loop sep l m c k out = (if k = l then out @ c else out)"
  by (induction c arbitrary: out) auto

lemma substring_after: "k > l \<Longrightarrow> get_substring_loop sep l m xs k out = out"
  by (induction xs arbitrary: k) auto

lemma substring_other:
  "sep \<notin> set c \<Longrightarrow> k \<noteq> l \<Longrightarrow> get_substring_loop sep l m c k out = out"
  by (induction c) auto

lemma substring_join:
  "path_names sep cs \<Longrightarrow> i < length cs \<Longrightarrow> int (length (cs ! i)) < m \<Longrightarrow>
    get_substring_loop sep (k + int i) m (join_path sep cs) k [] = cs ! i"
proof (induction sep cs arbitrary: i k rule: join_path.induct)
  case (2 sep c)
  then show ?case using substring_name [of sep c "[]" m] by (simp add: path_names_def)
next
  case (3 sep c d cs)
  then have c: "sep \<notin> set c" and names: "path_names sep (d # cs)" by (simp_all add: path_names_def)
  have f: "filter (\<lambda>x. x = sep) c = []" using c by (auto simp: filter_empty_conv)
  show ?case
  proof (cases i)
    case 0
    then show ?thesis
      using 3(4) c f substring_name [of sep c "[]" m k k] substring_after [of k "k + 1" sep m]
      by (simp add: substring_append)
  next
    case (Suc j)
    then have "get_substring_loop sep (k + 1 + int j) m (join_path sep (d # cs)) (k + 1) [] = (d # cs) ! j"
      using 3(1) [OF names, of j "k + 1"] 3(3,4) by simp
    then show ?thesis
      using Suc c f substring_other [of sep c k "k + int i" m "[]"] by (simp add: substring_append add.assoc)
  qed
qed (simp add: path_names_def)

lemma join_path_snoc: "cs \<noteq> [] \<Longrightarrow> join_path sep (cs @ [c]) = join_path sep cs @ sep # c"
  by (induction sep cs rule: join_path.induct) auto

lemma path_parts:
  assumes "path_root sep root" and "path_names sep cs" and "i < length cs"
    and "int (length (cs ! i)) < max_len" and "int (length (last cs)) < max_filename"
    and "int (length root + length (join_path sep cs)) \<le> max_path + int (length (last cs))"
  shows "fatfs_total_path_levels (root @ join_path sep cs) = Some (int (length cs) - 1)
    \<and> fatfs_get_substring (root @ join_path sep cs) (int i) out max_len = Some (0, cs ! i)
    \<and> fatfs_split_path (root @ join_path sep cs) pathbuf max_path filebuf max_filename
      = Some (0, if length cs = 1 then [] else root @ join_path sep (butlast cs), last cs)"
proof (intro conjI)
  note root = path_format_root [OF assms(1), of "join_path sep cs"]
  show levels: "fatfs_total_path_levels (root @ join_path sep cs) = Some (int (length cs) - 1)"
    using count_levels_join [OF assms(2)] by (simp add: fatfs_total_path_levels_def root)
  have sub: "fatfs_get_substring (root @ join_path sep cs) (int j) o' m = Some (0, cs ! j)"
    if "j < length cs" "int (length (cs ! j)) < m" for j o' m
  proof -
    have "cs ! j \<noteq> []" using assms(2) that(1) by (auto simp: path_names_def)
    then show ?thesis
      using substring_join [OF assms(2) that, of 0] that(2) by (simp add: fatfs_get_substring_def root)
  qed
  then show "fatfs_get_substring (root @ join_path sep cs) (int i) out max_len = Some (0, cs ! i)"
    using assms(3,4) by blast
  have cs: "cs \<noteq> []" using assms(2) by (simp add: path_names_def)
  then have l: "last cs = cs ! (length cs - 1)" "0 < length cs" by (simp_all add: last_conv_nth)
  then have name_ok: "fatfs_get_substring (root @ join_path sep cs) (int (length cs) - 1) filebuf max_filename
      = Some (0, last cs)"
  proof -
    have "int (length cs) - 1 = int (length cs - 1)" using l(2) by linarith
    then show ?thesis using sub [of "length cs - 1" max_filename filebuf] assms(5) l by (simp only: diff_less)
  qed
  show "fatfs_split_path (root @ join_path sep cs) pathbuf max_path filebuf max_filename
      = Some (0, if length cs = 1 then [] else root @ join_path sep (butlast cs), last cs)"
  proof (cases "length cs = 1")
    case True
    then show ?thesis using levels name_ok by (simp add: fatfs_split_path_def)
  next
    case False
    then have "butlast cs \<noteq> []" "length cs > 1" using l(2) by (cases cs; cases "tl cs"; auto)+
    moreover have "cs = butlast cs @ [last cs]" using cs by simp
    ultimately have j: "join_path sep cs = join_path sep (butlast cs) @ sep # last cs"
      by (metis join_path_snoc)
    have "0 < length root" using assms(1) by (auto simp: path_root_def)
    then show ?thesis
      using levels name_ok False l(2) assms(6) unfolding j by (simp add: fatfs_split_path_def nat_diff_distrib)
  qed
qed

text \<open>
  A path of both accepted formats, made of names joined by its separator, is taken apart into
  exactly those names: the number of levels, the name at each level, and the split into the
  directory and the file name, as long as the buffers hold them.
\<close>

theorem split_path_correct:
  assumes "path_root sep root" and "path_names sep cs" and "i < length cs"
    and "int (length (cs ! i)) < max_len" and "int (length (last cs)) < max_filename"
    and "int (length root + length (join_path sep cs)) \<le> max_path + int (length (last cs))"
  shows "fatfs_total_path_levels (root @ join_path sep cs) = Some (int (length cs) - 1)
    \<and> fatfs_get_substring (root @ join_path sep cs) (int i) out max_len = Some (0, cs ! i)
    \<and> fatfs_split_path (root @ join_path sep cs) pathbuf max_path filebuf max_filename
      = Some (0, if length cs = 1 then [] else root @ join_path sep (butlast cs), last cs)"
  using path_parts [OF assms] .

theorem split_path_correct_witness:
  "fatfs_split_path (ascii ''/saves/panzer/slot1.bin'') [] 96 [] 96
    = Some (0, ascii ''/saves/panzer'', ascii ''slot1.bin'')"
  using split_path_correct [of CHAR_SLASH "[CHAR_SLASH]" "[ascii ''saves'', ascii ''panzer'', ascii ''slot1.bin'']"
      0 96 96 96 "[]" "[]" "[]"]
  by (simp add: path_root_def path_names_def ascii_def)

text \<open>Joining a directory and a name.\<close>

lemma create_path_loop_eq:
  "create_path_loop p len m lst sep =
    (let k = min (length p) (nat (m - 2 - len)); q = take k p
     in (q, len + int k, (if q = [] then lst else last q), (if CHAR_BACKSLASH \<in> set q then CHAR_BACKSLASH else sep)))"
proof (induction p len m lst sep rule: create_path_loop.induct)
  case (2 c cs len m lst sep)
  show ?case
  proof (cases "len < m - 2")
    case True
    then have "nat (m - 2 - len) = Suc (nat (m - 2 - (len + 1)))" by simp
    then show ?thesis using 2 [OF True] True by (auto simp: Let_def min_def)
  qed simp
qed simp

lemma create_path_string_eq:
  fixes path :: "byte list"
  assumes "maxlen > 0"
  defines "k \<equiv> min (length path) (nat (maxlen - 2))"
  shows "fatfs_create_path_string path filename out maxlen
    = (1, take k path @ (if take k path \<noteq> [] \<and> last (take k path) \<in> {CHAR_BACKSLASH, CHAR_SLASH} then []
        else [if CHAR_BACKSLASH \<in> set (take k path) then CHAR_BACKSLASH else CHAR_SLASH])
        @ take (nat (maxlen - 1 - int k)) filename)"
proof -
  define q where "q = take k path"
  have "create_path_loop path 0 maxlen 0 CHAR_SLASH = (q, int k, (if q = [] then 0 else last q),
      (if CHAR_BACKSLASH \<in> set q then CHAR_BACKSLASH else CHAR_SLASH))"
  proof -
    have k: "min (length path) (nat (maxlen - 2 - 0)) = k" by (simp add: k_def)
    show ?thesis unfolding create_path_loop_eq Let_def k q_def [symmetric] by simp
  qed
  then show ?thesis
    using assms(1) unfolding q_def [symmetric] by (cases "q = []") (simp_all add: fatfs_create_path_string_def)
qed

text \<open>
  C39: joining a directory and a file name in a buffer of \<open>maxlen\<close> characters. What fits is the
  directory, a separator unless it ends with one, and the name. But the separator is not counted:
  the string can have \<open>maxlen\<close> characters and its null one more byte than the buffer, and for
  every \<open>maxlen\<close> there are arguments with which it does.
\<close>

theorem create_path_string_correct:
  assumes "maxlen > 0"
  shows "int (length (snd (fatfs_create_path_string path filename out maxlen))) \<le> maxlen
    \<and> (\<exists>p f. int (length (snd (fatfs_create_path_string p f out maxlen))) = maxlen)
    \<and> (int (length path) \<le> maxlen - 2 \<longrightarrow> int (length path) + int (length filename) \<le> maxlen - 1 \<longrightarrow>
        fatfs_create_path_string path filename out maxlen
          = (1, path @ (if path \<noteq> [] \<and> last path \<in> {CHAR_BACKSLASH, CHAR_SLASH} then []
              else [if CHAR_BACKSLASH \<in> set path then CHAR_BACKSLASH else CHAR_SLASH]) @ filename))"
proof (intro conjI impI)
  note eq = create_path_string_eq [OF assms]
  let ?k = "min (length path) (nat (maxlen - 2))"
  have bound: "int (a + (b + c)) \<le> maxlen" if "a = k" "b \<le> 1" "c \<le> nat (maxlen - 1 - int k)" "int k \<le> maxlen - 1" for a b c k
    using that by linarith
  show "int (length (snd (fatfs_create_path_string path filename out maxlen))) \<le> maxlen"
    unfolding eq snd_conv length_append by (rule bound [of _ ?k]) (use assms in auto)
  let ?p = "replicate (nat (maxlen - 2)) (0x61 :: byte)"
  have p: "take (min (length ?p) (nat (maxlen - 2))) ?p = ?p" by simp
  have "\<not> (?p \<noteq> [] \<and> last ?p \<in> {CHAR_BACKSLASH, CHAR_SLASH})" by auto
  then have "int (length (snd (fatfs_create_path_string ?p [0x62] out maxlen))) = maxlen"
    unfolding eq snd_conv p using assms by (cases "maxlen \<le> 2") simp_all
  then show "\<exists>p f. int (length (snd (fatfs_create_path_string p f out maxlen))) = maxlen" by blast
  assume fit: "int (length path) \<le> maxlen - 2" "int (length path) + int (length filename) \<le> maxlen - 1"
  then have "?k = length path" "length filename \<le> nat (maxlen - 1 - int (length path))" by simp_all
  then show "fatfs_create_path_string path filename out maxlen
          = (1, path @ (if path \<noteq> [] \<and> last path \<in> {CHAR_BACKSLASH, CHAR_SLASH} then []
              else [if CHAR_BACKSLASH \<in> set path then CHAR_BACKSLASH else CHAR_SLASH]) @ filename)"
    unfolding eq by (simp only: take_all order_refl)
qed

theorem create_path_string_correct_witness:
  "fatfs_create_path_string (ascii ''/saves'') (ascii ''a.bin'') [] 96 = (1, ascii ''/saves/a.bin'')"
  using create_path_string_correct [of 96 "ascii ''/saves''" "ascii ''a.bin''" "[]"]
  by (simp add: ascii_def)

end
