(* ===== verification/FatAccess.thy ===== *)
theory FatAccess
  imports FatTable FatMisc FatString
begin

section \<open>Sectors, directories and mounting\<close>

text \<open>
  Models \<open>fat_access.c\<close>. As in \<open>FatTable\<close> the outer option is \<open>None\<close> where the C has no defined
  behaviour or does not return. The working buffer is \<open>currentsector\<close>; a null \<open>target\<close> pointer is
  \<open>None\<close>, another one is the buffer it points to, returned with its new contents. The clock that
  \<open>fatfs_update_timestamps\<close> asks for is an argument.
\<close>

subsection \<open>Access to the medium\<close>

definition fatfs_sector_read :: "'d fatfs \<Rightarrow> u32 \<Rightarrow> byte list \<Rightarrow> u32 \<Rightarrow> (bool \<times> byte list \<times> 'd fatfs) option" where
  "fatfs_sector_read fs lba target count = do {
     rd \<leftarrow> read_media fs;
     let (ok, buf, d) = rd lba target count (medium fs);
     Some (ok, buf, fs\<lparr>medium := d\<rparr>) }"

definition fatfs_sector_write :: "'d fatfs \<Rightarrow> u32 \<Rightarrow> byte list \<Rightarrow> u32 \<Rightarrow> (bool \<times> 'd fatfs) option" where
  "fatfs_sector_write fs lba target count = do {
     wr \<leftarrow> write_media fs;
     let (ok, d) = wr lba target count (medium fs);
     Some (ok, fs\<lparr>medium := d\<rparr>) }"

text \<open>
  Reading a sector into the working buffer and writing the working buffer, the address being
  recorded first.
\<close>

definition read_current :: "'d fatfs \<Rightarrow> u32 \<Rightarrow> (bool \<times> 'd fatfs) option" where
  "read_current fs lba = do {
     let fs = fs\<lparr>currentsector := (currentsector fs)\<lparr>fb_address := lba\<rparr>\<rparr>;
     (ok, buf, fs) \<leftarrow> fatfs_sector_read fs (fb_address (currentsector fs)) (fb_sector (currentsector fs)) 1;
     Some (ok, fs\<lparr>currentsector := (currentsector fs)\<lparr>fb_sector := buf\<rparr>\<rparr>) }"

definition write_current :: "'d fatfs \<Rightarrow> (bool \<times> 'd fatfs) option" where
  "write_current fs = fatfs_sector_write fs (fb_address (currentsector fs)) (fb_sector (currentsector fs)) 1"

subsection \<open>Mounting\<close>

datatype fat_init_status = FAT_INIT_OK | FAT_INIT_MEDIA_ACCESS_ERROR | FAT_INIT_INVALID_SECTOR_SIZE
  | FAT_INIT_INVALID_SIGNATURE | FAT_INIT_ENDIAN_ERROR | FAT_INIT_WRONG_FILESYS_TYPE
  | FAT_INIT_WRONG_PARTITION_TYPE | FAT_INIT_STRUCT_PACKING

definition valid_partition_type :: "byte \<Rightarrow> bool" where
  "valid_partition_type t =
     (if t \<in> {0x0B, 0x06, 0x0C, 0x0E, 0x0F, 0x05} then True
      else if t = 0x00 then False
      else t \<le> 0x06)"

text \<open>The parameters of the volume, from its boot sector in the working buffer.\<close>

definition fat_load_bpb :: "'d fatfs \<Rightarrow> 'd fatfs option" where
  "fat_load_bpb fs = do {
     let s = fb_sector (currentsector fs);
     spc \<leftarrow> peek s 13;
     rsvd \<leftarrow> GET_16BIT_WORD s 14;
     nfats \<leftarrow> peek s 16;
     rootent \<leftarrow> GET_16BIT_WORD s 17;
     fatsz16 \<leftarrow> GET_16BIT_WORD s 22;
     fatsz32 \<leftarrow> GET_32BIT_WORD s 36;
     rootclus \<leftarrow> GET_32BIT_WORD s 44;
     fsinfo \<leftarrow> GET_16BIT_WORD s 48;
     let fs = fs\<lparr>sectors_per_cluster := spc, root_entry_count := ucast rootent,
       fat_sectors := (if fatsz16 \<noteq> 0 then fatsz16 else fatsz32),
       rootdir_first_cluster := rootclus, fs_info_sector := ucast fsinfo\<rparr>;
     let fs = fs\<lparr>rootdir_first_sector := rsvd + ucast nfats * fat_sectors fs,
       rootdir_sectors := (ucast (root_entry_count fs) * 32 + 511) div 512,
       fat_begin_lba := lba_begin fs + rsvd\<rparr>;
     Some (fs\<lparr>cluster_begin_lba := fat_begin_lba fs + ucast nfats * fat_sectors fs\<rparr>) }"

text \<open>The number of clusters of the volume, which decides between FAT12, FAT16 and FAT32.\<close>

definition fat_count_of_clusters :: "'d fatfs \<Rightarrow> u32 option" where
  "fat_count_of_clusters fs = do {
     let s = fb_sector (currentsector fs);
     rootent \<leftarrow> GET_16BIT_WORD s 17;
     bytspersec \<leftarrow> GET_16BIT_WORD s 11;
     let root_dir_sectors = (rootent * 32 + (bytspersec - 1)) div bytspersec;
     fatsz16 \<leftarrow> GET_16BIT_WORD s 22;
     fatsz32 \<leftarrow> GET_32BIT_WORD s 36;
     let FATSz = (if fatsz16 \<noteq> 0 then fatsz16 else fatsz32);
     totsec16 \<leftarrow> GET_16BIT_WORD s 19;
     totsec32 \<leftarrow> GET_32BIT_WORD s 32;
     let total_sectors = (if totsec16 \<noteq> 0 then totsec16 else totsec32);
     rsvd \<leftarrow> GET_16BIT_WORD s 14;
     nfats \<leftarrow> peek s 16;
     let data_sectors = total_sectors - (rsvd + ucast nfats * FATSz + root_dir_sectors);
     Some (data_sectors div ucast (sectors_per_cluster fs)) }"

definition fatfs_init :: "'d fatfs \<Rightarrow> (fat_init_status \<times> 'd fatfs) option" where
  "fatfs_init fs = do {
     let fs = fs\<lparr>currentsector := (currentsector fs)\<lparr>fb_address := FAT32_INVALID_CLUSTER, fb_dirty := False\<rparr>,
       next_free_cluster := 0\<rparr>;
     let fs = fatfs_fat_init 1 fs;
     if read_media fs = None then Some (FAT_INIT_MEDIA_ACCESS_ERROR, fs)
     else do {
       (ok, buf, fs) \<leftarrow> fatfs_sector_read fs 0 (fb_sector (currentsector fs)) 1;
       let fs = fs\<lparr>currentsector := (currentsector fs)\<lparr>fb_sector := buf\<rparr>\<rparr>;
       if \<not> ok then Some (FAT_INIT_MEDIA_ACCESS_ERROR, fs)
       else do {
         s510 \<leftarrow> peek buf 510;
         s511 \<leftarrow> peek buf 511;
         sig \<leftarrow> GET_16BIT_WORD buf 510;
         typecode \<leftarrow> peek buf 450;
         begin \<leftarrow> GET_32BIT_WORD buf 454;
         if s510 \<noteq> 0x55 \<or> s511 \<noteq> 0xAA then Some (FAT_INIT_INVALID_SIGNATURE, fs)
         else if sig \<noteq> 0xAA55 then Some (FAT_INIT_ENDIAN_ERROR, fs)
         else do {
           let fs = fs\<lparr>lba_begin := (if valid_partition_type typecode then begin else 0)\<rparr>;
           (ok, buf, fs) \<leftarrow> fatfs_sector_read fs (lba_begin fs) (fb_sector (currentsector fs)) 1;
           let fs = fs\<lparr>currentsector := (currentsector fs)\<lparr>fb_sector := buf\<rparr>\<rparr>;
           if \<not> ok then Some (FAT_INIT_MEDIA_ACCESS_ERROR, fs)
           else do {
             bytspersec \<leftarrow> GET_16BIT_WORD buf 11;
             if bytspersec \<noteq> 512 then Some (FAT_INIT_INVALID_SECTOR_SIZE, fs)
             else do {
               fs \<leftarrow> fat_load_bpb fs;
               sig \<leftarrow> GET_16BIT_WORD buf 510;
               if sig \<noteq> 0xAA55 then Some (FAT_INIT_INVALID_SIGNATURE, fs)
               else if sectors_per_cluster fs \<noteq> 0
               then do {
                 count_of_clusters \<leftarrow> fat_count_of_clusters fs;
                 Some (if count_of_clusters < 4085 then (FAT_INIT_WRONG_FILESYS_TYPE, fs)
                   else if count_of_clusters < 65525
                   then (FAT_INIT_OK, fs\<lparr>rootdir_first_cluster := 0, fat_type := FAT_TYPE_16\<rparr>)
                   else (FAT_INIT_OK, fs\<lparr>fat_type := FAT_TYPE_32\<rparr>)) }
               else Some (FAT_INIT_WRONG_FILESYS_TYPE, fs) } } } } } }"

subsection \<open>Sectors of clusters and chains\<close>

definition fatfs_lba_of_cluster :: "'d fatfs \<Rightarrow> u32 \<Rightarrow> u32" where
  "fatfs_lba_of_cluster fs Cluster_Number =
     (if fat_type fs = FAT_TYPE_16
      then cluster_begin_lba fs + ucast (root_entry_count fs) * 32 div 512
        + (Cluster_Number - 2) * ucast (sectors_per_cluster fs)
      else cluster_begin_lba fs + (Cluster_Number - 2) * ucast (sectors_per_cluster fs))"

fun follow_chain :: "nat \<Rightarrow> 'd fatfs \<Rightarrow> u32 \<Rightarrow> (u32 \<times> 'd fatfs) option" where
  "follow_chain 0 fs c = Some (c, fs)"
| "follow_chain (Suc n) fs c = do { (c, fs) \<leftarrow> fatfs_find_next_cluster fs c; follow_chain n fs c }"

text \<open>
  The address of a sector of a chain, and the sector itself: the reading function returns the
  status, the target buffer if there is one, and the file system.
\<close>

definition chain_lba :: "'d fatfs \<Rightarrow> u32 \<Rightarrow> u32 \<Rightarrow> (u32 option \<times> 'd fatfs) option" where
  "chain_lba fs start_cluster offset =
     (if fat_type fs = FAT_TYPE_16 \<and> start_cluster = 0
      then Some (if offset < rootdir_sectors fs then Some (lba_begin fs + rootdir_first_sector fs + offset) else None, fs)
      else if sectors_per_cluster fs = 0 then None
      else do {
        let cluster_to_read = offset div ucast (sectors_per_cluster fs);
        let sector_to_read = offset - cluster_to_read * ucast (sectors_per_cluster fs);
        (cluster, fs) \<leftarrow> follow_chain (unat cluster_to_read) fs start_cluster;
        Some (if cluster = FAT32_LAST_CLUSTER then None
          else Some (fatfs_lba_of_cluster fs cluster + sector_to_read), fs) })"

definition fatfs_sector_reader :: "'d fatfs \<Rightarrow> u32 \<Rightarrow> u32 \<Rightarrow> byte list option
    \<Rightarrow> (bool \<times> byte list option \<times> 'd fatfs) option" where
  "fatfs_sector_reader fs start_cluster offset target = do {
     (r, fs) \<leftarrow> chain_lba fs start_cluster offset;
     case r of
       None \<Rightarrow> Some (False, target, fs)
     | Some lba \<Rightarrow>
         (case target of
           Some buf \<Rightarrow> do {
             (ok, buf, fs) \<leftarrow> fatfs_sector_read fs lba buf 1;
             Some (ok, Some buf, fs) }
         | None \<Rightarrow>
             if lba \<noteq> fb_address (currentsector fs)
             then do { (ok, fs) \<leftarrow> read_current fs lba; Some (ok, None, fs) }
             else Some (True, None, fs)) }"

text \<open>The address of a sector of a cluster, 0 standing for the FAT16 root directory.\<close>

definition cluster_lba :: "'d fatfs \<Rightarrow> u32 \<Rightarrow> u32 \<Rightarrow> u32 option" where
  "cluster_lba fs cluster sector =
     (if fat_type fs = FAT_TYPE_16 \<and> cluster = 0
      then (if sector < rootdir_sectors fs then Some (lba_begin fs + rootdir_first_sector fs + sector) else None)
      else Some (fatfs_lba_of_cluster fs cluster + sector))"

definition fatfs_read_sector :: "'d fatfs \<Rightarrow> u32 \<Rightarrow> u32 \<Rightarrow> byte list option
    \<Rightarrow> (bool \<times> byte list option \<times> 'd fatfs) option" where
  "fatfs_read_sector fs cluster sector target =
     (case cluster_lba fs cluster sector of
        None \<Rightarrow> Some (False, target, fs)
      | Some lba \<Rightarrow>
          (case target of
            Some buf \<Rightarrow> do {
              (ok, buf, fs) \<leftarrow> fatfs_sector_read fs lba buf 1;
              Some (ok, Some buf, fs) }
          | None \<Rightarrow> do { (ok, fs) \<leftarrow> read_current fs lba; Some (ok, None, fs) }))"

definition fatfs_write_sector :: "'d fatfs \<Rightarrow> u32 \<Rightarrow> u32 \<Rightarrow> byte list option \<Rightarrow> (bool \<times> 'd fatfs) option" where
  "fatfs_write_sector fs cluster sector target =
     (if write_media fs = None then Some (False, fs)
      else case cluster_lba fs cluster sector of
        None \<Rightarrow> Some (False, fs)
      | Some lba \<Rightarrow>
          (case target of
            Some buf \<Rightarrow> fatfs_sector_write fs lba buf 1
          | None \<Rightarrow> write_current (fs\<lparr>currentsector := (currentsector fs)\<lparr>fb_address := lba\<rparr>\<rparr>)))"

definition fatfs_get_root_cluster :: "'d fatfs \<Rightarrow> u32" where
  "fatfs_get_root_cluster fs = rootdir_first_cluster fs"

subsection \<open>Looking into directories\<close>

definition current_entry :: "'d fatfs \<Rightarrow> nat \<Rightarrow> fat_dir_entry" where
  "current_entry fs item = dir_entry_at (fb_sector (currentsector fs)) (FAT_DIR_ENTRY_SIZE * item)"

definition current_slot :: "'d fatfs \<Rightarrow> nat \<Rightarrow> byte list" where
  "current_slot fs item = mem_read (FAT_DIR_ENTRY_SIZE * item) FAT_DIR_ENTRY_SIZE (fb_sector (currentsector fs))"

text \<open>The 8.3 name of an entry as the array of 13 characters both loops below build.\<close>

definition short_filename_of :: "fat_dir_entry \<Rightarrow> byte list" where
  "short_filename_of e =
     (let dotRequired = (\<exists>i \<in> set [8, 9, 10]. Name e ! i \<noteq> CH_SPACE);
          c8 = (if dotRequired then (if Name e ! 0 \<noteq> CH_DOT then CH_DOT else CH_SPACE) else CH_SPACE)
      in take 8 (Name e) @ [c8] @ take 3 (drop 8 (Name e)) @ [0])"

text \<open>
  The search of one sector for a name. The long name collected so far is passed on from sector
  to sector.
\<close>

fun find_name :: "'d fatfs \<Rightarrow> byte list \<Rightarrow> nat list \<Rightarrow> lfn_cache \<Rightarrow> fat_dir_entry option \<times> lfn_cache" where
  "find_name fs name_to_find [] lfn = (None, lfn)"
| "find_name fs name_to_find (item # items) lfn =
     (let e = current_entry fs item
      in if fatfs_entry_lfn_text e
         then find_name fs name_to_find items (fatfs_lfn_cache_entry lfn (current_slot fs item))
         else if fatfs_entry_lfn_invalid e
         then find_name fs name_to_find items (fatfs_lfn_cache_init lfn False)
         else if fatfs_entry_lfn_exists lfn e
         then (case fatfs_lfn_cache_get lfn of (long_filename, lfn) \<Rightarrow>
           if fatfs_compare_names (cstring long_filename) name_to_find then (Some e, lfn)
           else find_name fs name_to_find items (fatfs_lfn_cache_init lfn False))
         else if fatfs_entry_sfn_only e
         then (if fatfs_compare_names (cstring (short_filename_of e)) name_to_find then (Some e, lfn)
           else find_name fs name_to_find items (fatfs_lfn_cache_init lfn False))
         else find_name fs name_to_find items lfn)"

partial_function (option) find_file :: "'d fatfs \<Rightarrow> u32 \<Rightarrow> byte list \<Rightarrow> u32 \<Rightarrow> lfn_cache
    \<Rightarrow> (fat_dir_entry option \<times> 'd fatfs) option" where
  "find_file fs Cluster name_to_find x lfn =
     Option.bind (fatfs_sector_reader fs Cluster x None) (\<lambda>(ok, t, fs).
       if ok
       then (case find_name fs name_to_find [0..<FAT_DIR_ENTRIES_PER_SECTOR] lfn of
           (Some e, lfn) \<Rightarrow> Some (Some e, fs)
         | (None, lfn) \<Rightarrow> find_file fs Cluster name_to_find (x + 1) lfn)
       else Some (None, fs))"

definition empty_lfn :: lfn_cache where
  "empty_lfn = \<lparr>lfn_String = replicate 260 0, lfn_Null = 0, no_of_strings = 0\<rparr>"

definition fatfs_get_file_entry :: "'d fatfs \<Rightarrow> u32 \<Rightarrow> byte list \<Rightarrow> (fat_dir_entry option \<times> 'd fatfs) option" where
  "fatfs_get_file_entry fs Cluster name_to_find =
     find_file fs Cluster name_to_find 0 (fatfs_lfn_cache_init empty_lfn True)"

text \<open>
  The search for a short name, the loop that \<open>fatfs_sfn_exists\<close>, \<open>fatfs_update_file_length\<close> and
  \<open>fatfs_mark_file_deleted\<close> share. It returns the place in the working buffer.
\<close>

definition strncmp_eq :: "nat \<Rightarrow> byte list \<Rightarrow> byte list \<Rightarrow> bool" where
  "strncmp_eq n a b \<longleftrightarrow> cstring (take n a) = cstring (take n b)"

fun find_short :: "'d fatfs \<Rightarrow> byte list \<Rightarrow> nat list \<Rightarrow> nat option" where
  "find_short fs shortname [] = None"
| "find_short fs shortname (item # items) =
     (let e = current_entry fs item
      in if fatfs_entry_lfn_text e then find_short fs shortname items
         else if fatfs_entry_lfn_invalid e then find_short fs shortname items
         else if fatfs_entry_sfn_only e \<and> strncmp_eq 11 (Name e) shortname then Some item
         else find_short fs shortname items)"

partial_function (option) find_sfn :: "'d fatfs \<Rightarrow> u32 \<Rightarrow> byte list \<Rightarrow> u32 \<Rightarrow> (nat option \<times> 'd fatfs) option" where
  "find_sfn fs Cluster shortname x =
     Option.bind (fatfs_sector_reader fs Cluster x None) (\<lambda>(ok, t, fs).
       if ok
       then (case find_short fs shortname [0..<FAT_DIR_ENTRIES_PER_SECTOR] of
           Some item \<Rightarrow> Some (Some item, fs)
         | None \<Rightarrow> find_sfn fs Cluster shortname (x + 1))
       else Some (None, fs))"

definition fatfs_sfn_exists :: "'d fatfs \<Rightarrow> u32 \<Rightarrow> byte list \<Rightarrow> (bool \<times> 'd fatfs) option" where
  "fatfs_sfn_exists fs Cluster shortname = do {
     (r, fs) \<leftarrow> find_sfn fs Cluster shortname 0;
     Some (r \<noteq> None, fs) }"

text \<open>The part of \<open>struct tm\<close> that is used.\<close>

record tm =
  tm_sec :: int
  tm_min :: int
  tm_hour :: int
  tm_mday :: int
  tm_mon :: int
  tm_year :: int

definition fatfs_update_timestamps :: "tm \<Rightarrow> fat_dir_entry \<Rightarrow> bool \<Rightarrow> bool \<Rightarrow> bool \<Rightarrow> fat_dir_entry" where
  "fatfs_update_timestamps now e create modify access =
     (let fat_time = fatfs_convert_to_fat_time (tm_hour now) (tm_min now) (tm_sec now);
          fat_date = fatfs_convert_to_fat_date (tm_mday now) (tm_mon now + 1) (tm_year now + 1900);
          t = [ucast fat_time, ucast (drop_bit 8 fat_time)];
          d = [ucast fat_date, ucast (drop_bit 8 fat_date)];
          e = (if create then e\<lparr>CrtTime := t, CrtDate := d\<rparr> else e);
          e = (if modify then e\<lparr>WrtTime := t, WrtDate := d\<rparr> else e)
      in if access then e\<lparr>LstAccDate := d\<rparr> else e)"

text \<open>Overwriting an entry of the working buffer and writing the buffer to its sector.\<close>

definition put_current_entry :: "'d fatfs \<Rightarrow> nat \<Rightarrow> fat_dir_entry \<Rightarrow> 'd fatfs" where
  "put_current_entry fs item e = fs\<lparr>currentsector := (currentsector fs)\<lparr>fb_sector :=
     mem_write (FAT_DIR_ENTRY_SIZE * item) (dir_entry_bytes e) (fb_sector (currentsector fs))\<rparr>\<rparr>"

definition fatfs_update_file_length :: "tm \<Rightarrow> 'd fatfs \<Rightarrow> u32 \<Rightarrow> byte list \<Rightarrow> u32 \<Rightarrow> (bool \<times> 'd fatfs) option" where
  "fatfs_update_file_length now fs Cluster shortname fileLength =
     (if write_media fs = None then Some (False, fs)
      else do {
        (r, fs) \<leftarrow> find_sfn fs Cluster shortname 0;
        case r of
          None \<Rightarrow> Some (False, fs)
        | Some item \<Rightarrow>
            (let e = (current_entry fs item)\<lparr>FileSize := FAT_HTONL fileLength\<rparr>;
                 e = fatfs_update_timestamps now e False True True
             in write_current (put_current_entry fs item e)) })"

definition fatfs_mark_file_deleted :: "tm \<Rightarrow> 'd fatfs \<Rightarrow> u32 \<Rightarrow> byte list \<Rightarrow> (bool \<times> 'd fatfs) option" where
  "fatfs_mark_file_deleted now fs Cluster shortname =
     (if write_media fs = None then Some (False, fs)
      else do {
        (r, fs) \<leftarrow> find_sfn fs Cluster shortname 0;
        case r of
          None \<Rightarrow> Some (False, fs)
        | Some item \<Rightarrow>
            (let e = (current_entry fs item)\<lparr>Name := (Name (current_entry fs item))[0 := FILE_HEADER_DELETED]\<rparr>;
                 e = fatfs_update_timestamps now e False True True
             in write_current (put_current_entry fs item e)) })"

subsection \<open>Listing a directory\<close>

record fs_dir_list_status =
  dirls_sector :: u32
  dirls_cluster :: u32
  dirls_offset :: byte

record fs_dir_ent =
  de_filename :: "byte list"
  de_is_dir :: bool
  de_cluster :: u32
  de_size :: u32
  de_access_date :: u16
  de_write_time :: u16
  de_write_date :: u16
  de_create_date :: u16
  de_create_time :: u16

definition fatfs_list_directory_start :: "fs_dir_list_status \<Rightarrow> u32 \<Rightarrow> fs_dir_list_status" where
  "fatfs_list_directory_start dirls StartCluster =
     dirls\<lparr>dirls_cluster := StartCluster, dirls_sector := 0, dirls_offset := 0\<rparr>"

text \<open>\<open>strncpy\<close> of 95 characters into the array of 96: the rest is filled, the last byte is not set.\<close>

definition strncpy :: "byte list \<Rightarrow> byte list \<Rightarrow> nat \<Rightarrow> byte list" where
  "strncpy dst src n = (let s = take n (cstring src) in mem_write 0 (s @ replicate (n - length s) 0) dst)"

definition u16_of_bytes :: "byte list \<Rightarrow> u16" where
  "u16_of_bytes b = push_bit 8 (ucast (b ! 1)) OR ucast (b ! 0)"

definition fill_dir_ent :: "fat_dir_entry \<Rightarrow> fs_dir_ent \<Rightarrow> fs_dir_ent" where
  "fill_dir_ent e entry = entry\<lparr>
     de_is_dir := fatfs_entry_is_dir e,
     de_create_time := u16_of_bytes (CrtTime e), de_create_date := u16_of_bytes (CrtDate e),
     de_access_date := u16_of_bytes (LstAccDate e), de_write_time := u16_of_bytes (WrtTime e),
     de_write_date := u16_of_bytes (WrtDate e), de_size := FAT_HTONL (FileSize e),
     de_cluster := push_bit 16 (ucast (FAT_HTONS (FstClusHI e))) OR ucast (FAT_HTONS (FstClusLO e))\<rparr>"

text \<open>One sector of the listing: the next entry and its place, or the long name collected so far.\<close>

fun list_sector :: "'d fatfs \<Rightarrow> nat list \<Rightarrow> lfn_cache \<Rightarrow> fs_dir_ent \<Rightarrow> (nat \<times> fs_dir_ent) option \<times> lfn_cache" where
  "list_sector fs [] lfn entry = (None, lfn)"
| "list_sector fs (item # items) lfn entry =
     (let e = current_entry fs item
      in if fatfs_entry_lfn_text e
         then list_sector fs items (fatfs_lfn_cache_entry lfn (current_slot fs item)) entry
         else if fatfs_entry_lfn_invalid e
         then list_sector fs items (fatfs_lfn_cache_init lfn False) entry
         else if fatfs_entry_lfn_exists lfn e
         then (case fatfs_lfn_cache_get lfn of (long_filename, lfn) \<Rightarrow>
           (Some (item, fill_dir_ent e (entry\<lparr>de_filename := strncpy (de_filename entry) long_filename 95\<rparr>)), lfn))
         else if fatfs_entry_sfn_only e
         then (let s = snd (fatfs_get_sfn_display_name (cstring (short_filename_of e)))
           in (Some (item, fill_dir_ent e (entry\<lparr>de_filename := mem_write 0 (s @ [0]) (de_filename entry)\<rparr>)),
               fatfs_lfn_cache_init lfn False))
         else list_sector fs items lfn entry)"

partial_function (option) list_next :: "'d fatfs \<Rightarrow> fs_dir_list_status \<Rightarrow> fs_dir_ent \<Rightarrow> lfn_cache
    \<Rightarrow> (bool \<times> fs_dir_list_status \<times> fs_dir_ent \<times> 'd fatfs) option" where
  "list_next fs dirls entry lfn =
     Option.bind (fatfs_sector_reader fs (dirls_cluster dirls) (dirls_sector dirls) None) (\<lambda>(ok, t, fs).
       if ok
       then (case list_sector fs [unat (dirls_offset dirls)..<FAT_DIR_ENTRIES_PER_SECTOR] lfn entry of
           (Some (item, entry), lfn) \<Rightarrow>
             Some (True, dirls\<lparr>dirls_offset := word_of_nat (item + 1)\<rparr>, entry, fs)
         | (None, lfn) \<Rightarrow>
             list_next fs (dirls\<lparr>dirls_sector := dirls_sector dirls + 1, dirls_offset := 0\<rparr>) entry lfn)
       else Some (False, dirls, entry, fs))"

text \<open>
  The long-name cache of the C is an uninitialised local whose count alone is cleared; its other
  contents are the argument \<open>lfn\<close>.
\<close>

definition fatfs_list_directory_next :: "lfn_cache \<Rightarrow> 'd fatfs \<Rightarrow> fs_dir_list_status \<Rightarrow> fs_dir_ent
    \<Rightarrow> (bool \<times> fs_dir_list_status \<times> fs_dir_ent \<times> 'd fatfs) option" where
  "fatfs_list_directory_next lfn fs dirls entry = list_next fs dirls entry (fatfs_lfn_cache_init lfn False)"

end
