(* ===== verification/FatWrite.thy ===== *)
theory FatWrite
  imports FatAccess
begin

section \<open>Allocating space and adding directory entries\<close>

text \<open>
  Models \<open>fat_write.c\<close>. A cluster passed by reference is an argument and a result; the status is
  the first result.
\<close>

subsection \<open>Space for files\<close>

fun add_clusters :: "nat \<Rightarrow> bool \<Rightarrow> 'd fatfs \<Rightarrow> u32 \<Rightarrow> u32 \<Rightarrow> (bool \<times> u32 \<times> 'd fatfs) option" where
  "add_clusters 0 first fs start startCluster = Some (True, startCluster, fs)"
| "add_clusters (Suc n) first fs start startCluster = do {
     (r, fs) \<leftarrow> fatfs_find_blank_cluster fs (rootdir_first_cluster fs);
     case r of
       None \<Rightarrow> Some (False, startCluster, fs)
     | Some nextcluster \<Rightarrow> do {
         (ok, fs) \<leftarrow> fatfs_fat_set_cluster fs start nextcluster;
         (ok, fs) \<leftarrow> fatfs_fat_set_cluster fs nextcluster FAT32_LAST_CLUSTER;
         add_clusters n False fs nextcluster (if first then nextcluster else startCluster) } }"

definition forget_next_free :: "'d fatfs \<Rightarrow> 'd fatfs option" where
  "forget_next_free fs = (if next_free_cluster fs \<noteq> FAT32_LAST_CLUSTER
     then fatfs_set_fs_info_next_free_cluster fs FAT32_LAST_CLUSTER else Some fs)"

definition fatfs_add_free_space :: "'d fatfs \<Rightarrow> u32 \<Rightarrow> u32 \<Rightarrow> (bool \<times> u32 \<times> 'd fatfs) option" where
  "fatfs_add_free_space fs startCluster clusters = do {
     fs \<leftarrow> forget_next_free fs;
     add_clusters (unat clusters) True fs startCluster startCluster }"

definition fatfs_allocate_free_space :: "'d fatfs \<Rightarrow> bool \<Rightarrow> u32 \<Rightarrow> u32 \<Rightarrow> (bool \<times> u32 \<times> 'd fatfs) option" where
  "fatfs_allocate_free_space fs newFile startCluster filesize =
     (if filesize = 0 then Some (False, startCluster, fs)
      else do {
        fs \<leftarrow> forget_next_free fs;
        let clusterSize = ucast (sectors_per_cluster fs) * 512;
        if clusterSize = 0 then None
        else do {
          let clusterCount = filesize div clusterSize;
          let clusterCount = (if filesize - clusterSize * clusterCount \<noteq> 0 then clusterCount + 1 else clusterCount);
          if newFile
          then do {
            (r, fs) \<leftarrow> fatfs_find_blank_cluster fs (rootdir_first_cluster fs);
            case r of
              None \<Rightarrow> Some (False, startCluster, fs)
            | Some nextcluster \<Rightarrow>
                if clusterCount = 1
                then do {
                  (ok, fs) \<leftarrow> fatfs_fat_set_cluster fs nextcluster FAT32_LAST_CLUSTER;
                  Some (True, nextcluster, fs) }
                else do {
                  (ok, n, fs) \<leftarrow> fatfs_add_free_space fs nextcluster clusterCount;
                  Some (ok, startCluster, fs) } }
          else do {
            (ok, n, fs) \<leftarrow> fatfs_add_free_space fs startCluster clusterCount;
            Some (ok, startCluster, fs) } } })"

subsection \<open>Space for directory entries\<close>

text \<open>
  What the search for free slots has found so far: the number of slots in a row, and where they
  start; and the scan of one sector, which tells whether it has found enough.
\<close>

record slot_search =
  possible_spaces :: nat
  start_recorded :: bool
  pSector :: u32
  pOffset :: byte

definition count_slot :: "u32 \<Rightarrow> nat \<Rightarrow> slot_search \<Rightarrow> slot_search" where
  "count_slot sector item s =
     (let s = (if possible_spaces s = 0
          then s\<lparr>pSector := sector, pOffset := word_of_nat item, start_recorded := True\<rparr> else s)
      in s\<lparr>possible_spaces := possible_spaces s + 1\<rparr>)"

fun scan_slots :: "'d fatfs \<Rightarrow> nat \<Rightarrow> u32 \<Rightarrow> nat list \<Rightarrow> slot_search \<Rightarrow> bool \<times> slot_search" where
  "scan_slots fs entryCount sector [] s = (False, s)"
| "scan_slots fs entryCount sector (item # items) s =
     (let e = current_entry fs item; header = fb_sector (currentsector fs) ! (FAT_DIR_ENTRY_SIZE * item)
      in if fatfs_entry_lfn_text e
         then scan_slots fs entryCount sector items (count_slot sector item s)
         else if header = FILE_HEADER_DELETED \<or> header = FILE_HEADER_BLANK
         then (let s = count_slot sector item s
           in if possible_spaces s \<ge> entryCount then (True, s)
              else scan_slots fs entryCount sector items s)
         else scan_slots fs entryCount sector items (s\<lparr>possible_spaces := 0, start_recorded := False\<rparr>))"

text \<open>Clearing a new directory cluster.\<close>

fun erase_cluster :: "nat \<Rightarrow> u32 \<Rightarrow> 'd fatfs \<Rightarrow> u32 \<Rightarrow> (bool \<times> 'd fatfs) option" where
  "erase_cluster 0 i fs newCluster = Some (True, fs)"
| "erase_cluster (Suc n) i fs newCluster = do {
     (ok, fs) \<leftarrow> fatfs_write_sector fs newCluster i None;
     if \<not> ok then Some (False, fs) else erase_cluster n (i + 1) fs newCluster }"

definition extend_directory :: "'d fatfs \<Rightarrow> u32 \<Rightarrow> (bool \<times> 'd fatfs) option" where
  "extend_directory fs dirCluster = do {
     (r, fs) \<leftarrow> fatfs_find_blank_cluster fs (rootdir_first_cluster fs);
     case r of
       None \<Rightarrow> Some (False, fs)
     | Some newCluster \<Rightarrow> do {
         (ok, fs) \<leftarrow> fatfs_fat_add_cluster_to_chain fs dirCluster newCluster;
         if \<not> ok then Some (False, fs)
         else erase_cluster (unat (sectors_per_cluster fs)) 0
           (fs\<lparr>currentsector := (currentsector fs)\<lparr>fb_sector := replicate FAT_SECTOR_SIZE 0\<rparr>\<rparr>) newCluster } }"

partial_function (option) find_slots :: "'d fatfs \<Rightarrow> u32 \<Rightarrow> nat \<Rightarrow> u32 \<Rightarrow> slot_search
    \<Rightarrow> (bool \<times> slot_search \<times> 'd fatfs) option" where
  "find_slots fs dirCluster entryCount x s =
     Option.bind (fatfs_sector_reader fs dirCluster x None) (\<lambda>(ok, t, fs).
       if ok
       then (case scan_slots fs entryCount x [0..<FAT_DIR_ENTRIES_PER_SECTOR] s of
           (found, s) \<Rightarrow> if found then Some (True, s, fs)
             else find_slots fs dirCluster entryCount (x + 1) s)
       else Option.bind (extend_directory fs dirCluster) (\<lambda>(ok, fs).
         if \<not> ok then Some (False, s, fs)
         else Some (True, (if start_recorded s then s else s\<lparr>pSector := x, pOffset := 0, start_recorded := True\<rparr>), fs)))"

definition fatfs_find_free_dir_offset :: "'d fatfs \<Rightarrow> u32 \<Rightarrow> nat \<Rightarrow> u32 \<Rightarrow> byte
    \<Rightarrow> (bool \<times> (u32 \<times> byte) \<times> 'd fatfs) option" where
  "fatfs_find_free_dir_offset fs dirCluster entryCount sector offset =
     (if entryCount = 0 then Some (False, (sector, offset), fs)
      else do {
        (ok, s, fs) \<leftarrow> find_slots fs dirCluster entryCount 0
          \<lparr>possible_spaces = 0, start_recorded = False, pSector = sector, pOffset = offset\<rparr>;
        Some (ok, (pSector s, pOffset s), fs) })"

subsection \<open>Adding an entry\<close>

text \<open>The checksum of the short name.\<close>

definition sfn_checksum_step :: "byte \<Rightarrow> byte \<Rightarrow> byte" where
  "sfn_checksum_step c checksum = (if checksum AND 1 \<noteq> 0 then 0x80 else 0) + drop_bit 1 checksum + c"

definition sfn_checksum :: "byte list \<Rightarrow> byte" where
  "sfn_checksum shortfilename = fold sfn_checksum_step (take 11 shortfilename) 0"

text \<open>
  What is written into one sector: the slots of the long name that remain, counting down, then the
  short entry. \<open>Inl\<close> when the short entry has been placed, \<open>Inr\<close> with what remains otherwise.
\<close>

type_synonym entry_writer = "bool \<times> nat \<times> bool"

fun put_slots :: "byte list \<Rightarrow> byte \<Rightarrow> fat_dir_entry \<Rightarrow> u32 \<Rightarrow> byte \<Rightarrow> u32 \<Rightarrow> nat list \<Rightarrow> 'd fatfs
    \<Rightarrow> entry_writer \<Rightarrow> 'd fatfs + 'd fatfs \<times> entry_writer" where
  "put_slots filename checksum shortEntry dirSector dirOffset x [] fs (foundEnd, entryCount, dirtySector)
     = Inr (fs, (foundEnd, entryCount, dirtySector))"
| "put_slots filename checksum shortEntry dirSector dirOffset x (item # items) fs (foundEnd, entryCount, dirtySector) =
     (let foundEnd = (foundEnd \<or> dirSector = x \<and> dirOffset = word_of_nat item)
      in if foundEnd
         then (if entryCount = 0 then Inl (put_current_entry fs item shortEntry)
           else
             (let slot = fatfs_filename_to_lfn filename (entryCount - 1) checksum;
                  fs = fs\<lparr>currentsector := (currentsector fs)\<lparr>fb_sector :=
                    mem_write (FAT_DIR_ENTRY_SIZE * item) slot (fb_sector (currentsector fs))\<rparr>\<rparr>
              in put_slots filename checksum shortEntry dirSector dirOffset x items fs (foundEnd, entryCount - 1, True)))
         else put_slots filename checksum shortEntry dirSector dirOffset x items fs (foundEnd, entryCount, dirtySector))"

partial_function (option) write_entry :: "'d fatfs \<Rightarrow> u32 \<Rightarrow> byte list \<Rightarrow> byte \<Rightarrow> fat_dir_entry \<Rightarrow> u32 \<Rightarrow> byte
    \<Rightarrow> u32 \<Rightarrow> bool \<Rightarrow> nat \<Rightarrow> (bool \<times> 'd fatfs) option" where
  "write_entry fs dirCluster filename checksum shortEntry dirSector dirOffset x foundEnd entryCount =
     Option.bind (fatfs_sector_reader fs dirCluster x None) (\<lambda>(ok, t, fs).
       if \<not> ok then Some (False, fs)
       else (case put_slots filename checksum shortEntry dirSector dirOffset x [0..<FAT_DIR_ENTRIES_PER_SECTOR] fs
            (foundEnd, entryCount, False) of
           Inl fs \<Rightarrow> write_current fs
         | Inr (fs, (foundEnd, entryCount, dirtySector)) \<Rightarrow>
             Option.bind (if dirtySector then write_current fs else Some (True, fs)) (\<lambda>(ok, fs).
               if \<not> ok then Some (False, fs)
               else write_entry fs dirCluster filename checksum shortEntry dirSector dirOffset (x + 1)
                 foundEnd entryCount)))"

definition fatfs_add_file_entry :: "tm \<Rightarrow> 'd fatfs \<Rightarrow> u32 \<Rightarrow> byte list \<Rightarrow> byte list \<Rightarrow> u32 \<Rightarrow> u32 \<Rightarrow> bool
    \<Rightarrow> (bool \<times> 'd fatfs) option" where
  "fatfs_add_file_entry now fs dirCluster filename shortfilename startCluster filesize dir =
     (if write_media fs = None then Some (False, fs)
      else
        (let entryCount = fatfs_lfn_entries_required filename
         in if entryCount = 0 then Some (False, fs)
            else do {
              (ok, (dirSector, dirOffset), fs) \<leftarrow> fatfs_find_free_dir_offset fs dirCluster (entryCount + 1) 0 0;
              if \<not> ok then Some (False, fs)
              else
                (let checksum = sfn_checksum shortfilename;
                     shortEntry = fatfs_update_timestamps now
                       (fatfs_sfn_create_entry shortfilename filesize startCluster dir) True True True
                 in write_entry fs dirCluster filename checksum shortEntry dirSector dirOffset dirSector
                      False entryCount) }))"

end
