(* ===== verification/FatList.thy ===== *)
theory FatList
  imports FtxPrelude
begin

section \<open>Doubly linked lists\<close>

text \<open>
  Models \<open>fat_list.h\<close>: the list of open and free files. The nodes live in a store, a function
  from addresses to nodes; a pointer is an address or \<open>None\<close>. The operations assign to the fields
  of nodes and of the list head in the order of the source, so that aliasing between the
  arguments and the neighbours of a node is that of the C.
\<close>

record 'a fat_node =
  previous :: "'a option"
  next_node :: "'a option"

record 'a fat_list =
  list_head :: "'a option"
  list_tail :: "'a option"
  store :: "'a \<Rightarrow> 'a fat_node"

definition set_previous :: "'a \<Rightarrow> 'a option \<Rightarrow> 'a fat_list \<Rightarrow> 'a fat_list" where
  "set_previous n p l = l\<lparr>store := (store l)(n := (store l n)\<lparr>previous := p\<rparr>)\<rparr>"

definition set_next :: "'a \<Rightarrow> 'a option \<Rightarrow> 'a fat_list \<Rightarrow> 'a fat_list" where
  "set_next n p l = l\<lparr>store := (store l)(n := (store l n)\<lparr>next_node := p\<rparr>)\<rparr>"

definition fat_list_init :: "'a fat_list \<Rightarrow> 'a fat_list" where
  "fat_list_init l = l\<lparr>list_tail := None, list_head := None\<rparr>"

definition fat_list_remove :: "'a fat_list \<Rightarrow> 'a \<Rightarrow> 'a fat_list" where
  "fat_list_remove l node =
     (let l = (case previous (store l node) of
          None \<Rightarrow> l\<lparr>list_head := next_node (store l node)\<rparr>
        | Some p \<Rightarrow> set_next p (next_node (store l node)) l)
      in case next_node (store l node) of
          None \<Rightarrow> l\<lparr>list_tail := previous (store l node)\<rparr>
        | Some n \<Rightarrow> set_previous n (previous (store l node)) l)"

definition fat_list_insert_after :: "'a fat_list \<Rightarrow> 'a \<Rightarrow> 'a \<Rightarrow> 'a fat_list" where
  "fat_list_insert_after l node new_node =
     (let l = set_previous new_node (Some node) l;
          l = set_next new_node (next_node (store l node)) l;
          l = (case next_node (store l node) of
              None \<Rightarrow> l\<lparr>list_tail := Some new_node\<rparr>
            | Some n \<Rightarrow> set_previous n (Some new_node) l)
      in set_next node (Some new_node) l)"

definition fat_list_insert_before :: "'a fat_list \<Rightarrow> 'a \<Rightarrow> 'a \<Rightarrow> 'a fat_list" where
  "fat_list_insert_before l node new_node =
     (let l = set_previous new_node (previous (store l node)) l;
          l = set_next new_node (Some node) l;
          l = (case previous (store l node) of
              None \<Rightarrow> l\<lparr>list_head := Some new_node\<rparr>
            | Some p \<Rightarrow> set_next p (Some new_node) l)
      in set_previous node (Some new_node) l)"

definition fat_list_insert_first :: "'a fat_list \<Rightarrow> 'a \<Rightarrow> 'a fat_list" where
  "fat_list_insert_first l node =
     (case list_head l of
        None \<Rightarrow> set_next node None (set_previous node None (l\<lparr>list_head := Some node, list_tail := Some node\<rparr>))
      | Some h \<Rightarrow> fat_list_insert_before l h node)"

definition fat_list_insert_last :: "'a fat_list \<Rightarrow> 'a \<Rightarrow> 'a fat_list" where
  "fat_list_insert_last l node =
     (case list_tail l of
        None \<Rightarrow> fat_list_insert_first l node
      | Some t \<Rightarrow> fat_list_insert_after l t node)"

definition fat_list_is_empty :: "'a fat_list \<Rightarrow> bool" where
  "fat_list_is_empty l \<longleftrightarrow> list_head l = None"

definition fat_list_pop_head :: "'a fat_list \<Rightarrow> 'a option \<times> 'a fat_list" where
  "fat_list_pop_head l =
     (case list_head l of
        None \<Rightarrow> (None, l)
      | Some node \<Rightarrow> (Some node, fat_list_remove l node))"

subsection \<open>The list in the store\<close>

text \<open>
  \<open>linked\<close> says that the nodes of a list are linked in both directions, \<open>p\<close> standing before them
  and \<open>q\<close> after; \<open>dlist\<close> that a list head represents a list of distinct addresses.
\<close>

definition first_or :: "'a list \<Rightarrow> 'a option \<Rightarrow> 'a option" where
  "first_or xs q = (if xs = [] then q else Some (hd xs))"

definition last_or :: "'a list \<Rightarrow> 'a option \<Rightarrow> 'a option" where
  "last_or xs p = (if xs = [] then p else Some (last xs))"

fun linked :: "('a \<Rightarrow> 'a fat_node) \<Rightarrow> 'a option \<Rightarrow> 'a list \<Rightarrow> 'a option \<Rightarrow> bool" where
  "linked st p [] q \<longleftrightarrow> True"
| "linked st p (x # xs) q \<longleftrightarrow> previous (st x) = p \<and> next_node (st x) = first_or xs q \<and> linked st (Some x) xs q"

definition dlist :: "'a fat_list \<Rightarrow> 'a list \<Rightarrow> bool" where
  "dlist l xs \<longleftrightarrow> distinct xs \<and> list_head l = first_or xs None \<and> list_tail l = last_or xs None
     \<and> linked (store l) None xs None"

lemma first_or_simps [simp]: "first_or [] q = q" "first_or (x # xs) q = Some x"
  "first_or (xs @ ys) q = first_or xs (first_or ys q)"
  by (simp_all add: first_or_def)

lemma last_or_simps [simp]: "last_or [] p = p" "last_or (x # xs) p = last_or xs (Some x)"
  "last_or (xs @ ys) p = last_or ys (last_or xs p)"
  by (simp_all add: last_or_def)

lemma linked_append [simp]:
  "linked st p (xs @ ys) q \<longleftrightarrow> linked st p xs (first_or ys q) \<and> linked st (last_or xs p) ys q"
  by (induction xs arbitrary: p) auto

lemma linked_update [simp]: "x \<notin> set xs \<Longrightarrow> linked (st(x := v)) p xs q = linked st p xs q"
  by (induction xs arbitrary: p) auto

lemma dlist_end_cases:
  obtains "us = []" | us' y where "us = us' @ [y]"
  by (cases us rule: rev_cases) auto

lemma dlist_remove:
  assumes "dlist l (us @ x # vs)"
  shows "dlist (fat_list_remove l x) (us @ vs)"
  by (cases us rule: rev_cases; cases vs)
    (use assms in \<open>auto simp: dlist_def fat_list_remove_def set_next_def set_previous_def Let_def\<close>)

lemma dlist_insert_after:
  assumes "dlist l (us @ x # vs)" "n \<notin> set (us @ x # vs)"
  shows "dlist (fat_list_insert_after l x n) (us @ x # n # vs)"
  by (cases vs)
    (use assms in \<open>auto simp: dlist_def fat_list_insert_after_def set_next_def set_previous_def Let_def\<close>)

lemma dlist_insert_before:
  assumes "dlist l (us @ x # vs)" "n \<notin> set (us @ x # vs)"
  shows "dlist (fat_list_insert_before l x n) (us @ n # x # vs)"
  by (cases us rule: rev_cases)
    (use assms in \<open>auto simp: dlist_def fat_list_insert_before_def set_next_def set_previous_def Let_def\<close>)

lemma dlist_init: "dlist (fat_list_init l) []"
  by (simp add: dlist_def fat_list_init_def)

lemma dlist_insert_first:
  assumes "dlist l xs" "n \<notin> set xs"
  shows "dlist (fat_list_insert_first l n) (n # xs)"
proof (cases xs)
  case Nil
  then show ?thesis using assms
    by (auto simp: dlist_def fat_list_insert_first_def set_next_def set_previous_def)
next
  case (Cons x r)
  then show ?thesis
    using assms dlist_insert_before [of l "[]" x r n] by (simp add: fat_list_insert_first_def dlist_def)
qed

lemma dlist_insert_last:
  assumes "dlist l xs" "n \<notin> set xs"
  shows "dlist (fat_list_insert_last l n) (xs @ [n])"
proof (cases xs rule: rev_cases)
  case Nil
  then show ?thesis
    using assms dlist_insert_first [of l xs n] by (simp add: fat_list_insert_last_def dlist_def)
next
  case (snoc r x)
  then show ?thesis
    using assms dlist_insert_after [of l r x "[]" n] by (simp add: fat_list_insert_last_def dlist_def)
qed

lemma dlist_pop_head:
  assumes "dlist l xs"
  shows "fst (fat_list_pop_head l) = first_or xs None" "dlist (snd (fat_list_pop_head l)) (tl xs)"
  using assms dlist_remove [of l "[]" "hd xs" "tl xs"]
  by (cases xs; auto simp: fat_list_pop_head_def dlist_def)+

lemma dlist_is_empty: "dlist l xs \<Longrightarrow> fat_list_is_empty l \<longleftrightarrow> xs = []"
  by (cases xs) (auto simp: dlist_def fat_list_is_empty_def)

lemma dlist_unlink:
  assumes "dlist l xs" "x \<in> set xs"
  shows "dlist (fat_list_remove l x) (remove1 x xs)"
proof -
  obtain us vs where "xs = us @ x # vs" "x \<notin> set us" using assms(2) by (meson split_list_first)
  then show ?thesis using assms(1) dlist_remove [of l us x vs] by (simp add: remove1_append)
qed

text \<open>Only the nodes of the list and the new node are written.\<close>

lemma store_remove:
  assumes "dlist l xs" "x \<in> set xs" "y \<notin> set xs"
  shows "store (fat_list_remove l x) y = store l y"
proof -
  obtain us vs where xs: "xs = us @ x # vs" using assms(2) by (meson split_list)
  have "previous (store l x) = last_or us None" "next_node (store l x) = first_or vs None"
    using assms(1) by (simp_all add: dlist_def xs)
  then show ?thesis
    using assms(3) by (cases us rule: rev_cases; cases vs)
      (auto simp: xs fat_list_remove_def set_next_def set_previous_def Let_def)
qed

lemma store_insert_last:
  assumes "dlist l xs" "y \<notin> set xs" "y \<noteq> n"
  shows "store (fat_list_insert_last l n) y = store l y"
proof (cases xs rule: rev_cases)
  case Nil
  then show ?thesis
    using assms by (simp add: dlist_def fat_list_insert_last_def fat_list_insert_first_def set_next_def set_previous_def)
next
  case (snoc r x)
  then show ?thesis
    using assms by (auto simp: dlist_def fat_list_insert_last_def fat_list_insert_after_def set_next_def
        set_previous_def Let_def split: option.split)
qed

lemma dlist_cong:
  assumes "dlist l xs" "list_head l' = list_head l" "list_tail l' = list_tail l"
    and "\<And>x. x \<in> set xs \<Longrightarrow> store l' x = store l x"
  shows "dlist l' xs"
proof -
  have "linked st' p ys q = linked st p ys q" if "\<And>x. x \<in> set ys \<Longrightarrow> st' x = st x" for st st' :: "'a \<Rightarrow> 'a fat_node" and p ys q
    using that by (induction ys arbitrary: p) auto
  from this [OF assms(4)] show ?thesis using assms(1-3) by (simp add: dlist_def)
qed

subsection \<open>Sequences of operations\<close>

text \<open>The calls the file library makes, and what they mean on a list of addresses.\<close>

datatype 'a list_call = InsertFirst 'a | InsertLast 'a | InsertAfter 'a 'a | InsertBefore 'a 'a | Remove 'a | PopHead

fun call_list :: "'a list_call \<Rightarrow> 'a fat_list \<Rightarrow> 'a fat_list" where
  "call_list (InsertFirst n) l = fat_list_insert_first l n"
| "call_list (InsertLast n) l = fat_list_insert_last l n"
| "call_list (InsertAfter x n) l = fat_list_insert_after l x n"
| "call_list (InsertBefore x n) l = fat_list_insert_before l x n"
| "call_list (Remove x) l = fat_list_remove l x"
| "call_list PopHead l = snd (fat_list_pop_head l)"

fun call_spec :: "'a list_call \<Rightarrow> 'a list \<Rightarrow> 'a list" where
  "call_spec (InsertFirst n) xs = n # xs"
| "call_spec (InsertLast n) xs = xs @ [n]"
| "call_spec (InsertAfter x n) xs = takeWhile (\<lambda>y. y \<noteq> x) xs @ x # n # tl (dropWhile (\<lambda>y. y \<noteq> x) xs)"
| "call_spec (InsertBefore x n) xs = takeWhile (\<lambda>y. y \<noteq> x) xs @ n # dropWhile (\<lambda>y. y \<noteq> x) xs"
| "call_spec (Remove x) xs = remove1 x xs"
| "call_spec PopHead xs = tl xs"

fun call_ok :: "'a list_call \<Rightarrow> 'a list \<Rightarrow> bool" where
  "call_ok (InsertFirst n) xs \<longleftrightarrow> n \<notin> set xs"
| "call_ok (InsertLast n) xs \<longleftrightarrow> n \<notin> set xs"
| "call_ok (InsertAfter x n) xs \<longleftrightarrow> x \<in> set xs \<and> n \<notin> set xs"
| "call_ok (InsertBefore x n) xs \<longleftrightarrow> x \<in> set xs \<and> n \<notin> set xs"
| "call_ok (Remove x) xs \<longleftrightarrow> x \<in> set xs"
| "call_ok PopHead xs \<longleftrightarrow> True"

fun calls_ok :: "'a list_call list \<Rightarrow> 'a list \<Rightarrow> bool" where
  "calls_ok [] xs \<longleftrightarrow> True"
| "calls_ok (c # cs) xs \<longleftrightarrow> call_ok c xs \<and> calls_ok cs (call_spec c xs)"

lemma dlist_call:
  assumes "dlist l xs" "call_ok c xs"
  shows "dlist (call_list c l) (call_spec c xs)"
proof -
  have rest: "dropWhile (\<lambda>y. y \<noteq> x) xs = x # tl (dropWhile (\<lambda>y. y \<noteq> x) xs)" if x: "x \<in> set xs" for x
  proof -
    have "dropWhile (\<lambda>y. y \<noteq> x) xs \<noteq> []" using x by (auto simp: dropWhile_eq_Nil_conv)
    moreover from this have "hd (dropWhile (\<lambda>y. y \<noteq> x) xs) = x" using hd_dropWhile [of "\<lambda>y. y \<noteq> x" xs] by blast
    ultimately show ?thesis by (metis list.collapse)
  qed
  have split: "takeWhile (\<lambda>y. y \<noteq> x) xs @ x # tl (dropWhile (\<lambda>y. y \<noteq> x) xs) = xs" if "x \<in> set xs" for x
    unfolding rest [OF that, symmetric] by (rule takeWhile_dropWhile_id)
  show ?thesis
  proof (cases c)
    case (InsertAfter x n)
    then have x: "x \<in> set xs" "n \<notin> set xs" using assms(2) by auto
    have "dlist (fat_list_insert_after l x n)
        (takeWhile (\<lambda>y. y \<noteq> x) xs @ x # n # tl (dropWhile (\<lambda>y. y \<noteq> x) xs))"
      using assms(1) x by (intro dlist_insert_after) (simp_all only: split [OF x(1)] not_False_eq_True)
    then show ?thesis using InsertAfter by simp
  next
    case (InsertBefore x n)
    then have x: "x \<in> set xs" "n \<notin> set xs" using assms(2) by auto
    have "dlist (fat_list_insert_before l x n)
        (takeWhile (\<lambda>y. y \<noteq> x) xs @ n # x # tl (dropWhile (\<lambda>y. y \<noteq> x) xs))"
      using assms(1) x by (intro dlist_insert_before) (simp_all only: split [OF x(1)] not_False_eq_True)
    then show ?thesis
      using rest [OF x(1)] by (metis InsertBefore call_list.simps(4) call_spec.simps(4))
  qed (use assms in \<open>auto simp: dlist_insert_first dlist_insert_last dlist_unlink dlist_pop_head\<close>)
qed

text \<open>
  C31: starting from an initialised list, any sequence of insertions of nodes that are not in the
  list, removals of nodes that are, and pops keeps the two directions of links consistent, and
  leaves exactly the sequence of nodes that the same operations give on an abstract list; the
  list is empty, and the next pop returns a node, when the abstract list says so.
\<close>

theorem fat_list_refines:
  assumes "calls_ok cs []"
  shows "dlist (fold call_list cs (fat_list_init l)) (fold call_spec cs [])
    \<and> (fat_list_is_empty (fold call_list cs (fat_list_init l)) \<longleftrightarrow> fold call_spec cs [] = [])
    \<and> fst (fat_list_pop_head (fold call_list cs (fat_list_init l))) = first_or (fold call_spec cs []) None"
proof -
  have "dlist (fold call_list cs l) (fold call_spec cs xs)" if "dlist l xs" "calls_ok cs xs" for l :: "'a fat_list" and xs
    using that by (induction cs arbitrary: l xs) (auto simp: dlist_call)
  then show ?thesis
    using assms dlist_init dlist_is_empty dlist_pop_head(1) by blast
qed

theorem fat_list_refines_witness:
  "dlist (fold call_list [InsertFirst (1::nat), InsertLast 2, InsertBefore 2 3, Remove 1]
      (fat_list_init \<lparr>list_head = None, list_tail = None, store = \<lambda>_. \<lparr>previous = None, next_node = None\<rparr>\<rparr>)) [3, 2]"
  using fat_list_refines [of "[InsertFirst (1::nat), InsertLast 2, InsertBefore 2 3, Remove 1]"
      "\<lparr>list_head = None, list_tail = None, store = \<lambda>_. \<lparr>previous = None, next_node = None\<rparr>\<rparr>"]
  by simp

end
