(* ===== verification/FatCache.thy ===== *)
theory FatCache
  imports FatDefs
begin

section \<open>Open files and the cluster cache\<close>

text \<open>
  The structures of an open file (\<open>fat_filelib.h\<close>) and the cluster cache of \<open>fat_cache.c\<close>, a
  direct-mapped table that remembers which cluster holds the part of a file with a given index.
  The link into the list of files is left out: it is the address of the file in \<open>FatList\<close>.
\<close>

abbreviation FAT_CLUSTER_CACHE_ENTRIES :: nat where "FAT_CLUSTER_CACHE_ENTRIES \<equiv> 128"

record cluster_lookup =
  ClusterIdx :: u32
  CurrentCluster :: u32

record FL_FILE =
  parentcluster :: u32
  startcluster :: u32
  bytenum :: u32
  filelength :: u32
  filelength_changed :: bool
  file_path :: "byte list"
  file_filename :: "byte list"
  shortfilename :: "byte list"
  cluster_cache_idx :: "u32 list"
  cluster_cache_data :: "u32 list"
  last_fat_lookup :: cluster_lookup
  file_data_sector :: "byte list"
  file_data_address :: u32
  file_data_dirty :: bool
  file_flags :: byte

definition cache_slot :: "u32 \<Rightarrow> nat" where
  "cache_slot clusterIdx = unat (clusterIdx mod 128)"

definition fatfs_cache_init :: "FL_FILE \<Rightarrow> FL_FILE" where
  "fatfs_cache_init f = f\<lparr>cluster_cache_idx := replicate FAT_CLUSTER_CACHE_ENTRIES 0xFFFFFFFF,
     cluster_cache_data := replicate FAT_CLUSTER_CACHE_ENTRIES 0\<rparr>"

definition fatfs_cache_get_next_cluster :: "FL_FILE \<Rightarrow> u32 \<Rightarrow> u32 option" where
  "fatfs_cache_get_next_cluster f clusterIdx =
     (let slot = cache_slot clusterIdx
      in if cluster_cache_idx f ! slot = clusterIdx then Some (cluster_cache_data f ! slot) else None)"

definition fatfs_cache_set_next_cluster :: "FL_FILE \<Rightarrow> u32 \<Rightarrow> u32 \<Rightarrow> FL_FILE" where
  "fatfs_cache_set_next_cluster f clusterIdx nextCluster =
     (let slot = cache_slot clusterIdx
      in if cluster_cache_idx f ! slot = clusterIdx
         then f\<lparr>cluster_cache_data := (cluster_cache_data f)[slot := nextCluster]\<rparr>
         else f\<lparr>cluster_cache_idx := (cluster_cache_idx f)[slot := clusterIdx],
           cluster_cache_data := (cluster_cache_data f)[slot := nextCluster]\<rparr>)"

text \<open>What was last recorded in the slot of an index, most recent call first.\<close>

fun cache_history :: "(u32 \<times> u32) list \<Rightarrow> u32 \<Rightarrow> u32 option" where
  "cache_history [] i = None"
| "cache_history ((j, c) # h) i = (if cache_slot j = cache_slot i then (if j = i then Some c else None) else cache_history h i)"

lemma cache_slot_bound: "cache_slot i < 128"
  by (simp add: cache_slot_def unat_mod)

lemma cache_get_set:
  assumes "length (cluster_cache_idx f) = 128" "length (cluster_cache_data f) = 128"
  shows "fatfs_cache_get_next_cluster (fatfs_cache_set_next_cluster f j c) i
    = (if cache_slot j = cache_slot i then (if j = i then Some c else None) else fatfs_cache_get_next_cluster f i)"
proof (cases "cluster_cache_idx f ! cache_slot j = j")
  case True
  then have eq: "fatfs_cache_get_next_cluster (fatfs_cache_set_next_cluster f j c) i
      = (if cluster_cache_idx f ! cache_slot i = i then Some ((cluster_cache_data f)[cache_slot j := c] ! cache_slot i)
         else None)"
    by (simp only: fatfs_cache_set_next_cluster_def fatfs_cache_get_next_cluster_def Let_def if_True simp_thms)
      simp
  show ?thesis
  proof (cases "cache_slot j = cache_slot i")
    case same: True
    have "cluster_cache_idx f ! cache_slot i = j" using True unfolding same .
    then show ?thesis unfolding eq same using assms(2) cache_slot_bound [of i] by simp
  next
    case False
    then show ?thesis unfolding eq by (simp add: fatfs_cache_get_next_cluster_def Let_def)
  qed
next
  case False
  then have set_eq: "fatfs_cache_set_next_cluster f j c = f\<lparr>cluster_cache_idx := (cluster_cache_idx f)[cache_slot j := j],
      cluster_cache_data := (cluster_cache_data f)[cache_slot j := c]\<rparr>"
    by (simp add: fatfs_cache_set_next_cluster_def Let_def)
  show ?thesis
  proof (cases "cache_slot j = cache_slot i")
    case same: True
    then show ?thesis
      unfolding set_eq same using assms cache_slot_bound [of i]
      by (simp add: fatfs_cache_get_next_cluster_def Let_def)
  next
    case False
    then show ?thesis unfolding set_eq by (simp add: fatfs_cache_get_next_cluster_def Let_def)
  qed
qed

lemma cache_history_lemma:
  "length (cluster_cache_idx (foldr (\<lambda>(i, c) f. fatfs_cache_set_next_cluster f i c) h (fatfs_cache_init f))) = 128
    \<and> length (cluster_cache_data (foldr (\<lambda>(i, c) f. fatfs_cache_set_next_cluster f i c) h (fatfs_cache_init f))) = 128
    \<and> (\<forall>i. i \<noteq> 0xFFFFFFFF \<longrightarrow>
        fatfs_cache_get_next_cluster (foldr (\<lambda>(i, c) f. fatfs_cache_set_next_cluster f i c) h (fatfs_cache_init f)) i
          = cache_history h i)"
proof (induction h)
  case Nil
  have "cache_slot i < 128" for i by (rule cache_slot_bound)
  then show ?case
    by (simp add: fatfs_cache_init_def fatfs_cache_get_next_cluster_def Let_def)
next
  case (Cons a h)
  obtain j c where a: "a = (j, c)" by (cases a)
  define g where "g = foldr (\<lambda>(i, c) f. fatfs_cache_set_next_cluster f i c) h (fatfs_cache_init f)"
  have g: "length (cluster_cache_idx g) = 128" "length (cluster_cache_data g) = 128"
    "\<And>i. i \<noteq> 0xFFFFFFFF \<Longrightarrow> fatfs_cache_get_next_cluster g i = cache_history h i"
    using Cons.IH by (auto simp: g_def)
  have step: "foldr (\<lambda>(i, c) f. fatfs_cache_set_next_cluster f i c) (a # h) (fatfs_cache_init f)
      = fatfs_cache_set_next_cluster g j c"
    by (simp add: a g_def)
  have "length (cluster_cache_idx (fatfs_cache_set_next_cluster g j c)) = 128"
    "length (cluster_cache_data (fatfs_cache_set_next_cluster g j c)) = 128"
    using g(1,2) by (simp_all add: fatfs_cache_set_next_cluster_def Let_def)
  then show ?case
    unfolding step by (simp add: cache_get_set [OF g(1,2)] g(3) a)
qed

text \<open>
  After any sequence of recorded clusters, the cache answers for an index with the cluster last
  recorded for it, or not at all when another index has taken its slot since; it never answers
  with the cluster of another index. The one index that is excepted is the mark of unused slots.
\<close>

theorem cluster_cache_correct:
  assumes "i \<noteq> 0xFFFFFFFF"
  shows "fatfs_cache_get_next_cluster
      (foldr (\<lambda>(i, c) f. fatfs_cache_set_next_cluster f i c) h (fatfs_cache_init f)) i = cache_history h i"
  using cache_history_lemma [of h f] assms by blast

theorem cluster_cache_correct_witness:
  "fatfs_cache_get_next_cluster (foldr (\<lambda>(i, c) f. fatfs_cache_set_next_cluster f i c)
      [(130, 9), (5, 8), (2, 7)] (fatfs_cache_init undefined)) 2 = None"
  using cluster_cache_correct [of 2 "[(130, 9), (5, 8), (2, 7)]" undefined] by (simp add: cache_slot_def)

end
