(* ===== verification/FatFilelib.thy ===== *)
theory FatFilelib
  imports FatWrite FatList FatCache
begin

section \<open>The file interface\<close>

text \<open>
  Models \<open>fat_filelib.c\<close>. The library's global object is passed and returned; a file handle is the
  index of its \<open>FL_FILE\<close> in the array of files, a null handle or path is \<open>None\<close>. The nodes of the
  two lists of files are shared, as in the C, where each file contains its node. The outer option
  is \<open>None\<close> where the C has no defined behaviour or does not return. The clock, and the bytes of an
  uninitialised local array that \<open>_create_file\<close> may copy from, are arguments. The lock and unlock
  functions that a client may attach are counted; they do nothing else to the library.
\<close>

subsection \<open>The global object\<close>

abbreviation FILE_READ :: byte where "FILE_READ \<equiv> 0x01"
abbreviation FILE_WRITE :: byte where "FILE_WRITE \<equiv> 0x02"
abbreviation FILE_APPEND :: byte where "FILE_APPEND \<equiv> 0x04"
abbreviation FILE_BINARY :: byte where "FILE_BINARY \<equiv> 0x08"
abbreviation FILE_ERASE :: byte where "FILE_ERASE \<equiv> 0x10"
abbreviation FILE_CREATE :: byte where "FILE_CREATE \<equiv> 0x20"

abbreviation SEEK_SET :: int where "SEEK_SET \<equiv> 0"
abbreviation SEEK_CUR :: int where "SEEK_CUR \<equiv> 1"
abbreviation SEEK_END :: int where "SEEK_END \<equiv> 2"
abbreviation EOF :: int where "EOF \<equiv> - 1"

abbreviation FATFS_MAX_LONG_FILENAME :: int where "FATFS_MAX_LONG_FILENAME \<equiv> 96"

record 'd FL_GLOBAL =
  files :: "FL_FILE list"
  filelib_init :: bool
  filelib_valid :: bool
  fg_fs :: "'d fatfs"
  open_file_list :: "nat option \<times> nat option"
  free_file_list :: "nat option \<times> nat option"
  list_nodes :: "nat \<Rightarrow> nat fat_node"
  fl_lock :: bool
  fl_unlock :: bool
  lock_calls :: nat
  unlock_calls :: nat

definition FL_LOCK :: "'d FL_GLOBAL \<Rightarrow> 'd FL_GLOBAL" where
  "FL_LOCK fg = (if fl_lock fg then fg\<lparr>lock_calls := lock_calls fg + 1\<rparr> else fg)"

definition FL_UNLOCK :: "'d FL_GLOBAL \<Rightarrow> 'd FL_GLOBAL" where
  "FL_UNLOCK fg = (if fl_unlock fg then fg\<lparr>unlock_calls := unlock_calls fg + 1\<rparr> else fg)"

text \<open>The two lists over the shared nodes.\<close>

definition free_list :: "'d FL_GLOBAL \<Rightarrow> nat fat_list" where
  "free_list fg = \<lparr>list_head = fst (free_file_list fg), list_tail = snd (free_file_list fg), store = list_nodes fg\<rparr>"

definition open_list :: "'d FL_GLOBAL \<Rightarrow> nat fat_list" where
  "open_list fg = \<lparr>list_head = fst (open_file_list fg), list_tail = snd (open_file_list fg), store = list_nodes fg\<rparr>"

definition set_free_list :: "nat fat_list \<Rightarrow> 'd FL_GLOBAL \<Rightarrow> 'd FL_GLOBAL" where
  "set_free_list l fg = fg\<lparr>free_file_list := (list_head l, list_tail l), list_nodes := store l\<rparr>"

definition set_open_list :: "nat fat_list \<Rightarrow> 'd FL_GLOBAL \<Rightarrow> 'd FL_GLOBAL" where
  "set_open_list l fg = fg\<lparr>open_file_list := (list_head l, list_tail l), list_nodes := store l\<rparr>"

definition file_at :: "'d FL_GLOBAL \<Rightarrow> nat \<Rightarrow> FL_FILE" where
  "file_at fg h = files fg ! h"

definition put_file :: "nat \<Rightarrow> FL_FILE \<Rightarrow> 'd FL_GLOBAL \<Rightarrow> 'd FL_GLOBAL" where
  "put_file h f fg = fg\<lparr>files := (files fg)[h := f]\<rparr>"

subsection \<open>Handles\<close>

definition allocate_file :: "'d FL_GLOBAL \<Rightarrow> nat option \<times> 'd FL_GLOBAL" where
  "allocate_file fg =
     (let (node, l) = fat_list_pop_head (free_list fg); fg = set_free_list l fg
      in case node of
          None \<Rightarrow> (None, fg)
        | Some h \<Rightarrow> (Some h, set_open_list (fat_list_insert_last (open_list fg) h) fg))"

text \<open>The walk along the open files; it does not return if their links form a cycle.\<close>

partial_function (option) check_open_from :: "'d FL_GLOBAL \<Rightarrow> nat \<Rightarrow> nat option \<Rightarrow> bool option" where
  "check_open_from fg f node =
     (case node of
        None \<Rightarrow> Some False
      | Some openFile \<Rightarrow>
          (if openFile \<noteq> f
              \<and> fatfs_compare_names (file_path (file_at fg openFile)) (file_path (file_at fg f))
              \<and> fatfs_compare_names (file_filename (file_at fg openFile)) (file_filename (file_at fg f))
           then Some True
           else check_open_from fg f (next_node (list_nodes fg openFile))))"

definition check_file_open :: "'d FL_GLOBAL \<Rightarrow> nat \<Rightarrow> bool option" where
  "check_file_open fg f = check_open_from fg f (fst (open_file_list fg))"

definition free_file :: "nat \<Rightarrow> 'd FL_GLOBAL \<Rightarrow> 'd FL_GLOBAL" where
  "free_file h fg =
     (let fg = set_open_list (fat_list_remove (open_list fg) h) fg
      in set_free_list (fat_list_insert_last (free_list fg) h) fg)"

definition fl_init :: "'d FL_GLOBAL \<Rightarrow> 'd FL_GLOBAL" where
  "fl_init fg =
     (let fg = set_free_list (fat_list_init (free_list fg)) fg;
          fg = set_open_list (fat_list_init (open_list fg)) fg;
          fg = fold (\<lambda>i fg. set_free_list (fat_list_insert_last (free_list fg) i) fg) [0..<length (files fg)] fg
      in fg\<lparr>filelib_init := True\<rparr>)"

definition CHECK_FL_INIT :: "'d FL_GLOBAL \<Rightarrow> 'd FL_GLOBAL" where
  "CHECK_FL_INIT fg = (if \<not> filelib_init fg then fl_init fg else fg)"

definition fl_attach_locks :: "bool \<Rightarrow> bool \<Rightarrow> 'd FL_GLOBAL \<Rightarrow> 'd FL_GLOBAL" where
  "fl_attach_locks lock unlock fg = fg\<lparr>fl_lock := lock, fl_unlock := unlock\<rparr>"

definition fl_attach_media :: "'d diskio_read option \<Rightarrow> 'd diskio_write option \<Rightarrow> 'd FL_GLOBAL
    \<Rightarrow> (fat_init_status \<times> 'd FL_GLOBAL) option" where
  "fl_attach_media rd wr fg = do {
     let fg = CHECK_FL_INIT fg;
     (res, fs) \<leftarrow> fatfs_init ((fg_fs fg)\<lparr>read_media := rd, write_media := wr\<rparr>);
     let fg = fg\<lparr>fg_fs := fs\<rparr>;
     Some (res, if res \<noteq> FAT_INIT_OK then fg else fg\<lparr>filelib_valid := True\<rparr>) }"

definition fl_shutdown :: "'d FL_GLOBAL \<Rightarrow> 'd FL_GLOBAL option" where
  "fl_shutdown fg = do {
     let fg = FL_LOCK (CHECK_FL_INIT fg);
     (ok, fs) \<leftarrow> fatfs_fat_purge (fg_fs fg);
     Some (FL_UNLOCK (fg\<lparr>fg_fs := fs\<rparr>)) }"

subsection \<open>Directories of a path\<close>

definition entry_cluster :: "fat_dir_entry \<Rightarrow> u32" where
  "entry_cluster e = push_bit 16 (ucast (FAT_HTONS (FstClusHI e))) + ucast (FAT_HTONS (FstClusLO e))"

text \<open>One round per level: \<open>n\<close> levels remain, from \<open>sublevel\<close> on.\<close>

fun open_levels :: "nat \<Rightarrow> int \<Rightarrow> 'd fatfs \<Rightarrow> byte list \<Rightarrow> u32 \<Rightarrow> byte list \<Rightarrow> (u32 option \<times> 'd fatfs) option" where
  "open_levels 0 sublevel fs path start currentfolder = Some (Some start, fs)"
| "open_levels (Suc n) sublevel fs path start currentfolder = do {
     (r, currentfolder) \<leftarrow> fatfs_get_substring path sublevel currentfolder FATFS_MAX_LONG_FILENAME;
     if r = - 1 then Some (None, fs)
     else do {
       (e, fs) \<leftarrow> fatfs_get_file_entry fs start currentfolder;
       case e of
         Some sfEntry \<Rightarrow>
           (if fatfs_entry_is_dir sfEntry
            then open_levels n (sublevel + 1) fs path (entry_cluster sfEntry) currentfolder
            else Some (None, fs))
       | None \<Rightarrow> Some (None, fs) } }"

definition open_directory :: "'d fatfs \<Rightarrow> byte list \<Rightarrow> (u32 option \<times> 'd fatfs) option" where
  "open_directory fs path = do {
     levels \<leftarrow> fatfs_total_path_levels path;
     open_levels (nat (levels + 1)) 0 fs path (fatfs_get_root_cluster fs) [] }"

text \<open>
  The common start of \<open>_create_directory\<close>, \<open>_open_file\<close> and \<open>_create_file\<close>: the handle, its path and
  name, and the cluster of the directory. The handle is given back on every failure.
\<close>

definition locate_file :: "byte list \<Rightarrow> 'd FL_GLOBAL \<Rightarrow> (nat option \<times> 'd FL_GLOBAL) option" where
  "locate_file path fg =
     (case allocate_file fg of
        (None, fg) \<Rightarrow> Some (None, fg)
      | (Some h, fg) \<Rightarrow> do {
          (r, p, n) \<leftarrow> fatfs_split_path path [] FATFS_MAX_LONG_FILENAME [] FATFS_MAX_LONG_FILENAME;
          let fg = put_file h ((file_at fg h)\<lparr>file_path := p, file_filename := n\<rparr>) fg;
          if r = - 1 then Some (None, free_file h fg)
          else do {
            opened \<leftarrow> check_file_open fg h;
            if opened then Some (None, free_file h fg)
            else if p = []
            then Some (Some h, put_file h ((file_at fg h)\<lparr>parentcluster := fatfs_get_root_cluster (fg_fs fg)\<rparr>) fg)
            else do {
              (c, fs) \<leftarrow> open_directory (fg_fs fg) p;
              let fg = fg\<lparr>fg_fs := fs\<rparr>;
              case c of
                None \<Rightarrow> Some (None, free_file h fg)
              | Some c \<Rightarrow> Some (Some h, put_file h ((file_at fg h)\<lparr>parentcluster := c\<rparr>) fg) } } })"

subsection \<open>Opening and creating files\<close>

definition no_lookup :: cluster_lookup where
  "no_lookup = \<lparr>ClusterIdx = 0xFFFFFFFF, CurrentCluster = 0xFFFFFFFF\<rparr>"

definition open_file :: "byte list \<Rightarrow> 'd FL_GLOBAL \<Rightarrow> (nat option \<times> 'd FL_GLOBAL) option" where
  "open_file path fg = do {
     (r, fg) \<leftarrow> locate_file path fg;
     case r of
       None \<Rightarrow> Some (None, fg)
     | Some h \<Rightarrow> do {
         (e, fs) \<leftarrow> fatfs_get_file_entry (fg_fs fg) (parentcluster (file_at fg h)) (file_filename (file_at fg h));
         let fg = fg\<lparr>fg_fs := fs\<rparr>;
         case e of
           None \<Rightarrow> Some (None, free_file h fg)
         | Some sfEntry \<Rightarrow>
             if \<not> fatfs_entry_is_file sfEntry then Some (None, free_file h fg)
             else do {
               let f = fatfs_cache_init ((file_at fg h)\<lparr>shortfilename := Name sfEntry,
                 filelength := FAT_HTONL (FileSize sfEntry), bytenum := 0, startcluster := entry_cluster sfEntry,
                 file_data_address := 0xFFFFFFFF, file_data_dirty := False, filelength_changed := False,
                 last_fat_lookup := no_lookup\<rparr>);
               (ok, fs) \<leftarrow> fatfs_fat_purge (fg_fs fg);
               Some (Some h, put_file h f (fg\<lparr>fg_fs := fs\<rparr>)) } } }"

text \<open>
  The loop that looks for an unused short name: \<open>n\<close> tries remain. \<open>junk\<close> is what the local array holds
  and \<open>short\<close> what the file's short name holds before.
\<close>

fun unused_sfn :: "nat \<Rightarrow> u32 \<Rightarrow> 'd fatfs \<Rightarrow> u32 \<Rightarrow> byte list \<Rightarrow> byte list \<Rightarrow> byte list
    \<Rightarrow> (bool \<times> byte list \<times> 'd fatfs) option" where
  "unused_sfn 0 tailNum fs parent filename short junk = Some (False, short, fs)"
| "unused_sfn (Suc n) tailNum fs parent filename short junk = do {
     let junk = snd (fatfs_lfn_create_sfn junk filename);
     let short = (if tailNum \<noteq> 0 then snd (fatfs_lfn_generate_tail short junk tailNum) else junk);
     (ex, fs) \<leftarrow> fatfs_sfn_exists fs parent short;
     if \<not> ex then Some (True, short, fs) else unused_sfn n (tailNum + 1) fs parent filename short junk }"

text \<open>
  The common part of \<open>_create_directory\<close> and \<open>_create_file\<close>, which differ in what they do to the new
  cluster (\<open>erase\<close>) and in the kind of entry: the handle of the file, or nothing, the file being
  given back.
\<close>

definition create_entry :: "tm \<Rightarrow> byte list \<Rightarrow> bool \<Rightarrow> (FL_FILE \<Rightarrow> 'd fatfs \<Rightarrow> (bool \<times> FL_FILE \<times> 'd fatfs) option)
    \<Rightarrow> byte list \<Rightarrow> 'd FL_GLOBAL \<Rightarrow> (nat option \<times> 'd FL_GLOBAL) option" where
  "create_entry now junk dir erase path fg = do {
     (r, fg) \<leftarrow> locate_file path fg;
     case r of
       None \<Rightarrow> Some (None, fg)
     | Some h \<Rightarrow> do {
         (e, fs) \<leftarrow> fatfs_get_file_entry (fg_fs fg) (parentcluster (file_at fg h)) (file_filename (file_at fg h));
         let fg = fg\<lparr>fg_fs := fs\<rparr>;
         if e \<noteq> None then Some (None, free_file h fg)
         else do {
           (ok, c, fs) \<leftarrow> fatfs_allocate_free_space (fg_fs fg) True 0 1;
           let f = (file_at fg h)\<lparr>startcluster := c\<rparr>;
           let fg = put_file h f (fg\<lparr>fg_fs := fs\<rparr>);
           if \<not> ok then Some (None, free_file h fg)
           else do {
             (ok, f, fs) \<leftarrow> erase f (fg_fs fg);
             let fg = put_file h f (fg\<lparr>fg_fs := fs\<rparr>);
             if \<not> ok then Some (None, free_file h fg)
             else do {
               (ok, short, fs) \<leftarrow> unused_sfn 9999 0 (fg_fs fg) (parentcluster f) (file_filename f) (shortfilename f) junk;
               let f = f\<lparr>shortfilename := short\<rparr>;
               let fg = put_file h f (fg\<lparr>fg_fs := fs\<rparr>);
               if \<not> ok
               then do {
                 (ok, fs) \<leftarrow> fatfs_free_cluster_chain (fg_fs fg) (startcluster f);
                 Some (None, free_file h (fg\<lparr>fg_fs := fs\<rparr>)) }
               else do {
                 (ok, fs) \<leftarrow> fatfs_add_file_entry now (fg_fs fg) (parentcluster f) (file_filename f) short (startcluster f) 0 dir;
                 if \<not> ok
                 then do {
                   (ok, fs) \<leftarrow> fatfs_free_cluster_chain fs (startcluster f);
                   Some (None, free_file h (fg\<lparr>fg_fs := fs\<rparr>)) }
                 else do {
                   let f = f\<lparr>filelength := 0, bytenum := 0, file_data_address := 0xFFFFFFFF, file_data_dirty := False,
                     filelength_changed := False, last_fat_lookup := no_lookup\<rparr>;
                   let f = (if dir then f else fatfs_cache_init f);
                   (ok, fs) \<leftarrow> fatfs_fat_purge fs;
                   Some (Some h, put_file h f (fg\<lparr>fg_fs := fs\<rparr>)) } } } } } } }"

text \<open>Erasing the cluster of a new directory: \<open>n\<close> sectors remain, from number \<open>i\<close> on.\<close>

fun erase_sectors :: "nat \<Rightarrow> u32 \<Rightarrow> 'd fatfs \<Rightarrow> u32 \<Rightarrow> byte list \<Rightarrow> (bool \<times> 'd fatfs) option" where
  "erase_sectors 0 i fs cluster sector = Some (True, fs)"
| "erase_sectors (Suc n) i fs cluster sector = do {
     (ok, fs) \<leftarrow> fatfs_write_sector fs cluster i (Some sector);
     if \<not> ok then Some (False, fs) else erase_sectors n (i + 1) fs cluster sector }"

definition erase_directory :: "FL_FILE \<Rightarrow> 'd fatfs \<Rightarrow> (bool \<times> FL_FILE \<times> 'd fatfs) option" where
  "erase_directory f fs = do {
     let f = f\<lparr>file_data_sector := replicate FAT_SECTOR_SIZE 0\<rparr>;
     (ok, fs) \<leftarrow> erase_sectors (unat (sectors_per_cluster fs)) 0 fs (startcluster f) (file_data_sector f);
     Some (ok, f, fs) }"

definition create_directory :: "tm \<Rightarrow> byte list \<Rightarrow> byte list \<Rightarrow> 'd FL_GLOBAL \<Rightarrow> (bool \<times> 'd FL_GLOBAL) option" where
  "create_directory now junk path fg = do {
     (r, fg) \<leftarrow> create_entry now junk True erase_directory path fg;
     case r of
       None \<Rightarrow> Some (False, fg)
     | Some h \<Rightarrow> Some (True, free_file h fg) }"

definition create_file :: "tm \<Rightarrow> byte list \<Rightarrow> byte list \<Rightarrow> 'd FL_GLOBAL \<Rightarrow> (nat option \<times> 'd FL_GLOBAL) option" where
  "create_file now junk path fg =
     (if write_media (fg_fs fg) = None then Some (None, fg)
      else create_entry now junk False (\<lambda>f fs. Some (True, f, fs)) path fg)"

subsection \<open>Sectors of a file\<close>

text \<open>
  Following the chain of a file with the help of its cluster cache: \<open>n\<close> steps remain, the first from
  index \<open>i\<close>.
\<close>

fun read_walk :: "nat \<Rightarrow> 'd fatfs \<Rightarrow> FL_FILE \<Rightarrow> u32 \<Rightarrow> u32 \<Rightarrow> (u32 \<times> FL_FILE \<times> 'd fatfs) option" where
  "read_walk 0 fs f i Cluster = Some (Cluster, f, fs)"
| "read_walk (Suc n) fs f i Cluster =
     (case fatfs_cache_get_next_cluster f i of
        Some nextCluster \<Rightarrow> read_walk n fs f (i + 1) nextCluster
      | None \<Rightarrow> do {
          (nextCluster, fs) \<leftarrow> fatfs_find_next_cluster fs Cluster;
          read_walk n fs (fatfs_cache_set_next_cluster f i nextCluster) (i + 1) nextCluster })"

definition walk_start :: "FL_FILE \<Rightarrow> u32 \<Rightarrow> u32 \<times> u32" where
  "walk_start f clusterIdx =
     (if clusterIdx \<noteq> 0 \<and> clusterIdx = ClusterIdx (last_fat_lookup f) + 1
      then (ClusterIdx (last_fat_lookup f), CurrentCluster (last_fat_lookup f))
      else (0, startcluster f))"

definition file_cluster :: "'d fatfs \<Rightarrow> FL_FILE \<Rightarrow> u32 \<Rightarrow> (u32 \<times> FL_FILE \<times> 'd fatfs) option" where
  "file_cluster fs f clusterIdx =
     (if clusterIdx = ClusterIdx (last_fat_lookup f) then Some (CurrentCluster (last_fat_lookup f), f, fs)
      else do {
        let (i, Cluster) = walk_start f clusterIdx;
        (Cluster, f, fs) \<leftarrow> read_walk (unat (clusterIdx - i)) fs f i Cluster;
        Some (Cluster,
          if Cluster \<noteq> FAT32_LAST_CLUSTER
          then f\<lparr>last_fat_lookup := \<lparr>ClusterIdx = clusterIdx, CurrentCluster = Cluster\<rparr>\<rparr> else f, fs) })"

text \<open>Returns the number of sectors read, the buffer, the file and the file system.\<close>

definition read_sectors :: "'d fatfs \<Rightarrow> FL_FILE \<Rightarrow> u32 \<Rightarrow> byte list \<Rightarrow> u32 \<Rightarrow> (u32 \<times> byte list \<times> FL_FILE \<times> 'd fatfs) option" where
  "read_sectors fs f offset buffer count =
     (let spc = ucast (sectors_per_cluster fs)
      in if spc = 0 then None
         else do {
           let clusterIdx = offset div spc;
           let Sector = offset - clusterIdx * spc;
           let count = (if Sector + count > spc then spc - Sector else count);
           (Cluster, f, fs) \<leftarrow> file_cluster fs f clusterIdx;
           if Cluster = FAT32_LAST_CLUSTER then Some (0, buffer, f, fs)
           else do {
             (ok, buffer, fs) \<leftarrow> fatfs_sector_read fs (fatfs_lba_of_cluster fs Cluster + Sector) buffer count;
             Some (if ok then count else 0, buffer, f, fs) } })"

text \<open>The walk of the writer, which stops at the end of the chain and remembers the cluster before.\<close>

fun write_walk :: "nat \<Rightarrow> 'd fatfs \<Rightarrow> FL_FILE \<Rightarrow> u32 \<Rightarrow> u32 \<Rightarrow> u32 \<Rightarrow> (u32 \<times> u32 \<times> FL_FILE \<times> 'd fatfs) option" where
  "write_walk 0 fs f i Cluster LastCluster = Some (Cluster, LastCluster, f, fs)"
| "write_walk (Suc n) fs f i Cluster LastCluster = do {
     (nextCluster, f, fs) \<leftarrow>
       (case fatfs_cache_get_next_cluster f i of
          Some nextCluster \<Rightarrow> Some (nextCluster, f, fs)
        | None \<Rightarrow> do {
            (nextCluster, fs) \<leftarrow> fatfs_find_next_cluster fs Cluster;
            Some (nextCluster, fatfs_cache_set_next_cluster f i nextCluster, fs) });
     if nextCluster = FAT32_LAST_CLUSTER then Some (nextCluster, Cluster, f, fs)
     else write_walk n fs f (i + 1) nextCluster Cluster }"

definition write_sectors :: "'d fatfs \<Rightarrow> FL_FILE \<Rightarrow> u32 \<Rightarrow> byte list \<Rightarrow> u32 \<Rightarrow> (u32 \<times> FL_FILE \<times> 'd fatfs) option" where
  "write_sectors fs f offset buf count =
     (let spc = ucast (sectors_per_cluster fs); TotalWriteCount = count
      in if spc = 0 then None
         else do {
           let clusterIdx = offset div spc;
           let SectorNumber = offset - clusterIdx * spc;
           let count = (if SectorNumber + count > spc then spc - SectorNumber else count);
           (Cluster, f, fs) \<leftarrow>
             (if clusterIdx = ClusterIdx (last_fat_lookup f) then Some (Some (CurrentCluster (last_fat_lookup f)), f, fs)
              else do {
                let (i, Cluster) = walk_start f clusterIdx;
                (Cluster, LastCluster, f, fs) \<leftarrow> write_walk (unat (clusterIdx - i)) fs f i Cluster FAT32_LAST_CLUSTER;
                (Cluster, fs) \<leftarrow>
                  (if Cluster = FAT32_LAST_CLUSTER
                   then do {
                     (ok, LastCluster, fs) \<leftarrow> fatfs_add_free_space fs LastCluster ((TotalWriteCount + spc - 1) div spc);
                     Some (if ok then Some LastCluster else None, fs) }
                   else Some (Some Cluster, fs));
                Some (Cluster, case Cluster of None \<Rightarrow> f
                    | Some c \<Rightarrow> f\<lparr>last_fat_lookup := \<lparr>ClusterIdx = clusterIdx, CurrentCluster = c\<rparr>\<rparr>, fs) });
           case Cluster of
             None \<Rightarrow> Some (0, f, fs)
           | Some Cluster \<Rightarrow> do {
               (ok, fs) \<leftarrow> fatfs_sector_write fs (fatfs_lba_of_cluster fs Cluster + SectorNumber) buf count;
               Some (if ok then count else 0, f, fs) } })"

subsection \<open>Flushing, opening and closing\<close>

text \<open>What \<open>fl_fflush\<close> does to the file, and the call itself; its result is always 0.\<close>

definition flush_file :: "'d fatfs \<Rightarrow> FL_FILE \<Rightarrow> (FL_FILE \<times> 'd fatfs) option" where
  "flush_file fs f =
     (if file_data_dirty f
      then do {
        (n, f, fs) \<leftarrow> write_sectors fs f (file_data_address f) (file_data_sector f) 1;
        Some (if n \<noteq> 0 then f\<lparr>file_data_dirty := False\<rparr> else f, fs) }
      else Some (f, fs))"

definition fl_fflush :: "nat option \<Rightarrow> 'd FL_GLOBAL \<Rightarrow> (int \<times> 'd FL_GLOBAL) option" where
  "fl_fflush file fg =
     (let fg = CHECK_FL_INIT fg
      in case file of
          None \<Rightarrow> Some (0, fg)
        | Some h \<Rightarrow> do {
            let fg = FL_LOCK fg;
            (f, fs) \<leftarrow> flush_file (fg_fs fg) (file_at fg h);
            Some (0, FL_UNLOCK (put_file h f (fg\<lparr>fg_fs := fs\<rparr>))) })"

text \<open>The flags of a mode string.\<close>

definition mode_char :: "byte \<Rightarrow> byte \<Rightarrow> byte" where
  "mode_char c flags =
     (if c = 0x72 \<or> c = 0x52 then flags OR FILE_READ
      else if c = 0x77 \<or> c = 0x57 then flags OR FILE_WRITE OR FILE_ERASE OR FILE_CREATE
      else if c = 0x61 \<or> c = 0x41 then flags OR FILE_WRITE OR FILE_APPEND OR FILE_CREATE
      else if c = 0x2B
      then (if flags AND FILE_READ \<noteq> 0 then flags OR FILE_WRITE
        else if flags AND FILE_WRITE \<noteq> 0 then flags OR FILE_READ OR FILE_ERASE OR FILE_CREATE
        else if flags AND FILE_APPEND \<noteq> 0 then flags OR FILE_READ OR FILE_WRITE OR FILE_APPEND OR FILE_CREATE
        else flags)
      else if c = 0x62 \<or> c = 0x42 then flags OR FILE_BINARY
      else flags)"

definition mode_flags :: "byte list \<Rightarrow> byte" where
  "mode_flags mode = fold mode_char mode 0"

definition fl_fopen :: "tm \<Rightarrow> byte list \<Rightarrow> byte list option \<Rightarrow> byte list option \<Rightarrow> 'd FL_GLOBAL
    \<Rightarrow> (nat option \<times> 'd FL_GLOBAL) option" where
  "fl_fopen now junk path mode fg =
     (let fg = CHECK_FL_INIT fg
      in if \<not> filelib_valid fg then Some (None, fg)
         else case (path, mode) of
           (Some path, Some mode) \<Rightarrow> do {
             let flags = mode_flags mode;
             let flags = (if write_media (fg_fs fg) = None
               then flags AND NOT (FILE_CREATE OR FILE_WRITE OR FILE_APPEND) else flags);
             let fg = FL_LOCK fg;
             (file, fg) \<leftarrow> (if flags AND FILE_READ \<noteq> 0 then open_file path fg else Some (None, fg));
             (file, fg) \<leftarrow> (if file = None \<and> flags AND FILE_CREATE \<noteq> 0 then create_file now junk path fg else Some (file, fg));
             (file, fg) \<leftarrow> (if flags AND FILE_READ = 0 \<and> flags AND FILE_CREATE \<noteq> 0 \<and> file = None
                 \<and> flags AND (FILE_WRITE OR FILE_APPEND) \<noteq> 0
               then open_file path fg else Some (file, fg));
             let fg = (case file of None \<Rightarrow> fg | Some h \<Rightarrow> put_file h ((file_at fg h)\<lparr>file_flags := flags\<rparr>) fg);
             Some (file, FL_UNLOCK fg) }
         | _ \<Rightarrow> Some (None, fg))"

definition fl_fclose :: "tm \<Rightarrow> nat option \<Rightarrow> 'd FL_GLOBAL \<Rightarrow> 'd FL_GLOBAL option" where
  "fl_fclose now file fg =
     (let fg = CHECK_FL_INIT fg
      in case file of
          None \<Rightarrow> Some fg
        | Some h \<Rightarrow> do {
            let fg = FL_LOCK fg;
            (r, fg) \<leftarrow> fl_fflush (Some h) fg;
            let f = file_at fg h;
            (ok, fs) \<leftarrow> (if filelength_changed f
               then fatfs_update_file_length now (fg_fs fg) (parentcluster f) (shortfilename f) (filelength f)
               else Some (True, fg_fs fg));
            let fg = put_file h (f\<lparr>bytenum := 0, filelength := 0, startcluster := 0, file_data_address := 0xFFFFFFFF,
              file_data_dirty := False, filelength_changed := False\<rparr>) (fg\<lparr>fg_fs := fs\<rparr>);
            let fg = free_file h fg;
            (ok, fs) \<leftarrow> fatfs_fat_purge (fg_fs fg);
            Some (FL_UNLOCK (fg\<lparr>fg_fs := fs\<rparr>)) })"

subsection \<open>Reading\<close>

text \<open>C's \<open>int\<close>: a value that does not fit is undefined behaviour; a word is converted by its sign.\<close>

definition c_int :: "int \<Rightarrow> int option" where
  "c_int x = (if - (2 ^ 31) \<le> x \<and> x < 2 ^ 31 then Some x else None)"

text \<open>The sector of the next byte comes into the buffer of the file, unless it is there.\<close>

definition load_sector :: "'d FL_GLOBAL \<Rightarrow> nat \<Rightarrow> u32 \<Rightarrow> (bool \<times> 'd FL_GLOBAL) option" where
  "load_sector fg h sector =
     (if file_data_address (file_at fg h) \<noteq> sector
      then Option.bind (if file_data_dirty (file_at fg h) then fl_fflush (Some h) fg else Some (0, fg)) (\<lambda>(r, fg).
        Option.bind (read_sectors (fg_fs fg) (file_at fg h) sector (file_data_sector (file_at fg h)) 1) (\<lambda>(n, buf, f, fs).
          let f = f\<lparr>file_data_sector := buf\<rparr>
          in if n = 0 then Some (False, put_file h f (fg\<lparr>fg_fs := fs\<rparr>))
             else Some (True, put_file h (f\<lparr>file_data_address := sector, file_data_dirty := False\<rparr>) (fg\<lparr>fg_fs := fs\<rparr>))))
      else Some (True, fg))"

text \<open>
  The loop of \<open>fl_fread\<close>: \<open>sector\<close> and \<open>offset\<close> are the place of the next byte, \<open>bytesRead\<close> the number of
  bytes that \<open>buffer\<close> has received.
\<close>

partial_function (option) read_loop :: "'d FL_GLOBAL \<Rightarrow> nat \<Rightarrow> u32 \<Rightarrow> u32 \<Rightarrow> byte list \<Rightarrow> int \<Rightarrow> int
    \<Rightarrow> (int \<times> byte list \<times> 'd FL_GLOBAL) option" where
  "read_loop fg h sector offset buffer bytesRead count =
     (if \<not> bytesRead < count then Some (bytesRead, buffer, fg)
      else if offset = 0 \<and> count - bytesRead \<ge> 512
      then Option.bind (read_sectors (fg_fs fg) (file_at fg h) sector (drop (nat bytesRead) buffer) (word_of_int ((count - bytesRead) sdiv 512)))
        (\<lambda>(sectorsRead, buf, f, fs).
          let fg = put_file h f (fg\<lparr>fg_fs := fs\<rparr>);
              buffer = take (nat bytesRead) buffer @ buf;
              copyCount = sint (512 * sectorsRead)
          in if sectorsRead \<noteq> 0
             then read_loop (put_file h (f\<lparr>bytenum := bytenum f + word_of_int copyCount\<rparr>) fg) h (sector + sectorsRead) 0
               buffer (bytesRead + copyCount) count
             else Some (bytesRead, buffer, fg))
      else Option.bind (load_sector fg h sector)
        (\<lambda>(ok, fg).
          if \<not> ok then Some (bytesRead, buffer, fg)
          else
            (let f = file_at fg h;
                 copyCount = min (512 - uint offset) (count - bytesRead);
                 data = mem_read (unat offset) (nat copyCount) (file_data_sector f)
             in if nat bytesRead + nat copyCount > length buffer then None
                else read_loop (put_file h (f\<lparr>bytenum := bytenum f + word_of_int copyCount\<rparr>) fg) h (sector + 1) 0
                  (mem_write (nat bytesRead) data buffer) (bytesRead + copyCount) count)))"

definition fl_fread :: "byte list option \<Rightarrow> int \<Rightarrow> int \<Rightarrow> nat option \<Rightarrow> 'd FL_GLOBAL
    \<Rightarrow> (int \<times> byte list option \<times> 'd FL_GLOBAL) option" where
  "fl_fread buffer size' length' file fg = do {
     count \<leftarrow> c_int (size' * length');
     let fg = CHECK_FL_INIT fg;
     case (buffer, file) of
       (Some buf, Some h) \<Rightarrow>
         (let f = file_at fg h
          in if file_flags f AND FILE_READ = 0 then Some (- 1, buffer, fg)
             else if count = 0 then Some (0, buffer, fg)
             else if bytenum f \<ge> filelength f then Some (- 1, buffer, fg)
             else do {
               let count = (if bytenum f + word_of_int count > filelength f then sint (filelength f - bytenum f) else count);
               (n, buf, fg) \<leftarrow> read_loop fg h (bytenum f div 512) (bytenum f mod 512) buf 0 count;
               Some (n, Some buf, fg) })
     | _ \<Rightarrow> Some (- 1, buffer, fg) }"

definition fl_fgetc :: "nat option \<Rightarrow> 'd FL_GLOBAL \<Rightarrow> (int \<times> 'd FL_GLOBAL) option" where
  "fl_fgetc file fg = do {
     (res, data, fg) \<leftarrow> fl_fread (Some [0]) 1 1 file fg;
     Some (if res = 1 then uint (hd (the data)) else res, fg) }"

text \<open>\<open>fl_fgets\<close> with room for \<open>n\<close> more characters: the characters read, in order.\<close>

fun gets_loop :: "nat \<Rightarrow> nat option \<Rightarrow> 'd FL_GLOBAL \<Rightarrow> (byte list \<times> 'd FL_GLOBAL) option" where
  "gets_loop 0 file fg = Some ([], fg)"
| "gets_loop (Suc n) file fg = do {
     (ch, fg) \<leftarrow> fl_fgetc file fg;
     if ch < 0 then Some ([], fg)
     else if ch = 0x0A then Some ([word_of_int ch], fg)
     else do {
       (rest, fg) \<leftarrow> gets_loop n file fg;
       Some (word_of_int ch # rest, fg) } }"

text \<open>The result is the string that is stored, or \<open>None\<close> for the null pointer.\<close>

definition fl_fgets :: "int \<Rightarrow> nat option \<Rightarrow> 'd FL_GLOBAL \<Rightarrow> (byte list option \<times> 'd FL_GLOBAL) option" where
  "fl_fgets n file fg =
     (if n > 0
      then do {
        (s, fg) \<leftarrow> gets_loop (nat (n - 1)) file fg;
        Some (if s \<noteq> [] then Some s else None, fg) }
      else Some (None, fg))"

subsection \<open>The position in the file\<close>

text \<open>\<open>offset\<close> is a \<open>long\<close>, 32 bits on the Saturn.\<close>

definition fl_fseek :: "nat option \<Rightarrow> int \<Rightarrow> int \<Rightarrow> 'd FL_GLOBAL \<Rightarrow> (int \<times> 'd FL_GLOBAL) option" where
  "fl_fseek file offset origin fg =
     (let fg = CHECK_FL_INIT fg
      in case file of
          None \<Rightarrow> Some (- 1, fg)
        | Some h \<Rightarrow>
            if origin = SEEK_END \<and> offset \<noteq> 0 then Some (- 1, fg)
            else do {
              let fg = FL_LOCK fg;
              let f = (file_at fg h)\<lparr>file_data_address := 0xFFFFFFFF, file_data_dirty := False\<rparr>;
              (res, f) \<leftarrow>
                (if origin = SEEK_SET
                 then (let p = word_of_int offset
                   in Some (0, f\<lparr>bytenum := (if p > filelength f then filelength f else p)\<rparr>))
                 else if origin = SEEK_CUR
                 then (if offset \<ge> 0
                   then (let p = bytenum f + word_of_int offset
                     in Some (0, f\<lparr>bytenum := (if p > filelength f then filelength f else p)\<rparr>))
                   else do {
                     offset \<leftarrow> c_int (- offset);
                     Some (0, f\<lparr>bytenum := (if word_of_int offset > bytenum f then 0 else bytenum f - word_of_int offset)\<rparr>) })
                 else if origin = SEEK_END then Some (0, f\<lparr>bytenum := filelength f\<rparr>)
                 else Some (- 1, f));
              Some (res, FL_UNLOCK (put_file h f fg)) })"

definition fl_fgetpos :: "nat option \<Rightarrow> u32 \<Rightarrow> 'd FL_GLOBAL \<Rightarrow> int \<times> u32 \<times> 'd FL_GLOBAL" where
  "fl_fgetpos file position fg =
     (case file of
        None \<Rightarrow> (- 1, position, fg)
      | Some h \<Rightarrow> (0, bytenum (file_at fg h), FL_UNLOCK (FL_LOCK fg)))"

definition fl_ftell :: "nat option \<Rightarrow> 'd FL_GLOBAL \<Rightarrow> int \<times> 'd FL_GLOBAL" where
  "fl_ftell file fg = (let (r, pos, fg) = fl_fgetpos file 0 fg in (sint pos, fg))"

definition fl_feof :: "nat option \<Rightarrow> 'd FL_GLOBAL \<Rightarrow> int \<times> 'd FL_GLOBAL" where
  "fl_feof file fg =
     (case file of
        None \<Rightarrow> (- 1, fg)
      | Some h \<Rightarrow> (if bytenum (file_at fg h) = filelength (file_at fg h) then EOF else 0, FL_UNLOCK (FL_LOCK fg)))"

subsection \<open>Writing\<close>

text \<open>The loop of \<open>fl_fwrite\<close>; \<open>buffer\<close> are all the bytes to write.\<close>

definition forget_sector :: "nat \<Rightarrow> 'd FL_GLOBAL \<Rightarrow> 'd FL_GLOBAL option" where
  "forget_sector h fg =
     (if file_data_address (file_at fg h) \<noteq> 0xFFFFFFFF
      then do {
        (r, fg) \<leftarrow> (if file_data_dirty (file_at fg h) then fl_fflush (Some h) fg else Some (0, fg));
        Some (put_file h ((file_at fg h)\<lparr>file_data_address := 0xFFFFFFFF, file_data_dirty := False\<rparr>) fg) }
      else Some fg)"

definition buffer_sector :: "nat \<Rightarrow> u32 \<Rightarrow> bool \<Rightarrow> 'd FL_GLOBAL \<Rightarrow> 'd FL_GLOBAL option" where
  "buffer_sector h sector whole fg =
     (if file_data_address (file_at fg h) \<noteq> sector
      then do {
        (r, fg) \<leftarrow> (if file_data_dirty (file_at fg h) then fl_fflush (Some h) fg else Some (0, fg));
        (f, fs) \<leftarrow>
          (if \<not> whole
           then do {
             (n, buf, f, fs) \<leftarrow> read_sectors (fg_fs fg) (file_at fg h) sector (file_data_sector (file_at fg h)) 1;
             Some (f\<lparr>file_data_sector := (if n = 0 then replicate FAT_SECTOR_SIZE 0 else buf)\<rparr>, fs) }
           else Some (file_at fg h, fg_fs fg));
        Some (put_file h (f\<lparr>file_data_address := sector, file_data_dirty := False\<rparr>) (fg\<lparr>fg_fs := fs\<rparr>)) }
      else Some fg)"

partial_function (option) write_loop :: "'d FL_GLOBAL \<Rightarrow> nat \<Rightarrow> u32 \<Rightarrow> u32 \<Rightarrow> byte list \<Rightarrow> u32 \<Rightarrow> u32
    \<Rightarrow> 'd FL_GLOBAL option" where
  "write_loop fg h sector offset buffer bytesWritten len =
     (if \<not> bytesWritten < len then Some fg
      else if offset = 0 \<and> len - bytesWritten \<ge> 512
      then Option.bind (forget_sector h fg) (\<lambda>fg.
        Option.bind (write_sectors (fg_fs fg) (file_at fg h) sector (drop (unat bytesWritten) buffer) ((len - bytesWritten) div 512))
          (\<lambda>(sectorsWrote, f, fs).
            let copyCount = 512 * sectorsWrote;
                fg = put_file h (f\<lparr>bytenum := bytenum f + copyCount\<rparr>) (fg\<lparr>fg_fs := fs\<rparr>)
            in if sectorsWrote = 0 then Some fg
               else write_loop fg h (sector + sectorsWrote) 0 buffer (bytesWritten + copyCount) len))
      else
        (let copyCount = (if 512 - offset > len - bytesWritten then len - bytesWritten else 512 - offset)
         in Option.bind (buffer_sector h sector (copyCount = 512) fg) (\<lambda>fg.
           let f = file_at fg h;
               data = mem_read (unat bytesWritten) (unat copyCount) buffer
           in if unat bytesWritten + unat copyCount > length buffer then None
              else write_loop (put_file h (f\<lparr>file_data_sector := mem_write (unat offset) data (file_data_sector f),
                  file_data_dirty := True, bytenum := bytenum f + copyCount\<rparr>) fg) h (sector + 1) 0 buffer
                  (bytesWritten + copyCount) len)))"

definition fl_fwrite :: "byte list \<Rightarrow> int \<Rightarrow> int \<Rightarrow> nat option \<Rightarrow> 'd FL_GLOBAL \<Rightarrow> (int \<times> 'd FL_GLOBAL) option" where
  "fl_fwrite data size' count file fg = do {
     total \<leftarrow> c_int (size' * count);
     let fg = CHECK_FL_INIT fg;
     case file of
       None \<Rightarrow> Some (- 1, fg)
     | Some h \<Rightarrow> do {
         let fg = FL_LOCK fg;
         let f = file_at fg h;
         if file_flags f AND FILE_WRITE = 0 then Some (- 1, FL_UNLOCK fg)
         else do {
           let f = (if file_flags f AND FILE_APPEND \<noteq> 0 then f\<lparr>bytenum := filelength f\<rparr> else f);
           fg \<leftarrow> write_loop (put_file h f fg) h (bytenum f div 512) (bytenum f mod 512) data 0 (word_of_int total);
           let f = file_at fg h;
           let f = (if bytenum f > filelength f then f\<lparr>filelength := bytenum f, filelength_changed := True\<rparr> else f);
           Some (total, FL_UNLOCK (put_file h (f\<lparr>filelength_changed := True\<rparr>) fg)) } } }"

definition fl_fputc :: "int \<Rightarrow> nat option \<Rightarrow> 'd FL_GLOBAL \<Rightarrow> (int \<times> 'd FL_GLOBAL) option" where
  "fl_fputc c file fg = do {
     (res, fg) \<leftarrow> fl_fwrite [word_of_int c] 1 1 file fg;
     Some (if res = 1 then c else res, fg) }"

definition fl_fputs :: "byte list \<Rightarrow> nat option \<Rightarrow> 'd FL_GLOBAL \<Rightarrow> (int \<times> 'd FL_GLOBAL) option" where
  "fl_fputs str file fg = do {
     len \<leftarrow> c_int (int (length str));
     (res, fg) \<leftarrow> fl_fwrite str 1 len file fg;
     Some (if res = len then len else res, fg) }"

subsection \<open>Removing files, directories\<close>

definition fl_remove :: "tm \<Rightarrow> byte list \<Rightarrow> byte list option \<Rightarrow> 'd FL_GLOBAL \<Rightarrow> (int \<times> 'd FL_GLOBAL) option" where
  "fl_remove now junk filename fg = do {
     let fg = FL_LOCK fg;
     (file, fg) \<leftarrow> fl_fopen now junk filename (Some [0x72]) fg;
     case file of
       None \<Rightarrow> Some (- 1, FL_UNLOCK fg)
     | Some h \<Rightarrow> do {
         (ok, fs) \<leftarrow> fatfs_free_cluster_chain (fg_fs fg) (startcluster (file_at fg h));
         let fg = fg\<lparr>fg_fs := fs\<rparr>;
         if \<not> ok then Some (- 1, FL_UNLOCK fg)
         else do {
           (ok, fs) \<leftarrow> fatfs_mark_file_deleted now (fg_fs fg) (parentcluster (file_at fg h)) (shortfilename (file_at fg h));
           let fg = fg\<lparr>fg_fs := fs\<rparr>;
           if \<not> ok then Some (- 1, FL_UNLOCK fg)
           else do {
             fg \<leftarrow> fl_fclose now (Some h) fg;
             Some (0, FL_UNLOCK fg) } } } }"

definition fl_createdirectory :: "tm \<Rightarrow> byte list \<Rightarrow> byte list \<Rightarrow> 'd FL_GLOBAL \<Rightarrow> (bool \<times> 'd FL_GLOBAL) option" where
  "fl_createdirectory now junk path fg = do {
     let fg = FL_LOCK (CHECK_FL_INIT fg);
     (res, fg) \<leftarrow> create_directory now junk path fg;
     Some (res, FL_UNLOCK fg) }"

text \<open>The result tells whether the pointer to \<open>dir\<close> is returned.\<close>

definition fl_opendir :: "byte list \<Rightarrow> fs_dir_list_status \<Rightarrow> 'd FL_GLOBAL
    \<Rightarrow> (bool \<times> fs_dir_list_status \<times> 'd FL_GLOBAL) option" where
  "fl_opendir path dir fg = do {
     let fg = FL_LOCK (CHECK_FL_INIT fg);
     levels \<leftarrow> fatfs_total_path_levels path;
     (c, fs) \<leftarrow> (if levels + 1 = 0 then Some (Some (fatfs_get_root_cluster (fg_fs fg)), fg_fs fg)
       else open_directory (fg_fs fg) path);
     let fg = FL_UNLOCK (fg\<lparr>fg_fs := fs\<rparr>);
     Some (case c of
         None \<Rightarrow> (False, dir, fg)
       | Some cluster \<Rightarrow> (cluster \<noteq> FAT32_INVALID_CLUSTER, fatfs_list_directory_start dir cluster, fg)) }"

definition fl_readdir :: "lfn_cache \<Rightarrow> fs_dir_list_status \<Rightarrow> fs_dir_ent \<Rightarrow> 'd FL_GLOBAL
    \<Rightarrow> (int \<times> fs_dir_list_status \<times> fs_dir_ent \<times> 'd FL_GLOBAL) option" where
  "fl_readdir lfn dirls entry fg = do {
     let fg = FL_LOCK (CHECK_FL_INIT fg);
     (res, dirls, entry, fs) \<leftarrow> fatfs_list_directory_next lfn (fg_fs fg) dirls entry;
     Some (if res then 0 else - 1, dirls, entry, FL_UNLOCK (fg\<lparr>fg_fs := fs\<rparr>)) }"

definition fl_closedir :: "fs_dir_list_status \<Rightarrow> int" where
  "fl_closedir dir = 0"

definition fl_is_dir :: "byte list \<Rightarrow> fs_dir_list_status \<Rightarrow> 'd FL_GLOBAL \<Rightarrow> (int \<times> 'd FL_GLOBAL) option" where
  "fl_is_dir path dir fg = do {
     (ok, dir, fg) \<leftarrow> fl_opendir path dir fg;
     Some (if ok then 1 else 0, fg) }"

end
