(* ===== verification/FatReading.thy ===== *)
theory FatReading
  imports FatAccess
begin

section \<open>Reading chains of clusters\<close>

text \<open>
  What the access functions of \<open>FatAccess\<close> keep: the invariant of the working buffer, and the
  states that reading can reach. The interface \<open>block_device\<close> of \<open>FatTable\<close> carries the proofs:
  reading a chain of clusters, or the root directory of a FAT16 volume, sector by sector.
\<close>

subsection \<open>Reading a chain sector by sector\<close>

text \<open>
  What an access may change: the buffers and the medium, but neither the geometry nor the view
  of the medium. \<open>cur_inv\<close> is the invariant of the working buffer: it holds the sector whose
  address it records. A sector outside the table is never hidden by a dirty FAT buffer.
\<close>

definition io_frame :: "'d fatfs \<Rightarrow> 'd fatfs \<Rightarrow> bool" where
  "io_frame fs fs' \<longleftrightarrow> (\<exists>c d b. fs' = fs\<lparr>currentsector := b, fat_chain := c, medium := d\<rparr>)"

definition cur_inv :: "('d \<Rightarrow> u32 \<Rightarrow> byte list) \<Rightarrow> nat \<Rightarrow> 'd fatfs \<Rightarrow> bool" where
  "cur_inv disk n fs \<longleftrightarrow> length (fb_sector (currentsector fs)) = FAT_SECTOR_SIZE
     \<and> (unat (fb_address (currentsector fs)) < n \<longrightarrow>
         fb_sector (currentsector fs) = eff disk fs (fb_address (currentsector fs)))"

definition data_sector :: "nat \<Rightarrow> 'd fatfs \<Rightarrow> u32 \<Rightarrow> bool" where
  "data_sector n fs s \<longleftrightarrow> unat s < n \<and> \<not> s - fat_begin_lba fs < fat_sectors fs"

text \<open>The states reached from one by reading.\<close>

definition reading_state :: "'d diskio_read \<Rightarrow> 'd diskio_write \<Rightarrow> ('d \<Rightarrow> u32 \<Rightarrow> byte list) \<Rightarrow> nat
    \<Rightarrow> ('d \<Rightarrow> bool) \<Rightarrow> 'd fatfs \<Rightarrow> 'd fatfs \<Rightarrow> bool" where
  "reading_state rd wr disk n valid fs fs' \<longleftrightarrow>
     fat_inv rd wr disk n valid fs' \<and> cur_inv disk n fs' \<and> same_view disk n fs fs' \<and> io_frame fs fs'"

lemma io_frame_refl [simp]: "io_frame fs fs"
  unfolding io_frame_def
  by (intro exI [of _ "fat_chain fs"] exI [of _ "medium fs"] exI [of _ "currentsector fs"]) simp

lemma io_frame_trans: "io_frame fs fs' \<Longrightarrow> io_frame fs' fs'' \<Longrightarrow> io_frame fs fs''"
  unfolding io_frame_def by (elim exE, hypsubst, intro exI) simp

lemma fat_io_frame: "fat_frame fs fs' \<Longrightarrow> io_frame fs fs'"
  unfolding fat_frame_def io_frame_def
proof (elim exE)
  fix c d assume "fs' = fs\<lparr>fat_chain := c, medium := d\<rparr>"
  then show "\<exists>c d b. fs' = fs\<lparr>currentsector := b, fat_chain := c, medium := d\<rparr>"
    by (intro exI [of _ c] exI [of _ d] exI [of _ "currentsector fs"]) simp
qed

lemma io_frame_fields:
  assumes "io_frame fs fs'"
  shows "sectors_per_cluster fs' = sectors_per_cluster fs" "cluster_begin_lba fs' = cluster_begin_lba fs"
    "rootdir_first_cluster fs' = rootdir_first_cluster fs" "rootdir_first_sector fs' = rootdir_first_sector fs"
    "rootdir_sectors fs' = rootdir_sectors fs" "fat_begin_lba fs' = fat_begin_lba fs"
    "lba_begin fs' = lba_begin fs" "fat_sectors fs' = fat_sectors fs" "fat_type fs' = fat_type fs"
    "root_entry_count fs' = root_entry_count fs" "next_free_cluster fs' = next_free_cluster fs"
    "read_media fs' = read_media fs" "write_media fs' = write_media fs" "fs_info_sector fs' = fs_info_sector fs"
  using assms by (auto simp: io_frame_def)

lemma io_frame_entries:
  assumes "io_frame fs fs'"
  shows "entry_sector fs' = entry_sector fs" "entry_in fs' = entry_in fs"
    "entry_number fs' = entry_number fs" "entry_next fs' = entry_next fs" "entry_value fs' = entry_value fs"
    "fatfs_lba_of_cluster fs' = fatfs_lba_of_cluster fs" "data_sector n fs' = data_sector n fs"
  using io_frame_fields [OF assms]
  by (simp_all add: fun_eq_iff entry_sector_def entry_in_def entry_number_def entry_next_def entry_value_def
      fat_position_def fat_sector_offset_def fatfs_lba_of_cluster_def data_sector_def)

text \<open>The sectors of a chain of clusters, in order.\<close>

definition chain_sectors :: "'d fatfs \<Rightarrow> u32 list \<Rightarrow> u32 list" where
  "chain_sectors fs xs = concat (map (\<lambda>x. map (\<lambda>k. fatfs_lba_of_cluster fs x + word_of_nat k)
     [0..<unat (sectors_per_cluster fs)]) xs)"

lemma length_concat_blocks: "(\<And>x. length (f x) = n) \<Longrightarrow> length (concat (map f xs)) = length xs * n"
  by (induction xs) auto

lemma nth_concat_blocks:
  assumes "\<And>x. length (f x) = n" "i < length xs * n"
  shows "concat (map f xs) ! i = f (xs ! (i div n)) ! (i mod n)"
  using assms(2)
proof (induction xs arbitrary: i)
  case (Cons x xs)
  show ?case
  proof (cases "i < n")
    case True
    then show ?thesis using assms(1) by (simp add: nth_append)
  next
    case False
    then have "i = (i - n) + n" by simp
    moreover have "0 < n" using Cons.prems by (cases n) auto
    ultimately have d: "i div n = Suc ((i - n) div n)" "i mod n = (i - n) mod n"
      by (metis Suc_eq_plus1 add.commute div_add_self2 less_numeral_extra(3)) (metis \<open>i = (i - n) + n\<close> mod_add_self2)
    have "i - n < length xs * n" using Cons.prems False by simp
    then show ?thesis using Cons.IH [of "i - n"] False assms(1) d by (simp add: nth_append)
  qed
qed simp

lemma length_chain_sectors: "length (chain_sectors fs xs) = length xs * unat (sectors_per_cluster fs)"
  unfolding chain_sectors_def by (rule length_concat_blocks) simp

lemma chain_sectors_nth:
  assumes "i < length xs * unat (sectors_per_cluster fs)"
  shows "chain_sectors fs xs ! i = fatfs_lba_of_cluster fs (xs ! (i div unat (sectors_per_cluster fs)))
    + word_of_nat (i mod unat (sectors_per_cluster fs))"
proof -
  have "0 < unat (sectors_per_cluster fs)" using assms by (cases "unat (sectors_per_cluster fs)") auto
  then show ?thesis
    unfolding chain_sectors_def by (subst nth_concat_blocks [OF _ assms]) simp_all
qed

context block_device
begin

abbreviation "cinv \<equiv> cur_inv disk sectors"
abbreviation "reading \<equiv> reading_state rd wr disk sectors valid"

lemma data_sector_eff:
  assumes "finv fs" "data_sector sectors fs s"
  shows "disk (medium fs) s = eff disk fs s"
  using assms unfolding data_sector_def fat_inv_def eff_def fat_geometry_def
  by (auto simp: word_less_nat_alt split: if_splits)

lemma cinv_frame:
  assumes "cinv fs" "fat_frame fs fs'" "vsame fs fs'"
  shows "cinv fs'"
  using assms fat_frame_fields [OF assms(2)] by (auto simp: cur_inv_def same_view_def)

text \<open>The FAT buffer does not notice what happens outside the table.\<close>

lemma finv_medium:
  assumes i: "finv fs" and d: "valid d"
    and same: "\<And>t. unat (t - fat_begin_lba fs) < unat (fat_sectors fs) \<Longrightarrow> disk d t = disk (medium fs) t"
  shows "finv (fs\<lparr>currentsector := b, medium := d\<rparr>)"
proof -
  obtain c where c: "fat_chain fs = [c]" "length (fb_sector c) = FAT_SECTOR_SIZE"
    "if fb_dirty c then unat (fb_address c - fat_begin_lba fs) < unat (fat_sectors fs)
     else fb_address c \<noteq> FAT32_INVALID_CLUSTER \<longrightarrow>
       unat (fb_address c - fat_begin_lba fs) < unat (fat_sectors fs) \<and> fb_sector c = disk (medium fs) (fb_address c)"
    using i by (auto simp: fat_inv_def)
  then have "if fb_dirty c then unat (fb_address c - fat_begin_lba fs) < unat (fat_sectors fs)
     else fb_address c \<noteq> FAT32_INVALID_CLUSTER \<longrightarrow>
       unat (fb_address c - fat_begin_lba fs) < unat (fat_sectors fs) \<and> fb_sector c = disk d (fb_address c)"
    using same by (auto split: if_splits)
  then show ?thesis
    using i c(1,2) d unfolding fat_inv_def by (simp add: fat_geometry_def)
qed

lemma read_current_lemma:
  assumes ok: "device_ok rd wr sectors valid" and i: "finv fs" "cinv fs" and s: "data_sector sectors fs s"
  shows "\<exists>fs'. read_current fs s = Some (True, fs') \<and> reading fs fs'
    \<and> currentsector fs' = (currentsector fs)\<lparr>fb_address := s, fb_sector := eff disk fs s\<rparr>"
proof -
  have v: "valid (medium fs)" "read_media fs = Some rd" and s': "unat s < sectors"
    and l: "length (fb_sector (currentsector fs)) = 512"
    using i s by (auto simp: fat_inv_def cur_inv_def data_sector_def)
  obtain buf d okr where r: "rd s (fb_sector (currentsector fs)) 1 (medium fs) = (okr, buf, d)" "valid d"
    "okr \<longrightarrow> buf = disk (medium fs) s" "\<forall>t. unat t < sectors \<longrightarrow> disk d t = disk (medium fs) t"
    using read_law [OF v(1) s' l] by blast
  have "okr" using ok v(1) s' l r(1) unfolding device_ok_def by fastforce
  then have buf: "buf = eff disk fs s" using r(3) data_sector_eff [OF i(1) s] by simp
  let ?fs = "fs\<lparr>currentsector := (currentsector fs)\<lparr>fb_address := s, fb_sector := buf\<rparr>, medium := d\<rparr>"
  have res: "read_current fs s = Some (True, ?fs)"
    using v(2) r(1) \<open>okr\<close> by (simp add: read_current_def fatfs_sector_read_def)
  have view: "unat t < sectors \<Longrightarrow> eff disk ?fs t = eff disk fs t" for t
    using r(4) by (simp add: eff_def)
  have "finv ?fs"
    using finv_medium [OF i(1) r(2)] r(4) fat_sector_range(1) [OF i(1)] by blast
  moreover have "length buf = 512" using eff_length [OF i(1) s'] buf by simp
  then have "cinv ?fs" using view s' buf by (simp add: cur_inv_def)
  moreover have "io_frame fs ?fs"
    unfolding io_frame_def
    by (intro exI [of _ "fat_chain fs"] exI [of _ d] exI [of _ "currentsector ?fs"]) simp
  ultimately show ?thesis
    using res buf view by (intro exI [of _ ?fs]) (simp add: reading_state_def same_view_def)
qed

lemma follow_chain_lemma:
  assumes ok: "device_ok rd wr sectors valid"
  shows "finv fs \<Longrightarrow> cluster_chain (fat_next disk fs) c xs \<Longrightarrow> (\<forall>x \<in> set xs. entry_in fs x) \<Longrightarrow> k \<le> length xs \<Longrightarrow>
    \<exists>fs'. follow_chain k fs c = Some (if k < length xs then xs ! k else FAT32_LAST_CLUSTER, fs')
      \<and> finv fs' \<and> fat_frame fs fs' \<and> vsame fs fs'"
proof (induction k arbitrary: fs c xs)
  case 0
  then show ?case by (cases xs) auto
next
  case (Suc k)
  then obtain r where xs: "xs = c # r" "c \<noteq> 0" "cluster_chain (fat_next disk fs) (fat_next disk fs c) r" "entry_in fs c"
    by (cases xs) auto
  obtain fs1 where f1: "fatfs_find_next_cluster fs c = Some (fat_next disk fs c, fs1)"
    "finv fs1" "fat_frame fs fs1" "vsame fs fs1"
    using find_next_lemma [OF Suc.prems(1), of c] xs ok by auto
  note e1 = entry_frame [OF f1(3)] and r1 = raw_entry_same [OF Suc.prems(1) f1(3,4)]
  have "cluster_chain (fat_next disk fs1) (fat_next disk fs c) r"
    by (rule cluster_chain_cong [OF xs(3)]) (use xs(1) Suc.prems(3) r1 in auto)
  then obtain fs2 where "follow_chain k fs1 (fat_next disk fs c)
      = Some (if k < length r then r ! k else FAT32_LAST_CLUSTER, fs2)" "finv fs2" "fat_frame fs1 fs2" "vsame fs1 fs2"
    using Suc.IH [OF f1(2), of "fat_next disk fs c" r] xs(1) Suc.prems(3,4) e1 by auto
  then show ?case
    using f1 xs(1) fat_frame_trans same_view_trans by auto
qed

lemma chain_lba_lemma:
  assumes ok: "device_ok rd wr sectors valid" and i: "finv fs" "sectors_per_cluster fs \<noteq> 0"
    and ch: "cluster_chain (fat_next disk fs) c xs" "\<forall>x \<in> set xs. entry_in fs x" "c \<noteq> 0"
    and off: "unat off \<le> length (chain_sectors fs xs)"
  shows "\<exists>fs'. chain_lba fs c off = Some (if unat off < length (chain_sectors fs xs)
        then Some (chain_sectors fs xs ! unat off) else None, fs')
      \<and> finv fs' \<and> fat_frame fs fs' \<and> vsame fs fs'"
proof -
  let ?n = "unat (sectors_per_cluster fs)"
  let ?w = "ucast (sectors_per_cluster fs) :: u32"
  have n: "0 < ?n" using i(2) by (simp add: unat_gt_0)
  have uw: "unat ?w = ?n"
  proof -
    have "?n < 2 ^ LENGTH(8)" by (rule unsigned_less)
    then show ?thesis by (simp add: unsigned_ucast_eq take_bit_nat_eq_self)
  qed
  have q: "unat (off div ?w) = unat off div ?n" by (simp add: unat_div uw)
  have m: "off - off div ?w * ?w = word_of_nat (unat off mod ?n)"
  proof -
    have "off - off div ?w * ?w = off mod ?w" using div_mult_mod_eq [of off ?w] by (metis add_diff_cancel_left')
    moreover have "word_of_nat (unat (off mod ?w)) = off mod ?w" by simp
    ultimately show ?thesis by (metis unat_mod uw)
  qed
  have le: "unat off div ?n \<le> length xs"
  proof -
    have "unat off \<le> length xs * ?n" using off by (simp add: length_chain_sectors)
    then have "unat off div ?n \<le> length xs * ?n div ?n" by (rule div_le_mono)
    then show ?thesis using n by simp
  qed
  have lt: "unat off div ?n < length xs \<longleftrightarrow> unat off < length (chain_sectors fs xs)"
    using n by (simp add: length_chain_sectors div_less_iff_less_mult)
  obtain fs' where f: "follow_chain (unat off div ?n) fs c
      = Some (if unat off div ?n < length xs then xs ! (unat off div ?n) else FAT32_LAST_CLUSTER, fs')"
    "finv fs'" "fat_frame fs fs'" "vsame fs fs'"
    using follow_chain_lemma [OF ok i(1) ch(1,2) le] by blast
  note fr = io_frame_entries [OF fat_io_frame [OF f(3)]]
  have nl: "xs ! (unat off div ?n) \<noteq> FAT32_LAST_CLUSTER" if "unat off div ?n < length xs"
    using cluster_chain_not_end [OF ch(1)] that nth_mem by blast
  show ?thesis
  proof (cases "unat off < length (chain_sectors fs xs)")
    case True
    then show ?thesis
      using f fr nl lt ch(3) i(2) chain_sectors_nth [of "unat off" xs fs]
      by (simp add: chain_lba_def q m length_chain_sectors)
  next
    case False
    then show ?thesis
      using f lt ch(3) i(2) by (simp add: chain_lba_def q)
  qed
qed

end

text \<open>
  A directory, or any other run of sectors that can be read in order: reading number \<open>k\<close> of it
  succeeds exactly below its length, and the working buffer then holds that sector. \<open>ss\<close> are
  the sector addresses.
\<close>

definition readable_sectors :: "'d diskio_read \<Rightarrow> 'd diskio_write \<Rightarrow> ('d \<Rightarrow> u32 \<Rightarrow> byte list) \<Rightarrow> nat
    \<Rightarrow> ('d \<Rightarrow> bool) \<Rightarrow> 'd fatfs \<Rightarrow> u32 \<Rightarrow> u32 list \<Rightarrow> bool" where
  "readable_sectors rd wr disk n valid fs c ss \<longleftrightarrow>
     (\<forall>fs' x. reading_state rd wr disk n valid fs fs' \<longrightarrow> unat x \<le> length ss \<longrightarrow>
       (\<exists>fs''. fatfs_sector_reader fs' c x None = Some (unat x < length ss, None, fs'')
         \<and> reading_state rd wr disk n valid fs fs''
         \<and> (unat x < length ss \<longrightarrow> fb_address (currentsector fs'') = ss ! unat x
             \<and> fb_sector (currentsector fs'') = eff disk fs (ss ! unat x))))"

text \<open>
  The two kinds of directories: the chain of clusters from a start, and the root directory of a
  FAT16 volume.
\<close>

definition root_sectors :: "'d fatfs \<Rightarrow> u32 list" where
  "root_sectors fs = map (\<lambda>k. lba_begin fs + rootdir_first_sector fs + word_of_nat k) [0..<unat (rootdir_sectors fs)]"

context block_device
begin

lemma reading_refl: "finv fs \<Longrightarrow> cinv fs \<Longrightarrow> reading fs fs"
  by (simp add: reading_state_def)

lemma reading_trans: "reading fs fs' \<Longrightarrow> reading fs' fs'' \<Longrightarrow> reading fs fs''"
  unfolding reading_state_def using same_view_trans io_frame_trans by blast

lemma load_sector_lemma:
  assumes ok: "device_ok rd wr sectors valid" and i: "reading fs fs'" and s: "data_sector sectors fs s"
  shows "\<exists>fs''. (if s \<noteq> fb_address (currentsector fs')
      then do { (ok, fs) \<leftarrow> read_current fs' s; Some (ok, None :: byte list option, fs) } else Some (True, None, fs'))
      = Some (True, None, fs'') \<and> reading fs fs''
    \<and> fb_address (currentsector fs'') = s \<and> fb_sector (currentsector fs'') = eff disk fs s"
proof -
  have i': "finv fs'" "cinv fs'" "vsame fs fs'" "io_frame fs fs'" using i by (simp_all add: reading_state_def)
  have s': "data_sector sectors fs' s" "unat s < sectors"
    using s io_frame_entries(7) [OF i'(4), of sectors] by (auto simp: data_sector_def)
  have view: "eff disk fs' s = eff disk fs s" using i'(3) s'(2) by (simp add: same_view_def)
  show ?thesis
  proof (cases "s = fb_address (currentsector fs')")
    case True
    then show ?thesis using i' i s'(2) view by (auto simp: cur_inv_def)
  next
    case False
    obtain fs'' where "read_current fs' s = Some (True, fs'')" "reading fs' fs''"
      "currentsector fs'' = (currentsector fs')\<lparr>fb_address := s, fb_sector := eff disk fs' s\<rparr>"
      using read_current_lemma [OF ok i'(1,2) s'(1)] by blast
    then show ?thesis using False view reading_trans [OF i] by simp
  qed
qed

lemma chain_readable:
  assumes ok: "device_ok rd wr sectors valid" and i: "finv fs" "sectors_per_cluster fs \<noteq> 0"
    and ch: "cluster_chain (fat_next disk fs) c xs" "\<forall>x \<in> set xs. entry_in fs x" "c \<noteq> 0"
    and data: "\<forall>s \<in> set (chain_sectors fs xs). data_sector sectors fs s"
  shows "readable_sectors rd wr disk sectors valid fs c (chain_sectors fs xs)"
  unfolding readable_sectors_def
proof (intro allI impI)
  fix fs' and x :: u32 assume r: "reading fs fs'" and x: "unat x \<le> length (chain_sectors fs xs)"
  have r': "finv fs'" "cinv fs'" "vsame fs fs'" "io_frame fs fs'" using r by (simp_all add: reading_state_def)
  note fr = io_frame_entries [OF r'(4)] io_frame_fields [OF r'(4)]
  have nx: "fat_next disk fs' y = fat_next disk fs y" if "y \<in> set xs" for y
    using that r'(3) entry_in_sector(1) [OF i(1)] ch(2) fr
    by (auto simp: fat_next_def raw_entry_def same_view_def)
  have sec: "chain_sectors fs' xs = chain_sectors fs xs" by (simp add: chain_sectors_def fr)
  have ch': "cluster_chain (fat_next disk fs') c xs" by (rule cluster_chain_cong [OF ch(1)]) (rule nx)
  obtain fs1 where f1: "chain_lba fs' c x = Some (if unat x < length (chain_sectors fs xs)
        then Some (chain_sectors fs xs ! unat x) else None, fs1)" "finv fs1" "fat_frame fs' fs1" "vsame fs' fs1"
  proof -
    have "sectors_per_cluster fs' \<noteq> 0" "\<forall>x \<in> set xs. entry_in fs' x" using i(2) ch(2) fr by simp_all
    from chain_lba_lemma [OF ok r'(1) this(1) ch' this(2) ch(3), of x, unfolded sec, OF x] that
    show thesis by blast
  qed
  have r1: "reading fs fs1"
  proof (rule reading_trans [OF r])
    show "reading fs' fs1"
      using f1(2,4) cinv_frame [OF r'(2) f1(3,4)] fat_io_frame [OF f1(3)] by (simp add: reading_state_def)
  qed
  show "\<exists>fs''. fatfs_sector_reader fs' c x None = Some (unat x < length (chain_sectors fs xs), None, fs'')
      \<and> reading fs fs'' \<and> (unat x < length (chain_sectors fs xs) \<longrightarrow>
        fb_address (currentsector fs'') = chain_sectors fs xs ! unat x
        \<and> fb_sector (currentsector fs'') = eff disk fs (chain_sectors fs xs ! unat x))"
  proof (cases "unat x < length (chain_sectors fs xs)")
    case True
    then show ?thesis
      using load_sector_lemma [OF ok r1, of "chain_sectors fs xs ! unat x"] data nth_mem f1(1)
      unfolding fatfs_sector_reader_def by simp
  next
    case False
    then show ?thesis using f1(1) r1 by (simp add: fatfs_sector_reader_def)
  qed
qed

lemma root_readable:
  assumes ok: "device_ok rd wr sectors valid" and t: "fat_type fs = FAT_TYPE_16"
    and data: "\<forall>s \<in> set (root_sectors fs). data_sector sectors fs s"
  shows "readable_sectors rd wr disk sectors valid fs 0 (root_sectors fs)"
  unfolding readable_sectors_def
proof (intro allI impI)
  fix fs' and x :: u32 assume r: "reading fs fs'" and x: "unat x \<le> length (root_sectors fs)"
  have r': "io_frame fs fs'" using r by (simp add: reading_state_def)
  note fr = io_frame_fields [OF r']
  have lt: "x < rootdir_sectors fs \<longleftrightarrow> unat x < length (root_sectors fs)"
    by (simp add: root_sectors_def word_less_nat_alt)
  show "\<exists>fs''. fatfs_sector_reader fs' 0 x None = Some (unat x < length (root_sectors fs), None, fs'')
      \<and> reading fs fs'' \<and> (unat x < length (root_sectors fs) \<longrightarrow>
        fb_address (currentsector fs'') = root_sectors fs ! unat x
        \<and> fb_sector (currentsector fs'') = eff disk fs (root_sectors fs ! unat x))"
  proof (cases "unat x < length (root_sectors fs)")
    case True
    then have "chain_lba fs' 0 x = Some (Some (root_sectors fs ! unat x), fs')"
      using t fr lt by (simp add: chain_lba_def root_sectors_def)
    then show ?thesis
      using True load_sector_lemma [OF ok r, of "root_sectors fs ! unat x"] data nth_mem
      unfolding fatfs_sector_reader_def by simp
  next
    case False
    then have "chain_lba fs' 0 x = Some (None, fs')"
      using t fr lt by (simp add: chain_lba_def)
    then show ?thesis using False r by (simp add: fatfs_sector_reader_def)
  qed
qed

end

end
