(* ===== verification/FatDirs.thy ===== *)
theory FatDirs
  imports FatReading FatList
begin

section \<open>Directories\<close>

text \<open>
  The directory functions of \<open>FatAccess\<close> on a directory that is a list of 32-byte slots: looking
  names up, changing entries, and what a change leaves alone.
\<close>

subsection \<open>Directories as lists of slots\<close>

definition sector_slots :: "byte list \<Rightarrow> byte list list" where
  "sector_slots s = map (\<lambda>item. mem_read (FAT_DIR_ENTRY_SIZE * item) FAT_DIR_ENTRY_SIZE s) [0..<FAT_DIR_ENTRIES_PER_SECTOR]"

text \<open>The search for a name in a list of slots, and for a short name.\<close>

fun lookup_name :: "byte list \<Rightarrow> byte list list \<Rightarrow> lfn_cache \<Rightarrow> fat_dir_entry option \<times> lfn_cache" where
  "lookup_name n [] lfn = (None, lfn)"
| "lookup_name n (b # bs) lfn =
     (let e = dir_entry_at b 0
      in if fatfs_entry_lfn_text e then lookup_name n bs (fatfs_lfn_cache_entry lfn b)
         else if \<not> fatfs_entry_sfn_only e then lookup_name n bs (fatfs_lfn_cache_init lfn False)
         else
           (let (m, lfn) = (if no_of_strings lfn \<noteq> 0 then fatfs_lfn_cache_get lfn else (short_filename_of e, lfn))
            in if fatfs_compare_names (cstring m) n then (Some e, lfn)
               else lookup_name n bs (fatfs_lfn_cache_init lfn False)))"

text \<open>
  The names in a list of slots with their entries: the long name where slots of one precede the
  short entry, the 8.3 name otherwise. Deleted, empty and volume entries drop the long name.
\<close>

fun dir_names :: "byte list list \<Rightarrow> lfn_cache \<Rightarrow> (byte list \<times> fat_dir_entry) list" where
  "dir_names [] lfn = []"
| "dir_names (b # bs) lfn =
     (let e = dir_entry_at b 0
      in if fatfs_entry_lfn_text e then dir_names bs (fatfs_lfn_cache_entry lfn b)
         else if \<not> fatfs_entry_sfn_only e then dir_names bs (fatfs_lfn_cache_init lfn False)
         else
           (let (m, lfn) = (if no_of_strings lfn \<noteq> 0 then fatfs_lfn_cache_get lfn else (short_filename_of e, lfn))
            in (cstring m, e) # dir_names bs (fatfs_lfn_cache_init lfn False)))"

abbreviation named :: "byte list \<Rightarrow> byte list \<times> fat_dir_entry \<Rightarrow> bool" where
  "named n x \<equiv> name_key (fst x) = name_key n"

lemma lookup_name_names:
  "fst (lookup_name n bs lfn) = map_option snd (find (named n) (dir_names bs lfn))"
  by (induction n bs lfn rule: lookup_name.induct) (auto simp: Let_def compare_names_key split: prod.splits)

definition is_short :: "byte list \<Rightarrow> byte list \<Rightarrow> bool" where
  "is_short shortname b \<longleftrightarrow> (let e = dir_entry_at b 0
     in \<not> fatfs_entry_lfn_text e \<and> fatfs_entry_sfn_only e \<and> strncmp_eq 11 (Name e) shortname)"

lemma lookup_name_append:
  "lookup_name n (xs @ ys) lfn = (case lookup_name n xs lfn of (Some e, l) \<Rightarrow> (Some e, l) | (None, l) \<Rightarrow> lookup_name n ys l)"
  by (induction n xs lfn rule: lookup_name.induct) (auto simp: Let_def split: prod.splits)

lemma mem_read_entry:
  assumes "p + 32 \<le> length s"
  shows "dir_entry_at (mem_read p 32 s) 0 = dir_entry_at s p"
  using assms by (simp add: dir_entry_at_def mem_read_def take_drop nth_append add.commute)

lemma current_entry_slot:
  assumes "length (fb_sector (currentsector fs)) = FAT_SECTOR_SIZE" "item < 16"
  shows "current_entry fs item = dir_entry_at (current_slot fs item) 0"
  using assms by (simp add: current_entry_def current_slot_def mem_read_entry)

lemma entry_kinds:
  "fatfs_entry_sfn_only e \<Longrightarrow> \<not> fatfs_entry_lfn_invalid e"
  "\<not> fatfs_entry_lfn_text e \<Longrightarrow> \<not> fatfs_entry_lfn_invalid e \<Longrightarrow> fatfs_entry_sfn_only e"
  by (auto simp: fatfs_entry_lfn_invalid_def fatfs_entry_sfn_only_def fatfs_entry_lfn_text_def)

lemma find_name_lookup:
  assumes "length (fb_sector (currentsector fs)) = FAT_SECTOR_SIZE" "\<forall>i \<in> set items. i < 16"
  shows "find_name fs n items lfn = lookup_name n (map (current_slot fs) items) lfn"
  using assms(2)
proof (induction items arbitrary: lfn)
  case (Cons i items)
  let ?e = "dir_entry_at (current_slot fs i) 0"
  have e: "current_entry fs i = ?e" using current_entry_slot [OF assms(1)] Cons.prems by simp
  have ex: "fatfs_entry_lfn_exists lfn ?e \<longleftrightarrow> fatfs_entry_sfn_only ?e \<and> no_of_strings lfn \<noteq> 0"
    by (auto simp: fatfs_entry_lfn_exists_def fatfs_entry_sfn_only_def)
  show ?case
    using Cons.IH Cons.prems entry_kinds [of ?e]
    by (auto simp: Let_def e ex split: prod.splits)
qed simp

definition dir_slots :: "('d \<Rightarrow> u32 \<Rightarrow> byte list) \<Rightarrow> 'd fatfs \<Rightarrow> u32 list \<Rightarrow> byte list list" where
  "dir_slots disk fs ss = concat (map (\<lambda>s. sector_slots (eff disk fs s)) ss)"

lemma current_slots:
  "map (current_slot fs) [0..<16] = sector_slots (fb_sector (currentsector fs))"
  by (simp add: current_slot_def sector_slots_def)

lemma find_short_slots:
  assumes l: "length (fb_sector (currentsector fs)) = FAT_SECTOR_SIZE"
  shows "\<forall>i \<in> set items. i < 16 \<Longrightarrow>
    find_short fs n items = find (\<lambda>i. is_short n (current_slot fs i)) items"
proof (induction items)
  case (Cons i items)
  have e: "current_entry fs i = dir_entry_at (current_slot fs i) 0" using current_entry_slot [OF l] Cons.prems by simp
  show ?case
    using Cons entry_kinds [of "dir_entry_at (current_slot fs i) 0"] by (auto simp: Let_def e is_short_def)
qed simp

text \<open>
  A directory: the root of a FAT16 volume or a chain of clusters, given by its start cluster and
  the addresses of its sectors.
\<close>

definition directory :: "'d diskio_read \<Rightarrow> 'd diskio_write \<Rightarrow> ('d \<Rightarrow> u32 \<Rightarrow> byte list) \<Rightarrow> nat
    \<Rightarrow> ('d \<Rightarrow> bool) \<Rightarrow> 'd fatfs \<Rightarrow> u32 \<Rightarrow> u32 list \<Rightarrow> bool" where
  "directory rd wr disk n valid fs c ss \<longleftrightarrow> device_ok rd wr n valid \<and> fat_inv rd wr disk n valid fs
     \<and> cur_inv disk n fs \<and> distinct ss \<and> length ss < 2 ^ 32 \<and> (\<forall>s \<in> set ss. data_sector n fs s)
     \<and> (fat_type fs = FAT_TYPE_16 \<and> c = 0 \<and> ss = root_sectors fs
        \<or> sectors_per_cluster fs \<noteq> 0 \<and> c \<noteq> 0 \<and> (\<exists>xs. cluster_chain (fat_next disk fs) c xs
            \<and> (\<forall>x \<in> set xs. entry_in fs x) \<and> ss = chain_sectors fs xs))"

context block_device
begin

lemma reader_step:
  assumes "readable_sectors rd wr disk sectors valid fs c ss" "reading fs fs'" "k \<le> length ss" "length ss < 2 ^ 32"
  obtains fs'' where "fatfs_sector_reader fs' c (word_of_nat k) None = Some (k < length ss, None, fs'')"
    "reading fs fs''" "k < length ss \<Longrightarrow> fb_address (currentsector fs'') = ss ! k"
    "k < length ss \<Longrightarrow> fb_sector (currentsector fs'') = eff disk fs (ss ! k)"
    "length (fb_sector (currentsector fs'')) = FAT_SECTOR_SIZE"
proof -
  have k: "unat (word_of_nat k :: u32) = k" using assms(3,4) by (intro unat_word_of_nat) simp
  then have le: "unat (word_of_nat k :: u32) \<le> length ss" using assms(3) by simp
  from assms(1) [unfolded readable_sectors_def, rule_format, OF assms(2) le, unfolded k]
  obtain fs'' where f: "fatfs_sector_reader fs' c (word_of_nat k) None = Some (k < length ss, None, fs'')"
    "reading fs fs''" "k < length ss \<longrightarrow> fb_address (currentsector fs'') = ss ! k
      \<and> fb_sector (currentsector fs'') = eff disk fs (ss ! k)"
    by blast
  moreover have "length (fb_sector (currentsector fs'')) = FAT_SECTOR_SIZE"
    using f(2) by (simp add: reading_state_def cur_inv_def)
  ultimately show thesis using that by blast
qed

lemma find_sfn_lemma:
  assumes r: "readable_sectors rd wr disk sectors valid fs c ss" and l: "length ss < 2 ^ 32"
  shows "k \<le> length ss \<Longrightarrow> reading fs fs' \<Longrightarrow>
    \<exists>r fs''. find_sfn fs' c n (word_of_nat k) = Some (r, fs'') \<and> reading fs fs''
      \<and> (case r of
          None \<Rightarrow> \<forall>b \<in> set (dir_slots disk fs (drop k ss)). \<not> is_short n b
        | Some item \<Rightarrow> \<exists>j. k \<le> j \<and> j < length ss \<and> item < 16
            \<and> (\<forall>b \<in> set (dir_slots disk fs (drop k (take j ss))). \<not> is_short n b)
            \<and> fb_address (currentsector fs'') = ss ! j \<and> fb_sector (currentsector fs'') = eff disk fs (ss ! j)
            \<and> find (\<lambda>i. is_short n (sector_slots (eff disk fs (ss ! j)) ! i)) [0..<16] = Some item)"
proof (induction "length ss - k" arbitrary: k fs')
  case 0
  then have k: "k = length ss" by simp
  obtain f1 where "fatfs_sector_reader fs' c (word_of_nat k) None = Some (False, None, f1)" "reading fs f1"
    using reader_step [OF r 0(3) _ l, of k] k by auto
  then show ?case
    by (subst find_sfn.simps) (simp add: k dir_slots_def)
next
  case (Suc d)
  then have k: "k < length ss" by simp
  obtain f1 where f1: "fatfs_sector_reader fs' c (word_of_nat k) None = Some (True, None, f1)" "reading fs f1"
    "fb_address (currentsector f1) = ss ! k" "fb_sector (currentsector f1) = eff disk fs (ss ! k)"
    "length (fb_sector (currentsector f1)) = FAT_SECTOR_SIZE"
  proof (rule reader_step [OF r Suc.prems(2) less_imp_le [OF k] l])
    fix f assume f: "fatfs_sector_reader fs' c (word_of_nat k) None = Some (k < length ss, None, f)" "reading fs f"
      "k < length ss \<Longrightarrow> fb_address (currentsector f) = ss ! k"
      "k < length ss \<Longrightarrow> fb_sector (currentsector f) = eff disk fs (ss ! k)"
      "length (fb_sector (currentsector f)) = FAT_SECTOR_SIZE"
    show thesis by (rule that [OF _ f(2)]) (use f k in simp_all)
  qed
  let ?s = "eff disk fs (ss ! k)"
  have slot: "current_slot f1 i = sector_slots ?s ! i" if "i < 16" for i
    using that f1(4) by (simp add: current_slot_def sector_slots_def)
  have found: "find_short f1 n [0..<16] = find (\<lambda>i. is_short n (sector_slots ?s ! i)) [0..<16]"
    unfolding find_short_slots [OF f1(5), of "[0..<16]" n, simplified]
    by (rule find_cong) (use slot in auto)
  have dr: "drop k ss = ss ! k # drop (Suc k) ss" using k by (simp add: Cons_nth_drop_Suc)
  have nxt: "(word_of_nat k :: u32) + 1 = word_of_nat (Suc k)" by simp
  show ?case
  proof (cases "find_short f1 n [0..<16]")
    case None
    then have none: "\<not> is_short n b" if "b \<in> set (sector_slots ?s)" for b
    proof -
      from that obtain i where "i < length (sector_slots ?s)" "b = sector_slots ?s ! i"
        by (auto simp: in_set_conv_nth)
      then show ?thesis using None unfolding found by (auto simp: find_None_iff sector_slots_def)
    qed
    obtain r' f2 where f2: "find_sfn f1 c n (word_of_nat (Suc k)) = Some (r', f2)" "reading fs f2"
      "case r' of
          None \<Rightarrow> \<forall>b \<in> set (dir_slots disk fs (drop (Suc k) ss)). \<not> is_short n b
        | Some item \<Rightarrow> \<exists>j. Suc k \<le> j \<and> j < length ss \<and> item < 16
            \<and> (\<forall>b \<in> set (dir_slots disk fs (drop (Suc k) (take j ss))). \<not> is_short n b)
            \<and> fb_address (currentsector f2) = ss ! j \<and> fb_sector (currentsector f2) = eff disk fs (ss ! j)
            \<and> find (\<lambda>i. is_short n (sector_slots (eff disk fs (ss ! j)) ! i)) [0..<16] = Some item"
    proof -
      have d: "d = length ss - Suc k" "Suc k \<le> length ss" using Suc.hyps(2) k by simp_all
      show thesis using Suc.hyps(1) [OF d f1(2)] that by blast
    qed
    have step: "find_sfn fs' c n (word_of_nat k) = find_sfn f1 c n (word_of_nat (Suc k))"
      by (subst find_sfn.simps) (simp add: f1(1) None add.commute)
    have tk: "drop k (take j ss) = ss ! k # drop (Suc k) (take j ss)" if "Suc k \<le> j" "j < length ss" for j
      using that Cons_nth_drop_Suc [of k "take j ss"] by simp
    show ?thesis
    proof (cases r')
      case None
      then show ?thesis using f2 step none dr by (auto simp: dir_slots_def)
    next
      case (Some item)
      then obtain j where j: "Suc k \<le> j" "j < length ss" "item < 16"
        "\<forall>b \<in> set (dir_slots disk fs (drop (Suc k) (take j ss))). \<not> is_short n b"
        "fb_address (currentsector f2) = ss ! j" "fb_sector (currentsector f2) = eff disk fs (ss ! j)"
        "find (\<lambda>i. is_short n (sector_slots (eff disk fs (ss ! j)) ! i)) [0..<16] = Some item"
        using f2(3) by auto
      have "\<forall>b \<in> set (dir_slots disk fs (drop k (take j ss))). \<not> is_short n b"
        using j(4) none tk [OF j(1,2)] by (auto simp: dir_slots_def)
      then show ?thesis using Some f2(1,2) step j by (auto intro!: exI [of _ j])
    qed
  next
    case (Some item)
    then have "find_sfn fs' c n (word_of_nat k) = Some (Some item, f1)"
      by (subst find_sfn.simps) (simp add: f1(1))
    moreover have "item < 16" using Some unfolding found by (auto simp: find_Some_iff)
    ultimately show ?thesis
      using f1 Some k unfolding found by (auto intro!: exI [of _ k] simp: dir_slots_def)
  qed
qed

lemma find_file_lemma:
  assumes r: "readable_sectors rd wr disk sectors valid fs c ss" and l: "length ss < 2 ^ 32"
  shows "k \<le> length ss \<Longrightarrow> reading fs fs' \<Longrightarrow>
    \<exists>fs''. find_file fs' c n (word_of_nat k) lfn
        = Some (fst (lookup_name n (dir_slots disk fs (drop k ss)) lfn), fs'') \<and> reading fs fs''"
proof (induction "length ss - k" arbitrary: k fs' lfn)
  case 0
  then have k: "k = length ss" by simp
  obtain f1 where "fatfs_sector_reader fs' c (word_of_nat k) None = Some (False, None, f1)" "reading fs f1"
    using reader_step [OF r 0(3) _ l, of k] k by auto
  then show ?case
    by (subst find_file.simps) (simp add: k dir_slots_def)
next
  case (Suc d)
  then have k: "k < length ss" by simp
  obtain f1 where f1: "fatfs_sector_reader fs' c (word_of_nat k) None = Some (True, None, f1)" "reading fs f1"
    "fb_sector (currentsector f1) = eff disk fs (ss ! k)"
    "length (fb_sector (currentsector f1)) = FAT_SECTOR_SIZE"
  proof (rule reader_step [OF r Suc.prems(2) less_imp_le [OF k] l])
    fix f assume f: "fatfs_sector_reader fs' c (word_of_nat k) None = Some (k < length ss, None, f)" "reading fs f"
      "k < length ss \<Longrightarrow> fb_address (currentsector f) = ss ! k"
      "k < length ss \<Longrightarrow> fb_sector (currentsector f) = eff disk fs (ss ! k)"
      "length (fb_sector (currentsector f)) = FAT_SECTOR_SIZE"
    show thesis by (rule that [OF _ f(2)]) (use f k in simp_all)
  qed
  let ?s = "eff disk fs (ss ! k)"
  have look: "find_name f1 n [0..<16] lfn = lookup_name n (sector_slots ?s) lfn"
    using find_name_lookup [OF f1(4), of "[0..<16]"] by (simp add: current_slots f1(3))
  have dr: "dir_slots disk fs (drop k ss) = sector_slots ?s @ dir_slots disk fs (drop (Suc k) ss)"
    using k by (simp add: dir_slots_def flip: Cons_nth_drop_Suc)
  obtain res l' where lk: "lookup_name n (sector_slots ?s) lfn = (res, l')" by (meson surj_pair)
  show ?case
  proof (cases res)
    case None
    obtain f2 where f2: "find_file f1 c n (word_of_nat (Suc k)) l'
        = Some (fst (lookup_name n (dir_slots disk fs (drop (Suc k) ss)) l'), f2)" "reading fs f2"
    proof -
      have d: "d = length ss - Suc k" "Suc k \<le> length ss" using Suc.hyps(2) k by simp_all
      show thesis using Suc.hyps(1) [OF d f1(2), of l'] that by blast
    qed
    have "find_file fs' c n (word_of_nat k) lfn = find_file f1 c n (word_of_nat (Suc k)) l'"
      by (subst find_file.simps) (simp add: f1(1) look lk None add.commute)
    then show ?thesis using f2 by (simp add: dr lookup_name_append lk None)
  next
    case (Some e)
    then have "find_file fs' c n (word_of_nat k) lfn = Some (Some e, f1)"
      by (subst find_file.simps) (simp add: f1(1) look lk)
    then show ?thesis using f1(2) by (simp add: dr lookup_name_append lk Some)
  qed
qed

lemma directory_readable:
  assumes "directory rd wr disk sectors valid fs c ss"
  shows "readable_sectors rd wr disk sectors valid fs c ss" "reading fs fs" "length ss < 2 ^ 32"
    "distinct ss" "device_ok rd wr sectors valid" "\<forall>s \<in> set ss. data_sector sectors fs s"
  using assms chain_readable root_readable reading_refl by (auto simp: directory_def)

text \<open>A directory stays one when sectors outside the table change.\<close>

lemma directory_frame:
  assumes d: "directory rd wr disk sectors valid fs c ss" and i: "finv fs'" "cinv fs'" "io_frame fs fs'"
    and same: "\<And>t. unat (t - fat_begin_lba fs) < unat (fat_sectors fs) \<Longrightarrow> eff disk fs' t = eff disk fs t"
  shows "directory rd wr disk sectors valid fs' c ss"
proof -
  note fr = io_frame_entries [OF i(3)] io_frame_fields [OF i(3)]
  have fi: "finv fs" using d by (simp add: directory_def)
  have "fat_next disk fs' x = fat_next disk fs x" if "entry_in fs x" for x
    using same [OF entry_in_sector(3) [OF fi that]] fr by (simp add: fat_next_def raw_entry_def)
  then have ch: "cluster_chain (fat_next disk fs') c xs" if "cluster_chain (fat_next disk fs) c xs" "\<forall>x \<in> set xs. entry_in fs x" for xs
    using cluster_chain_cong [OF that(1)] that(2) by blast
  have s: "root_sectors fs' = root_sectors fs" "chain_sectors fs' = chain_sectors fs"
    using fr by (simp_all add: root_sectors_def chain_sectors_def fun_eq_iff)
  have "fat_type fs' = FAT_TYPE_16 \<and> c = 0 \<and> ss = root_sectors fs'
        \<or> sectors_per_cluster fs' \<noteq> 0 \<and> c \<noteq> 0 \<and> (\<exists>xs. cluster_chain (fat_next disk fs') c xs
            \<and> (\<forall>x \<in> set xs. entry_in fs' x) \<and> ss = chain_sectors fs' xs)"
    using d ch unfolding directory_def s fr by blast
  then show ?thesis using d i(1,2) unfolding directory_def fr(7) by blast
qed

end

subsection \<open>Changing an entry of a directory\<close>

text \<open>An entry of the right shape survives the overlay on its bytes.\<close>

definition wf_entry :: "fat_dir_entry \<Rightarrow> bool" where
  "wf_entry e \<longleftrightarrow> length (Name e) = 11 \<and> length (CrtTime e) = 2 \<and> length (CrtDate e) = 2
     \<and> length (LstAccDate e) = 2 \<and> length (WrtTime e) = 2 \<and> length (WrtDate e) = 2"

lemma length_dir_entry_bytes: "wf_entry e \<Longrightarrow> length (dir_entry_bytes e) = 32"
  by (simp add: wf_entry_def dir_entry_bytes_def)

lemma wf_entry_at: "p + 32 \<le> length m \<Longrightarrow> wf_entry (dir_entry_at m p)"
  by (simp add: wf_entry_def dir_entry_at_def)

lemma wf_entry_timestamps: "wf_entry e \<Longrightarrow> wf_entry (fatfs_update_timestamps now e c m a)"
  by (simp add: wf_entry_def fatfs_update_timestamps_def Let_def)

lemma host_bytes:
  "host16 (ucast (drop_bit 8 w)) (ucast w) = w"
  "host32 (ucast (drop_bit 24 v)) (ucast (drop_bit 16 v)) (ucast (drop_bit 8 v)) (ucast v) = v"
proof -
  show "host16 (ucast (drop_bit 8 w)) (ucast w) = w"
  proof (rule bit_eqI)
    fix n show "bit (host16 (ucast (drop_bit 8 w)) (ucast w)) n = bit w n"
      by (cases "n < 8") (auto simp: host16_def bit_simps dest: bit_imp_le_length)
  qed
  show "host32 (ucast (drop_bit 24 v)) (ucast (drop_bit 16 v)) (ucast (drop_bit 8 v)) (ucast v) = v"
    using bytes_join_32 [of v] by (simp add: host32_def)
qed

lemma dir_entry_at_bytes:
  assumes "wf_entry e"
  shows "dir_entry_at (dir_entry_bytes e) 0 = e"
proof -
  obtain a b c d f g h i j k l where "Name e = [a, b, c, d, f, g, h, i, j, k, l]"
    using assms by (auto simp: wf_entry_def length_Suc_conv eval_nat_numeral)
  moreover obtain a1 a2 b1 b2 c1 c2 d1 d2 e1 e2 where "CrtTime e = [a1, a2]" "CrtDate e = [b1, b2]"
    "LstAccDate e = [c1, c2]" "WrtTime e = [d1, d2]" "WrtDate e = [e1, e2]"
    using assms by (auto simp: wf_entry_def length_Suc_conv numeral_2_eq_2)
  ultimately show ?thesis
    by (simp add: dir_entry_at_def dir_entry_bytes_def mem_read_def host_bytes)
qed

lemma length_sector_slots [simp]: "length (sector_slots s) = 16"
  by (simp add: sector_slots_def)

lemma sector_slots_nth: "i < 16 \<Longrightarrow> sector_slots s ! i = mem_read (32 * i) 32 s"
  by (simp add: sector_slots_def)

lemma sector_slots_write:
  assumes "length s = 512" "i < 16" "length b = 32"
  shows "sector_slots (mem_write (32 * i) b s) = (sector_slots s)[i := b]"
proof (rule nth_equalityI)
  fix k assume "k < length (sector_slots (mem_write (32 * i) b s))"
  then have k: "k < 16" by simp
  show "sector_slots (mem_write (32 * i) b s) ! k = (sector_slots s)[i := b] ! k"
  proof (cases "k = i")
    case True
    then show ?thesis using assms mem_read_write_same [of "32 * i" b s] by (simp add: sector_slots_nth)
  next
    case False
    have "mem_read (32 * k) 32 (mem_write (32 * i) b s) = mem_read (32 * k) 32 s"
      using assms k False by (intro mem_read_write_other) (auto simp: nat_neq_iff)
    then show ?thesis using False k by (simp add: sector_slots_nth)
  qed
qed simp

lemma dir_slots_nth:
  assumes "k < length ss * 16"
  shows "dir_slots disk fs ss ! k = sector_slots (eff disk fs (ss ! (k div 16))) ! (k mod 16)"
  unfolding dir_slots_def using assms by (intro nth_concat_blocks) simp_all

lemma length_dir_slots: "length (dir_slots disk fs ss) = length ss * 16"
  unfolding dir_slots_def by (rule length_concat_blocks) simp

text \<open>The first slot of a directory with a short name, found sector by sector or in the flat list.\<close>

definition first_short :: "byte list \<Rightarrow> byte list list \<Rightarrow> nat \<Rightarrow> bool" where
  "first_short n slots k \<longleftrightarrow> k < length slots \<and> is_short n (slots ! k) \<and> (\<forall>i < k. \<not> is_short n (slots ! i))"

lemma first_short_sector:
  assumes "j < length ss" "\<forall>b \<in> set (dir_slots disk fs (take j ss)). \<not> is_short n b"
    and "find (\<lambda>i. is_short n (sector_slots (eff disk fs (ss ! j)) ! i)) [0..<16] = Some item"
  shows "first_short n (dir_slots disk fs ss) (j * 16 + item)"
proof -
  let ?s = "sector_slots (eff disk fs (ss ! j))"
  have f: "item < 16" "is_short n (?s ! item)" "\<forall>i < item. \<not> is_short n (?s ! i)"
    using assms(3) by (auto simp: find_Some_iff)
  have k: "j * 16 + item < length ss * 16"
  proof -
    have "j * 16 + item < (j + 1) * 16" using f(1) by simp
    also have "\<dots> \<le> length ss * 16" using assms(1) by (intro mult_le_mono1) simp
    finally show ?thesis .
  qed
  have "\<not> is_short n (dir_slots disk fs ss ! i)" if i: "i < j * 16 + item" for i
  proof (cases "i < j * 16")
    case True
    have "dir_slots disk fs (take j ss) ! i = dir_slots disk fs ss ! i"
      using True assms(1) by (simp add: dir_slots_nth less_mult_imp_div_less)
    moreover have "dir_slots disk fs (take j ss) ! i \<in> set (dir_slots disk fs (take j ss))"
      using True assms(1) by (intro nth_mem) (simp add: length_dir_slots)
    ultimately show ?thesis using assms(2) by auto
  next
    case False
    define r where "r = i - j * 16"
    have r: "i = j * 16 + r" "r < item" using False i by (auto simp: r_def)
    then have "dir_slots disk fs ss ! i = ?s ! r"
      using k f(1) by (simp add: dir_slots_nth)
    then show ?thesis using f(3) r(2) by simp
  qed
  moreover have "dir_slots disk fs ss ! (j * 16 + item) = ?s ! item"
    using k f(1) by (simp add: dir_slots_nth)
  ultimately show ?thesis using k f(2) by (simp add: first_short_def length_dir_slots)
qed

lemma dir_slots_update:
  assumes "distinct ss" "j < length ss" "item < 16" "length b = 32" "length (eff disk fs (ss ! j)) = 512"
    and "eff disk fs' (ss ! j) = mem_write (32 * item) b (eff disk fs (ss ! j))"
    and "\<And>t. t \<in> set ss \<Longrightarrow> t \<noteq> ss ! j \<Longrightarrow> eff disk fs' t = eff disk fs t"
  shows "dir_slots disk fs' ss = (dir_slots disk fs ss)[j * 16 + item := b]"
proof (rule nth_equalityI)
  fix k assume "k < length (dir_slots disk fs' ss)"
  then have k: "k < length ss * 16" by (simp add: length_dir_slots)
  then have q: "k div 16 < length ss" by (simp add: less_mult_imp_div_less)
  show "dir_slots disk fs' ss ! k = (dir_slots disk fs ss)[j * 16 + item := b] ! k"
  proof (cases "k div 16 = j")
    case True
    have "dir_slots disk fs' ss ! k = sector_slots (eff disk fs' (ss ! j)) ! (k mod 16)"
      using dir_slots_nth [OF k, of disk fs'] True by simp
    also have "\<dots> = (sector_slots (eff disk fs (ss ! j)))[item := b] ! (k mod 16)"
      using assms(6) sector_slots_write [OF assms(5) assms(3,4)] by simp
    finally have new: "dir_slots disk fs' ss ! k = (sector_slots (eff disk fs (ss ! j)))[item := b] ! (k mod 16)" .
    show ?thesis
    proof (cases "k mod 16 = item")
      case True
      then have eq: "j * 16 + item = k" using \<open>k div 16 = j\<close> by (metis div_mult_mod_eq)
      then have "j * 16 + item < length (dir_slots disk fs ss)" using k by (simp only: length_dir_slots)
      then show ?thesis using new True assms(3) eq by simp
    next
      case False
      then have "j * 16 + item \<noteq> k" using assms(3) by (metis mod_less mod_mult_self3)
      then show ?thesis using new False dir_slots_nth [OF k, of disk fs] True by simp
    qed
  next
    case False
    then have "ss ! (k div 16) \<noteq> ss ! j" using assms(1,2) q by (simp add: nth_eq_iff_index_eq)
    moreover have "k \<noteq> j * 16 + item" using False assms(3) by auto
    ultimately show ?thesis
      using k q assms(7) [of "ss ! (k div 16)"] by (simp add: dir_slots_nth)
  qed
qed (simp add: length_dir_slots)

lemma dir_slots_length:
  assumes "\<forall>s \<in> set ss. length (eff disk fs s) = 512" "k < length (dir_slots disk fs ss)"
  shows "length (dir_slots disk fs ss ! k) = 32"
proof -
  have k: "k < length ss * 16" using assms(2) by (simp add: length_dir_slots)
  then have "ss ! (k div 16) \<in> set ss" by (simp add: less_mult_imp_div_less)
  then have "length (eff disk fs (ss ! (k div 16))) = 512" using assms(1) by blast
  then show ?thesis using k by (simp add: dir_slots_nth sector_slots_nth)
qed

context block_device
begin

lemma write_current_lemma:
  assumes ok: "device_ok rd wr sectors valid" and i: "finv fs"
    and s: "data_sector sectors fs (fb_address (currentsector fs))"
    and l: "length (fb_sector (currentsector fs)) = 512"
  shows "\<exists>fs'. write_current fs = Some (True, fs') \<and> finv fs' \<and> cinv fs' \<and> io_frame fs fs'
    \<and> currentsector fs' = currentsector fs
    \<and> (\<forall>t. unat t < sectors \<longrightarrow> eff disk fs' t
        = (if t = fb_address (currentsector fs) then fb_sector (currentsector fs) else eff disk fs t))"
proof -
  let ?s = "fb_address (currentsector fs)" and ?b = "fb_sector (currentsector fs)"
  have v: "valid (medium fs)" "write_media fs = Some wr" and s': "unat ?s < sectors"
    and out: "\<not> unat (?s - fat_begin_lba fs) < unat (fat_sectors fs)"
    using i s by (auto simp: fat_inv_def data_sector_def word_less_nat_alt)
  obtain d okw where w: "wr ?s ?b 1 (medium fs) = (okw, d)" "valid d" "okw \<longrightarrow> disk d ?s = ?b"
    "\<forall>t. unat t < sectors \<longrightarrow> t \<noteq> ?s \<longrightarrow> disk d t = disk (medium fs) t"
    using write_law [OF v(1) s' l] by blast
  have "okw" using ok v(1) s' l w(1) unfolding device_ok_def by fastforce
  let ?fs = "fs\<lparr>medium := d\<rparr>"
  have same: "disk d t = disk (medium fs) t" if "unat (t - fat_begin_lba fs) < unat (fat_sectors fs)" for t
    using that w(4) fat_sector_range(1) [OF i that] out by metis
  have fs: "fs\<lparr>currentsector := currentsector fs, medium := d\<rparr> = ?fs" by simp
  have f: "finv ?fs" using finv_medium [OF i w(2) same, of "currentsector fs"] unfolding fs by blast
  have nb: "fb_address (hd (fat_chain fs)) \<noteq> ?s"
    using i out s' unfolding fat_inv_def fat_geometry_def by (auto split: if_splits)
  have view: "eff disk ?fs t = (if t = ?s then ?b else eff disk fs t)" if "unat t < sectors" for t
    using that w(3,4) \<open>okw\<close> nb by (auto simp: eff_def)
  have "io_frame fs ?fs"
    unfolding io_frame_def
    by (intro exI [of _ "fat_chain fs"] exI [of _ d] exI [of _ "currentsector fs"]) simp
  moreover have "cinv ?fs" using view s' l by (simp add: cur_inv_def)
  moreover have "write_current fs = Some (True, ?fs)"
    using v(2) w(1) \<open>okw\<close> by (simp add: write_current_def fatfs_sector_write_def)
  ultimately show ?thesis using f view by (intro exI [of _ ?fs]) simp
qed

text \<open>What the two functions that rewrite an entry do to the directory.\<close>

lemma rewrite_entry_lemma:
  assumes r: "readable_sectors rd wr disk sectors valid fs c ss" "reading fs fs" "length ss < 2 ^ 32" "distinct ss"
    and ok: "device_ok rd wr sectors valid"
    and data: "\<forall>s \<in> set ss. data_sector sectors fs s"
    and upd: "\<And>e. wf_entry e \<Longrightarrow> wf_entry (upd e)"
  shows "\<exists>res fs'. do {
        (r, fs) \<leftarrow> find_sfn fs c n 0;
        case r of None \<Rightarrow> Some (False, fs)
        | Some item \<Rightarrow> write_current (put_current_entry fs item (upd (current_entry fs item))) } = Some (res, fs')
    \<and> finv fs' \<and> cinv fs' \<and> io_frame fs fs'
    \<and> (\<forall>t. unat t < sectors \<longrightarrow> t \<notin> set ss \<longrightarrow> eff disk fs' t = eff disk fs t)
    \<and> (if res then \<exists>k. first_short n (dir_slots disk fs ss) k
          \<and> dir_slots disk fs' ss = (dir_slots disk fs ss)[k := dir_entry_bytes (upd (dir_entry_at (dir_slots disk fs ss ! k) 0))]
       else (\<forall>b \<in> set (dir_slots disk fs ss). \<not> is_short n b) \<and> vsame fs fs')"
proof -
  obtain r f1 where f1: "find_sfn fs c n 0 = Some (r, f1)" "reading fs f1"
    "case r of
        None \<Rightarrow> \<forall>b \<in> set (dir_slots disk fs ss). \<not> is_short n b
      | Some item \<Rightarrow> \<exists>j. j < length ss \<and> item < 16
          \<and> (\<forall>b \<in> set (dir_slots disk fs (take j ss)). \<not> is_short n b)
          \<and> fb_address (currentsector f1) = ss ! j \<and> fb_sector (currentsector f1) = eff disk fs (ss ! j)
          \<and> find (\<lambda>i. is_short n (sector_slots (eff disk fs (ss ! j)) ! i)) [0..<16] = Some item"
  proof -
    obtain r f1 where f: "find_sfn fs c n (word_of_nat 0) = Some (r, f1)" "reading fs f1"
      "case r of
          None \<Rightarrow> \<forall>b \<in> set (dir_slots disk fs (drop 0 ss)). \<not> is_short n b
        | Some item \<Rightarrow> \<exists>j. 0 \<le> j \<and> j < length ss \<and> item < 16
            \<and> (\<forall>b \<in> set (dir_slots disk fs (drop 0 (take j ss))). \<not> is_short n b)
            \<and> fb_address (currentsector f1) = ss ! j \<and> fb_sector (currentsector f1) = eff disk fs (ss ! j)
            \<and> find (\<lambda>i. is_short n (sector_slots (eff disk fs (ss ! j)) ! i)) [0..<16] = Some item"
      using find_sfn_lemma [OF r(1,3) le0 r(2), of n] by (elim exE conjE)
    have "find_sfn fs c n 0 = Some (r, f1)" using f(1) by simp
    then show thesis
      by (rule that [OF _ f(2)]) (cases r; use f(3) in simp)
  qed
  have f1': "finv f1" "vsame fs f1" "io_frame fs f1" "cinv f1" using f1(2) by (simp_all add: reading_state_def)
  show ?thesis
  proof (cases r)
    case None
    then show ?thesis using f1 f1' by (auto simp: same_view_def)
  next
    case (Some item)
    then obtain j where j: "j < length ss" "item < 16" "\<forall>b \<in> set (dir_slots disk fs (take j ss)). \<not> is_short n b"
      "fb_address (currentsector f1) = ss ! j" "fb_sector (currentsector f1) = eff disk fs (ss ! j)"
      "find (\<lambda>i. is_short n (sector_slots (eff disk fs (ss ! j)) ! i)) [0..<16] = Some item"
      using f1(3) by auto
    let ?k = "j * 16 + item"
    have first: "first_short n (dir_slots disk fs ss) ?k" by (rule first_short_sector [OF j(1,3,6)])
    have l: "length (eff disk fs (ss ! j)) = 512" using f1'(4) j(5) by (simp add: cur_inv_def)
    have e: "current_entry f1 item = dir_entry_at (dir_slots disk fs ss ! ?k) 0"
      using current_entry_slot [of f1 item] first j(2,5) l
      by (simp add: first_short_def length_dir_slots dir_slots_nth sector_slots_nth current_slot_def)
    let ?e = "upd (current_entry f1 item)"
    let ?f2 = "put_current_entry f1 item ?e"
    have "wf_entry (current_entry f1 item)"
      using l j(2,5) by (simp add: current_entry_def wf_entry_at)
    then have be: "length (dir_entry_bytes ?e) = 32" using upd length_dir_entry_bytes by blast
    have dj: "ss ! j \<in> set ss" "data_sector sectors fs (ss ! j)" using data j(1) by auto
    have f2: "fat_chain ?f2 = fat_chain f1" "medium ?f2 = medium f1"
      "fb_address (currentsector ?f2) = ss ! j" "length (fb_sector (currentsector ?f2)) = 512"
      "fb_sector (currentsector ?f2) = mem_write (32 * item) (dir_entry_bytes ?e) (eff disk fs (ss ! j))"
      using j(2,4,5) l be by (simp_all add: put_current_entry_def)
    have i2: "finv ?f2" using finv_medium [OF f1'(1), of "medium f1" "currentsector ?f2"] f1'(1)
      by (simp add: put_current_entry_def fat_inv_def)
    have fr2: "io_frame f1 ?f2"
      unfolding io_frame_def
      by (intro exI [of _ "fat_chain f1"] exI [of _ "medium f1"] exI [of _ "currentsector ?f2"])
        (simp add: put_current_entry_def)
    have "data_sector sectors ?f2 (fb_address (currentsector ?f2))"
      using dj(2) f2(3) io_frame_entries(7) [OF io_frame_trans [OF f1'(3) fr2], of sectors] by simp
    then obtain f3 where f3: "write_current ?f2 = Some (True, f3)" "finv f3" "cinv f3" "io_frame ?f2 f3"
      "\<forall>t. unat t < sectors \<longrightarrow> eff disk f3 t = (if t = ss ! j then fb_sector (currentsector ?f2) else eff disk ?f2 t)"
      using write_current_lemma [OF ok i2] f2(3,4) by auto
    have view: "eff disk f3 t = (if t = ss ! j then mem_write (32 * item) (dir_entry_bytes ?e) (eff disk fs (ss ! j)) else eff disk fs t)"
      if "unat t < sectors" for t
    proof -
      have "eff disk ?f2 t = eff disk f1 t" by (simp add: eff_def f2(1,2))
      also have "\<dots> = eff disk fs t" using f1'(2) that by (simp add: same_view_def)
      finally show ?thesis using f3(5) that f2(5) by presburger
    qed
    have ss: "unat t < sectors" if "t \<in> set ss" for t using that data by (auto simp: data_sector_def)
    have "dir_slots disk f3 ss = (dir_slots disk fs ss)[?k := dir_entry_bytes ?e]"
      by (rule dir_slots_update [OF r(4) j(1,2) be l]) (use view ss dj(1) in auto)
    moreover have "\<forall>t. unat t < sectors \<longrightarrow> t \<notin> set ss \<longrightarrow> eff disk f3 t = eff disk fs t"
      using view dj(1) by auto
    moreover have "io_frame fs f3" using io_frame_trans [OF io_frame_trans [OF f1'(3) fr2] f3(4)] .
    ultimately show ?thesis
      using f1(1) Some f3(1-3) first e by (intro exI [of _ True] exI [of _ f3]) auto
  qed
qed

lemma directory_slot_length:
  assumes "directory rd wr disk sectors valid fs c ss" "k < length (dir_slots disk fs ss)"
  shows "length (dir_slots disk fs ss ! k) = 32"
proof (rule dir_slots_length [OF _ assms(2)])
  have "finv fs" using assms(1) by (simp add: directory_def)
  then show "\<forall>s \<in> set ss. length (eff disk fs s) = 512"
    using directory_readable(6) [OF assms(1)] eff_length by (auto simp: data_sector_def)
qed

lemma get_file_entry_dir:
  assumes "directory rd wr disk sectors valid fs c ss"
  shows "\<exists>fs'. fatfs_get_file_entry fs c name = Some (map_option snd
        (find (named name) (dir_names (dir_slots disk fs ss) (fatfs_lfn_cache_init empty_lfn True))), fs')
    \<and> reading fs fs'"
proof -
  note d = directory_readable [OF assms]
  show ?thesis
    using find_file_lemma [OF d(1,3) le0 d(2), of name "fatfs_lfn_cache_init empty_lfn True"]
    by (simp add: fatfs_get_file_entry_def lookup_name_names)
qed

lemma find_sfn_first:
  assumes "readable_sectors rd wr disk sectors valid fs c ss" "length ss < 2 ^ 32" "reading fs fs"
  shows "\<exists>r fs'. find_sfn fs c n 0 = Some (r, fs') \<and> reading fs fs'
    \<and> (r = None \<longleftrightarrow> (\<forall>b \<in> set (dir_slots disk fs ss). \<not> is_short n b))"
proof -
  obtain r f1 where f: "find_sfn fs c n (word_of_nat 0) = Some (r, f1)" "reading fs f1"
    "case r of
        None \<Rightarrow> \<forall>b \<in> set (dir_slots disk fs (drop 0 ss)). \<not> is_short n b
      | Some item \<Rightarrow> \<exists>j. 0 \<le> j \<and> j < length ss \<and> item < 16
          \<and> (\<forall>b \<in> set (dir_slots disk fs (drop 0 (take j ss))). \<not> is_short n b)
          \<and> fb_address (currentsector f1) = ss ! j \<and> fb_sector (currentsector f1) = eff disk fs (ss ! j)
          \<and> find (\<lambda>i. is_short n (sector_slots (eff disk fs (ss ! j)) ! i)) [0..<16] = Some item"
    using find_sfn_lemma [OF assms(1,2) le0 assms(3), of n] by (elim exE conjE)
  have "\<exists>b \<in> set (dir_slots disk fs ss). is_short n b" if r: "r = Some item" for item
  proof -
    obtain j where j: "j < length ss" "\<forall>b \<in> set (dir_slots disk fs (take j ss)). \<not> is_short n b"
      "find (\<lambda>i. is_short n (sector_slots (eff disk fs (ss ! j)) ! i)) [0..<16] = Some item"
      using f(3) r by auto
    show ?thesis using first_short_sector [OF j] by (auto simp: first_short_def)
  qed
  then show ?thesis using f by (cases r) auto
qed

lemma rewrite_directory:
  assumes d: "directory rd wr disk sectors valid fs c ss" and upd: "\<And>e. wf_entry e \<Longrightarrow> wf_entry (upd e)"
  shows "\<exists>ok fs'. do {
        (r, fs) \<leftarrow> find_sfn fs c n 0;
        case r of None \<Rightarrow> Some (False, fs)
        | Some item \<Rightarrow> write_current (put_current_entry fs item (upd (current_entry fs item))) } = Some (ok, fs')
    \<and> directory rd wr disk sectors valid fs' c ss
    \<and> (\<forall>t. unat t < sectors \<longrightarrow> t \<notin> set ss \<longrightarrow> eff disk fs' t = eff disk fs t)
    \<and> (if ok then \<exists>k e. first_short n (dir_slots disk fs ss) k \<and> e = dir_entry_at (dir_slots disk fs ss ! k) 0
          \<and> dir_slots disk fs' ss = (dir_slots disk fs ss)[k := dir_slots disk fs' ss ! k]
          \<and> dir_entry_at (dir_slots disk fs' ss ! k) 0 = upd e
       else (\<forall>b \<in> set (dir_slots disk fs ss). \<not> is_short n b) \<and> vsame fs fs')"
proof -
  note r = directory_readable [OF d]
  let ?old = "dir_slots disk fs ss"
  obtain ok fs' where f: "do {
        (r, fs) \<leftarrow> find_sfn fs c n 0;
        case r of None \<Rightarrow> Some (False, fs)
        | Some item \<Rightarrow> write_current (put_current_entry fs item (upd (current_entry fs item))) } = Some (ok, fs')"
    "finv fs'" "cinv fs'" "io_frame fs fs'"
    "\<forall>t. unat t < sectors \<longrightarrow> t \<notin> set ss \<longrightarrow> eff disk fs' t = eff disk fs t"
    "if ok then \<exists>k. first_short n ?old k \<and> dir_slots disk fs' ss = ?old[k := dir_entry_bytes (upd (dir_entry_at (?old ! k) 0))]
       else (\<forall>b \<in> set ?old. \<not> is_short n b) \<and> vsame fs fs'"
    using rewrite_entry_lemma [where upd = upd and n = n, OF r(1-6) upd] by blast
  have fi: "finv fs" using d by (simp add: directory_def)
  have "eff disk fs' t = eff disk fs t" if "unat (t - fat_begin_lba fs) < unat (fat_sectors fs)" for t
    using that f(5) fat_sector_range(1) [OF fi that] r(6) by (auto simp: data_sector_def word_less_nat_alt)
  then have "directory rd wr disk sectors valid fs' c ss" by (rule directory_frame [OF d f(2-4)])
  moreover have "dir_slots disk fs' ss = ?old[k := dir_slots disk fs' ss ! k]
      \<and> dir_entry_at (dir_slots disk fs' ss ! k) 0 = upd (dir_entry_at (?old ! k) 0)"
    if "first_short n ?old k" "dir_slots disk fs' ss = ?old[k := dir_entry_bytes (upd (dir_entry_at (?old ! k) 0))]" for k
  proof -
    have k: "k < length ?old" using that(1) by (simp add: first_short_def)
    have "32 \<le> length (?old ! k)" using directory_slot_length [OF d k] by simp
    then have "wf_entry (upd (dir_entry_at (?old ! k) 0))" using wf_entry_at [of 0] upd by simp
    then show ?thesis using that(2) k dir_entry_at_bytes by simp
  qed
  ultimately show ?thesis using f(1,5,6) by (intro exI [of _ ok] exI [of _ fs']) (auto split: if_splits)
qed

end

lemma directory_media: "directory rd wr disk n valid fs c ss \<Longrightarrow> (write_media fs = None) = False"
  by (auto simp: directory_def fat_inv_def)

subsection \<open>A volume with a directory\<close>

text \<open>
  The sample volume with a fourth sector: the chain of clusters 2 and 3 is a directory of two sectors
  with one file in it.
\<close>

definition sample_entry :: fat_dir_entry where
  "sample_entry = \<lparr>Name = ascii ''GAME    BIN'', Attr = 0x20, NTRes = 0, CrtTimeTenth = 0, CrtTime = [0, 0],
     CrtDate = [0x20, 0], LstAccDate = [0x20, 0], FstClusHI = 0, WrtTime = [0, 0], WrtDate = [0x20, 0],
     FstClusLO = 0x0500, FileSize = 0\<rparr>"

definition sample_now :: tm where
  "sample_now = \<lparr>tm_sec = 30, tm_min = 15, tm_hour = 12, tm_mday = 22, tm_mon = 10, tm_year = 94\<rparr>"

definition sample_volume :: "byte list fatfs" where
  "sample_volume = sample_fs\<lparr>medium := replicate 512 0 @ sample_table
     @ (dir_entry_bytes sample_entry @ replicate 480 0) @ replicate 512 0\<rparr>"

lemma sample_entry_wf: "wf_entry sample_entry" "length (dir_entry_bytes sample_entry) = 32"
proof -
  show "wf_entry sample_entry" by (simp add: wf_entry_def sample_entry_def ascii_def)
  then show "length (dir_entry_bytes sample_entry) = 32" by (rule length_dir_entry_bytes)
qed

lemma sample_volume_sectors:
  "file_sector (medium sample_volume) 1 = sample_table"
  "file_sector (medium sample_volume) 2 = dir_entry_bytes sample_entry @ replicate 480 0"
  "file_sector (medium sample_volume) 3 = replicate 512 0"
proof -
  have t: "length sample_table = 512" by (simp add: sample_table_def)
  show "file_sector (medium sample_volume) 1 = sample_table"
    "file_sector (medium sample_volume) 2 = dir_entry_bytes sample_entry @ replicate 480 0"
    "file_sector (medium sample_volume) 3 = replicate 512 0"
    by (simp_all add: sample_volume_def file_sector_def mem_read_def t sample_entry_wf(2))
qed

lemma sample_volume_eff: "s \<noteq> FAT32_INVALID_CLUSTER \<Longrightarrow> eff file_sector sample_volume s = file_sector (medium sample_volume) s"
  by (simp add: eff_def sample_volume_def sample_fs_def no_buffer_def)

lemma sample_volume_slots:
  "dir_slots file_sector sample_volume [2, 3] = dir_entry_bytes sample_entry # replicate 31 (replicate 32 0)"
proof -
  have "sector_slots (dir_entry_bytes sample_entry @ replicate 480 0) = dir_entry_bytes sample_entry # replicate 15 (replicate 32 0)"
  proof (rule nth_equalityI)
    fix k assume "k < length (sector_slots (dir_entry_bytes sample_entry @ replicate 480 0))"
    then have k: "k < 16" by simp
    show "sector_slots (dir_entry_bytes sample_entry @ replicate 480 0) ! k = (dir_entry_bytes sample_entry # replicate 15 (replicate 32 0)) ! k"
      using k sample_entry_wf(2) by (cases k) (auto simp: sector_slots_nth mem_read_def nth_Cons)
  qed simp
  moreover have "sector_slots (replicate 512 0) = replicate 16 (replicate 32 0)"
    by (rule nth_equalityI) (auto simp: sector_slots_nth mem_read_def)
  ultimately show ?thesis
    by (simp add: dir_slots_def sample_volume_eff sample_volume_sectors flip: replicate_add)
qed

lemma sample_volume_inv:
  "fat_inv fat_media_read fat_media_write file_sector 4 (file_valid 4) sample_volume"
proof -
  have t: "length sample_table = 512" by (simp add: sample_table_def)
  show ?thesis
    by (simp add: fat_inv_def sample_volume_def sample_fs_def file_valid_def fat_geometry_def no_buffer_def t
        sample_entry_wf(2))
qed

lemma sample_chain:
  "cluster_chain (fat_next file_sector sample_volume) 2 [2, 3]" "\<forall>x \<in> set [2, 3]. entry_in sample_volume x"
  "chain_sectors sample_volume [2, 3] = [2, 3]" "sectors_per_cluster sample_volume \<noteq> 0"
  "\<forall>s \<in> set [2, 3]. data_sector 4 sample_volume s"
proof -
  have t: "length sample_table = 512" by (simp add: sample_table_def)
  have raw: "raw_entry file_sector sample_volume c = raw_entry file_sector sample_fs c" if "unat c < 256" for c
  proof -
    have "file_sector (medium sample_fs) 1 = sample_table"
      by (simp add: sample_fs_def sample_image_def file_sector_def mem_read_def t)
    moreover have "entry_sector sample_fs c = 1" "entry_sector sample_volume c = 1"
      using that by (simp_all add: entry_sector_def fat_sector_offset_def sample_volume_def sample_fs_def word_less_nat_alt
          div_word_less)
    ultimately have "eff file_sector sample_fs (entry_sector sample_fs c) = sample_table"
      "eff file_sector sample_volume (entry_sector sample_volume c) = sample_table"
      using sample_volume_sectors(1) by (simp_all add: sample_volume_eff) (simp add: eff_def sample_fs_def no_buffer_def)
    moreover have "entry_number sample_volume = entry_number sample_fs"
      by (simp add: fun_eq_iff entry_number_def fat_position_def fat_sector_offset_def sample_volume_def)
    ultimately show ?thesis by (simp add: raw_entry_def)
  qed
  have nxt: "fat_next file_sector sample_volume 2 = 3" "fat_next file_sector sample_volume 3 = FAT32_LAST_CLUSTER"
    using sample_next(1,2) by (simp_all add: fat_next_def raw, simp_all add: entry_next_def sample_volume_def)
  then show "cluster_chain (fat_next file_sector sample_volume) 2 [2, 3]" by simp
  show "\<forall>x \<in> set [2, 3]. entry_in sample_volume x"
    using sample_in [of 2] sample_in [of 3] by (simp add: entry_in_def fat_sector_offset_def sample_volume_def)
  show "chain_sectors sample_volume [2, 3] = [2, 3]"
    by (simp add: chain_sectors_def sample_volume_def sample_fs_def fatfs_lba_of_cluster_def)
  show "sectors_per_cluster sample_volume \<noteq> 0" by (simp add: sample_volume_def sample_fs_def)
  show "\<forall>s \<in> set [2, 3]. data_sector 4 sample_volume s"
    by (simp add: data_sector_def sample_volume_def sample_fs_def)
qed

lemma sample_directory:
  "directory fat_media_read fat_media_write file_sector 4 (file_valid 4) sample_volume 2 [2, 3]"
proof -
  have kind: "sectors_per_cluster sample_volume \<noteq> 0 \<and> (2 :: u32) \<noteq> 0
      \<and> (\<exists>xs. cluster_chain (fat_next file_sector sample_volume) 2 xs
        \<and> (\<forall>x \<in> set xs. entry_in sample_volume x) \<and> [2, 3] = chain_sectors sample_volume xs)"
    using sample_chain by (intro conjI exI [of _ "[2, 3]"]) (simp_all del: cluster_chain.simps)
  have "cur_inv file_sector 4 sample_volume"
    by (simp add: cur_inv_def sample_volume_def sample_fs_def no_buffer_def)
  then show ?thesis
    using sample_volume_inv kind file_device_ok sample_chain(5) unfolding directory_def by simp
qed

lemma sample_short: "is_short (ascii ''GAME    BIN'') (dir_entry_bytes sample_entry)"
  by (simp add: is_short_def Let_def dir_entry_at_bytes [OF sample_entry_wf(1)])
    (simp add: sample_entry_def fatfs_entry_lfn_text_def fatfs_entry_sfn_only_def strncmp_eq_def ascii_def)

lemma sample_names:
  "dir_names (dir_entry_bytes sample_entry # bs) (fatfs_lfn_cache_init lfn w)
    = (ascii ''GAME    .BIN'', sample_entry) # dir_names bs (fatfs_lfn_cache_init (fatfs_lfn_cache_init lfn w) False)"
  by (simp add: dir_entry_at_bytes [OF sample_entry_wf(1)] fatfs_lfn_cache_init_def)
    (simp add: sample_entry_def fatfs_entry_lfn_text_def fatfs_entry_sfn_only_def short_filename_of_def ascii_def cstring_def)

lemma sample_key: "name_key (ascii ''GAME    .BIN'') = name_key (ascii ''game.bin'')"
  by (simp add: name_key_def ascii_def lower_case_def trim_spaces_def)

subsection \<open>Properties\<close>

text \<open>
  C26: reading sector number \<open>x\<close> of a directory, be it the root of a FAT16 volume or a chain of
  clusters that is found by following the table, succeeds for every sector that the directory has, and fails for the
  first one behind its end (a caller that reads the sectors in order never asks for a later one, and
  nothing is said of these). After a success the working buffer holds the sector of that place, and in both cases nothing that is on the
  volume has changed.
\<close>

theorem sector_reader_correct:
  assumes "block_device rd wr disk n valid" and "directory rd wr disk n valid fs c ss" and "unat x \<le> length ss"
  shows "\<exists>fs'. fatfs_sector_reader fs c x None = Some (unat x < length ss, None, fs')
    \<and> reading_state rd wr disk n valid fs fs'
    \<and> (unat x < length ss \<longrightarrow> fb_address (currentsector fs') = ss ! unat x
        \<and> fb_sector (currentsector fs') = eff disk fs (ss ! unat x))"
  using block_device.directory_readable(1,2) [OF assms(1,2)] assms(3) unfolding readable_sectors_def by blast

theorem sector_reader_correct_witness:
  "\<exists>fs'. fatfs_sector_reader sample_volume 2 1 None = Some (True, None, fs') \<and> fb_address (currentsector fs') = 3"
  using sector_reader_correct [OF file_device.block_device_axioms sample_directory, of 1] by auto

text \<open>
  C23: looking a name up in a directory returns the entry of the first file whose name, long or
  short, is the same up to the rules of \<open>compare_names_correct\<close>, and no entry when there is none;
  the volume is unchanged.
\<close>

theorem get_file_entry_correct:
  assumes "block_device rd wr disk n valid" and "directory rd wr disk n valid fs c ss"
  shows "\<exists>fs'. fatfs_get_file_entry fs c name = Some (map_option snd
        (find (\<lambda>x. name_key (fst x) = name_key name) (dir_names (dir_slots disk fs ss) (fatfs_lfn_cache_init empty_lfn True))), fs')
    \<and> reading_state rd wr disk n valid fs fs'"
  by (rule block_device.get_file_entry_dir [OF assms])

theorem get_file_entry_correct_witness:
  "\<exists>fs'. fatfs_get_file_entry sample_volume 2 (ascii ''game.bin'') = Some (Some sample_entry, fs')"
proof -
  have "find (\<lambda>x. name_key (fst x) = name_key (ascii ''game.bin''))
      (dir_names (dir_slots file_sector sample_volume [2, 3]) (fatfs_lfn_cache_init empty_lfn True))
      = Some (ascii ''GAME    .BIN'', sample_entry)"
    unfolding sample_volume_slots sample_names by (simp add: sample_key del: dir_names.simps)
  then show ?thesis
    using get_file_entry_correct [OF file_device.block_device_axioms sample_directory, of "ascii ''game.bin''"] by auto
qed

text \<open>
  \<open>fatfs_sfn_exists\<close> tells whether one of the live short entries of the directory has the short
  name, and changes nothing on the volume.
\<close>

theorem sfn_exists_correct:
  assumes "block_device rd wr disk n valid" and "directory rd wr disk n valid fs c ss"
  shows "\<exists>fs'. fatfs_sfn_exists fs c name = Some (\<exists>b \<in> set (dir_slots disk fs ss). is_short name b, fs')
    \<and> reading_state rd wr disk n valid fs fs'"
proof -
  note d = block_device.directory_readable [OF assms]
  obtain r fs' where f: "find_sfn fs c name 0 = Some (r, fs')" "reading_state rd wr disk n valid fs fs'"
    "(r = None) = (\<forall>b \<in> set (dir_slots disk fs ss). \<not> is_short name b)"
    using block_device.find_sfn_first [OF assms(1) d(1,3,2)] by metis
  then show ?thesis by (auto simp: fatfs_sfn_exists_def)
qed

theorem sfn_exists_correct_witness:
  "\<exists>fs'. fatfs_sfn_exists sample_volume 2 (ascii ''GAME    BIN'') = Some (True, fs')"
proof -
  have "\<exists>b \<in> set (dir_slots file_sector sample_volume [2, 3]). is_short (ascii ''GAME    BIN'') b"
    using sample_short by (simp add: sample_volume_slots)
  then show ?thesis
    using sfn_exists_correct [OF file_device.block_device_axioms sample_directory, of "ascii ''GAME    BIN''"] by auto
qed

text \<open>
  setting the length of a file rewrites the first entry with its short name: the entry then
  has the new length and the new times and is otherwise the same, every other slot of the
  directory and every other sector of the volume keep their contents. Without such an entry the
  function says so and changes nothing.
\<close>

theorem update_file_length_correct:
  assumes "block_device rd wr disk n valid" and "directory rd wr disk n valid fs c ss"
  shows "\<exists>ok fs'. fatfs_update_file_length now fs c name len = Some (ok, fs')
    \<and> directory rd wr disk n valid fs' c ss
    \<and> (\<forall>t. unat t < n \<longrightarrow> t \<notin> set ss \<longrightarrow> eff disk fs' t = eff disk fs t)
    \<and> (if ok then \<exists>k e. first_short name (dir_slots disk fs ss) k \<and> e = dir_entry_at (dir_slots disk fs ss ! k) 0
          \<and> dir_slots disk fs' ss = (dir_slots disk fs ss)[k := dir_slots disk fs' ss ! k]
          \<and> dir_entry_at (dir_slots disk fs' ss ! k) 0
              = fatfs_update_timestamps now (e\<lparr>FileSize := FAT_HTONL len\<rparr>) False True True
       else (\<forall>b \<in> set (dir_slots disk fs ss). \<not> is_short name b) \<and> same_view disk n fs fs')"
proof -
  let ?upd = "\<lambda>e. fatfs_update_timestamps now (e\<lparr>FileSize := FAT_HTONL len\<rparr>) False True True"
  have "wf_entry (?upd e)" if "wf_entry e" for e
    using that by (intro wf_entry_timestamps) (simp add: wf_entry_def)
  from block_device.rewrite_directory [OF assms, of ?upd name, OF this] show ?thesis
    unfolding fatfs_update_file_length_def Let_def directory_media [OF assms(2)] if_False .
qed

theorem update_file_length_correct_witness:
  "\<exists>fs'. fatfs_update_file_length sample_now sample_volume 2 (ascii ''GAME    BIN'') 512 = Some (True, fs')
    \<and> FileSize (dir_entry_at (dir_slots file_sector fs' [2, 3] ! 0) 0) = FAT_HTONL 512" (is "\<exists>fs'. ?P fs'")
proof -
  let ?n = "ascii ''GAME    BIN''"
  have short: "is_short ?n (dir_slots file_sector sample_volume [2, 3] ! 0)" "\<exists>b \<in> set (dir_slots file_sector sample_volume [2, 3]). is_short ?n b"
    using sample_short by (simp_all add: sample_volume_slots)
  then have "first_short ?n (dir_slots file_sector sample_volume [2, 3]) k \<Longrightarrow> k = 0" for k
    by (auto simp: first_short_def)
  then show ?thesis
    using update_file_length_correct [OF file_device.block_device_axioms sample_directory, of sample_now ?n 512] short(2)
    by (fastforce simp: fatfs_update_timestamps_def Let_def split: if_splits)
qed

text \<open>
  C24: deleting a file marks the first entry with its short name: the slot is then no longer an entry
  with any short name, every other slot of the directory and every other sector keep their
  contents. Without such an entry the function says so and changes nothing.
\<close>

theorem mark_file_deleted_correct:
  assumes "block_device rd wr disk n valid" and "directory rd wr disk n valid fs c ss"
  shows "\<exists>ok fs'. fatfs_mark_file_deleted now fs c name = Some (ok, fs')
    \<and> directory rd wr disk n valid fs' c ss
    \<and> (\<forall>t. unat t < n \<longrightarrow> t \<notin> set ss \<longrightarrow> eff disk fs' t = eff disk fs t)
    \<and> (if ok then \<exists>k. first_short name (dir_slots disk fs ss) k
          \<and> dir_slots disk fs' ss = (dir_slots disk fs ss)[k := dir_slots disk fs' ss ! k]
          \<and> (\<forall>m. \<not> is_short m (dir_slots disk fs' ss ! k))
       else (\<forall>b \<in> set (dir_slots disk fs ss). \<not> is_short name b) \<and> same_view disk n fs fs')"
proof -
  let ?upd = "\<lambda>e. fatfs_update_timestamps now (e\<lparr>Name := (Name e)[0 := FILE_HEADER_DELETED]\<rparr>) False True True"
  have w: "wf_entry (?upd e)" if "wf_entry e" for e
    using that by (intro wf_entry_timestamps) (simp add: wf_entry_def)
  obtain ok fs' where f: "fatfs_mark_file_deleted now fs c name = Some (ok, fs')"
    "directory rd wr disk n valid fs' c ss" "\<forall>t. unat t < n \<longrightarrow> t \<notin> set ss \<longrightarrow> eff disk fs' t = eff disk fs t"
    "if ok then \<exists>k e. first_short name (dir_slots disk fs ss) k \<and> e = dir_entry_at (dir_slots disk fs ss ! k) 0
          \<and> dir_slots disk fs' ss = (dir_slots disk fs ss)[k := dir_slots disk fs' ss ! k]
          \<and> dir_entry_at (dir_slots disk fs' ss ! k) 0 = ?upd e
       else (\<forall>b \<in> set (dir_slots disk fs ss). \<not> is_short name b) \<and> same_view disk n fs fs'"
    using block_device.rewrite_directory [OF assms, of ?upd name, OF w]
    unfolding fatfs_mark_file_deleted_def Let_def directory_media [OF assms(2)] if_False by blast
  have dead: "\<not> is_short m b" if "dir_entry_at b 0 = ?upd e" "wf_entry e" for m b e
  proof -
    have "Name (?upd e) ! 0 = FILE_HEADER_DELETED"
      using that(2) by (simp add: fatfs_update_timestamps_def Let_def wf_entry_def)
    then show ?thesis using that(1) by (simp add: is_short_def fatfs_entry_sfn_only_def)
  qed
  have "\<exists>k. first_short name (dir_slots disk fs ss) k
      \<and> dir_slots disk fs' ss = (dir_slots disk fs ss)[k := dir_slots disk fs' ss ! k]
      \<and> (\<forall>m. \<not> is_short m (dir_slots disk fs' ss ! k))" if ok
  proof -
    from that f(4) obtain k where k: "first_short name (dir_slots disk fs ss) k"
      "dir_slots disk fs' ss = (dir_slots disk fs ss)[k := dir_slots disk fs' ss ! k]"
      "dir_entry_at (dir_slots disk fs' ss ! k) 0 = ?upd (dir_entry_at (dir_slots disk fs ss ! k) 0)"
      by auto
    have "wf_entry (dir_entry_at (dir_slots disk fs ss ! k) 0)"
      using block_device.directory_slot_length [OF assms, of k] k(1) by (intro wf_entry_at) (simp add: first_short_def)
    then show ?thesis using k(1,2) dead [OF k(3)] by blast
  qed
  then show ?thesis using f by (intro exI [of _ ok] exI [of _ fs']) (cases ok; simp)
qed

theorem mark_file_deleted_correct_witness:
  "\<exists>fs'. fatfs_mark_file_deleted sample_now sample_volume 2 (ascii ''GAME    BIN'') = Some (True, fs')
    \<and> \<not> is_short (ascii ''GAME    BIN'') (dir_slots file_sector fs' [2, 3] ! 0)"
proof -
  let ?n = "ascii ''GAME    BIN''"
  have short: "is_short ?n (dir_slots file_sector sample_volume [2, 3] ! 0)" "\<exists>b \<in> set (dir_slots file_sector sample_volume [2, 3]). is_short ?n b"
    using sample_short by (simp_all add: sample_volume_slots)
  then have "first_short ?n (dir_slots file_sector sample_volume [2, 3]) k \<Longrightarrow> k = 0" for k
    by (auto simp: first_short_def)
  then show ?thesis
    using mark_file_deleted_correct [OF file_device.block_device_axioms sample_directory, of sample_now ?n] short(2)
    by (fastforce split: if_splits)
qed

end
