(* ===== verification/FatRead.thy ===== *)
theory FatRead
  imports FatFilelib FatDirs
begin

section \<open>Reading files\<close>

text \<open>
  What \<open>fl_fread\<close> of \<open>fat_filelib.c\<close> returns: the bytes of the file. The file is the chain of clusters
  from its first one; the last place and the cluster cache that the file remembers must agree
  with it.
\<close>

subsection \<open>Sound files\<close>

definition cache_sound :: "FL_FILE \<Rightarrow> u32 list \<Rightarrow> bool" where
  "cache_sound f xs \<longleftrightarrow> length (cluster_cache_idx f) = 128 \<and> length (cluster_cache_data f) = 128
     \<and> (\<forall>i c. Suc (unat i) < length xs \<longrightarrow> fatfs_cache_get_next_cluster f i = Some c \<longrightarrow> c = xs ! Suc (unat i))"

definition lookup_sound :: "FL_FILE \<Rightarrow> u32 list \<Rightarrow> bool" where
  "lookup_sound f xs \<longleftrightarrow> ClusterIdx (last_fat_lookup f) = 0xFFFFFFFF
     \<or> unat (ClusterIdx (last_fat_lookup f)) < length xs
       \<and> CurrentCluster (last_fat_lookup f) = xs ! unat (ClusterIdx (last_fat_lookup f))"

text \<open>The chain of the file on the volume, and the file's memory of it and of its current sector.\<close>

definition chain_sound :: "('d \<Rightarrow> u32 \<Rightarrow> byte list) \<Rightarrow> nat \<Rightarrow> 'd fatfs \<Rightarrow> u32 \<Rightarrow> u32 list \<Rightarrow> bool" where
  "chain_sound disk n fs c xs \<longleftrightarrow> sectors_per_cluster fs \<noteq> 0 \<and> c \<noteq> 0 \<and> cluster_chain (fat_next disk fs) c xs
     \<and> (\<forall>x \<in> set xs. entry_in fs x) \<and> (\<forall>s \<in> set (chain_sectors fs xs). data_sector n fs s)
     \<and> length (chain_sectors fs xs) < 2 ^ 32"

definition file_memory :: "('d \<Rightarrow> u32 \<Rightarrow> byte list) \<Rightarrow> 'd fatfs \<Rightarrow> FL_FILE \<Rightarrow> u32 list \<Rightarrow> bool" where
  "file_memory disk fs f xs \<longleftrightarrow> cache_sound f xs \<and> lookup_sound f xs
     \<and> length (file_data_sector f) = FAT_SECTOR_SIZE \<and> \<not> file_data_dirty f
     \<and> (unat (file_data_address f) < length (chain_sectors fs xs) \<longrightarrow>
         file_data_sector f = eff disk fs (chain_sectors fs xs ! unat (file_data_address f)))"

definition file_content :: "('d \<Rightarrow> u32 \<Rightarrow> byte list) \<Rightarrow> 'd fatfs \<Rightarrow> u32 list \<Rightarrow> byte list" where
  "file_content disk fs xs = concat (map (eff disk fs) (chain_sectors fs xs))"

text \<open>What reading changes of a file.\<close>

definition read_frame :: "FL_FILE \<Rightarrow> FL_FILE \<Rightarrow> bool" where
  "read_frame f f' \<longleftrightarrow> startcluster f' = startcluster f \<and> filelength f' = filelength f \<and> file_flags f' = file_flags f
     \<and> parentcluster f' = parentcluster f \<and> shortfilename f' = shortfilename f \<and> file_path f' = file_path f
     \<and> file_filename f' = file_filename f \<and> filelength_changed f' = filelength_changed f"

lemma read_frame_refl [simp]: "read_frame f f"
  by (simp add: read_frame_def)

lemma read_frame_trans: "read_frame f g \<Longrightarrow> read_frame g h \<Longrightarrow> read_frame f h"
  by (simp add: read_frame_def)

text \<open>Following the chain touches the cluster cache and the last place alone.\<close>

definition walk_frame :: "FL_FILE \<Rightarrow> FL_FILE \<Rightarrow> bool" where
  "walk_frame f f' \<longleftrightarrow> (\<exists>i d l. f' = f\<lparr>cluster_cache_idx := i, cluster_cache_data := d, last_fat_lookup := l\<rparr>)"

lemma walk_frame_refl [simp]: "walk_frame f f"
  unfolding walk_frame_def
  by (intro exI [of _ "cluster_cache_idx f"] exI [of _ "cluster_cache_data f"] exI [of _ "last_fat_lookup f"]) simp

lemma walk_frame_trans: "walk_frame f g \<Longrightarrow> walk_frame g h \<Longrightarrow> walk_frame f h"
  unfolding walk_frame_def by (elim exE, hypsubst, intro exI) simp

lemma walk_frame_fields:
  assumes "walk_frame f f'"
  shows "read_frame f f'" "bytenum f' = bytenum f" "file_data_sector f' = file_data_sector f"
    "file_data_address f' = file_data_address f" "file_data_dirty f' = file_data_dirty f"
  using assms by (auto simp: walk_frame_def read_frame_def)

lemma walk_frame_set: "walk_frame f (fatfs_cache_set_next_cluster f i c)" "walk_frame f (f\<lparr>last_fat_lookup := l\<rparr>)"
proof -
  show "walk_frame f (fatfs_cache_set_next_cluster f i c)"
    unfolding walk_frame_def fatfs_cache_set_next_cluster_def Let_def
    by (intro exI [of _ "cluster_cache_idx (fatfs_cache_set_next_cluster f i c)"]
        exI [of _ "cluster_cache_data (fatfs_cache_set_next_cluster f i c)"] exI [of _ "last_fat_lookup f"])
      (simp add: fatfs_cache_set_next_cluster_def Let_def)
  show "walk_frame f (f\<lparr>last_fat_lookup := l\<rparr>)"
    unfolding walk_frame_def
    by (intro exI [of _ "cluster_cache_idx f"] exI [of _ "cluster_cache_data f"] exI [of _ l]) simp
qed

lemma cache_sound_set:
  assumes "cache_sound f xs" "Suc (unat i) < length xs"
  shows "cache_sound (fatfs_cache_set_next_cluster f i (xs ! Suc (unat i))) xs"
proof -
  have l: "length (cluster_cache_idx f) = 128" "length (cluster_cache_data f) = 128"
    using assms(1) by (simp_all add: cache_sound_def)
  have "length (cluster_cache_idx (fatfs_cache_set_next_cluster f i c)) = 128"
    "length (cluster_cache_data (fatfs_cache_set_next_cluster f i c)) = 128" for c
    using l by (simp_all add: fatfs_cache_set_next_cluster_def Let_def)
  then show ?thesis
    using assms unfolding cache_sound_def cache_get_set [OF l] by (auto split: if_splits)
qed

lemma lookup_sound_set:
  "lookup_sound (fatfs_cache_set_next_cluster f i c) xs = lookup_sound f xs"
  by (simp add: lookup_sound_def fatfs_cache_set_next_cluster_def Let_def)

text \<open>A file that remembers nothing yet.\<close>

lemma chain_sound_length:
  assumes "chain_sound disk n fs c xs"
  shows "length xs < 2 ^ 32"
proof -
  have "1 \<le> unat (sectors_per_cluster fs)" using assms by (simp add: chain_sound_def Suc_le_eq unat_gt_0)
  then have "length xs * 1 \<le> length xs * unat (sectors_per_cluster fs)" by (rule mult_le_mono2)
  then show ?thesis using assms unfolding chain_sound_def length_chain_sectors by linarith
qed

lemma fresh_memory:
  assumes c: "chain_sound disk n fs c xs" and l: "last_fat_lookup f = no_lookup"
    and i: "cluster_cache_idx f = replicate 128 0xFFFFFFFF" "length (cluster_cache_data f) = 128"
    and d: "length (file_data_sector f) = FAT_SECTOR_SIZE" "file_data_address f = 0xFFFFFFFF" "\<not> file_data_dirty f"
  shows "file_memory disk fs f xs"
proof -
  have "cache_sound f xs"
    unfolding cache_sound_def
  proof (intro conjI allI impI)
    fix j k assume j: "Suc (unat j) < length xs" and g: "fatfs_cache_get_next_cluster f j = Some k"
    have "j = 0xFFFFFFFF"
      using g cache_slot_bound [of j] by (simp add: fatfs_cache_get_next_cluster_def i Let_def split: if_splits)
    then show "k = xs ! Suc (unat j)" using j chain_sound_length [OF c] by simp
  qed (simp_all add: i)
  moreover have "length (chain_sectors fs xs) < 2 ^ 32" using c by (simp add: chain_sound_def)
  ultimately show ?thesis using l d by (simp add: file_memory_def lookup_sound_def no_lookup_def)
qed

subsection \<open>Following the chain\<close>

context block_device
begin

lemma chain_sound_io:
  assumes "chain_sound disk sectors fs c xs" "finv fs" "io_frame fs fs'" "vsame fs fs'"
  shows "chain_sound disk sectors fs' c xs"
proof -
  note fr = io_frame_fields [OF assms(3)] io_frame_entries [OF assms(3)]
  have "chain_sectors fs' = chain_sectors fs" using fr by (simp add: chain_sectors_def fun_eq_iff)
  moreover have "cluster_chain (fat_next disk fs') c xs"
  proof (rule cluster_chain_cong [of "fat_next disk fs"])
    show "cluster_chain (fat_next disk fs) c xs" using assms(1) by (simp add: chain_sound_def)
    fix x assume "x \<in> set xs"
    then have "entry_in fs x" using assms(1) by (simp add: chain_sound_def)
    then have "unat (entry_sector fs x) < sectors" using entry_in_sector(3) [OF assms(2)] fat_sector_range(1) [OF assms(2)] by blast
    then show "fat_next disk fs' x = fat_next disk fs x"
      using assms(4) fr by (simp add: fat_next_def raw_entry_def same_view_def)
  qed
  ultimately show ?thesis using assms(1) unfolding chain_sound_def fr by simp
qed

lemma chain_sound_frame:
  assumes "chain_sound disk sectors fs c xs" "finv fs" "fat_frame fs fs'" "vsame fs fs'"
  shows "chain_sound disk sectors fs' c xs"
  by (rule chain_sound_io [OF assms(1,2) fat_io_frame [OF assms(3)] assms(4)])

lemma chain_next:
  assumes "cluster_chain nx c xs" "Suc i < length xs"
  shows "nx (xs ! i) = xs ! Suc i"
  using assms
proof (induction xs arbitrary: c i)
  case (Cons x xs)
  then show ?case by (cases i; cases xs) auto
qed simp

lemma read_walk_lemma:
  assumes ok: "device_ok rd wr sectors valid"
  shows "finv fs \<Longrightarrow> chain_sound disk sectors fs c xs \<Longrightarrow> cache_sound f xs \<Longrightarrow> unat i + k < length xs \<Longrightarrow>
    \<exists>f' fs'. read_walk k fs f i (xs ! unat i) = Some (xs ! (unat i + k), f', fs') \<and> walk_frame f f'
      \<and> cache_sound f' xs \<and> last_fat_lookup f' = last_fat_lookup f \<and> finv fs' \<and> fat_frame fs fs' \<and> vsame fs fs'"
proof (induction k arbitrary: fs f i)
  case 0
  then show ?case by simp
next
  case (Suc k)
  note len = chain_sound_length [OF Suc.prems(2)]
  have i1: "unat (i + 1) = Suc (unat i)" using Suc.prems(4) len unat_add_lem [of i 1] by simp
  have x: "xs ! unat i \<in> set xs" using Suc.prems(4) by simp
  have nx: "fat_next disk fs (xs ! unat i) = xs ! Suc (unat i)"
    using Suc.prems(2,4) chain_next by (auto simp: chain_sound_def)
  have nz: "xs ! unat i \<noteq> 0" using Suc.prems(2) x cluster_chain_not_end by (auto simp: chain_sound_def)
  show ?case
  proof (cases "fatfs_cache_get_next_cluster f i")
    case (Some c')
    then have "c' = xs ! unat (i + 1)" using Suc.prems(3,4) i1 by (auto simp: cache_sound_def)
    then show ?thesis
      using Some Suc.IH [OF Suc.prems(1-3), of "i + 1"] Suc.prems(4) i1 by simp
  next
    case None
    obtain fs1 where f1: "fatfs_find_next_cluster fs (xs ! unat i) = Some (xs ! unat (i + 1), fs1)" "finv fs1"
      "fat_frame fs fs1" "vsame fs fs1"
      using find_next_lemma [OF Suc.prems(1), of "xs ! unat i"] ok nz x nx i1 Suc.prems(2)
      by (auto simp: chain_sound_def)
    let ?f = "fatfs_cache_set_next_cluster f i (xs ! unat (i + 1))"
    have cs: "cache_sound ?f xs" using cache_sound_set [OF Suc.prems(3), of i] Suc.prems(4) i1 by simp
    have "unat (i + 1) + k < length xs" using Suc.prems(4) i1 by simp
    from Suc.IH [OF f1(2) chain_sound_frame [OF Suc.prems(2,1) f1(3,4)] cs this]
    obtain f' fs' where f': "read_walk k fs1 ?f (i + 1) (xs ! unat (i + 1)) = Some (xs ! (unat (i + 1) + k), f', fs')"
      "walk_frame ?f f'" "cache_sound f' xs" "last_fat_lookup f' = last_fat_lookup ?f" "finv fs'" "fat_frame fs1 fs'" "vsame fs1 fs'"
      by blast
    have "last_fat_lookup ?f = last_fat_lookup f" by (simp add: fatfs_cache_set_next_cluster_def Let_def)
    then show ?thesis
      using f1(1) None f' i1 walk_frame_trans [OF walk_frame_set(1) f'(2)] fat_frame_trans [OF f1(3) f'(6)]
        same_view_trans [OF f1(4) f'(7)] by simp
  qed
qed

end

text \<open>All reads of runs succeed.\<close>

definition reads_ok :: "'d diskio_read \<Rightarrow> nat \<Rightarrow> ('d \<Rightarrow> bool) \<Rightarrow> bool" where
  "reads_ok rd n valid \<longleftrightarrow> (\<forall>d s k buf. valid d \<longrightarrow> k \<noteq> 0 \<longrightarrow> unat s + unat k \<le> n \<longrightarrow>
     unat k * FAT_SECTOR_SIZE \<le> length buf \<longrightarrow> fst (rd s buf k d))"

lemma upcast_byte: "unat (ucast (b :: byte) :: u32) = unat b"
proof -
  have "unat b < 2 ^ LENGTH(8)" by (rule unsigned_less)
  then show ?thesis by (simp add: unsigned_ucast_eq take_bit_nat_eq_self)
qed

context run_device
begin

lemma walk_start_lemma:
  assumes c: "chain_sound disk sectors fs (startcluster f) xs" and l: "lookup_sound f xs"
    and i: "unat clusterIdx < length xs"
  obtains i where "walk_start f clusterIdx = (i, xs ! unat i)" "unat i + unat (clusterIdx - i) = unat clusterIdx"
proof (cases "clusterIdx \<noteq> 0 \<and> clusterIdx = ClusterIdx (last_fat_lookup f) + 1")
  case True
  let ?l = "ClusterIdx (last_fat_lookup f)"
  have "?l \<noteq> 0xFFFFFFFF" using True by auto
  then have "unat ?l < length xs" "CurrentCluster (last_fat_lookup f) = xs ! unat ?l" using l by (auto simp: lookup_sound_def)
  moreover from this have "unat (?l + 1) = unat ?l + 1"
    using unat_add_lem [of ?l 1] chain_sound_length [OF c] by simp
  then have "unat (clusterIdx - ?l) = 1" "unat clusterIdx = unat ?l + 1" using True by simp_all
  ultimately have "walk_start f clusterIdx = (?l, xs ! unat ?l)" "unat ?l + unat (clusterIdx - ?l) = unat clusterIdx"
    unfolding walk_start_def if_P [OF True] by simp_all
  then show ?thesis by (rule that)
next
  case False
  have "startcluster f = xs ! 0" using c i by (cases xs) (auto simp: chain_sound_def)
  then show ?thesis using that [of 0] False by (simp add: walk_start_def)
qed

lemma file_cluster_lemma:
  assumes ok: "device_ok rd wr sectors valid" and fi: "finv fs" and c: "chain_sound disk sectors fs (startcluster f) xs"
    and m: "cache_sound f xs" "lookup_sound f xs" and i: "unat clusterIdx < length xs"
  shows "\<exists>f' fs'. file_cluster fs f clusterIdx = Some (xs ! unat clusterIdx, f', fs') \<and> walk_frame f f'
    \<and> cache_sound f' xs \<and> lookup_sound f' xs \<and> finv fs' \<and> fat_frame fs fs' \<and> vsame fs fs'"
proof (cases "clusterIdx = ClusterIdx (last_fat_lookup f)")
  case True
  have "clusterIdx \<noteq> 0xFFFFFFFF" using i chain_sound_length [OF c] by auto
  then have "CurrentCluster (last_fat_lookup f) = xs ! unat clusterIdx"
    using m(2) True by (auto simp: lookup_sound_def)
  then show ?thesis using True m fi by (simp add: file_cluster_def)
next
  case False
  obtain j where j: "walk_start f clusterIdx = (j, xs ! unat j)" "unat j + unat (clusterIdx - j) = unat clusterIdx"
    by (rule walk_start_lemma [OF c m(2) i])
  have "unat j + unat (clusterIdx - j) < length xs" using i j(2) by simp
  from read_walk_lemma [OF ok fi c m(1) this, unfolded j(2)]
  obtain f' fs' where f': "read_walk (unat (clusterIdx - j)) fs f j (xs ! unat j) = Some (xs ! unat clusterIdx, f', fs')"
    "walk_frame f f'" "cache_sound f' xs" "finv fs'" "fat_frame fs fs'" "vsame fs fs'"
    by blast
  have "xs ! unat clusterIdx \<in> set xs" using i by simp
  then have "xs ! unat clusterIdx \<noteq> FAT32_LAST_CLUSTER" using c cluster_chain_not_end unfolding chain_sound_def by blast
  moreover have "fatfs_cache_get_next_cluster (f'\<lparr>last_fat_lookup := l\<rparr>) = fatfs_cache_get_next_cluster f'" for l
    unfolding fatfs_cache_get_next_cluster_def Let_def by (simp cong: if_cong)
  then have "cache_sound (f'\<lparr>last_fat_lookup := l\<rparr>) xs" for l
    using f'(3) by (simp add: cache_sound_def)
  ultimately show ?thesis
    using False j(1) f' i walk_frame_trans [OF f'(2) walk_frame_set(2)]
    by (simp add: file_cluster_def lookup_sound_def)
qed

lemma read_sectors_lemma:
  assumes ok: "device_ok rd wr sectors valid" "reads_ok rd sectors valid"
    and fi: "finv fs" and c: "chain_sound disk sectors fs (startcluster f) xs"
    and m: "cache_sound f xs" "lookup_sound f xs" and off: "unat offset < length (chain_sectors fs xs)"
    and n: "count \<noteq> 0" "unat count < 2 ^ 31" "unat count * 512 \<le> length buf"
  defines "q \<equiv> min (unat count) (unat (sectors_per_cluster fs) - unat offset mod unat (sectors_per_cluster fs))"
  shows "\<exists>f' fs'. read_sectors fs f offset buf count = Some (word_of_nat q,
        concat (map (eff disk fs) (take q (drop (unat offset) (chain_sectors fs xs)))) @ drop (q * 512) buf, f', fs')
    \<and> walk_frame f f' \<and> cache_sound f' xs \<and> lookup_sound f' xs \<and> finv fs' \<and> io_frame fs fs' \<and> vsame fs fs'
    \<and> chain_sound disk sectors fs' (startcluster f) xs \<and> 0 < q \<and> q \<le> unat count
    \<and> unat offset + q \<le> length (chain_sectors fs xs)"
proof -
  let ?n = "unat (sectors_per_cluster fs)" and ?w = "ucast (sectors_per_cluster fs) :: u32"
  let ?ss = "chain_sectors fs xs"
  have n0: "0 < ?n" using c by (simp add: chain_sound_def unat_gt_0)
  have uw: "unat ?w = ?n" by (rule upcast_byte)
  then have w0: "?w \<noteq> 0" using n0 by auto
  have n8: "?n < 256" using unsigned_less [of "sectors_per_cluster fs"] by simp
  let ?q = "offset div ?w" and ?r = "offset - offset div ?w * ?w"
  have uq: "unat ?q = unat offset div ?n" by (simp add: unat_div uw)
  have ur: "unat ?r = unat offset mod ?n"
  proof -
    have "?r = offset mod ?w" using div_mult_mod_eq [of offset ?w] by (metis add_diff_cancel_left')
    then show ?thesis by (simp add: unat_mod uw)
  qed
  have rr: "word_of_nat (unat offset mod ?n) = ?r" unfolding ur [symmetric] by simp
  have rn: "unat offset mod ?n < ?n" using n0 by simp
  define k where "k = (if ?r + count > ?w then ?w - ?r else count)"
  have uk: "unat k = q"
  proof -
    have "unat (?r + count) = unat ?r + unat count"
      using unat_add_lem [of ?r count] n(2) ur rn n8 by simp
    then have "?r + count > ?w \<longleftrightarrow> unat offset mod ?n + unat count > ?n" by (simp add: word_less_nat_alt ur uw)
    moreover have "unat (?w - ?r) = ?n - unat offset mod ?n"
      using unat_sub [of ?r ?w] rn by (simp add: word_le_nat_alt ur uw)
    ultimately show ?thesis by (auto simp: k_def q_def)
  qed
  have q: "0 < q" "q \<le> unat count" "q \<le> ?n - unat offset mod ?n"
    using n(1) rn by (simp_all add: q_def unat_gt_0)
  have idx: "unat ?q < length xs"
    using off n0 unfolding uq length_chain_sectors by (simp add: less_mult_imp_div_less)
  obtain f1 fs1 where f1: "file_cluster fs f ?q = Some (xs ! unat ?q, f1, fs1)" "walk_frame f f1" "cache_sound f1 xs"
    "lookup_sound f1 xs" "finv fs1" "fat_frame fs fs1" "vsame fs fs1"
    using file_cluster_lemma [OF ok(1) fi c m idx] by blast
  have nl: "xs ! unat ?q \<noteq> FAT32_LAST_CLUSTER"
    using c idx cluster_chain_not_end nth_mem unfolding chain_sound_def by blast
  let ?lba = "fatfs_lba_of_cluster fs (xs ! unat ?q) + ?r"
  have bound: "unat offset + q \<le> length ?ss"
  proof -
    have "unat offset + q \<le> (unat offset div ?n + 1) * ?n"
    proof -
      have "unat offset div ?n * ?n + unat offset mod ?n = unat offset" by (rule div_mult_mod_eq)
      moreover have "(unat offset div ?n + 1) * ?n = unat offset div ?n * ?n + ?n" by simp
      ultimately show ?thesis using q(3) rn by linarith
    qed
    also have "\<dots> \<le> length xs * ?n" using idx unfolding uq by (intro mult_le_mono1) simp
    finally show ?thesis by (simp add: length_chain_sectors)
  qed
  have sec: "?ss ! (unat offset + i) = ?lba + word_of_nat i" if "i < q" for i
  proof -
    have r: "unat offset mod ?n + i < ?n" using that q(3) by simp
    have s: "unat offset + i = unat offset div ?n * ?n + (unat offset mod ?n + i)" by simp
    have dm: "(unat offset + i) div ?n = unat offset div ?n" "(unat offset + i) mod ?n = unat offset mod ?n + i"
      using r n0 by (subst s, simp only: div_mult_self3 mod_mult_self3, simp)+
    have "unat offset + i < length xs * ?n" using bound that by (simp add: length_chain_sectors)
    from chain_sectors_nth [OF this] show ?thesis
      unfolding dm uq of_nat_add rr by (simp only: add.assoc)
  qed
  have data: "data_sector sectors fs (?lba + word_of_nat i)" if "i < q" for i
  proof -
    have "?ss ! (unat offset + i) \<in> set ?ss" using bound that by (intro nth_mem) simp
    then show ?thesis using c sec [OF that] by (simp add: chain_sound_def)
  qed
  have sz: "sectors < 2 ^ 32" using fi by (simp add: fat_inv_def fat_geometry_def)
  have run: "i < q \<Longrightarrow> unat (?lba + word_of_nat i) = unat ?lba + i" for i
  proof (induction i)
    case (Suc i)
    have "unat (?lba + word_of_nat i) < sectors" using data [of i] Suc.prems by (simp add: data_sector_def)
    then have "unat (?lba + word_of_nat i) + 1 < 2 ^ 32" using sz by simp
    then have "unat (?lba + word_of_nat i + 1) = unat (?lba + word_of_nat i) + 1"
      using unat_add_lem [of "?lba + word_of_nat i" 1] by simp
    then show ?case using Suc by (simp add: ac_simps)
  qed simp
  have fit: "unat ?lba + unat k \<le> sectors"
  proof -
    have "unat (?lba + word_of_nat (q - 1)) < sectors" using data [of "q - 1"] q(1) by (simp add: data_sector_def)
    then show ?thesis using run [of "q - 1"] q(1) uk by simp
  qed
  have kb: "unat k * 512 \<le> length buf" using n(3) q(2) unfolding uk by (meson le_trans mult_le_mono1)
  have k0: "k \<noteq> 0" using uk q(1) by auto
  have v: "valid (medium fs1)" "read_media fs1 = Some rd" using f1(5) by (simp_all add: fat_inv_def)
  obtain buf' d okr where r: "rd ?lba buf k (medium fs1) = (okr, buf', d)" "valid d"
    "okr \<longrightarrow> buf' = sector_run disk (medium fs1) ?lba (unat k) @ drop (unat k * 512) buf"
    "\<forall>t. unat t < sectors \<longrightarrow> disk d t = disk (medium fs1) t"
    using read_run [OF v(1) k0 fit kb] by blast
  have "okr" using ok(2) v(1) k0 fit kb r(1) unfolding reads_ok_def by fastforce
  note fr1 = io_frame_entries [OF fat_io_frame [OF f1(6)]] io_frame_fields [OF fat_io_frame [OF f1(6)]]
  have eff: "disk (medium fs1) (?lba + word_of_nat i) = eff disk fs (?ss ! (unat offset + i))" if "i < q" for i
  proof -
    have "data_sector sectors fs1 (?lba + word_of_nat i)" using data [OF that] unfolding fr1 .
    from data_sector_eff [OF f1(5) this] show ?thesis
      using f1(7) data [OF that] sec [OF that] by (simp add: same_view_def data_sector_def)
  qed
  have "take q (drop (unat offset) ?ss) = map (\<lambda>i. ?ss ! (unat offset + i)) [0..<q]"
    using bound by (intro nth_equalityI) simp_all
  then have buf: "buf' = concat (map (eff disk fs) (take q (drop (unat offset) ?ss))) @ drop (q * 512) buf"
    using r(3) \<open>okr\<close> eff unfolding sector_run_def uk by (auto intro!: arg_cong [where f = concat])
  let ?fs = "fs1\<lparr>medium := d\<rparr>"
  have fs: "fs1\<lparr>currentsector := currentsector fs1, medium := d\<rparr> = ?fs" by simp
  have "finv ?fs"
    using finv_medium [OF f1(5) r(2), of "currentsector fs1"] r(4) fat_sector_range(1) [OF f1(5)] unfolding fs by blast
  moreover have "fat_frame fs1 ?fs"
    unfolding fat_frame_def by (intro exI [of _ "fat_chain fs1"] exI [of _ d]) simp
  moreover have "vsame fs1 ?fs" using r(4) by (simp add: same_view_def eff_def)
  ultimately have fin: "finv ?fs" "fat_frame fs ?fs" "vsame fs ?fs"
    using fat_frame_trans [OF f1(6)] same_view_trans [OF f1(7)] by blast+
  have "read_sectors fs f offset buf count = Some (k, buf', f1, ?fs)"
    using w0 f1(1) nl v(2) r(1) \<open>okr\<close> fr1
    by (simp add: read_sectors_def Let_def fatfs_sector_read_def k_def [symmetric])
  moreover have "k = word_of_nat q" unfolding uk [symmetric] by simp
  ultimately show ?thesis
    using buf f1(2-4) fin fat_io_frame [OF fin(2)] chain_sound_frame [OF c fi fin(2,3)] q(1,2) bound
    by (intro exI [of _ f1] exI [of _ ?fs]) simp
qed

end

subsection \<open>The loop of the reader\<close>

lemma file_at_put [simp]: "h < length (files fg) \<Longrightarrow> file_at (put_file h f fg) h = f"
  "fg_fs (put_file h f fg) = fg_fs fg" "length (files (put_file h f fg)) = length (files fg)"
  "file_at (fg\<lparr>fg_fs := fs\<rparr>) h = file_at fg h" "put_file h f (put_file h g fg) = put_file h f fg"
  by (simp_all add: file_at_def put_file_def)

text \<open>Only one file and the file system change.\<close>

definition file_frame :: "nat \<Rightarrow> 'd FL_GLOBAL \<Rightarrow> 'd FL_GLOBAL \<Rightarrow> bool" where
  "file_frame h fg fg' \<longleftrightarrow> (\<exists>f fs. fg' = put_file h f (fg\<lparr>fg_fs := fs\<rparr>))"

lemma file_frame_refl [simp]: "file_frame h fg fg"
  unfolding file_frame_def by (intro exI [of _ "file_at fg h"] exI [of _ "fg_fs fg"]) (simp add: put_file_def file_at_def)

lemma file_frame_trans: "file_frame h fg fg' \<Longrightarrow> file_frame h fg' fg'' \<Longrightarrow> file_frame h fg fg''"
  unfolding file_frame_def put_file_def by (elim exE, hypsubst, intro exI) simp

lemma file_frame_put: "file_frame h fg (put_file h f (fg\<lparr>fg_fs := fs\<rparr>))" "file_frame h fg (put_file h f fg)"
proof -
  show "file_frame h fg (put_file h f (fg\<lparr>fg_fs := fs\<rparr>))" unfolding file_frame_def by blast
  show "file_frame h fg (put_file h f fg)"
    unfolding file_frame_def by (intro exI [of _ f] exI [of _ "fg_fs fg"]) (simp add: put_file_def)
qed

text \<open>An open file that is sound, and whose length its chain can hold.\<close>

definition readable_file :: "'d diskio_read \<Rightarrow> 'd diskio_write \<Rightarrow> ('d \<Rightarrow> u32 \<Rightarrow> byte list) \<Rightarrow> nat \<Rightarrow> ('d \<Rightarrow> bool)
    \<Rightarrow> 'd FL_GLOBAL \<Rightarrow> nat \<Rightarrow> u32 list \<Rightarrow> bool" where
  "readable_file rd wr disk n valid fg h xs \<longleftrightarrow> h < length (files fg) \<and> fat_inv rd wr disk n valid (fg_fs fg)
     \<and> chain_sound disk n (fg_fs fg) (startcluster (file_at fg h)) xs
     \<and> file_memory disk (fg_fs fg) (file_at fg h) xs
     \<and> unat (filelength (file_at fg h)) \<le> length (file_content disk (fg_fs fg) xs)"

lemma length_concat_map: "\<forall>s \<in> set ss. length (g s) = n \<Longrightarrow> length (concat (map g ss)) = length ss * n"
  by (induction ss) auto

lemma concat_run:
  assumes "\<forall>s \<in> set ss. length (g s) = n" "i + q \<le> length ss"
  shows "mem_read (i * n) (q * n) (concat (map g ss)) = concat (map g (take q (drop i ss)))"
proof -
  have s: "ss = take i ss @ take q (drop i ss) @ drop (i + q) ss"
    by (metis append_take_drop_id drop_drop add.commute)
  have sub: "\<forall>s \<in> set (take i ss). length (g s) = n" "\<forall>s \<in> set (take q (drop i ss)). length (g s) = n"
    using assms(1) by (auto dest: in_set_takeD in_set_dropD)
  have "length (concat (map g (take i ss))) = i * n" "length (concat (map g (take q (drop i ss)))) = q * n"
    using length_concat_map [OF sub(1)] length_concat_map [OF sub(2)] assms(2) by simp_all
  then show ?thesis by (subst s) (simp add: mem_read_def)
qed

lemma mem_read_add: "mem_read p (a + b) m = mem_read p a m @ mem_read (p + a) b m"
  by (simp add: mem_read_def take_add add.commute)

context run_device
begin

abbreviation "readable \<equiv> readable_file rd wr disk sectors valid"

lemma readable_facts:
  assumes "readable fg h xs"
  shows "h < length (files fg)" "finv (fg_fs fg)" "chain_sound disk sectors (fg_fs fg) (startcluster (file_at fg h)) xs"
    "cache_sound (file_at fg h) xs" "lookup_sound (file_at fg h) xs" "length (file_data_sector (file_at fg h)) = 512"
    "\<not> file_data_dirty (file_at fg h)"
    "unat (file_data_address (file_at fg h)) < length (chain_sectors (fg_fs fg) xs) \<Longrightarrow>
      file_data_sector (file_at fg h) = eff disk (fg_fs fg) (chain_sectors (fg_fs fg) xs ! unat (file_data_address (file_at fg h)))"
    "\<forall>s \<in> set (chain_sectors (fg_fs fg) xs). length (eff disk (fg_fs fg) s) = 512"
    "length (file_content disk (fg_fs fg) xs) = length (chain_sectors (fg_fs fg) xs) * 512"
    "unat (filelength (file_at fg h)) \<le> length (file_content disk (fg_fs fg) xs)"
proof -
  show fi: "finv (fg_fs fg)" and c: "chain_sound disk sectors (fg_fs fg) (startcluster (file_at fg h)) xs"
    using assms by (simp_all add: readable_file_def)
  show e: "\<forall>s \<in> set (chain_sectors (fg_fs fg) xs). length (eff disk (fg_fs fg) s) = 512"
    using c eff_length [OF fi] by (auto simp: chain_sound_def data_sector_def)
  then show "length (file_content disk (fg_fs fg) xs) = length (chain_sectors (fg_fs fg) xs) * 512"
    unfolding file_content_def by (rule length_concat_map)
qed (use assms in \<open>auto simp: readable_file_def file_memory_def\<close>)

text \<open>The chain and the contents are the same in every state with the same view of the medium.\<close>

lemma same_content:
  assumes "chain_sound disk sectors fs c xs" "io_frame fs fs'" "vsame fs fs'"
  shows "chain_sectors fs' xs = chain_sectors fs xs" "file_content disk fs' xs = file_content disk fs xs"
    "\<forall>s \<in> set (chain_sectors fs xs). eff disk fs' s = eff disk fs s"
proof -
  note fr = io_frame_entries [OF assms(2)] io_frame_fields [OF assms(2)]
  show s: "chain_sectors fs' xs = chain_sectors fs xs" using fr by (simp add: chain_sectors_def)
  show e: "\<forall>s \<in> set (chain_sectors fs xs). eff disk fs' s = eff disk fs s"
    using assms(1,3) by (auto simp: chain_sound_def data_sector_def same_view_def)
  show "file_content disk fs' xs = file_content disk fs xs"
    unfolding file_content_def s using e by (auto intro!: arg_cong [where f = concat])
qed

lemma readable_after:
  assumes r: "readable fg h xs" and f: "read_frame (file_at fg h) f" "cache_sound f xs" "lookup_sound f xs"
    and fs: "finv fs" "io_frame (fg_fs fg) fs" "vsame (fg_fs fg) fs" "chain_sound disk sectors fs (startcluster (file_at fg h)) xs"
    and d: "length (file_data_sector f) = 512" "\<not> file_data_dirty f"
      "unat (file_data_address f) < length (chain_sectors (fg_fs fg) xs) \<Longrightarrow>
        file_data_sector f = eff disk (fg_fs fg) (chain_sectors (fg_fs fg) xs ! unat (file_data_address f))"
  shows "readable (put_file h f (fg\<lparr>fg_fs := fs\<rparr>)) h xs"
proof -
  note rf = readable_facts [OF r]
  note sc = same_content [OF rf(3) fs(2,3)]
  have h: "h < length (files (fg\<lparr>fg_fs := fs\<rparr>))" using rf(1) by simp
  have "startcluster f = startcluster (file_at fg h)" "filelength f = filelength (file_at fg h)"
    using f(1) by (simp_all add: read_frame_def)
  moreover have "file_data_sector f = eff disk fs (chain_sectors fs xs ! unat (file_data_address f))"
    if "unat (file_data_address f) < length (chain_sectors fs xs)"
    using that d(3) sc nth_mem by (metis (no_types, lifting))
  ultimately show ?thesis
    using rf(1,11) f fs d(1,2) sc(2) unfolding readable_file_def file_at_put(1) [OF h] by (simp add: file_memory_def)
qed

end

context run_device
begin

lemma load_sector_read:
  assumes ok: "device_ok rd wr sectors valid" "reads_ok rd sectors valid" and r: "readable fg h xs"
    and s: "unat sector < length (chain_sectors (fg_fs fg) xs)"
  shows "\<exists>fg'. load_sector fg h sector = Some (True, fg') \<and> readable fg' h xs \<and> file_frame h fg fg'
    \<and> read_frame (file_at fg h) (file_at fg' h) \<and> bytenum (file_at fg' h) = bytenum (file_at fg h)
    \<and> io_frame (fg_fs fg) (fg_fs fg') \<and> vsame (fg_fs fg) (fg_fs fg')
    \<and> file_data_sector (file_at fg' h) = eff disk (fg_fs fg) (chain_sectors (fg_fs fg) xs ! unat sector)"
proof -
  note rf = readable_facts [OF r]
  show ?thesis
  proof (cases "file_data_address (file_at fg h) = sector")
    case True
    then show ?thesis using r rf(8) s by (simp add: load_sector_def)
  next
    case False
    let ?f = "file_at fg h" and ?ss = "chain_sectors (fg_fs fg) xs"
    have one: "(1 :: u32) \<noteq> 0" "unat (1 :: u32) < 2 ^ 31" "unat (1 :: u32) * 512 \<le> length (file_data_sector ?f)"
      using rf(6) by simp_all
    define q where "q = min (unat (1 :: u32)) (unat (sectors_per_cluster (fg_fs fg)) - unat sector mod unat (sectors_per_cluster (fg_fs fg)))"
    obtain f' fs' where f': "read_sectors (fg_fs fg) ?f sector (file_data_sector ?f) 1 = Some (word_of_nat q,
          concat (map (eff disk (fg_fs fg)) (take q (drop (unat sector) ?ss))) @ drop (q * 512) (file_data_sector ?f), f', fs')"
      "walk_frame ?f f'" "cache_sound f' xs" "lookup_sound f' xs" "finv fs'" "io_frame (fg_fs fg) fs'" "vsame (fg_fs fg) fs'"
      "chain_sound disk sectors fs' (startcluster ?f) xs" "0 < q" "q \<le> unat (1 :: u32)"
      using read_sectors_lemma [OF ok rf(2-5) s one, folded q_def] by blast
    have q: "q = 1" using f'(9,10) by simp
    have "take 1 (drop (unat sector) ?ss) = [?ss ! unat sector]"
      using s by (simp flip: Cons_nth_drop_Suc)
    then have buf: "concat (map (eff disk (fg_fs fg)) (take q (drop (unat sector) ?ss))) @ drop (q * 512) (file_data_sector ?f)
        = eff disk (fg_fs fg) (?ss ! unat sector)"
      using q rf(6) by simp
    let ?g = "f'\<lparr>file_data_sector := eff disk (fg_fs fg) (?ss ! unat sector), file_data_address := sector, file_data_dirty := False\<rparr>"
    let ?fg = "put_file h ?g (fg\<lparr>fg_fs := fs'\<rparr>)"
    have "load_sector fg h sector = Some (True, ?fg)"
      using False rf(7) f'(1) buf q by (simp add: load_sector_def)
    moreover have "read_frame ?f ?g" "bytenum ?g = bytenum ?f"
      using walk_frame_fields [OF f'(2)] by (simp_all add: read_frame_def)
    moreover have "readable ?fg h xs"
    proof (rule readable_after [OF r \<open>read_frame ?f ?g\<close> _ _ f'(5-8)])
      show "cache_sound ?g xs" "lookup_sound ?g xs"
        using f'(3,4) by (simp_all add: cache_sound_def lookup_sound_def fatfs_cache_get_next_cluster_def Let_def cong: if_cong)
      show "length (file_data_sector ?g) = 512" using rf(9) s by simp
    qed simp_all
    ultimately show ?thesis
      using f'(6,7) rf(1) file_frame_put(1) by (intro exI [of _ ?fg]) simp
  qed
qed

end

context run_device
begin

text \<open>
  One round either takes whole sectors straight into the buffer, or the rest of one sector: \<open>q\<close> bytes
  of the contents from the place of the next byte. The rounds that follow fill the rest.
\<close>

lemma read_loop_lemma:
  assumes ok: "device_ok rd wr sectors valid" "reads_ok rd sectors valid"
  shows "readable fg h xs \<Longrightarrow> m \<le> K \<Longrightarrow> K \<le> length buffer \<Longrightarrow> K < 2 ^ 31 \<Longrightarrow> unat offset < 512 \<Longrightarrow>
    (m < K \<longrightarrow> unat sector * 512 + unat offset = unat (bytenum (file_at fg h))) \<Longrightarrow>
    unat (bytenum (file_at fg h)) + (K - m) \<le> unat (filelength (file_at fg h)) \<Longrightarrow>
    \<exists>fg'. read_loop fg h sector offset buffer (int m) (int K) = Some (int K,
        mem_write m (mem_read (unat (bytenum (file_at fg h))) (K - m) (file_content disk (fg_fs fg) xs)) buffer, fg')
      \<and> readable fg' h xs \<and> file_frame h fg fg' \<and> read_frame (file_at fg h) (file_at fg' h)
      \<and> unat (bytenum (file_at fg' h)) = unat (bytenum (file_at fg h)) + (K - m)
      \<and> io_frame (fg_fs fg) (fg_fs fg') \<and> vsame (fg_fs fg) (fg_fs fg')"
proof (induction "K - m" arbitrary: m fg sector offset buffer rule: less_induct)
  case less
  note r = less.prems(1)
  note rf = readable_facts [OF r]
  let ?f = "file_at fg h" and ?ss = "chain_sectors (fg_fs fg) xs" and ?C = "file_content disk (fg_fs fg) xs"
  let ?p = "unat (bytenum ?f)"
  show ?case
  proof (cases "m < K")
    case False
    then have "read_loop fg h sector offset buffer (int m) (int K) = Some (int K, buffer, fg)"
      using less.prems(2) by (subst read_loop.simps) simp
    then show ?thesis using r False by (simp add: mem_read_def)
  next
    case mK: True
    then have p: "?p = unat sector * 512 + unat offset" using less.prems(6) by simp
    have pl: "?p + (K - m) \<le> length ?C" using less.prems(7) rf(11) by linarith
    then have pl': "?p + (K - m) \<le> length ?ss * 512" by (simp only: rf(10))
    have s: "unat sector < length ?ss" using pl' p mK by linarith
    have p32: "?p + (K - m) < 2 ^ 32"
    proof -
      have "unat (filelength ?f) < 2 ^ LENGTH(32)" by (rule unsigned_less)
      then show ?thesis using less.prems(7) by simp
    qed
    text \<open>What the remaining rounds make of a state after \<open>q\<close> bytes.\<close>
    have rest: "\<exists>fg'. read_loop fg1 h sector1 0 (mem_write m (mem_read ?p q ?C) buffer) (int (m + q)) (int K) = Some (int K,
        mem_write m (mem_read ?p (K - m) ?C) buffer, fg')
      \<and> readable fg' h xs \<and> file_frame h fg fg' \<and> read_frame ?f (file_at fg' h)
      \<and> unat (bytenum (file_at fg' h)) = ?p + (K - m)
      \<and> io_frame (fg_fs fg) (fg_fs fg') \<and> vsame (fg_fs fg) (fg_fs fg')"
      if q: "0 < q" "m + q \<le> K" and s1: "m + q < K \<longrightarrow> unat sector1 * 512 = ?p + q"
        and f1: "readable fg1 h xs" "file_frame h fg fg1" "read_frame ?f (file_at fg1 h)"
          "bytenum (file_at fg1 h) = bytenum ?f + word_of_nat q" "io_frame (fg_fs fg) (fg_fs fg1)" "vsame (fg_fs fg) (fg_fs fg1)"
      for q fg1 sector1
    proof -
      have C: "file_content disk (fg_fs fg1) xs = ?C" using same_content(2) [OF rf(3) f1(5,6)] .
      have u: "unat (bytenum (file_at fg1 h)) = ?p + q"
      proof -
        have "?p + q < 2 ^ 32" using p32 q by linarith
        then show ?thesis using unat_add_lem [of "bytenum ?f" "word_of_nat q"] f1(4) by simp
      qed
      have lq: "length (mem_read ?p q ?C) = q" using pl q(2) by simp
      have fit: "m + length (mem_read ?p q ?C) \<le> length buffer" using lq q(2) less.prems(3) by simp
      have room: "unat (bytenum (file_at fg1 h)) + (K - (m + q)) \<le> unat (filelength (file_at fg1 h))"
        using u q(2) less.prems(7) f1(3) by (simp add: read_frame_def)
      have place: "m + q < K \<longrightarrow> unat sector1 * 512 + unat (0 :: u32) = unat (bytenum (file_at fg1 h))"
        using s1 u by simp
      have dec: "K - (m + q) < K - m" using q by simp
      have lb: "K \<le> length (mem_write m (mem_read ?p q ?C) buffer)" using fit less.prems(3) by simp
      have o0: "unat (0 :: u32) < 512" by simp
      obtain fg' where g: "read_loop fg1 h sector1 0 (mem_write m (mem_read ?p q ?C) buffer) (int (m + q)) (int K) = Some (int K,
          mem_write (m + q) (mem_read (?p + q) (K - (m + q)) ?C) (mem_write m (mem_read ?p q ?C) buffer), fg')"
        "readable fg' h xs" "file_frame h fg1 fg'" "read_frame (file_at fg1 h) (file_at fg' h)"
        "unat (bytenum (file_at fg' h)) = ?p + q + (K - (m + q))"
        "io_frame (fg_fs fg1) (fg_fs fg')" "vsame (fg_fs fg1) (fg_fs fg')"
        using less.hyps [OF dec f1(1) q(2) lb less.prems(4) o0 place room] unfolding u C by blast
      have "q + (K - (m + q)) = K - m" using q(2) by simp
      then have rd: "mem_read ?p (K - m) ?C = mem_read ?p q ?C @ mem_read (?p + q) (K - (m + q)) ?C"
        using mem_read_add [of ?p q "K - (m + q)" ?C] by simp
      have "length (mem_read (?p + q) (K - (m + q)) ?C) = K - (m + q)" using pl q(2) by simp
      then have "m + length (mem_read ?p q ?C) + length (mem_read (?p + q) (K - (m + q)) ?C) \<le> length buffer"
        using lq q(2) less.prems(3) by simp
      from mem_write_append [OF this]
      have "mem_write (m + q) (mem_read (?p + q) (K - (m + q)) ?C) (mem_write m (mem_read ?p q ?C) buffer)
          = mem_write m (mem_read ?p (K - m) ?C) buffer"
        unfolding rd lq .
      then show ?thesis
        using g q(2) file_frame_trans [OF f1(2) g(3)] read_frame_trans [OF f1(3) g(4)]
          io_frame_trans [OF f1(5) g(6)] same_view_trans [OF f1(6) g(7)] by simp
    qed
    show ?thesis
    proof (cases "offset = 0 \<and> int K - int m \<ge> 512")
      case True
      define cnt where "cnt = (word_of_int ((int K - int m) sdiv 512) :: u32)"
      have "(int K - int m) sdiv 512 = int ((K - m) div 512)"
        using mK by (simp add: signed_divide_int_def zdiv_int of_nat_diff)
      then have cw: "cnt = word_of_nat ((K - m) div 512)" by (simp add: cnt_def)
      have b: "(K - m) div 512 < 2 ^ 31" using less.prems(4) div_le_dividend [of "K - m" 512] by linarith
      have uc: "unat cnt = (K - m) div 512"
        unfolding cw using b by (intro unat_word_of_nat) simp
      have c1: "1 \<le> (K - m) div 512" using True by linarith
      then have c0: "cnt \<noteq> 0" using uc by auto
      have cb: "unat cnt * 512 \<le> length (drop m buffer)"
        using less.prems(3) div_times_less_eq_dividend [of "K - m" 512] unfolding uc by simp
      define q where "q = min (unat cnt) (unat (sectors_per_cluster (fg_fs fg)) - unat sector mod unat (sectors_per_cluster (fg_fs fg)))"
      obtain f' fs' where f': "read_sectors (fg_fs fg) ?f sector (drop m buffer) cnt = Some (word_of_nat q,
            concat (map (eff disk (fg_fs fg)) (take q (drop (unat sector) ?ss))) @ drop (q * 512) (drop m buffer), f', fs')"
        "walk_frame ?f f'" "cache_sound f' xs" "lookup_sound f' xs" "finv fs'" "io_frame (fg_fs fg) fs'" "vsame (fg_fs fg) fs'"
        "chain_sound disk sectors fs' (startcluster ?f) xs" "0 < q" "q \<le> unat cnt" "unat sector + q \<le> length ?ss"
        using read_sectors_lemma [OF ok rf(2-5) s c0 _ cb, folded q_def] b uc by auto
      have q512: "q * 512 \<le> K - m" using f'(10) uc div_times_less_eq_dividend [of "K - m" 512] by linarith
      have q32: "q < 2 ^ 31" using f'(10) uc b by linarith
      have run: "concat (map (eff disk (fg_fs fg)) (take q (drop (unat sector) ?ss))) = mem_read ?p (q * 512) ?C"
        using concat_run [OF rf(9) f'(11)] p True by (simp add: file_content_def)
      have buf: "take m buffer @ mem_read ?p (q * 512) ?C @ drop (q * 512 + m) buffer = mem_write m (mem_read ?p (q * 512) ?C) buffer"
        using pl q512 by (simp add: mem_write_def add.commute)
      have qw: "(word_of_nat q :: u32) \<noteq> 0"
      proof -
        have "unat (word_of_nat q :: u32) = q" using q32 by (intro unat_word_of_nat) simp
        then show ?thesis using f'(9) by auto
      qed
      have copy: "sint (512 * (word_of_nat q :: u32)) = int (q * 512)"
      proof -
        have "512 * (word_of_nat q :: u32) = word_of_nat (q * 512)" by simp
        moreover have "sint (word_of_nat (q * 512) :: u32) = int (q * 512)"
        proof -
          have "q * 512 < 2 ^ 31" using q512 less.prems(4) by linarith
          then show ?thesis
            unfolding signed_of_nat by (simp add: signed_take_bit_int_eq_self del: of_nat_mult)
        qed
        ultimately show ?thesis by (simp add: mult.commute)
      qed
      let ?f1 = "f'\<lparr>bytenum := bytenum f' + word_of_nat (q * 512)\<rparr>"
      let ?fg1 = "put_file h ?f1 (fg\<lparr>fg_fs := fs'\<rparr>)"
      have step: "read_loop fg h sector offset buffer (int m) (int K)
          = read_loop ?fg1 h (sector + word_of_nat q) 0 (mem_write m (mem_read ?p (q * 512) ?C) buffer) (int (m + q * 512)) (int K)"
        using mK True f'(1) qw copy by (subst read_loop.simps) (simp add: cnt_def [symmetric] run buf)
      have wf: "read_frame ?f f'" "bytenum f' = bytenum ?f" "file_data_sector f' = file_data_sector ?f"
        "file_data_address f' = file_data_address ?f" "file_data_dirty f' = file_data_dirty ?f"
        using walk_frame_fields [OF f'(2)] by simp_all
      have fr: "read_frame ?f ?f1" using wf(1) by (simp add: read_frame_def)
      have r1: "readable ?fg1 h xs"
      proof (rule readable_after [OF r fr _ _ f'(5-8)])
        show "cache_sound ?f1 xs" "lookup_sound ?f1 xs"
          using f'(3,4) by (simp_all add: cache_sound_def lookup_sound_def fatfs_cache_get_next_cluster_def Let_def cong: if_cong)
      qed (use wf rf(6,7,8) in simp_all)
      have "unat (sector + word_of_nat q) = unat sector + q" if "m + q * 512 < K"
      proof -
        have "unat sector + q < 2 ^ 32" using p p32 that by simp
        then show ?thesis using unat_add_lem [of sector "word_of_nat q"] q32 by simp
      qed
      then have s1: "m + q * 512 < K \<longrightarrow> unat (sector + word_of_nat q) * 512 = ?p + q * 512"
        using p True by auto
      show ?thesis
        unfolding step
        by (rule rest [OF _ _ s1 r1]) (use f'(6,7,9) q512 mK fr wf(2) rf(1) file_frame_put(1) in auto)
    next
      case False
      define q where "q = min (512 - unat offset) (K - m)"
      have q: "0 < q" "m + q \<le> K" "unat offset + q \<le> 512" using less.prems(5) mK by (simp_all add: q_def)
      have copy: "min (512 - uint offset) (int K - int m) = int q"
      proof -
        have "uint offset = int (unat offset)" by simp
        then show ?thesis using less.prems(5) mK unfolding q_def by linarith
      qed
      obtain fg0 where f0: "load_sector fg h sector = Some (True, fg0)" "readable fg0 h xs" "file_frame h fg fg0"
        "read_frame ?f (file_at fg0 h)" "bytenum (file_at fg0 h) = bytenum ?f" "io_frame (fg_fs fg) (fg_fs fg0)" "vsame (fg_fs fg) (fg_fs fg0)"
        "file_data_sector (file_at fg0 h) = eff disk (fg_fs fg) (?ss ! unat sector)"
        using load_sector_read [OF ok r s] by blast
      note r0 = readable_facts [OF f0(2)]
      have data: "mem_read (unat offset) q (eff disk (fg_fs fg) (?ss ! unat sector)) = mem_read ?p q ?C"
      proof -
        have "eff disk (fg_fs fg) (?ss ! unat sector) = mem_read (unat sector * 512) 512 ?C"
          using concat_run [OF rf(9), of "unat sector" 1] s by (simp add: file_content_def flip: Cons_nth_drop_Suc)
        then show ?thesis
          using q(3) p by (simp add: mem_read_def drop_take add.commute min_def)
      qed
      let ?f1 = "(file_at fg0 h)\<lparr>bytenum := bytenum (file_at fg0 h) + word_of_nat q\<rparr>"
      let ?fg1 = "put_file h ?f1 fg0"
      have step: "read_loop fg h sector offset buffer (int m) (int K)
          = read_loop ?fg1 h (sector + 1) 0 (mem_write m (mem_read ?p q ?C) buffer) (int (m + q)) (int K)"
        using mK False f0(1,8) copy data q(2) less.prems(3) by (subst read_loop.simps) (auto simp: Let_def)
      have fg0: "fg0\<lparr>fg_fs := fg_fs fg0\<rparr> = fg0" by simp
      have "readable (put_file h ?f1 (fg0\<lparr>fg_fs := fg_fs fg0\<rparr>)) h xs"
      proof (rule readable_after [OF f0(2) _ _ _ r0(2) io_frame_refl _ r0(3)])
        show "cache_sound ?f1 xs" "lookup_sound ?f1 xs"
          using r0(4,5) by (simp_all add: cache_sound_def lookup_sound_def fatfs_cache_get_next_cluster_def Let_def cong: if_cong)
      qed (use r0(6,7,8) in \<open>simp_all add: read_frame_def same_view_def\<close>)
      then have r1: "readable ?fg1 h xs" unfolding fg0 .
      have "unat (sector + 1) * 512 = ?p + q" if "m + q < K"
      proof -
        have "q = 512 - unat offset" using that by (simp add: q_def min_def split: if_splits)
        then have "?p + q = (unat sector + 1) * 512" using p less.prems(5) by simp
        moreover have "unat sector + 1 < 2 ^ 32" using p32 p that calculation by simp
        ultimately show ?thesis using unat_add_lem [of sector 1] by simp
      qed
      then have s1: "m + q < K \<longrightarrow> unat (sector + 1) * 512 = ?p + q" by blast
      show ?thesis
        unfolding step
        by (rule rest [OF q(1,2) s1 r1 file_frame_trans [OF f0(3) file_frame_put(2)]])
          (use f0(4-7) r0(1) in \<open>simp_all add: read_frame_def\<close>)
    qed
  qed
qed

end

lemma fread_lemma:
  assumes "run_device rd wr disk n valid" and "device_ok rd wr n valid" and "reads_ok rd n valid"
    and "readable_file rd wr disk n valid fg h xs" and "filelib_init fg"
    and "file_flags (file_at fg h) AND FILE_READ \<noteq> 0" and "unat (filelength (file_at fg h)) < 2 ^ 31"
    and "0 < sz * cnt" and "sz * cnt < 2 ^ 31" and "nat (sz * cnt) \<le> length buf"
  shows "\<exists>fg'. fl_fread (Some buf) sz cnt (Some h) fg =
      (if bytenum (file_at fg h) < filelength (file_at fg h)
       then Some (int (min (nat (sz * cnt)) (unat (filelength (file_at fg h)) - unat (bytenum (file_at fg h)))),
         Some (mem_write 0 (mem_read (unat (bytenum (file_at fg h)))
           (min (nat (sz * cnt)) (unat (filelength (file_at fg h)) - unat (bytenum (file_at fg h))))
           (file_content disk (fg_fs fg) xs)) buf), fg')
       else Some (- 1, Some buf, fg'))
    \<and> readable_file rd wr disk n valid fg' h xs \<and> file_frame h fg fg' \<and> read_frame (file_at fg h) (file_at fg' h)
    \<and> unat (bytenum (file_at fg' h)) = unat (bytenum (file_at fg h))
      + min (nat (sz * cnt)) (unat (filelength (file_at fg h)) - unat (bytenum (file_at fg h)))
    \<and> same_view disk n (fg_fs fg) (fg_fs fg')"
proof (cases "bytenum (file_at fg h) < filelength (file_at fg h)")
  case False
  have nz: "sz \<noteq> 0" "cnt \<noteq> 0" using assms(8) by auto
  from False have "fl_fread (Some buf) sz cnt (Some h) fg = Some (- 1, Some buf, fg)"
    using assms(5,6,8,9) nz by (simp add: fl_fread_def c_int_def CHECK_FL_INIT_def Let_def not_less)
  moreover have "unat (filelength (file_at fg h)) - unat (bytenum (file_at fg h)) = 0"
    using False by (simp add: word_less_nat_alt)
  ultimately show ?thesis using False assms(4) by (intro exI [of _ fg]) (simp add: same_view_def)
next
  case True
  have nz: "sz \<noteq> 0" "cnt \<noteq> 0" using assms(8) by auto
  let ?f = "file_at fg h"
  let ?p = "unat (bytenum ?f)" and ?l = "unat (filelength ?f)"
  define K where "K = min (nat (sz * cnt)) (?l - ?p)"
  have pl: "?p < ?l" using True by (simp add: word_less_nat_alt)
  define c where "c = (if bytenum ?f + word_of_int (sz * cnt) > filelength ?f then sint (filelength ?f - bytenum ?f) else sz * cnt)"
  have "sz * cnt = int (nat (sz * cnt))" using assms(8) by simp
  then have w: "(word_of_int (sz * cnt) :: u32) = word_of_nat (nat (sz * cnt))" by (metis of_int_of_nat_eq)
  have uw: "unat (word_of_nat (nat (sz * cnt)) :: u32) = nat (sz * cnt)" using assms(9) by (intro unat_word_of_nat) simp
  have "nat (sz * cnt) < 2 ^ 31" using assms(9) by (simp add: nat_less_iff)
  then have "?p + nat (sz * cnt) < 2 ^ 31 + 2 ^ 31" using pl assms(7) by (intro add_strict_mono) simp_all
  then have "?p + nat (sz * cnt) < 2 ^ 32" by simp
  then have "unat (bytenum ?f + word_of_nat (nat (sz * cnt))) = ?p + nat (sz * cnt)"
    using unat_add_lem [of "bytenum ?f" "word_of_nat (nat (sz * cnt))"] uw by simp
  then have gt: "bytenum ?f + word_of_int (sz * cnt) > filelength ?f \<longleftrightarrow> ?l < ?p + nat (sz * cnt)"
    unfolding w by (simp add: word_less_nat_alt)
  have "unat (filelength ?f - bytenum ?f) = ?l - ?p"
    using pl by (simp add: unat_sub_if_size)
  then have "filelength ?f - bytenum ?f = word_of_nat (?l - ?p)" by (metis of_nat_unat ucast_id)
  moreover have "sint (word_of_nat (?l - ?p) :: u32) = int (?l - ?p)"
    using assms(7) unfolding signed_of_nat by (simp add: signed_take_bit_int_eq_self)
  ultimately have "sint (filelength ?f - bytenum ?f) = int (?l - ?p)" by simp
  then have c: "c = int K"
    using gt assms(8) by (auto simp: c_def K_def min_def)
  have K: "K \<le> length buf" "K < 2 ^ 31" "?p + (K - 0) \<le> ?l"
    using assms(9,10) pl by (auto simp: K_def)
  have o: "unat (bytenum ?f mod 512) < 512" by (simp add: unat_mod)
  have place: "0 < K \<longrightarrow> unat (bytenum ?f div 512) * 512 + unat (bytenum ?f mod 512) = ?p"
    by (simp add: unat_div unat_mod)
  obtain fg' where r: "read_loop fg h (bytenum ?f div 512) (bytenum ?f mod 512) buf (int 0) (int K)
      = Some (int K, mem_write 0 (mem_read ?p (K - 0) (file_content disk (fg_fs fg) xs)) buf, fg')"
    "readable_file rd wr disk n valid fg' h xs" "file_frame h fg fg'" "read_frame ?f (file_at fg' h)"
    "unat (bytenum (file_at fg' h)) = ?p + (K - 0)" "same_view disk n (fg_fs fg) (fg_fs fg')"
    using run_device.read_loop_lemma [OF assms(1-4) le0 K(1,2) o place K(3)] by blast
  have "fl_fread (Some buf) sz cnt (Some h) fg
      = Some (int K, Some (mem_write 0 (mem_read ?p K (file_content disk (fg_fs fg) xs)) buf), fg')"
    using True assms(5,6,8,9) r(1) c nz unfolding c_def
    by (simp add: fl_fread_def c_int_def CHECK_FL_INIT_def Let_def not_le)
  then show ?thesis using True r by (intro exI [of _ fg']) (simp add: K_def)
qed

subsection \<open>Properties\<close>

text \<open>
  C12: reading from an open file gives the bytes of the file from its current position on: as many as
  were asked for, or as are left before the end, whether they come sector by sector through the
  file's buffer or in runs of whole sectors, within clusters and across them. The position moves
  by that number, the file and the volume stay sound and unchanged, and only at the end of the file
  is the answer an error. Files of 2 GB or more are excluded: there the sum of the position and the
  count can wrap.
\<close>

theorem fl_fread_correct:
  assumes "run_device rd wr disk n valid" and "device_ok rd wr n valid" and "reads_ok rd n valid"
    and "readable_file rd wr disk n valid fg h xs" and "filelib_init fg"
    and "file_flags (file_at fg h) AND FILE_READ \<noteq> 0" and "unat (filelength (file_at fg h)) < 2 ^ 31"
    and "0 < sz * cnt" and "sz * cnt < 2 ^ 31" and "nat (sz * cnt) \<le> length buf"
  shows "\<exists>fg'. fl_fread (Some buf) sz cnt (Some h) fg =
      (if bytenum (file_at fg h) < filelength (file_at fg h)
       then Some (int (min (nat (sz * cnt)) (unat (filelength (file_at fg h)) - unat (bytenum (file_at fg h)))),
         Some (mem_write 0 (mem_read (unat (bytenum (file_at fg h)))
           (min (nat (sz * cnt)) (unat (filelength (file_at fg h)) - unat (bytenum (file_at fg h))))
           (file_content disk (fg_fs fg) xs)) buf), fg')
       else Some (- 1, Some buf, fg'))
    \<and> readable_file rd wr disk n valid fg' h xs \<and> file_frame h fg fg' \<and> read_frame (file_at fg h) (file_at fg' h)
    \<and> unat (bytenum (file_at fg' h)) = unat (bytenum (file_at fg h))
      + min (nat (sz * cnt)) (unat (filelength (file_at fg h)) - unat (bytenum (file_at fg h)))
    \<and> same_view disk n (fg_fs fg) (fg_fs fg')"
  by (rule fread_lemma [OF assms])

text \<open>The chain of clusters 2 and 3 of the sample volume, opened as a file of 600 bytes.\<close>

definition sample_file :: FL_FILE where
  "sample_file = \<lparr>parentcluster = 0, startcluster = 2, bytenum = 500, filelength = 600, filelength_changed = False,
     file_path = [], file_filename = ascii ''demo.bin'', shortfilename = ascii ''DEMO    BIN'',
     cluster_cache_idx = replicate 128 0xFFFFFFFF, cluster_cache_data = replicate 128 0,
     last_fat_lookup = no_lookup, file_data_sector = replicate 512 0, file_data_address = 0xFFFFFFFF,
     file_data_dirty = False, file_flags = FILE_READ\<rparr>"

definition sample_open :: "byte list FL_GLOBAL" where
  "sample_open = \<lparr>files = [sample_file], filelib_init = True, filelib_valid = True, fg_fs = sample_volume,
     open_file_list = (Some 0, Some 0), free_file_list = (None, None),
     list_nodes = \<lambda>_. \<lparr>previous = None, next_node = None\<rparr>, fl_lock = False, fl_unlock = False,
     lock_calls = 0, unlock_calls = 0\<rparr>"

lemma sample_readable:
  "readable_file fat_media_read fat_media_write file_sector 4 (file_valid 4) sample_open 0 [2, 3]"
proof -
  have c: "chain_sound file_sector 4 sample_volume 2 [2, 3]"
    using sample_chain by (simp add: chain_sound_def del: cluster_chain.simps)
  moreover have "file_memory file_sector sample_volume sample_file [2, 3]"
    by (rule fresh_memory [OF c]) (simp_all add: sample_file_def)
  moreover have "length (file_content file_sector sample_volume [2, 3]) = 1024"
    by (simp add: file_content_def sample_chain(3) sample_volume_eff sample_volume_sectors sample_entry_wf(2))
  ultimately show ?thesis
    using sample_volume_inv sample_chain(3)
    by (simp add: readable_file_def sample_open_def file_at_def) (simp add: sample_file_def)
qed

lemma file_reads_ok: "reads_ok fat_media_read n (file_valid n)"
  by (simp add: reads_ok_def fat_media_read_def Let_def)

theorem fl_fread_correct_witness:
  "\<exists>fg'. fl_fread (Some (replicate 200 7)) 2 100 (Some 0) sample_open
    = Some (100, Some (replicate 100 0 @ replicate 100 7), fg') \<and> bytenum (file_at fg' 0) = 600"
proof -
  let ?C = "file_content file_sector sample_volume [2, 3]"
  have f: "file_at sample_open 0 = sample_file" "fg_fs sample_open = sample_volume" "filelib_init sample_open"
    by (simp_all add: sample_open_def file_at_def)
  have "?C = (dir_entry_bytes sample_entry @ replicate 480 0) @ replicate 512 0"
    by (simp add: file_content_def sample_chain(3) sample_volume_eff sample_volume_sectors)
  then have "mem_read 500 100 ?C = replicate 100 0"
    by (simp add: mem_read_def sample_entry_wf(2) flip: replicate_add)
  then have w: "mem_write 0 (mem_read 500 100 ?C) (replicate 200 7) = replicate 100 0 @ replicate 100 7"
    by (simp add: mem_write_def)
  have sf: "bytenum sample_file = 500" "filelength sample_file = 600" "file_flags sample_file = FILE_READ"
    by (simp_all add: sample_file_def)
  obtain fg' where g: "fl_fread (Some (replicate 200 7)) 2 100 (Some 0) sample_open
      = Some (100, Some (mem_write 0 (mem_read 500 100 ?C) (replicate 200 7)), fg')" "unat (bytenum (file_at fg' 0)) = 600"
    using fl_fread_correct [OF file_runs.run_device_axioms file_device_ok file_reads_ok sample_readable f(3),
        of 2 100 "replicate 200 7"] unfolding f sf by auto
  have "bytenum (file_at fg' 0) = 600" using g(2) by (metis of_nat_numeral of_nat_unat ucast_id)
  then show ?thesis using g(1) unfolding w by blast
qed

end
