(* ===== verification/FatAdd.thy ===== *)
theory FatAdd
  imports FatWrite FatDirs
begin

section \<open>Adding an entry to a directory\<close>

text \<open>
  What \<open>fatfs_add_file_entry\<close> of \<open>fat_write.c\<close> does to a directory that has room: the search for free
  slots, the slots that are written sector by sector, and finding the file again.
\<close>

subsection \<open>The search for free slots\<close>

definition vacant :: "byte list \<Rightarrow> bool" where
  "vacant b \<longleftrightarrow> fatfs_entry_lfn_text (dir_entry_at b 0) \<or> b ! 0 = FILE_HEADER_DELETED \<or> b ! 0 = FILE_HEADER_BLANK"

text \<open>
  The search over the slots in a row: \<open>p\<close> is the place of the next slot and \<open>c\<close> the number of vacant
  slots before it. The result is the place of the first slot to use, or the count at the end.
\<close>

fun slot_run :: "nat \<Rightarrow> byte list list \<Rightarrow> nat \<Rightarrow> nat \<Rightarrow> nat + nat" where
  "slot_run need [] p c = Inr c"
| "slot_run need (b # bs) p c =
     (if fatfs_entry_lfn_text (dir_entry_at b 0) then slot_run need bs (Suc p) (Suc c)
      else if vacant b then if Suc c \<ge> need then Inl (p - c) else slot_run need bs (Suc p) (Suc c)
      else slot_run need bs (Suc p) 0)"

lemma slot_run_append:
  "slot_run need (xs @ ys) p c = (case slot_run need xs p c of Inl s \<Rightarrow> Inl s | Inr c \<Rightarrow> slot_run need ys (p + length xs) c)"
  by (induction xs arbitrary: p c) (simp_all split: sum.split)

lemma slot_run_spec:
  "slot_run need bs p c = Inl s \<Longrightarrow> c \<le> p \<Longrightarrow>
    \<exists>e \<le> length bs. s \<le> p + e \<and> need \<le> p + e - s \<and> (\<forall>i < e. s \<le> p + i \<longrightarrow> vacant (bs ! i))
      \<and> (s = p - c \<or> p < s \<and> \<not> vacant (bs ! (s - p - 1)))"
proof (induction bs arbitrary: p c)
  case (Cons b bs)
  have shift: "\<exists>e \<le> length (b # bs). s \<le> p + e \<and> need \<le> p + e - s \<and> (\<forall>i < e. s \<le> p + i \<longrightarrow> vacant ((b # bs) ! i))
      \<and> (s = p - c \<or> p < s \<and> \<not> vacant ((b # bs) ! (s - p - 1)))"
    if e: "e \<le> length bs" "s \<le> Suc p + e" "need \<le> Suc p + e - s" "\<forall>i < e. s \<le> Suc p + i \<longrightarrow> vacant (bs ! i)"
      and b: "s \<le> p \<longrightarrow> vacant b"
      and o: "s = p - c \<or> s = Suc p \<and> \<not> vacant b \<or> Suc p < s \<and> \<not> vacant (bs ! (s - Suc p - 1))" for e
  proof (intro exI [of _ "Suc e"] conjI)
    show "\<forall>i < Suc e. s \<le> p + i \<longrightarrow> vacant ((b # bs) ! i)"
      using e(4) b by (auto simp: nth_Cons split: nat.split)
    have "s - p - 1 = Suc (s - Suc p - 1)" if "Suc p < s" using that by simp
    then show "s = p - c \<or> p < s \<and> \<not> vacant ((b # bs) ! (s - p - 1))" using o by auto
  qed (use e in auto)
  show ?case
  proof (cases "fatfs_entry_lfn_text (dir_entry_at b 0) \<or> vacant b \<and> \<not> need \<le> Suc c")
    case True
    then have v: "vacant b" by (auto simp: vacant_def)
    then have r: "slot_run need bs (Suc p) (Suc c) = Inl s"
      using Cons.prems(1) True by (auto split: if_splits)
    obtain e where "e \<le> length bs" "s \<le> Suc p + e" "need \<le> Suc p + e - s" "\<forall>i < e. s \<le> Suc p + i \<longrightarrow> vacant (bs ! i)"
      "s = Suc p - Suc c \<or> Suc p < s \<and> \<not> vacant (bs ! (s - Suc p - 1))"
      using Cons.IH [OF r] Cons.prems(2) by auto
    then show ?thesis using v by (intro shift [of e]) auto
  next
    case False
    show ?thesis
    proof (cases "vacant b")
      case True
      then have "s = p - c" "need \<le> Suc c" using False Cons.prems(1) by auto
      then show ?thesis using True Cons.prems(2) by (intro exI [of _ 1]) auto
    next
      case nv: False
      then have r: "slot_run need bs (Suc p) 0 = Inl s" using False Cons.prems(1) by auto
      obtain e where "e \<le> length bs" "s \<le> Suc p + e" "need \<le> Suc p + e - s" "\<forall>i < e. s \<le> Suc p + i \<longrightarrow> vacant (bs ! i)"
        "s = Suc p - 0 \<or> Suc p < s \<and> \<not> vacant (bs ! (s - Suc p - 1))"
        using Cons.IH [OF r] by auto
      then show ?thesis using nv by (intro shift [of e]) auto
    qed
  qed
qed simp

text \<open>The state of the search after \<open>p\<close> slots.\<close>

definition search_at :: "slot_search \<Rightarrow> nat \<Rightarrow> nat \<Rightarrow> bool" where
  "search_at s p c \<longleftrightarrow> possible_spaces s = c \<and> c \<le> p
     \<and> (0 < c \<longrightarrow> pSector s = word_of_nat ((p - c) div 16) \<and> pOffset s = word_of_nat ((p - c) mod 16))"

lemma search_at_count:
  assumes "search_at s p c" "p = x * 16 + i" "i < 16"
  shows "search_at (count_slot (word_of_nat x) i s) (Suc p) (Suc c)"
  using assms by (cases c) (auto simp: search_at_def count_slot_def Let_def)

lemma scan_slots_run:
  assumes l: "length (fb_sector (currentsector fs)) = FAT_SECTOR_SIZE"
  shows "i \<le> 16 \<Longrightarrow> search_at s (x * 16 + i) c \<Longrightarrow>
    (case slot_run need (map (current_slot fs) [i..<16]) (x * 16 + i) c of
       Inl st \<Rightarrow> \<exists>s'. scan_slots fs need (word_of_nat x) [i..<16] s = (True, s')
         \<and> pSector s' = word_of_nat (st div 16) \<and> pOffset s' = word_of_nat (st mod 16)
     | Inr c' \<Rightarrow> \<exists>s'. scan_slots fs need (word_of_nat x) [i..<16] s = (False, s') \<and> search_at s' (x * 16 + 16) c')"
proof (induction "16 - i" arbitrary: i s c)
  case 0
  then show ?case by auto
next
  case (Suc d)
  then have i: "i < 16" by simp
  have up: "[i..<16] = i # [Suc i..<16]" using i by (rule upt_conv_Cons)
  have e: "current_entry fs i = dir_entry_at (current_slot fs i) 0" using current_entry_slot [OF l i] .
  have h: "fb_sector (currentsector fs) ! (FAT_DIR_ENTRY_SIZE * i) = current_slot fs i ! 0"
    using i l by (simp add: current_slot_def mem_read_def)
  have d: "d = 16 - Suc i" "Suc i \<le> 16" using Suc.hyps(2) i by simp_all
  have cs: "search_at (count_slot (word_of_nat x) i s) (x * 16 + Suc i) (Suc c)"
    using search_at_count [OF Suc.prems(2) refl i] by simp
  have rs: "search_at (s\<lparr>possible_spaces := 0, start_recorded := False\<rparr>) (x * 16 + Suc i) 0"
    by (simp add: search_at_def)
  note more = Suc.hyps(1) [OF d cs] Suc.hyps(1) [OF d rs]
  have res: "pSector (count_slot (word_of_nat x) i s) = word_of_nat ((x * 16 + i - c) div 16)"
    "pOffset (count_slot (word_of_nat x) i s) = word_of_nat ((x * 16 + i - c) mod 16)"
    "possible_spaces (count_slot (word_of_nat x) i s) = Suc c"
    using cs by (simp_all add: search_at_def)
  consider "fatfs_entry_lfn_text (dir_entry_at (current_slot fs i) 0)"
    | "\<not> fatfs_entry_lfn_text (dir_entry_at (current_slot fs i) 0)" "vacant (current_slot fs i)"
    | "\<not> vacant (current_slot fs i)" by blast
  then show ?case
  proof cases
    case 1
    have eq: "scan_slots fs need (word_of_nat x) [i..<16] s
        = scan_slots fs need (word_of_nat x) [Suc i..<16] (count_slot (word_of_nat x) i s)"
      "slot_run need (map (current_slot fs) [i..<16]) (x * 16 + i) c
        = slot_run need (map (current_slot fs) [Suc i..<16]) (x * 16 + Suc i) (Suc c)"
      using 1 by (simp_all add: up e h Let_def)
    show ?thesis unfolding eq by (rule more(1))
  next
    case 2
    then have v: "current_slot fs i ! 0 = FILE_HEADER_DELETED \<or> current_slot fs i ! 0 = FILE_HEADER_BLANK"
      by (simp add: vacant_def)
    show ?thesis
    proof (cases "need \<le> Suc c")
      case True
      then show ?thesis using 2 v res by (simp add: up e h Let_def)
    next
      case False
      have eq: "scan_slots fs need (word_of_nat x) [i..<16] s
          = scan_slots fs need (word_of_nat x) [Suc i..<16] (count_slot (word_of_nat x) i s)"
        "slot_run need (map (current_slot fs) [i..<16]) (x * 16 + i) c
          = slot_run need (map (current_slot fs) [Suc i..<16]) (x * 16 + Suc i) (Suc c)"
        using 2 v res(3) False by (simp_all add: up e h Let_def)
      show ?thesis unfolding eq by (rule more(1))
    qed
  next
    case 3
    have eq: "scan_slots fs need (word_of_nat x) [i..<16] s
        = scan_slots fs need (word_of_nat x) [Suc i..<16] (s\<lparr>possible_spaces := 0, start_recorded := False\<rparr>)"
      "slot_run need (map (current_slot fs) [i..<16]) (x * 16 + i) c
        = slot_run need (map (current_slot fs) [Suc i..<16]) (x * 16 + Suc i) 0"
      using 3 by (simp_all add: up e h Let_def vacant_def)
    show ?thesis unfolding eq by (rule more(2))
  qed
qed

context block_device
begin

lemma find_slots_run:
  assumes r: "readable_sectors rd wr disk sectors valid fs d ss" and l: "length ss < 2 ^ 32"
  shows "k \<le> length ss \<Longrightarrow> reading fs fs' \<Longrightarrow> search_at s (k * 16) c \<Longrightarrow>
    slot_run need (dir_slots disk fs (drop k ss)) (k * 16) c = Inl st \<Longrightarrow>
    \<exists>s' fs''. find_slots fs' d need (word_of_nat k) s = Some (True, s', fs'') \<and> reading fs fs''
      \<and> pSector s' = word_of_nat (st div 16) \<and> pOffset s' = word_of_nat (st mod 16)"
proof (induction "length ss - k" arbitrary: k fs' s c)
  case 0
  then show ?case by (simp add: dir_slots_def)
next
  case (Suc m)
  then have k: "k < length ss" by simp
  obtain f1 where f1: "fatfs_sector_reader fs' d (word_of_nat k) None = Some (True, None, f1)" "reading fs f1"
    "fb_sector (currentsector f1) = eff disk fs (ss ! k)"
    "length (fb_sector (currentsector f1)) = FAT_SECTOR_SIZE"
  proof (rule reader_step [OF r Suc.prems(2) less_imp_le [OF k] l])
    fix f assume f: "fatfs_sector_reader fs' d (word_of_nat k) None = Some (k < length ss, None, f)" "reading fs f"
      "k < length ss \<Longrightarrow> fb_address (currentsector f) = ss ! k"
      "k < length ss \<Longrightarrow> fb_sector (currentsector f) = eff disk fs (ss ! k)"
      "length (fb_sector (currentsector f)) = FAT_SECTOR_SIZE"
    show thesis by (rule that [OF _ f(2)]) (use f k in simp_all)
  qed
  let ?sl = "sector_slots (eff disk fs (ss ! k))"
  have sl: "map (current_slot f1) [0..<16] = ?sl" by (simp only: current_slots f1(3))
  have dr: "dir_slots disk fs (drop k ss) = ?sl @ dir_slots disk fs (drop (Suc k) ss)"
    using k by (simp add: dir_slots_def flip: Cons_nth_drop_Suc)
  note scan = scan_slots_run [OF f1(4) le0, of s k c need, unfolded add_0_right, OF Suc.prems(3), unfolded sl]
  show ?case
  proof (cases "slot_run need ?sl (k * 16) c")
    case (Inl st')
    then have "st' = st" using Suc.prems(4) by (simp add: dr slot_run_append)
    with scan Inl obtain s' where s': "scan_slots f1 need (word_of_nat k) [0..<16] s = (True, s')"
      "pSector s' = word_of_nat (st div 16)" "pOffset s' = word_of_nat (st mod 16)" by auto
    then have "find_slots fs' d need (word_of_nat k) s = Some (True, s', f1)"
      by (subst find_slots.simps) (simp add: f1(1))
    then show ?thesis using s' f1(2) by blast
  next
    case (Inr c')
    with scan obtain s' where s': "scan_slots f1 need (word_of_nat k) [0..<16] s = (False, s')"
      "search_at s' (Suc k * 16) c'" by (auto simp: add.commute)
    have run: "slot_run need (dir_slots disk fs (drop (Suc k) ss)) (Suc k * 16) c' = Inl st"
      using Suc.prems(4) Inr by (simp add: dr slot_run_append add.commute)
    have d: "m = length ss - Suc k" "Suc k \<le> length ss" using Suc.hyps(2) k by simp_all
    have step: "find_slots fs' d need (word_of_nat k) s = find_slots f1 d need (word_of_nat (Suc k)) s'"
      by (subst find_slots.simps) (simp add: f1(1) s'(1) add.commute)
    show ?thesis unfolding step by (rule Suc.hyps(1) [OF d f1(2) s'(2) run])
  qed
qed

end

subsection \<open>Writing the slots\<close>

text \<open>What \<open>n\<close> slots of the long name and the short entry are, in the order of the directory.\<close>

definition entry_slots :: "byte list \<Rightarrow> byte \<Rightarrow> fat_dir_entry \<Rightarrow> nat \<Rightarrow> byte list list" where
  "entry_slots f chk e n = map (\<lambda>i. fatfs_filename_to_lfn f i chk) (rev [0..<n]) @ [dir_entry_bytes e]"

lemma length_entry_slots [simp]: "length (entry_slots f chk e n) = Suc n"
  by (simp add: entry_slots_def)

lemma entry_slots_Suc: "entry_slots f chk e (Suc n) = fatfs_filename_to_lfn f n chk # entry_slots f chk e n"
  by (simp add: entry_slots_def)

lemma drop_entry_slots: "k \<le> n \<Longrightarrow> drop k (entry_slots f chk e n) = entry_slots f chk e (n - k)"
proof (induction k)
  case (Suc k)
  have "drop (Suc k) (entry_slots f chk e n) = drop 1 (drop k (entry_slots f chk e n))" by simp
  also have "\<dots> = drop 1 (entry_slots f chk e (n - k))" using Suc by simp
  also have "n - k = Suc (n - Suc k)" using Suc.prems by simp
  finally show ?case by (simp add: entry_slots_Suc)
qed simp

definition with_sector :: "'d fatfs \<Rightarrow> byte list \<Rightarrow> 'd fatfs" where
  "with_sector fs m = fs\<lparr>currentsector := (currentsector fs)\<lparr>fb_sector := m\<rparr>\<rparr>"

lemma with_sector_simps [simp]:
  "with_sector (with_sector fs m) m' = with_sector fs m'" "fb_sector (currentsector (with_sector fs m)) = m"
  "fb_address (currentsector (with_sector fs m)) = fb_address (currentsector fs)"
  "fat_chain (with_sector fs m) = fat_chain fs" "medium (with_sector fs m) = medium fs"
  "io_frame fs (with_sector fs m)" "eff disk (with_sector fs m) = eff disk fs"
proof -
  show "io_frame fs (with_sector fs m)"
    unfolding io_frame_def with_sector_def
    by (intro exI [of _ "fat_chain fs"] exI [of _ "medium fs"] exI [of _ "currentsector (with_sector fs m)"])
      (simp add: with_sector_def)
qed (simp_all add: with_sector_def eff_def fun_eq_iff)

lemma put_slots_found:
  assumes len: "\<And>i. length (fatfs_filename_to_lfn f i chk) = 32" "length (dir_entry_bytes e) = 32"
  shows "i \<le> 16 \<Longrightarrow> length (fb_sector (currentsector fs)) = 512 \<Longrightarrow>
    \<exists>m. length m = 512
      \<and> sector_slots m = mem_write i (take (16 - i) (entry_slots f chk e r)) (sector_slots (fb_sector (currentsector fs)))
      \<and> put_slots f chk e ds off x [i..<16] fs (True, r, dirty) =
        (if r < 16 - i then Inl (with_sector fs m) else Inr (with_sector fs m, (True, r - (16 - i), dirty \<or> i < 16)))"
proof (induction "16 - i" arbitrary: i fs r dirty)
  case 0
  then show ?case
    by (intro exI [of _ "fb_sector (currentsector fs)"]) (auto simp: with_sector_def)
next
  case (Suc d)
  then have i: "i < 16" by simp
  let ?s = "fb_sector (currentsector fs)"
  have up: "[i..<16] = i # [Suc i..<16]" using i by (rule upt_conv_Cons)
  have d: "d = 16 - Suc i" "Suc i \<le> 16" using Suc.hyps(2) i by simp_all
  have w: "sector_slots (mem_write (32 * i) b ?s) = mem_write i [b] (sector_slots ?s)" "length (mem_write (32 * i) b ?s) = 512"
    if "length b = 32" for b
    using sector_slots_write [OF Suc.prems(2) i that] that i Suc.prems(2)
    by (simp_all add: mem_write_Cons)
  show ?case
  proof (cases r)
    case 0
    let ?m = "mem_write (32 * i) (dir_entry_bytes e) ?s"
    have "entry_slots f chk e 0 = [dir_entry_bytes e]" by (simp add: entry_slots_def)
    moreover have "put_slots f chk e ds off x [i..<16] fs (True, r, dirty) = Inl (with_sector fs ?m)"
      using 0 by (simp add: up put_current_entry_def with_sector_def)
    ultimately show ?thesis using w [OF len(2)] 0 i by (intro exI [of _ ?m]) simp
  next
    case (Suc r')
    let ?b = "fatfs_filename_to_lfn f r' chk"
    let ?f = "with_sector fs (mem_write (32 * i) ?b ?s)"
    obtain m where m: "length m = 512"
      "sector_slots m = mem_write (Suc i) (take (16 - Suc i) (entry_slots f chk e r')) (sector_slots (fb_sector (currentsector ?f)))"
      "put_slots f chk e ds off x [Suc i..<16] ?f (True, r', True) =
        (if r' < 16 - Suc i then Inl (with_sector ?f m) else Inr (with_sector ?f m, (True, r' - (16 - Suc i), True \<or> Suc i < 16)))"
      using Suc.hyps(1) [OF d, of ?f r' True] w(2) [OF len(1)] by auto
    have "put_slots f chk e ds off x [i..<16] fs (True, r, dirty) = put_slots f chk e ds off x [Suc i..<16] ?f (True, r', True)"
      using Suc by (simp add: up Let_def with_sector_def)
    moreover have "16 - i = Suc (16 - Suc i)" using i by simp
    moreover have "sector_slots m = mem_write i (take (16 - i) (entry_slots f chk e r)) (sector_slots ?s)"
      using m(2) w(1) [OF len(1), of r'] mem_write_append [of i "[?b]" "take (16 - Suc i) (entry_slots f chk e r')" "sector_slots ?s"]
        i Suc \<open>16 - i = Suc (16 - Suc i)\<close> by (simp add: entry_slots_Suc)
    ultimately show ?thesis using m(1,3) Suc i by (intro exI [of _ m]) auto
  qed
qed

lemma put_slots_start:
  assumes "dirs = x" "off = word_of_nat k" "k < 16"
  shows "i \<le> k \<Longrightarrow> put_slots f chk e dirs off x [i..<16] fs (False, r, False) = put_slots f chk e dirs off x [k..<16] fs (True, r, False)"
proof (induction "k - i" arbitrary: i)
  case 0
  then have "i = k" by simp
  moreover have "[k..<16] = k # [Suc k..<16]" using assms(3) by (rule upt_conv_Cons)
  ultimately show ?case using assms(1,2) by (simp add: Let_def)
next
  case (Suc d)
  then have i: "i < k" by simp
  then have up: "[i..<16] = i # [Suc i..<16]" using assms(3) by (intro upt_conv_Cons) simp
  have "unat (word_of_nat i :: byte) = i" "unat (word_of_nat k :: byte) = k"
    using i assms(3) by (simp_all add: unat_word_of_nat)
  then have "off \<noteq> word_of_nat i" using i assms(2) by auto
  moreover have "d = k - Suc i" "Suc i \<le> k" using Suc.hyps(2) i by simp_all
  ultimately show ?case using Suc.hyps(1) [of "Suc i"] by (simp add: up Let_def)
qed

text \<open>Slots written into one sector, seen in the list of all slots.\<close>

lemma dir_slots_write:
  assumes "distinct ss" "j < length ss" "o' + length bs \<le> 16"
    and "sector_slots (eff disk fs' (ss ! j)) = mem_write o' bs (sector_slots (eff disk fs (ss ! j)))"
    and "\<And>t. t \<in> set ss \<Longrightarrow> t \<noteq> ss ! j \<Longrightarrow> eff disk fs' t = eff disk fs t"
  shows "dir_slots disk fs' ss = mem_write (j * 16 + o') bs (dir_slots disk fs ss)"
proof (rule nth_equalityI)
  have fit: "j * 16 + o' + length bs \<le> length (dir_slots disk fs ss)"
  proof -
    have "j * 16 + o' + length bs \<le> Suc j * 16" using assms(3) by simp
    also have "\<dots> \<le> length ss * 16" using assms(2) by (intro mult_le_mono1) simp
    finally show ?thesis by (simp add: length_dir_slots)
  qed
  show "length (dir_slots disk fs' ss) = length (mem_write (j * 16 + o') bs (dir_slots disk fs ss))"
    using fit by (simp add: length_dir_slots)
  fix k assume "k < length (dir_slots disk fs' ss)"
  then have k: "k < length ss * 16" by (simp add: length_dir_slots)
  then have q: "k div 16 < length ss" by (simp add: less_mult_imp_div_less)
  have kq: "k = k div 16 * 16 + k mod 16" by simp
  show "dir_slots disk fs' ss ! k = mem_write (j * 16 + o') bs (dir_slots disk fs ss) ! k"
  proof (cases "k div 16 = j")
    case True
    define r where "r = k mod 16"
    have r: "k = j * 16 + r" "r < 16" using True kq by (simp_all add: r_def)
    have "dir_slots disk fs' ss ! k = mem_write o' bs (sector_slots (eff disk fs (ss ! j))) ! r"
      using dir_slots_nth [OF k, of disk fs'] True assms(4) by (simp add: r_def)
    also have "\<dots> = (if o' \<le> r \<and> r < o' + length bs then bs ! (r - o') else sector_slots (eff disk fs (ss ! j)) ! r)"
      using r(2) assms(3) by (intro nth_mem_write) simp_all
    also have "sector_slots (eff disk fs (ss ! j)) ! r = dir_slots disk fs ss ! k"
      using dir_slots_nth [OF k, of disk fs] True by (simp add: r_def)
    also have "(if o' \<le> r \<and> r < o' + length bs then bs ! (r - o') else dir_slots disk fs ss ! k)
        = mem_write (j * 16 + o') bs (dir_slots disk fs ss) ! k"
    proof -
      have "k < length (dir_slots disk fs ss)" using k by (simp only: length_dir_slots)
      from nth_mem_write [OF fit this] show ?thesis using r(1) by simp
    qed
    finally show ?thesis .
  next
    case False
    then have ne: "ss ! (k div 16) \<noteq> ss ! j" using assms(1,2) q by (simp add: nth_eq_iff_index_eq)
    have out: "\<not> (j * 16 + o' \<le> k \<and> k < j * 16 + o' + length bs)"
    proof
      assume a: "j * 16 + o' \<le> k \<and> k < j * 16 + o' + length bs"
      then have "j * 16 \<le> k" "k < Suc j * 16" using assms(3) by simp_all
      then have "k div 16 = j" by (intro div_nat_eqI) simp_all
      then show False using False by simp
    qed
    have kl: "k < length (dir_slots disk fs ss)" using k by (simp only: length_dir_slots)
    have "mem_write (j * 16 + o') bs (dir_slots disk fs ss) ! k = dir_slots disk fs ss ! k"
      using nth_mem_write [OF fit kl] out by simp
    also have "\<dots> = dir_slots disk fs' ss ! k"
      using k q ne assms(5) [of "ss ! (k div 16)"] by (simp add: dir_slots_nth)
    finally show ?thesis by simp
  qed
qed

context block_device
begin

text \<open>Writing a changed sector of a directory back.\<close>

lemma write_directory_sector:
  assumes d: "directory rd wr disk sectors valid fs c ss" and rd: "reading fs fs'"
    and j: "j < length ss" "fb_address (currentsector fs') = ss ! j" "fb_sector (currentsector fs') = eff disk fs (ss ! j)"
    and m: "length m = 512" "sector_slots m = mem_write o' bs (sector_slots (eff disk fs (ss ! j)))"
    and fit: "o' + length bs \<le> 16"
  shows "\<exists>fs''. write_current (with_sector fs' m) = Some (True, fs'') \<and> directory rd wr disk sectors valid fs'' c ss
    \<and> dir_slots disk fs'' ss = mem_write (j * 16 + o') bs (dir_slots disk fs ss) \<and> io_frame fs fs''
    \<and> (\<forall>t. unat t < sectors \<longrightarrow> t \<notin> set ss \<longrightarrow> eff disk fs'' t = eff disk fs t)"
proof -
  note dr = directory_readable [OF d]
  have rf: "finv fs'" "vsame fs fs'" "io_frame fs fs'" "finv fs"
    using rd d by (simp_all add: reading_state_def directory_def)
  have dj: "ss ! j \<in> set ss" "data_sector sectors fs (ss ! j)" using dr(6) j(1) by auto
  let ?f = "with_sector fs' m"
  have fr: "io_frame fs ?f" using io_frame_trans [OF rf(3), of ?f] by simp
  have "finv ?f"
    using finv_medium [OF rf(1), of "medium fs'" "currentsector ?f"] rf(1)
    by (simp add: with_sector_def fat_inv_def)
  moreover have "data_sector sectors ?f (fb_address (currentsector ?f))"
    using dj(2) j(2) io_frame_entries(7) [OF fr, of sectors] by simp
  ultimately obtain f2 where f2: "write_current ?f = Some (True, f2)" "finv f2" "cinv f2" "io_frame ?f f2"
    "\<forall>t. unat t < sectors \<longrightarrow> eff disk f2 t = (if t = ss ! j then m else eff disk ?f t)"
    using write_current_lemma [OF dr(5), of ?f] j(2) m(1) by auto
  have view: "eff disk f2 t = (if t = ss ! j then m else eff disk fs t)" if "unat t < sectors" for t
    using f2(5) that rf(2) by (simp add: same_view_def)
  have sec: "unat t < sectors" if "t \<in> set ss" for t using that dr(6) by (auto simp: data_sector_def)
  have fr2: "io_frame fs f2" using io_frame_trans [OF fr f2(4)] .
  have "directory rd wr disk sectors valid f2 c ss"
  proof (rule directory_frame [OF d f2(2,3) fr2])
    fix t assume t: "unat (t - fat_begin_lba fs) < unat (fat_sectors fs)"
    then have "t \<noteq> ss ! j" using dj(2) by (auto simp: data_sector_def word_less_nat_alt)
    then show "eff disk f2 t = eff disk fs t" using view fat_sector_range(1) [OF rf(4) t] by simp
  qed
  moreover have "dir_slots disk f2 ss = mem_write (j * 16 + o') bs (dir_slots disk fs ss)"
    using view [OF sec] dj(1) m(2) by (intro dir_slots_write [OF dr(4) j(1) fit]) simp_all
  moreover have "\<forall>t. unat t < sectors \<longrightarrow> t \<notin> set ss \<longrightarrow> eff disk f2 t = eff disk fs t"
    using view dj(1) by auto
  ultimately show ?thesis using f2(1) fr2 by blast
qed

end

context block_device
begin

lemma directory_reading:
  assumes d: "directory rd wr disk sectors valid fs c ss" and r: "reading fs fs'"
  shows "directory rd wr disk sectors valid fs' c ss" "dir_slots disk fs' ss = dir_slots disk fs ss"
proof -
  have r': "finv fs'" "cinv fs'" "vsame fs fs'" "io_frame fs fs'" "finv fs"
    using r d by (simp_all add: reading_state_def directory_def)
  show "directory rd wr disk sectors valid fs' c ss"
    by (rule directory_frame [OF d r'(1,2,4)]) (use r'(3) fat_sector_range(1) [OF r'(5)] in \<open>simp add: same_view_def\<close>)
  have "unat t < sectors" if "t \<in> set ss" for t using that directory_readable(6) [OF d] by (auto simp: data_sector_def)
  then show "dir_slots disk fs' ss = dir_slots disk fs ss"
    using r'(3) unfolding dir_slots_def same_view_def by (metis (no_types, lifting) map_eq_conv)
qed

lemma write_entry_lemma:
  assumes len: "\<And>i. length (fatfs_filename_to_lfn f i chk) = 32" "length (dir_entry_bytes e) = 32"
  shows "directory rd wr disk sectors valid fs c ss \<Longrightarrow> off < 16 \<Longrightarrow>
    (found \<and> off = 0 \<or> \<not> found \<and> dirs = word_of_nat k \<and> doff = word_of_nat off) \<Longrightarrow>
    k * 16 + off + Suc r \<le> length ss * 16 \<Longrightarrow>
    \<exists>fs'. write_entry fs c f chk e dirs doff (word_of_nat k) found r = Some (True, fs')
      \<and> directory rd wr disk sectors valid fs' c ss \<and> io_frame fs fs'
      \<and> dir_slots disk fs' ss = mem_write (k * 16 + off) (entry_slots f chk e r) (dir_slots disk fs ss)
      \<and> (\<forall>t. unat t < sectors \<longrightarrow> t \<notin> set ss \<longrightarrow> eff disk fs' t = eff disk fs t)"
proof (induction "length ss - k" arbitrary: k fs off found r)
  case 0
  then show ?case by simp
next
  case (Suc d)
  then have k: "k < length ss" by simp
  note dr = directory_readable [OF Suc.prems(1)]
  obtain f1 where f1: "fatfs_sector_reader fs c (word_of_nat k) None = Some (True, None, f1)" "reading fs f1"
    "fb_address (currentsector f1) = ss ! k" "fb_sector (currentsector f1) = eff disk fs (ss ! k)"
    "length (fb_sector (currentsector f1)) = 512"
  proof (rule reader_step [OF dr(1,2) less_imp_le [OF k] dr(3)])
    fix f assume f: "fatfs_sector_reader fs c (word_of_nat k) None = Some (k < length ss, None, f)" "reading fs f"
      "k < length ss \<Longrightarrow> fb_address (currentsector f) = ss ! k"
      "k < length ss \<Longrightarrow> fb_sector (currentsector f) = eff disk fs (ss ! k)"
      "length (fb_sector (currentsector f)) = FAT_SECTOR_SIZE"
    show thesis by (rule that [OF _ f(2)]) (use f k in simp_all)
  qed
  have start: "put_slots f chk e dirs doff (word_of_nat k) [0..<16] f1 (found, r, False)
      = put_slots f chk e dirs doff (word_of_nat k) [off..<16] f1 (True, r, False)"
  proof (cases found)
    case True
    then show ?thesis using Suc.prems(3) by simp
  next
    case False
    then have o: "dirs = word_of_nat k" "doff = word_of_nat off" using Suc.prems(3) by simp_all
    show ?thesis using put_slots_start [OF o(1) o(2) Suc.prems(2) le0] False by simp
  qed
  let ?bs = "take (16 - off) (entry_slots f chk e r)"
  obtain m where m: "length m = 512" "sector_slots m = mem_write off ?bs (sector_slots (eff disk fs (ss ! k)))"
    "put_slots f chk e dirs doff (word_of_nat k) [off..<16] f1 (True, r, False) =
        (if r < 16 - off then Inl (with_sector f1 m) else Inr (with_sector f1 m, (True, r - (16 - off), True)))"
    using put_slots_found [OF len less_imp_le [OF Suc.prems(2)] f1(5), where ds = dirs and off = doff
        and x = "word_of_nat k" and r = r and dirty = False] Suc.prems(2)
    unfolding f1(4) by auto
  have fit: "off + length ?bs \<le> 16" using Suc.prems(2) by simp
  obtain f2 where f2: "write_current (with_sector f1 m) = Some (True, f2)" "directory rd wr disk sectors valid f2 c ss"
    "dir_slots disk f2 ss = mem_write (k * 16 + off) ?bs (dir_slots disk fs ss)" "io_frame fs f2"
    "\<forall>t. unat t < sectors \<longrightarrow> t \<notin> set ss \<longrightarrow> eff disk f2 t = eff disk fs t"
    using write_directory_sector [OF Suc.prems(1) f1(2) k f1(3,4) m(1,2) fit] by blast
  show ?case
  proof (cases "r < 16 - off")
    case True
    then have "write_entry fs c f chk e dirs doff (word_of_nat k) found r = Some (True, f2)"
      using f2(1) by (subst write_entry.simps) (simp add: f1(1) start m(3))
    moreover have "?bs = entry_slots f chk e r" using True by simp
    ultimately show ?thesis using f2(2-5) by auto
  next
    case False
    let ?r = "r - (16 - off)"
    have step: "write_entry fs c f chk e dirs doff (word_of_nat k) found r
        = write_entry f2 c f chk e dirs doff (word_of_nat (Suc k)) True ?r"
      using False f2(1) by (subst write_entry.simps) (simp add: f1(1) start m(3) add.commute)
    have d: "d = length ss - Suc k" using Suc.hyps(2) by simp
    have room: "Suc k * 16 + 0 + Suc ?r \<le> length ss * 16" using Suc.prems(2,4) False by simp
    have "(0 :: nat) < 16" "True \<and> (0 :: nat) = 0 \<or> \<not> True \<and> dirs = word_of_nat (Suc k) \<and> doff = word_of_nat 0" by simp_all
    from Suc.hyps(1) [OF d f2(2) this room]
    obtain f3 where f3: "write_entry f2 c f chk e dirs doff (word_of_nat (Suc k)) True ?r = Some (True, f3)"
      "directory rd wr disk sectors valid f3 c ss" "io_frame f2 f3"
      "dir_slots disk f3 ss = mem_write (Suc k * 16 + 0) (entry_slots f chk e ?r) (dir_slots disk f2 ss)"
      "\<forall>t. unat t < sectors \<longrightarrow> t \<notin> set ss \<longrightarrow> eff disk f3 t = eff disk f2 t"
      by blast
    have "dir_slots disk f3 ss = mem_write (k * 16 + off) (entry_slots f chk e r) (dir_slots disk fs ss)"
    proof -
      have e: "?bs @ entry_slots f chk e ?r = entry_slots f chk e r" "length ?bs = 16 - off"
        using False drop_entry_slots [of "16 - off" r f chk e] append_take_drop_id [of "16 - off" "entry_slots f chk e r"]
        by simp_all
      have p: "Suc k * 16 + 0 = k * 16 + off + length ?bs" using e(2) Suc.prems(2) by simp
      have "k * 16 + off + length ?bs + length (entry_slots f chk e ?r) \<le> length (dir_slots disk fs ss)"
        using room p by (simp only: length_dir_slots length_entry_slots)
      from mem_write_append [OF this] show ?thesis unfolding f3(4) f2(3) p e(1) .
    qed
    then show ?thesis
      using step f3(1,2,5) f2(5) io_frame_trans [OF f2(4) f3(3)] by (intro exI [of _ f3]) simp
  qed
qed

lemma add_entry_lemma:
  assumes d: "directory rd wr disk sectors valid fs c ss" and f: "f \<noteq> []" "length f \<le> 260" "length sfn \<ge> 11"
    and run: "slot_run (Suc (fatfs_lfn_entries_required f)) (dir_slots disk fs ss) 0 0 = Inl st"
    and e: "e = fatfs_update_timestamps now (fatfs_sfn_create_entry sfn bytes start dir) True True True"
  shows "\<exists>fs'. fatfs_add_file_entry now fs c f sfn start bytes dir = Some (True, fs')
    \<and> directory rd wr disk sectors valid fs' c ss \<and> io_frame fs fs'
    \<and> dir_slots disk fs' ss
      = mem_write st (entry_slots f (sfn_checksum sfn) e (fatfs_lfn_entries_required f)) (dir_slots disk fs ss)
    \<and> (\<forall>t. unat t < sectors \<longrightarrow> t \<notin> set ss \<longrightarrow> eff disk fs' t = eff disk fs t)"
proof -
  let ?n = "fatfs_lfn_entries_required f" and ?chk = "sfn_checksum sfn"
  note dr = directory_readable [OF d]
  have n: "?n \<noteq> 0" "?n \<le> 20" using lfn_entries_bounds [OF f(1)] f(2) by simp_all
  have we: "wf_entry e"
    unfolding e using f(3) by (intro wf_entry_timestamps) (simp add: wf_entry_def fatfs_sfn_create_entry_def)
  have len: "\<And>i. length (fatfs_filename_to_lfn f i ?chk) = 32" "length (dir_entry_bytes e) = 32"
    using length_dir_entry_bytes [OF we] by (simp_all add: fatfs_filename_to_lfn_def Let_def)
  have fit: "st + Suc ?n \<le> length ss * 16"
    using slot_run_spec [OF run] by (auto simp: length_dir_slots)
  let ?s0 = "\<lparr>possible_spaces = 0, start_recorded = False, pSector = 0, pOffset = 0\<rparr> :: slot_search"
  have s0: "search_at ?s0 (0 * 16) 0" by (simp add: search_at_def)
  have run0: "slot_run (Suc ?n) (dir_slots disk fs (drop 0 ss)) (0 * 16) 0 = Inl st" using run by simp
  obtain s' f1 where f1: "find_slots fs c (Suc ?n) 0 ?s0 = Some (True, s', f1)" "reading fs f1"
    "pSector s' = word_of_nat (st div 16)" "pOffset s' = word_of_nat (st mod 16)"
    using find_slots_run [OF dr(1,3) le0 dr(2) s0 run0] by auto
  note d1 = directory_reading [OF d f1(2)]
  have "st div 16 * 16 + st mod 16 + Suc ?n \<le> length ss * 16" "st mod 16 < 16" using fit by simp_all
  then obtain f2 where f2: "write_entry f1 c f ?chk e (pSector s') (pOffset s') (word_of_nat (st div 16)) False ?n = Some (True, f2)"
    "directory rd wr disk sectors valid f2 c ss" "io_frame f1 f2"
    "dir_slots disk f2 ss = mem_write (st div 16 * 16 + st mod 16) (entry_slots f ?chk e ?n) (dir_slots disk f1 ss)"
    "\<forall>t. unat t < sectors \<longrightarrow> t \<notin> set ss \<longrightarrow> eff disk f2 t = eff disk f1 t"
    using write_entry_lemma [OF len d1(1), where off = "st mod 16" and found = False and dirs = "pSector s'"
        and k = "st div 16" and doff = "pOffset s'" and r = ?n] f1(3,4) by blast
  have "fatfs_add_file_entry now fs c f sfn start bytes dir = Some (True, f2)"
    using n(1) f1(1) f2(1) f1(3) directory_media [OF d]
    by (simp add: fatfs_add_file_entry_def fatfs_find_free_dir_offset_def Let_def e)
  moreover have "io_frame fs f2" "\<forall>t. unat t < sectors \<longrightarrow> t \<notin> set ss \<longrightarrow> eff disk f2 t = eff disk fs t"
    using io_frame_trans [OF _ f2(3)] f1(2) f2(5) by (simp_all add: reading_state_def same_view_def)
  ultimately show ?thesis using f2(2,4) d1(2) by (intro exI [of _ f2]) simp
qed

end

subsection \<open>Reading the names back\<close>

text \<open>The long-name cache after some slots.\<close>

fun cache_after :: "byte list list \<Rightarrow> lfn_cache \<Rightarrow> lfn_cache" where
  "cache_after [] lfn = lfn"
| "cache_after (b # bs) lfn =
     (let e = dir_entry_at b 0
      in if fatfs_entry_lfn_text e then cache_after bs (fatfs_lfn_cache_entry lfn b)
         else if \<not> fatfs_entry_sfn_only e then cache_after bs (fatfs_lfn_cache_init lfn False)
         else cache_after bs (fatfs_lfn_cache_init (if no_of_strings lfn \<noteq> 0 then snd (fatfs_lfn_cache_get lfn) else lfn) False))"

lemma dir_names_append: "dir_names (xs @ ys) lfn = dir_names xs lfn @ dir_names ys (cache_after xs lfn)"
  by (induction xs lfn rule: cache_after.induct) (auto simp: Let_def split: prod.splits)

lemma cache_after_snoc:
  "\<not> fatfs_entry_lfn_text (dir_entry_at b 0) \<Longrightarrow> no_of_strings (cache_after (xs @ [b]) lfn) = 0"
  by (induction xs lfn rule: cache_after.induct) (auto simp: Let_def fatfs_lfn_cache_init_def)

lemma cache_size:
  assumes "length (lfn_String lfn) = 260"
  shows "length (lfn_String (fatfs_lfn_cache_entry lfn b)) = 260"
    "length (lfn_String (fatfs_lfn_cache_init lfn w)) = 260"
    "length (lfn_String (snd (fatfs_lfn_cache_get lfn))) = 260"
proof -
  define i where "i = b ! 0 AND 0x1F"
  show "length (lfn_String (fatfs_lfn_cache_entry lfn b)) = 260"
  proof (cases "i > 20 \<or> i = 0")
    case True
    then have "fatfs_lfn_cache_entry lfn b = lfn"
      unfolding fatfs_lfn_cache_entry_def Let_def i_def [symmetric] by argo
    then show ?thesis using assms by simp
  next
    case False
    then have "unat i \<le> 20" by (simp add: linorder_not_less word_le_nat_alt)
    then have "(unat i - 1) * 13 + 13 \<le> 260" by simp
    moreover have "\<not> i > 20" "i \<noteq> 0" using False by blast+
    ultimately show ?thesis
      unfolding fatfs_lfn_cache_entry_def Let_def i_def [symmetric] using assms by (simp del: upt_Suc)
  qed
qed (use assms in \<open>auto simp: fatfs_lfn_cache_init_def fatfs_lfn_cache_get_def Let_def\<close>)

lemma cache_after_size: "length (lfn_String lfn) = 260 \<Longrightarrow> length (lfn_String (cache_after bs lfn)) = 260"
  by (induction bs lfn rule: cache_after.induct) (simp_all add: Let_def cache_size)

lemma dir_names_text:
  "\<forall>b \<in> set bs. fatfs_entry_lfn_text (dir_entry_at b 0) \<Longrightarrow>
    dir_names (bs @ ys) lfn = dir_names ys (fold (\<lambda>b c. fatfs_lfn_cache_entry c b) bs lfn)"
  by (induction bs arbitrary: lfn) simp_all

lemma dir_names_entry_slots:
  assumes f: "f \<noteq> []" "length f \<le> 260" "0 \<notin> set f" "0xFF \<notin> set f"
    and lfn: "length (lfn_String lfn) = 260" "no_of_strings lfn = 0"
    and e: "wf_entry e" "\<not> fatfs_entry_lfn_text e" "fatfs_entry_sfn_only e"
  shows "\<exists>lfn'. dir_names (entry_slots f chk e (fatfs_lfn_entries_required f) @ bs) lfn = (f, e) # dir_names bs lfn'"
proof -
  let ?n = "fatfs_lfn_entries_required f"
  let ?t = "map (\<lambda>i. fatfs_filename_to_lfn f i chk) (rev [0..<?n])"
  have init: "fatfs_lfn_cache_init lfn False = lfn" using lfn(2) by (simp add: fatfs_lfn_cache_init_def)
  have n: "0 < ?n" "?n \<le> 20" using lfn_entries_bounds [OF f(1)] f(2) by simp_all
  note rd = lfn_slots_read [OF f lfn(1), of chk False, unfolded init]
  have lt: "\<forall>b \<in> set ?t. fatfs_entry_lfn_text (dir_entry_at b 0)" using rd by simp
  let ?c = "fold (\<lambda>b c. fatfs_lfn_cache_entry c b) ?t lfn"
  have c: "?c = fold (\<lambda>i c. fatfs_lfn_cache_entry c (fatfs_filename_to_lfn f i chk)) (rev [0..<?n]) lfn"
    by (simp add: fold_map comp_def)
  have "cstring (fst (fatfs_lfn_cache_get ?c)) = f" unfolding c using rd by blast
  moreover have "no_of_strings ?c \<noteq> 0"
  proof -
    have "unat (word_of_nat ?n :: byte) = ?n" using n(2) by (intro unat_word_of_nat) simp
    moreover obtain m where "?c = lfn\<lparr>no_of_strings := word_of_nat ?n, lfn_String := m\<rparr>"
      using lfn_cache_slots [OF lfn f(4) n(2) le0, of chk] n(1) unfolding c by auto
    ultimately show ?thesis using n(1) by (auto simp: word_unat_eq_iff)
  qed
  ultimately show ?thesis
    using dir_names_text [OF lt, of "dir_entry_bytes e # bs" lfn] e dir_entry_at_bytes [OF e(1)]
    by (auto simp: entry_slots_def Let_def split: prod.splits)
qed

text \<open>The short entry that is added is a live one.\<close>

lemma added_entry:
  assumes "length sfn \<ge> 11" "sfn ! 0 \<noteq> FILE_HEADER_BLANK" "sfn ! 0 \<noteq> FILE_HEADER_DELETED"
    and e: "e = fatfs_update_timestamps now (fatfs_sfn_create_entry sfn bytes start dir) True True True"
  shows "wf_entry e" "\<not> fatfs_entry_lfn_text e" "fatfs_entry_sfn_only e"
proof -
  show "wf_entry e"
    unfolding e using assms(1) by (intro wf_entry_timestamps) (simp add: wf_entry_def fatfs_sfn_create_entry_def)
  show "\<not> fatfs_entry_lfn_text e" "fatfs_entry_sfn_only e"
    using assms by (simp_all add: e fatfs_update_timestamps_def fatfs_sfn_create_entry_def Let_def
        fatfs_entry_lfn_text_def fatfs_entry_sfn_only_def)
qed

lemma dir_names_added:
  assumes f: "f \<noteq> []" "length f \<le> 260" "0 \<notin> set f" "0xFF \<notin> set f"
    and e: "wf_entry e" "\<not> fatfs_entry_lfn_text e" "fatfs_entry_sfn_only e"
    and run: "slot_run (Suc (fatfs_lfn_entries_required f)) old 0 0 = Inl st"
  shows "\<exists>lfn'. dir_names (mem_write st (entry_slots f chk e (fatfs_lfn_entries_required f)) old) (fatfs_lfn_cache_init empty_lfn True)
    = dir_names (take st old) (fatfs_lfn_cache_init empty_lfn True)
      @ (f, e) # dir_names (drop (st + Suc (fatfs_lfn_entries_required f)) old) lfn'"
proof -
  let ?l = "fatfs_lfn_cache_init empty_lfn True"
  let ?c = "cache_after (take st old) ?l"
  have l: "length (lfn_String ?l) = 260" by (simp add: fatfs_lfn_cache_init_def)
  have st: "st = 0 \<or> 0 < st \<and> \<not> vacant (old ! (st - 1))" "st < length old"
    using slot_run_spec [OF run] by auto
  have "no_of_strings ?c = 0"
  proof (cases "st = 0")
    case True
    then show ?thesis by (simp add: fatfs_lfn_cache_init_def)
  next
    case False
    then have "take st old = take (st - 1) old @ [old ! (st - 1)]"
      using st(2) take_Suc_conv_app_nth [of "st - 1" old] by simp
    moreover have "\<not> fatfs_entry_lfn_text (dir_entry_at (old ! (st - 1)) 0)" using st(1) False by (auto simp: vacant_def)
    ultimately show ?thesis using cache_after_snoc by metis
  qed
  from dir_names_entry_slots [OF f cache_after_size [OF l] this e, where chk = chk]
  show ?thesis by (simp add: mem_write_def dir_names_append)
qed

subsection \<open>Properties\<close>

text \<open>
  C17: adding a file to a directory that has enough vacant slots in a row writes the slots of its
  long name, last part first and each with the checksum of the short name, and then its short entry
  into the first such run, across sectors where the run crosses them. Only vacant slots are
  overwritten; every other slot of the directory, every other sector and the table are unchanged.
\<close>

theorem add_file_entry_correct:
  assumes "block_device rd wr disk n valid" and "directory rd wr disk n valid fs c ss"
    and "f \<noteq> []" and "length f \<le> 260" and "length sfn \<ge> 11"
    and "slot_run (Suc (fatfs_lfn_entries_required f)) (dir_slots disk fs ss) 0 0 = Inl st"
  shows "\<exists>fs'. fatfs_add_file_entry now fs c f sfn start bytes dir = Some (True, fs')
    \<and> directory rd wr disk n valid fs' c ss
    \<and> dir_slots disk fs' ss = mem_write st (entry_slots f (sfn_checksum sfn)
        (fatfs_update_timestamps now (fatfs_sfn_create_entry sfn bytes start dir) True True True)
        (fatfs_lfn_entries_required f)) (dir_slots disk fs ss)
    \<and> (\<forall>i \<in> {st..st + fatfs_lfn_entries_required f}. vacant (dir_slots disk fs ss ! i))
    \<and> (\<forall>t. unat t < n \<longrightarrow> t \<notin> set ss \<longrightarrow> eff disk fs' t = eff disk fs t)"
proof -
  have "\<forall>i \<in> {st..st + fatfs_lfn_entries_required f}. vacant (dir_slots disk fs ss ! i)"
    using slot_run_spec [OF assms(6)] by auto
  then show ?thesis using block_device.add_entry_lemma [OF assms refl] by blast
qed

text \<open>
  C16: a file that was not in the directory is found once it has been added: looking its name up, in
  whatever case it is written, returns the entry that was created. Its name has 1 to 260 characters, none of them
  null or 0xFF (which would be read back as a space), its short name does not start like a free or a deleted
  entry, and the directory already has a run of vacant slots that is long enough, so that it is not extended.
\<close>

theorem added_file_is_found:
  assumes "block_device rd wr disk n valid" and "directory rd wr disk n valid fs c ss"
    and "f \<noteq> []" and "length f \<le> 260" and "0 \<notin> set f" and "0xFF \<notin> set f"
    and "length sfn \<ge> 11" and "sfn ! 0 \<noteq> FILE_HEADER_BLANK" and "sfn ! 0 \<noteq> FILE_HEADER_DELETED"
    and "slot_run (Suc (fatfs_lfn_entries_required f)) (dir_slots disk fs ss) 0 0 = Inl st"
    and "\<forall>x \<in> set (dir_names (dir_slots disk fs ss) (fatfs_lfn_cache_init empty_lfn True)). name_key (fst x) \<noteq> name_key f"
    and "name_key name = name_key f"
  shows "\<exists>fs' fs''. fatfs_add_file_entry now fs c f sfn start bytes dir = Some (True, fs')
    \<and> fatfs_get_file_entry fs' c name
      = Some (Some (fatfs_update_timestamps now (fatfs_sfn_create_entry sfn bytes start dir) True True True), fs'')"
proof -
  let ?e = "fatfs_update_timestamps now (fatfs_sfn_create_entry sfn bytes start dir) True True True"
  let ?l = "fatfs_lfn_cache_init empty_lfn True" and ?old = "dir_slots disk fs ss"
  obtain fs' where a: "fatfs_add_file_entry now fs c f sfn start bytes dir = Some (True, fs')"
    "directory rd wr disk n valid fs' c ss"
    "dir_slots disk fs' ss = mem_write st (entry_slots f (sfn_checksum sfn) ?e (fatfs_lfn_entries_required f)) ?old"
    using block_device.add_entry_lemma [OF assms(1-4,7,10) refl] by blast
  obtain bs lfn' where names: "dir_names (dir_slots disk fs' ss) ?l = dir_names (take st ?old) ?l @ (f, ?e) # dir_names bs lfn'"
    using dir_names_added [OF assms(3-6) added_entry [OF assms(7-9) refl] assms(10)] unfolding a(3) by blast
  have "set (dir_names (take st ?old) ?l) \<subseteq> set (dir_names ?old ?l)"
    using dir_names_append [of "take st ?old" "drop st ?old" ?l] by simp
  then have "\<not> named name x" if "x \<in> set (dir_names (take st ?old) ?l)" for x
    using bspec [OF assms(11) subsetD [OF _ that]] assms(12) by simp
  then have "find (named name) (dir_names (take st ?old) ?l) = None" unfolding find_None_iff by blast
  then have found: "find (named name) (dir_names (dir_slots disk fs' ss) ?l) = Some (f, ?e)"
    unfolding names by (simp add: find_append assms(12))
  note d = block_device.directory_readable [OF assms(1) a(2)]
  obtain fs'' where "fatfs_get_file_entry fs' c name = Some (Some ?e, fs'')"
    using block_device.find_file_lemma [OF assms(1) d(1,3) le0 d(2), of name ?l] found
    by (auto simp: fatfs_get_file_entry_def lookup_name_names)
  then show ?thesis using a(1) by blast
qed

lemma sample_run: "slot_run 2 (dir_slots file_sector sample_volume [2, 3]) 0 0 = Inl 1"
proof -
  let ?z = "replicate 32 (0 :: byte)"
  have "replicate 31 ?z = ?z # ?z # replicate 29 ?z" by (simp add: numeral_eq_Suc)
  moreover have "\<not> vacant (dir_entry_bytes sample_entry)"
    by (simp add: vacant_def dir_entry_at_bytes [OF sample_entry_wf(1)] fatfs_entry_lfn_text_def)
      (simp add: sample_entry_def dir_entry_bytes_def ascii_def)
  moreover have "\<not> fatfs_entry_lfn_text (dir_entry_at ?z 0)" "vacant ?z"
    by (simp_all add: vacant_def fatfs_entry_lfn_text_def dir_entry_at_def)
  ultimately show ?thesis by (simp add: sample_volume_slots vacant_def)
qed

theorem add_file_entry_correct_witness:
  "\<exists>fs'. fatfs_add_file_entry sample_now sample_volume 2 (ascii ''notes.text'') (ascii ''NOTES~1 TEX'') 0 0 False = Some (True, fs')
    \<and> length (dir_slots file_sector fs' [2, 3]) = 32"
proof -
  have n: "fatfs_lfn_entries_required (ascii ''notes.text'') = 1" by (simp add: fatfs_lfn_entries_required_def ascii_def)
  have s: "ascii ''notes.text'' \<noteq> []" "length (ascii ''notes.text'') \<le> 260" "11 \<le> length (ascii ''NOTES~1 TEX'')"
    by (simp_all add: ascii_def)
  have "slot_run (Suc (fatfs_lfn_entries_required (ascii ''notes.text''))) (dir_slots file_sector sample_volume [2, 3]) 0 0 = Inl 1"
    unfolding n using sample_run by (simp add: numeral_2_eq_2)
  from add_file_entry_correct [OF file_device.block_device_axioms sample_directory s this]
  show ?thesis by (fastforce simp: length_dir_slots)
qed

theorem added_file_is_found_witness:
  "\<exists>fs' fs'' e. fatfs_add_file_entry sample_now sample_volume 2 (ascii ''notes.text'') (ascii ''NOTES~1 TEX'') 0 0 False = Some (True, fs')
    \<and> fatfs_get_file_entry fs' 2 (ascii ''NOTES.TEXT'') = Some (Some e, fs'')"
proof -
  let ?f = "ascii ''notes.text''" and ?l = "fatfs_lfn_cache_init empty_lfn True"
  have n: "fatfs_lfn_entries_required ?f = 1" by (simp add: fatfs_lfn_entries_required_def ascii_def)
  have f: "?f \<noteq> []" "length ?f \<le> 260" "0 \<notin> set ?f" "0xFF \<notin> set ?f" "11 \<le> length (ascii ''NOTES~1 TEX'')"
    "ascii ''NOTES~1 TEX'' ! 0 \<noteq> FILE_HEADER_BLANK" "ascii ''NOTES~1 TEX'' ! 0 \<noteq> FILE_HEADER_DELETED"
    by (simp_all add: ascii_def)
  have run: "slot_run (Suc (fatfs_lfn_entries_required ?f)) (dir_slots file_sector sample_volume [2, 3]) 0 0 = Inl 1"
    unfolding n using sample_run by (simp add: numeral_2_eq_2)
  have empty: "dir_names (replicate k (replicate 32 0)) l = []" for k l
    by (induction k arbitrary: l)
      (simp_all add: Let_def fatfs_entry_lfn_text_def fatfs_entry_sfn_only_def dir_entry_at_def mem_read_def)
  have "dir_names (dir_slots file_sector sample_volume [2, 3]) ?l = [(ascii ''GAME    .BIN'', sample_entry)]"
    unfolding sample_volume_slots sample_names empty ..
  moreover have "name_key (ascii ''GAME    .BIN'') \<noteq> name_key ?f" "name_key (ascii ''NOTES.TEXT'') = name_key ?f"
    by (simp_all add: name_key_def ascii_def lower_case_def trim_spaces_def)
  ultimately show ?thesis
    using added_file_is_found [OF file_device.block_device_axioms sample_directory f run, of "ascii ''NOTES.TEXT''" sample_now 0 0 False]
    by auto
qed

end
