(* ===== verification/FatOpen.thy ===== *)
theory FatOpen
  imports FatRead FatAdd
begin

section \<open>Opening files\<close>

text \<open>
  The handles of \<open>fat_filelib.c\<close> as two disjoint lists, paths as descriptions of directories, and
  what \<open>fl_fopen\<close> returns for a file that exists.
\<close>

subsection \<open>Handles\<close>

definition handles :: "'d FL_GLOBAL \<Rightarrow> nat list \<Rightarrow> nat list \<Rightarrow> bool" where
  "handles fg opens frees \<longleftrightarrow> dlist (open_list fg) opens \<and> dlist (free_list fg) frees
     \<and> distinct (opens @ frees) \<and> set (opens @ frees) = {0..<length (files fg)}"

lemma handles_put [simp]:
  "handles (put_file h f fg) opens frees = handles fg opens frees"
  "handles (fg\<lparr>fg_fs := fs\<rparr>) opens frees = handles fg opens frees"
  by (simp_all add: handles_def put_file_def open_list_def free_list_def)

lemma set_list_simps [simp]:
  "store (open_list fg) = list_nodes fg" "store (free_list fg) = list_nodes fg"
  "free_list (set_free_list l fg) = l" "open_list (set_open_list l fg) = l"
  "list_head (open_list (set_free_list l fg)) = list_head (open_list fg)"
  "list_tail (open_list (set_free_list l fg)) = list_tail (open_list fg)"
  "list_head (free_list (set_open_list l fg)) = list_head (free_list fg)"
  "list_tail (free_list (set_open_list l fg)) = list_tail (free_list fg)"
  "list_nodes (set_free_list l fg) = store l" "list_nodes (set_open_list l fg) = store l"
  "files (set_free_list l fg) = files fg" "files (set_open_list l fg) = files fg"
  "fg_fs (set_free_list l fg) = fg_fs fg" "fg_fs (set_open_list l fg) = fg_fs fg"
  by (simp_all add: open_list_def free_list_def set_free_list_def set_open_list_def)

text \<open>What changes the two lists, but neither files nor the file system.\<close>

definition list_frame :: "'d FL_GLOBAL \<Rightarrow> 'd FL_GLOBAL \<Rightarrow> bool" where
  "list_frame fg fg' \<longleftrightarrow> (\<exists>a b c. fg' = fg\<lparr>open_file_list := a, free_file_list := b, list_nodes := c\<rparr>)"

lemma list_frame_fields:
  assumes "list_frame fg fg'"
  shows "files fg' = files fg" "fg_fs fg' = fg_fs fg" "filelib_init fg' = filelib_init fg"
    "filelib_valid fg' = filelib_valid fg" "fl_lock fg' = fl_lock fg" "fl_unlock fg' = fl_unlock fg"
    "lock_calls fg' = lock_calls fg" "unlock_calls fg' = unlock_calls fg"
  using assms by (auto simp: list_frame_def)

lemma list_frame_simps:
  "list_frame fg fg" "list_frame fg (set_free_list l fg)" "list_frame fg (set_open_list l fg)"
  "list_frame fg fg' \<Longrightarrow> list_frame fg' fg'' \<Longrightarrow> list_frame fg fg''"
proof -
  show "list_frame fg fg"
    unfolding list_frame_def
    by (intro exI [of _ "open_file_list fg"] exI [of _ "free_file_list fg"] exI [of _ "list_nodes fg"]) simp
  show "list_frame fg (set_free_list l fg)"
    unfolding list_frame_def set_free_list_def
    by (intro exI [of _ "open_file_list fg"] exI [of _ "(list_head l, list_tail l)"] exI [of _ "store l"]) simp
  show "list_frame fg (set_open_list l fg)"
    unfolding list_frame_def set_open_list_def
    by (intro exI [of _ "(list_head l, list_tail l)"] exI [of _ "free_file_list fg"] exI [of _ "store l"]) simp
  show "list_frame fg fg' \<Longrightarrow> list_frame fg' fg'' \<Longrightarrow> list_frame fg fg''"
    unfolding list_frame_def by (elim exE, hypsubst, intro exI) simp
qed

lemma allocate_handle:
  assumes "handles fg opens frees"
  shows "\<exists>fg'. allocate_file fg = (first_or frees None, fg') \<and> list_frame fg fg'
    \<and> handles fg' (opens @ take 1 frees) (tl frees)"
proof (cases frees)
  case Nil
  then have "list_head (free_list fg) = None" using assms by (simp add: handles_def dlist_def)
  moreover have "set_free_list (free_list fg) fg = fg" by (simp add: set_free_list_def free_list_def)
  ultimately show ?thesis
    using assms Nil list_frame_simps(1) by (simp add: allocate_file_def fat_list_pop_head_def)
next
  case (Cons h hs)
  have d: "dlist (open_list fg) opens" "dlist (free_list fg) (h # hs)" "distinct (opens @ h # hs)"
    "set (opens @ h # hs) = {0..<length (files fg)}"
    using assms by (simp_all add: handles_def Cons)
  let ?l = "fat_list_remove (free_list fg) h"
  let ?fg = "set_free_list ?l fg"
  let ?m = "fat_list_insert_last (open_list ?fg) h"
  have pop: "fat_list_pop_head (free_list fg) = (Some h, ?l)"
    using d(2) by (simp add: fat_list_pop_head_def dlist_def)
  have f1: "dlist ?l hs" using dlist_remove [of "free_list fg" "[]" h hs] d(2) by simp
  have o1: "dlist (open_list ?fg) opens"
  proof (rule dlist_cong [OF d(1)])
    fix x assume "x \<in> set opens"
    then have "x \<notin> set (h # hs)" using d(3) by auto
    then show "store (open_list ?fg) x = store (open_list fg) x" using store_remove [OF d(2), of h x] by simp
  qed simp_all
  have o2: "dlist ?m (opens @ [h])" using dlist_insert_last [OF o1] d(3) by auto
  have f2: "dlist (free_list (set_open_list ?m ?fg)) hs"
  proof (rule dlist_cong [OF f1])
    fix x assume "x \<in> set hs"
    then have "x \<notin> set opens" "x \<noteq> h" using d(3) by auto
    then show "store (free_list (set_open_list ?m ?fg)) x = store ?l x"
      using store_insert_last [OF o1, of x h] by simp
  qed simp_all
  have "allocate_file fg = (Some h, set_open_list ?m ?fg)" by (simp add: allocate_file_def pop Let_def)
  moreover have "list_frame fg (set_open_list ?m ?fg)"
    using list_frame_simps by blast
  moreover have "handles (set_open_list ?m ?fg) (opens @ [h]) hs"
    using d(3,4) o2 f2 by (auto simp: handles_def)
  ultimately show ?thesis using Cons by simp
qed

lemma free_handle:
  assumes "handles fg opens frees" "h \<in> set opens"
  shows "handles (free_file h fg) (remove1 h opens) (frees @ [h])" "list_frame fg (free_file h fg)"
proof -
  have d: "dlist (open_list fg) opens" "dlist (free_list fg) frees" "distinct (opens @ frees)"
    "set (opens @ frees) = {0..<length (files fg)}"
    using assms(1) by (simp_all add: handles_def)
  let ?l = "fat_list_remove (open_list fg) h"
  let ?fg = "set_open_list ?l fg"
  let ?m = "fat_list_insert_last (free_list ?fg) h"
  have o1: "dlist ?l (remove1 h opens)" by (rule dlist_unlink [OF d(1) assms(2)])
  have f1: "dlist (free_list ?fg) frees"
  proof (rule dlist_cong [OF d(2)])
    fix x assume "x \<in> set frees"
    then have "x \<notin> set opens" using d(3) by auto
    then show "store (free_list ?fg) x = store (free_list fg) x" using store_remove [OF d(1) assms(2), of x] by simp
  qed simp_all
  have hf: "h \<notin> set frees" using assms(2) d(3) by auto
  have f2: "dlist ?m (frees @ [h])" by (rule dlist_insert_last [OF f1 hf])
  have o2: "dlist (open_list (set_free_list ?m ?fg)) (remove1 h opens)"
  proof (rule dlist_cong [OF o1])
    fix x assume "x \<in> set (remove1 h opens)"
    then have "x \<noteq> h" "x \<notin> set frees" using d(3) by auto
    then show "store (open_list (set_free_list ?m ?fg)) x = store ?l x"
      using store_insert_last [OF f1, of x h] by simp
  qed simp_all
  have "insert h (set (remove1 h opens) \<union> set frees) = {0..<length (files fg)}"
    using d(3,4) assms(2) by auto
  then show "handles (free_file h fg) (remove1 h opens) (frees @ [h])"
    using o2 f2 hf d(3) by (auto simp: handles_def free_file_def Let_def)
  show "list_frame fg (free_file h fg)"
    unfolding free_file_def Let_def using list_frame_simps by blast
qed

text \<open>The walk along the open files looks at each of them.\<close>

definition same_file :: "'d FL_GLOBAL \<Rightarrow> nat \<Rightarrow> nat \<Rightarrow> bool" where
  "same_file fg i h \<longleftrightarrow> i \<noteq> h \<and> name_key (file_path (file_at fg i)) = name_key (file_path (file_at fg h))
     \<and> name_key (file_filename (file_at fg i)) = name_key (file_filename (file_at fg h))"

lemma check_open_lemma:
  assumes "handles fg opens frees"
  shows "check_file_open fg h = Some (\<exists>i \<in> set opens. same_file fg i h)"
proof -
  have "check_open_from fg h (first_or xs None) = Some (\<exists>i \<in> set xs. same_file fg i h)"
    if "linked (list_nodes fg) p xs None" for p xs
    using that
  proof (induction xs arbitrary: p)
    case (Cons x xs)
    then show ?case
      by (subst check_open_from.simps) (auto simp: compare_names_key same_file_def)
  qed (simp add: check_open_from.simps)
  then show ?thesis
    using assms by (auto simp: check_file_open_def handles_def dlist_def open_list_def)
qed

subsection \<open>Paths\<close>

text \<open>\<open>resolves c names c'\<close>: going down the directories \<open>names\<close> from the one at cluster \<open>c\<close> leads to \<open>c'\<close>.\<close>

inductive resolves for rd wr disk n valid fs where
  resolves_here: "resolves rd wr disk n valid fs c [] c"
| resolves_down: "directory rd wr disk n valid fs c ss \<Longrightarrow>
    find (named name) (dir_names (dir_slots disk fs ss) (fatfs_lfn_cache_init empty_lfn True)) = Some (m, e) \<Longrightarrow>
    fatfs_entry_is_dir e \<Longrightarrow> resolves rd wr disk n valid fs (entry_cluster e) names c' \<Longrightarrow>
    resolves rd wr disk n valid fs c (name # names) c'"

inductive_cases resolves_Nil: "resolves rd wr disk n valid fs c [] c'"
inductive_cases resolves_Cons: "resolves rd wr disk n valid fs c (name # names) c'"

context block_device
begin

lemma resolves_reading:
  assumes "resolves rd wr disk sectors valid fs c names c'" "reading fs fs'"
  shows "resolves rd wr disk sectors valid fs' c names c'"
  using assms(1)
proof induction
  case (resolves_down c ss name m e names c')
  note d = directory_reading [OF resolves_down(1) assms(2)]
  show ?case
    by (rule resolves.resolves_down [OF d(1), of name m e])
      (use resolves_down(2,3,5) in \<open>simp_all only: d(2)\<close>)
qed (rule resolves_here)

lemma path_facts:
  assumes "path_root sep root" "path_names sep cs"
  shows "fatfs_total_path_levels (root @ join_path sep cs) = Some (int (length cs) - 1)"
    "i < length cs \<Longrightarrow> int (length (cs ! i)) < m \<Longrightarrow>
      fatfs_get_substring (root @ join_path sep cs) (int i) out m = Some (0, cs ! i)"
proof -
  have c: "0 < length cs" using assms(2) by (simp add: path_names_def)
  have len: "int (length (last cs)) < int (length (last cs)) + 1"
    "int (length root + length (join_path sep cs)) \<le> int (length root + length (join_path sep cs)) + int (length (last cs))"
    "int (length (cs ! 0)) < int (length (cs ! 0)) + 1" by simp_all
  show "fatfs_total_path_levels (root @ join_path sep cs) = Some (int (length cs) - 1)"
    using path_parts [OF assms c len(3,1,2)] by blast
  show "i < length cs \<Longrightarrow> int (length (cs ! i)) < m \<Longrightarrow>
      fatfs_get_substring (root @ join_path sep cs) (int i) out m = Some (0, cs ! i)"
    using path_parts [OF assms _ _ len(1,2)] by blast
qed

lemma open_levels_lemma:
  assumes p: "path_root sep root" "path_names sep (pre @ rest)" "\<forall>c \<in> set (pre @ rest). length c < 96"
  shows "resolves rd wr disk sectors valid fs c rest c' \<Longrightarrow> reading fs fs \<Longrightarrow>
    \<exists>fs'. open_levels (length rest) (int (length pre)) fs (root @ join_path sep (pre @ rest)) c out = Some (Some c', fs')
      \<and> reading fs fs'"
  using p(2,3)
proof (induction rest arbitrary: pre fs c out)
  case Nil
  then show ?case by (auto elim: resolves_Nil)
next
  case (Cons name rest)
  from Cons.prems(1) show ?case
  proof (rule resolves_Cons)
    fix ss m e
    assume d: "directory rd wr disk sectors valid fs c ss"
      "find (named name) (dir_names (dir_slots disk fs ss) (fatfs_lfn_cache_init empty_lfn True)) = Some (m, e)"
      "fatfs_entry_is_dir e" "resolves rd wr disk sectors valid fs (entry_cluster e) rest c'"
    have i: "length pre < length (pre @ name # rest)" "int (length ((pre @ name # rest) ! length pre)) < FATFS_MAX_LONG_FILENAME"
      using Cons.prems(4) by simp_all
    have sub: "fatfs_get_substring (root @ join_path sep (pre @ name # rest)) (int (length pre)) out FATFS_MAX_LONG_FILENAME
        = Some (0, name)"
      using path_facts(2) [OF p(1) Cons.prems(3) i] by simp
    obtain fs1 where f1: "fatfs_get_file_entry fs c name = Some (Some e, fs1)" "reading fs fs1"
      using get_file_entry_dir [OF d(1), of name] d(2) by auto
    have self: "reading fs1 fs1" using f1(2) by (intro reading_refl) (simp_all add: reading_state_def)
    have eq: "(pre @ [name]) @ rest = pre @ name # rest" by simp
    obtain fs2 where "open_levels (length rest) (int (length (pre @ [name]))) fs1
        (root @ join_path sep ((pre @ [name]) @ rest)) (entry_cluster e) name = Some (Some c', fs2)" "reading fs1 fs2"
      using Cons.IH [OF resolves_reading [OF d(4) f1(2)] self, of "pre @ [name]" name, unfolded eq, OF Cons.prems(3,4)]
      unfolding eq by blast
    then show ?thesis
      using sub f1 d(3) reading_trans [OF f1(2)] by (simp add: add.commute)
  qed
qed

lemma open_directory_lemma:
  assumes "path_root sep root" "path_names sep dirs" "\<forall>c \<in> set dirs. length c < 96"
    and "resolves rd wr disk sectors valid fs (rootdir_first_cluster fs) dirs c" "reading fs fs"
  shows "\<exists>fs'. open_directory fs (root @ join_path sep dirs) = Some (Some c, fs') \<and> reading fs fs'"
proof -
  have "path_names sep ([] @ dirs)" "\<forall>c \<in> set ([] @ dirs). length c < 96" using assms(2,3) by simp_all
  from open_levels_lemma [OF assms(1) this assms(4,5), of "[]"]
  show ?thesis
    using path_facts(1) [OF assms(1,2)] by (simp add: open_directory_def fatfs_get_root_cluster_def)
qed

end

section \<open>Opening\<close>

text \<open>What opening leaves alone: everything but the file system, the lists and the file.\<close>

definition open_frame :: "nat \<Rightarrow> 'd FL_GLOBAL \<Rightarrow> 'd FL_GLOBAL \<Rightarrow> bool" where
  "open_frame h fg fg' \<longleftrightarrow> (\<exists>f fs a b c. fg' = fg\<lparr>files := (files fg)[h := f], fg_fs := fs,
     open_file_list := a, free_file_list := b, list_nodes := c\<rparr>)"

lemma open_frame_refl: "open_frame h fg fg"
  unfolding open_frame_def
  by (intro exI [of _ "files fg ! h"] exI [of _ "fg_fs fg"] exI [of _ "open_file_list fg"]
      exI [of _ "free_file_list fg"] exI [of _ "list_nodes fg"]) simp

lemma open_frame_trans: "open_frame h fg fg' \<Longrightarrow> open_frame h fg' fg'' \<Longrightarrow> open_frame h fg fg''"
  unfolding open_frame_def by (elim exE, hypsubst, intro exI) simp

lemma open_frame_list: "list_frame fg fg' \<Longrightarrow> open_frame h fg fg'"
  unfolding open_frame_def list_frame_def
  by (elim exE, intro exI [of _ "files fg ! h"] exI [of _ "fg_fs fg"] exI) simp

lemma open_frame_put: "open_frame h fg (put_file h f fg)" "open_frame h fg (fg\<lparr>fg_fs := fs\<rparr>)"
proof -
  show "open_frame h fg (put_file h f fg)"
    unfolding open_frame_def put_file_def
    by (intro exI [of _ f] exI [of _ "fg_fs fg"] exI [of _ "open_file_list fg"]
      exI [of _ "free_file_list fg"] exI [of _ "list_nodes fg"]) simp
  show "open_frame h fg (fg\<lparr>fg_fs := fs\<rparr>)"
    unfolding open_frame_def
    by (intro exI [of _ "files fg ! h"] exI [of _ fs] exI [of _ "open_file_list fg"]
      exI [of _ "free_file_list fg"] exI [of _ "list_nodes fg"]) simp
qed

lemma open_frame_fields:
  assumes "open_frame h fg fg'"
  shows "length (files fg') = length (files fg)" "filelib_init fg' = filelib_init fg"
    "filelib_valid fg' = filelib_valid fg" "fl_lock fg' = fl_lock fg" "fl_unlock fg' = fl_unlock fg"
    "lock_calls fg' = lock_calls fg" "unlock_calls fg' = unlock_calls fg"
    "i \<noteq> h \<Longrightarrow> file_at fg' i = file_at fg i"
  using assms by (auto simp: open_frame_def file_at_def)

text \<open>The directory part of a path.\<close>

definition dir_path :: "byte \<Rightarrow> byte list \<Rightarrow> byte list list \<Rightarrow> byte list" where
  "dir_path sep root dirs = (if dirs = [] then [] else root @ join_path sep dirs)"

definition good_path :: "byte \<Rightarrow> byte list \<Rightarrow> byte list list \<Rightarrow> byte list \<Rightarrow> bool" where
  "good_path sep root dirs name \<longleftrightarrow> path_root sep root \<and> path_names sep (dirs @ [name])
     \<and> (\<forall>c \<in> set (dirs @ [name]). length c < 96)
     \<and> length root + length (join_path sep (dirs @ [name])) \<le> 96 + length name"

definition not_open :: "'d FL_GLOBAL \<Rightarrow> nat list \<Rightarrow> byte list \<Rightarrow> byte list \<Rightarrow> bool" where
  "not_open fg opens path name \<longleftrightarrow> (\<forall>i \<in> set opens. name_key (file_path (file_at fg i)) = name_key path
     \<longrightarrow> name_key (file_filename (file_at fg i)) \<noteq> name_key name)"

lemma good_path_split:
  assumes "good_path sep root dirs name"
  shows "fatfs_split_path (root @ join_path sep (dirs @ [name])) p FATFS_MAX_LONG_FILENAME q FATFS_MAX_LONG_FILENAME
    = Some (0, dir_path sep root dirs, name)"
proof -
  have "int (length ((dirs @ [name]) ! 0)) < 96" "int (length (last (dirs @ [name]))) < 96"
    "int (length root + length (join_path sep (dirs @ [name]))) \<le> 96 + int (length (last (dirs @ [name])))"
    "0 < length (dirs @ [name])"
    using assms by (auto simp: good_path_def nth_append)
  then show ?thesis
    using path_parts [of sep root "dirs @ [name]" 0 96 96 96] assms
    by (simp add: good_path_def dir_path_def split: if_splits)
qed

lemma good_path_dirs:
  assumes "good_path sep root dirs name" "dirs \<noteq> []"
  shows "dir_path sep root dirs = root @ join_path sep dirs" "path_root sep root" "path_names sep dirs"
    "\<forall>c \<in> set dirs. length c < 96" "dir_path sep root dirs \<noteq> []"
  using assms by (auto simp: good_path_def dir_path_def path_names_def path_root_def)

lemma put_file_simps [simp]:
  "fg_fs (put_file h f fg) = fg_fs fg" "length (files (put_file h f fg)) = length (files fg)"
  "h < length (files fg) \<Longrightarrow> file_at (put_file h f fg) h = f"
  "i \<noteq> h \<Longrightarrow> file_at (put_file h f fg) i = file_at fg i"
  "file_at (fg\<lparr>fg_fs := fs\<rparr>) = file_at fg"
  "put_file h f (put_file h g fg) = put_file h f fg"
  "(put_file h f fg)\<lparr>fg_fs := fs\<rparr> = put_file h f (fg\<lparr>fg_fs := fs\<rparr>)"
  by (simp_all add: put_file_def file_at_def fun_eq_iff)

lemma lock_simps [simp]:
  "fg_fs (FL_LOCK g) = fg_fs g" "files (FL_LOCK g) = files g" "file_at (FL_LOCK g) = file_at g"
  "handles (FL_LOCK g) os ns = handles g os ns" "not_open (FL_LOCK g) os p n = not_open g os p n"
  "filelib_init (FL_LOCK g) = filelib_init g" "filelib_valid (FL_LOCK g) = filelib_valid g"
  "fl_lock (FL_LOCK g) = fl_lock g" "fl_unlock (FL_LOCK g) = fl_unlock g" "unlock_calls (FL_LOCK g) = unlock_calls g"
  "fg_fs (FL_UNLOCK g) = fg_fs g" "files (FL_UNLOCK g) = files g" "file_at (FL_UNLOCK g) = file_at g"
  "handles (FL_UNLOCK g) os ns = handles g os ns" "not_open (FL_UNLOCK g) os p n = not_open g os p n"
  "filelib_init (FL_UNLOCK g) = filelib_init g" "filelib_valid (FL_UNLOCK g) = filelib_valid g"
  "fl_lock (FL_UNLOCK g) = fl_lock g" "fl_unlock (FL_UNLOCK g) = fl_unlock g" "lock_calls (FL_UNLOCK g) = lock_calls g"
  by (simp_all add: FL_LOCK_def FL_UNLOCK_def file_at_def fun_eq_iff handles_def open_list_def free_list_def not_open_def)

context block_device
begin

lemma locate_lemma:
  assumes h: "handles fg opens (h # hs)" and p: "good_path sep root dirs name"
    and free: "not_open fg opens (dir_path sep root dirs) name"
    and r: "resolves rd wr disk sectors valid (fg_fs fg) (rootdir_first_cluster (fg_fs fg)) dirs c"
    and self: "reading (fg_fs fg) (fg_fs fg)"
  shows "\<exists>fg'. locate_file (root @ join_path sep (dirs @ [name])) fg = Some (Some h, fg')
    \<and> reading (fg_fs fg) (fg_fs fg') \<and> handles fg' (opens @ [h]) hs \<and> open_frame h fg fg'
    \<and> file_at fg' h = (file_at fg h)\<lparr>file_path := dir_path sep root dirs, file_filename := name, parentcluster := c\<rparr>"
proof -
  let ?P = "dir_path sep root dirs"
  obtain f1 where f1: "allocate_file fg = (Some h, f1)" "list_frame fg f1" "handles f1 (opens @ [h]) hs"
    using allocate_handle [OF h] by auto
  note fr = list_frame_fields [OF f1(2)]
  have hl: "h < length (files f1)" "h \<notin> set opens"
    using f1(3) by (auto simp: handles_def)
  have at: "file_at f1 = file_at fg" using fr(1) by (simp add: file_at_def fun_eq_iff)
  let ?f = "(file_at fg h)\<lparr>file_path := ?P, file_filename := name\<rparr>"
  let ?f2 = "put_file h ?f f1"
  have h2: "handles ?f2 (opens @ [h]) hs" using f1(3) by simp
  have "\<not> same_file ?f2 i h" if "i \<in> set (opens @ [h])" for i
  proof (cases "i = h")
    case False
    then have "i \<in> set opens" using that by simp
    then show ?thesis using free False hl(1) at by (auto simp: same_file_def not_open_def)
  qed (simp add: same_file_def)
  then have "(\<exists>i \<in> set (opens @ [h]). same_file ?f2 i h) = False" by blast
  then have chk: "check_file_open ?f2 h = Some False" using check_open_lemma [OF h2, of h] by (simp only:)
  have fs: "fg_fs ?f2 = fg_fs fg" using fr(2) by simp
  note loc = locate_file_def f1(1) good_path_split [OF p] chk
  have frame: "open_frame h fg (put_file h g (f1\<lparr>fg_fs := fs\<rparr>))" for g fs
    using open_frame_trans [OF open_frame_trans [OF open_frame_list [OF f1(2)] open_frame_put(2)] open_frame_put(1)] .
  show ?thesis
  proof (cases "dirs = []")
    case True
    then have c: "c = rootdir_first_cluster (fg_fs fg)" using r by (auto elim: resolves_Nil)
    have P: "?P = []" using True by (simp add: dir_path_def)
    from c have "locate_file (root @ join_path sep (dirs @ [name])) fg
        = Some (Some h, put_file h (?f\<lparr>parentcluster := c\<rparr>) f1)"
      using fs hl(1) at by (simp add: loc [unfolded P] P fatfs_get_root_cluster_def)
    moreover have "open_frame h fg (put_file h (?f\<lparr>parentcluster := c\<rparr>) f1)"
      using frame [of _ "fg_fs f1"] by simp
    ultimately show ?thesis using h2 self fs hl(1) by auto
  next
    case False
    note d = good_path_dirs [OF p False]
    obtain fs' where o: "open_directory (fg_fs fg) ?P = Some (Some c, fs')" "reading (fg_fs fg) fs'"
      using open_directory_lemma [OF d(2-4) r self] unfolding d(1) by blast
    have "locate_file (root @ join_path sep (dirs @ [name])) fg
        = Some (Some h, put_file h (?f\<lparr>parentcluster := c\<rparr>) (f1\<lparr>fg_fs := fs'\<rparr>))"
      using fs hl(1) at o(1) d(5) by (simp add: loc)
    then show ?thesis using frame f1(3) o(2) hl(1) by auto
  qed
qed

end

text \<open>What \<open>_open_file\<close> makes of a handle.\<close>

definition opened_as :: "FL_FILE \<Rightarrow> fat_dir_entry \<Rightarrow> FL_FILE" where
  "opened_as f e = fatfs_cache_init (f\<lparr>shortfilename := Name e,
     filelength := FAT_HTONL (FileSize e), bytenum := 0, startcluster := entry_cluster e,
     file_data_address := 0xFFFFFFFF, file_data_dirty := False, filelength_changed := False,
     last_fat_lookup := no_lookup\<rparr>)"

definition named_entry :: "('d \<Rightarrow> u32 \<Rightarrow> byte list) \<Rightarrow> 'd fatfs \<Rightarrow> u32 list \<Rightarrow> byte list \<Rightarrow> fat_dir_entry option" where
  "named_entry disk fs ss name = map_option snd
     (find (named name) (dir_names (dir_slots disk fs ss) (fatfs_lfn_cache_init empty_lfn True)))"

context block_device
begin

lemma purge_reading:
  assumes "reading fs0 fs"
  shows "\<exists>ok fs'. fatfs_fat_purge fs = Some (ok, fs') \<and> reading fs0 fs'"
proof -
  have r: "finv fs" "cinv fs" "vsame fs0 fs" "io_frame fs0 fs" using assms by (simp_all add: reading_state_def)
  obtain ok fs' where p: "fatfs_fat_purge fs = Some (ok, fs')" "finv fs'" "fat_frame fs fs'" "vsame fs fs'"
    using purge_lemma [OF r(1)] by blast
  have "reading fs fs'" using p(2,4) cinv_frame [OF r(2) p(3,4)] fat_io_frame [OF p(3)] by (simp add: reading_state_def)
  then show ?thesis using p(1) reading_trans [OF assms] by blast
qed

lemma open_file_lemma:
  assumes h: "handles fg opens (h # hs)" and p: "good_path sep root dirs name"
    and free: "not_open fg opens (dir_path sep root dirs) name"
    and r: "resolves rd wr disk sectors valid (fg_fs fg) (rootdir_first_cluster (fg_fs fg)) dirs c"
    and d: "directory rd wr disk sectors valid (fg_fs fg) c ss"
    and e: "named_entry disk (fg_fs fg) ss name = Some e" "fatfs_entry_is_file e"
  shows "\<exists>fg'. open_file (root @ join_path sep (dirs @ [name])) fg = Some (Some h, fg')
    \<and> reading (fg_fs fg) (fg_fs fg') \<and> handles fg' (opens @ [h]) hs \<and> open_frame h fg fg'
    \<and> file_at fg' h = opened_as ((file_at fg h)\<lparr>file_path := dir_path sep root dirs,
        file_filename := name, parentcluster := c\<rparr>) e"
proof -
  have self: "reading (fg_fs fg) (fg_fs fg)" using d by (simp add: reading_state_def directory_def)
  obtain f1 where f1: "locate_file (root @ join_path sep (dirs @ [name])) fg = Some (Some h, f1)"
    "reading (fg_fs fg) (fg_fs f1)" "handles f1 (opens @ [h]) hs" "open_frame h fg f1"
    "file_at f1 h = (file_at fg h)\<lparr>file_path := dir_path sep root dirs, file_filename := name, parentcluster := c\<rparr>"
    using locate_lemma [OF h p free r self] by blast
  note d1 = directory_reading [OF d f1(2)]
  obtain fs2 where fs2: "fatfs_get_file_entry (fg_fs f1) c name = Some (Some e, fs2)" "reading (fg_fs f1) fs2"
    using get_file_entry_dir [OF d1(1), of name] e(1) unfolding named_entry_def d1(2) by auto
  obtain ok fs3 where fs3: "fatfs_fat_purge fs2 = Some (ok, fs3)" "reading (fg_fs fg) fs3"
    using purge_reading [OF reading_trans [OF f1(2) fs2(2)]] by blast
  let ?g = "opened_as (file_at f1 h) e"
  let ?f = "put_file h ?g (f1\<lparr>fg_fs := fs3\<rparr>)"
  have hl: "h < length (files f1)" using f1(3) by (auto simp: handles_def)
  have "open_file (root @ join_path sep (dirs @ [name])) fg = Some (Some h, ?f)"
    using f1(1,5) fs2(1) fs3(1) e(2) by (simp add: open_file_def opened_as_def)
  moreover have "open_frame h fg ?f"
    using open_frame_trans [OF open_frame_trans [OF f1(4) open_frame_put(2)] open_frame_put(1)] .
  ultimately show ?thesis using f1(3,5) fs3(2) hl by auto
qed

end

context run_device
begin

text \<open>The handle is ready to be read from the start.\<close>

lemma opened_as_readable:
  assumes r: "reading fs (fg_fs fg)" and i: "finv fs"
    and h: "h < length (files fg)" "file_at fg h = (opened_as f e)\<lparr>file_flags := fl\<rparr>"
    and c: "chain_sound disk sectors fs (entry_cluster e) xs" and s: "length (file_data_sector f) = FAT_SECTOR_SIZE"
    and l: "unat (FAT_HTONL (FileSize e)) \<le> length (file_content disk fs xs)"
  shows "readable fg h xs"
proof -
  have r': "finv (fg_fs fg)" "vsame fs (fg_fs fg)" "io_frame fs (fg_fs fg)" using r by (simp_all add: reading_state_def)
  note c' = chain_sound_io [OF c i r'(3,2)]
  have "file_memory disk (fg_fs fg) (file_at fg h) xs"
    by (rule fresh_memory [OF c']) (simp_all add: h(2) opened_as_def fatfs_cache_init_def s)
  then show ?thesis
    using h c' r'(1) l same_content(2) [OF c r'(3,2)]
    by (simp add: readable_file_def opened_as_def fatfs_cache_init_def)
qed

end

context run_device
begin

lemma fopen_lemma:
  assumes i: "filelib_init fg" "filelib_valid fg" and m: "mode_flags mode AND FILE_READ \<noteq> 0"
    and h: "handles fg opens (h # hs)" and p: "good_path sep root dirs name"
    and free: "not_open fg opens (dir_path sep root dirs) name"
    and r: "resolves rd wr disk sectors valid (fg_fs fg) (rootdir_first_cluster (fg_fs fg)) dirs c"
    and d: "directory rd wr disk sectors valid (fg_fs fg) c ss"
    and e: "named_entry disk (fg_fs fg) ss name = Some e" "fatfs_entry_is_file e"
  shows "\<exists>fg'. fl_fopen now junk (Some (root @ join_path sep (dirs @ [name]))) (Some mode) fg = Some (Some h, fg')
    \<and> reading (fg_fs fg) (fg_fs fg') \<and> handles fg' (opens @ [h]) hs
    \<and> (\<forall>i. i \<noteq> h \<longrightarrow> file_at fg' i = file_at fg i) \<and> filelib_init fg' \<and> filelib_valid fg'
    \<and> lock_calls fg' = lock_calls (FL_LOCK fg) \<and> unlock_calls fg' = unlock_calls (FL_UNLOCK fg)
    \<and> fl_lock fg' = fl_lock fg \<and> fl_unlock fg' = fl_unlock fg
    \<and> file_at fg' h = (opened_as ((file_at fg h)\<lparr>file_path := dir_path sep root dirs,
        file_filename := name, parentcluster := c\<rparr>) e)\<lparr>file_flags := mode_flags mode\<rparr>"
proof -
  let ?path = "root @ join_path sep (dirs @ [name])"
  let ?fg = "FL_LOCK fg"
  note o = open_file_lemma [of ?fg, unfolded lock_simps, OF h p free r d e]
  obtain f1 where f1: "open_file ?path ?fg = Some (Some h, f1)"
    "reading (fg_fs fg) (fg_fs f1)" "handles f1 (opens @ [h]) hs" "open_frame h ?fg f1"
    "file_at f1 h = opened_as ((file_at fg h)\<lparr>file_path := dir_path sep root dirs,
        file_filename := name, parentcluster := c\<rparr>) e"
    using o by blast
  have wr: "write_media (fg_fs fg) = Some wr" using d by (simp add: directory_def fat_inv_def)
  let ?g = "put_file h ((file_at f1 h)\<lparr>file_flags := mode_flags mode\<rparr>) f1"
  have hl: "h < length (files f1)" using f1(3) by (auto simp: handles_def)
  have "fl_fopen now junk (Some ?path) (Some mode) fg = Some (Some h, FL_UNLOCK ?g)"
    using i m wr f1(1) by (simp add: fl_fopen_def CHECK_FL_INIT_def Let_def)
  moreover note fr = open_frame_fields [OF open_frame_trans [OF f1(4) open_frame_put(1) [of h f1]]]
  moreover have "unlock_calls (FL_UNLOCK ?g) = unlock_calls (FL_UNLOCK fg)"
    using fr(5,7) by (simp add: FL_UNLOCK_def FL_LOCK_def put_file_def split: if_splits)
  ultimately show ?thesis using f1(2,3,5) fr hl i by (intro exI [of _ "FL_UNLOCK ?g"]) simp
qed

end

subsection \<open>Closing\<close>

context block_device
begin

text \<open>A file with nothing to write back: the handle goes to the end of the free list.\<close>

lemma fclose_clean:
  assumes i: "filelib_init fg" and h: "handles fg opens frees" "h \<in> set opens" and f: "finv (fg_fs fg)"
    and c: "\<not> file_data_dirty (file_at fg h)" "\<not> filelength_changed (file_at fg h)"
  shows "\<exists>fg'. fl_fclose now (Some h) fg = Some fg' \<and> handles fg' (remove1 h opens) (frees @ [h])
    \<and> finv (fg_fs fg') \<and> vsame (fg_fs fg) (fg_fs fg')"
proof -
  let ?l = "FL_UNLOCK (put_file h (file_at fg h) (FL_LOCK (FL_LOCK fg)))"
  have fl: "fl_fflush (Some h) (FL_LOCK fg) = Some (0, ?l)"
    using i c(1) by (simp add: fl_fflush_def CHECK_FL_INIT_def FL_LOCK_def flush_file_def put_file_def file_at_def)
  have "h < length (files fg)" using h by (auto simp: handles_def)
  then have l: "filelength_changed (file_at ?l h) = False" "fg_fs ?l = fg_fs fg" "handles ?l opens frees"
    using c(2) h by simp_all
  let ?c = "(file_at ?l h)\<lparr>bytenum := 0, filelength := 0, startcluster := 0, file_data_address := 0xFFFFFFFF,
              file_data_dirty := False, filelength_changed := False\<rparr>"
  let ?g = "put_file h ?c ?l"
  have "handles ?g opens frees" using l(3) by simp
  note fr = free_handle [OF this h(2)]
  have fs: "fg_fs (free_file h ?g) = fg_fs fg" using list_frame_fields(2) [OF fr(2)] l(2) by simp
  obtain ok fs' where p: "fatfs_fat_purge (fg_fs fg) = Some (ok, fs')" "finv fs'" "vsame (fg_fs fg) fs'"
    using purge_lemma [OF f] by blast
  have id: "g\<lparr>fg_fs := fg_fs g\<rparr> = g" for g :: "'b FL_GLOBAL" by simp
  have "fl_fclose now (Some h) fg = Some (FL_UNLOCK ((free_file h ?g)\<lparr>fg_fs := fs'\<rparr>))"
    using i by (simp only: fl_fclose_def CHECK_FL_INIT_def Let_def fl l(1) id fs p(1) not_not simp_thms if_False if_True
      option.case Option.bind.simps prod.case)
  then show ?thesis using fr(1) p(2,3) by (intro exI [of _ "FL_UNLOCK ((free_file h ?g)\<lparr>fg_fs := fs'\<rparr>)"]) simp
qed

end

subsection \<open>A session\<close>

context run_device
begin

lemma read_file_lemma:
  assumes ro: "reads_ok rd sectors valid"
    and i: "filelib_init fg" "filelib_valid fg" and m: "mode_flags mode AND FILE_READ \<noteq> 0"
    and h: "handles fg opens (h # hs)" and p: "good_path sep root dirs name"
    and free: "not_open fg opens (dir_path sep root dirs) name"
    and r: "resolves rd wr disk sectors valid (fg_fs fg) (rootdir_first_cluster (fg_fs fg)) dirs c"
    and d: "directory rd wr disk sectors valid (fg_fs fg) c ss"
    and e: "named_entry disk (fg_fs fg) ss name = Some e" "fatfs_entry_is_file e"
    and x: "chain_sound disk sectors (fg_fs fg) (entry_cluster e) xs" and b: "length (file_data_sector (file_at fg h)) = FAT_SECTOR_SIZE"
    and l: "unat (FAT_HTONL (FileSize e)) = len" "0 < len" "len < 2 ^ 31" "len \<le> length buf"
      "len \<le> length (file_content disk (fg_fs fg) xs)"
  shows "\<exists>fg1 fg2 fg3. fl_fopen now junk (Some (root @ join_path sep (dirs @ [name]))) (Some mode) fg = Some (Some h, fg1)
    \<and> fl_fread (Some buf) 1 (int len) (Some h) fg1
      = Some (int len, Some (mem_write 0 (take len (file_content disk (fg_fs fg) xs)) buf), fg2)
    \<and> fl_fclose now' (Some h) fg2 = Some fg3
    \<and> handles fg3 opens (hs @ [h]) \<and> finv (fg_fs fg3) \<and> vsame (fg_fs fg) (fg_fs fg3)"
proof -
  let ?f = "(file_at fg h)\<lparr>file_path := dir_path sep root dirs, file_filename := name, parentcluster := c\<rparr>"
  obtain fg1 where f1: "fl_fopen now junk (Some (root @ join_path sep (dirs @ [name]))) (Some mode) fg = Some (Some h, fg1)"
    "reading (fg_fs fg) (fg_fs fg1)" "handles fg1 (opens @ [h]) hs" "filelib_init fg1"
    "file_at fg1 h = (opened_as ?f e)\<lparr>file_flags := mode_flags mode\<rparr>"
    using fopen_lemma [OF i m h p free r d e] by blast
  have ok: "device_ok rd wr sectors valid" and fi: "finv (fg_fs fg)" using d by (simp_all add: directory_def)
  have hl: "h < length (files fg1)" "h \<notin> set opens" using f1(3) by (auto simp: handles_def)
  have r1: "readable fg1 h xs"
    using opened_as_readable [OF f1(2) fi hl(1) f1(5) x] b l(1,5) by simp
  have v1: "vsame (fg_fs fg) (fg_fs fg1)" "io_frame (fg_fs fg) (fg_fs fg1)" using f1(2) by (simp_all add: reading_state_def)
  have g: "file_flags (file_at fg1 h) AND FILE_READ \<noteq> 0" "unat (filelength (file_at fg1 h)) = len"
    "unat (bytenum (file_at fg1 h)) = 0" "\<not> filelength_changed (file_at fg1 h)"
    using m l(1) by (simp_all add: f1(5) opened_as_def fatfs_cache_init_def)
  have less: "bytenum (file_at fg1 h) < filelength (file_at fg1 h)" using g(2,3) l(2) by (simp add: word_less_nat_alt)
  obtain fg2 where f2: "fl_fread (Some buf) 1 (int len) (Some h) fg1
      = Some (int len, Some (mem_write 0 (mem_read 0 len (file_content disk (fg_fs fg1) xs)) buf), fg2)"
    "readable fg2 h xs" "file_frame h fg1 fg2" "read_frame (file_at fg1 h) (file_at fg2 h)" "vsame (fg_fs fg1) (fg_fs fg2)"
    using fread_lemma [OF run_device_axioms ok ro r1 f1(4) g(1), of 1 "int len" buf] g(2,3) l(2-4) less by auto
  have c2: "mem_read 0 len (file_content disk (fg_fs fg1) xs) = take len (file_content disk (fg_fs fg) xs)"
    using same_content(2) [OF x v1(2,1)] by (simp add: mem_read_def)
  have h2: "handles fg2 (opens @ [h]) hs" "filelib_init fg2"
    using f1(3,4) f2(3) by (auto simp: file_frame_def put_file_def handles_def open_list_def free_list_def)
  have n2: "\<not> file_data_dirty (file_at fg2 h)" "\<not> filelength_changed (file_at fg2 h)" "finv (fg_fs fg2)"
    using f2(2,4) g(4) by (simp_all add: readable_file_def file_memory_def read_frame_def)
  have "h \<in> set (opens @ [h])" by simp
  from fclose_clean [OF h2(2,1) this n2(3,1,2), of now']
  obtain fg3 where f3: "fl_fclose now' (Some h) fg2 = Some fg3" "handles fg3 opens (hs @ [h])"
    "finv (fg_fs fg3)" "vsame (fg_fs fg2) (fg_fs fg3)"
    using hl(2) by (auto simp: remove1_append)
  show ?thesis
    using f1(1) f2(1) f3 same_view_trans [OF same_view_trans [OF v1(1) f2(5)] f3(4)] unfolding c2 by blast
qed

end

subsection \<open>Properties\<close>

text \<open>
  C13: opening a file for reading by its path. When the directories of the path lead from the root to
  a sound directory, the name is that of a file there, a handle is free and the file is not open
  already, \<open>fl_fopen\<close> returns the first free handle, which is now the last open one. The handle
  stands at the start of the file of that entry and has the flags of the mode; with the chain of the
  entry's cluster sound and long enough it can be read. The other files are as they were, the locks
  are taken and released once each, and the volume is the same.
\<close>

theorem fl_fopen_correct:
  assumes "run_device rd wr disk n valid" and "filelib_init fg" and "filelib_valid fg"
    and "mode_flags mode AND FILE_READ \<noteq> 0"
    and "handles fg opens (h # hs)" and "good_path sep root dirs name"
    and "not_open fg opens (dir_path sep root dirs) name"
    and "resolves rd wr disk n valid (fg_fs fg) (rootdir_first_cluster (fg_fs fg)) dirs c"
    and "directory rd wr disk n valid (fg_fs fg) c ss"
    and "named_entry disk (fg_fs fg) ss name = Some e" and "fatfs_entry_is_file e"
    and "chain_sound disk n (fg_fs fg) (entry_cluster e) xs"
    and "length (file_data_sector (file_at fg h)) = FAT_SECTOR_SIZE"
    and "unat (FAT_HTONL (FileSize e)) \<le> length (file_content disk (fg_fs fg) xs)"
  shows "\<exists>fg'. fl_fopen now junk (Some (root @ join_path sep (dirs @ [name]))) (Some mode) fg = Some (Some h, fg')
    \<and> handles fg' (opens @ [h]) hs \<and> (\<forall>i. i \<noteq> h \<longrightarrow> file_at fg' i = file_at fg i)
    \<and> readable_file rd wr disk n valid fg' h xs
    \<and> bytenum (file_at fg' h) = 0 \<and> filelength (file_at fg' h) = FAT_HTONL (FileSize e)
    \<and> startcluster (file_at fg' h) = entry_cluster e \<and> shortfilename (file_at fg' h) = Name e
    \<and> parentcluster (file_at fg' h) = c \<and> file_filename (file_at fg' h) = name
    \<and> file_flags (file_at fg' h) = mode_flags mode \<and> \<not> filelength_changed (file_at fg' h)
    \<and> lock_calls fg' = lock_calls (FL_LOCK fg) \<and> unlock_calls fg' = unlock_calls (FL_UNLOCK fg)
    \<and> same_view disk n (fg_fs fg) (fg_fs fg')"
proof -
  let ?f = "(file_at fg h)\<lparr>file_path := dir_path sep root dirs, file_filename := name, parentcluster := c\<rparr>"
  obtain fg' where o: "fl_fopen now junk (Some (root @ join_path sep (dirs @ [name]))) (Some mode) fg = Some (Some h, fg')"
    "reading_state rd wr disk n valid (fg_fs fg) (fg_fs fg')" "handles fg' (opens @ [h]) hs"
    "\<forall>i. i \<noteq> h \<longrightarrow> file_at fg' i = file_at fg i"
    "lock_calls fg' = lock_calls (FL_LOCK fg)" "unlock_calls fg' = unlock_calls (FL_UNLOCK fg)"
    "file_at fg' h = (opened_as ?f e)\<lparr>file_flags := mode_flags mode\<rparr>"
    using run_device.fopen_lemma [OF assms(1-11)] by blast
  have fi: "fat_inv rd wr disk n valid (fg_fs fg)" using assms(9) by (simp add: directory_def)
  have "h < length (files fg')" using o(3) by (auto simp: handles_def)
  then have "readable_file rd wr disk n valid fg' h xs"
    using run_device.opened_as_readable [OF assms(1) o(2) fi _ o(7) assms(12)] assms(13,14) by simp
  then show ?thesis using o(1-6) by (simp add: o(7) opened_as_def fatfs_cache_init_def reading_state_def)
qed

text \<open>
  C1: opening a file, reading it whole and closing it again returns the bytes of its chain up to the
  length in its directory entry, gives the handle back, and leaves the volume as it was.
\<close>

theorem fl_read_file_correct:
  assumes "run_device rd wr disk n valid" and "reads_ok rd n valid" and "filelib_init fg" and "filelib_valid fg"
    and "mode_flags mode AND FILE_READ \<noteq> 0"
    and "handles fg opens (h # hs)" and "good_path sep root dirs name"
    and "not_open fg opens (dir_path sep root dirs) name"
    and "resolves rd wr disk n valid (fg_fs fg) (rootdir_first_cluster (fg_fs fg)) dirs c"
    and "directory rd wr disk n valid (fg_fs fg) c ss"
    and "named_entry disk (fg_fs fg) ss name = Some e" and "fatfs_entry_is_file e"
    and "chain_sound disk n (fg_fs fg) (entry_cluster e) xs"
    and "length (file_data_sector (file_at fg h)) = FAT_SECTOR_SIZE"
    and "unat (FAT_HTONL (FileSize e)) = len" and "0 < len" and "len < 2 ^ 31" and "len \<le> length buf"
    and "len \<le> length (file_content disk (fg_fs fg) xs)"
  shows "\<exists>fg1 fg2 fg3. fl_fopen now junk (Some (root @ join_path sep (dirs @ [name]))) (Some mode) fg = Some (Some h, fg1)
    \<and> fl_fread (Some buf) 1 (int len) (Some h) fg1
      = Some (int len, Some (mem_write 0 (take len (file_content disk (fg_fs fg) xs)) buf), fg2)
    \<and> fl_fclose now' (Some h) fg2 = Some fg3
    \<and> handles fg3 opens (hs @ [h]) \<and> fat_inv rd wr disk n valid (fg_fs fg3) \<and> same_view disk n (fg_fs fg) (fg_fs fg3)"
  by (rule run_device.read_file_lemma [OF assms])

text \<open>
  A card to apply these to: a FAT16 volume of four sectors, the root directory in the first, the table
  in the second, and \<open>GAME.BIN\<close>, 600 bytes, in the two clusters that follow.
\<close>

definition card_entry :: fat_dir_entry where
  "card_entry = sample_entry\<lparr>FstClusLO := 0x0200, FstClusHI := 0, FileSize := 0x58020000\<rparr>"

definition card_image :: "byte list" where
  "card_image = (dir_entry_bytes card_entry @ replicate 480 0) @ sample_table @ replicate 512 1 @ replicate 512 2"

text \<open>The volume on a medium of any kind.\<close>

definition card_fs :: "'d diskio_read \<Rightarrow> 'd diskio_write \<Rightarrow> 'd \<Rightarrow> 'd fatfs" where
  "card_fs rd wr d = \<lparr>sectors_per_cluster = 1, cluster_begin_lba = 2, rootdir_first_cluster = 0,
     rootdir_first_sector = 0, rootdir_sectors = 1, fat_begin_lba = 1, fs_info_sector = 0, lba_begin = 0,
     fat_sectors = 1, next_free_cluster = 0, root_entry_count = 0, reserved_sectors = 1, num_of_fats = 1,
     fat_type = FAT_TYPE_16, read_media = Some rd, write_media = Some wr,
     currentsector = no_buffer, fat_chain = [no_buffer], medium = d\<rparr>"

definition card_disk :: "('d \<Rightarrow> u32 \<Rightarrow> byte list) \<Rightarrow> 'd \<Rightarrow> bool" where
  "card_disk disk d \<longleftrightarrow> disk d 0 = dir_entry_bytes card_entry @ replicate 480 0 \<and> disk d 1 = sample_table
     \<and> disk d 2 = replicate 512 1 \<and> disk d 3 = replicate 512 2"

definition card_volume :: "byte list fatfs" where
  "card_volume = card_fs fat_media_read fat_media_write card_image"

definition card :: "byte list FL_GLOBAL" where
  "card = \<lparr>files = [sample_file], filelib_init = True, filelib_valid = True, fg_fs = card_volume,
     open_file_list = (None, None), free_file_list = (Some 0, Some 0),
     list_nodes = \<lambda>_. \<lparr>previous = None, next_node = None\<rparr>, fl_lock = True, fl_unlock = True,
     lock_calls = 0, unlock_calls = 0\<rparr>"

lemma card_entry_wf: "wf_entry card_entry" "length (dir_entry_bytes card_entry) = 32" "entry_cluster card_entry = 2"
  "FAT_HTONL (FileSize card_entry) = 600" "fatfs_entry_is_file card_entry"
proof -
  show w: "wf_entry card_entry" by (simp add: wf_entry_def card_entry_def sample_entry_def ascii_def)
  then show "length (dir_entry_bytes card_entry) = 32" by (rule length_dir_entry_bytes)
  show "entry_cluster card_entry = 2" "FAT_HTONL (FileSize card_entry) = 600" "fatfs_entry_is_file card_entry"
    by (simp_all add: card_entry_def sample_entry_def entry_cluster_def FAT_HTONS_def FAT_HTONL_def fatfs_entry_is_file_def)
qed

lemma card_sectors: "card_disk file_sector card_image"
proof -
  have t: "length sample_table = 512" by (simp add: sample_table_def)
  show ?thesis
    by (simp add: card_disk_def card_image_def file_sector_def mem_read_def t card_entry_wf(2))
qed

lemma card_inv: "valid d \<Longrightarrow> fat_inv rd wr disk 4 valid (card_fs rd wr d)"
  by (simp add: fat_inv_def card_fs_def fat_geometry_def no_buffer_def)

lemma card_valid: "file_valid 4 card_image"
proof -
  have t: "length sample_table = 512" by (simp add: sample_table_def)
  show ?thesis by (simp add: file_valid_def card_image_def t card_entry_wf(2))
qed

lemma card_eff: "s \<noteq> FAT32_INVALID_CLUSTER \<Longrightarrow> eff disk (card_fs rd wr d) s = disk d s"
  by (simp add: eff_def card_fs_def no_buffer_def)

lemma card_chain:
  assumes "card_disk disk d"
  shows "chain_sound disk 4 (card_fs rd wr d) 2 [2, 3]"
    "file_content disk (card_fs rd wr d) [2, 3] = replicate 512 1 @ replicate 512 2"
proof -
  let ?fs = "card_fs rd wr d"
  have s: "chain_sectors ?fs [2, 3] = [2, 3]"
    by (simp add: chain_sectors_def card_fs_def fatfs_lba_of_cluster_def)
  then show "file_content disk ?fs [2, 3] = replicate 512 1 @ replicate 512 2"
    using assms by (simp add: file_content_def card_eff card_disk_def)
  have nxt: "fat_next disk ?fs c = fat_next file_sector sample_volume c" if "unat c < 256" for c
  proof -
    have "entry_sector ?fs c = 1" "entry_sector sample_volume c = 1"
      using that by (simp_all add: entry_sector_def fat_sector_offset_def card_fs_def sample_volume_def sample_fs_def
          word_less_nat_alt div_word_less)
    then have "eff disk ?fs (entry_sector ?fs c) = eff file_sector sample_volume (entry_sector sample_volume c)"
      using assms by (simp add: card_eff card_disk_def sample_volume_eff sample_volume_sectors)
    moreover have "entry_number ?fs = entry_number sample_volume" "entry_next ?fs = entry_next sample_volume"
      by (simp_all add: fun_eq_iff entry_number_def fat_position_def fat_sector_offset_def entry_next_def card_fs_def
          sample_volume_def sample_fs_def)
    ultimately show ?thesis by (simp add: fat_next_def raw_entry_def)
  qed
  have "cluster_chain (fat_next disk ?fs) 2 [2, 3]"
    by (rule cluster_chain_cong [OF sample_chain(1)]) (auto simp: nxt)
  moreover have "\<forall>x \<in> set [2, 3]. entry_in ?fs x" "\<forall>t \<in> set [2, 3]. data_sector 4 ?fs t"
    "sectors_per_cluster ?fs \<noteq> 0"
    using sample_chain(2,4,5)
    by (simp_all add: entry_in_def fat_sector_offset_def data_sector_def card_fs_def sample_volume_def sample_fs_def)
  ultimately show "chain_sound disk 4 ?fs 2 [2, 3]"
    unfolding chain_sound_def s by (intro conjI) (simp_all del: cluster_chain.simps)
qed

lemma card_directory:
  assumes "valid d" "device_ok rd wr 4 valid"
  shows "directory rd wr disk 4 valid (card_fs rd wr d) 0 [0]"
proof -
  have "root_sectors (card_fs rd wr d) = [0]" "fat_type (card_fs rd wr d) = FAT_TYPE_16" "cur_inv disk 4 (card_fs rd wr d)"
    "data_sector 4 (card_fs rd wr d) 0"
    by (simp_all add: root_sectors_def cur_inv_def data_sector_def card_fs_def no_buffer_def)
  then show ?thesis
    using card_inv [of valid d, OF assms(1)] assms(2) unfolding directory_def by simp
qed

lemma card_named:
  assumes "card_disk disk d"
  shows "named_entry disk (card_fs rd wr d) [0] (ascii ''game.bin'') = Some card_entry"
proof -
  have "sector_slots (dir_entry_bytes card_entry @ replicate 480 0) = dir_entry_bytes card_entry # replicate 15 (replicate 32 0)"
  proof (rule nth_equalityI)
    fix k assume "k < length (sector_slots (dir_entry_bytes card_entry @ replicate 480 0))"
    then have k: "k < 16" by simp
    show "sector_slots (dir_entry_bytes card_entry @ replicate 480 0) ! k = (dir_entry_bytes card_entry # replicate 15 (replicate 32 0)) ! k"
      using k card_entry_wf(2) by (cases k) (auto simp: sector_slots_nth mem_read_def nth_Cons)
  qed simp
  then have slots: "dir_slots disk (card_fs rd wr d) [0] = dir_entry_bytes card_entry # replicate 15 (replicate 32 0)"
    using assms by (simp add: dir_slots_def card_eff card_disk_def)
  have "dir_names (dir_entry_bytes card_entry # bs) (fatfs_lfn_cache_init lfn w)
    = (ascii ''GAME    .BIN'', card_entry) # dir_names bs (fatfs_lfn_cache_init (fatfs_lfn_cache_init lfn w) False)" for bs lfn w
    by (simp add: dir_entry_at_bytes [OF card_entry_wf(1)] fatfs_lfn_cache_init_def)
      (simp add: card_entry_def sample_entry_def fatfs_entry_lfn_text_def fatfs_entry_sfn_only_def short_filename_of_def
        ascii_def cstring_def)
  then show ?thesis unfolding named_entry_def slots by (simp add: sample_key del: dir_names.simps)
qed

lemmas card_file_chain = card_chain [OF card_sectors, of fat_media_read fat_media_write, folded card_volume_def]

lemma card_file_directory:
  "directory fat_media_read fat_media_write file_sector 4 (file_valid 4) card_volume 0 [0]"
  "named_entry file_sector card_volume [0] (ascii ''game.bin'') = Some card_entry"
  unfolding card_volume_def
  by (rule card_directory [where valid = "file_valid 4", OF card_valid file_device_ok], rule card_named [OF card_sectors])

lemma card_handles: "handles card [] [0]" "not_open card [] p q"
  by (simp_all add: handles_def dlist_def open_list_def free_list_def card_def not_open_def)

lemma card_path: "good_path CHAR_SLASH [CHAR_SLASH] [] (ascii ''game.bin'')"
  by (simp add: good_path_def path_root_def path_names_def ascii_def)

lemma card_fields: "filelib_init card" "filelib_valid card" "fg_fs card = card_volume" "file_at card 0 = sample_file"
  "rootdir_first_cluster card_volume = 0"
  by (simp_all add: card_def file_at_def card_volume_def card_fs_def)

theorem fl_fopen_correct_witness:
  "\<exists>fg'. fl_fopen sample_now [] (Some (ascii ''/game.bin'')) (Some (ascii ''rb'')) card = Some (Some 0, fg')
    \<and> filelength (file_at fg' 0) = 600 \<and> lock_calls fg' = 1 \<and> unlock_calls fg' = 1"
proof -
  have m: "mode_flags (ascii ''rb'') AND FILE_READ \<noteq> 0" by (simp add: mode_flags_def mode_char_def ascii_def)
  have path: "[CHAR_SLASH] @ join_path CHAR_SLASH ([] @ [ascii ''game.bin'']) = ascii ''/game.bin''" by (simp add: ascii_def)
  have lock: "lock_calls (FL_LOCK card) = 1" "unlock_calls (FL_UNLOCK card) = 1"
    by (simp_all add: FL_LOCK_def FL_UNLOCK_def card_def)
  have l: "unat (FAT_HTONL (FileSize card_entry)) \<le> length (file_content file_sector (fg_fs card) [2, 3])"
    "length (file_data_sector (file_at card 0)) = FAT_SECTOR_SIZE"
    by (simp_all add: card_fields card_file_chain(2) card_entry_wf(4) sample_file_def)
  have r: "resolves fat_media_read fat_media_write file_sector 4 (file_valid 4) (fg_fs card)
      (rootdir_first_cluster (fg_fs card)) [] 0"
    unfolding card_fields by (rule resolves_here)
  note [simp] = card_entry_wf(3)
  show ?thesis
    using fl_fopen_correct [OF file_runs.run_device_axioms card_fields(1,2) m card_handles(1) card_path card_handles(2) r
        card_file_directory(1) [folded card_fields(3)] card_file_directory(2) [folded card_fields(3)] card_entry_wf(5)
        _ l(2,1), of sample_now "[]"] card_file_chain(1) card_entry_wf(4)
    unfolding path lock by (auto simp: card_fields)
qed

theorem fl_read_file_correct_witness:
  "\<exists>fg1 fg2 fg3. fl_fopen sample_now [] (Some (ascii ''/game.bin'')) (Some (ascii ''rb'')) card = Some (Some 0, fg1)
    \<and> fl_fread (Some (replicate 600 0)) 1 600 (Some 0) fg1 = Some (600, Some (replicate 512 1 @ replicate 88 2), fg2)
    \<and> fl_fclose sample_now (Some 0) fg2 = Some fg3 \<and> handles fg3 [] [0]"
proof -
  have m: "mode_flags (ascii ''rb'') AND FILE_READ \<noteq> 0" by (simp add: mode_flags_def mode_char_def ascii_def)
  have path: "[CHAR_SLASH] @ join_path CHAR_SLASH ([] @ [ascii ''game.bin'']) = ascii ''/game.bin''" by (simp add: ascii_def)
  have r: "resolves fat_media_read fat_media_write file_sector 4 (file_valid 4) (fg_fs card)
      (rootdir_first_cluster (fg_fs card)) [] 0"
    unfolding card_fields by (rule resolves_here)
  have x: "chain_sound file_sector 4 (fg_fs card) (entry_cluster card_entry) [2, 3]"
    unfolding card_fields card_entry_wf(3) by (rule card_file_chain(1))
  have l: "length (file_data_sector (file_at card 0)) = FAT_SECTOR_SIZE" "unat (FAT_HTONL (FileSize card_entry)) = 600"
    "600 \<le> length (replicate 600 (0 :: byte))" "600 \<le> length (file_content file_sector (fg_fs card) [2, 3])"
    by (simp_all add: card_fields card_file_chain(2) card_entry_wf(4) sample_file_def)
  have c: "mem_write 0 (take 600 (file_content file_sector (fg_fs card) [2, 3])) (replicate 600 0) = replicate 512 1 @ replicate 88 2"
    by (simp add: card_fields card_file_chain(2) mem_write_def)
  show ?thesis
    using fl_read_file_correct [OF file_runs.run_device_axioms file_reads_ok card_fields(1,2) m card_handles(1) card_path
        card_handles(2) r card_file_directory(1) [folded card_fields(3)] card_file_directory(2) [folded card_fields(3)] card_entry_wf(5)
        x l(1,2) _ _ l(3,4), of sample_now "[]" sample_now]
    unfolding path c by auto
qed

end
