(* ===== verification/SdCard.thy ===== *)
theory SdCard
  imports SdBits FatOpen
begin

section \<open>Reading and writing blocks of an SD card\<close>

text \<open>
  What the packets of \<open>sdcard_packet.c\<close> do with a card that answers as the SD specification says, and
  with one that does not answer at all; and that such a card, behind \<open>fat_media_read\<close> and
  \<open>fat_media_write\<close> of the Saturn, is a medium the file-system library can work on.
\<close>

subsection \<open>What a packet changes\<close>

text \<open>The structure without the fields that packets use: the lines, the outcome and the duration of the last
  packet, its response and its length, and the bus with the card behind it.\<close>

definition kept_part :: "'c sdcard_t \<Rightarrow> 'c sdcard_t" where
  "kept_part sd = sd\<lparr>sd_csl := 0, sd_din := 0, sd_clk := 0, packet_timeout := 0, duration_usec := 0,
     stat_reg_buffer := [], status_len := 0, sd_bus := undefined\<rparr>"

definition packet_frame :: "'c sdcard_t \<Rightarrow> 'c sdcard_t \<Rightarrow> bool" where
  "packet_frame sd sd' \<longleftrightarrow> kept_part sd' = kept_part sd"

lemma packet_frame_refl [simp]: "packet_frame sd sd"
  and packet_frame_trans: "packet_frame s t \<Longrightarrow> packet_frame t u \<Longrightarrow> packet_frame s u"
  by (simp_all add: packet_frame_def)

lemma packet_frame_fields:
  assumes "packet_frame sd sd'"
  shows "ccs sd' = ccs sd" "sd_ver2 sd' = sd_ver2 sd" "mmc sd' = mmc sd" "init_ok sd' = init_ok sd"
    "init_status sd' = init_status sd" "inserted sd' = inserted sd" "log_sdcard sd' = log_sdcard sd"
proof -
  show "ccs sd' = ccs sd" "sd_ver2 sd' = sd_ver2 sd" "mmc sd' = mmc sd" "init_ok sd' = init_ok sd"
    "init_status sd' = init_status sd" "inserted sd' = inserted sd" "log_sdcard sd' = log_sdcard sd"
    using arg_cong [OF assms [unfolded packet_frame_def], of ccs] arg_cong [OF assms [unfolded packet_frame_def], of sd_ver2]
      arg_cong [OF assms [unfolded packet_frame_def], of mmc] arg_cong [OF assms [unfolded packet_frame_def], of init_ok]
      arg_cong [OF assms [unfolded packet_frame_def], of init_status] arg_cong [OF assms [unfolded packet_frame_def], of inserted]
      arg_cong [OF assms [unfolded packet_frame_def], of log_sdcard]
    by (simp_all add: kept_part_def)
qed

text \<open>The card and the lines: all lines of a card that was just clocked have DIN high and CLK low.\<close>

definition at_card :: "'c sdcard_t \<Rightarrow> bool \<Rightarrow> 'c \<Rightarrow> bool" where
  "at_card sd cs c \<longleftrightarrow> pin_cs (sd_bus sd) = cs \<and> (sd_csl sd \<noteq> 0) = cs \<and> pin_din (sd_bus sd) \<and> \<not> pin_clk (sd_bus sd)
     \<and> the_card (sd_bus sd) = c"

lemma ledset_simps [simp]:
  "the_card (sd_bus (sdc_ledset env l on sd)) = the_card (sd_bus sd)"
  "pin_cs (sd_bus (sdc_ledset env l on sd)) = pin_cs (sd_bus sd)"
  "pin_din (sd_bus (sdc_ledset env l on sd)) = pin_din (sd_bus sd)"
  "pin_clk (sd_bus (sdc_ledset env l on sd)) = pin_clk (sd_bus sd)"
  "packet_timeout (sdc_ledset env l on sd) = packet_timeout sd" "ccs (sdc_ledset env l on sd) = ccs sd"
  "sd_csl (sdc_ledset env l on sd) = sd_csl sd" "stat_reg_buffer (sdc_ledset env l on sd) = stat_reg_buffer sd"
  "at_card (sdc_ledset env l on sd) cs c = at_card sd cs c"
  by (simp_all add: sdc_ledset_def on_bus_def reg_write_def Let_def at_card_def)

lemma cs_simps:
  "sdc_cs_assert env sd = sd\<lparr>sd_csl := 0, sd_bus := set_pins env False (pin_din (sd_bus sd)) (pin_clk (sd_bus sd)) (sd_bus sd)\<rparr>"
  "sdc_cs_deassert env sd = sd\<lparr>sd_csl := 1, sd_bus := set_pins env True (pin_din (sd_bus sd)) (pin_clk (sd_bus sd)) (sd_bus sd)\<rparr>"
  by (simp_all add: sdc_cs_assert_def sdc_cs_deassert_def on_bus_def reg_write_def reg_read_def bit_simps)

lemma primitive_frames:
  "packet_frame sd (sdc_ledset env l on sd)" "packet_frame sd (sdc_cs_assert env sd)" "packet_frame sd (sdc_cs_deassert env sd)"
  "packet_frame sd (sdc_sendbyte_array env bs sd)" "packet_frame sd (snd (sdc_receivebyte_array env n sd))"
  "packet_frame sd (sd\<lparr>sd_bus := b\<rparr>)" "packet_frame sd (sd\<lparr>packet_timeout := t\<rparr>)" "packet_frame sd (sd\<lparr>duration_usec := u\<rparr>)"
  "packet_frame sd (sd\<lparr>stat_reg_buffer := r\<rparr>)" "packet_frame sd (sd\<lparr>status_len := v\<rparr>)"
  by (simp_all add: packet_frame_def kept_part_def sdc_ledset_def cs_simps sdc_sendbyte_array_def on_bus_def
      sdc_receivebyte_array_def Let_def split_beta)

subsection \<open>Commands\<close>

text \<open>The bytes of a command, with the eight clocks before it.\<close>

definition command_bytes :: "byte \<Rightarrow> u32 \<Rightarrow> byte list" where
  "command_bytes cmd arg = [0xFF, 0x40 OR (cmd AND 0x3F), ucast (drop_bit 24 arg), ucast (drop_bit 16 arg),
     ucast (drop_bit 8 arg), ucast arg, packet_crc cmd arg]"

text \<open>The state in which the response to a command is awaited.\<close>

definition command_sent :: "'c card_env \<Rightarrow> byte \<Rightarrow> u32 \<Rightarrow> 'c sdcard_t \<Rightarrow> 'c" where
  "command_sent env cmd arg sd = tx_bytes env False (command_bytes cmd (packet_arg (ccs sd) cmd arg))
     (on_pins env False (pin_din (sd_bus sd)) (pin_clk (sd_bus sd)) (the_card (sd_bus sd)))"

definition before_response :: "'c card_env \<Rightarrow> byte \<Rightarrow> u32 \<Rightarrow> 'c sdcard_t \<Rightarrow> 'c sdcard_t" where
  "before_response env cmd arg_tmp sd =
     (let sd = sdc_ledset env SDC_LED_GREEN True sd;
          sd = sd\<lparr>packet_timeout := 0, status_len := 0, duration_usec := 0, stat_reg_buffer := (stat_reg_buffer sd)[0 := 0]\<rparr>;
          sd = sdc_cs_assert env sd;
          arg = packet_arg (ccs sd) cmd arg_tmp;
          sd = sdc_sendbyte env 0xFF sd;
          sd = sdc_sendbyte env (0x40 OR (cmd AND 0x3F)) sd;
          sd = sdc_sendlong env arg sd;
          sd = sdc_sendbyte env (packet_crc cmd arg) sd
      in sd\<lparr>status_len := snd (response_lengths cmd)\<rparr>)"

lemma packet_command_before:
  "packet_command env cmd arg sd =
     (let (ok, sd) = packet_start_bit env (before_response env cmd arg sd)
      in if \<not> ok then (False, sd)
         else let (hdr, b) = header_bytes (fst (response_lengths cmd)) 7 env (receive_bits False True) (receive_bits False False) (sd_bus sd)
           in (True, sd\<lparr>stat_reg_buffer := mem_write 0 hdr (stat_reg_buffer sd), sd_bus := b\<rparr>))"
  by (simp add: packet_command_def before_response_def Let_def split_beta)

lemma before_response_lemma:
  "packet_frame sd (before_response env cmd arg sd)"
  "the_card (sd_bus (before_response env cmd arg sd)) = command_sent env cmd arg sd"
  "\<not> pin_cs (sd_bus (before_response env cmd arg sd))" "sd_csl (before_response env cmd arg sd) = 0"
  "packet_timeout (before_response env cmd arg sd) = 0"
  "length (stat_reg_buffer (before_response env cmd arg sd)) = length (stat_reg_buffer sd)"
proof -
  note tx = tx_bytes_append [symmetric]
  show "packet_frame sd (before_response env cmd arg sd)"
    unfolding before_response_def Let_def sdc_sendbyte_def sdc_sendlong_def
    by (rule packet_frame_trans [OF _ primitive_frames(10)] packet_frame_trans [OF _ primitive_frames(4)]
        packet_frame_trans [OF _ primitive_frames(2)] packet_frame_trans [OF _ primitive_frames(9)]
        packet_frame_trans [OF _ primitive_frames(8)] packet_frame_trans [OF _ primitive_frames(7)] primitive_frames(1))+
  show "the_card (sd_bus (before_response env cmd arg sd)) = command_sent env cmd arg sd"
    by (simp add: before_response_def command_sent_def sdc_sendbyte_def sdc_sendlong_def sendbyte_array_eq cs_simps set_pins_def
        Let_def tx command_bytes_def)
  show "\<not> pin_cs (sd_bus (before_response env cmd arg sd))" "sd_csl (before_response env cmd arg sd) = 0"
    "packet_timeout (before_response env cmd arg sd) = 0"
    "length (stat_reg_buffer (before_response env cmd arg sd)) = length (stat_reg_buffer sd)"
    by (simp_all add: before_response_def sdc_sendbyte_def sdc_sendlong_def sendbyte_array_eq cs_simps set_pins_def Let_def)
qed

lemma after_rx_frame [simp]: "packet_frame sd (sd\<lparr>sd_bus := b\<rparr>)"
  by (rule primitive_frames)

lemma at_card_rx [simp]:
  "pin_cs (sd_bus sd) = cs \<Longrightarrow> (sd_csl sd \<noteq> 0) = cs \<Longrightarrow> at_card (sd\<lparr>sd_bus := after_rx c (sd_bus sd)\<rparr>) cs c"
  by (simp add: at_card_def)

text \<open>Giving up on a card whose line stays high.\<close>

lemma packet_failed_lemma:
  assumes "pin_din (sd_bus sd)" "\<not> pin_clk (sd_bus sd)"
  shows "at_card (packet_failed env sd) True (on_pins env True True False (the_card (sd_bus sd)))"
    "packet_timeout (packet_failed env sd) = 1" "packet_frame sd (packet_failed env sd)"
    "bit (leds (sd_bus (packet_failed env sd))) SD_LEDR_LSHFT" "sd_csl (packet_failed env sd) = 1"
    "stat_reg_buffer (packet_failed env sd) = stat_reg_buffer sd"
proof -
  show "at_card (packet_failed env sd) True (on_pins env True True False (the_card (sd_bus sd)))"
    "packet_timeout (packet_failed env sd) = 1" "sd_csl (packet_failed env sd) = 1"
    "stat_reg_buffer (packet_failed env sd) = stat_reg_buffer sd"
    using assms by (simp_all add: packet_failed_def Let_def cs_simps at_card_def set_pins_def)
  show "packet_frame sd (packet_failed env sd)"
    by (simp add: packet_failed_def Let_def packet_frame_def kept_part_def cs_simps sdc_ledset_def on_bus_def)
  show "bit (leds (sd_bus (packet_failed env sd))) SD_LEDR_LSHFT"
    by (simp add: packet_failed_def Let_def cs_simps set_pins_def sdc_ledset_def on_bus_def reg_write_def bit_simps
        numeral_2_eq_2)
qed

lemma start_bit_found:
  assumes "replies env False (the_card (sd_bus sd)) (replicate k True @ [False]) c" "\<not> pin_cs (sd_bus sd)" "k \<le> SDC_POLL_COUNTMAX"
  shows "packet_start_bit env sd = (True, sd\<lparr>sd_bus := after_rx c (sd_bus sd)\<rparr>)"
  using wait_start_eq [OF assms(1), of "SDC_POLL_COUNTMAX + 1"] assms(2,3) by (simp add: packet_start_bit_def)

lemma start_bit_missing:
  assumes "replies env False (the_card (sd_bus sd)) (replicate (SDC_POLL_COUNTMAX + 1) True) c" "\<not> pin_cs (sd_bus sd)"
  shows "packet_start_bit env sd = (False, packet_failed env (sd\<lparr>sd_bus := after_rx c (sd_bus sd)\<rparr>))"
proof -
  have "wait_start (SDC_POLL_COUNTMAX + 1) env (receive_bits False True) (receive_bits False False) (sd_bus sd) = (False, after_rx c (sd_bus sd))"
    by (rule wait_start_timeout [OF assms(1)]) (use assms(2) in simp_all)
  then show ?thesis unfolding packet_start_bit_def by (simp only: Let_def prod.case if_False)
qed

lemma packet_command_ok:
  assumes "replies env False (command_sent env cmd arg sd) (replicate k True @ False # r1) c" "length r1 = 7"
    and "k \<le> SDC_POLL_COUNTMAX" "fst (response_lengths cmd) = 1" "0 < length (stat_reg_buffer sd)"
  shows "\<exists>sd'. packet_command env cmd arg sd = (True, sd') \<and> at_card sd' False c \<and> packet_frame sd sd'
    \<and> packet_timeout sd' = 0 \<and> length (stat_reg_buffer sd') = length (stat_reg_buffer sd) \<and> stat_reg_buffer sd' ! 0 = byte_of r1"
proof -
  let ?b = "before_response env cmd arg sd"
  note b = before_response_lemma [where sd = sd and env = env and cmd = cmd and arg = arg]
  obtain c1 where c1: "replies env False (command_sent env cmd arg sd) (replicate k True @ [False]) c1" "replies env False c1 r1 c"
    using assms(1) replies_append [of env False _ "replicate k True @ [False]" r1 c] by auto
  have st: "packet_start_bit env ?b = (True, ?b\<lparr>sd_bus := after_rx c1 (sd_bus ?b)\<rparr>)"
    by (rule start_bit_found) (use c1(1) b(2,3) assms(3) in simp_all)
  have "r1 \<noteq> []" using assms(2) by auto
  then have h: "header_bytes 1 7 env (receive_bits False True) (receive_bits False False) (after_rx c1 (sd_bus ?b))
      = ([byte_of r1], after_rx c (sd_bus ?b))"
    using header_byte_eq [of env False "after_rx c1 (sd_bus ?b)" r1 c] c1(2) b(3) assms(2) by simp
  let ?s = "?b\<lparr>stat_reg_buffer := mem_write 0 [byte_of r1] (stat_reg_buffer ?b), sd_bus := after_rx c (sd_bus ?b)\<rparr>"
  have "packet_command env cmd arg sd = (True, ?s)"
    unfolding packet_command_before by (simp add: st assms(4) h [unfolded One_nat_def] del: header_bytes.simps)
  moreover have "at_card ?s False c" using b(3,4) by (simp add: at_card_def)
  moreover have "packet_frame ?b ?s" by (simp add: packet_frame_def kept_part_def)
  then have "packet_frame sd ?s" by (rule packet_frame_trans [OF b(1)])
  moreover have "mem_write 0 [byte_of r1] (stat_reg_buffer ?b) ! 0 = byte_of r1" "length (mem_write 0 [byte_of r1] (stat_reg_buffer ?b)) = length (stat_reg_buffer sd)"
    using b(6) assms(5) by (simp_all add: mem_write_def)
  ultimately show ?thesis using b(5) by (intro exI [of _ ?s]) simp
qed

lemma packet_command_timeout:
  assumes "replies env False (command_sent env cmd arg sd) (replicate (SDC_POLL_COUNTMAX + 1) True) c"
  shows "\<exists>sd'. packet_command env cmd arg sd = (False, sd') \<and> at_card sd' True (on_pins env True True False c)
    \<and> packet_frame sd sd' \<and> packet_timeout sd' = 1 \<and> bit (leds (sd_bus sd')) SD_LEDR_LSHFT
    \<and> stat_reg_buffer sd' = (stat_reg_buffer sd)[0 := 0] \<and> status_len sd' = snd (response_lengths cmd)
    \<and> duration_usec sd' = lap_usec env c"
proof -
  let ?b = "before_response env cmd arg sd"
  note b = before_response_lemma [where sd = sd and env = env and cmd = cmd and arg = arg]
  have st: "packet_start_bit env ?b = (False, packet_failed env (?b\<lparr>sd_bus := after_rx c (sd_bus ?b)\<rparr>))"
    by (rule start_bit_missing) (use assms b(2,3) in \<open>simp_all only: simp_thms\<close>)
  let ?r = "?b\<lparr>sd_bus := after_rx c (sd_bus ?b)\<rparr>"
  have d: "pin_din (sd_bus ?r)" "\<not> pin_clk (sd_bus ?r)" "the_card (sd_bus ?r) = c" by simp_all
  note f = packet_failed_lemma [OF d(1,2), of env]
  have "stat_reg_buffer ?b = (stat_reg_buffer sd)[0 := 0]" "status_len ?b = snd (response_lengths cmd)"
    by (simp_all add: before_response_def sdc_sendbyte_def sdc_sendlong_def sendbyte_array_eq cs_simps Let_def)
  moreover have "status_len (packet_failed env ?r) = status_len ?b" "duration_usec (packet_failed env ?r) = lap_usec env c"
    by (simp_all add: packet_failed_def Let_def cs_simps sdc_ledset_def on_bus_def)
  moreover have "packet_frame sd (packet_failed env ?r)"
    using packet_frame_trans [OF b(1) packet_frame_trans [OF primitive_frames(6) f(3)]] .
  moreover have "packet_command env cmd arg sd = (False, packet_failed env ?r)"
    unfolding packet_command_before by (simp add: st)
  ultimately show ?thesis using f d(3) by (intro exI [of _ "packet_failed env ?r"]) simp
qed

subsection \<open>Reading a block\<close>

lemma receivebyte_array_ok:
  assumes "replies env cs (the_card (sd_bus sd)) (concat (map bits_of dat)) c" "pin_cs (sd_bus sd) = cs" "(sd_csl sd \<noteq> 0) = cs" "dat \<noteq> []"
  shows "sdc_receivebyte_array env (length dat) sd = (dat, sd\<lparr>sd_din := 0, sd_clk := 0, sd_bus := after_rx c (sd_bus sd)\<rparr>)"
  using receive_bytes_eq [OF assms(2,1,4)] assms(3) by (simp add: sdc_receivebyte_array_def)

lemma receivebyte_ok:
  assumes "replies env cs (the_card (sd_bus sd)) (bits_of x) c" "pin_cs (sd_bus sd) = cs" "(sd_csl sd \<noteq> 0) = cs"
  shows "sdc_receivebyte env sd = (x, sd\<lparr>sd_din := 0, sd_clk := 0, sd_bus := after_rx c (sd_bus sd)\<rparr>)"
  using receivebyte_array_ok [of env cs sd "[x]" c] assms by (simp add: sdc_receivebyte_def)

text \<open>What a card sends for one block: an idle line, the data, a checksum and eight more bits.\<close>

definition data_block :: "nat \<Rightarrow> byte list \<Rightarrow> byte list \<Rightarrow> bool list" where
  "data_block j dat crc = replicate j True @ False # concat (map bits_of dat) @ concat (map bits_of crc)"

text \<open>Eight clocks with the card deselected, and the state after them.\<close>

definition idle_clocks :: "'c card_env \<Rightarrow> 'c \<Rightarrow> 'c" where
  "idle_clocks env c = (rx env True ^^ 8) (on_pins env True True False c)"

lemma replies_any: "replies env cs c (map (\<lambda>i. dout env ((rx env cs ^^ Suc i) c)) [0..<n]) ((rx env cs ^^ n) c)"
proof (induction n)
  case (Suc n)
  have "replies env cs ((rx env cs ^^ n) c) [dout env ((rx env cs ^^ Suc n) c)] ((rx env cs ^^ Suc n) c)" by simp
  with Suc show ?case unfolding upt_Suc_append [OF le0] map_append list.map replies_append by blast
qed simp

lemma bits_of_byte_of: "length bs = 8 \<Longrightarrow> bits_of (byte_of bs) = bs"
  by (rule nth_equalityI) (auto simp: bits_of_def bit_byte_of rev_nth nth_Cons eval_nat_numeral split: nat.splits)

lemma receivebyte_idle:
  assumes "pin_cs (sd_bus sd)" "sd_csl sd \<noteq> 0"
  shows "snd (sdc_receivebyte env sd) = sd\<lparr>sd_din := 0, sd_clk := 0, sd_bus := after_rx ((rx env True ^^ 8) (the_card (sd_bus sd))) (sd_bus sd)\<rparr>"
proof -
  let ?bs = "map (\<lambda>i. dout env ((rx env True ^^ Suc i) (the_card (sd_bus sd)))) [0..<8]"
  have "length ?bs = 8" by simp
  then have "replies env True (the_card (sd_bus sd)) (bits_of (byte_of ?bs)) ((rx env True ^^ 8) (the_card (sd_bus sd)))"
    using replies_any [of env True "the_card (sd_bus sd)" 8] by (simp only: bits_of_byte_of)
  from receivebyte_ok [OF this] show ?thesis using assms by simp
qed

lemma read_block_lemma:
  assumes d: "at_card sd False c" and r: "replies env False c (data_block j dat crc) c'"
    and j: "j \<le> SDC_POLL_COUNTMAX" and l: "length dat = SDC_BLOCK_SIZE" "length crc = 3"
  shows "\<exists>sd'. read_blocks 1 env p buffer sd = (True, mem_write p dat buffer, sd') \<and> at_card sd' False c' \<and> packet_frame sd sd'
    \<and> packet_timeout sd' = packet_timeout sd \<and> stat_reg_buffer sd' = stat_reg_buffer sd"
proof -
  obtain x y z where crc: "crc = [x, y, z]" using l(2) by (auto simp: length_Suc_conv numeral_3_eq_3)
  have at: "pin_cs (sd_bus sd) = False" "sd_csl sd = 0" "the_card (sd_bus sd) = c" using d by (simp_all add: at_card_def)
  have eq: "data_block j dat crc = (replicate j True @ [False]) @ concat (map bits_of dat) @ bits_of x @ bits_of y @ bits_of z"
    by (simp add: data_block_def crc)
  obtain c1 c2 c3 c4 where c: "replies env False c (replicate j True @ [False]) c1" "replies env False c1 (concat (map bits_of dat)) c2"
    "replies env False c2 (bits_of x) c3" "replies env False c3 (bits_of y) c4" "replies env False c4 (bits_of z) c'"
    using r unfolding eq replies_append by blast
  let ?s = "\<lambda>c. sd\<lparr>sd_bus := after_rx c (sd_bus sd)\<rparr>"
  let ?t = "\<lambda>c. sd\<lparr>sd_din := 0, sd_clk := 0, sd_bus := after_rx c (sd_bus sd)\<rparr>"
  have s1: "packet_start_bit env sd = (True, ?s c1)"
    by (rule start_bit_found) (use c(1) at j in simp_all)
  have ne: "dat \<noteq> []" using l(1) by auto
  have s2: "sdc_receivebyte_array env SDC_BLOCK_SIZE (?s c1) = (dat, ?t c2)"
    using receivebyte_array_ok [of env False "?s c1" dat c2] c(2) at ne l(1) by simp
  have s3: "snd (sdc_receivebyte env (?t c2)) = ?t c3" using receivebyte_ok [of env False "?t c2" x c3] c(3) at by simp
  have s4: "snd (sdc_receivebyte env (?t c3)) = ?t c4" using receivebyte_ok [of env False "?t c3" y c4] c(4) at by simp
  have s5: "snd (sdc_receivebyte env (?t c4)) = ?t c'" using receivebyte_ok [of env False "?t c4" z c'] c(5) at by simp
  have "read_blocks (Suc 0) env p buffer sd = (True, mem_write p dat buffer, ?t c')"
    by (simp only: read_blocks.simps s1 Let_def prod.case simp_thms if_False s2 s3 s4 s5)
  moreover have "at_card (?t c') False c'" "packet_frame sd (?t c')"
    using at by (simp_all add: at_card_def packet_frame_def kept_part_def)
  ultimately show ?thesis by auto
qed

lemma read_packet_lemma:
  assumes "replies env False (command_sent env SDC_READ_SINGLE_BLOCK s sd) (replicate k True @ False # r1) c1" "length r1 = 7"
    and "k \<le> SDC_POLL_COUNTMAX" "0 < length (stat_reg_buffer sd)"
    and "replies env False c1 (data_block j dat crc) c2" "j \<le> SDC_POLL_COUNTMAX" "length dat = SDC_BLOCK_SIZE" "length crc = 3"
  shows "\<exists>sd'. sdc_sendpacket env SDC_READ_SINGLE_BLOCK s buffer 1 sd = (byte_of r1, mem_write 0 dat buffer, sd')
    \<and> at_card sd' True (idle_clocks env c2) \<and> packet_frame sd sd' \<and> packet_timeout sd' = 0
    \<and> length (stat_reg_buffer sd') = length (stat_reg_buffer sd)"
proof -
  have one: "fst (response_lengths SDC_READ_SINGLE_BLOCK) = 1" by (simp add: response_lengths_def)
  obtain t1 where t1: "packet_command env SDC_READ_SINGLE_BLOCK s sd = (True, t1)" "at_card t1 False c1" "packet_frame sd t1"
    "packet_timeout t1 = 0" "length (stat_reg_buffer t1) = length (stat_reg_buffer sd)" "stat_reg_buffer t1 ! 0 = byte_of r1"
    using packet_command_ok [OF assms(1-3) one assms(4)] by blast
  obtain t2 where t2: "read_blocks 1 env 0 buffer t1 = (True, mem_write 0 dat buffer, t2)" "at_card t2 False c2" "packet_frame t1 t2"
    "packet_timeout t2 = packet_timeout t1" "stat_reg_buffer t2 = stat_reg_buffer t1"
    using read_block_lemma [OF t1(2) assms(5-8)] by blast
  let ?t3 = "sdc_cs_deassert env t2"
  let ?t4 = "snd (sdc_receivebyte env ?t3)"
  have t4: "?t4 = ?t3\<lparr>sd_din := 0, sd_clk := 0, sd_bus := after_rx ((rx env True ^^ 8) (the_card (sd_bus ?t3))) (sd_bus ?t3)\<rparr>"
    by (rule receivebyte_idle) (simp_all add: cs_simps set_pins_def)
  have c3: "the_card (sd_bus ?t3) = on_pins env True True False c2" "pin_cs (sd_bus ?t3)" "sd_csl ?t3 \<noteq> 0"
    using t2(2) by (simp_all add: cs_simps set_pins_def at_card_def)
  have "sdc_sendpacket env SDC_READ_SINGLE_BLOCK s buffer 1 sd
      = (stat_reg_buffer (packet_done env ?t4) ! 0, mem_write 0 dat buffer, packet_done env ?t4)"
    by (simp add: sdc_sendpacket_def t1(1) read_phase_def t2(1) Let_def del: read_blocks.simps)
      (simp add: t2(1) [unfolded One_nat_def] Let_def del: read_blocks.simps)
  moreover have "stat_reg_buffer (packet_done env ?t4) = stat_reg_buffer t1" "packet_timeout (packet_done env ?t4) = 0"
    using t1(4) t2(4,5) unfolding packet_done_def t4 by (simp_all add: cs_simps)
  moreover have "at_card (packet_done env ?t4) True (idle_clocks env c2)"
    using c3 unfolding packet_done_def t4 by (simp add: at_card_def idle_clocks_def)
  moreover have "packet_frame t2 (packet_done env ?t4)"
    unfolding packet_done_def t4 by (simp add: packet_frame_def kept_part_def cs_simps sdc_ledset_def on_bus_def Let_def)
  then have "packet_frame sd (packet_done env ?t4)"
    using packet_frame_trans [OF packet_frame_trans [OF t1(3) t2(3)]] by blast
  ultimately show ?thesis using t1(5,6) by auto
qed

subsection \<open>Writing a block\<close>

definition busy_then :: "nat \<Rightarrow> byte \<Rightarrow> bool list" where
  "busy_then j x = concat (map bits_of (replicate j 0 @ [x]))"

lemma wait_idle_ok:
  assumes "replies env cs (the_card (sd_bus sd)) (busy_then j x) c" "pin_cs (sd_bus sd) = cs" "(sd_csl sd \<noteq> 0) = cs" "x \<noteq> 0" "j \<le> n"
  shows "wait_idle n env sd = (True, sd\<lparr>sd_din := 0, sd_clk := 0, sd_bus := after_rx c (sd_bus sd)\<rparr>)"
  using assms
proof (induction j arbitrary: n sd)
  case 0
  then have "sdc_receivebyte env sd = (x, sd\<lparr>sd_din := 0, sd_clk := 0, sd_bus := after_rx c (sd_bus sd)\<rparr>)"
    by (intro receivebyte_ok) (simp_all add: busy_then_def)
  then show ?case using 0 by (subst wait_idle.simps) simp
next
  case (Suc j)
  then obtain m where m: "n = Suc m" "j \<le> m" by (cases n) auto
  have "busy_then (Suc j) x = bits_of 0 @ busy_then j x" by (simp add: busy_then_def)
  then obtain c1 where c1: "replies env cs (the_card (sd_bus sd)) (bits_of 0) c1" "replies env cs c1 (busy_then j x) c"
    using Suc.prems(1) by (auto simp: replies_append)
  let ?t = "sd\<lparr>sd_din := 0, sd_clk := 0, sd_bus := after_rx c1 (sd_bus sd)\<rparr>"
  have r: "sdc_receivebyte env sd = (0, ?t)" by (rule receivebyte_ok [OF c1(1) Suc.prems(2,3)])
  have "wait_idle m env ?t = (True, ?t\<lparr>sd_din := 0, sd_clk := 0, sd_bus := after_rx c (sd_bus ?t)\<rparr>)"
    by (rule Suc.IH) (use c1(2) Suc.prems(2-4) m(2) in simp_all)
  then show ?case by (subst wait_idle.simps) (simp add: r m(1))
qed

text \<open>The states of the card while a block is written and when it is asked again whether it is busy.\<close>

definition block_sent :: "'c card_env \<Rightarrow> byte list \<Rightarrow> 'c \<Rightarrow> 'c" where
  "block_sent env dat c = tx_bytes env False (0xFE # dat @ [0xFF, 0xFF]) c"

definition asked_again :: "'c card_env \<Rightarrow> 'c \<Rightarrow> 'c" where
  "asked_again env c = on_pins env False True True (tx_bytes env True [0xFF] (on_pins env True True False c))"

lemma write_block_lemma:
  assumes d: "at_card sd False c" and l: "length (mem_read p SDC_BLOCK_SIZE buffer) = SDC_BLOCK_SIZE"
    and r: "replies env False (block_sent env (mem_read p SDC_BLOCK_SIZE buffer) c) (bits_of tmp) c1" "tmp AND 0x1F = 0x05"
    and w: "replies env False c1 (busy_then j x) c2" "x \<noteq> 0" "j \<le> SDC_POLL_COUNTMAX + 1"
  shows "\<exists>sd'. write_blocks 1 env False p buffer sd = (True, sd') \<and> at_card sd' False c2 \<and> packet_frame sd sd'
    \<and> packet_timeout sd' = packet_timeout sd \<and> stat_reg_buffer sd' = stat_reg_buffer sd"
proof -
  let ?dat = "mem_read p SDC_BLOCK_SIZE buffer"
  have ne: "?dat \<noteq> []" using l by auto
  have at: "\<not> pin_cs (sd_bus sd)" "sd_csl sd = 0" "the_card (sd_bus sd) = c" using d by (simp_all add: at_card_def)
  let ?t = "sdc_sendbyte env 0xFF (sdc_sendbyte env 0xFF (sdc_sendbyte_array env ?dat (sdc_sendbyte env 0xFE sd)))"
  have t: "the_card (sd_bus ?t) = block_sent env ?dat c" "pin_cs (sd_bus ?t) = False" "(sd_csl ?t \<noteq> 0) = False"
    "packet_timeout ?t = packet_timeout sd" "stat_reg_buffer ?t = stat_reg_buffer sd" "packet_frame sd ?t"
  proof -
    have b: "tx_bytes env False [0xFF] (tx_bytes env False [0xFF] (tx_bytes env False ?dat (tx_bytes env False [0xFE] c)))
        = block_sent env ?dat c"
      unfolding block_sent_def by (simp add: tx_bytes_append [symmetric])
    show "the_card (sd_bus ?t) = block_sent env ?dat c"
      using at ne by (simp add: sdc_sendbyte_def sendbyte_array_eq) (simp add: b)
    show "pin_cs (sd_bus ?t) = False" "(sd_csl ?t \<noteq> 0) = False"
      "packet_timeout ?t = packet_timeout sd" "stat_reg_buffer ?t = stat_reg_buffer sd" "packet_frame sd ?t"
      using at ne by (simp_all add: sdc_sendbyte_def sendbyte_array_eq packet_frame_def kept_part_def)
  qed
  let ?u = "?t\<lparr>sd_din := 0, sd_clk := 0, sd_bus := after_rx c1 (sd_bus ?t)\<rparr>"
  have u: "sdc_receivebyte env ?t = (tmp, ?u)"
    by (rule receivebyte_ok) (use r(1) t in \<open>simp_all only:\<close>)
  let ?v = "?u\<lparr>sd_din := 0, sd_clk := 0, sd_bus := after_rx c2 (sd_bus ?u)\<rparr>"
  have v: "wait_idle (SDC_POLL_COUNTMAX + 1) env ?u = (True, ?v)"
    by (rule wait_idle_ok [OF _ _ _ w(2,3)]) (use w(1) t in \<open>simp_all del: One_nat_def\<close>)
  have "write_blocks (Suc 0) env False p buffer sd = (True, ?v)"
    using r(2) by (simp only: write_blocks.simps if_False Let_def u v prod.case simp_thms)
  moreover have "at_card ?v False c2" "packet_frame ?t ?v"
    using t by (simp_all add: at_card_def packet_frame_def kept_part_def)
  ultimately show ?thesis using t packet_frame_trans [OF t(6)] by (intro exI [of _ ?v]) simp
qed

lemma check_idle_lemma:
  assumes d: "at_card sd False c" and w: "replies env False (asked_again env c) (busy_then j x) c1" "x \<noteq> 0" "j \<le> SDC_POLL_COUNTMAX + 1"
  shows "\<exists>sd'. check_idle env sd = (True, sd') \<and> at_card sd' True (on_pins env True True False c1) \<and> packet_frame sd sd'
    \<and> packet_timeout sd' = packet_timeout sd \<and> stat_reg_buffer sd' = stat_reg_buffer sd"
proof -
  have at: "pin_din (sd_bus sd)" "\<not> pin_clk (sd_bus sd)" "the_card (sd_bus sd) = c" using d by (simp_all add: at_card_def)
  let ?t = "sdc_cs_assert env (sdc_sendbyte env 0xFF (sdc_cs_deassert env sd))"
  have t: "the_card (sd_bus ?t) = asked_again env c" "pin_cs (sd_bus ?t) = False" "(sd_csl ?t \<noteq> 0) = False"
    "packet_timeout ?t = packet_timeout sd" "stat_reg_buffer ?t = stat_reg_buffer sd" "packet_frame sd ?t"
    using at by (simp_all add: sdc_sendbyte_def sendbyte_array_eq cs_simps set_pins_def asked_again_def packet_frame_def kept_part_def)
  let ?v = "?t\<lparr>sd_din := 0, sd_clk := 0, sd_bus := after_rx c1 (sd_bus ?t)\<rparr>"
  have v: "wait_idle (SDC_POLL_COUNTMAX + 1) env ?t = (True, ?v)"
    by (rule wait_idle_ok [OF _ _ _ w(2,3)]) (use w(1) t in \<open>simp_all only:\<close>)
  have "check_idle env sd = (True, sdc_cs_deassert env ?v)"
    unfolding check_idle_def by (simp only: v Let_def prod.case if_True)
  moreover have "at_card (sdc_cs_deassert env ?v) True (on_pins env True True False c1)" "packet_frame ?t (sdc_cs_deassert env ?v)"
    using t by (simp_all add: at_card_def cs_simps set_pins_def packet_frame_def kept_part_def)
  ultimately show ?thesis using t packet_frame_trans [OF t(6)] by (intro exI [of _ "sdc_cs_deassert env ?v"]) (simp add: cs_simps)
qed

lemma write_packet_lemma:
  assumes "replies env False (command_sent env SDC_WRITE_SINGLE_BLOCK s sd) (replicate k True @ False # r1) c1" "length r1 = 7"
    and "k \<le> SDC_POLL_COUNTMAX" "0 < length (stat_reg_buffer sd)" "SDC_BLOCK_SIZE \<le> length buffer"
    and "replies env False (block_sent env (take SDC_BLOCK_SIZE buffer) c1) (bits_of tmp) c2" "tmp AND 0x1F = 0x05"
    and "replies env False c2 (busy_then j x) c3" "x \<noteq> 0" "j \<le> SDC_POLL_COUNTMAX + 1"
    and "replies env False (asked_again env c3) (busy_then i y) c4" "y \<noteq> 0" "i \<le> SDC_POLL_COUNTMAX + 1"
  shows "\<exists>sd'. sdc_sendpacket env SDC_WRITE_SINGLE_BLOCK s buffer 1 sd = (byte_of r1, buffer, sd')
    \<and> at_card sd' True (on_pins env True True False c4) \<and> packet_frame sd sd' \<and> packet_timeout sd' = 0
    \<and> length (stat_reg_buffer sd') = length (stat_reg_buffer sd)"
proof -
  have one: "fst (response_lengths SDC_WRITE_SINGLE_BLOCK) = 1" by (simp add: response_lengths_def)
  obtain t1 where t1: "packet_command env SDC_WRITE_SINGLE_BLOCK s sd = (True, t1)" "at_card t1 False c1" "packet_frame sd t1"
    "packet_timeout t1 = 0" "length (stat_reg_buffer t1) = length (stat_reg_buffer sd)" "stat_reg_buffer t1 ! 0 = byte_of r1"
    using packet_command_ok [OF assms(1-3) one assms(4)] by blast
  have rd: "mem_read 0 SDC_BLOCK_SIZE buffer = take SDC_BLOCK_SIZE buffer" by (simp add: mem_read_def)
  have "length (mem_read 0 SDC_BLOCK_SIZE buffer) = SDC_BLOCK_SIZE" using assms(5) by (simp add: rd)
  then obtain t2 where t2: "write_blocks 1 env False 0 buffer t1 = (True, t2)" "at_card t2 False c3" "packet_frame t1 t2"
    "packet_timeout t2 = packet_timeout t1" "stat_reg_buffer t2 = stat_reg_buffer t1"
    using write_block_lemma [OF t1(2) _ _ assms(7-10), of 0 buffer] assms(6) unfolding rd by blast
  obtain t3 where t3: "check_idle env t2 = (True, t3)" "at_card t3 True (on_pins env True True False c4)" "packet_frame t2 t3"
    "packet_timeout t3 = packet_timeout t2" "stat_reg_buffer t3 = stat_reg_buffer t2"
    using check_idle_lemma [OF t2(2) assms(11-13)] by blast
  have ph: "write_phase env SDC_WRITE_SINGLE_BLOCK buffer 1 t1 = (True, t3)"
    by (simp add: write_phase_def t2(1) [unfolded One_nat_def] t3(1) Let_def del: write_blocks.simps)
  have "sdc_sendpacket env SDC_WRITE_SINGLE_BLOCK s buffer 1 sd
      = (stat_reg_buffer (packet_done env t3) ! 0, buffer, packet_done env t3)"
    by (simp add: sdc_sendpacket_def t1(1) ph [unfolded One_nat_def] Let_def)
  moreover have "packet_frame t3 (packet_done env t3)"
    by (simp add: packet_frame_def kept_part_def packet_done_def sdc_ledset_def on_bus_def Let_def)
  then have "packet_frame sd (packet_done env t3)"
    using packet_frame_trans [OF packet_frame_trans [OF packet_frame_trans [OF t1(3) t2(3)] t3(3)]] by blast
  moreover have "at_card (packet_done env t3) True (on_pins env True True False c4)"
    "stat_reg_buffer (packet_done env t3) = stat_reg_buffer t3" "packet_timeout (packet_done env t3) = packet_timeout t3"
    using t3(2) by (simp_all add: packet_done_def at_card_def)
  ultimately show ?thesis using t1(4-6) t2(4,5) t3(4,5) by auto
qed

subsection \<open>The card as a medium\<close>

text \<open>
  The card reads and writes through \<open>fat_media_read\<close> and \<open>fat_media_write\<close> of the Saturn
  (\<open>fat_global.c\<close> with \<open>SC_SATURN\<close>): the answer is that the last packet did not time out.
\<close>

definition sd_media_read :: "'c card_env \<Rightarrow> 'c sdcard_t diskio_read" where
  "sd_media_read env sector buffer sector_count sd =
     (let (r, buffer, sd) = sdc_read_multiple_blocks env sector buffer sector_count sd
      in (packet_timeout sd = 0, buffer, sd))"

definition sd_media_write :: "'c card_env \<Rightarrow> 'c sdcard_t diskio_write" where
  "sd_media_write env sector buffer sector_count sd =
     (let (r, sd) = sdc_write_multiple_blocks env sector buffer sector_count sd
      in (packet_timeout sd = 0, sd))"

text \<open>
  What the specification asks of a card of \<open>n\<close> blocks that is ready (\<open>ready c\<close>) and addressed as \<open>v\<close>, the
  flag \<open>ccs\<close> of the driver, says: after the command to read block \<open>s\<close> it answers with a response and the
  data of the block, after the command to write it with a response, and after the block with a byte
  that says it was accepted and with null bytes while it is busy. All waiting times are within the
  driver's limits, and the card is ready again after the clocks that follow.
\<close>

text \<open>The argument of these commands: a standard card counts bytes, one of high capacity counts blocks.\<close>

definition block_address :: "byte \<Rightarrow> u32 \<Rightarrow> u32" where
  "block_address v s = (if v = 0 then 512 * s else s)"

definition commanded :: "'c card_env \<Rightarrow> byte \<Rightarrow> byte \<Rightarrow> u32 \<Rightarrow> 'c \<Rightarrow> 'c" where
  "commanded env v cmd s c = tx_bytes env False (command_bytes cmd (block_address v s)) (on_pins env False True False c)"

definition reads_blocks :: "'c card_env \<Rightarrow> byte \<Rightarrow> ('c \<Rightarrow> u32 \<Rightarrow> byte list) \<Rightarrow> nat \<Rightarrow> ('c \<Rightarrow> bool) \<Rightarrow> bool" where
  "reads_blocks env v blocks n ready \<longleftrightarrow> (\<forall>c s. ready c \<longrightarrow> unat s < n \<longrightarrow>
     (\<exists>k r1 c1 j crc c2. k \<le> SDC_POLL_COUNTMAX \<and> length r1 = 7 \<and> j \<le> SDC_POLL_COUNTMAX \<and> length crc = 3
       \<and> replies env False (commanded env v SDC_READ_SINGLE_BLOCK s c) (replicate k True @ False # r1) c1
       \<and> replies env False c1 (data_block j (blocks c s) crc) c2
       \<and> ready (idle_clocks env c2) \<and> (\<forall>t. unat t < n \<longrightarrow> blocks (idle_clocks env c2) t = blocks c t)))"

definition writes_blocks :: "'c card_env \<Rightarrow> byte \<Rightarrow> ('c \<Rightarrow> u32 \<Rightarrow> byte list) \<Rightarrow> nat \<Rightarrow> ('c \<Rightarrow> bool) \<Rightarrow> bool" where
  "writes_blocks env v blocks n ready \<longleftrightarrow> (\<forall>c s dat. ready c \<longrightarrow> unat s < n \<longrightarrow> length dat = SDC_BLOCK_SIZE \<longrightarrow>
     (\<exists>k r1 c1 tmp c2 j x c3 i y c4. k \<le> SDC_POLL_COUNTMAX \<and> length r1 = 7 \<and> tmp AND 0x1F = 0x05
       \<and> j \<le> SDC_POLL_COUNTMAX \<and> x \<noteq> 0 \<and> i \<le> SDC_POLL_COUNTMAX \<and> y \<noteq> 0
       \<and> replies env False (commanded env v SDC_WRITE_SINGLE_BLOCK s c) (replicate k True @ False # r1) c1
       \<and> replies env False (block_sent env dat c1) (bits_of tmp) c2
       \<and> replies env False c2 (busy_then j x) c3
       \<and> replies env False (asked_again env c3) (busy_then i y) c4
       \<and> ready (on_pins env True True False c4) \<and> blocks (on_pins env True True False c4) s = dat
       \<and> (\<forall>t. unat t < n \<longrightarrow> t \<noteq> s \<longrightarrow> blocks (on_pins env True True False c4) t = blocks c t)))"

definition sd_card :: "'c card_env \<Rightarrow> byte \<Rightarrow> ('c \<Rightarrow> u32 \<Rightarrow> byte list) \<Rightarrow> nat \<Rightarrow> ('c \<Rightarrow> bool) \<Rightarrow> bool" where
  "sd_card env v blocks n ready \<longleftrightarrow> reads_blocks env v blocks n ready \<and> writes_blocks env v blocks n ready
     \<and> n < 2 ^ 32 \<and> (\<forall>c s. ready c \<longrightarrow> unat s < n \<longrightarrow> length (blocks c s) = SDC_BLOCK_SIZE)"

definition sd_sector :: "('c \<Rightarrow> u32 \<Rightarrow> byte list) \<Rightarrow> 'c sdcard_t \<Rightarrow> u32 \<Rightarrow> byte list" where
  "sd_sector blocks sd s = blocks (the_card (sd_bus sd)) s"

definition sd_valid :: "byte \<Rightarrow> ('c \<Rightarrow> bool) \<Rightarrow> 'c sdcard_t \<Rightarrow> bool" where
  "sd_valid v ready sd \<longleftrightarrow> ready (the_card (sd_bus sd)) \<and> at_card sd True (the_card (sd_bus sd)) \<and> ccs sd = v
     \<and> length (stat_reg_buffer sd) = SDC_CMDBUFFER_LEN"

definition same_blocks :: "('c \<Rightarrow> u32 \<Rightarrow> byte list) \<Rightarrow> nat \<Rightarrow> 'c sdcard_t \<Rightarrow> 'c sdcard_t \<Rightarrow> bool" where
  "same_blocks blocks n sd sd' \<longleftrightarrow> (\<forall>t. unat t < n \<longrightarrow> sd_sector blocks sd' t = sd_sector blocks sd t)"

lemma packet_arg_block:
  "packet_arg v SDC_READ_SINGLE_BLOCK s = block_address v s" "packet_arg v SDC_WRITE_SINGLE_BLOCK s = block_address v s"
  by (simp_all add: packet_arg_def block_address_def push_bit_eq_mult)

lemma commanded_sent:
  assumes "sd_valid v ready sd"
  shows "command_sent env SDC_READ_SINGLE_BLOCK s sd = commanded env v SDC_READ_SINGLE_BLOCK s (the_card (sd_bus sd))"
    "command_sent env SDC_WRITE_SINGLE_BLOCK s sd = commanded env v SDC_WRITE_SINGLE_BLOCK s (the_card (sd_bus sd))"
  using assms by (simp_all add: sd_valid_def at_card_def command_sent_def commanded_def packet_arg_block)

lemma sd_valid_after:
  "at_card sd' True c \<Longrightarrow> ready c \<Longrightarrow> packet_frame sd sd' \<Longrightarrow> length (stat_reg_buffer sd') = length (stat_reg_buffer sd)
    \<Longrightarrow> sd_valid v ready sd \<Longrightarrow> sd_valid v ready sd'"
  using packet_frame_fields(1) by (fastforce simp: sd_valid_def at_card_def)

lemma sd_read_one:
  assumes "sd_card env v blocks n ready" "sd_valid v ready sd" "unat s < n"
  shows "\<exists>r sd'. sdc_sendpacket env SDC_READ_SINGLE_BLOCK s buffer 1 sd = (r, mem_write 0 (sd_sector blocks sd s) buffer, sd')
    \<and> sd_valid v ready sd' \<and> packet_timeout sd' = 0 \<and> same_blocks blocks n sd sd' \<and> packet_frame sd sd'"
proof -
  let ?c = "the_card (sd_bus sd)"
  have c: "ready ?c" "0 < length (stat_reg_buffer sd)" "length (blocks ?c s) = SDC_BLOCK_SIZE"
    using assms by (simp_all add: sd_valid_def sd_card_def)
  have "reads_blocks env v blocks n ready" using assms(1) by (simp add: sd_card_def)
  then obtain k r1 c1 j crc c2 where r: "k \<le> SDC_POLL_COUNTMAX" "length r1 = 7" "j \<le> SDC_POLL_COUNTMAX" "length crc = 3"
    "replies env False (commanded env v SDC_READ_SINGLE_BLOCK s ?c) (replicate k True @ False # r1) c1"
    "replies env False c1 (data_block j (blocks ?c s) crc) c2"
    "ready (idle_clocks env c2)" "\<forall>t. unat t < n \<longrightarrow> blocks (idle_clocks env c2) t = blocks ?c t"
    unfolding reads_blocks_def using c(1) assms(3) by blast
  obtain sd' where s: "sdc_sendpacket env SDC_READ_SINGLE_BLOCK s buffer 1 sd = (byte_of r1, mem_write 0 (blocks ?c s) buffer, sd')"
    "at_card sd' True (idle_clocks env c2)" "packet_frame sd sd'" "packet_timeout sd' = 0"
    "length (stat_reg_buffer sd') = length (stat_reg_buffer sd)"
    using read_packet_lemma [OF r(5) [folded commanded_sent(1) [OF assms(2)]] r(2,1) c(2) r(6,3) c(3) r(4)] by blast
  have "the_card (sd_bus sd') = idle_clocks env c2" using s(2) by (simp add: at_card_def)
  then show ?thesis
    using s(1,3,4) sd_valid_after [where ready = ready, OF s(2) r(7) s(3,5) assms(2)] r(8) by (simp add: same_blocks_def sd_sector_def)
qed

lemma sd_write_one:
  assumes "sd_card env v blocks n ready" "sd_valid v ready sd" "unat s < n" "SDC_BLOCK_SIZE \<le> length buffer"
  shows "\<exists>r sd'. sdc_sendpacket env SDC_WRITE_SINGLE_BLOCK s buffer 1 sd = (r, buffer, sd')
    \<and> sd_valid v ready sd' \<and> packet_timeout sd' = 0 \<and> sd_sector blocks sd' s = take SDC_BLOCK_SIZE buffer
    \<and> (\<forall>t. unat t < n \<longrightarrow> t \<noteq> s \<longrightarrow> sd_sector blocks sd' t = sd_sector blocks sd t) \<and> packet_frame sd sd'"
proof -
  let ?c = "the_card (sd_bus sd)" and ?dat = "take SDC_BLOCK_SIZE buffer"
  have c: "ready ?c" "0 < length (stat_reg_buffer sd)" "length ?dat = SDC_BLOCK_SIZE"
    using assms by (simp_all add: sd_valid_def)
  have "writes_blocks env v blocks n ready" using assms(1) by (simp add: sd_card_def)
  note w = this [unfolded writes_blocks_def, rule_format, OF c(1) assms(3) c(3)]
  obtain k r1 c1 tmp c2 j x c3 i y c4 where r: "k \<le> SDC_POLL_COUNTMAX" "length r1 = 7" "tmp AND 0x1F = 0x05"
    "j \<le> SDC_POLL_COUNTMAX" "x \<noteq> 0" "i \<le> SDC_POLL_COUNTMAX" "y \<noteq> 0"
    "replies env False (commanded env v SDC_WRITE_SINGLE_BLOCK s ?c) (replicate k True @ False # r1) c1"
    "replies env False (block_sent env ?dat c1) (bits_of tmp) c2"
    "replies env False c2 (busy_then j x) c3"
    "replies env False (asked_again env c3) (busy_then i y) c4"
    "ready (on_pins env True True False c4)" "blocks (on_pins env True True False c4) s = ?dat"
    "\<forall>t. unat t < n \<longrightarrow> t \<noteq> s \<longrightarrow> blocks (on_pins env True True False c4) t = blocks ?c t"
    using w by (elim exE conjE) (rule that)
  have le: "j \<le> SDC_POLL_COUNTMAX + 1" "i \<le> SDC_POLL_COUNTMAX + 1" using r(4,6) by simp_all
  obtain sd' where s: "sdc_sendpacket env SDC_WRITE_SINGLE_BLOCK s buffer 1 sd = (byte_of r1, buffer, sd')"
    "at_card sd' True (on_pins env True True False c4)" "packet_frame sd sd'" "packet_timeout sd' = 0"
    "length (stat_reg_buffer sd') = length (stat_reg_buffer sd)"
    using write_packet_lemma [OF r(8) [folded commanded_sent(2) [OF assms(2)]] r(2,1) c(2) assms(4) r(9,3,10,5) le(1) r(11,7) le(2)]
    by blast
  have "the_card (sd_bus sd') = on_pins env True True False c4" using s(2) by (simp add: at_card_def)
  then show ?thesis
    using s(1,3,4) sd_valid_after [where ready = ready, OF s(2) r(12) s(3,5) assms(2)] r(13,14) by (simp add: sd_sector_def)
qed

text \<open>A run of blocks that are read one after the other.\<close>

lemma read_multiple_lemma:
  assumes card: "sd_card env v blocks n ready"
  shows "sd_valid v ready sd \<Longrightarrow> unat s + i + k \<le> n \<Longrightarrow> SDC_BLOCK_SIZE * (i + k) \<le> length buffer \<Longrightarrow>
    \<exists>r sd'. read_multiple k env s i resp buffer sd = (r, take (SDC_BLOCK_SIZE * i) buffer
        @ concat (map (\<lambda>m. sd_sector blocks sd (s + word_of_nat m)) [i..<i + k]) @ drop (SDC_BLOCK_SIZE * (i + k)) buffer, sd')
      \<and> sd_valid v ready sd' \<and> (k = 0 \<or> packet_timeout sd' = 0) \<and> same_blocks blocks n sd sd' \<and> packet_frame sd sd'"
proof (induction k arbitrary: i sd buffer resp)
  case 0
  then show ?case by (simp add: same_blocks_def)
next
  case (Suc k)
  have n: "n < 2 ^ 32" using card by (simp add: sd_card_def)
  have si: "unat (s + word_of_nat i) = unat s + i"
    using Suc.prems(2) n unat_add_lem [of s "word_of_nat i"] unat_word_of_nat [of i, where 'a = 32] by simp
  then have lt: "unat (s + word_of_nat i) < n" using Suc.prems(2) by simp
  let ?B = "sd_sector blocks sd (s + word_of_nat i)"
  let ?buf = "take (512 * i) buffer @ mem_write 0 ?B (drop (512 * i) buffer)"
  obtain r sd1 where s1: "sdc_sendpacket env SDC_READ_SINGLE_BLOCK (s + word_of_nat i) (drop (512 * i) buffer) 1 sd
      = (r, mem_write 0 ?B (drop (512 * i) buffer), sd1)" "sd_valid v ready sd1" "packet_timeout sd1 = 0"
    "same_blocks blocks n sd sd1" "packet_frame sd sd1"
    using sd_read_one [OF card Suc.prems(1) lt] by blast
  have B: "length ?B = 512" using card Suc.prems(1) lt by (simp add: sd_card_def sd_valid_def sd_sector_def)
  have buf: "?buf = take (512 * i) buffer @ ?B @ drop (512 * Suc i) buffer" "length (take (512 * i) buffer) = 512 * i"
    "length ?buf = length buffer"
    using Suc.prems(3) B by (simp_all add: mem_write_def add.commute)
  have "unat s + Suc i + k \<le> n" "512 * (Suc i + k) \<le> length ?buf" using Suc.prems(2,3) buf(3) by simp_all
  from Suc.IH [OF s1(2) this, of "shifted_response r"]
  obtain r2 sd2 where s2: "read_multiple k env s (Suc i) (shifted_response r) ?buf sd1 = (r2, take (512 * Suc i) ?buf
        @ concat (map (\<lambda>m. sd_sector blocks sd1 (s + word_of_nat m)) [Suc i..<Suc i + k]) @ drop (512 * (Suc i + k)) ?buf, sd2)"
    "sd_valid v ready sd2" "k = 0 \<or> packet_timeout sd2 = 0" "same_blocks blocks n sd1 sd2" "packet_frame sd1 sd2"
    by blast
  have eq: "take (512 * Suc i) ?buf = take (512 * i) buffer @ ?B" "drop (512 * (Suc i + k)) ?buf = drop (512 * (Suc i + k)) buffer"
    using buf(1,2) B by (simp_all add: ac_simps)
  have same: "map (\<lambda>m. sd_sector blocks sd1 (s + word_of_nat m)) [Suc i..<Suc i + k]
      = map (\<lambda>m. sd_sector blocks sd (s + word_of_nat m)) [Suc i..<Suc i + k]"
  proof (rule map_cong [OF refl])
    fix m assume "m \<in> set [Suc i..<Suc i + k]"
    then have "m < i + Suc k" by auto
    then have "unat (s + word_of_nat m) = unat s + m"
      using Suc.prems(2) n unat_add_lem [of s "word_of_nat m"] unat_word_of_nat [of m, where 'a = 32] by simp
    then have "unat (s + word_of_nat m) < n" using \<open>m < i + Suc k\<close> Suc.prems(2) by simp
    then show "sd_sector blocks sd1 (s + word_of_nat m) = sd_sector blocks sd (s + word_of_nat m)"
      using s1(4) by (simp add: same_blocks_def)
  qed
  have "read_multiple (Suc k) env s i resp buffer sd = read_multiple k env s (Suc i) (shifted_response r) ?buf sd1"
    using s1(1,3) by simp
  moreover have "same_blocks blocks n sd sd2" using s1(4) s2(4) by (simp add: same_blocks_def)
  moreover have "packet_timeout sd2 = 0" using s2(1,3) s1(3) by auto
  moreover have "[i..<i + Suc k] = i # [Suc i..<Suc i + k]" by (simp add: upt_conv_Cons)
  ultimately show ?case
    using s2(1,2) packet_frame_trans [OF s1(5) s2(5)] unfolding eq same by auto
qed

lemma sd_media_read_lemma:
  assumes "sd_card env v blocks n ready" "sd_valid v ready sd" "k \<noteq> 0" "unat s + unat k \<le> n"
    and "unat k * SDC_BLOCK_SIZE \<le> length buffer"
  shows "\<exists>sd'. sd_media_read env s buffer k sd = (True, sector_run (sd_sector blocks) sd s (unat k) @ drop (unat k * SDC_BLOCK_SIZE) buffer, sd')
    \<and> sd_valid v ready sd' \<and> same_blocks blocks n sd sd' \<and> packet_frame sd sd'"
proof -
  have k: "unat k \<noteq> 0" using assms(3) by (simp add: unat_eq_0)
  have "unat s + 0 + unat k \<le> n" "512 * (0 + unat k) \<le> length buffer" using assms(4,5) by simp_all
  from read_multiple_lemma [OF assms(1,2) this, of 0] k show ?thesis
    by (auto simp: sd_media_read_def sdc_read_multiple_blocks_def sector_run_def mult.commute)
qed

lemma sd_media_write_lemma:
  assumes "sd_card env v blocks n ready" "sd_valid v ready sd" "unat s < n" "length buffer = SDC_BLOCK_SIZE"
  shows "\<exists>sd'. sd_media_write env s buffer 1 sd = (True, sd') \<and> sd_valid v ready sd' \<and> sd_sector blocks sd' s = buffer
    \<and> (\<forall>t. unat t < n \<longrightarrow> t \<noteq> s \<longrightarrow> sd_sector blocks sd' t = sd_sector blocks sd t) \<and> packet_frame sd sd'"
proof -
  obtain r sd' where s: "sdc_sendpacket env SDC_WRITE_SINGLE_BLOCK s buffer 1 sd = (r, buffer, sd')"
    "sd_valid v ready sd'" "packet_timeout sd' = 0" "sd_sector blocks sd' s = take SDC_BLOCK_SIZE buffer"
    "\<forall>t. unat t < n \<longrightarrow> t \<noteq> s \<longrightarrow> sd_sector blocks sd' t = sd_sector blocks sd t" "packet_frame sd sd'"
    using sd_write_one [OF assms(1-3), of buffer] assms(4) by auto
  have "sd_media_write env s buffer 1 sd = (True, sd')"
    using s(1,3) by (simp add: sd_media_write_def sdc_write_multiple_blocks_def)
  then show ?thesis using s assms(4) by auto
qed

text \<open>Behind these two functions the card is a device of the file-system library that never fails.\<close>

lemma sd_device_lemma:
  assumes card: "sd_card env v blocks n ready"
  shows "run_device (sd_media_read env) (sd_media_write env) (sd_sector blocks) n (sd_valid v ready)"
    "device_ok (sd_media_read env) (sd_media_write env) n (sd_valid v ready)" "reads_ok (sd_media_read env) n (sd_valid v ready)"
proof -
  have one: "sector_run (sd_sector blocks) sd s (unat (1 :: u32)) = sd_sector blocks sd s" for sd s
    by (simp add: sector_run_def)
  show "run_device (sd_media_read env) (sd_media_write env) (sd_sector blocks) n (sd_valid v ready)"
  proof unfold_locales
    fix sd and s :: u32 assume d: "sd_valid v ready sd" "unat s < n"
    show "length (sd_sector blocks sd s) = FAT_SECTOR_SIZE"
      using card d by (simp add: sd_card_def sd_valid_def sd_sector_def)
    fix buf :: "byte list" assume b: "length buf = FAT_SECTOR_SIZE"
    have "unat s + unat (1 :: u32) \<le> n" "unat (1 :: u32) * 512 \<le> length buf" using d(2) b by simp_all
    from sd_media_read_lemma [OF card d(1) _ this] b
    show "\<exists>buf' d' ok. sd_media_read env s buf 1 sd = (ok, buf', d') \<and> sd_valid v ready d' \<and> length buf' = FAT_SECTOR_SIZE
      \<and> (ok \<longrightarrow> buf' = sd_sector blocks sd s) \<and> (\<forall>t. unat t < n \<longrightarrow> sd_sector blocks d' t = sd_sector blocks sd t)"
      using \<open>length (sd_sector blocks sd s) = FAT_SECTOR_SIZE\<close> unfolding one by (auto simp: same_blocks_def)
    show "\<exists>d' ok. sd_media_write env s buf 1 sd = (ok, d') \<and> sd_valid v ready d' \<and> (ok \<longrightarrow> sd_sector blocks d' s = buf)
      \<and> (\<forall>t. unat t < n \<longrightarrow> t \<noteq> s \<longrightarrow> sd_sector blocks d' t = sd_sector blocks sd t)"
      using sd_media_write_lemma [OF card d b] by blast
  next
    fix sd and k s :: u32 and buf :: "byte list"
    assume d: "sd_valid v ready sd" "k \<noteq> 0" "unat s + unat k \<le> n" "unat k * FAT_SECTOR_SIZE \<le> length buf"
    have "length (sd_sector blocks sd (s + word_of_nat i)) = 512" if "i < unat k" for i
    proof -
      have "unat (s + word_of_nat i) = unat s + i"
        using that d(3) card unat_add_lem [of s "word_of_nat i"] unat_word_of_nat [of i, where 'a = 32] by (simp add: sd_card_def)
      then show ?thesis using that d(1,3) card by (simp add: sd_card_def sd_valid_def sd_sector_def)
    qed
    then have "length (sector_run (sd_sector blocks) sd s (unat k)) = length [0..<unat k] * 512"
      unfolding sector_run_def by (intro length_concat_map) simp
    then show "\<exists>buf' d' ok. sd_media_read env s buf k sd = (ok, buf', d') \<and> sd_valid v ready d' \<and> length buf' = length buf
      \<and> (ok \<longrightarrow> buf' = sector_run (sd_sector blocks) sd s (unat k) @ drop (unat k * FAT_SECTOR_SIZE) buf)
      \<and> (\<forall>t. unat t < n \<longrightarrow> sd_sector blocks d' t = sd_sector blocks sd t)"
      using sd_media_read_lemma [OF card d] d(4) by (auto simp: same_blocks_def)
  qed
  show "device_ok (sd_media_read env) (sd_media_write env) n (sd_valid v ready)"
    unfolding device_ok_def
  proof (intro allI impI)
    fix sd and s :: u32 and buf :: "byte list"
    assume d: "sd_valid v ready sd" "unat s < n" "length buf = FAT_SECTOR_SIZE"
    have "unat s + unat (1 :: u32) \<le> n" "unat (1 :: u32) * 512 \<le> length buf" using d by simp_all
    from sd_media_read_lemma [OF card d(1) _ this] sd_media_write_lemma [OF card d]
    show "fst (sd_media_read env s buf 1 sd) \<and> fst (sd_media_write env s buf 1 sd)" by auto
  qed
  show "reads_ok (sd_media_read env) n (sd_valid v ready)"
    unfolding reads_ok_def using sd_media_read_lemma [OF card] by fastforce
qed

end
