(* ===== verification/SdSample.thy ===== *)
theory SdSample
  imports SdCard
begin

section \<open>A card\<close>

text \<open>
  A small card that understands the two commands for single blocks, to show that \<open>sd_card\<close> can hold:
  it collects the bits of a command from the first 0 on, answers on the falling clock, takes a block
  after its start token and is busy for one byte after it. Deselecting it starts it anew.
\<close>

datatype card_mode = Awaits_command | Awaits_block u32

record sample_card =
  rc_blocks :: "byte list list"
  rc_mode :: card_mode
  rc_in :: "bool list"
  rc_out :: "bool list"
  rc_dout :: bool
  rc_clk :: bool

fun bytes_of :: "bool list \<Rightarrow> byte list" where
  "bytes_of (a # b # c # d # e # f # g # h # bs) = byte_of [a, b, c, d, e, f, g, h] # bytes_of bs"
| "bytes_of _ = []"

lemma bytes_of_bits [simp]: "bytes_of (bits_of x @ bs) = x # bytes_of bs"
  using byte_of_bits [of x] by (simp add: bits_of_def)

lemma bytes_of_concat: "bytes_of (concat (map bits_of xs) @ bits_of y) = xs @ [y]"
  using bytes_of_bits [of y "[]"] by (induction xs) simp_all

lemma bytes_of_concat' [simp]: "bytes_of (concat (map bits_of xs)) = xs"
  by (induction xs) simp_all

definition rc_data :: "sample_card \<Rightarrow> u32 \<Rightarrow> byte list" where
  "rc_data c s = rc_blocks c ! unat s"

definition rc_command :: "sample_card \<Rightarrow> byte list \<Rightarrow> sample_card" where
  "rc_command c m =
     (let s = host32 (m ! 1) (m ! 2) (m ! 3) (m ! 4)
      in if m ! 0 AND 0x3F = SDC_READ_SINGLE_BLOCK
         then c\<lparr>rc_in := [], rc_out := replicate 8 True @ False # replicate 7 False @ data_block 8 (rc_data c s) [0, 0, 0xFF]\<rparr>
         else c\<lparr>rc_in := [], rc_out := replicate 8 True @ False # replicate 7 False, rc_mode := Awaits_block s\<rparr>)"

definition rc_bit :: "bool \<Rightarrow> sample_card \<Rightarrow> sample_card" where
  "rc_bit d c =
     (if rc_in c = [] \<and> d then c
      else let c = c\<lparr>rc_in := rc_in c @ [d]\<rparr>
        in case rc_mode c of
            Awaits_command \<Rightarrow> (if length (rc_in c) = 48 then rc_command c (bytes_of (rc_in c)) else c)
          | Awaits_block s \<Rightarrow>
              (if length (rc_in c) = 1 + 4096 + 16
               then c\<lparr>rc_in := [], rc_mode := Awaits_command, rc_out := bits_of 0xE5 @ bits_of 0,
                 rc_blocks := (rc_blocks c)[unat s := take 512 (bytes_of (tl (rc_in c)))]\<rparr>
               else c))"

definition rc_shift :: "sample_card \<Rightarrow> sample_card" where
  "rc_shift c = c\<lparr>rc_dout := (rc_out c = [] \<or> hd (rc_out c)), rc_out := tl (rc_out c)\<rparr>"

definition rc_pins :: "bool \<Rightarrow> bool \<Rightarrow> bool \<Rightarrow> sample_card \<Rightarrow> sample_card" where
  "rc_pins cs d k c =
     (if cs then c\<lparr>rc_mode := Awaits_command, rc_in := [], rc_out := [], rc_dout := True, rc_clk := k\<rparr>
      else if k \<and> \<not> rc_clk c then (rc_bit d c)\<lparr>rc_clk := k\<rparr>
      else if \<not> k \<and> rc_clk c then (rc_shift c)\<lparr>rc_clk := k\<rparr>
      else c)"

definition sample_env :: "sample_card card_env" where
  "sample_env = \<lparr>on_pins = rc_pins, dout = rc_dout, io_inputs = \<lambda>_. 0, lap_usec = \<lambda>_. 0, satcart_found = True\<rparr>"

definition rc_ready :: "nat \<Rightarrow> sample_card \<Rightarrow> bool" where
  "rc_ready n c \<longleftrightarrow> rc_mode c = Awaits_command \<and> rc_in c = [] \<and> rc_out c = [] \<and> rc_dout c \<and> \<not> rc_clk c
     \<and> length (rc_blocks c) = n \<and> (\<forall>b \<in> set (rc_blocks c). length b = 512)"

lemma env_simps [simp]: "on_pins sample_env = rc_pins" "dout sample_env = rc_dout"
  by (simp_all add: sample_env_def)

text \<open>A bit that is sent while the card has nothing to say.\<close>

lemma tx_quiet: "rc_out c = [] \<Longrightarrow> rc_dout c \<Longrightarrow> tx sample_env False b c = (rc_bit b (c\<lparr>rc_clk := False\<rparr>))\<lparr>rc_clk := True\<rparr>"
  by (cases c) (simp add: tx_def rc_pins_def rc_shift_def)

definition rc_full :: "sample_card \<Rightarrow> nat" where
  "rc_full c = (case rc_mode c of Awaits_command \<Rightarrow> 48 | Awaits_block s \<Rightarrow> 1 + 4096 + 16)"

lemma tx_collect:
  assumes "rc_out c = []" "rc_dout c" "rc_in c \<noteq> []" "length (rc_in c) + length bs < rc_full c" "rc_clk c"
  shows "fold (tx sample_env False) bs c = c\<lparr>rc_in := rc_in c @ bs\<rparr>"
  using assms
proof (induction bs arbitrary: c)
  case (Cons b bs)
  have "tx sample_env False b c = c\<lparr>rc_in := rc_in c @ [b]\<rparr>"
    using Cons.prems by (cases "rc_mode c") (simp_all add: tx_quiet rc_bit_def rc_full_def)
  then show ?case using Cons.IH [of "c\<lparr>rc_in := rc_in c @ [b]\<rparr>"] Cons.prems by (simp add: rc_full_def)
qed simp

lemma tx_ones:
  assumes "rc_out c = []" "rc_dout c" "rc_in c = []"
  shows "fold (tx sample_env False) (replicate n True) c = (if n = 0 then c else c\<lparr>rc_clk := True\<rparr>)"
  using assms by (induction n arbitrary: c) (simp_all add: tx_quiet rc_bit_def)

text \<open>Clocking the answer out of it.\<close>

lemma rx_out:
  assumes "rc_in c = []"
  shows "rx sample_env False c = (rc_shift c)\<lparr>rc_clk := False\<rparr>"
  using assms by (cases c) (simp add: rx_def rc_pins_def rc_bit_def rc_shift_def)

lemma replies_out:
  assumes "rc_in c = []" "rc_out c = bs @ rest"
  shows "replies sample_env False c bs (if bs = [] then c else c\<lparr>rc_out := rest, rc_dout := last bs, rc_clk := False\<rparr>)"
  using assms
proof (induction bs arbitrary: c)
  case (Cons b bs)
  have r: "rx sample_env False c = c\<lparr>rc_out := bs @ rest, rc_dout := b, rc_clk := False\<rparr>"
    using Cons.prems by (simp add: rx_out rc_shift_def)
  show ?case
    using Cons.IH [of "rx sample_env False c"] Cons.prems(1) by (cases "bs = []") (simp_all add: r)
qed simp

lemma replies_ones:
  assumes "rc_in c = []" "rc_out c = []" "0 < n"
  shows "replies sample_env False c (replicate n True) (c\<lparr>rc_dout := True, rc_clk := False\<rparr>)"
  using assms
proof (induction n arbitrary: c)
  case (Suc n)
  have r: "rx sample_env False c = c\<lparr>rc_dout := True, rc_clk := False\<rparr>"
    using Suc.prems by (simp add: rx_out rc_shift_def)
  show ?case using Suc.IH [of "rx sample_env False c"] Suc.prems by (cases n) (simp_all add: r)
qed simp

lemma idle_clocks_sample:
  "idle_clocks sample_env c = c\<lparr>rc_mode := Awaits_command, rc_in := [], rc_out := [], rc_dout := True, rc_clk := False\<rparr>"
proof -
  have "rx sample_env True d = d\<lparr>rc_mode := Awaits_command, rc_in := [], rc_out := [], rc_dout := True, rc_clk := False\<rparr>" for d
    by (simp add: rx_def rc_pins_def)
  then show ?thesis by (simp add: idle_clocks_def rc_pins_def eval_nat_numeral)
qed

lemma tx_message:
  assumes c: "rc_out c = []" "rc_dout c" "rc_in c = []" "rc_clk c" and b: "length bs = rc_full c" "\<not> hd bs"
  shows "fold (tx sample_env False) bs c = (rc_bit (last bs) (c\<lparr>rc_in := butlast bs, rc_clk := False\<rparr>))\<lparr>rc_clk := True\<rparr>"
proof -
  have full: "rc_full c \<ge> 2" by (simp add: rc_full_def split: card_mode.split)
  then obtain x ys where x: "bs = x # ys" using b(1) by (cases bs) auto
  obtain mid y where y: "ys = mid @ [y]" using x b(1) full by (cases ys rule: rev_cases) auto
  have nx: "\<not> x" using b(2) x by simp
  have one: "tx sample_env False x c = c\<lparr>rc_in := [x]\<rparr>"
    using c nx full by (cases "rc_mode c") (simp_all add: tx_quiet rc_bit_def)
  have m: "fold (tx sample_env False) mid (c\<lparr>rc_in := [x]\<rparr>) = c\<lparr>rc_in := x # mid\<rparr>"
    using tx_collect [of "c\<lparr>rc_in := [x]\<rparr>" mid] c b(1) by (simp add: rc_full_def x y)
  have "tx sample_env False y (c\<lparr>rc_in := x # mid\<rparr>) = (rc_bit y (c\<lparr>rc_in := x # mid, rc_clk := False\<rparr>))\<lparr>rc_clk := True\<rparr>"
    using c by (simp add: tx_quiet)
  then show ?thesis using one m by (simp add: x y)
qed

lemma tx_after_idle:
  assumes c: "rc_out c = []" "rc_dout c" "rc_in c = []" and b: "length (concat (map bits_of bs)) = rc_full c" "\<not> hd (concat (map bits_of bs))"
  shows "tx_bytes sample_env False (0xFF # bs) c = (rc_bit (last (concat (map bits_of bs)))
    (c\<lparr>rc_in := butlast (concat (map bits_of bs)), rc_clk := False\<rparr>))\<lparr>rc_clk := True\<rparr>"
proof -
  have "bits_of 0xFF = replicate 8 True" by (simp add: bits_of_def bit_numeral_rec eval_nat_numeral)
  then have "fold (tx sample_env False) (bits_of 0xFF) c = c\<lparr>rc_clk := True\<rparr>"
    using tx_ones [OF c, of 8] by simp
  then show ?thesis using tx_message [of "c\<lparr>rc_clk := True\<rparr>" "concat (map bits_of bs)"] c b
    by (simp add: tx_bytes_def rc_full_def)
qed

lemma command_sample:
  assumes r: "rc_ready n c" and cmd: "cmd = SDC_READ_SINGLE_BLOCK \<or> cmd = SDC_WRITE_SINGLE_BLOCK"
  shows "commanded sample_env 1 cmd s c = (rc_command c (tl (command_bytes cmd s)))\<lparr>rc_clk := True\<rparr>"
proof -
  let ?m = "tl (command_bytes cmd s)" and ?B = "concat (map bits_of (tl (command_bytes cmd s)))"
  have c: "rc_out c = []" "rc_dout c" "rc_in c = []" "\<not> rc_clk c" "rc_mode c = Awaits_command"
    using r by (simp_all add: rc_ready_def)
  have B: "length ?B = 48" "\<not> hd ?B"
    using cmd by (auto simp: command_bytes_def bits_of_def bit_numeral_rec eval_nat_numeral bit_simps)
  have full: "rc_full c = 48" using c(5) by (simp add: rc_full_def)
  have ne: "?B \<noteq> []" using B(1) by (metis length_0_conv zero_neq_numeral)
  have "command_bytes cmd s = 0xFF # ?m" by (simp add: command_bytes_def)
  then have "tx_bytes sample_env False (command_bytes cmd s) c = (rc_bit (last ?B) (c\<lparr>rc_in := butlast ?B, rc_clk := False\<rparr>))\<lparr>rc_clk := True\<rparr>"
    using tx_after_idle [OF c(1-3), of ?m] B full by simp
  moreover have "rc_bit (last ?B) (c\<lparr>rc_in := butlast ?B, rc_clk := False\<rparr>) = (rc_command (c\<lparr>rc_clk := False, rc_in := ?B\<rparr>) ?m)"
  proof -
    have "butlast ?B \<noteq> []" using B(1) by (metis length_butlast length_0_conv diff_is_0_eq numeral_le_one_iff semiring_norm(69))
    then show ?thesis using B(1) c(5) ne by (simp add: rc_bit_def del: concat.simps list.map)
  qed
  moreover have "rc_command (c\<lparr>rc_clk := False, rc_in := ?B\<rparr>) ?m = rc_command c ?m"
    using c by (cases c) (simp add: rc_command_def rc_data_def Let_def)
  moreover have "rc_pins False True False c = c" using c(4) by (simp add: rc_pins_def)
  ultimately show ?thesis by (simp add: commanded_def block_address_def)
qed

lemma command_word:
  "host32 (tl (command_bytes cmd s) ! 1) (tl (command_bytes cmd s) ! 2) (tl (command_bytes cmd s) ! 3) (tl (command_bytes cmd s) ! 4) = s"
  by (simp add: command_bytes_def host32_def bytes_join_32)

lemma sample_reads: "reads_blocks sample_env 1 rc_data n (rc_ready n)"
  unfolding reads_blocks_def
proof (intro allI impI)
  fix c and s :: u32 assume r: "rc_ready n c" and s: "unat s < n"
  let ?c0 = "commanded sample_env 1 SDC_READ_SINGLE_BLOCK s c"
  let ?r1 = "replicate 7 False" and ?D = "data_block 8 (rc_data c s) [0, 0, 0xFF]"
  have c0: "?c0 = c\<lparr>rc_in := [], rc_out := replicate 8 True @ False # ?r1 @ ?D, rc_clk := True\<rparr>"
    using command_sample [OF r, of SDC_READ_SINGLE_BLOCK s] command_word [of SDC_READ_SINGLE_BLOCK s]
    by (simp add: rc_command_def Let_def) (simp add: command_bytes_def)
  have i: "rc_in ?c0 = []" "rc_out ?c0 = (replicate 8 True @ False # ?r1) @ ?D" by (simp_all add: c0)
  let ?c1 = "?c0\<lparr>rc_out := ?D, rc_dout := last (replicate 8 True @ False # ?r1), rc_clk := False\<rparr>"
  have p1: "replies sample_env False ?c0 (replicate 8 True @ False # ?r1) ?c1"
    using replies_out [OF i] by simp
  have "?D \<noteq> []" by (simp add: data_block_def)
  then have p2: "replies sample_env False ?c1 ?D (?c1\<lparr>rc_out := [], rc_dout := last ?D, rc_clk := False\<rparr>)"
    using replies_out [of ?c1 ?D "[]"] i(1) by simp
  let ?c2 = "?c1\<lparr>rc_out := [], rc_dout := last ?D, rc_clk := False\<rparr>"
  have id: "idle_clocks sample_env ?c2 = c"
    using r unfolding idle_clocks_sample c0 by (cases c) (simp add: rc_ready_def)
  have len: "8 \<le> SDC_POLL_COUNTMAX" "length ?r1 = 7" "length [0, 0, 0xFF :: byte] = 3" by simp_all
  show "\<exists>k r1 c1 j crc c2. k \<le> SDC_POLL_COUNTMAX \<and> length r1 = 7 \<and> j \<le> SDC_POLL_COUNTMAX \<and> length crc = 3
      \<and> replies sample_env False ?c0 (replicate k True @ False # r1) c1
      \<and> replies sample_env False c1 (data_block j (rc_data c s) crc) c2
      \<and> rc_ready n (idle_clocks sample_env c2) \<and> (\<forall>t. unat t < n \<longrightarrow> rc_data (idle_clocks sample_env c2) t = rc_data c t)"
    by (intro exI [of _ 8] exI [of _ ?r1] exI [of _ ?c1] exI [of _ "[0, 0, 0xFF]"] exI [of _ ?c2] conjI)
      (use len p1 p2 r in \<open>simp_all only: id simp_thms\<close>)
qed

text \<open>Writing: the ones of the start token are ignored, its 0 starts the block.\<close>

lemma tx_two_ones:
  assumes "rc_out c = []" "rc_in c = []"
  shows "fold (tx sample_env False) (replicate (Suc (Suc n)) True) c = c\<lparr>rc_dout := True, rc_clk := True\<rparr>"
proof -
  have one: "tx sample_env False True d = d\<lparr>rc_dout := rc_clk d \<or> rc_dout d, rc_clk := True\<rparr>"
    if "rc_out d = []" "rc_in d = []" for d
    using that by (cases d) (simp add: tx_def rc_pins_def rc_shift_def rc_bit_def)
  have "fold (tx sample_env False) (replicate (Suc (Suc n)) True) c
      = fold (tx sample_env False) (replicate n True) (c\<lparr>rc_dout := True, rc_clk := True\<rparr>)"
    using assms by (simp add: one)
  then show ?thesis using tx_ones [of "c\<lparr>rc_dout := True, rc_clk := True\<rparr>" n] assms by simp
qed

lemma bits_ones: "bits_of 0xFF = replicate 8 True" "bits_of 0xFE = replicate 7 True @ [False]"
  by (simp_all add: bits_of_def bit_numeral_rec eval_nat_numeral)

lemma length_all_bits: "length (concat (map bits_of xs)) = 8 * length xs"
  by (induction xs) simp_all

lemma last_bit:
  assumes "length D = 4096 + 16" "D \<noteq> []" "rc_mode c = Awaits_block s"
  shows "rc_bit (last (False # D)) (c\<lparr>rc_dout := True, rc_clk := True, rc_in := butlast (False # D), rc_clk := False\<rparr>)
    = c\<lparr>rc_mode := Awaits_command, rc_out := bits_of 0xE5 @ bits_of 0, rc_in := [],
        rc_blocks := (rc_blocks c)[unat s := take 512 (bytes_of D)], rc_dout := True, rc_clk := False\<rparr>"
  using assms by (cases c) (simp add: rc_bit_def)

lemma block_sample:
  assumes c: "rc_out c = []" "rc_in c = []" "rc_mode c = Awaits_block s" and l: "length dat = 512"
  shows "block_sent sample_env dat c
    = c\<lparr>rc_mode := Awaits_command, rc_out := bits_of 0xE5 @ bits_of 0, rc_blocks := (rc_blocks c)[unat s := dat],
        rc_dout := True, rc_clk := True\<rparr>"
proof -
  let ?D = "concat (map bits_of (dat @ [0xFF, 0xFF]))"
  let ?c = "c\<lparr>rc_dout := True, rc_clk := True\<rparr>"
  have D1: "length ?D = 4096 + 16" using l by (simp add: length_all_bits)
  have "length xs = 4096 + 16 \<Longrightarrow> xs \<noteq> []" for xs :: "bool list" by auto
  note D = D1 this [OF D1]
  have sent: "tx_bytes sample_env False (0xFE # dat @ [0xFF, 0xFF]) c = fold (tx sample_env False) (False # ?D) ?c"
    using tx_two_ones [OF c(1,2), of 5] by (simp add: tx_bytes_def bits_ones eval_nat_numeral)
  have "fold (tx sample_env False) (False # ?D) ?c
      = (rc_bit (last (False # ?D)) (?c\<lparr>rc_in := butlast (False # ?D), rc_clk := False\<rparr>))\<lparr>rc_clk := True\<rparr>"
    using c D(1) by (intro tx_message) (simp_all add: rc_full_def)
  also have "rc_bit (last (False # ?D)) (?c\<lparr>rc_in := butlast (False # ?D), rc_clk := False\<rparr>)
      = c\<lparr>rc_mode := Awaits_command, rc_out := bits_of 0xE5 @ bits_of 0, rc_in := [],
          rc_blocks := (rc_blocks c)[unat s := take 512 (bytes_of ?D)], rc_dout := True, rc_clk := False\<rparr>"
    using D c(3) by (intro last_bit)
  also have "take 512 (bytes_of ?D) = dat" using l by (simp only: bytes_of_concat') simp
  finally show ?thesis using c(2) unfolding block_sent_def sent by (cases c) simp
qed

lemma busy_sample:
  assumes "rc_in c = []" "rc_out c = concat (map bits_of (replicate j 0))"
  shows "replies sample_env False c (busy_then j 0xFF) (c\<lparr>rc_out := [], rc_dout := True, rc_clk := False\<rparr>)"
proof -
  let ?c = "if concat (map bits_of (replicate j 0)) = [] then c
    else c\<lparr>rc_out := [], rc_dout := last (concat (map bits_of (replicate j 0))), rc_clk := False\<rparr>"
  have z: "replies sample_env False c (concat (map bits_of (replicate j 0))) ?c"
    using replies_out [of c "concat (map bits_of (replicate j 0))" "[]"] assms by simp
  have o: "replies sample_env False ?c (replicate 8 True) (?c\<lparr>rc_dout := True, rc_clk := False\<rparr>)"
    using assms by (intro replies_ones) simp_all
  have b: "busy_then j 0xFF = concat (map bits_of (replicate j 0)) @ replicate 8 True"
    by (simp add: busy_then_def bits_ones)
  have e: "?c\<lparr>rc_dout := True, rc_clk := False\<rparr> = c\<lparr>rc_out := [], rc_dout := True, rc_clk := False\<rparr>"
    using assms by (cases c) simp
  show ?thesis unfolding b replies_append using z o unfolding e by blast
qed

lemma asked_sample:
  "asked_again sample_env c = c\<lparr>rc_mode := Awaits_command, rc_in := [], rc_out := [], rc_dout := True, rc_clk := True\<rparr>"
proof -
  have t: "tx sample_env True b d = d\<lparr>rc_mode := Awaits_command, rc_in := [], rc_out := [], rc_dout := True, rc_clk := True\<rparr>" for b d
    by (simp add: tx_def rc_pins_def)
  show ?thesis by (simp add: asked_again_def tx_bytes_def bits_ones eval_nat_numeral t) (simp add: rc_pins_def)
qed

lemma sample_writes:
  assumes n: "n \<le> 2 ^ 32"
  shows "writes_blocks sample_env 1 rc_data n (rc_ready n)"
  unfolding writes_blocks_def
proof (intro allI impI)
  fix c and s :: u32 and dat :: "byte list"
  assume r: "rc_ready n c" and s: "unat s < n" and l: "length dat = SDC_BLOCK_SIZE"
  let ?c0 = "commanded sample_env 1 SDC_WRITE_SINGLE_BLOCK s c"
  let ?r1 = "replicate 7 False"
  let ?R = "replicate 8 True @ False # ?r1"
  have c0: "?c0 = c\<lparr>rc_in := [], rc_out := ?R, rc_mode := Awaits_block s, rc_clk := True\<rparr>"
    using command_sample [OF r, of SDC_WRITE_SINGLE_BLOCK s] command_word [of SDC_WRITE_SINGLE_BLOCK s]
    by (simp add: rc_command_def Let_def) (simp add: command_bytes_def)
  let ?c1 = "?c0\<lparr>rc_out := [], rc_dout := False, rc_clk := False\<rparr>"
  have p1: "replies sample_env False ?c0 ?R ?c1"
    using replies_out [of ?c0 ?R "[]"] by (simp add: c0)
  let ?c2 = "?c1\<lparr>rc_mode := Awaits_command, rc_blocks := (rc_blocks c)[unat s := dat], rc_out := bits_of 0, rc_dout := True, rc_clk := False\<rparr>"
  have sent: "block_sent sample_env dat ?c1 = ?c1\<lparr>rc_mode := Awaits_command, rc_out := bits_of 0xE5 @ bits_of 0,
      rc_blocks := (rc_blocks c)[unat s := dat], rc_dout := True, rc_clk := True\<rparr>"
    using block_sample [of ?c1 s dat] l by (simp add: c0)
  have e5: "bits_of 0xE5 \<noteq> []" "last (bits_of 0xE5)"
    by (simp_all add: bits_of_def bit_numeral_rec eval_nat_numeral)
  have p2: "replies sample_env False (block_sent sample_env dat ?c1) (bits_of 0xE5) ?c2"
    using replies_out [of "block_sent sample_env dat ?c1" "bits_of 0xE5" "bits_of 0"] e5 unfolding sent by (simp add: c0)
  let ?c3 = "?c2\<lparr>rc_out := [], rc_dout := True, rc_clk := False\<rparr>"
  have p3: "replies sample_env False ?c2 (busy_then 1 0xFF) ?c3"
    by (intro busy_sample) (simp_all add: c0)
  let ?c4 = "(asked_again sample_env ?c3)\<lparr>rc_out := [], rc_dout := True, rc_clk := False\<rparr>"
  have p4: "replies sample_env False (asked_again sample_env ?c3) (busy_then 0 0xFF) ?c4"
    by (intro busy_sample) (simp_all add: asked_sample)
  have fin: "rc_pins True True False ?c4 = c\<lparr>rc_blocks := (rc_blocks c)[unat s := dat]\<rparr>"
    using r unfolding asked_sample c0 by (cases c) (simp add: rc_ready_def rc_pins_def)
  have after: "rc_ready n (rc_pins True True False ?c4)" "rc_data (rc_pins True True False ?c4) s = dat"
    "\<forall>t. unat t < n \<longrightarrow> t \<noteq> s \<longrightarrow> rc_data (rc_pins True True False ?c4) t = rc_data c t"
    unfolding fin using r s l
    by (auto simp: rc_ready_def rc_data_def nth_list_update word_unat_eq_iff dest: subsetD [OF set_update_subset_insert])
  have w: "(0xE5 :: byte) AND 0x1F = 0x05" "(0xFF :: byte) \<noteq> 0" "8 \<le> SDC_POLL_COUNTMAX" "1 \<le> SDC_POLL_COUNTMAX"
    "0 \<le> SDC_POLL_COUNTMAX" "length ?r1 = 7" by simp_all
  show "\<exists>k r1 c1 tmp c2 j x c3 i y c4. k \<le> SDC_POLL_COUNTMAX \<and> length r1 = 7 \<and> tmp AND 0x1F = 0x05
       \<and> j \<le> SDC_POLL_COUNTMAX \<and> x \<noteq> 0 \<and> i \<le> SDC_POLL_COUNTMAX \<and> y \<noteq> 0
       \<and> replies sample_env False ?c0 (replicate k True @ False # r1) c1
       \<and> replies sample_env False (block_sent sample_env dat c1) (bits_of tmp) c2
       \<and> replies sample_env False c2 (busy_then j x) c3
       \<and> replies sample_env False (asked_again sample_env c3) (busy_then i y) c4
       \<and> rc_ready n (on_pins sample_env True True False c4) \<and> rc_data (on_pins sample_env True True False c4) s = dat
       \<and> (\<forall>t. unat t < n \<longrightarrow> t \<noteq> s \<longrightarrow> rc_data (on_pins sample_env True True False c4) t = rc_data c t)"
    unfolding env_simps
    by (rule exI [of _ 8], rule exI [of _ ?r1], rule exI [of _ ?c1], rule exI [of _ "0xE5"], rule exI [of _ ?c2],
        rule exI [of _ 1], rule exI [of _ "0xFF"], rule exI [of _ ?c3], rule exI [of _ 0], rule exI [of _ "0xFF"], rule exI [of _ ?c4])
      (intro conjI w p1 p2 p3 p4 after)
qed

lemma sample_sd_card: "n < 2 ^ 32 \<Longrightarrow> sd_card sample_env 1 rc_data n (rc_ready n)"
  by (simp add: sd_card_def sample_reads sample_writes) (simp add: rc_ready_def rc_data_def)

end
