(* ===== verification/SdDriver.thy ===== *)
theory SdDriver
  imports SdSample
begin

section \<open>What the driver does\<close>

text \<open>
  The properties of \<open>sdcard_packet.c\<close>: the fields of a register, the state every packet keeps whatever
  the card answers, the timeout on a card that does not answer, and reading and writing runs of blocks
  of a card that follows the specification.
\<close>

subsection \<open>Fields of a register\<close>

text \<open>A register as a number, its first byte the most significant.\<close>

definition register_value :: "byte list \<Rightarrow> int" where
  "register_value bs = foldl (\<lambda>v b. 256 * v + uint b) 0 bs"

lemma register_value_snoc: "register_value (bs @ [b]) = push_bit 8 (register_value bs) OR uint b"
proof -
  have "256 * v + uint b = push_bit 8 v OR uint b" for v :: int
  proof -
    have "push_bit 8 v + uint b = push_bit 8 v OR uint b"
      by (rule disjunctive_add) (auto simp: bit_simps dest: bit_imp_le_length)
    then show ?thesis by (simp add: push_bit_eq_mult)
  qed
  then show ?thesis by (simp add: register_value_def)
qed

lemma bit_register_value:
  "bit (register_value bs) j \<longleftrightarrow> j < 8 * length bs \<and> bit (bs ! (length bs - 1 - j div 8)) (j mod 8)"
proof (induction bs arbitrary: j rule: rev_induct)
  case Nil
  then show ?case by (simp add: register_value_def)
next
  case (snoc b bs)
  show ?case
  proof (cases "j < 8")
    case True
    then show ?thesis by (simp add: register_value_snoc bit_simps nth_append)
  next
    case False
    then obtain k where k: "j = k + 8" by (metis add.commute le_Suc_ex not_less)
    have nb: "\<not> bit b j" using False by (auto dest: bit_imp_le_length)
    have "bit (register_value (bs @ [b])) j \<longleftrightarrow> bit (register_value bs) k"
      using nb by (simp add: register_value_snoc bit_simps k)
    moreover have "(bs @ [b]) ! (length (bs @ [b]) - 1 - j div 8) = bs ! (length bs - 1 - k div 8)" if "k < 8 * length bs"
    proof -
      have q: "k div 8 < length bs" "(k + 8) div 8 = Suc (k div 8)" using that by simp_all
      then have "length bs - Suc (k div 8) < length bs" by linarith
      then show ?thesis using q by (simp add: k nth_append)
    qed
    ultimately show ?thesis using snoc.IH [of k] by (auto simp: k)
  qed
qed

lemma slice_loop_bits:
  assumes "n \<le> 32" "unat i + n \<le> 8 * length buf" "unat i + n \<le> 255"
  shows "\<exists>w. slice_loop n buf i (word_of_nat n - 1) ret = Some w
    \<and> (\<forall>k < 32. bit w k \<longleftrightarrow> bit ret k \<or> k < n \<and> bit (buf ! ((unat i + (n - 1 - k)) div 8)) (7 - (unat i + (n - 1 - k)) mod 8))"
  using assms
proof (induction n arbitrary: i ret)
  case (Suc n)
  have m: "word_of_nat (Suc n) - 1 = (word_of_nat n :: byte)" "unat (word_of_nat n :: byte) = n"
    using Suc.prems(1) by simp_all
  have i: "unat (i + 1) = unat i + 1" using Suc.prems(3) unat_add_lem [of i 1] by simp
  have p: "unat (drop_bit 3 i) = unat i div 8" by (simp add: unat_drop_bit_eq drop_bit_eq_div unat_div)
  have q: "unat (7 - (i AND 7)) = 7 - unat i mod 8"
  proof -
    have "i AND 7 = i mod 8" using word_mod_2p_is_mask [of 3 i] by (simp add: mask_eq_exp_minus_1)
    moreover have "unat (i mod 8) = unat i mod 8" by (simp add: unat_mod)
    moreover have "i mod 8 \<le> 7" by (simp add: word_le_nat_alt unat_mod)
    ultimately show ?thesis by (simp add: unat_sub_if_size word_le_nat_alt)
  qed
  let ?x = "buf ! (unat i div 8)"
  let ?r = "ret OR push_bit n (ucast (drop_bit (7 - unat i mod 8) ?x AND 1))"
  have "unat i div 8 < length buf" using Suc.prems(2) by simp
  then have step: "slice_loop (Suc n) buf i (word_of_nat (Suc n) - 1) ret = slice_loop n buf (i + 1) (word_of_nat n - 1) ?r"
    using Suc.prems(1) unfolding m by (simp add: p q m)
  have "n \<le> 32" "unat (i + 1) + n \<le> 8 * length buf" "unat (i + 1) + n \<le> 255" using Suc.prems i by simp_all
  from Suc.IH [OF this, of ?r] obtain w where w: "slice_loop n buf (i + 1) (word_of_nat n - 1) ?r = Some w"
    "\<forall>k < 32. bit w k \<longleftrightarrow> bit ?r k \<or> k < n \<and> bit (buf ! ((unat (i + 1) + (n - 1 - k)) div 8)) (7 - (unat (i + 1) + (n - 1 - k)) mod 8)"
    by blast
  have r: "bit ?r k \<longleftrightarrow> bit ret k \<or> k = n \<and> bit ?x (7 - unat i mod 8)" if "k < 32" for k
    using that by (auto simp: bit_simps)
  have "bit w k \<longleftrightarrow> bit ret k \<or> k < Suc n \<and> bit (buf ! ((unat i + (Suc n - 1 - k)) div 8)) (7 - (unat i + (Suc n - 1 - k)) mod 8)"
    if k: "k < 32" for k
  proof -
    have "k < n \<Longrightarrow> unat (i + 1) + (n - 1 - k) = unat i + (n - k)" using i by simp
    then show ?thesis using w(2) k r [OF k] by (auto simp: less_Suc_eq)
  qed
  then show ?case using step w(1) by auto
qed simp

lemma register_position:
  assumes "j \<le> 127"
  shows "8 * l + 127 - j = 8 * (l + 15 - j div 8) + (7 - j mod (8 :: nat))"
proof -
  have "8 * l + 127 - (8 * q + r) = 8 * (l + 15 - q) + (7 - r)" if "r < 8" "8 * q + r \<le> 127" for q r :: nat
    using that by arith
  from this [of "j mod 8" "j div 8"] show ?thesis using assms by simp
qed

lemma bit_position: "r \<le> 7 \<Longrightarrow> (8 * m + (7 - r)) div 8 = m" "r \<le> 7 \<Longrightarrow> 7 - (8 * m + (7 - r)) mod 8 = (r :: nat)"
proof -
  have "(8 * m + k) div 8 = m" "(8 * m + k) mod 8 = k" if "k < 8" for k :: nat using that by simp_all
  from this [of "7 - r"] show "r \<le> 7 \<Longrightarrow> (8 * m + (7 - r)) div 8 = m" "r \<le> 7 \<Longrightarrow> 7 - (8 * m + (7 - r)) mod 8 = r"
    by simp_all
qed

lemma slice_lemma:
  assumes "end' \<le> stt" and "stt < 128" and "unat stt - unat end' < 32"
    and "unat (status_len sd) + 16 \<le> length (stat_reg_buffer sd)" and "length (stat_reg_buffer sd) = SDC_CMDBUFFER_LEN"
  shows "sdc_slice sd 128 stt end' = Some (word_of_int (take_bit (unat stt - unat end' + 1)
    (drop_bit (unat end') (register_value (mem_read (unat (status_len sd)) 16 (stat_reg_buffer sd))))))"
proof -
  let ?L = "unat (status_len sd)" and ?buf = "stat_reg_buffer sd" and ?e = "unat end'" and ?s = "unat stt"
  let ?reg = "mem_read ?L 16 ?buf" and ?n = "unat stt - unat end' + 1"
  have b: "?e \<le> ?s" "?s < 128" "?L \<le> 8" using assms by (simp_all add: word_le_nat_alt word_less_nat_alt)
  have len: "stt - end' + 1 = word_of_nat ?n" "unat (stt - end' + 1) = ?n"
  proof -
    have u: "unat (stt - end') = ?s - ?e" using b(1) by (simp add: unat_sub word_le_nat_alt)
    then show "stt - end' + 1 = word_of_nat ?n" using word_arith_nat_add [of "stt - end'" 1] by simp
    show "unat (stt - end' + 1) = ?n" using u b unat_add_lem [of "stt - end'" 1]
        assms(3) by auto
  qed
  let ?st = "push_bit 3 (status_len sd) + 128 - 1 - stt"
  have st: "unat ?st = 8 * ?L + 127 - ?s"
  proof -
    have "word_of_nat (8 * ?L + 127 - ?s) = (8 * word_of_nat ?L + 127 - word_of_nat ?s :: byte)"
      using b(2) by (simp add: of_nat_diff)
    then have "?st = word_of_nat (8 * ?L + 127 - ?s)" by (simp add: push_bit_eq_mult)
    then have "unat ?st = unat (word_of_nat (8 * ?L + 127 - ?s) :: byte)" by (rule arg_cong)
    also have "\<dots> = 8 * ?L + 127 - ?s" by (rule unat_word_of_nat) (use b in simp)
    finally show ?thesis .
  qed
  have tmp2: "unat (?st + (stt - end' + 1)) = 8 * ?L + 128 - ?e"
  proof -
    have "unat (?st + (stt - end' + 1)) = unat ?st + unat (stt - end' + 1)"
      by (rule unat_add_lem [THEN iffD1]) (unfold st len(2), use b in simp)
    then show ?thesis unfolding st len(2) using b by simp
  qed
  have n: "8 * ?L + 128 - ?e - (8 * ?L + 127 - ?s) = ?n" using b by simp
  have "?n \<le> 32" "unat ?st + ?n \<le> 8 * length ?buf" "unat ?st + ?n \<le> 255" using assms(3-5) b st by simp_all
  from slice_loop_bits [OF this, of 0] obtain w where w: "slice_loop ?n ?buf ?st (word_of_nat ?n - 1) 0 = Some w"
    "\<forall>k < 32. bit w k \<longleftrightarrow> k < ?n \<and> bit (?buf ! ((unat ?st + (?n - 1 - k)) div 8)) (7 - (unat ?st + (?n - 1 - k)) mod 8)"
    by auto
  have lr: "length ?reg = 16" using assms(4) by simp
  have "bit w k \<longleftrightarrow> k < ?n \<and> bit (register_value ?reg) (?e + k)" if k: "k < 32" for k
  proof -
    have "bit (?buf ! ((unat ?st + (?n - 1 - k)) div 8)) (7 - (unat ?st + (?n - 1 - k)) mod 8)
        \<longleftrightarrow> bit (register_value ?reg) (?e + k)" if kn: "k < ?n"
    proof -
      let ?j = "?e + k"
      have j: "?j \<le> 127" "?j div 8 \<le> 15" using kn b by simp_all
      have pos: "unat ?st + (?n - 1 - k) = 8 * (?L + 15 - ?j div 8) + (7 - ?j mod 8)"
      proof -
        have "unat ?st + (?n - 1 - k) = 8 * ?L + 127 - ?j" unfolding st using kn b by simp
        then show ?thesis using register_position [OF j(1)] by simp
      qed
      have "?j mod 8 \<le> 7" by simp
      then have "(unat ?st + (?n - 1 - k)) div 8 = ?L + 15 - ?j div 8" "7 - (unat ?st + (?n - 1 - k)) mod 8 = ?j mod 8"
        unfolding pos by (rule bit_position)+
      moreover have "?reg ! (15 - ?j div 8) = ?buf ! (?L + 15 - ?j div 8)"
        using assms(4) j by (simp add: nth_mem_read)
      ultimately show ?thesis using j by (simp add: bit_register_value lr)
    qed
    then show ?thesis using w(2) k by auto
  qed
  then have "w = word_of_int (take_bit ?n (drop_bit ?e (register_value ?reg)))"
    by (intro bit_word_eqI) (simp add: bit_simps)
  moreover have "sdc_slice sd 128 stt end' = slice_loop ?n ?buf ?st (word_of_nat ?n - 1) 0"
    unfolding sdc_slice_def Let_def tmp2 st n unfolding len(1) ..
  ultimately show ?thesis using w(1) by simp
qed

text \<open>
  \<open>sdc_slice(128, stt, end)\<close> is the field of bits \<open>stt\<close> down to \<open>end\<close> of the 128-bit register that
  stands behind the response, with every access inside the buffer.
\<close>

theorem sdc_slice_correct:
  assumes "end' \<le> stt" and "stt < 128" and "unat stt - unat end' < 32"
    and "unat (status_len sd) + 16 \<le> length (stat_reg_buffer sd)" and "length (stat_reg_buffer sd) = SDC_CMDBUFFER_LEN"
  shows "sdc_slice sd 128 stt end' = Some (word_of_int (take_bit (unat stt - unat end' + 1)
    (drop_bit (unat end') (register_value (mem_read (unat (status_len sd)) 16 (stat_reg_buffer sd))))))"
  by (rule slice_lemma [OF assms])

definition sample_bus :: "sample_card satcart" where
  "sample_bus = \<lparr>pin_cs = True, pin_din = True, pin_clk = False, leds = 0, reinsert = False,
     the_card = \<lparr>rc_blocks = [replicate 512 1, replicate 512 2], rc_mode = Awaits_command, rc_in = [], rc_out = [],
       rc_dout = True, rc_clk = False\<rparr>\<rparr>"

definition sample_sd :: "sample_card sdcard_t" where
  "sample_sd = (zero_sdcard sample_bus)\<lparr>sd_csl := 1, ccs := 1\<rparr>"

theorem sdc_slice_correct_witness:
  "sdc_slice (sample_sd\<lparr>status_len := 3, stat_reg_buffer := [0, 0, 0, 0x40, 0x0E, 0, 0x32, 0x5B, 0x59, 0, 0,
     0x1D, 0x8A, 0x7F, 0x80, 0x0A, 0x40, 0, 1, 0, 0, 0, 0, 0]\<rparr>) 128 69 48 = Some 0x1D8A"
proof -
  let ?sd = "sample_sd\<lparr>status_len := 3, stat_reg_buffer := [0, 0, 0, 0x40, 0x0E, 0, 0x32, 0x5B, 0x59, 0, 0,
     0x1D, 0x8A, 0x7F, 0x80, 0x0A, 0x40, 0, 1, 0, 0, 0, 0, 0]\<rparr>"
  have "mem_read (unat (status_len ?sd)) 16 (stat_reg_buffer ?sd)
      = [0x40, 0x0E, 0, 0x32, 0x5B, 0x59, 0, 0, 0x1D, 0x8A, 0x7F, 0x80, 0x0A, 0x40, 0, 1]"
    by (simp add: mem_read_def)
  then have "take_bit (unat (69 :: byte) - unat (48 :: byte) + 1) (drop_bit (unat (48 :: byte))
      (register_value (mem_read (unat (status_len ?sd)) 16 (stat_reg_buffer ?sd)))) = 0x1D8A"
    by (simp add: register_value_def take_bit_eq_mod drop_bit_eq_div)
  then show ?thesis using sdc_slice_correct [of 48 69 ?sd] by simp
qed

text \<open>The size of a card of the second version of the register, as the driver computes it: its field
  \<open>C_SIZE\<close>, with 2 added instead of 1, in units of 512 KB and in 32 bits.\<close>

lemma csd_size_sdhc_value:
  assumes "unat (status_len sd) + 16 \<le> length (stat_reg_buffer sd)" and "length (stat_reg_buffer sd) = SDC_CMDBUFFER_LEN"
  shows "csd_size_sdhc sd = Some (drop_bit 10 (1000 * ((word_of_int (take_bit 22 (drop_bit 48
    (register_value (mem_read (unat (status_len sd)) 16 (stat_reg_buffer sd)))) + 2) * 524288) div 1048576)))"
proof -
  have u: "unat (69 :: byte) = 69" "unat (48 :: byte) = 48" by simp_all
  have "sdc_slice sd 128 69 48 = Some (word_of_int (take_bit 22 (drop_bit 48
      (register_value (mem_read (unat (status_len sd)) 16 (stat_reg_buffer sd))))))"
    using slice_lemma [OF _ _ _ assms, of 48 69] unfolding u by simp
  then show ?thesis by (simp add: csd_size_sdhc_def Let_def algebra_simps)
qed

subsection \<open>A card that does not answer\<close>

lemma replies_silent:
  assumes "\<And>c. dout env c"
  shows "replies env cs c (replicate n True) ((rx env cs ^^ n) c)"
proof -
  have "map (\<lambda>i. dout env ((rx env cs ^^ Suc i) c)) [0..<n] = replicate n True"
    using assms by (intro nth_equalityI) simp_all
  then show ?thesis using replies_any [of env cs c n] by simp
qed

lemma silent_packet_lemma:
  assumes "replies env False (command_sent env cmd arg sd) (replicate (SDC_POLL_COUNTMAX + 1) True) c"
    and "0 < length (stat_reg_buffer sd)"
  shows "\<exists>sd'. sdc_sendpacket env cmd arg buffer blocks_count sd = (0, buffer, sd') \<and> packet_timeout sd' = 1
    \<and> at_card sd' True (on_pins env True True False c) \<and> bit (leds (sd_bus sd')) SD_LEDR_LSHFT \<and> packet_frame sd sd'
    \<and> stat_reg_buffer sd' = (stat_reg_buffer sd)[0 := 0] \<and> status_len sd' = snd (response_lengths cmd)
    \<and> duration_usec sd' = lap_usec env c"
proof -
  obtain sd' where s: "packet_command env cmd arg sd = (False, sd')" "at_card sd' True (on_pins env True True False c)"
    "packet_frame sd sd'" "packet_timeout sd' = 1" "bit (leds (sd_bus sd')) SD_LEDR_LSHFT"
    "stat_reg_buffer sd' = (stat_reg_buffer sd)[0 := 0]" "status_len sd' = snd (response_lengths cmd)"
    "duration_usec sd' = lap_usec env c"
    using packet_command_timeout [OF assms(1)] by blast
  have "sdc_sendpacket env cmd arg buffer blocks_count sd = (0, buffer, sd')"
    using s(6) assms(2) by (simp add: sdc_sendpacket_def s(1) Let_def)
  then show ?thesis using s by (intro exI [of _ sd'] conjI)
qed

text \<open>
  C34: when the line of the card stays high for all the clocks the driver waits, every packet ends: it
  reports the timeout, the caller's buffer is untouched, the red LED is lit and the card is deselected. In the
  driver's structure the first byte of the response is cleared, the length of the status is the one of the
  command, the duration is what the timer shows, and the output lines are set; all other fields are as before.
\<close>

theorem sdc_sendpacket_timeout:
  assumes "replies env False (command_sent env cmd arg sd) (replicate (SDC_POLL_COUNTMAX + 1) True) c"
    and "0 < length (stat_reg_buffer sd)"
  shows "\<exists>sd'. sdc_sendpacket env cmd arg buffer blocks_count sd = (0, buffer, sd') \<and> packet_timeout sd' = 1
    \<and> at_card sd' True (on_pins env True True False c) \<and> bit (leds (sd_bus sd')) SD_LEDR_LSHFT
    \<and> stat_reg_buffer sd' = (stat_reg_buffer sd)[0 := 0] \<and> status_len sd' = snd (response_lengths cmd)
    \<and> duration_usec sd' = lap_usec env c \<and> packet_frame sd sd'"
  using silent_packet_lemma [OF assms, of buffer blocks_count] by blast

definition silent_env :: "nat card_env" where
  "silent_env = \<lparr>on_pins = \<lambda>_ _ clk n. if clk then n + 1 else n, dout = \<lambda>_. True, io_inputs = \<lambda>_. 0, lap_usec = \<lambda>_. 0, satcart_found = True\<rparr>"

definition silent_sd :: "nat sdcard_t" where
  "silent_sd = zero_sdcard \<lparr>pin_cs = True, pin_din = True, pin_clk = False, leds = 0, reinsert = False, the_card = 0\<rparr>"

theorem sdc_sendpacket_timeout_witness:
  "\<exists>sd'. sdc_sendpacket silent_env SDC_READ_SINGLE_BLOCK 7 [1, 2] 1 silent_sd = (0, [1, 2], sd') \<and> packet_timeout sd' = 1
    \<and> sd_csl sd' \<noteq> 0 \<and> bit (leds (sd_bus sd')) SD_LEDR_LSHFT \<and> status_len sd' = 1"
proof -
  have d: "dout silent_env n" for n by (simp add: silent_env_def)
  have l: "0 < length (stat_reg_buffer silent_sd)" by (simp add: silent_sd_def zero_sdcard_def)
  show ?thesis
    using sdc_sendpacket_timeout [OF replies_silent [OF d] l, of SDC_READ_SINGLE_BLOCK 7 "[1, 2]" 1]
    by (auto simp: at_card_def response_lengths_def)
qed

subsection \<open>What every packet keeps\<close>

text \<open>The driver's state after some calls, from \<open>sd0\<close> on: the card is selected or not as \<open>cs\<close> says, in the
  structure and on the line, and the fields that packets do not use are those of \<open>sd0\<close>.\<close>

definition sd_wf :: "bool \<Rightarrow> 'c sdcard_t \<Rightarrow> 'c sdcard_t \<Rightarrow> bool" where
  "sd_wf cs sd0 sd \<longleftrightarrow> packet_frame sd0 sd \<and> length (stat_reg_buffer sd) = SDC_CMDBUFFER_LEN
     \<and> sd_csl sd = of_bool cs \<and> pin_cs (sd_bus sd) = cs \<and> packet_timeout sd \<le> 1"

text \<open>After a part of a packet: the card is still selected, or the packet has failed.\<close>

definition part_done :: "'c sdcard_t \<Rightarrow> bool \<Rightarrow> 'c sdcard_t \<Rightarrow> bool" where
  "part_done sd0 ok sd \<longleftrightarrow> (if ok then sd_wf False sd0 sd else sd_wf True sd0 sd \<and> packet_timeout sd = 1)"

lemma part_done_simps [simp]:
  "part_done sd0 True sd \<longleftrightarrow> sd_wf False sd0 sd" "part_done sd0 False sd \<longleftrightarrow> sd_wf True sd0 sd \<and> packet_timeout sd = 1"
  by (simp_all add: part_done_def)

lemma pulse_pin_cs [simp]:
  "pin_cs b = cs \<Longrightarrow> pin_cs (clock_pulse env (receive_bits cs True) (receive_bits cs False) b) = cs"
  by (simp add: clock_pulse_eq)

lemma receive_nibble_pin_cs:
  "pin_cs b = cs \<Longrightarrow> pin_cs (snd (receive_nibble env (receive_bits cs True) (receive_bits cs False) b)) = cs"
  by (simp add: receive_nibble_def Let_def)

lemma receive_bytes_wf:
  "pin_cs b = cs \<Longrightarrow> length (fst (receive_bytes env (receive_bits cs True) (receive_bits cs False) n b)) = n
    \<and> pin_cs (snd (receive_bytes env (receive_bits cs True) (receive_bits cs False) n b)) = cs"
  by (induction n arbitrary: b) (simp_all add: split_beta receive_nibble_pin_cs Let_def)

lemma wait_start_wf:
  "pin_cs b = cs \<Longrightarrow> pin_cs (snd (wait_start n env (receive_bits cs True) (receive_bits cs False) b)) = cs"
  by (induction n arbitrary: b) (simp_all add: Let_def)

lemma header_bits_wf:
  "pin_cs b = cs \<Longrightarrow> pin_cs (snd (header_bits n env (receive_bits cs True) (receive_bits cs False) tmp b)) = cs"
  by (induction n arbitrary: b tmp) (simp_all add: Let_def)

lemma header_bytes_wf:
  "pin_cs b = cs \<Longrightarrow> length (fst (header_bytes n k env (receive_bits cs True) (receive_bits cs False) b)) = n
    \<and> pin_cs (snd (header_bytes n k env (receive_bits cs True) (receive_bits cs False) b)) = cs"
  by (induction n arbitrary: b k) (simp_all add: split_beta header_bits_wf Let_def)

lemma sd_wf_frame:
  assumes "sd_wf cs sd0 sd" "packet_frame sd sd'" "length (stat_reg_buffer sd') = length (stat_reg_buffer sd)"
    and "sd_csl sd' = of_bool cs'" "pin_cs (sd_bus sd') = cs'" "packet_timeout sd' \<le> 1"
  shows "sd_wf cs' sd0 sd'"
  using assms packet_frame_trans by (auto simp: sd_wf_def)

lemma sd_wf_lines:
  assumes "sd_wf cs sd0 sd"
  shows "sd_wf cs sd0 (sdc_ledset env l on sd)" "sd_wf False sd0 (sdc_cs_assert env sd)" "sd_wf True sd0 (sdc_cs_deassert env sd)"
    "sd_wf cs sd0 (sdc_sendbyte_array env bs sd)" "sd_wf cs sd0 (sdc_sendbyte env x sd)" "sd_wf cs sd0 (packet_done env sd)"
    "sd_wf True sd0 (packet_failed env sd) \<and> packet_timeout (packet_failed env sd) = 1"
proof -
  have send: "sd_wf cs sd0 (sdc_sendbyte_array env bs sd)" for bs
  proof (cases "bs = []")
    case True
    then show ?thesis using assms
      by (intro sd_wf_frame [OF assms primitive_frames(4)]) (simp_all add: sdc_sendbyte_array_def on_bus_def sd_wf_def)
  next
    case False
    show ?thesis using assms
      by (intro sd_wf_frame [OF assms primitive_frames(4)]) (simp_all add: sendbyte_array_eq [OF False] sd_wf_def)
  qed
  then show "sd_wf cs sd0 (sdc_sendbyte_array env bs sd)" "sd_wf cs sd0 (sdc_sendbyte env x sd)"
    by (simp_all add: sdc_sendbyte_def)
  have w: "packet_timeout sd \<le> 1" "sd_csl sd = of_bool cs" "pin_cs (sd_bus sd) = cs" using assms by (simp_all add: sd_wf_def)
  show "sd_wf cs sd0 (sdc_ledset env l on sd)"
    by (rule sd_wf_frame [OF assms primitive_frames(1)]) (use w in simp_all)
  show "sd_wf False sd0 (sdc_cs_assert env sd)"
    by (rule sd_wf_frame [OF assms primitive_frames(2)]) (use w in \<open>simp_all add: cs_simps set_pins_def\<close>)
  show "sd_wf True sd0 (sdc_cs_deassert env sd)"
    by (rule sd_wf_frame [OF assms primitive_frames(3)]) (use w in \<open>simp_all add: cs_simps set_pins_def\<close>)
  have d: "packet_frame sd (packet_done env sd)" "packet_frame sd (packet_failed env sd)"
    by (simp_all add: packet_done_def packet_failed_def packet_frame_def kept_part_def cs_simps sdc_ledset_def on_bus_def Let_def)
  show "sd_wf cs sd0 (packet_done env sd)"
    by (rule sd_wf_frame [OF assms d(1)]) (use w in \<open>simp_all add: packet_done_def\<close>)
  have "packet_timeout (packet_failed env sd) = 1" by (simp add: packet_failed_def Let_def cs_simps)
  moreover have "sd_wf True sd0 (packet_failed env sd)"
    by (rule sd_wf_frame [OF assms d(2)]) (use w in \<open>simp_all add: packet_failed_def Let_def cs_simps set_pins_def\<close>)
  ultimately show "sd_wf True sd0 (packet_failed env sd) \<and> packet_timeout (packet_failed env sd) = 1" by blast
qed

lemma sd_wf_receive:
  assumes "sd_wf cs sd0 sd"
  shows "sd_wf cs sd0 (snd (sdc_receivebyte_array env n sd))" "length (fst (sdc_receivebyte_array env n sd)) = n"
    "sd_wf cs sd0 (snd (sdc_receivebyte env sd))"
proof -
  have w: "packet_timeout sd \<le> 1" "(sd_csl sd \<noteq> 0) = cs" "sd_csl sd = of_bool cs" "pin_cs (sd_bus sd) = cs"
    using assms by (simp_all add: sd_wf_def)
  have r: "sd_wf cs sd0 (snd (sdc_receivebyte_array env n sd)) \<and> length (fst (sdc_receivebyte_array env n sd)) = n" for n
  proof
    show "sd_wf cs sd0 (snd (sdc_receivebyte_array env n sd))"
      by (rule sd_wf_frame [OF assms primitive_frames(5)])
        (use w receive_bytes_wf [OF w(4)] in \<open>simp_all add: sdc_receivebyte_array_def split_beta Let_def\<close>)
    show "length (fst (sdc_receivebyte_array env n sd)) = n"
      using w(2) receive_bytes_wf [OF w(4)] by (simp add: sdc_receivebyte_array_def split_beta Let_def)
  qed
  then show "sd_wf cs sd0 (snd (sdc_receivebyte_array env n sd))" "length (fst (sdc_receivebyte_array env n sd)) = n" by blast+
  show "sd_wf cs sd0 (snd (sdc_receivebyte env sd))" using r [of 1] by (simp add: sdc_receivebyte_def split_beta)
qed

lemma sd_wf_bus: "sd_wf cs sd0 sd \<Longrightarrow> pin_cs b = cs \<Longrightarrow> sd_wf cs sd0 (sd\<lparr>sd_bus := b\<rparr>)"
  by (rule sd_wf_frame [OF _ primitive_frames(6)]) (simp_all add: sd_wf_def)

lemma start_bit_wf:
  assumes "sd_wf False sd0 sd"
  shows "part_done sd0 (fst (packet_start_bit env sd)) (snd (packet_start_bit env sd))"
proof -
  have w: "pin_cs (sd_bus sd) = False" "sd_csl sd = 0" "packet_timeout sd \<le> 1" using assms by (simp_all add: sd_wf_def)
  obtain ok b where r: "wait_start (SDC_POLL_COUNTMAX + 1) env (receive_bits False True) (receive_bits False False) (sd_bus sd) = (ok, b)"
    by fastforce
  have "pin_cs b = False"
    using wait_start_wf [OF w(1), of "SDC_POLL_COUNTMAX + 1" env] unfolding r by (simp only: snd_conv)
  then have b: "sd_wf False sd0 (sd\<lparr>sd_bus := b\<rparr>)" by (rule sd_wf_bus [OF assms])
  have "packet_start_bit env sd = (ok, if ok then sd\<lparr>sd_bus := b\<rparr> else packet_failed env (sd\<lparr>sd_bus := b\<rparr>))"
    unfolding packet_start_bit_def r Let_def prod.case ..
  then show ?thesis using b sd_wf_lines(7) [OF b, of env] by (cases ok) simp_all
qed

lemma command_wf:
  assumes "sd_wf cs sd0 sd"
  shows "part_done sd0 (fst (packet_command env cmd arg sd)) (snd (packet_command env cmd arg sd))"
proof -
  let ?b = "before_response env cmd arg sd"
  have "sd_wf False sd0 ?b"
    by (rule sd_wf_frame [OF assms before_response_lemma(1)]) (use assms in \<open>simp_all add: before_response_lemma\<close>)
  then have s: "part_done sd0 (fst (packet_start_bit env ?b)) (snd (packet_start_bit env ?b))" by (rule start_bit_wf)
  obtain ok t where t: "packet_start_bit env ?b = (ok, t)" by fastforce
  obtain hdr b where h: "header_bytes (fst (response_lengths cmd)) 7 env (receive_bits False True) (receive_bits False False) (sd_bus t) = (hdr, b)"
    by fastforce
  show ?thesis
  proof (cases ok)
    case False
    then show ?thesis using s unfolding packet_command_before t by simp
  next
    case True
    then have w: "sd_wf False sd0 t" using s by (simp add: t)
    then have p: "pin_cs (sd_bus t) = False" by (simp add: sd_wf_def)
    have hb: "length hdr = fst (response_lengths cmd)" "pin_cs b = False"
      using header_bytes_wf [OF p, of "fst (response_lengths cmd)" 7 env] by (simp_all add: h)
    have "fst (response_lengths cmd) \<le> SDC_CMDBUFFER_LEN" by (simp add: response_lengths_def)
    then have "length (mem_write 0 hdr (stat_reg_buffer t)) = length (stat_reg_buffer t)"
      using w hb(1) by (simp add: sd_wf_def)
    moreover have "packet_frame t (t\<lparr>stat_reg_buffer := mem_write 0 hdr (stat_reg_buffer t), sd_bus := b\<rparr>)"
      by (simp add: packet_frame_def kept_part_def)
    ultimately have "sd_wf False sd0 (t\<lparr>stat_reg_buffer := mem_write 0 hdr (stat_reg_buffer t), sd_bus := b\<rparr>)"
      using w hb(2) by (intro sd_wf_frame [OF w]) (simp_all add: sd_wf_def)
    then show ?thesis unfolding packet_command_before by (simp add: t True h)
  qed
qed

lemma read_blocks_wf:
  "sd_wf False sd0 sd \<Longrightarrow> p + SDC_BLOCK_SIZE * n \<le> length buffer \<Longrightarrow>
    case read_blocks n env p buffer sd of (ok, buffer', sd') \<Rightarrow> part_done sd0 ok sd' \<and> length buffer' = length buffer"
proof (induction n arbitrary: p buffer sd)
  case (Suc n)
  obtain ok t where t: "packet_start_bit env sd = (ok, t)" by fastforce
  have s: "part_done sd0 ok t" using start_bit_wf [OF Suc.prems(1), of env] by (simp add: t)
  show ?case
  proof (cases ok)
    case False
    then show ?thesis using s by (simp add: t)
  next
    case True
    obtain dat t1 where r: "sdc_receivebyte_array env SDC_BLOCK_SIZE t = (dat, t1)" by fastforce
    have d: "sd_wf False sd0 t1" "length dat = SDC_BLOCK_SIZE"
      using s True sd_wf_receive(1,2) [of False sd0 t env SDC_BLOCK_SIZE] by (simp_all add: r)
    let ?t = "snd (sdc_receivebyte env (snd (sdc_receivebyte env (snd (sdc_receivebyte env t1)))))"
    have "sd_wf False sd0 ?t" by (intro sd_wf_receive(3) d(1))
    moreover have l: "length (mem_write p dat buffer) = length buffer" using d(2) Suc.prems(2) by simp
    ultimately have "case read_blocks n env (p + SDC_BLOCK_SIZE) (mem_write p dat buffer) ?t of
        (ok, buffer', sd') \<Rightarrow> part_done sd0 ok sd' \<and> length buffer' = length buffer"
      using Suc.IH [of ?t "p + SDC_BLOCK_SIZE" "mem_write p dat buffer"] Suc.prems(2) by simp
    then show ?thesis by (simp add: t True r Let_def)
  qed
qed simp

lemma wait_idle_wf: "sd_wf False sd0 sd \<Longrightarrow> part_done sd0 (fst (wait_idle n env sd)) (snd (wait_idle n env sd))"
proof (induction n arbitrary: sd)
  case 0
  then show ?case
    using sd_wf_receive(3) [OF 0, of env] sd_wf_lines(7) [OF sd_wf_receive(3) [OF 0, of env], of env]
    by (subst wait_idle.simps, subst (2) wait_idle.simps) (simp add: split_beta)
next
  case (Suc n)
  have w: "sd_wf False sd0 (snd (sdc_receivebyte env sd))" by (rule sd_wf_receive(3) [OF Suc.prems])
  show ?case
    using Suc.IH [OF w] w by (subst wait_idle.simps, subst (2) wait_idle.simps) (simp add: split_beta)
qed

lemma write_blocks_wf:
  "sd_wf False sd0 sd \<Longrightarrow> part_done sd0 (fst (write_blocks n env m p buffer sd)) (snd (write_blocks n env m p buffer sd))"
proof (induction n arbitrary: p sd)
  case (Suc n)
  let ?s = "sdc_sendbyte env 0xFF (sdc_sendbyte env 0xFF (sdc_sendbyte_array env (mem_read p SDC_BLOCK_SIZE buffer)
      (sdc_sendbyte env (if m then 0xFC else 0xFE) sd)))"
  have "sd_wf False sd0 ?s" by (intro sd_wf_lines(4,5) Suc.prems)
  then have w: "sd_wf False sd0 (snd (sdc_receivebyte env ?s))" by (rule sd_wf_receive(3))
  obtain tmp t where t: "sdc_receivebyte env ?s = (tmp, t)" by fastforce
  have wt: "sd_wf False sd0 t" using w by (simp add: t)
  obtain ok u where u: "wait_idle (SDC_POLL_COUNTMAX + 1) env t = (ok, u)" by fastforce
  have wu: "part_done sd0 ok u" using wait_idle_wf [OF wt, of "SDC_POLL_COUNTMAX + 1" env] unfolding u by (simp only: fst_conv snd_conv)
  have step: "write_blocks (Suc n) env m p buffer sd = (if tmp AND 0x1F \<noteq> 0x05 then (False, packet_failed env t)
      else if \<not> ok then (False, u)
      else write_blocks n env m (p + SDC_BLOCK_SIZE) buffer (if m then snd (sdc_receivebyte env u) else u))"
    unfolding write_blocks.simps Let_def t prod.case u ..
  show ?case
  proof (cases "tmp AND 0x1F = 0x05 \<and> ok")
    case True
    then have "sd_wf False sd0 (if m then snd (sdc_receivebyte env u) else u)" using wu sd_wf_receive(3) by auto
    from Suc.IH [OF this] show ?thesis using True unfolding step by simp
  next
    case False
    then show ?thesis using wu sd_wf_lines(7) [OF wt, of env] unfolding step by auto
  qed
qed simp

lemma check_idle_wf:
  assumes "sd_wf cs sd0 sd"
  shows "sd_wf True sd0 (snd (check_idle env sd)) \<and> (fst (check_idle env sd) \<or> packet_timeout (snd (check_idle env sd)) = 1)"
proof -
  let ?s = "sdc_cs_assert env (sdc_sendbyte env 0xFF (sdc_cs_deassert env sd))"
  have "sd_wf False sd0 ?s" by (intro sd_wf_lines(2) [where cs = True] sd_wf_lines(5) sd_wf_lines(3) [OF assms])
  from wait_idle_wf [OF this, of "SDC_POLL_COUNTMAX + 1" env]
  obtain ok u where u: "wait_idle (SDC_POLL_COUNTMAX + 1) env ?s = (ok, u)" "part_done sd0 ok u" by (metis prod.collapse)
  have "check_idle env sd = (ok, if ok then sdc_cs_deassert env u else u)"
    unfolding check_idle_def u(1) Let_def prod.case ..
  then show ?thesis using u(2) sd_wf_lines(3) by (cases ok) auto
qed

lemma plain_packet_wf:
  assumes "sd_wf cs sd0 sd"
  shows "\<exists>cs'. sd_wf cs' sd0 (plain_packet env cmd arg sd)"
  using command_wf [OF assms, of env cmd arg]
  by (auto simp: plain_packet_def split_beta part_done_def split: if_splits intro: exI sd_wf_lines(6))

lemma read_phase_wf:
  assumes "sd_wf False sd0 sd" "SDC_BLOCK_SIZE * n \<le> length buffer"
  shows "case read_phase env cmd buffer n sd of (ok, buffer', sd') \<Rightarrow>
    sd_wf True sd0 sd' \<and> length buffer' = length buffer \<and> (ok \<or> packet_timeout sd' = 1)"
proof -
  obtain ok buf t where t: "read_blocks n env 0 buffer sd = (ok, buf, t)" by (metis prod.collapse)
  have r: "part_done sd0 ok t" "length buf = length buffer"
    using read_blocks_wf [OF assms(1), of 0 n buffer env] assms(2) by (simp_all add: t)
  let ?u = "if cmd = SDC_READ_SINGLE_BLOCK then t else plain_packet env SDC_STOP_TRANSMISSION 0 t"
  have "ok \<Longrightarrow> \<exists>cs. sd_wf cs sd0 ?u" using r(1) plain_packet_wf [of False sd0 t] by auto
  then have "ok \<Longrightarrow> sd_wf True sd0 (snd (sdc_receivebyte env (sdc_cs_deassert env ?u)))"
    using sd_wf_receive(3) [OF sd_wf_lines(3)] by blast
  then show ?thesis using r by (cases ok) (simp_all add: read_phase_def t Let_def)
qed

lemma write_phase_wf:
  assumes "sd_wf False sd0 sd"
  shows "sd_wf True sd0 (snd (write_phase env cmd buffer n sd))
    \<and> (fst (write_phase env cmd buffer n sd) \<or> packet_timeout (snd (write_phase env cmd buffer n sd)) = 1)"
proof -
  obtain ok t where t: "write_blocks n env (cmd = SDC_WRITE_MULTIPLE_BLOCKS) 0 buffer sd = (ok, t)" by fastforce
  have w: "part_done sd0 ok t" using write_blocks_wf [OF assms, of n env "cmd = SDC_WRITE_MULTIPLE_BLOCKS" 0 buffer] by (simp add: t)
  obtain ok2 u where u: "wait_idle (SDC_POLL_COUNTMAX + 1) env (sdc_sendbyte env 0xFD t) = (ok2, u)" by fastforce
  have step: "write_phase env cmd buffer n sd = (if \<not> ok then (False, t)
      else if cmd = SDC_WRITE_SINGLE_BLOCK then check_idle env t else if ok2 then check_idle env u else (False, u))"
    unfolding write_phase_def t Let_def prod.case u ..
  show ?thesis
  proof (cases ok)
    case True
    then have wt: "sd_wf False sd0 t" using w by simp
    have "part_done sd0 ok2 u"
      using wait_idle_wf [OF sd_wf_lines(5) [OF wt], of "SDC_POLL_COUNTMAX + 1" env env "0xFD"] unfolding u by (simp only: fst_conv snd_conv)
    then have "ok2 \<Longrightarrow> sd_wf False sd0 u" "\<not> ok2 \<Longrightarrow> sd_wf True sd0 u \<and> packet_timeout u = 1" by simp_all
    then show ?thesis using True check_idle_wf [OF wt, of env] check_idle_wf [of False sd0 u env] unfolding step by auto
  next
    case False
    then show ?thesis using w unfolding step by simp
  qed
qed

lemma sendpacket_wf:
  assumes "sd_wf cs sd0 sd" "SDC_BLOCK_SIZE * n \<le> length buffer"
  shows "case sdc_sendpacket env cmd arg buffer n sd of (r, buffer', sd') \<Rightarrow>
    (\<exists>cs'. sd_wf cs' sd0 sd') \<and> length buffer' = length buffer"
proof -
  obtain ok t where t: "packet_command env cmd arg sd = (ok, t)" by fastforce
  have w: "part_done sd0 ok t" using command_wf [OF assms(1), of env cmd arg] by (simp add: t)
  obtain ok1 buf u where u: "(if ok \<and> (cmd = SDC_READ_SINGLE_BLOCK \<or> cmd = SDC_READ_MULTIPLE_BLOCKS)
      then read_phase env cmd buffer n t else (ok, buffer, t)) = (ok1, buf, u)" by (metis prod.collapse)
  have wu: "\<exists>cs'. sd_wf cs' sd0 u" "length buf = length buffer"
    using w read_phase_wf [of sd0 t n buffer env cmd] assms(2) u by (auto simp: part_done_def split: if_splits)
  obtain ok2 v where v: "(if ok1 \<and> (cmd = SDC_WRITE_SINGLE_BLOCK \<or> cmd = SDC_WRITE_MULTIPLE_BLOCKS)
      then write_phase env cmd buf n u else (ok1, u)) = (ok2, v)" by (metis prod.collapse)
  have wv: "\<exists>cs'. sd_wf cs' sd0 v"
  proof (cases "ok1 \<and> (cmd = SDC_WRITE_SINGLE_BLOCK \<or> cmd = SDC_WRITE_MULTIPLE_BLOCKS)")
    case True
    then have "u = t" "ok" using u by (auto split: if_splits)
    then have "sd_wf False sd0 u" using w by simp
    then show ?thesis using write_phase_wf [of sd0 u env cmd buf n] v True by auto
  next
    case False
    then show ?thesis using v wu by auto
  qed
  then have "\<exists>cs'. sd_wf cs' sd0 (if ok2 then packet_done env v else v)" by (auto intro: exI sd_wf_lines(6))
  moreover have "sdc_sendpacket env cmd arg buffer n sd
      = (stat_reg_buffer (if ok2 then packet_done env v else v) ! 0, buf, if ok2 then packet_done env v else v)"
    unfolding sdc_sendpacket_def t Let_def prod.case u v ..
  ultimately show ?thesis using wu(2) by (cases ok2) simp_all
qed

text \<open>
  C35: whatever the card does, a packet returns with the driver's state well formed: the response buffer
  keeps its length, the flag for the selected card agrees with the line, the timeout is a flag, the
  fields that describe the card are unchanged, and the caller's buffer keeps its length.
\<close>

theorem sdc_sendpacket_type:
  assumes "sd_wf cs sd sd" and "SDC_BLOCK_SIZE * blocks_count \<le> length buffer"
    and "sdc_sendpacket env cmd arg buffer blocks_count sd = (r, buffer', sd')"
  shows "(\<exists>cs'. sd_wf cs' sd sd') \<and> length buffer' = length buffer"
  using sendpacket_wf [OF assms(1,2), of env cmd arg] by (simp add: assms(3))

theorem sdc_sendpacket_type_witness:
  "case sdc_sendpacket silent_env SDC_WRITE_MULTIPLE_BLOCKS 7 (replicate 1024 0) 2 (silent_sd\<lparr>sd_csl := 1\<rparr>) of
    (r, buffer', sd') \<Rightarrow> length (stat_reg_buffer sd') = 24 \<and> length buffer' = 1024"
proof -
  have w: "sd_wf True (silent_sd\<lparr>sd_csl := 1\<rparr>) (silent_sd\<lparr>sd_csl := 1\<rparr>)"
    by (simp add: sd_wf_def silent_sd_def zero_sdcard_def)
  obtain r b sd' where s: "sdc_sendpacket silent_env SDC_WRITE_MULTIPLE_BLOCKS 7 (replicate 1024 0) 2 (silent_sd\<lparr>sd_csl := 1\<rparr>) = (r, b, sd')"
    by (metis prod.collapse)
  have l: "SDC_BLOCK_SIZE * 2 \<le> length (replicate 1024 (0 :: byte))" by simp
  show ?thesis using sdc_sendpacket_type [OF w l s] unfolding s by (auto simp: sd_wf_def)
qed

subsection \<open>Runs of blocks\<close>

lemma block_number:
  assumes "sd_card env v blocks n ready" "unat (s :: u32) + i < n"
  shows "unat (s + word_of_nat i) = unat s + i"
proof -
  have "n < 2 ^ 32" using assms(1) by (simp add: sd_card_def)
  then show ?thesis using assms(2) unat_add_lem [of s "word_of_nat i"] unat_word_of_nat [of i, where 'a = 32] by simp
qed

text \<open>The answer of both loops says only whether the last packet timed out, for any card: the status byte
  of the card is shifted away.\<close>

lemma shifted_response_0 [simp]: "shifted_response r = 0"
  unfolding shifted_response_def by (rule bit_word_eqI) (auto simp: bit_simps dest: bit_imp_le_length)

lemma read_multiple_status:
  "k \<noteq> 0 \<Longrightarrow> read_multiple k env s i resp buffer sd = (r, buffer', sd') \<Longrightarrow> r = (if packet_timeout sd' = 0 then 0 else SDC_TIMEOUT)"
proof (induction k arbitrary: i resp buffer sd)
  case (Suc k)
  then show ?case by (cases "k = 0") (auto simp: split_beta Let_def split: if_splits)
qed simp

lemma write_multiple_status:
  "k \<noteq> 0 \<Longrightarrow> write_multiple k env s i resp buffer sd = (r, sd') \<Longrightarrow> r = (if packet_timeout sd' = 0 then 0 else SDC_TIMEOUT)"
proof (induction k arbitrary: i resp sd)
  case (Suc k)
  then show ?case by (cases "k = 0") (auto simp: split_beta Let_def split: if_splits)
qed simp

lemma write_multiple_lemma:
  assumes card: "sd_card env v blocks n ready"
  shows "sd_valid v ready sd \<Longrightarrow> unat s + i + k \<le> n \<Longrightarrow> SDC_BLOCK_SIZE * (i + k) \<le> length buffer \<Longrightarrow>
    \<exists>r sd'. write_multiple k env s i resp buffer sd = (r, sd') \<and> sd_valid v ready sd' \<and> (k = 0 \<or> packet_timeout sd' = 0)
      \<and> (\<forall>t. unat t < n \<longrightarrow> sd_sector blocks sd' t = (if unat s + i \<le> unat t \<and> unat t < unat s + i + k
          then mem_read (SDC_BLOCK_SIZE * (unat t - unat s)) SDC_BLOCK_SIZE buffer else sd_sector blocks sd t))
      \<and> packet_frame sd sd'"
proof (induction k arbitrary: i sd resp)
  case (Suc k)
  have si: "unat (s + word_of_nat i) = unat s + i" using block_number [OF card] Suc.prems(2) by simp
  then have lt: "unat (s + word_of_nat i) < n" using Suc.prems(2) by simp
  have l: "SDC_BLOCK_SIZE \<le> length (drop (512 * i) buffer)" using Suc.prems(3) by simp
  obtain r sd1 where s1: "sdc_sendpacket env SDC_WRITE_SINGLE_BLOCK (s + word_of_nat i) (drop (512 * i) buffer) 1 sd
      = (r, drop (512 * i) buffer, sd1)" "sd_valid v ready sd1" "packet_timeout sd1 = 0"
    "sd_sector blocks sd1 (s + word_of_nat i) = take SDC_BLOCK_SIZE (drop (512 * i) buffer)"
    "\<forall>t. unat t < n \<longrightarrow> t \<noteq> s + word_of_nat i \<longrightarrow> sd_sector blocks sd1 t = sd_sector blocks sd t" "packet_frame sd sd1"
    using sd_write_one [OF card Suc.prems(1) lt l] by blast
  have "unat s + Suc i + k \<le> n" "512 * (Suc i + k) \<le> length buffer" using Suc.prems(2,3) by simp_all
  from Suc.IH [OF s1(2) this, of "shifted_response r"]
  obtain r2 sd2 where s2: "write_multiple k env s (Suc i) (shifted_response r) buffer sd1 = (r2, sd2)" "sd_valid v ready sd2"
    "k = 0 \<or> packet_timeout sd2 = 0"
    "\<forall>t. unat t < n \<longrightarrow> sd_sector blocks sd2 t = (if unat s + Suc i \<le> unat t \<and> unat t < unat s + Suc i + k
        then mem_read (512 * (unat t - unat s)) 512 buffer else sd_sector blocks sd1 t)" "packet_frame sd1 sd2"
    by blast
  have "write_multiple (Suc k) env s i resp buffer sd = (r2, sd2)" using s1(1,3) s2(1) by simp
  moreover have "packet_timeout sd2 = 0" using s2(1,3) s1(3) by auto
  moreover have "sd_sector blocks sd2 t = (if unat s + i \<le> unat t \<and> unat t < unat s + i + Suc k
      then mem_read (512 * (unat t - unat s)) 512 buffer else sd_sector blocks sd t)" if t: "unat t < n" for t
  proof (cases "unat t = unat s + i")
    case True
    then have "t = s + word_of_nat i" using si by (simp add: word_unat_eq_iff)
    then show ?thesis using s2(4) t s1(4) True by (simp add: mem_read_def)
  next
    case False
    then have "t \<noteq> s + word_of_nat i" using si by auto
    then have "sd_sector blocks sd1 t = sd_sector blocks sd t" using s1(5) t by blast
    then show ?thesis using s2(4) t False by auto
  qed
  ultimately show ?case using s2(2) packet_frame_trans [OF s1(6) s2(5)] by auto
qed auto

text \<open>
  C5: reading \<open>k\<close> blocks from a card that follows the specification fills the buffer with them,
  answers 0, and leaves the card ready and its blocks unchanged.
\<close>

theorem sdc_read_multiple_blocks_correct:
  assumes "sd_card env v blocks n ready" and "sd_valid v ready sd" and "k \<noteq> 0" and "unat s + unat k \<le> n"
    and "unat k * SDC_BLOCK_SIZE \<le> length buffer"
  shows "\<exists>sd'. sdc_read_multiple_blocks env s buffer k sd
      = (0, concat (map (\<lambda>i. sd_sector blocks sd (s + word_of_nat i)) [0..<unat k]) @ drop (unat k * SDC_BLOCK_SIZE) buffer, sd')
    \<and> sd_valid v ready sd' \<and> packet_timeout sd' = 0 \<and> same_blocks blocks n sd sd'"
proof -
  have k: "unat k \<noteq> 0" using assms(3) by (simp add: unat_eq_0)
  have "unat s + 0 + unat k \<le> n" "512 * (0 + unat k) \<le> length buffer" using assms(4,5) by simp_all
  from read_multiple_lemma [OF assms(1,2) this, of 0] k read_multiple_status [OF k] show ?thesis
    by (fastforce simp: sdc_read_multiple_blocks_def mult.commute)
qed

lemma sample_card_ok: "sd_card sample_env 1 rc_data 2 (rc_ready 2)" "sd_valid 1 (rc_ready 2) sample_sd"
  by (rule sample_sd_card, simp)
    (simp add: sd_valid_def sample_sd_def zero_sdcard_def sample_bus_def rc_ready_def at_card_def)

theorem sdc_read_multiple_blocks_correct_witness:
  "\<exists>sd'. sdc_read_multiple_blocks sample_env 0 (replicate 1024 0) 2 sample_sd = (0, replicate 512 1 @ replicate 512 2, sd')"
proof -
  have b: "concat (map (\<lambda>i. sd_sector rc_data sample_sd (0 + word_of_nat i)) [0..<unat (2 :: u32)]) = replicate 512 1 @ replicate 512 2"
    by (simp add: sd_sector_def rc_data_def sample_sd_def zero_sdcard_def sample_bus_def upt_rec)
  show ?thesis using sdc_read_multiple_blocks_correct [OF sample_card_ok, of 2 0 "replicate 1024 0"] unfolding b by auto
qed

text \<open>
  Writing \<open>k\<close> blocks to a card that follows the specification stores the buffer in them and in no
  other block, answers 0, and leaves the card ready.
\<close>

theorem sdc_write_multiple_blocks_correct:
  assumes "sd_card env v blocks n ready" and "sd_valid v ready sd" and "k \<noteq> 0" and "unat s + unat k \<le> n"
    and "unat k * SDC_BLOCK_SIZE \<le> length buffer"
  shows "\<exists>sd'. sdc_write_multiple_blocks env s buffer k sd = (0, sd') \<and> sd_valid v ready sd' \<and> packet_timeout sd' = 0
    \<and> (\<forall>t. unat t < n \<longrightarrow> sd_sector blocks sd' t = (if unat s \<le> unat t \<and> unat t < unat s + unat k
        then mem_read (SDC_BLOCK_SIZE * (unat t - unat s)) SDC_BLOCK_SIZE buffer else sd_sector blocks sd t))"
proof -
  have k: "unat k \<noteq> 0" using assms(3) by (simp add: unat_eq_0)
  have "unat s + 0 + unat k \<le> n" "512 * (0 + unat k) \<le> length buffer" using assms(4,5) by simp_all
  from write_multiple_lemma [OF assms(1,2) this, of 0] k write_multiple_status [OF k] show ?thesis
    by (fastforce simp: sdc_write_multiple_blocks_def mult.commute)
qed

theorem sdc_write_multiple_blocks_correct_witness:
  "\<exists>sd'. sdc_write_multiple_blocks sample_env 1 (replicate 512 9) 1 sample_sd = (0, sd')
    \<and> sd_sector rc_data sd' 0 = replicate 512 1 \<and> sd_sector rc_data sd' 1 = replicate 512 9"
proof -
  have "sd_sector rc_data sample_sd 0 = replicate 512 1"
    by (simp add: sd_sector_def rc_data_def sample_sd_def zero_sdcard_def sample_bus_def)
  then show ?thesis
    using sdc_write_multiple_blocks_correct [OF sample_card_ok, of 1 1 "replicate 512 9"] by (fastforce simp: mem_read_def)
qed

text \<open>
  C4: behind \<open>fat_media_read\<close> and \<open>fat_media_write\<close> of the Saturn, a card that follows the specification
  is a medium as the file-system library needs it, runs of sectors included, and it never fails.
\<close>

theorem sd_device_correct:
  assumes "sd_card env v blocks n ready"
  shows "run_device (sd_media_read env) (sd_media_write env) (sd_sector blocks) n (sd_valid v ready)
    \<and> device_ok (sd_media_read env) (sd_media_write env) n (sd_valid v ready)"
  using sd_device_lemma [OF assms] by blast

theorem sd_device_correct_witness:
  "run_device (sd_media_read sample_env) (sd_media_write sample_env) (sd_sector rc_data) 2 (sd_valid 1 (rc_ready 2))
    \<and> sd_valid 1 (rc_ready 2) sample_sd"
  using sd_device_correct [OF sample_card_ok(1)] sample_card_ok(2) by blast

end
