(* ===== verification/SdInit.thy ===== *)
theory SdInit
  imports SdDriver
begin

section \<open>Initialising the card\<close>

text \<open>
  \<open>sdc_init\<close> of \<open>sdcard_packet.c\<close>: the packets without data, what a card of the second version of the
  specification answers to them, and the state in which the driver and the card are afterwards.
\<close>

subsection \<open>Responses of several bytes\<close>

lemma header_bytes_8:
  "replies env cs (the_card b) (concat (map bits_of rs)) c \<Longrightarrow> pin_cs b = cs \<Longrightarrow>
    header_bytes (length rs) 8 env (receive_bits cs True) (receive_bits cs False) b = (rs, if rs = [] then b else after_rx c b)"
proof (induction rs arbitrary: b)
  case (Cons r rs)
  obtain c1 where c1: "replies env cs (the_card b) (bits_of r) c1" "replies env cs c1 (concat (map bits_of rs)) c"
    using Cons.prems(1) by (auto simp: replies_append)
  have "bits_of r \<noteq> []" by (simp add: bits_of_def)
  from header_bits_eq [OF c1(1) Cons.prems(2) this, of 0]
  have h: "header_bits 8 env (receive_bits cs True) (receive_bits cs False) 0 b = (r, after_rx c1 b)"
    by (simp only: length_bits_of foldl_byte_of byte_of_bits)
  have "header_bytes (length rs) 8 env (receive_bits cs True) (receive_bits cs False) (after_rx c1 b)
      = (rs, if rs = [] then after_rx c1 b else after_rx c (after_rx c1 b))"
    by (rule Cons.IH) (use c1(2) Cons.prems(2) in simp_all)
  then show ?case using h c1(2) by (cases "rs = []") (simp_all add: Let_def)
qed simp

lemma header_bytes_7:
  assumes "replies env cs (the_card b) (tl (bits_of r) @ concat (map bits_of rs)) c" "pin_cs b = cs" "\<not> bit r 7"
  shows "header_bytes (length (r # rs)) 7 env (receive_bits cs True) (receive_bits cs False) b = (r # rs, after_rx c b)"
proof -
  obtain c1 where c1: "replies env cs (the_card b) (tl (bits_of r)) c1" "replies env cs c1 (concat (map bits_of rs)) c"
    using assms(1) by (auto simp: replies_append)
  have t: "tl (bits_of r) \<noteq> []" "length (tl (bits_of r)) = 7" by (simp_all add: bits_of_def)
  have "byte_of (tl (bits_of r)) = byte_of (bits_of r)"
    using assms(3) by (simp add: bits_of_def byte_of_def)
  then have h: "header_bits 7 env (receive_bits cs True) (receive_bits cs False) 0 b = (r, after_rx c1 b)"
    using header_bits_eq [OF c1(1) assms(2) t(1), of 0] by (simp only: t(2) foldl_byte_of byte_of_bits)
  have "header_bytes (length rs) 8 env (receive_bits cs True) (receive_bits cs False) (after_rx c1 b)
      = (rs, if rs = [] then after_rx c1 b else after_rx c (after_rx c1 b))"
    by (rule header_bytes_8) (use c1(2) assms(2) in simp_all)
  then show ?thesis using h c1(2) by (cases "rs = []") (simp_all add: Let_def)
qed

subsection \<open>A packet without data\<close>

text \<open>
  The card \<open>c\<close>, selected and with its lines at rest, answers the command with the bytes \<open>resp\<close> in time
  and becomes \<open>c'\<close>. The first byte has its top bit clear; it is the start bit.
\<close>

definition answers :: "'c card_env \<Rightarrow> 'c \<Rightarrow> byte \<times> u32 \<times> byte list \<Rightarrow> 'c \<Rightarrow> bool" where
  "answers env c cmd c' \<longleftrightarrow> (case cmd of (cmd, arg, resp) \<Rightarrow>
     (\<exists>k \<le> SDC_POLL_COUNTMAX. replies env False (tx_bytes env False (command_bytes cmd arg) (on_pins env False True False c))
        (replicate k True @ concat (map bits_of resp)) c')
     \<and> length resp = fst (response_lengths cmd) \<and> \<not> bit (hd resp) 7)"

fun answers_all :: "'c card_env \<Rightarrow> 'c \<Rightarrow> (byte \<times> u32 \<times> byte list) list \<Rightarrow> 'c \<Rightarrow> bool" where
  "answers_all env c [] c' \<longleftrightarrow> c' = c"
| "answers_all env c (cmd # cmds) c' \<longleftrightarrow> (\<exists>c1. answers env c cmd c1 \<and> answers_all env c1 cmds c')"

lemma answers_all_append:
  "answers_all env c (xs @ ys) c' \<longleftrightarrow> (\<exists>c1. answers_all env c xs c1 \<and> answers_all env c1 ys c')"
  by (induction xs arbitrary: c) auto

text \<open>The driver with the lines at rest.\<close>

definition at_rest :: "'c sdcard_t \<Rightarrow> 'c \<Rightarrow> bool" where
  "at_rest sd c \<longleftrightarrow> pin_din (sd_bus sd) \<and> \<not> pin_clk (sd_bus sd) \<and> the_card (sd_bus sd) = c
     \<and> length (stat_reg_buffer sd) = SDC_CMDBUFFER_LEN"

definition no_data :: "byte \<Rightarrow> bool" where
  "no_data cmd \<longleftrightarrow> cmd \<notin> {SDC_READ_SINGLE_BLOCK, SDC_READ_MULTIPLE_BLOCKS, SDC_WRITE_SINGLE_BLOCK, SDC_WRITE_MULTIPLE_BLOCKS,
     SDC_ERASE_BLOCK_START_ADDR, SDC_ERASE_BLOCK_END_ADDR}"

lemma send_command_lemma:
  assumes "at_rest sd c" "answers env c (cmd, arg, resp) c'" "no_data cmd"
  shows "at_rest (send_command env cmd arg sd) c' \<and> packet_frame sd (send_command env cmd arg sd)
    \<and> packet_timeout (send_command env cmd arg sd) = 0 \<and> status_len (send_command env cmd arg sd) = snd (response_lengths cmd)
    \<and> take (length resp) (stat_reg_buffer (send_command env cmd arg sd)) = resp
    \<and> at_card (send_command env cmd arg sd) False c'"
proof -
  let ?b = "before_response env cmd arg sd"
  note b = before_response_lemma [where sd = sd and env = env and cmd = cmd and arg = arg]
  obtain r rs where resp: "resp = r # rs" using assms(2) by (cases resp) (auto simp: answers_def response_lengths_def split: if_splits)
  have a: "packet_arg (ccs sd) cmd arg = arg" using assms(3) by (simp add: packet_arg_def no_data_def)
  have sent: "command_sent env cmd arg sd = tx_bytes env False (command_bytes cmd arg) (on_pins env False True False c)"
    using assms(1) by (simp add: command_sent_def a at_rest_def)
  obtain k where k: "k \<le> SDC_POLL_COUNTMAX" "replies env False (command_sent env cmd arg sd) (replicate k True @ concat (map bits_of resp)) c'"
    "length resp = fst (response_lengths cmd)" "\<not> bit r 7"
    using assms(2) by (auto simp: answers_def sent resp)
  have "bits_of r = False # tl (bits_of r)" using k(4) by (simp add: bits_of_def)
  then have "replicate k True @ concat (map bits_of resp) = (replicate k True @ [False]) @ (tl (bits_of r) @ concat (map bits_of rs))"
    unfolding resp by simp
  then obtain c1 where c1: "replies env False (command_sent env cmd arg sd) (replicate k True @ [False]) c1"
    "replies env False c1 (tl (bits_of r) @ concat (map bits_of rs)) c'"
    using k(2) replies_append [of env False] by metis
  have st: "packet_start_bit env ?b = (True, ?b\<lparr>sd_bus := after_rx c1 (sd_bus ?b)\<rparr>)"
    by (rule start_bit_found) (use c1(1) b(2,3) k(1) in simp_all)
  have h: "header_bytes (fst (response_lengths cmd)) 7 env (receive_bits False True) (receive_bits False False) (after_rx c1 (sd_bus ?b))
      = (resp, after_rx c' (sd_bus ?b))"
    using header_bytes_7 [of env False "after_rx c1 (sd_bus ?b)" r rs c', folded resp] c1(2) b(3) k(3,4)
    by (simp del: header_bytes.simps)
  let ?t = "?b\<lparr>stat_reg_buffer := mem_write 0 resp (stat_reg_buffer ?b), sd_bus := after_rx c' (sd_bus ?b)\<rparr>"
  have cmd: "packet_command env cmd arg sd = (True, ?t)"
    unfolding packet_command_before by (simp add: st h)
  have s: "send_command env cmd arg sd = packet_done env ?t"
    using assms(3) by (simp add: send_command_def sdc_sendpacket_def cmd Let_def no_data_def)
  have l: "length resp \<le> 24" "length (stat_reg_buffer ?b) = 24"
    using k(3) b(6) assms(1) by (simp_all add: response_lengths_def at_rest_def split: if_splits)
  have "packet_frame ?b (packet_done env ?t)"
    by (simp add: packet_done_def packet_frame_def kept_part_def sdc_ledset_def on_bus_def Let_def)
  then have "packet_frame sd (packet_done env ?t)" by (rule packet_frame_trans [OF b(1)])
  moreover have "status_len (packet_done env ?t) = snd (response_lengths cmd)"
    by (simp add: packet_done_def sdc_ledset_def on_bus_def before_response_def Let_def)
  moreover have "at_card (packet_done env ?t) False c'" "packet_timeout (packet_done env ?t) = 0"
    "stat_reg_buffer (packet_done env ?t) = mem_write 0 resp (stat_reg_buffer ?b)"
    using b(3-5) by (simp_all add: packet_done_def at_card_def)
  moreover have "at_rest (packet_done env ?t) c'" using l by (simp add: at_rest_def packet_done_def)
  ultimately show ?thesis using l unfolding s by (simp add: mem_write_def)
qed

lemma send_command_byte:
  assumes "at_rest sd c" "answers env c (cmd, arg, r # rs) c'" "no_data cmd"
  shows "stat_reg_buffer (send_command env cmd arg sd) ! 0 = r"
  using send_command_lemma [OF assms] by (cases "stat_reg_buffer (send_command env cmd arg sd)") auto

subsection \<open>The steps of the initialisation\<close>

lemma start_clocks_lemma:
  "sd_csl sd = 1 \<Longrightarrow> sd_din sd = 1 \<Longrightarrow> 0 < n \<Longrightarrow>
    start_clocks n env sd = sd\<lparr>sd_clk := 0, sd_bus := (sd_bus sd)\<lparr>pin_cs := True, pin_din := True, pin_clk := False,
      the_card := (rx env True ^^ n) (the_card (sd_bus sd))\<rparr>\<rparr>"
proof (induction n arbitrary: sd)
  case (Suc n)
  let ?s = "sdc_output env ((sdc_output env (sd\<lparr>sd_clk := 1\<rparr>))\<lparr>sd_clk := 0\<rparr>)"
  have s: "?s = sd\<lparr>sd_clk := 0, sd_bus := (sd_bus sd)\<lparr>pin_cs := True, pin_din := True, pin_clk := False,
      the_card := rx env True (the_card (sd_bus sd))\<rparr>\<rparr>"
    using Suc.prems by (simp add: sdc_output_def on_bus_def reg_write_def set_pins_def bit_simps rx_def)
  show ?case
  proof (cases "n = 0")
    case True
    then show ?thesis using s by simp
  next
    case False
    then show ?thesis using Suc.IH [of ?s] Suc.prems by (simp add: s funpow_swap1)
  qed
qed simp

text \<open>The commands of the loop: the card is busy for as many rounds as \<open>xs\<close> has bytes, then idle.\<close>

definition op_cond_cmds :: "byte list \<Rightarrow> byte \<Rightarrow> (byte \<times> u32 \<times> byte list) list" where
  "op_cond_cmds xs y = concat (map (\<lambda>x. [(SDC_APP_CMD, 0, [x]), (SDC_SD_SEND_OP_COND, 0x40000000, [1])]) xs)
     @ [(SDC_APP_CMD, 0, [y]), (SDC_SD_SEND_OP_COND, 0x40000000, [0])]"

lemma no_data_init [simp]:
  "no_data SDC_APP_CMD" "no_data SDC_SD_SEND_OP_COND" "no_data SDC_GO_IDLE_STATE" "no_data SDC_SEND_IF_COND" "no_data SDC_READ_OCR"
  "no_data SDC_SEND_CID" "no_data SDC_SEND_CSD" "no_data SDC_SET_BLOCK_LEN"
  by (simp_all add: no_data_def)

lemma op_cond_lemma:
  assumes "at_rest sd c" "sd_ver2 sd \<noteq> 0" "mmc sd = 0" "answers_all env c (op_cond_cmds xs y) c'" "length xs < n"
  shows "\<exists>sd'. op_cond_loop n i env sd = (True, sd') \<and> at_rest sd' c' \<and> packet_frame sd sd'"
  using assms
proof (induction xs arbitrary: n i sd c)
  case Nil
  then obtain m where n: "n = Suc m" by (cases n) auto
  obtain c1 where a: "answers env c (SDC_APP_CMD, 0, [y]) c1" "answers env c1 (SDC_SD_SEND_OP_COND, 0x40000000, [0]) c'"
    using Nil.prems(4) by (auto simp: op_cond_cmds_def)
  let ?s = "send_command env SDC_APP_CMD 0 sd"
  let ?t = "send_command env SDC_SD_SEND_OP_COND 0x40000000 ?s"
  have s: "at_rest ?s c1" "packet_frame sd ?s" using send_command_lemma [OF Nil.prems(1) a(1)] by simp_all
  have t: "at_rest ?t c'" "packet_frame ?s ?t" "packet_timeout ?t = 0" using send_command_lemma [OF s(1) a(2)] by simp_all
  have "stat_reg_buffer ?t ! 0 = 0" by (rule send_command_byte [OF s(1) a(2)]) simp
  then have "op_cond_loop n i env sd = (True, ?t)"
    using Nil.prems(2,3) t(3) packet_frame_fields [OF s(2)] by (simp add: n Let_def)
  then show ?case using t(1) packet_frame_trans [OF s(2) t(2)] by blast
next
  case (Cons x xs)
  then obtain m where n: "n = Suc m" "length xs < m" by (cases n) auto
  obtain c1 c2 where a: "answers env c (SDC_APP_CMD, 0, [x]) c1" "answers env c1 (SDC_SD_SEND_OP_COND, 0x40000000, [1]) c2"
    "answers_all env c2 (op_cond_cmds xs y) c'"
    using Cons.prems(4) by (auto simp: op_cond_cmds_def)
  let ?s = "send_command env SDC_APP_CMD 0 sd"
  let ?t = "send_command env SDC_SD_SEND_OP_COND 0x40000000 ?s"
  have s: "at_rest ?s c1" "packet_frame sd ?s" using send_command_lemma [OF Cons.prems(1) a(1)] by simp_all
  have t: "at_rest ?t c2" "packet_frame ?s ?t" "packet_timeout ?t = 0" using send_command_lemma [OF s(1) a(2)] by simp_all
  have b: "stat_reg_buffer ?t ! 0 = 1" by (rule send_command_byte [OF s(1) a(2)]) simp
  have f: "packet_frame sd ?t" by (rule packet_frame_trans [OF s(2) t(2)])
  have "op_cond_loop n i env sd = op_cond_loop m (i + 1) env ?t"
    using Cons.prems(2,3) t(3) b packet_frame_fields [OF s(2)] packet_frame_fields [OF f]
    by (simp add: n Let_def bad_status_def)
  moreover obtain sd' where "op_cond_loop m (i + 1) env ?t = (True, sd')" "at_rest sd' c'" "packet_frame ?t sd'"
    using Cons.IH [OF t(1) _ _ a(3) n(2)] Cons.prems(2,3) packet_frame_fields [OF f] by auto
  ultimately show ?case using packet_frame_trans [OF f] by auto
qed

subsection \<open>The registers of the card\<close>

lemma packet_frame_stats:
  assumes "packet_frame sd sd'"
  shows "cid sd' = cid sd" "csd sd' = csd sd" "sdhc sd' = sdhc sd" "user_size sd' = user_size sd" "file_format sd' = file_format sd"
proof -
  show "cid sd' = cid sd" "csd sd' = csd sd" "sdhc sd' = sdhc sd" "user_size sd' = user_size sd" "file_format sd' = file_format sd"
    using arg_cong [OF assms [unfolded packet_frame_def], of cid] arg_cong [OF assms [unfolded packet_frame_def], of csd]
      arg_cong [OF assms [unfolded packet_frame_def], of sdhc] arg_cong [OF assms [unfolded packet_frame_def], of user_size]
      arg_cong [OF assms [unfolded packet_frame_def], of file_format]
    by (simp_all add: kept_part_def)
qed

lemma at_rest_update [simp]:
  "at_rest (sd\<lparr>ccs := a\<rparr>) c = at_rest sd c" "at_rest (sd\<lparr>cid := r\<rparr>) c = at_rest sd c" "at_rest (sd\<lparr>csd := r\<rparr>) c = at_rest sd c"
  "at_rest (sd\<lparr>sdhc := a\<rparr>) c = at_rest sd c" "at_rest (sd\<lparr>user_size := u\<rparr>) c = at_rest sd c"
  "at_rest (sd\<lparr>file_format := a\<rparr>) c = at_rest sd c" "at_rest (sd\<lparr>sd_ver2 := a\<rparr>) c = at_rest sd c"
  "at_rest (sd\<lparr>mmc := a\<rparr>) c = at_rest sd c"
  by (simp_all add: at_rest_def)

lemma register_bytes:
  assumes "take 20 st = r"
  shows "mem_read 3 16 st = take 16 (drop 3 r)" "st ! 3 = r ! 3"
proof -
  have "take 16 (drop 3 (take 20 st)) = take 16 (drop 3 st)" by (simp add: drop_take)
  then show "mem_read 3 16 st = take 16 (drop 3 r)" using assms by (simp add: mem_read_def)
  show "st ! 3 = r ! 3" using assms nth_take [of 3 20 st] by simp
qed

text \<open>The size in megabytes the driver computes from the register of a card with a high capacity.\<close>

definition sdhc_size :: "byte list \<Rightarrow> u32" where
  "sdhc_size csdr = drop_bit 10 (1000 * ((word_of_int (take_bit 22 (drop_bit 48 (register_value csdr)) + 2) * 524288) div 1048576))"

definition register_cmds :: "byte list \<Rightarrow> byte list \<Rightarrow> byte \<Rightarrow> byte list \<Rightarrow> byte \<Rightarrow> (byte \<times> u32 \<times> byte list) list" where
  "register_cmds ocr cidr y csdr z = [(SDC_READ_OCR, 0, ocr), (SDC_SEND_CID, 0, cidr), (SDC_APP_CMD, 0, [y]), (SDC_SEND_CSD, 0, csdr),
     (SDC_SET_BLOCK_LEN, 512, [z])]"

lemma init_registers_lemma:
  assumes "at_rest sd c" "sd_ver2 sd \<noteq> 0" "answers_all env c (register_cmds ocr cidr y csdr z) c'"
    and "drop_bit 6 (csdr ! 3) = 1"
  shows "\<exists>sd'. init_registers env sd = Some (SDC_OK, sd') \<and> at_card sd' True (on_pins env True True False c')
    \<and> length (stat_reg_buffer sd') = SDC_CMDBUFFER_LEN \<and> ccs sd' = drop_bit 6 (ocr ! 1) AND 1 \<and> cid sd' = take 16 (drop 3 cidr) \<and> csd sd' = take 16 (drop 3 csdr)
    \<and> sdhc sd' = 1 \<and> user_size sd' = sdhc_size (take 16 (drop 3 csdr)) \<and> inserted sd' = inserted sd"
proof -
  obtain c1 c2 c3 c4 where a: "answers env c (SDC_READ_OCR, 0, ocr) c1" "answers env c1 (SDC_SEND_CID, 0, cidr) c2"
    "answers env c2 (SDC_APP_CMD, 0, [y]) c3" "answers env c3 (SDC_SEND_CSD, 0, csdr) c4"
    "answers env c4 (SDC_SET_BLOCK_LEN, 512, [z]) c'"
    using assms(3) by (auto simp: register_cmds_def)
  have l: "length cidr = 20" "length csdr = 20" using a(2,4) by (simp_all add: answers_def response_lengths_def)
  let ?cid = "take 16 (drop 3 cidr)" and ?csd = "take 16 (drop 3 csdr)"
  let ?s1 = "send_command env SDC_READ_OCR 0 sd"
  have s1: "at_rest ?s1 c1" "packet_frame sd ?s1" "take (length ocr) (stat_reg_buffer ?s1) = ocr"
    using send_command_lemma [OF assms(1) a(1)] by simp_all
  have "length ocr = 5" using a(1) by (simp add: answers_def response_lengths_def)
  then have o: "stat_reg_buffer ?s1 ! 1 = ocr ! 1" using s1(3) nth_take [of 1 5 "stat_reg_buffer ?s1"] by simp
  let ?t1 = "?s1\<lparr>ccs := drop_bit 6 (ocr ! 1) AND 1\<rparr>"
  let ?s2 = "send_command env SDC_SEND_CID 0 ?t1"
  have t1: "at_rest ?t1 c1" using s1(1) by simp
  have s2: "at_rest ?s2 c2" "packet_frame ?t1 ?s2" "status_len ?s2 = 3" "take 20 (stat_reg_buffer ?s2) = cidr"
    using send_command_lemma [OF t1 a(2)] l by (simp_all add: response_lengths_def)
  let ?t2 = "?s2\<lparr>cid := ?cid, sdhc := 2, user_size := 0, file_format := 3\<rparr>"
  let ?s3 = "send_command env SDC_APP_CMD 0 ?t2"
  have t2: "at_rest ?t2 c2" using s2(1) by simp
  have s3: "at_rest ?s3 c3" "packet_frame ?t2 ?s3" using send_command_lemma [OF t2 a(3)] by simp_all
  let ?s4 = "send_command env SDC_SEND_CSD 0 ?s3"
  have s4: "at_rest ?s4 c4" "packet_frame ?s3 ?s4" "status_len ?s4 = 3" "take 20 (stat_reg_buffer ?s4) = csdr"
    using send_command_lemma [OF s3(1) a(4)] l by (simp_all add: response_lengths_def)
  have l4: "length (stat_reg_buffer ?s4) = SDC_CMDBUFFER_LEN" using s4(1) by (simp add: at_rest_def)
  let ?t4 = "?s4\<lparr>csd := ?csd, sdhc := 1\<rparr>"
  note r2 = register_bytes [OF s2(4)] and r4 = register_bytes [OF s4(4)]
  have "csd_size_sdhc ?t4 = Some (sdhc_size ?csd)"
    using csd_size_sdhc_value [of ?t4] l4 s4(3) r4(1) by (simp add: sdhc_size_def)
  let ?t5 = "?t4\<lparr>user_size := sdhc_size ?csd\<rparr>"
  let ?s5 = "send_command env SDC_SET_BLOCK_LEN 512 ?t5"
  have t5: "at_rest ?t5 c4" using s4(1) by simp
  have s5: "at_rest ?s5 c'" "packet_frame ?t5 ?s5" "at_card ?s5 False c'"
    using send_command_lemma [OF t5 a(5)] by simp_all
  have v: "sd_ver2 ?t5 \<noteq> 0"
    using assms(2) packet_frame_fields [OF s1(2)] packet_frame_fields [OF s2(2)] packet_frame_fields [OF s3(2)] packet_frame_fields [OF s4(2)] by simp
  let ?e = "sdc_ledset env SDC_LED_RED False (sdc_ledset env SDC_LED_GREEN False (sdc_cs_deassert env ?s5))"
  have "init_registers env sd = Some (SDC_OK, ?e)"
    using v o s2(3) r2(1) s4(3) r4 assms(4) \<open>csd_size_sdhc ?t4 = Some (sdhc_size ?csd)\<close>
    by (simp add: init_registers_def Let_def)
  moreover have "at_card ?e True (on_pins env True True False c')" "length (stat_reg_buffer ?e) = SDC_CMDBUFFER_LEN"
    using s5(1) by (simp_all add: at_rest_def cs_simps set_pins_def at_card_def)
  moreover have e: "packet_frame ?t5 ?e"
    by (rule packet_frame_trans [OF s5(2)] packet_frame_trans [OF _ primitive_frames(1)] primitive_frames(3))+
  have "ccs ?e = drop_bit 6 (ocr ! 1) AND 1"
    using packet_frame_fields(1) [OF s2(2)] packet_frame_fields(1) [OF s3(2)] packet_frame_fields(1) [OF s4(2)]
      packet_frame_fields(1) [OF e] by simp
  moreover have "inserted ?e = inserted sd"
    using packet_frame_fields(6) [OF s1(2)] packet_frame_fields(6) [OF s2(2)] packet_frame_fields(6) [OF s3(2)]
      packet_frame_fields(6) [OF s4(2)] packet_frame_fields(6) [OF e] by simp
  moreover have "cid ?e = ?cid" "csd ?e = ?csd" "sdhc ?e = 1" "user_size ?e = sdhc_size ?csd"
    using packet_frame_stats [OF s3(2)] packet_frame_stats [OF s4(2)] packet_frame_stats [OF e] by simp_all
  ultimately show ?thesis by blast
qed

subsection \<open>The whole initialisation\<close>

text \<open>What the card hears first: 74 clocks with all lines high, then it is selected.\<close>

definition powered_up :: "'c card_env \<Rightarrow> 'c \<Rightarrow> 'c" where
  "powered_up env c = on_pins env False True False ((rx env True ^^ 74) c)"

lemma sdc_init_lemma:
  assumes "satcart_found env" "\<not> bit (reg_read env REG_CPLD_IO (sd_bus sd)) SD_EJECT_LSHFT"
    and "answers_all env (powered_up env (the_card (sd_bus sd)))
      ([(SDC_GO_IDLE_STATE, 0, [1]), (SDC_SEND_IF_COND, 0x1AA, [1, 0, 0, 1, 0xAA])] @ op_cond_cmds xs y @
        register_cmds ocr cidr y' csdr z) c'"
    and "length xs < 5000" "drop_bit 6 (csdr ! 3) = 1"
  shows "\<exists>sd'. sdc_init env sd = Some (SDC_OK, sd') \<and> at_card sd' True (on_pins env True True False c')
    \<and> length (stat_reg_buffer sd') = SDC_CMDBUFFER_LEN \<and> ccs sd' = drop_bit 6 (ocr ! 1) AND 1 \<and> cid sd' = take 16 (drop 3 cidr) \<and> csd sd' = take 16 (drop 3 csdr)
    \<and> sdhc sd' = 1 \<and> user_size sd' = sdhc_size (take 16 (drop 3 csdr)) \<and> inserted sd' = 1"
proof -
  let ?z = "(zero_sdcard (sd_bus sd))\<lparr>log_sdcard := 1, version_major := 0xFF, version_minor := 0x02, sd_csl := 1, sd_din := 1, sd_clk := 1\<rparr>"
  let ?i = "sdc_ledset env SDC_LED_RED True (sdc_ledset env SDC_LED_GREEN True (on_bus (reg_write env REG_SD_REINSERT 0x01) (?z\<lparr>inserted := 1\<rparr>)))"
  let ?u = "sdc_cs_assert env (start_clocks 74 env (?i\<lparr>sd_csl := 1, sd_din := 1\<rparr>))"
  have card: "the_card (sd_bus (?i\<lparr>sd_csl := 1, sd_din := 1\<rparr>)) = the_card (sd_bus sd)"
    by (simp add: on_bus_def reg_write_def zero_sdcard_def)
  have u0: "start_clocks 74 env (?i\<lparr>sd_csl := 1, sd_din := 1\<rparr>) = (?i\<lparr>sd_csl := 1, sd_din := 1\<rparr>)\<lparr>sd_clk := 0,
      sd_bus := (sd_bus ?i)\<lparr>pin_cs := True, pin_din := True, pin_clk := False, the_card := (rx env True ^^ 74) (the_card (sd_bus sd))\<rparr>\<rparr>"
    using start_clocks_lemma [of "?i\<lparr>sd_csl := 1, sd_din := 1\<rparr>" 74 env] card by simp
  have i: "length (stat_reg_buffer ?i) = SDC_CMDBUFFER_LEN" "inserted ?i = 1"
    by (simp_all add: on_bus_def reg_write_def zero_sdcard_def sdc_ledset_def)
  have u: "at_rest ?u (powered_up env (the_card (sd_bus sd)))" "inserted ?u = 1"
    unfolding u0 using i by (simp_all add: at_rest_def cs_simps set_pins_def powered_up_def)
  obtain c1 c2 c3 where a: "answers env (powered_up env (the_card (sd_bus sd))) (SDC_GO_IDLE_STATE, 0, [1]) c1"
    "answers env c1 (SDC_SEND_IF_COND, 0x1AA, [1, 0, 0, 1, 0xAA]) c2" "answers_all env c2 (op_cond_cmds xs y) c3"
    "answers_all env c3 (register_cmds ocr cidr y' csdr z) c'"
    using assms(3) by (auto simp: answers_all_append)
  let ?s1 = "send_command env SDC_GO_IDLE_STATE 0 ?u"
  have s1: "at_rest ?s1 c1" "packet_frame ?u ?s1" "packet_timeout ?s1 = 0" using send_command_lemma [OF u(1) a(1)] by simp_all
  have b1: "\<not> bad_status ?s1" using s1(3) send_command_byte [OF u(1) a(1)] by (simp add: bad_status_def)
  have five: "length [1, 0, 0, 1, 0xAA :: byte] = 5" by simp
  let ?s2 = "send_command env SDC_SEND_IF_COND 0x1AA ?s1"
  have s2: "at_rest ?s2 c2" "packet_frame ?s1 ?s2" "packet_timeout ?s2 = 0" "take 5 (stat_reg_buffer ?s2) = [1, 0, 0, 1, 0xAA]"
    using send_command_lemma [OF s1(1) a(2) no_data_init(4), unfolded five] by blast+
  have bytes: "stat_reg_buffer ?s2 ! i = [1, 0, 0, 1, 0xAA] ! i" if "i < 5" for i using nth_take [OF that] s2(4) by metis
  have v: "check_version ?s2 = Some True"
    using s2(3) bytes [of 0] bytes [of 1] bytes [of 2] bytes [of 3] bytes [of 4]
    by (simp add: check_version_def bad_status_def)
  let ?t = "?s2\<lparr>sd_ver2 := 1, mmc := 0\<rparr>"
  obtain sd3 where s3: "op_cond_loop 5000 0 env ?t = (True, sd3)" "at_rest sd3 c3" "packet_frame ?t sd3"
    using op_cond_lemma [of ?t c2 env xs y c3 5000 0] s2(1) a(3) assms(4) by auto
  have f3: "sd_ver2 sd3 \<noteq> 0" "inserted sd3 = 1"
    using packet_frame_fields [OF s3(3)] packet_frame_fields [OF s2(2)] packet_frame_fields [OF s1(2)] u(2) by simp_all
  obtain sd' where e: "init_registers env sd3 = Some (SDC_OK, sd')" "at_card sd' True (on_pins env True True False c')"
    "length (stat_reg_buffer sd') = SDC_CMDBUFFER_LEN" "ccs sd' = drop_bit 6 (ocr ! 1) AND 1" "cid sd' = take 16 (drop 3 cidr)" "csd sd' = take 16 (drop 3 csdr)"
    "sdhc sd' = 1" "user_size sd' = sdhc_size (take 16 (drop 3 csdr))" "inserted sd' = inserted sd3"
    using init_registers_lemma [OF s3(2) f3(1) a(4) assms(5)] by blast
  have "reg_read env REG_CPLD_IO (sd_bus ?z) AND push_bit SD_EJECT_LSHFT 1 = 0"
    unfolding push_bit_of_1 and_exp_eq_0_iff_not_bit using assms(2) by (simp add: zero_sdcard_def)
  then have "sdc_init env sd = init_registers env sd3"
    using assms(1) b1 v s3(1) by (simp add: sdc_init_def Let_def)
  then show ?thesis using e f3(2) by auto
qed

text \<open>The field \<open>C_SIZE\<close> of the register, and the size that the driver computes from it.\<close>

lemma register_value_snoc_add: "register_value (zs @ [y]) = 256 * register_value zs + uint y"
  by (simp add: register_value_def)

lemma register_value_append: "register_value (xs @ ys) = register_value xs * 256 ^ length ys + register_value ys"
proof (induction ys rule: rev_induct)
  case Nil
  show ?case by (simp add: register_value_def)
next
  case (snoc y ys)
  have "register_value (xs @ ys @ [y]) = 256 * register_value (xs @ ys) + uint y"
    using register_value_snoc_add [of "xs @ ys" y] by simp
  then show ?case using snoc by (simp add: register_value_snoc_add algebra_simps)
qed

lemma register_value_bounds: "0 \<le> register_value bs \<and> register_value bs < 256 ^ length bs"
proof (induction bs rule: rev_induct)
  case Nil
  show ?case by (simp add: register_value_def)
next
  case (snoc b bs)
  have "0 \<le> uint b \<and> uint b < 256" using uint_bounded [of b] uint_ge_0 [of b] by simp
  then show ?case using snoc by (simp add: register_value_snoc_add)
qed

definition csd_c_size :: "byte list \<Rightarrow> nat" where
  "csd_c_size reg = (unat (reg ! 7) mod 64) * 65536 + unat (reg ! 8) * 256 + unat (reg ! 9)"

lemma csd_c_size_field:
  assumes "length reg = 16"
  shows "take_bit 22 (drop_bit 48 (register_value reg)) = int (csd_c_size reg)"
proof -
  let ?H = "register_value (take 7 reg)" and ?X = "uint (reg ! 7)" and ?Y = "uint (reg ! 8)" and ?Z = "uint (reg ! 9)"
  have t: "take 10 reg = ((take 7 reg @ [reg ! 7]) @ [reg ! 8]) @ [reg ! 9]"
    using assms by (simp add: take_Suc_conv_app_nth [symmetric])
  have v: "register_value (take 10 reg) = 16777216 * ?H + 65536 * ?X + 256 * ?Y + ?Z"
    unfolding t register_value_snoc_add by simp
  have "register_value reg = register_value (take 10 reg) * 2 ^ 48 + register_value (drop 10 reg)"
    using register_value_append [of "take 10 reg" "drop 10 reg"] assms by simp
  moreover have "0 \<le> register_value (drop 10 reg)" "register_value (drop 10 reg) < 2 ^ 48"
    using register_value_bounds [of "drop 10 reg"] assms by simp_all
  ultimately have d: "drop_bit 48 (register_value reg) = register_value (take 10 reg)"
    by (simp add: drop_bit_eq_div)
  have b: "0 \<le> ?Y" "?Y < 256" "0 \<le> ?Z" "?Z < 256" using uint_bounded [of "reg ! 8"] uint_bounded [of "reg ! 9"] uint_ge_0 by simp_all
  have "(16777216 * ?H + 65536 * ?X + 256 * ?Y + ?Z) mod 4194304 = (?X mod 64) * 65536 + ?Y * 256 + ?Z"
  proof -
    let ?r = "(?X mod 64) * 65536 + ?Y * 256 + ?Z"
    have m: "16777216 * h + 65536 * (64 * d + m) + 256 * y + z = (m * 65536 + y * 256 + z) + (4 * h + d) * 4194304" for h d m y z :: int
      by (simp add: algebra_simps)
    have "0 \<le> ?X mod 64" "?X mod 64 < 64" by simp_all
    then have "0 \<le> ?r" "?r < 4194304" using b by linarith+
    then have r: "?r mod 4194304 = ?r" by (rule mod_pos_pos_trivial)
    have "16777216 * ?H + 65536 * ?X + 256 * ?Y + ?Z = ?r + (4 * ?H + ?X div 64) * 4194304"
      using m [of ?H "?X div 64" "?X mod 64" ?Y ?Z] unfolding mult_div_mod_eq .
    then show ?thesis by (simp only: mod_mult_self1 r)
  qed
  then show ?thesis
    unfolding d take_bit_eq_mod v by (simp add: csd_c_size_def zmod_int)
qed

lemma sdhc_size_value:
  assumes "length reg = 16"
  shows "unat (sdhc_size reg) = 1000 * ((csd_c_size reg + 2) * 2 ^ 19 mod 2 ^ 32 div 2 ^ 20) div 1024"
proof -
  let ?k = "csd_c_size reg" and ?q = "(csd_c_size reg + 2) * 2 ^ 19 mod 2 ^ 32 div 2 ^ 20"
  have w: "word_of_int (take_bit 22 (drop_bit 48 (register_value reg)) + 2) = (word_of_nat (?k + 2) :: u32)"
    unfolding csd_c_size_field [OF assms] by simp
  have "unat (word_of_nat (?k + 2) * 524288 :: u32) = (?k + 2) * 2 ^ 19 mod 2 ^ 32"
    by (simp add: unat_word_ariths unat_of_nat mod_mult_left_eq mod_add_right_eq)
  then have q: "unat (word_of_nat (?k + 2) * 524288 div 1048576 :: u32) = ?q"
    by (simp add: unat_div)
  have m: "unat (1000 * v) = 1000 * unat v" if "unat v < 4096" for v :: u32
    using that by (simp add: unat_word_ariths)
  have "?q < 4096" by (simp add: div_less_iff_less_mult)
  then have "unat (1000 * (word_of_nat (?k + 2) * 524288 div 1048576) :: u32) = 1000 * ?q"
    using m [of "word_of_nat (?k + 2) * 524288 div 1048576"] unfolding q by simp
  then show ?thesis unfolding sdhc_size_def w unat_drop_bit_eq by (simp only: drop_bit_eq_div) simp
qed

text \<open>
  C6: on a cartridge with a card of the second version and of high capacity, which answers every command of
  the initialisation with its response and is busy for fewer than 5000 rounds, \<open>sdc_init\<close> succeeds: the flags in
  the structure are those of the card, and it is deselected and at rest, as the reading of blocks needs it.
  Whatever twenty bytes the card sends for its registers CID and CSD, the sixteen that follow the first three
  are the ones recorded. They are the register for a card whose data token is the third byte, and otherwise not: the
  specification leaves open how many idle bytes come before the token, and the driver does not look for it. The size is the driver's
  figure for the field \<open>C_SIZE\<close> of these bytes, with one unit of 512 KB too many and a product that wraps at 32
  bits, and not the size \<open>(C_SIZE + 1) * 512\<close> KB of the card.
\<close>

theorem sdc_init_correct:
  assumes "satcart_found env" and "\<not> bit (reg_read env REG_CPLD_IO (sd_bus sd)) SD_EJECT_LSHFT"
    and "answers_all env (powered_up env (the_card (sd_bus sd)))
      ([(SDC_GO_IDLE_STATE, 0, [1]), (SDC_SEND_IF_COND, 0x1AA, [1, 0, 0, 1, 0xAA])] @ op_cond_cmds xs y @
        register_cmds ocr cidr y' csdr z) c'"
    and "length xs < 5000" and "drop_bit 6 (csdr ! 3) = 1"
    and "c_size = unat (csdr ! 10) mod 64 * 65536 + unat (csdr ! 11) * 256 + unat (csdr ! 12)"
  shows "\<exists>sd'. sdc_init env sd = Some (SDC_OK, sd') \<and> at_card sd' True (on_pins env True True False c')
    \<and> length (stat_reg_buffer sd') = SDC_CMDBUFFER_LEN \<and> ccs sd' = drop_bit 6 (ocr ! 1) AND 1
    \<and> cid sd' = take 16 (drop 3 cidr) \<and> csd sd' = take 16 (drop 3 csdr) \<and> sdhc sd' = 1 \<and> inserted sd' = 1
    \<and> unat (user_size sd') = 1000 * ((c_size + 2) * 2 ^ 19 mod 2 ^ 32 div 2 ^ 20) div 1024"
proof -
  let ?reg = "take 16 (drop 3 csdr)"
  obtain a b where "answers env a (SDC_SEND_CSD, 0, csdr) b"
    using assms(3) by (auto simp: answers_all_append register_cmds_def)
  then have "length csdr = 20" by (simp add: answers_def response_lengths_def)
  then have "length ?reg = 16" "csd_c_size ?reg = c_size" using assms(6) by (simp_all add: csd_c_size_def)
  then show ?thesis using sdc_init_lemma [OF assms(1-5)] sdhc_size_value [of ?reg] by auto
qed

text \<open>A card that says what it was told to: one bit of its script for every falling clock.\<close>

record script_card =
  script :: "bool list"
  spoken :: bool
  clock :: bool

definition script_pins :: "bool \<Rightarrow> bool \<Rightarrow> bool \<Rightarrow> script_card \<Rightarrow> script_card" where
  "script_pins cs d k c =
     (if clock c \<and> \<not> k then c\<lparr>script := tl (script c), spoken := hd (script c), clock := k\<rparr> else c\<lparr>clock := k\<rparr>)"

definition script_env :: "script_card card_env" where
  "script_env = \<lparr>on_pins = script_pins, dout = spoken, io_inputs = \<lambda>_. 0, lap_usec = \<lambda>_. 0, satcart_found = True\<rparr>"

lemma script_env_simps [simp]: "on_pins script_env = script_pins" "dout script_env = spoken" "satcart_found script_env"
  "io_inputs script_env c = 0"
  by (simp_all add: script_env_def)

lemma script_rx: "rx script_env cs c = c\<lparr>script := tl (script c), spoken := hd (script c), clock := False\<rparr>"
  by (cases c) (simp add: rx_def script_pins_def)

lemma script_replies:
  "script c = bs @ rest \<Longrightarrow> replies script_env cs c bs (if bs = [] then c else c\<lparr>script := rest, spoken := last bs, clock := False\<rparr>)"
proof (induction bs arbitrary: c)
  case (Cons b bs)
  from Cons.prems show ?case
    using Cons.IH [of "rx script_env cs c"] by (cases "bs = []") (simp_all add: script_rx)
qed simp

lemma script_tx:
  "clock c \<Longrightarrow> script c = ds @ rest \<Longrightarrow> length bs = length ds \<Longrightarrow>
    fold (tx script_env cs) bs c = (if bs = [] then c else c\<lparr>script := rest, spoken := last ds\<rparr>)"
proof (induction bs arbitrary: c ds)
  case (Cons b bs)
  then obtain d ds' where ds: "ds = d # ds'" by (cases ds) auto
  have "tx script_env cs b c = c\<lparr>script := ds' @ rest, spoken := d\<rparr>"
    using Cons.prems by (cases c) (simp add: tx_def script_pins_def ds)
  then show ?case using Cons.IH [of "c\<lparr>script := ds' @ rest, spoken := d\<rparr>" ds'] Cons.prems by (cases "bs = []") (auto simp: ds)
qed simp

text \<open>The script of one answer: 55 bits while the command is sent, then the response.\<close>

definition spoken_answer :: "byte \<times> u32 \<times> byte list \<Rightarrow> bool list" where
  "spoken_answer cmd = replicate 55 True @ concat (map bits_of (snd (snd cmd)))"

lemma script_answers:
  assumes "\<not> clock c" "script c = spoken_answer (cmd, arg, resp) @ rest" "length resp = fst (response_lengths cmd)" "\<not> bit (hd resp) 7"
  shows "\<exists>c'. answers script_env c (cmd, arg, resp) c' \<and> \<not> clock c' \<and> script c' = rest"
proof -
  have l: "length (concat (map bits_of (command_bytes cmd arg))) = 56" by (simp add: command_bytes_def)
  then obtain b bs where b: "concat (map bits_of (command_bytes cmd arg)) = b # bs" "length bs = 55" by (auto simp: length_Suc_conv eval_nat_numeral)
  have "tx script_env False b (script_pins False True False c) = c\<lparr>clock := True\<rparr>"
    using assms(1) by (cases c) (simp add: tx_def script_pins_def)
  moreover have "bs \<noteq> []" using b(2) by auto
  ultimately have t: "tx_bytes script_env False (command_bytes cmd arg) (script_pins False True False c)
      = c\<lparr>clock := True, script := concat (map bits_of resp) @ rest, spoken := True\<rparr>"
    using script_tx [of "c\<lparr>clock := True\<rparr>" "replicate 55 True" "concat (map bits_of resp) @ rest" bs False] assms(2) b
    by (simp add: tx_bytes_def spoken_answer_def)
  have "resp \<noteq> []" using assms(3) by (auto simp: response_lengths_def split: if_splits)
  then have ne: "concat (map bits_of resp) \<noteq> []" by (cases resp) (auto simp: bits_of_def)
  let ?c = "c\<lparr>clock := True, script := concat (map bits_of resp) @ rest, spoken := True\<rparr>"
  have "replies script_env False ?c (replicate 0 True @ concat (map bits_of resp))
      (?c\<lparr>script := rest, spoken := last (concat (map bits_of resp)), clock := False\<rparr>)"
    using script_replies [of ?c "concat (map bits_of resp)" rest False, unfolded if_not_P [OF ne]] by simp
  then have "answers script_env c (cmd, arg, resp) (?c\<lparr>script := rest, spoken := last (concat (map bits_of resp)), clock := False\<rparr>)"
    using assms(3,4) t by (auto simp: answers_def intro!: exI [of _ 0])
  then show ?thesis by (intro exI conjI, assumption) simp_all
qed

lemma script_answers_all:
  assumes "\<not> clock c" "script c = concat (map spoken_answer cmds)"
    and "\<forall>(cmd, arg, resp) \<in> set cmds. length resp = fst (response_lengths cmd) \<and> \<not> bit (hd resp) 7"
  shows "\<exists>c'. answers_all script_env c cmds c' \<and> script c' = []"
  using assms
proof (induction cmds arbitrary: c)
  case Nil
  then show ?case by (intro exI [of _ c]) simp
next
  case (Cons x cmds)
  obtain cmd arg resp where x: "x = (cmd, arg, resp)" by (cases x) auto
  obtain c1 where "answers script_env c x c1" "\<not> clock c1" "script c1 = concat (map spoken_answer cmds)"
    using script_answers [of c cmd arg resp "concat (map spoken_answer cmds)"] Cons.prems by (auto simp: x)
  then show ?case using Cons.IH [of c1] Cons.prems(3) by auto
qed

definition script_csd :: "byte list" where
  "script_csd = [0x40, 0x0E, 0, 0x32, 0x5B, 0x59, 0, 0, 0x1D, 0x8A, 0x7F, 0x80, 0x0A, 0x40, 0, 1]"

definition script_cmds :: "(byte \<times> u32 \<times> byte list) list" where
  "script_cmds = [(SDC_GO_IDLE_STATE, 0, [1]), (SDC_SEND_IF_COND, 0x1AA, [1, 0, 0, 1, 0xAA])] @ op_cond_cmds [1, 1] 1 @
     register_cmds [0, 0xC0, 0xFF, 0x80, 0] ([0, 0xFF, 0xFE] @ replicate 16 3 @ [0]) 1 ([0, 0xFF, 0xFE] @ script_csd @ [0]) 0"

definition script_sd :: "script_card sdcard_t" where
  "script_sd = zero_sdcard \<lparr>pin_cs = True, pin_din = True, pin_clk = False, leds = 0, reinsert = False,
     the_card = \<lparr>script = replicate 74 True @ concat (map spoken_answer script_cmds), spoken = True, clock = False\<rparr>\<rparr>"

lemma script_clocks: "script ((rx script_env cs ^^ n) c) = drop n (script c)"
  by (induction n arbitrary: c) (simp_all add: script_rx drop_Suc funpow_swap1 tl_drop)

lemma script_powered_up:
  "\<not> clock (powered_up script_env (the_card (sd_bus script_sd)))"
  "script (powered_up script_env (the_card (sd_bus script_sd))) = concat (map spoken_answer script_cmds)"
proof -
  have "0 < n \<Longrightarrow> \<not> clock ((rx script_env True ^^ n) c)" for n c by (cases n) (simp_all add: script_rx)
  then have k: "\<not> clock ((rx script_env True ^^ 74) (the_card (sd_bus script_sd)))" by simp
  show "\<not> clock (powered_up script_env (the_card (sd_bus script_sd)))"
    by (simp add: powered_up_def script_pins_def)
  show "script (powered_up script_env (the_card (sd_bus script_sd))) = concat (map spoken_answer script_cmds)"
    using k by (simp add: powered_up_def script_pins_def script_clocks) (simp add: script_sd_def zero_sdcard_def)
qed

theorem sdc_init_correct_witness:
  "\<exists>sd'. sdc_init script_env script_sd = Some (SDC_OK, sd') \<and> ccs sd' = 1 \<and> sdhc sd' = 1 \<and> csd sd' = script_csd \<and> user_size sd' = 3693"
proof -
  have "\<forall>(cmd, arg, resp) \<in> set script_cmds. length resp = fst (response_lengths cmd) \<and> \<not> bit (hd resp) 7"
    by (simp add: script_cmds_def op_cond_cmds_def register_cmds_def response_lengths_def script_csd_def bit_1_iff)
  from script_answers_all [OF script_powered_up this] obtain c'
    where a: "answers_all script_env (powered_up script_env (the_card (sd_bus script_sd))) script_cmds c'" by blast
  have e: "\<not> bit (reg_read script_env REG_CPLD_IO (sd_bus script_sd)) SD_EJECT_LSHFT"
    by (simp add: reg_read_def script_sd_def zero_sdcard_def)
  let ?csdr = "[0, 0xFF, 0xFE] @ script_csd @ [0]"
  have l: "length [1, 1 :: byte] < 5000" "drop_bit 6 (?csdr ! 3) = 1" "take 16 (drop 3 ?csdr) = script_csd"
    "0x1D8A = unat (?csdr ! 10) mod 64 * 65536 + unat (?csdr ! 11) * 256 + unat (?csdr ! 12)"
    by (simp_all add: script_csd_def)
  then show ?thesis
    using sdc_init_correct [OF script_env_simps(3) e a [unfolded script_cmds_def] l(1,2,4)] by (auto simp: word_unat_eq_iff)
qed

end
