(* ===== verification/FatSeek.thy ===== *)
theory FatSeek
  imports FatOpen
begin

section \<open>Positions and parts of a file\<close>

text \<open>
  \<open>fl_fseek\<close> on a sound file, and the sessions of the SD card commands that use it: opening a file,
  going to a position, reading from there and closing the file, and asking for the length of a file.
\<close>

text \<open>Where a seek goes from position \<open>pos\<close> in a file of \<open>len\<close> bytes, or \<open>None\<close> if it fails.\<close>

definition seek_target :: "u32 \<Rightarrow> u32 \<Rightarrow> int \<Rightarrow> int \<Rightarrow> u32 option" where
  "seek_target pos len offset origin =
     (if origin = SEEK_SET then Some (min (word_of_int offset) len)
      else if origin = SEEK_CUR then
        Some (if offset \<ge> 0 then min (pos + word_of_int offset) len
          else if word_of_int (- offset) > pos then 0 else pos - word_of_int (- offset))
      else if origin = SEEK_END \<and> offset = 0 then Some len
      else None)"

context run_device
begin

lemma seek_readable:
  assumes "readable fg h xs"
  shows "readable (FL_UNLOCK (put_file h ((file_at fg h)\<lparr>file_data_address := 0xFFFFFFFF, file_data_dirty := False, bytenum := p\<rparr>) (FL_LOCK fg))) h xs"
proof -
  have "length (chain_sectors (fg_fs fg) xs) < 2 ^ 32" using assms by (simp add: readable_file_def chain_sound_def)
  then have "\<not> unat (0xFFFFFFFF :: u32) < length (chain_sectors (fg_fs fg) xs)" by simp
  then show ?thesis
    using assms unfolding readable_file_def
    by (simp add: file_memory_def cache_sound_def lookup_sound_def fatfs_cache_get_next_cluster_def Let_def)
qed

lemma seek_lemma:
  assumes r: "readable fg h xs" and i: "filelib_init fg" and t: "seek_target (bytenum (file_at fg h)) (filelength (file_at fg h)) offset origin = Some p"
    and o: "- (2 ^ 31) < offset"
  shows "fl_fseek (Some h) offset origin fg = Some (0, FL_UNLOCK (put_file h
    ((file_at fg h)\<lparr>file_data_address := 0xFFFFFFFF, file_data_dirty := False, bytenum := p\<rparr>) (FL_LOCK fg)))"
  using i t o by (auto simp: fl_fseek_def seek_target_def CHECK_FL_INIT_def c_int_def Let_def min_def file_at_def split: if_splits)

text \<open>The session: \<open>fl_fopen\<close>, \<open>fl_fseek\<close> from the start, \<open>fl_fread\<close>, \<open>fl_fclose\<close>.\<close>

lemma read_at_lemma:
  assumes ro: "reads_ok rd sectors valid"
    and i: "filelib_init fg" "filelib_valid fg" and m: "mode_flags mode AND FILE_READ \<noteq> 0"
    and h: "handles fg opens (h # hs)" and p: "good_path sep root dirs name"
    and free: "not_open fg opens (dir_path sep root dirs) name"
    and r: "resolves rd wr disk sectors valid (fg_fs fg) (rootdir_first_cluster (fg_fs fg)) dirs c"
    and d: "directory rd wr disk sectors valid (fg_fs fg) c ss"
    and e: "named_entry disk (fg_fs fg) ss name = Some e" "fatfs_entry_is_file e"
    and x: "chain_sound disk sectors (fg_fs fg) (entry_cluster e) xs" and b: "length (file_data_sector (file_at fg h)) = FAT_SECTOR_SIZE"
    and l: "unat (FAT_HTONL (FileSize e)) = flen" "flen < 2 ^ 31" "flen \<le> length (file_content disk (fg_fs fg) xs)"
    and n: "0 < len" "len < 2 ^ 31" "nat len \<le> length buf" and o: "0 \<le> off" "off < 2 ^ 31"
  shows "\<exists>fg1 fg2 fg3 fg4 k. fl_fopen now junk (Some (root @ join_path sep (dirs @ [name]))) (Some mode) fg = Some (Some h, fg1)
    \<and> fl_fseek (Some h) off SEEK_SET fg1 = Some (0, fg2)
    \<and> fl_fread (Some buf) 1 len (Some h) fg2
      = Some (k, Some (mem_write 0 (mem_read (nat off) (min (nat len) (flen - nat off)) (file_content disk (fg_fs fg) xs)) buf), fg3)
    \<and> fl_fclose now' (Some h) fg3 = Some fg4
    \<and> handles fg4 opens (hs @ [h]) \<and> finv (fg_fs fg4) \<and> vsame (fg_fs fg) (fg_fs fg4)"
proof -
  let ?f = "(file_at fg h)\<lparr>file_path := dir_path sep root dirs, file_filename := name, parentcluster := c\<rparr>"
  obtain fg1 where f1: "fl_fopen now junk (Some (root @ join_path sep (dirs @ [name]))) (Some mode) fg = Some (Some h, fg1)"
    "reading (fg_fs fg) (fg_fs fg1)" "handles fg1 (opens @ [h]) hs" "filelib_init fg1"
    "file_at fg1 h = (opened_as ?f e)\<lparr>file_flags := mode_flags mode\<rparr>"
    using fopen_lemma [OF i m h p free r d e] by blast
  have ok: "device_ok rd wr sectors valid" and fi: "finv (fg_fs fg)" using d by (simp_all add: directory_def)
  have hl: "h < length (files fg1)" "h \<notin> set opens" using f1(3) by (auto simp: handles_def)
  have r1: "readable fg1 h xs"
    using opened_as_readable [OF f1(2) fi hl(1) f1(5) x] b l(1,3) by simp
  have v1: "vsame (fg_fs fg) (fg_fs fg1)" "io_frame (fg_fs fg) (fg_fs fg1)" using f1(2) by (simp_all add: reading_state_def)
  have len1: "unat (filelength (file_at fg1 h)) = flen" using l(1) by (simp add: f1(5) opened_as_def fatfs_cache_init_def)
  let ?p = "min (word_of_int off) (filelength (file_at fg1 h))"
  let ?g = "FL_UNLOCK (put_file h ((file_at fg1 h)\<lparr>file_data_address := 0xFFFFFFFF, file_data_dirty := False, bytenum := ?p\<rparr>) (FL_LOCK fg1))"
  have s: "fl_fseek (Some h) off SEEK_SET fg1 = Some (0, ?g)"
    by (rule seek_lemma [OF r1 f1(4)]) (use o in \<open>simp_all add: seek_target_def\<close>)
  have rg: "readable ?g h xs" by (rule seek_readable [OF r1])
  have fa: "file_at ?g h = (file_at fg1 h)\<lparr>file_data_address := 0xFFFFFFFF, file_data_dirty := False, bytenum := ?p\<rparr>"
    using hl(1) by simp
  have g: "file_flags (file_at ?g h) AND FILE_READ \<noteq> 0" "unat (filelength (file_at ?g h)) = flen" "\<not> filelength_changed (file_at ?g h)"
    "fg_fs ?g = fg_fs fg1" "handles ?g (opens @ [h]) hs"
    unfolding fa using m l(1) len1 f1(3) by (simp_all add: f1(5) opened_as_def fatfs_cache_init_def)
  have gi: "filelib_init ?g" using f1(4) by (simp add: put_file_def)
  have off: "unat (word_of_int off :: u32) = nat off"
    using o by (simp add: unsigned_of_int take_bit_int_eq_self)
  have "unat ?p = min (nat off) flen" using off len1 by (simp add: min_def word_le_nat_alt)
  then have pos: "unat (bytenum (file_at ?g h)) = min (nat off) flen" unfolding fa by simp
  obtain k fg3 where f3: "fl_fread (Some buf) 1 len (Some h) ?g
      = Some (k, Some (mem_write 0 (mem_read (nat off) (min (nat len) (flen - nat off)) (file_content disk (fg_fs fg1) xs)) buf), fg3)"
    "readable fg3 h xs" "file_frame h ?g fg3" "read_frame (file_at ?g h) (file_at fg3 h)" "vsame (fg_fs fg1) (fg_fs fg3)"
  proof -
    have less: "bytenum (file_at ?g h) < filelength (file_at ?g h) \<longleftrightarrow> nat off < flen"
      unfolding word_less_nat_alt pos g(2) by auto
    have "unat (filelength (file_at ?g h)) < 2 ^ 31" "0 < 1 * len" "1 * len < 2 ^ 31" "nat (1 * len) \<le> length buf"
      using g(2) l(2) n by simp_all
    from fread_lemma [OF run_device_axioms ok ro rg gi g(1) this] show ?thesis
      unfolding less pos g(2,4) using that by (cases "nat off < flen") (auto simp: mem_read_def)
  qed
  have c2: "file_content disk (fg_fs fg1) xs = file_content disk (fg_fs fg) xs"
    using same_content(2) [OF x v1(2,1)] .
  have h2: "handles fg3 (opens @ [h]) hs" "filelib_init fg3"
    using g(5) gi f3(3) by (auto simp: file_frame_def put_file_def handles_def open_list_def free_list_def)
  have n2: "\<not> file_data_dirty (file_at fg3 h)" "\<not> filelength_changed (file_at fg3 h)" "finv (fg_fs fg3)"
    using f3(2,4) g(3) by (simp_all add: readable_file_def file_memory_def read_frame_def)
  have "h \<in> set (opens @ [h])" by simp
  from fclose_clean [OF h2(2,1) this n2(3,1,2), of now']
  obtain fg4 where f4: "fl_fclose now' (Some h) fg3 = Some fg4" "handles fg4 opens (hs @ [h])"
    "finv (fg_fs fg4)" "vsame (fg_fs fg3) (fg_fs fg4)"
    using hl(2) by (auto simp: remove1_append)
  show ?thesis
    using f1(1) s f3(1) f4 same_view_trans [OF same_view_trans [OF v1(1) f3(5)] f4(4)] unfolding c2 by blast
qed

end

end
