(* ===== verification/SdFat.thy ===== *)
theory SdFat
  imports SdInit FatSeek
begin

section \<open>The file commands of the SD card\<close>

text \<open>
  Models \<open>sdcard/sdcard_fat.c\<close>: the commands that join the SD card driver to the file-system library.
  The structure \<open>sdcard_t\<close> holds the global object of the library; here the object holds the structure,
  as its medium (\<open>sd_of\<close>). A pointer for a result that may be null is a flag that says whether it is
  given. \<open>now\<close> is the clock and \<open>junk\<close> what uninitialised local arrays hold, as in \<open>FatFilelib\<close>.
\<close>

type_synonym 'c sd_global = "'c sdcard_t FL_GLOBAL"

definition sd_of :: "'c sd_global \<Rightarrow> 'c sdcard_t" where
  "sd_of fg = medium (fg_fs fg)"

definition on_sd :: "('c sdcard_t \<Rightarrow> 'c sdcard_t) \<Rightarrow> 'c sd_global \<Rightarrow> 'c sd_global" where
  "on_sd f fg = fg\<lparr>fg_fs := (fg_fs fg)\<lparr>medium := f (medium (fg_fs fg))\<rparr>\<rparr>"

subsection \<open>The cleared structure\<close>

definition zero_file :: FL_FILE where
  "zero_file = \<lparr>parentcluster = 0, startcluster = 0, bytenum = 0, filelength = 0, filelength_changed = False, file_path = [],
     file_filename = [], shortfilename = replicate 11 0, cluster_cache_idx = replicate FAT_CLUSTER_CACHE_ENTRIES 0,
     cluster_cache_data = replicate FAT_CLUSTER_CACHE_ENTRIES 0, last_fat_lookup = \<lparr>ClusterIdx = 0, CurrentCluster = 0\<rparr>,
     file_data_sector = replicate FAT_SECTOR_SIZE 0, file_data_address = 0, file_data_dirty = False, file_flags = 0\<rparr>"

definition zero_fatfs :: "'d \<Rightarrow> 'd fatfs" where
  "zero_fatfs d = \<lparr>sectors_per_cluster = 0, cluster_begin_lba = 0, rootdir_first_cluster = 0, rootdir_first_sector = 0,
     rootdir_sectors = 0, fat_begin_lba = 0, fs_info_sector = 0, lba_begin = 0, fat_sectors = 0, next_free_cluster = 0,
     root_entry_count = 0, reserved_sectors = 0, num_of_fats = 0, fat_type = FAT_TYPE_16, read_media = None, write_media = None,
     currentsector = \<lparr>fb_sector = replicate FAT_SECTOR_SIZE 0, fb_address = 0, fb_dirty = False, fb_ptr = None\<rparr>,
     fat_chain = [], medium = d\<rparr>"

definition zero_global :: "nat \<Rightarrow> 'd \<Rightarrow> 'd FL_GLOBAL" where
  "zero_global n d = \<lparr>files = replicate n zero_file, filelib_init = False, filelib_valid = False, fg_fs = zero_fatfs d,
     open_file_list = (None, None), free_file_list = (None, None), list_nodes = (\<lambda>_. \<lparr>previous = None, next_node = None\<rparr>),
     fl_lock = False, fl_unlock = False, lock_calls = 0, unlock_calls = 0\<rparr>"

definition sdc_fat_reset :: "'c sd_global \<Rightarrow> int \<times> 'c sd_global" where
  "sdc_fat_reset fg = (SDC_OK, zero_global (length (files fg)) (zero_sdcard (sd_bus (sd_of fg))))"

subsection \<open>Initialisation\<close>

definition init_code :: "fat_init_status \<Rightarrow> int" where
  "init_code s = (case s of FAT_INIT_OK \<Rightarrow> 0 | FAT_INIT_MEDIA_ACCESS_ERROR \<Rightarrow> - 1 | FAT_INIT_INVALID_SECTOR_SIZE \<Rightarrow> - 2
     | FAT_INIT_INVALID_SIGNATURE \<Rightarrow> - 3 | FAT_INIT_ENDIAN_ERROR \<Rightarrow> - 4 | FAT_INIT_WRONG_FILESYS_TYPE \<Rightarrow> - 5
     | FAT_INIT_WRONG_PARTITION_TYPE \<Rightarrow> - 6 | FAT_INIT_STRUCT_PACKING \<Rightarrow> - 7)"

text \<open>\<open>sdc_init\<close> clears the whole structure, the global object of the library included.\<close>

definition sdc_fat_init :: "'c card_env \<Rightarrow> 'c sd_global \<Rightarrow> (int \<times> 'c sd_global) option" where
  "sdc_fat_init env fg = do {
     let fg = on_sd (\<lambda>sd. sd\<lparr>init_ok := 0\<rparr>) fg;
     (ret, sd) \<leftarrow> sdc_init env (sd_of fg);
     let fg = zero_global (length (files fg)) (sd\<lparr>init_status := ret\<rparr>);
     if ret \<noteq> SDC_OK then Some (ret, fg)
     else do {
       (st, fg) \<leftarrow> fl_attach_media (Some (sd_media_read env)) (Some (sd_media_write env)) (fl_init fg);
       if st \<noteq> FAT_INIT_OK then Some (init_code st, on_sd (\<lambda>sd. sd\<lparr>init_status := init_code st\<rparr>) fg)
       else Some (SDC_OK, on_sd (\<lambda>sd. sd\<lparr>init_ok := 1\<rparr>) fg) } }"

text \<open>The start of every command: the card is initialised again when it has to be, and the result tells
  whether it can be used.\<close>

definition sdc_fat_check :: "'c card_env \<Rightarrow> 'c sd_global \<Rightarrow> (bool \<times> 'c sd_global) option" where
  "sdc_fat_check env fg = do {
     fg \<leftarrow> (if init_ok (sd_of fg) = 0 \<or> sdc_is_reinsert env (sd_of fg)
       then map_option snd (sdc_fat_init env fg) else Some fg);
     Some (init_ok (sd_of fg) \<noteq> 0, fg) }"

subsection \<open>Files\<close>

definition sdc_fat_file_size :: "'c card_env \<Rightarrow> tm \<Rightarrow> byte list \<Rightarrow> byte list \<Rightarrow> bool \<Rightarrow> 'c sd_global
    \<Rightarrow> (int \<times> u32 \<times> 'c sd_global) option" where
  "sdc_fat_file_size env now junk filename wanted fg = do {
     (ok, fg) \<leftarrow> sdc_fat_check env fg;
     if \<not> ok then Some (SDC_FAILURE, 0, fg)
     else do {
       (h, fg) \<leftarrow> fl_fopen now junk (Some filename) (Some (ascii ''rb'')) fg;
       case h of
         None \<Rightarrow> Some (SDC_NOFILE, 0, fg)
       | Some h \<Rightarrow> do {
           (r, fg) \<leftarrow> fl_fseek (Some h) 0 SEEK_END fg;
           if r \<noteq> 0 then do { fg \<leftarrow> fl_fclose now (Some h) fg; Some (SDC_FATERROR, 0, fg) }
           else do {
             let (pos, fg) = (if wanted then fl_ftell (Some h) fg else (0, fg));
             fg \<leftarrow> fl_fclose now (Some h) fg;
             Some (SDC_OK, word_of_int pos, fg) } } } }"

definition sdc_fat_read_file :: "'c card_env \<Rightarrow> tm \<Rightarrow> byte list \<Rightarrow> byte list \<Rightarrow> u32 \<Rightarrow> u32 \<Rightarrow> byte list \<Rightarrow> 'c sd_global
    \<Rightarrow> (int \<times> u32 \<times> byte list \<times> 'c sd_global) option" where
  "sdc_fat_read_file env now junk filename offset len buffer fg = do {
     (ok, fg) \<leftarrow> sdc_fat_check env fg;
     if \<not> ok then Some (SDC_FAILURE, 0, buffer, fg)
     else do {
       (h, fg) \<leftarrow> fl_fopen now junk (Some filename) (Some (ascii ''rb'')) fg;
       case h of
         None \<Rightarrow> Some (SDC_NOFILE, 0, buffer, fg)
       | Some h \<Rightarrow> do {
           (r, fg) \<leftarrow> fl_fseek (Some h) (sint offset) SEEK_SET fg;
           if r \<noteq> 0 then do { fg \<leftarrow> fl_fclose now (Some h) fg; Some (SDC_FATERROR, 0, buffer, fg) }
           else do {
             (n, buf, fg) \<leftarrow> fl_fread (Some buffer) 1 (sint len) (Some h) fg;
             fg \<leftarrow> fl_fclose now (Some h) fg;
             Some (SDC_OK, len, the buf, fg) } } } }"

text \<open>The common part of writing and appending: the result of \<open>fl_fwrite\<close> must be the length.\<close>

definition write_and_close :: "tm \<Rightarrow> u32 \<Rightarrow> byte list \<Rightarrow> nat option \<Rightarrow> 'c sd_global \<Rightarrow> (int \<times> u32 \<times> 'c sd_global) option" where
  "write_and_close now len buffer file fg =
     (case file of
        None \<Rightarrow> Some (SDC_NOFILE, 0, fg)
      | Some h \<Rightarrow> do {
          (n, fg) \<leftarrow> fl_fwrite buffer 1 (sint len) (Some h) fg;
          let tmp = word_of_int n;
          fg \<leftarrow> fl_fclose now (Some h) fg;
          Some (if tmp \<noteq> len then (SDC_FATERROR, 0, fg) else (SDC_OK, tmp, fg)) })"

definition sdc_fat_write_file :: "'c card_env \<Rightarrow> tm \<Rightarrow> byte list \<Rightarrow> byte list \<Rightarrow> u32 \<Rightarrow> byte list \<Rightarrow> 'c sd_global
    \<Rightarrow> (int \<times> u32 \<times> 'c sd_global) option" where
  "sdc_fat_write_file env now junk filename len buffer fg = do {
     (ok, fg) \<leftarrow> sdc_fat_check env fg;
     if \<not> ok then Some (SDC_FAILURE, 0, fg)
     else do {
       (r, fg) \<leftarrow> fl_remove now junk (Some filename) fg;
       (h, fg) \<leftarrow> fl_fopen now junk (Some filename) (Some (ascii ''wb'')) fg;
       write_and_close now len buffer h fg } }"

definition sdc_fat_append_file :: "'c card_env \<Rightarrow> tm \<Rightarrow> byte list \<Rightarrow> byte list \<Rightarrow> u32 \<Rightarrow> byte list \<Rightarrow> 'c sd_global
    \<Rightarrow> (int \<times> u32 \<times> 'c sd_global) option" where
  "sdc_fat_append_file env now junk filename len buffer fg = do {
     (ok, fg) \<leftarrow> sdc_fat_check env fg;
     if \<not> ok then Some (SDC_FAILURE, 0, fg)
     else do {
       (h, fg) \<leftarrow> fl_fopen now junk (Some filename) (Some (ascii ''ab'')) fg;
       write_and_close now len buffer h fg } }"

subsection \<open>Directories\<close>

definition sdc_fat_mkdir :: "'c card_env \<Rightarrow> tm \<Rightarrow> byte list \<Rightarrow> byte list \<Rightarrow> 'c sd_global \<Rightarrow> (int \<times> 'c sd_global) option" where
  "sdc_fat_mkdir env now junk path fg = do {
     (ok, fg) \<leftarrow> sdc_fat_check env fg;
     if \<not> ok then Some (SDC_FAILURE, fg)
     else do {
       (r, fg) \<leftarrow> fl_createdirectory now junk path fg;
       Some (SDC_OK, fg) } }"

definition sdc_fat_unlink :: "'c card_env \<Rightarrow> tm \<Rightarrow> byte list \<Rightarrow> byte list \<Rightarrow> 'c sd_global \<Rightarrow> (int \<times> 'c sd_global) option" where
  "sdc_fat_unlink env now junk path fg = do {
     (ok, fg) \<leftarrow> sdc_fat_check env fg;
     if \<not> ok then Some (SDC_FAILURE, fg)
     else do {
       (r, fg) \<leftarrow> fl_remove now junk (Some path) fg;
       Some (SDC_OK, fg) } }"

text \<open>The entry of a listing, \<open>scdf_file_entry_t\<close>. The name has 27 characters.\<close>

record scdf_file_entry =
  fe_flags :: byte
  fe_filename :: "byte list"
  fe_index :: u16
  fe_sort_index :: u16

definition zero_entry :: scdf_file_entry where
  "zero_entry = \<lparr>fe_flags = 0, fe_filename = replicate 27 0, fe_index = 0, fe_sort_index = 0\<rparr>"

text \<open>\<open>strncpy\<close> of the name with a null at the end.\<close>

definition entry_name :: "byte list \<Rightarrow> byte list" where
  "entry_name name = (let s = take 27 (cstring name) in (s @ replicate (27 - length s) 0)[26 := 0])"

definition list_entry :: "fs_dir_ent \<Rightarrow> u32 \<Rightarrow> scdf_file_entry \<Rightarrow> scdf_file_entry" where
  "list_entry e file_index x = x\<lparr>fe_flags := (if de_is_dir e then 0x01 OR 0x02 else 0x01),
     fe_filename := entry_name (de_filename e), fe_index := ucast file_index\<rparr>"

text \<open>The loop over the directory. A null pointer for the list has no entries. The directory may have a
  chain without end.\<close>

partial_function (option) filelist_loop :: "lfn_cache \<Rightarrow> u32 \<Rightarrow> u32 \<Rightarrow> fs_dir_list_status \<Rightarrow> fs_dir_ent \<Rightarrow> u32 \<Rightarrow> nat
    \<Rightarrow> scdf_file_entry list option \<Rightarrow> 'c sd_global \<Rightarrow> (u32 \<times> scdf_file_entry list option \<times> 'c sd_global) option" where
  "filelist_loop lfn list_count list_offset dirstat dirent file_index list_index ptr fg =
     Option.bind (fl_readdir lfn dirstat dirent fg) (\<lambda>(r, dirstat, dirent, fg).
       if r \<noteq> 0 then Some (file_index, ptr, fg)
       else (case ptr of
           None \<Rightarrow> filelist_loop lfn list_count list_offset dirstat dirent (file_index + 1) list_index ptr fg
         | Some l \<Rightarrow>
             if list_count \<noteq> 0 \<and> file_index \<ge> list_offset \<and> file_index < list_offset + list_count
             then (if list_index < length l
               then filelist_loop lfn list_count list_offset dirstat dirent (file_index + 1) (list_index + 1)
                 (Some (l[list_index := list_entry dirent file_index (l ! list_index)])) fg
               else None)
             else filelist_loop lfn list_count list_offset dirstat dirent (file_index + 1) list_index ptr fg))"

definition sdc_fat_filelist :: "'c card_env \<Rightarrow> lfn_cache \<Rightarrow> fs_dir_list_status \<Rightarrow> fs_dir_ent \<Rightarrow> scdf_file_entry list option \<Rightarrow> u32
    \<Rightarrow> u32 \<Rightarrow> byte list \<Rightarrow> u32 \<Rightarrow> 'c sd_global \<Rightarrow> (int \<times> u32 \<times> scdf_file_entry list option \<times> 'c sd_global) option" where
  "sdc_fat_filelist env lfn dirstat dirent ptr list_count list_offset path file_count fg = do {
     (ok, fg) \<leftarrow> sdc_fat_check env fg;
     if \<not> ok then Some (SDC_FAILURE, file_count, ptr, fg)
     else do {
       ptr \<leftarrow> (case ptr of
           None \<Rightarrow> (if list_count = 0 then Some None else None)
         | Some l \<Rightarrow> (if unat list_count \<le> length l
             then Some (Some (mem_write 0 (replicate (unat list_count) zero_entry) l)) else None));
       (r, dirstat, fg) \<leftarrow> fl_opendir path dirstat fg;
       (n, ptr, fg) \<leftarrow> (if r then filelist_loop lfn list_count list_offset dirstat dirent 0 0 ptr fg else Some (0, ptr, fg));
       Some (SDC_OK, n, ptr, fg) } }"

subsection \<open>Reading a part of a file\<close>

lemma sdc_fat_check_ready:
  "init_ok (sd_of fg) \<noteq> 0 \<Longrightarrow> \<not> sdc_is_reinsert env (sd_of fg) \<Longrightarrow> sdc_fat_check env fg = Some (True, fg)"
  by (simp add: sdc_fat_check_def)

lemma sint_small:
  assumes "unat (x :: u32) < 2 ^ 31"
  shows "sint x = int (unat x)" "int (unat x) < 2 ^ 31"
proof -
  show i: "int (unat x) < 2 ^ 31" unfolding of_nat_less_numeral_power_cancel_iff by (rule assms)
  have "uint x = int (unat x)" by simp
  moreover from this i have "- (2 ^ 31) \<le> uint x" "uint x < 2 ^ 31"
    by (simp_all add: order_trans [OF _ unsigned_greater_eq])
  then have "signed_take_bit 31 (uint x) = uint x" by (rule signed_take_bit_int_eq_self)
  ultimately show "sint x = int (unat x)" by (simp add: sint_uint)
qed

text \<open>
  C3: with an initialised card that follows the specification and was not removed,
  \<open>sdc_fat_read_file\<close> on a sound volume fills the buffer with the bytes of the file from the offset
  on, as many as were asked for and the file has, gives the handle back and leaves the volume as it
  was. The length it reports is the one that was asked for, also when the file is shorter. The size of the file,
  the length and the offset are below 2 GB.
\<close>

theorem sdc_fat_read_file_correct:
  assumes "sd_card env v blocks n ready" and "init_ok (sd_of fg) \<noteq> 0" and "\<not> sdc_is_reinsert env (sd_of fg)"
    and "filelib_init fg" and "filelib_valid fg" and "handles fg opens (h # hs)" and "good_path sep root dirs name"
    and "not_open fg opens (dir_path sep root dirs) name"
    and "resolves (sd_media_read env) (sd_media_write env) (sd_sector blocks) n (sd_valid v ready) (fg_fs fg) (rootdir_first_cluster (fg_fs fg)) dirs c"
    and "directory (sd_media_read env) (sd_media_write env) (sd_sector blocks) n (sd_valid v ready) (fg_fs fg) c ss"
    and "named_entry (sd_sector blocks) (fg_fs fg) ss name = Some e" and "fatfs_entry_is_file e"
    and "chain_sound (sd_sector blocks) n (fg_fs fg) (entry_cluster e) xs"
    and "length (file_data_sector (file_at fg h)) = FAT_SECTOR_SIZE"
    and "unat (FAT_HTONL (FileSize e)) = flen" and "flen < 2 ^ 31" and "flen \<le> length (file_content (sd_sector blocks) (fg_fs fg) xs)"
    and "0 < len" and "unat len < 2 ^ 31" and "unat len \<le> length buffer" and "unat offset < 2 ^ 31"
  shows "\<exists>fg'. sdc_fat_read_file env now junk (root @ join_path sep (dirs @ [name])) offset len buffer fg
      = Some (SDC_OK, len, mem_write 0 (mem_read (unat offset) (min (unat len) (flen - unat offset))
          (file_content (sd_sector blocks) (fg_fs fg) xs)) buffer, fg')
    \<and> handles fg' opens (hs @ [h])
    \<and> fat_inv (sd_media_read env) (sd_media_write env) (sd_sector blocks) n (sd_valid v ready) (fg_fs fg')
    \<and> same_view (sd_sector blocks) n (fg_fs fg) (fg_fs fg')"
proof -
  have m: "mode_flags (ascii ''rb'') AND FILE_READ \<noteq> 0" by (simp add: mode_flags_def mode_char_def ascii_def)
  have s: "sint len = int (unat len)" "sint offset = int (unat offset)"
    by (rule sint_small(1), rule assms(19), rule sint_small(1), rule assms(21))
  have n: "0 < sint len" "sint len < 2 ^ 31" "nat (sint len) \<le> length buffer" "0 \<le> sint offset" "sint offset < 2 ^ 31"
    unfolding s nat_int of_nat_0_less_iff
    using assms(18,20) sint_small(2) [OF assms(19)] sint_small(2) [OF assms(21)] by (simp_all add: word_less_nat_alt)
  have r: "run_device (sd_media_read env) (sd_media_write env) (sd_sector blocks) n (sd_valid v ready)"
    "reads_ok (sd_media_read env) n (sd_valid v ready)"
    using sd_device_lemma [OF assms(1)] by blast+
  obtain fg1 fg2 fg3 fg4 k where f: "fl_fopen now junk (Some (root @ join_path sep (dirs @ [name]))) (Some (ascii ''rb'')) fg = Some (Some h, fg1)"
    "fl_fseek (Some h) (sint offset) SEEK_SET fg1 = Some (0, fg2)"
    "fl_fread (Some buffer) 1 (sint len) (Some h) fg2 = Some (k, Some (mem_write 0 (mem_read (unat offset) (min (unat len) (flen - unat offset))
          (file_content (sd_sector blocks) (fg_fs fg) xs)) buffer), fg3)"
    "fl_fclose now (Some h) fg3 = Some fg4" "handles fg4 opens (hs @ [h])"
    "fat_inv (sd_media_read env) (sd_media_write env) (sd_sector blocks) n (sd_valid v ready) (fg_fs fg4)"
    "same_view (sd_sector blocks) n (fg_fs fg) (fg_fs fg4)"
    using run_device.read_at_lemma [OF r assms(4,5) m assms(6-17) n, of now junk now]
    unfolding s nat_int by blast
  show ?thesis
    using f by (intro exI [of _ fg4]) (simp add: sdc_fat_read_file_def sdc_fat_check_ready [OF assms(2,3)])
qed

text \<open>The volume of \<open>FatOpen\<close> on the small card.\<close>

definition volume_sd :: "sample_card sdcard_t" where
  "volume_sd = sample_sd\<lparr>init_ok := 1, sd_bus := sample_bus\<lparr>the_card := (the_card sample_bus)\<lparr>rc_blocks :=
     [dir_entry_bytes card_entry @ replicate 480 0, sample_table, replicate 512 1, replicate 512 2]\<rparr>\<rparr>\<rparr>"

definition sd_volume :: "sample_card sd_global" where
  "sd_volume = \<lparr>files = [sample_file], filelib_init = True, filelib_valid = True,
     fg_fs = card_fs (sd_media_read sample_env) (sd_media_write sample_env) volume_sd,
     open_file_list = (None, None), free_file_list = (Some 0, Some 0),
     list_nodes = \<lambda>_. \<lparr>previous = None, next_node = None\<rparr>, fl_lock = False, fl_unlock = False,
     lock_calls = 0, unlock_calls = 0\<rparr>"

lemma sd_volume_facts:
  "sd_card sample_env 1 rc_data 4 (rc_ready 4)" "sd_valid 1 (rc_ready 4) volume_sd" "card_disk (sd_sector rc_data) volume_sd"
proof -
  have t: "length sample_table = 512" by (simp add: sample_table_def)
  show "sd_card sample_env 1 rc_data 4 (rc_ready 4)" by (rule sample_sd_card) simp
  show "sd_valid 1 (rc_ready 4) volume_sd"
    by (simp add: sd_valid_def volume_sd_def sample_sd_def zero_sdcard_def sample_bus_def rc_ready_def at_card_def t card_entry_wf(2))
  show "card_disk (sd_sector rc_data) volume_sd"
    by (simp add: card_disk_def sd_sector_def rc_data_def volume_sd_def sample_sd_def zero_sdcard_def sample_bus_def)
qed

theorem sdc_fat_read_file_correct_witness:
  "\<exists>fg'. sdc_fat_read_file sample_env sample_now [] (ascii ''/game.bin'') 510 4 [0, 0, 0, 0, 7] sd_volume
    = Some (SDC_OK, 4, [1, 1, 2, 2, 7], fg')"
proof -
  have i: "init_ok (sd_of sd_volume) \<noteq> 0" "\<not> sdc_is_reinsert sample_env (sd_of sd_volume)"
    by (simp_all add: sd_of_def sd_volume_def card_fs_def volume_sd_def sdc_is_reinsert_def reg_read_def sample_bus_def sample_sd_def)
  have g: "filelib_init sd_volume" "filelib_valid sd_volume" "handles sd_volume [] [0]" "not_open sd_volume [] p q" for p q
    by (simp_all add: sd_volume_def handles_def dlist_def open_list_def free_list_def not_open_def)
  have fs: "fg_fs sd_volume = card_fs (sd_media_read sample_env) (sd_media_write sample_env) volume_sd"
    "rootdir_first_cluster (fg_fs sd_volume) = 0" "length (file_data_sector (file_at sd_volume 0)) = FAT_SECTOR_SIZE"
    by (simp_all add: sd_volume_def card_fs_def file_at_def sample_file_def)
  have ok: "device_ok (sd_media_read sample_env) (sd_media_write sample_env) 4 (sd_valid 1 (rc_ready 4))"
    by (rule sd_device_lemma(2) [OF sd_volume_facts(1)])
  note d = card_directory [where disk = "sd_sector rc_data", OF sd_volume_facts(2) ok, folded fs(1)]
  note nm = card_named [OF sd_volume_facts(3), of "sd_media_read sample_env" "sd_media_write sample_env", folded fs(1)]
  note ch = card_chain [OF sd_volume_facts(3), of "sd_media_read sample_env" "sd_media_write sample_env", folded fs(1)]
  have r: "resolves (sd_media_read sample_env) (sd_media_write sample_env) (sd_sector rc_data) 4 (sd_valid 1 (rc_ready 4))
      (fg_fs sd_volume) (rootdir_first_cluster (fg_fs sd_volume)) [] 0"
    unfolding fs(2) by (rule resolves_here)
  have path: "[CHAR_SLASH] @ join_path CHAR_SLASH ([] @ [ascii ''game.bin'']) = ascii ''/game.bin''" by (simp add: ascii_def)
  have x: "chain_sound (sd_sector rc_data) 4 (fg_fs sd_volume) (entry_cluster card_entry) [2, 3]"
    unfolding card_entry_wf(3) by (rule ch(1))
  have l: "unat (FAT_HTONL (FileSize card_entry)) = 600" "600 < (2 :: nat) ^ 31"
    "600 \<le> length (file_content (sd_sector rc_data) (fg_fs sd_volume) [2, 3])"
    by (simp_all add: card_entry_wf(4) ch(2))
  have w: "0 < (4 :: u32)" "unat (4 :: u32) < 2 ^ 31" "unat (4 :: u32) \<le> length [0, 0, 0, 0, 7 :: byte]" "unat (510 :: u32) < 2 ^ 31"
    by simp_all
  have c: "mem_write 0 (mem_read (unat (510 :: u32)) (min (unat (4 :: u32)) (600 - unat (510 :: u32)))
      (file_content (sd_sector rc_data) (fg_fs sd_volume) [2, 3])) [0, 0, 0, 0, 7] = [1, 1, 2, 2, 7]"
  proof -
    have "mem_read 510 4 (replicate 512 (1 :: byte) @ replicate 512 2) = [1, 1, 2, 2]"
      by (simp add: mem_read_def numeral_2_eq_2)
    then show ?thesis by (simp add: ch(2) mem_write_def)
  qed
  show ?thesis
    using sdc_fat_read_file_correct [OF sd_volume_facts(1) i g(1-3) card_path g(4) r d nm card_entry_wf(5) x fs(3) l w,
        of sample_now "[]"]
    unfolding path c by auto
qed

end
