(* ===== verification/ScFiles.thy ===== *)
theory ScFiles
  imports ScRomfs SdFat "HOL-Library.List_Lexorder" "HOL-Library.Product_Lexorder"
begin

section \<open>File names and listings on the console\<close>

text \<open>
  Models the part of \<open>satcom_lib/sc_saturn.c\<close> that handles file names and puts the entries of a folder
  in order, whatever device they come from: \<open>scf_dev_getname\<close>, \<open>scf_filename_bufferize\<close>,
  \<open>scf_compare_extension\<close>, \<open>scf_get_filename\<close>, \<open>scf_parent_path\<close>, \<open>scf_file_is_greater\<close> and the second
  half of \<open>scf_filelist\<close>. A string argument is the memory from its pointer on, its null included; every
  routine returns \<open>None\<close> where the C would leave that memory. \<open>char\<close> is signed, as GCC has it on
  the SH-2. The lemmas show that the exchange sort returns for up to 65535 entries and
  what order it leaves in \<open>sort_index\<close>, which names an extension filter accepts, and what the path
  helpers return.
\<close>

abbreviation (input) SC_PATHNAME_MAXLEN :: nat where "SC_PATHNAME_MAXLEN \<equiv> 96"
abbreviation (input) FLAG_FILTERED :: byte where "FLAG_FILTERED \<equiv> 0x80"
abbreviation (input) SC_FILE_CDROM :: byte where "SC_FILE_CDROM \<equiv> 0"
abbreviation (input) SC_FILE_ROMFS :: byte where "SC_FILE_ROMFS \<equiv> 1"
abbreviation (input) SC_FILE_PC :: byte where "SC_FILE_PC \<equiv> 2"
abbreviation (input) SC_FILE_SDCARD :: byte where "SC_FILE_SDCARD \<equiv> 3"
abbreviation (input) backslash :: byte where "backslash \<equiv> 0x5C"
abbreviation (input) full_stop :: byte where "full_stop \<equiv> 0x2E"
abbreviation (input) comma :: byte where "comma \<equiv> 0x2C"

subsection \<open>Names of devices and files\<close>

definition dev_names :: "byte list list" where
  "dev_names = [ascii ''CD-ROM'', ascii ''RomFs '', ascii ''PClink'', ascii ''SDcard'']"

definition scf_dev_getname :: "byte \<Rightarrow> byte list" where
  "scf_dev_getname dev_id =
     (if dev_id = SC_FILE_CDROM \<or> dev_id = SC_FILE_ROMFS \<or> dev_id = SC_FILE_PC \<or> dev_id = SC_FILE_SDCARD
      then dev_names ! unat dev_id else dev_names ! 0)"

text \<open>The copy of a name to \<open>filename_buff\<close>.\<close>

function bufferize_loop :: "byte list \<Rightarrow> nat \<Rightarrow> byte list \<Rightarrow> byte list option" where
  "bufferize_loop filename i buff =
     (if i < SC_PATHNAME_MAXLEN then do {
        c \<leftarrow> peek filename i;
        buff \<leftarrow> poke buff i (if c = backslash then slash else c);
        if c = 0 then Some buff else bufferize_loop filename (i + 1) buff }
      else Some buff)"
  by pat_completeness auto
termination
  by (relation "measure (\<lambda>(filename, i, buff). SC_PATHNAME_MAXLEN - i)") auto

declare bufferize_loop.simps [simp del]

definition scf_filename_bufferize :: "byte list \<Rightarrow> byte list option" where
  "scf_filename_bufferize filename = do {
     buff \<leftarrow> bufferize_loop filename 0 (replicate SC_PATHNAME_MAXLEN 0);
     poke buff (SC_PATHNAME_MAXLEN - 1) 0 }"

definition str_len :: "byte list \<Rightarrow> nat option" where
  "str_len m = (if 0 \<in> set m then Some (length (cstring m)) else None)"

text \<open>The position behind the first dot among \<open>n\<close> characters, or behind all of them.\<close>

fun skip_dot :: "nat \<Rightarrow> byte list \<Rightarrow> nat \<Rightarrow> nat option" where
  "skip_dot 0 str p = Some p"
| "skip_dot (Suc n) str p = do {
     c \<leftarrow> peek str p;
     if c = full_stop then Some (p + 1) else skip_dot n str (p + 1) }"

text \<open>The loop that copies up to \<open>n\<close> characters to an extension, in capitals.\<close>

fun copy_ext :: "nat \<Rightarrow> byte list \<Rightarrow> nat \<Rightarrow> nat \<Rightarrow> byte list \<Rightarrow> byte list option" where
  "copy_ext 0 str p i e = Some e"
| "copy_ext (Suc n) str p i e = do {
     c \<leftarrow> peek str p;
     if c = 0 then Some e
     else do { e \<leftarrow> poke e i (sc_toupper c); copy_ext n str (p + 1) (i + 1) e } }"

definition scf_compare_extension :: "byte list \<Rightarrow> byte list \<Rightarrow> bool option" where
  "scf_compare_extension str ext = do {
     n \<leftarrow> str_len str;
     p \<leftarrow> skip_dot 4 str (if n > 4 then n - 4 else 0);
     e1 \<leftarrow> copy_ext 3 str p 0 (replicate 4 0);
     c \<leftarrow> peek ext 0;
     e2 \<leftarrow> copy_ext 3 ext (if c = full_stop then 1 else 0) 0 (replicate 4 0);
     Some (e1 ! 0 = e2 ! 0 \<and> e1 ! 1 = e2 ! 1 \<and> e1 ! 2 = e2 ! 2) }"

text \<open>The position of the file name in a path. A separator at the very end does not count.\<close>

function get_filename_loop :: "byte list \<Rightarrow> int \<Rightarrow> nat \<Rightarrow> nat \<Rightarrow> nat" where
  "get_filename_loop path n i ret =
     (if int i < n - 1
      then get_filename_loop path n (i + 1) (if path ! i = slash \<or> path ! i = backslash then i + 1 else ret)
      else ret)"
  by pat_completeness auto
termination
  by (relation "measure (\<lambda>(path, n, i, ret). nat (n - 1 - int i))") auto

declare get_filename_loop.simps [simp del]

definition scf_get_filename :: "byte list \<Rightarrow> nat option" where
  "scf_get_filename path = do {
     n \<leftarrow> str_len path;
     Some (get_filename_loop path (int n) 0 0) }"

text \<open>The parent folder, in place. \<open>parent_loop path k\<close> stands before the character at \<open>k - 1\<close>.\<close>

fun parent_loop :: "byte list \<Rightarrow> nat \<Rightarrow> byte list" where
  "parent_loop path 0 = path"
| "parent_loop path (Suc i) =
     (if path ! i = slash then path[i := 0]
      else parent_loop (if i = 0 then path[0 := 0] else path) i)"

definition scf_parent_path :: "byte list \<Rightarrow> byte list option" where
  "scf_parent_path path = do {
     n \<leftarrow> str_len path;
     let path = mem_write 0 (map (\<lambda>c. if c = slash \<or> c = backslash then slash else c) (take n path)) path;
     let (n, path) = (if n \<noteq> 0 \<and> path ! (n - 1) = slash then (n - 1, path[n - 1 := 0]) else (n, path));
     Some (if n \<noteq> 0 then parent_loop path n else path) }"

subsection \<open>The order of the entries\<close>

fun greater_loop :: "nat \<Rightarrow> nat \<Rightarrow> byte list \<Rightarrow> byte list \<Rightarrow> bool option" where
  "greater_loop 0 i f1 f2 = Some False"
| "greater_loop (Suc n) i f1 f2 = do {
     a \<leftarrow> peek f1 i; b \<leftarrow> peek f2 i;
     (let c1 = sc_tolower a; c2 = sc_tolower b in
       if c1 \<noteq> c2 then Some (sint c1 > sint c2) else greater_loop n (i + 1) f1 f2) }"

definition scf_file_is_greater :: "scdf_file_entry \<Rightarrow> scdf_file_entry \<Rightarrow> bool option" where
  "scf_file_is_greater f1 f2 =
     (if fe_flags f1 AND FLAG_FOLDER \<noteq> fe_flags f2 AND FLAG_FOLDER
      then Some (fe_flags f1 AND FLAG_FOLDER = 0)
      else greater_loop SC_FILENAME_MAXLEN 0 (fe_filename f1) (fe_filename f2))"

text \<open>The exchange sort of the indexes, whose counters have 16 bits.\<close>

definition swap_index :: "scdf_file_entry list \<Rightarrow> nat \<Rightarrow> nat \<Rightarrow> scdf_file_entry list" where
  "swap_index l i j = (let a = fe_sort_index (l ! i); b = fe_sort_index (l ! j); l = l[i := (l ! i)\<lparr>fe_sort_index := b\<rparr>]
     in l[j := (l ! j)\<lparr>fe_sort_index := a\<rparr>])"

partial_function (option) sort_inner :: "u32 \<Rightarrow> u16 \<Rightarrow> u16 \<Rightarrow> scdf_file_entry list \<Rightarrow> scdf_file_entry list option" where
  "sort_inner items i j l =
     (if ucast j < items
      then Option.bind (peek l (unat i)) (\<lambda>ei. Option.bind (peek l (unat j)) (\<lambda>ej.
        Option.bind (peek l (unat (fe_sort_index ei))) (\<lambda>f1. Option.bind (peek l (unat (fe_sort_index ej))) (\<lambda>f2.
        Option.bind (scf_file_is_greater f1 f2) (\<lambda>gt.
        sort_inner items i (j + 1) (if gt then swap_index l (unat i) (unat j) else l))))))
      else Some l)"

partial_function (option) sort_outer :: "u32 \<Rightarrow> u16 \<Rightarrow> scdf_file_entry list \<Rightarrow> scdf_file_entry list option" where
  "sort_outer items i l =
     (if ucast i < items - 1
      then Option.bind (sort_inner items i (i + 1) l) (\<lambda>l. sort_outer items (i + 1) l)
      else Some l)"

definition sort_entries :: "u32 \<Rightarrow> scdf_file_entry list \<Rightarrow> scdf_file_entry list option" where
  "sort_entries items l = (if items > 1 then sort_outer items 0 l else Some l)"

subsection \<open>The entries of a listing\<close>

text \<open>A slash before the names of folders; the folders \<open>.\<close> and \<open>..\<close> are disabled.\<close>

definition sanitize_entry :: "scdf_file_entry \<Rightarrow> scdf_file_entry" where
  "sanitize_entry e =
     (if fe_flags e AND FLAG_ENABLED \<noteq> 0 \<and> fe_flags e AND FLAG_FOLDER \<noteq> 0
      then (let n = fe_filename e;
          n = (if n ! 0 \<noteq> slash \<and> n ! 0 \<noteq> backslash
            then (slash # take (SC_FILENAME_MAXLEN - 1) n)[SC_FILENAME_MAXLEN - 1 := 0] else n);
          fl = fe_flags e;
          fl = (if n ! 1 = full_stop \<and> n ! 2 = 0 then fl AND NOT FLAG_ENABLED else fl);
          fl = (if n ! 1 = full_stop \<and> n ! 2 = full_stop \<and> n ! 3 = 0 then fl AND NOT FLAG_ENABLED else fl)
        in e\<lparr>fe_filename := n, fe_flags := fl\<rparr>)
      else e)"

definition reset_index :: "scdf_file_entry list \<Rightarrow> scdf_file_entry list" where
  "reset_index l = map (\<lambda>k. (l ! k)\<lparr>fe_sort_index := word_of_nat k\<rparr>) [0..<length l]"

text \<open>The next extension of the filter, from \<open>filter[i]\<close> on, and where reading it stops.\<close>

fun filter_ext :: "nat \<Rightarrow> byte list \<Rightarrow> nat \<Rightarrow> nat \<Rightarrow> byte list \<Rightarrow> (nat \<times> byte list) option" where
  "filter_ext 0 f i j ext = Some (i, ext)"
| "filter_ext (Suc n) f i j ext = do {
     c \<leftarrow> peek f i;
     if c = 0 then Some (i, ext)
     else do {
       ext \<leftarrow> poke ext j c;
       d \<leftarrow> peek f (i + 1);
       if d = comma then Some (i, ext) else filter_ext n f (i + 1) (j + 1) ext } }"

fun filter_mark :: "byte list \<Rightarrow> scdf_file_entry list \<Rightarrow> scdf_file_entry list option" where
  "filter_mark ext [] = Some []"
| "filter_mark ext (e # l) = do {
     e' \<leftarrow> (if fe_flags e AND FLAG_FILTERED = 0
       then do {
         ok \<leftarrow> scf_compare_extension (fe_filename e) ext;
         Some (if ok then e\<lparr>fe_flags := fe_flags e OR FLAG_FILTERED\<rparr> else e) }
       else Some e);
     l' \<leftarrow> filter_mark ext l;
     Some (e' # l') }"

lemma filter_ext_mono: "filter_ext n f i j ext = Some (i', ext') \<Longrightarrow> i \<le> i'"
  by (induction n f i j ext rule: filter_ext.induct)
    (auto simp: bind_eq_Some_conv split: if_splits intro: Suc_leD)

function filter_loop :: "byte list \<Rightarrow> nat \<Rightarrow> nat \<Rightarrow> scdf_file_entry list \<Rightarrow> scdf_file_entry list option" where
  "filter_loop f n i l =
     (if i < n
      then (if i = 0 \<or> f ! i = comma \<or> f ! i = 0
        then (case filter_ext 4 f (if f ! i = comma then i + 1 else i) 0 (replicate 5 0) of
            None \<Rightarrow> None
          | Some (i', ext) \<Rightarrow> do { l \<leftarrow> filter_mark ext l; filter_loop f n (i' + 1) l })
        else filter_loop f n (i + 1) l)
      else Some l)"
  by pat_completeness auto
termination
  by (relation "measure (\<lambda>(f, n, i, l). n - i)") (auto dest!: filter_ext_mono split: if_splits)

declare filter_loop.simps [simp del]

definition mark_folder :: "scdf_file_entry \<Rightarrow> scdf_file_entry" where
  "mark_folder e = (if fe_flags e AND FLAG_FOLDER \<noteq> 0 then e\<lparr>fe_flags := fe_flags e OR FLAG_FILTERED\<rparr> else e)"

definition apply_mark :: "scdf_file_entry \<Rightarrow> scdf_file_entry" where
  "apply_mark e = (let fl = fe_flags e;
     fl = (if fl AND FLAG_FILTERED = 0 then fl AND NOT FLAG_ENABLED else fl)
     in e\<lparr>fe_flags := fl AND NOT FLAG_FILTERED\<rparr>)"

definition filter_entries :: "byte list \<Rightarrow> nat \<Rightarrow> scdf_file_entry list \<Rightarrow> scdf_file_entry list option" where
  "filter_entries f items l = do {
     n \<leftarrow> str_len f;
     marked \<leftarrow> filter_loop f n 0 (map mark_folder (take items l));
     Some (map apply_mark marked @ drop items l) }"

text \<open>The second half of \<open>scf_filelist\<close>, on the list that a device has filled, with \<open>list_count\<close> entries.\<close>

definition arrange_entries :: "u32 \<Rightarrow> u32 \<Rightarrow> byte \<Rightarrow> byte list option \<Rightarrow> scdf_file_entry list \<Rightarrow> scdf_file_entry list option" where
  "arrange_entries retval list_count list_sort f l = do {
     let items = (if retval > list_count then list_count else retval);
     if length l < unat list_count then None
     else do {
       let used = reset_index (map sanitize_entry (take (unat list_count) l));
       used \<leftarrow> (case f of None \<Rightarrow> Some used | Some f \<Rightarrow> filter_entries f (unat items) used);
       used \<leftarrow> (if list_sort \<noteq> 0 then sort_entries items used else Some used);
       Some (used @ drop (unat list_count) l) } }"

subsection \<open>The sort\<close>

text \<open>
  Folders come first; otherwise the names decide, character by character and without regard to case,
  a character above 127 before all others. \<open>entry_key\<close> is this order as a value of a linear order.
\<close>

definition entry_key :: "scdf_file_entry \<Rightarrow> bool \<times> int list" where
  "entry_key e = (fe_flags e AND FLAG_FOLDER = 0,
     map (\<lambda>c. sint (sc_tolower c)) (take SC_FILENAME_MAXLEN (fe_filename e)))"

lemma greater_loop_eq:
  assumes "i + n \<le> length f1" "i + n \<le> length f2"
  shows "greater_loop n i f1 f2 = Some (map (\<lambda>c. sint (sc_tolower c)) (mem_read i n f2)
    < map (\<lambda>c. sint (sc_tolower c)) (mem_read i n f1))"
  using assms
proof (induction n arbitrary: i)
  case (Suc n)
  have r: "mem_read i (Suc n) f = f ! i # mem_read (i + 1) n f" if "i + Suc n \<le> length f" for f :: "byte list"
    using that by (simp add: mem_read_def Cons_nth_drop_Suc [symmetric])
  show ?case using Suc by (auto simp: r Let_def dest: signed_word_eqI)
qed (simp add: mem_read_def)

lemma folder_bit: "(fl :: byte) AND FLAG_FOLDER = (if bit fl 1 then 2 else 0)"
proof -
  obtain l :: byte where l: "l = push_bit 1 1" by blast
  have "bit l n \<longleftrightarrow> n = 1" for n
    by (simp only: l bit_push_bit_iff bit_1_iff possible_bit_word) auto
  then have "fl AND l = (if bit fl 1 then l else 0)"
    by (intro bit_eqI) (auto simp: bit_simps)
  then show ?thesis by (simp add: l)
qed

lemma scf_file_is_greater_eq:
  assumes "SC_FILENAME_MAXLEN \<le> length (fe_filename f1)" "SC_FILENAME_MAXLEN \<le> length (fe_filename f2)"
  shows "scf_file_is_greater f1 f2 = Some (entry_key f2 < entry_key f1)"
proof -
  have g: "greater_loop SC_FILENAME_MAXLEN 0 (fe_filename f1) (fe_filename f2)
    = Some (snd (entry_key f2) < snd (entry_key f1))"
    using greater_loop_eq [of 0 SC_FILENAME_MAXLEN "fe_filename f1" "fe_filename f2"] assms
    by (simp add: entry_key_def mem_read_def)
  have f: "fst (entry_key f) = (\<not> bit (fe_flags f) 1)" for f by (simp add: entry_key_def folder_bit)
  show ?thesis
    unfolding scf_file_is_greater_def g folder_bit less_prod_def f
    by (cases "bit (fe_flags f1) 1"; cases "bit (fe_flags f2) 1") simp_all
qed

text \<open>The indexes of the first \<open>n\<close> entries, and the entries without them.\<close>

definition sort_indexes :: "nat \<Rightarrow> scdf_file_entry list \<Rightarrow> nat list" where
  "sort_indexes n l = map (\<lambda>e. unat (fe_sort_index e)) (take n l)"

definition unsorted :: "scdf_file_entry list \<Rightarrow> scdf_file_entry list" where
  "unsorted l = map (\<lambda>e. e\<lparr>fe_sort_index := 0\<rparr>) l"

lemma unsorted_length: "unsorted l' = unsorted l \<Longrightarrow> length l' = length l"
  by (metis length_map unsorted_def)

lemma unsorted_nth:
  assumes "unsorted l' = unsorted l" "k < length l"
  shows "fe_filename (l' ! k) = fe_filename (l ! k)" "fe_flags (l' ! k) = fe_flags (l ! k)"
    "entry_key (l' ! k) = entry_key (l ! k)"
proof -
  have "(l' ! k)\<lparr>fe_sort_index := 0\<rparr> = (l ! k)\<lparr>fe_sort_index := 0\<rparr>"
    using assms unsorted_length [OF assms(1)] by (metis nth_map unsorted_def)
  then show "fe_filename (l' ! k) = fe_filename (l ! k)" "fe_flags (l' ! k) = fe_flags (l ! k)"
    by (cases "l' ! k"; cases "l ! k"; simp)+
  then show "entry_key (l' ! k) = entry_key (l ! k)" by (simp add: entry_key_def)
qed

lemma swap_index_unsorted: "i < length l \<Longrightarrow> j < length l \<Longrightarrow> unsorted (swap_index l i j) = unsorted l"
  by (auto simp: unsorted_def swap_index_def Let_def map_update list_update_same_conv nth_list_update intro!: nth_equalityI)

lemma swap_index_sort_indexes:
  assumes "i < n" "j < n" "n \<le> length l" "i \<noteq> j"
  shows "sort_indexes n (swap_index l i j)
    = (sort_indexes n l)[i := sort_indexes n l ! j, j := sort_indexes n l ! i]"
  using assms by (intro nth_equalityI) (auto simp: sort_indexes_def swap_index_def Let_def nth_list_update)

lemma ucast_16_32: "n < 2 ^ 16 \<Longrightarrow> (ucast (word_of_nat n :: u16) :: u32) = word_of_nat n"
  by (simp add: unsigned_of_nat take_bit_nat_eq_self)

text \<open>What holds of the list all the time: its names are complete, its indexes are a permutation.\<close>

definition sortable :: "nat \<Rightarrow> scdf_file_entry list \<Rightarrow> bool" where
  "sortable n l \<longleftrightarrow> n \<le> length l \<and> n < 2 ^ 16 \<and> (\<forall>e\<in>set l. length (fe_filename e) = SC_FILENAME_MAXLEN)
     \<and> distinct (sort_indexes n l) \<and> set (sort_indexes n l) = {..<n}"

lemma sortable_cong:
  assumes "sortable n l" "unsorted l' = unsorted l" "distinct (sort_indexes n l')" "set (sort_indexes n l') = {..<n}"
  shows "sortable n l'"
proof -
  have "\<forall>e\<in>set l'. length (fe_filename e) = SC_FILENAME_MAXLEN"
    using assms(1) unsorted_nth(1) [OF assms(2)] unsorted_length [OF assms(2)]
    by (simp add: sortable_def all_set_conv_all_nth)
  then show ?thesis using assms unsorted_length [OF assms(2)] by (simp add: sortable_def)
qed

lemma sortable_swap:
  assumes "sortable n l" "i < n" "j < n" "i \<noteq> j"
  shows "sortable n (swap_index l i j)"
proof -
  have n: "n \<le> length l" "length (sort_indexes n l) = n" using assms by (auto simp: sortable_def sort_indexes_def)
  show ?thesis
    using assms n by (intro sortable_cong [OF assms(1)])
      (auto simp: swap_index_unsorted swap_index_sort_indexes sortable_def)
qed

lemma sort_inner_correct:
  assumes "sortable n l" "i < j" "j \<le> n"
    and "\<forall>m. i \<le> m \<and> m < j \<longrightarrow> entry_key (l ! (sort_indexes n l ! i)) \<le> entry_key (l ! (sort_indexes n l ! m))"
  shows "\<exists>l'. sort_inner (word_of_nat n) (word_of_nat i) (word_of_nat j) l = Some l' \<and> sortable n l'
    \<and> unsorted l' = unsorted l \<and> (\<forall>m<i. sort_indexes n l' ! m = sort_indexes n l ! m)
    \<and> (\<forall>m. i \<le> m \<and> m < n \<longrightarrow> (\<exists>k. i \<le> k \<and> k < n \<and> sort_indexes n l' ! m = sort_indexes n l ! k))
    \<and> (\<forall>m. i \<le> m \<and> m < n \<longrightarrow> entry_key (l ! (sort_indexes n l' ! i)) \<le> entry_key (l ! (sort_indexes n l' ! m)))"
  using assms
proof (induction "n - j" arbitrary: j l)
  case 0
  then have "j = n" by simp
  then have "sort_inner (word_of_nat n) (word_of_nat i) (word_of_nat j) l = Some l"
    using 0 by (subst sort_inner.simps) (simp add: sortable_def ucast_16_32)
  then show ?case using 0 \<open>j = n\<close> by auto
next
  case (Suc d)
  let ?ks = "sort_indexes n l"
  have n: "n \<le> length l" "n < 2 ^ 16" "length ?ks = n" "j < n" "i < n"
    using Suc.prems Suc.hyps by (auto simp: sortable_def sort_indexes_def)
  have u: "unat (word_of_nat i :: u16) = i" "unat (word_of_nat j :: u16) = j" using n by simp_all
  have lt: "(ucast (word_of_nat j :: u16) :: u32) < word_of_nat n"
    using n by (simp add: ucast_16_32 word_less_nat_alt)
  have nx: "word_of_nat j + 1 = (word_of_nat (j + 1) :: u16)" by simp
  have ks: "?ks ! k = unat (fe_sort_index (l ! k))" "?ks ! k < n" if "k < n" for k
    using that n Suc.prems(1) nth_mem [of k ?ks] by (auto simp: sort_indexes_def sortable_def)
  let ?a = "l ! (?ks ! i)" and ?b = "l ! (?ks ! j)"
  let ?gt = "entry_key ?b < entry_key ?a"
  define l1 where "l1 = (if ?gt then swap_index l i j else l)"
  have gt: "scf_file_is_greater ?a ?b = Some ?gt"
    using Suc.prems(1) n ks(2) [of i] ks(2) [of j]
    by (intro scf_file_is_greater_eq) (auto simp: sortable_def)
  have step: "sort_inner (word_of_nat n) (word_of_nat i) (word_of_nat j) l
      = sort_inner (word_of_nat n) (word_of_nat i) (word_of_nat (j + 1)) l1"
    using lt gt n u ks [of i] ks [of j] nx
    by (subst sort_inner.simps) (simp add: l1_def del: of_nat_Suc of_nat_add)
  have l1: "sortable n l1" "unsorted l1 = unsorted l"
    using sortable_swap [OF Suc.prems(1)] n Suc.prems(2) swap_index_unsorted [of i l j] Suc.prems(1) by (simp_all add: l1_def)
  have key: "entry_key (l1 ! k) = entry_key (l ! k)" if "k < n" for k
    using unsorted_nth(3) [OF l1(2)] that n by simp
  have ks1: "sort_indexes n l1 = (if ?gt then ?ks[i := ?ks ! j, j := ?ks ! i] else ?ks)"
    using n Suc.prems(2) by (simp add: l1_def swap_index_sort_indexes)
  have min: "entry_key (l1 ! (sort_indexes n l1 ! i)) \<le> entry_key (l1 ! (sort_indexes n l1 ! m))"
    if "i \<le> m \<and> m < j + 1" for m
  proof -
    have m: "m < n" using that n by simp
    have a: "entry_key ?a \<le> entry_key (l ! (?ks ! m))" if "m < j"
      using Suc.prems(4) that \<open>i \<le> m \<and> m < j + 1\<close> by blast
    show ?thesis
    proof (cases ?gt)
      case True
      have "entry_key ?b \<le> entry_key (l ! (?ks ! m))" if "m < j" using a [OF that] True by order
      then show ?thesis
        using True n m that Suc.prems(2) ks(2) key by (auto simp: ks1 nth_list_update less_Suc_eq order.strict_implies_order)
    next
      case False
      then have "entry_key ?a \<le> entry_key (l ! (?ks ! m))" using a that by (cases "m < j") (auto simp: less_Suc_eq)
      then show ?thesis using False key ks(2) n m by (simp add: ks1)
    qed
  qed
  have dj: "d = n - (j + 1)" and ij: "i < j + 1" "j + 1 \<le> n" using Suc.hyps(2) Suc.prems(2) n by simp_all
  obtain l' where l': "sort_inner (word_of_nat n) (word_of_nat i) (word_of_nat (j + 1)) l1 = Some l'" "sortable n l'"
      "unsorted l' = unsorted l1" "\<forall>m<i. sort_indexes n l' ! m = sort_indexes n l1 ! m"
      "\<forall>m. i \<le> m \<and> m < n \<longrightarrow> (\<exists>k. i \<le> k \<and> k < n \<and> sort_indexes n l' ! m = sort_indexes n l1 ! k)"
      "\<forall>m. i \<le> m \<and> m < n \<longrightarrow> entry_key (l1 ! (sort_indexes n l' ! i)) \<le> entry_key (l1 ! (sort_indexes n l' ! m))"
    using Suc.hyps(1) [OF dj l1(1) ij(1) ij(2)] min by blast
  have old: "\<exists>k'. i \<le> k' \<and> k' < n \<and> sort_indexes n l1 ! k = ?ks ! k'" if "i \<le> k" "k < n" for k
  proof -
    have "sort_indexes n l1 ! k = ?ks ! (if ?gt then (if k = j then i else if k = i then j else k) else k)"
      using n that by (auto simp: ks1 nth_list_update)
    then show ?thesis using that n Suc.prems(2)
      by (intro exI [where x = "if ?gt then (if k = j then i else if k = i then j else k) else k"]) auto
  qed
  have lt': "sort_indexes n l' ! m < n" if "m < n" for m
    using that l'(2) nth_mem [of m "sort_indexes n l'"] by (auto simp: sortable_def sort_indexes_def)
  have "sort_indexes n l' ! m = ?ks ! m" if "m < i" for m
    using that Suc.prems(2) n l'(4) by (simp add: ks1)
  moreover have "\<exists>k. i \<le> k \<and> k < n \<and> sort_indexes n l' ! m = ?ks ! k" if "i \<le> m" "m < n" for m
  proof -
    obtain k where k: "i \<le> k" "k < n" "sort_indexes n l' ! m = sort_indexes n l1 ! k" using l'(5) \<open>i \<le> m\<close> \<open>m < n\<close> by blast
    show ?thesis using old [OF k(1,2)] k(3) by simp
  qed
  moreover have "entry_key (l ! (sort_indexes n l' ! i)) \<le> entry_key (l ! (sort_indexes n l' ! m))" if "i \<le> m" "m < n" for m
    using l'(6) that key lt' [of i] lt' [of m] n(5) by auto
  ultimately show ?case
    unfolding step using l'(1,2,3) l1(2) by auto
qed


text \<open>The order that \<open>sort_index\<close> describes is the sorted one.\<close>

definition in_order :: "nat \<Rightarrow> scdf_file_entry list \<Rightarrow> bool" where
  "in_order n l \<longleftrightarrow> sorted (map (\<lambda>k. entry_key (l ! k)) (sort_indexes n l))"

lemma sort_outer_correct:
  assumes "sortable n l" "i < n"
    and "\<forall>a m. a < i \<and> a \<le> m \<and> m < n \<longrightarrow> entry_key (l ! (sort_indexes n l ! a)) \<le> entry_key (l ! (sort_indexes n l ! m))"
  shows "\<exists>l'. sort_outer (word_of_nat n) (word_of_nat i) l = Some l' \<and> sortable n l' \<and> unsorted l' = unsorted l
    \<and> in_order n l'"
  using assms
proof (induction "n - Suc i" arbitrary: i l)
  case 0
  then have i: "i = n - 1" "n > 0" by simp_all
  have w: "(word_of_nat n :: u32) - 1 = word_of_nat (n - 1)" using i by (simp add: of_nat_diff)
  have u: "(ucast (word_of_nat (n - 1) :: u16) :: u32) = word_of_nat (n - 1)"
    using 0(2) by (intro ucast_16_32) (auto simp: sortable_def)
  have "sort_outer (word_of_nat n) (word_of_nat i) l = Some l"
    by (subst sort_outer.simps) (simp only: w u i(1) order.irrefl if_False)
  moreover have "in_order n l"
    unfolding in_order_def sorted_iff_nth_mono
  proof (intro allI impI)
    fix a m assume am: "a \<le> m" "m < length (map (\<lambda>k. entry_key (l ! k)) (sort_indexes n l))"
    then have m: "m < n" "length (sort_indexes n l) = n" using 0(2) by (auto simp: sort_indexes_def sortable_def)
    then have "a < i \<or> a = m" using am(1) i by linarith
    then show "map (\<lambda>k. entry_key (l ! k)) (sort_indexes n l) ! a \<le> map (\<lambda>k. entry_key (l ! k)) (sort_indexes n l) ! m"
      using 0(4) am(1) m by auto
  qed
  ultimately show ?case using 0(2) by blast
next
  case (Suc d)
  have n: "n < 2 ^ 16" "n \<le> length l" using Suc.prems(1) by (simp_all add: sortable_def)
  have w: "(word_of_nat n :: u32) - 1 = word_of_nat (n - 1)" using Suc.prems(2) by (simp add: of_nat_diff)
  have lt: "(ucast (word_of_nat i :: u16) :: u32) < word_of_nat n - 1"
    unfolding w using n Suc.hyps(2) by (simp add: ucast_16_32 word_less_nat_alt del: of_nat_diff)
  have nx: "word_of_nat i + 1 = (word_of_nat (i + 1) :: u16)" by simp
  have j: "i < i + 1" "i + 1 \<le> n" using Suc.prems(2) by simp_all
  have one: "\<forall>m. i \<le> m \<and> m < i + 1 \<longrightarrow> entry_key (l ! (sort_indexes n l ! i)) \<le> entry_key (l ! (sort_indexes n l ! m))"
    by (auto simp: less_Suc_eq)
  obtain l1 where l1: "sort_inner (word_of_nat n) (word_of_nat i) (word_of_nat (i + 1)) l = Some l1" "sortable n l1"
      "unsorted l1 = unsorted l" "\<forall>m<i. sort_indexes n l1 ! m = sort_indexes n l ! m"
      "\<forall>m. i \<le> m \<and> m < n \<longrightarrow> (\<exists>k. i \<le> k \<and> k < n \<and> sort_indexes n l1 ! m = sort_indexes n l ! k)"
      "\<forall>m. i \<le> m \<and> m < n \<longrightarrow> entry_key (l ! (sort_indexes n l1 ! i)) \<le> entry_key (l ! (sort_indexes n l1 ! m))"
    using sort_inner_correct [OF Suc.prems(1) j one] by blast
  have key: "entry_key (l1 ! (sort_indexes n l1 ! m)) = entry_key (l ! (sort_indexes n l1 ! m))" if "m < n" for m
  proof -
    have "sort_indexes n l1 ! m < n"
      using that l1(2) nth_mem [of m "sort_indexes n l1"] by (auto simp: sortable_def sort_indexes_def)
    then show ?thesis using unsorted_nth(3) [OF l1(3)] n by simp
  qed
  have front: "entry_key (l1 ! (sort_indexes n l1 ! a)) \<le> entry_key (l1 ! (sort_indexes n l1 ! m))"
    if "a < i + 1" "a \<le> m" "m < n" for a m
  proof (cases "a = i")
    case True
    then show ?thesis using l1(6) that key by simp
  next
    case False
    then have a: "a < i" "sort_indexes n l1 ! a = sort_indexes n l ! a" using that l1(4) by simp_all
    obtain k where k: "a \<le> k" "k < n" "sort_indexes n l1 ! m = sort_indexes n l ! k"
    proof (cases "m < i")
      case True
      then show thesis using that [of m] l1(4) \<open>a \<le> m\<close> \<open>m < n\<close> by simp
    next
      case False
      then obtain k where "i \<le> k" "k < n" "sort_indexes n l1 ! m = sort_indexes n l ! k"
        using l1(5) \<open>m < n\<close> by (meson leI)
      then show thesis using that [of k] a(1) by simp
    qed
    note k(3)
    moreover have "entry_key (l ! (sort_indexes n l ! a)) \<le> entry_key (l ! (sort_indexes n l ! k))"
      using Suc.prems(3) a(1) k by blast
    moreover have "a < n" using that by simp
    ultimately show ?thesis using key [of a] key [of m] a(2) that(3) by simp
  qed
  have "sort_outer (word_of_nat n) (word_of_nat i) l = sort_outer (word_of_nat n) (word_of_nat (i + 1)) l1"
    using lt l1(1) nx by (subst sort_outer.simps) (simp del: of_nat_add of_nat_Suc)
  moreover have "d = n - Suc (i + 1)" "i + 1 < n" using Suc.hyps(2) by simp_all
  ultimately show ?case using Suc.hyps(1) [of "i + 1" l1] l1(2,3) front by simp
qed

lemma sort_entries_correct:
  assumes "sortable n l"
  shows "\<exists>l'. sort_entries (word_of_nat n) l = Some l' \<and> sortable n l' \<and> unsorted l' = unsorted l \<and> in_order n l'"
proof (cases "n > 1")
  case True
  then show ?thesis
    using sort_outer_correct [OF assms, of 0] assms
    by (simp add: sort_entries_def sortable_def word_less_nat_alt)
next
  case False
  then have n: "n = 0 \<or> n = 1" by auto
  then have "in_order n l" by (cases l) (auto simp: in_order_def sort_indexes_def)
  then show ?thesis using assms n by (auto simp: sort_entries_def)
qed


subsection \<open>The filter\<close>

text \<open>
  The extension of a name: what follows the first dot of its last four characters. A name in an entry is
  padded with nulls.
\<close>

definition file_ext :: "byte list \<Rightarrow> byte list" where
  "file_ext s = drop 1 (dropWhile (\<lambda>c. c \<noteq> full_stop) (drop (length s - 4) s))"

definition ext_of :: "byte list \<Rightarrow> byte list" where
  "ext_of x = take 3 (if x \<noteq> [] \<and> hd x = full_stop then tl x else x)"

definition padded_name :: "byte list \<Rightarrow> bool" where
  "padded_name name \<longleftrightarrow> length name = SC_FILENAME_MAXLEN \<and> 0 \<in> set name
     \<and> name = cstring name @ replicate (SC_FILENAME_MAXLEN - length (cstring name)) 0"

lemma skip_dot_eq:
  assumes "drop p str = t @ replicate m 0" "length t \<le> k" "k < length t + m" "0 \<notin> set t"
  shows "\<exists>q m'. skip_dot k str p = Some q \<and> drop q str = drop 1 (dropWhile (\<lambda>c. c \<noteq> full_stop) t) @ replicate m' 0 \<and> 0 < m'"
  using assms
proof (induction k arbitrary: p t m)
  case 0
  then show ?case by auto
next
  case (Suc k)
  show ?case
  proof (cases t)
    case Nil
    then obtain m1 where m: "m = Suc m1" using Suc.prems(3) by (cases m) auto
    then have "drop p str = 0 # replicate m1 0" using Suc.prems(1) Nil by simp
    note d = drop_eq_Cons_D [OF this]
    obtain q m' where "skip_dot k str (Suc p) = Some q" "drop q str = replicate m' 0" "0 < m'"
      using Suc.IH [of "Suc p" "[]" m1] Suc.prems(3) Nil m d by auto
    then show ?thesis using Nil d by (auto simp: peek_def)
  next
    case (Cons c t')
    then have "drop p str = c # t' @ replicate m 0" using Suc.prems(1) by simp
    note d = drop_eq_Cons_D [OF this]
    show ?thesis
    proof (cases "c = full_stop")
      case True
      have "0 < m" using Suc.prems(2,3) by simp
      then show ?thesis using True d Cons by (auto simp: peek_def)
    next
      case False
      obtain q m' where "skip_dot k str (Suc p) = Some q"
          "drop q str = drop 1 (dropWhile (\<lambda>c. c \<noteq> full_stop) t') @ replicate m' 0" "0 < m'"
        using Suc.IH [of "Suc p" t' m] Suc.prems Cons d by auto
      then show ?thesis using False d Cons by (auto simp: peek_def)
    qed
  qed
qed

lemma copy_ext_eq:
  assumes "drop p str = u @ 0 # r" "0 \<notin> set u" "i + n \<le> length e"
  shows "copy_ext n str p i e = Some (mem_write i (map sc_toupper (take n u)) e)"
  using assms
proof (induction n arbitrary: p u i e)
  case (Suc n)
  show ?case
  proof (cases u)
    case Nil
    then show ?thesis using Suc.prems(1) by (auto simp: peek_def dest: drop_eq_Cons_D)
  next
    case (Cons c u')
    then have "drop p str = c # u' @ 0 # r" using Suc.prems(1) by simp
    note d = drop_eq_Cons_D [OF this]
    then show ?thesis
      using Suc.IH [of "Suc p" u' "Suc i" "e[i := sc_toupper c]"] Suc.prems Cons
      by (simp add: peek_def poke_def mem_write_Cons)
  qed
qed simp

lemma sc_toupper_null [simp]: "sc_toupper c = 0 \<longleftrightarrow> c = 0"
proof
  assume z: "sc_toupper c = 0"
  show "c = 0"
  proof (cases "0x61 \<le> c \<and> c \<le> 0x7A")
    case True
    then have "c - 0x61 + 0x41 = 0" using z by (simp add: sc_toupper_def)
    then have "(c - 0x61 + 0x41) + 0x20 = 0x20" by (simp only: add_0_left)
    then have "c = 0x20" by simp
    then show ?thesis using True by simp
  next
    case False
    then show ?thesis using z by (auto simp: sc_toupper_def split: if_splits)
  qed
qed (simp add: sc_toupper_def)


lemma ext_eq:
  fixes a b :: "byte list"
  assumes "length a \<le> 3" "length b \<le> 3" "0 \<notin> set a" "0 \<notin> set b"
  shows "(let p = mem_write 0 a (replicate 4 0); q = mem_write 0 b (replicate 4 0)
    in p ! 0 = q ! 0 \<and> p ! 1 = q ! 1 \<and> p ! 2 = q ! 2) \<longleftrightarrow> a = b"
proof -
  have short: "x = [] \<or> (\<exists>c. x = [c]) \<or> (\<exists>c d. x = [c, d]) \<or> (\<exists>c d e. x = [c, d, e])" if "length x \<le> 3" for x :: "byte list"
    using that by (cases x; cases "tl x"; cases "tl (tl x)") auto
  show ?thesis
    using short [OF assms(1)] short [OF assms(2)] assms(3,4)
    by (elim disjE exE) (simp_all add: mem_write_def numeral_eq_Suc)
qed

lemma file_ext_props: "0 \<notin> set s \<Longrightarrow> 0 \<notin> set (file_ext s)" "length (file_ext s) \<le> 3"
proof -
  show "0 \<notin> set (file_ext s)" if "0 \<notin> set s"
    using that set_drop_subset [of 1] set_dropWhileD in_set_dropD unfolding file_ext_def by metis
  have "length (dropWhile (\<lambda>c. c \<noteq> full_stop) (drop (length s - 4) s)) \<le> length (drop (length s - 4) s)"
    by (rule length_dropWhile_le)
  then show "length (file_ext s) \<le> 3" by (simp add: file_ext_def)
qed

text \<open>A dot in front of the extension asked for, and what follows its third character, are ignored.\<close>

lemma scf_compare_extension_eq:
  assumes "padded_name name" "ext = x @ 0 # r" "0 \<notin> set x"
  shows "scf_compare_extension name ext
    = Some (map sc_toupper (file_ext (cstring name)) = map sc_toupper (ext_of x))"
proof -
  let ?s = "cstring name"
  let ?n = "length ?s"
  define m where "m = SC_FILENAME_MAXLEN - ?n"
  have name: "name = ?s @ replicate m 0" "length name = SC_FILENAME_MAXLEN" "0 \<in> set name"
    using assms(1) by (auto simp: padded_name_def m_def)
  have "?n \<noteq> SC_FILENAME_MAXLEN"
  proof
    assume "?n = SC_FILENAME_MAXLEN"
    then have "name = ?s" using name(1) by (simp add: m_def)
    then show False using name(3) cstring_no_null by metis
  qed
  moreover have "?n \<le> SC_FILENAME_MAXLEN" using name(2) length_takeWhile_le [of _ name] by (simp add: cstring_def)
  ultimately have n: "?n < SC_FILENAME_MAXLEN" by simp
  have len: "str_len name = Some ?n" using name(3) by (simp add: str_len_def)
  define t where "t = drop (?n - 4) ?s"
  have d: "drop (?n - 4) name = t @ replicate m 0" by (subst name(1)) (simp add: t_def)
  have p: "(if ?n > 4 then ?n - 4 else 0) = ?n - 4" by simp
  have t: "length t \<le> 4" "4 < length t + m" "0 \<notin> set t"
    using n cstring_no_null [of name] by (auto simp: t_def m_def dest: in_set_dropD)
  obtain q m' where q: "skip_dot 4 name (?n - 4) = Some q" "drop q name = file_ext ?s @ replicate m' 0" "0 < m'"
    using skip_dot_eq [OF d t] by (auto simp: file_ext_def t_def)
  then obtain m1 where "m' = Suc m1" by (cases m') auto
  then have q2: "drop q name = file_ext ?s @ 0 # replicate m1 0" using q(2) by simp
  have e1: "copy_ext 3 name q 0 (replicate 4 0) = Some (mem_write 0 (map sc_toupper (file_ext ?s)) (replicate 4 0))"
    using copy_ext_eq [OF q2 file_ext_props(1) [OF cstring_no_null], of 0 3 "replicate 4 0"] file_ext_props(2) [of ?s] by simp
  obtain c where c: "peek ext 0 = Some c" "c = full_stop \<longleftrightarrow> x \<noteq> [] \<and> hd x = full_stop"
    using assms(2) by (cases x) (auto simp: peek_def)
  define u where "u = (if x \<noteq> [] \<and> hd x = full_stop then tl x else x)"
  have u: "drop (if c = full_stop then 1 else 0) ext = u @ 0 # r" "0 \<notin> set u"
    using assms(2,3) c(2) by (cases x; auto simp: u_def)+
  have e2: "copy_ext 3 ext (if c = full_stop then 1 else 0) 0 (replicate 4 0)
      = Some (mem_write 0 (map sc_toupper (ext_of x)) (replicate 4 0))"
    using copy_ext_eq [OF u, of 0 3 "replicate 4 0"] by (simp add: ext_of_def u_def)
  have z: "0 \<notin> set (map sc_toupper (file_ext ?s))" "0 \<notin> set (map sc_toupper (ext_of x))"
      "length (map sc_toupper (file_ext ?s)) \<le> 3" "length (map sc_toupper (ext_of x)) \<le> 3"
    using file_ext_props [of ?s] u(2) by (auto simp: ext_of_def u_def dest: in_set_takeD)
  show ?thesis
    unfolding scf_compare_extension_def len Option.bind_lunit p q(1) e1 c(1) e2
    using ext_eq [OF z(3,4,1,2)] by (simp add: Let_def)
qed


text \<open>The filter: extensions of at most four characters, with or without their dot, between commas.\<close>

fun filter_bytes :: "byte list list \<Rightarrow> byte list" where
  "filter_bytes [] = []"
| "filter_bytes [x] = x @ [0]"
| "filter_bytes (x # xs) = x @ comma # filter_bytes xs"

definition ext_ok :: "byte list \<Rightarrow> bool" where
  "ext_ok x \<longleftrightarrow> x \<noteq> [] \<and> length x \<le> 4 \<and> comma \<notin> set x \<and> 0 \<notin> set x"

definition accepts :: "byte list \<Rightarrow> scdf_file_entry \<Rightarrow> bool" where
  "accepts x e \<longleftrightarrow> map sc_toupper (file_ext (cstring (fe_filename e))) = map sc_toupper (ext_of x)"

definition mark_if :: "(scdf_file_entry \<Rightarrow> bool) \<Rightarrow> scdf_file_entry \<Rightarrow> scdf_file_entry" where
  "mark_if P e = (if P e then e\<lparr>fe_flags := fe_flags e OR FLAG_FILTERED\<rparr> else e)"

definition keep_if :: "(scdf_file_entry \<Rightarrow> bool) \<Rightarrow> scdf_file_entry \<Rightarrow> scdf_file_entry" where
  "keep_if P e = (if P e then e else e\<lparr>fe_flags := fe_flags e AND NOT FLAG_ENABLED\<rparr>)"

abbreviation is_folder :: "scdf_file_entry \<Rightarrow> bool" where
  "is_folder e \<equiv> fe_flags e AND FLAG_FOLDER \<noteq> 0"

definition selected :: "byte list list \<Rightarrow> scdf_file_entry \<Rightarrow> bool" where
  "selected exts e \<longleftrightarrow> is_folder e \<or> (\<exists>x\<in>set exts. accepts x e)"

lemma flag_bits:
  fixes a b :: byte
  shows "(a OR b) AND b = b" "a AND b = 0 \<Longrightarrow> (a OR b) AND NOT b = a" "a AND b = 0 \<Longrightarrow> a AND NOT b = a"
    "a AND b = 0 \<Longrightarrow> (a AND c) AND b = 0"
  by (auto simp: bit_eq_iff bit_simps)

lemma mark_if_props [simp]:
  "fe_filename (mark_if P e) = fe_filename e" "accepts x (mark_if P e) = accepts x e"
  by (simp_all add: mark_if_def accepts_def)

text \<open>An entry that the first half of the listing has left, before any mark.\<close>

definition listed_ok :: "scdf_file_entry \<Rightarrow> bool" where
  "listed_ok e \<longleftrightarrow> fe_flags e AND FLAG_FILTERED = 0 \<and> (is_folder e \<or> padded_name (fe_filename e))"

lemma filter_mark_step:
  assumes "\<forall>e\<in>set l. listed_ok e" "ext = x @ 0 # r" "0 \<notin> set x" "\<forall>e. is_folder e \<longrightarrow> P e"
  shows "filter_mark ext (map (mark_if P) l) = Some (map (mark_if (\<lambda>e. P e \<or> accepts x e)) l)"
  using assms(1)
proof (induction l)
  case (Cons e l)
  then have ok: "listed_ok e" by simp
  have "fe_flags e AND FLAG_FILTERED = 0" using ok by (simp add: listed_ok_def)
  moreover have "padded_name (fe_filename e)" if "\<not> P e" using ok assms(4) that by (auto simp: listed_ok_def)
  ultimately show ?case
    using Cons scf_compare_extension_eq [OF _ assms(2,3), of "fe_filename e"]
    by (auto simp: mark_if_def accepts_def flag_bits)
qed simp

text \<open>Reading one extension stops before the comma, or at the null.\<close>

lemma filter_ext_eq:
  assumes "drop i f = x @ c # r" "c = comma \<or> c = 0" "x \<noteq> []" "comma \<notin> set x" "0 \<notin> set x" "length x \<le> n" "j + n \<le> length ext"
  shows "filter_ext n f i j ext = Some (if c = comma then i + length x - 1 else i + length x, mem_write j x ext)"
  using assms
proof (induction n f i j ext arbitrary: x rule: filter_ext.induct)
  case (2 n f i j ext)
  then obtain y x' where x: "x = y # x'" by (cases x) auto
  then have d: "i < length f" "f ! i = y" "drop (Suc i) f = x' @ c # r"
    using 2(2) by (auto dest: drop_eq_Cons_D)
  have y: "y \<noteq> 0" using 2(6) x by auto
  have w: "mem_write j x ext = mem_write (j + 1) x' (ext[j := y])" using 2(7,8) x by (simp add: mem_write_Cons)
  show ?case
  proof (cases x')
    case Nil
    have s: "Suc i < length f" "f ! Suc i = c" using d(3) Nil by (auto dest: drop_eq_Cons_D)
    have "filter_ext n f (Suc i) (Suc j) (ext[j := y]) = Some (Suc i, ext[j := y])" if "c = 0"
      using s that by (cases n) (simp_all add: peek_def)
    then show ?thesis using d s y x Nil w 2(3,7,8) by (auto simp: peek_def poke_def)
  next
    case (Cons z x'')
    have s: "Suc i < length f" "f ! Suc i = z" "z \<noteq> comma" using d(3) Cons x 2(5) by (auto dest: drop_eq_Cons_D)
    have "filter_ext n f (Suc i) (Suc j) (ext[j := y])
        = Some (if c = comma then Suc i + length x' - 1 else Suc i + length x', mem_write (Suc j) x' (ext[j := y]))"
      using 2(1) [of y "ext[j := y]" z x'] 2(3-8) d s y x Cons by (simp add: poke_def)
    then show ?thesis using d s y x w 2(7,8) by (auto simp: peek_def poke_def)
  qed
qed simp


lemma filter_bytes_Cons:
  "filter_bytes (x # xs) = x @ (if xs = [] then 0 else comma) # (if xs = [] then [] else filter_bytes xs)"
  by (cases xs) simp_all

lemma filter_loop_eq:
  assumes "\<forall>e\<in>set l. listed_ok e" "\<forall>x\<in>set xs. ext_ok x" "xs \<noteq> []" "\<forall>e. is_folder e \<longrightarrow> P e"
    and "p = (if first then 0 else i + 1)" "first \<longrightarrow> i = 0" "\<not> first \<longrightarrow> i < length f \<and> f ! i = comma"
    and "drop p f = filter_bytes xs @ r" "n = p + length (filter_bytes xs) - 1"
  shows "filter_loop f n i (map (mark_if P) l) = Some (map (mark_if (\<lambda>e. P e \<or> (\<exists>x\<in>set xs. accepts x e))) l)"
  using assms(2-)
proof (induction xs arbitrary: i p first P)
  case (Cons x xs)
  let ?c = "if xs = [] then 0 else comma"
  have x: "ext_ok x" "x \<noteq> []" using Cons.prems(1) by (auto simp: ext_ok_def)
  have d: "drop p f = x @ ?c # (if xs = [] then [] else filter_bytes xs) @ r"
    using Cons.prems(7) unfolding filter_bytes_Cons by simp
  have n: "n = p + length x + (if xs = [] then 0 else length (filter_bytes xs))"
    unfolding Cons.prems(8) filter_bytes_Cons by simp
  have start: "(if f ! i = comma then i + 1 else i) = p" "i = 0 \<or> f ! i = comma \<or> f ! i = 0"
  proof -
    have "f ! 0 \<noteq> comma" if first
    proof -
      obtain y x' where "x = y # x'" using x(2) by (cases x) auto
      then show ?thesis using d that Cons.prems(4) x(1) by (auto simp: ext_ok_def dest: drop_eq_Cons_D)
    qed
    then show "(if f ! i = comma then i + 1 else i) = p" "i = 0 \<or> f ! i = comma \<or> f ! i = 0"
      using Cons.prems(4,5,6) by auto
  qed
  have lt: "i < n" using n x(2) Cons.prems(4,5) by (cases x) (auto split: if_splits)
  define w where "w = mem_write 0 x (replicate 5 (0 :: byte))"
  have w: "w = x @ 0 # replicate (4 - length x) 0"
    using x(1) by (simp add: w_def mem_write_def ext_ok_def flip: replicate_Suc) (auto simp: ext_ok_def)
  have ext: "filter_ext 4 f p 0 (replicate 5 0) = Some (if ?c = comma then p + length x - 1 else p + length x, w)"
    using filter_ext_eq [OF d] x(1) by (simp add: ext_ok_def w_def)
  let ?Q = "\<lambda>e. P e \<or> accepts x e"
  have mark: "filter_mark w (map (mark_if P) l) = Some (map (mark_if ?Q) l)"
    using filter_mark_step [OF assms(1) w _ Cons.prems(3)] x(1) by (simp add: ext_ok_def)
  have step: "filter_loop f n i (map (mark_if P) l)
      = filter_loop f n ((if ?c = comma then p + length x - 1 else p + length x) + 1) (map (mark_if ?Q) l)"
    using lt start ext mark by (subst filter_loop.simps) (simp only: if_True option.case prod.case Option.bind_lunit)
  show ?case
  proof (cases "xs = []")
    case True
    then show ?thesis unfolding step using n by (subst filter_loop.simps) simp
  next
    case False
    have "drop (p + length x) f = comma # filter_bytes xs @ r"
      using drop_eq_append_D(3) [OF d] False by simp
    note at = drop_eq_Cons_D [OF this]
    have "filter_loop f n (p + length x) (map (mark_if ?Q) l)
        = Some (map (mark_if (\<lambda>e. ?Q e \<or> (\<exists>x\<in>set xs. accepts x e))) l)"
      using Cons.IH [where i = "p + length x" and p = "p + length x + 1" and first = False and P = ?Q]
        Cons.prems(1,3) False at n by simp
    then show ?thesis
      unfolding step using False x(2) by (simp add: disj_assoc)
  qed
qed simp

lemma fe_upd:
  "fe_flags (e\<lparr>fe_flags := a\<rparr>) = a" "e\<lparr>fe_flags := a\<rparr>\<lparr>fe_flags := b\<rparr> = e\<lparr>fe_flags := b\<rparr>"
  by simp_all

lemma mark_cycle:
  fixes fl l en :: byte
  assumes "l \<noteq> 0" "fl AND l = 0"
  shows "(if (fl OR l) AND l = 0 then (fl OR l) AND NOT en else fl OR l) AND NOT l = fl"
    "(if fl AND l = 0 then fl AND NOT en else fl) AND NOT l = fl AND NOT en"
  using assms flag_bits(1) [of fl l] flag_bits(2,3) [OF assms(2)] flag_bits(3) [OF flag_bits(4) [OF assms(2)]]
  by simp_all

lemma apply_mark_mark_if:
  assumes "fe_flags e AND FLAG_FILTERED = 0"
  shows "apply_mark (mark_if Q e) = keep_if Q e"
proof -
  have nz: "(FLAG_FILTERED :: byte) \<noteq> 0" by simp
  note cyc = mark_cycle [OF nz assms, of FLAG_ENABLED]
  show ?thesis
  proof (cases "Q e")
    case True
    have "apply_mark (mark_if Q e) = e\<lparr>fe_flags := fe_flags e\<rparr>"
      using True unfolding apply_mark_def mark_if_def Let_def
      by (simp only: if_True fe_upd cyc(1))
    then show ?thesis using True by (simp add: keep_if_def)
  next
    case False
    then show ?thesis unfolding apply_mark_def mark_if_def keep_if_def Let_def by (simp only: if_False cyc(2))
  qed
qed

text \<open>The filter keeps the folders and the files with one of its extensions, and changes nothing else.\<close>

lemma filter_entries_eq:
  assumes "\<forall>e\<in>set (take items l). listed_ok e" "\<forall>x\<in>set exts. ext_ok x" "exts \<noteq> []"
  shows "filter_entries (filter_bytes exts) items l
    = Some (map (keep_if (selected exts)) (take items l) @ drop items l)"
proof -
  let ?f = "filter_bytes exts"
  have "\<exists>s. ?f = s @ [0] \<and> 0 \<notin> set s"
    using assms(2,3) by (induction exts rule: filter_bytes.induct) (auto simp: ext_ok_def)
  then obtain s where s: "?f = s @ [0]" "0 \<notin> set s" by blast
  have len: "str_len ?f = Some (length s)" using s by (simp add: str_len_def)
  have m: "map mark_folder (take items l) = map (mark_if is_folder) (take items l)"
    by (simp add: mark_folder_def mark_if_def)
  have sel: "(\<lambda>e. is_folder e \<or> (\<exists>x\<in>set exts. accepts x e)) = selected exts"
    by (rule ext) (simp only: selected_def)
  have n: "length s = 0 + length ?f - 1" using s by simp
  have loop: "filter_loop ?f (length s) 0 (map (mark_if is_folder) (take items l))
      = Some (map (mark_if (selected exts)) (take items l))"
    using filter_loop_eq [OF assms(1,2,3), where P = is_folder and first = True and i = 0 and p = 0 and f = ?f and r = "[]", OF _ _ _ _ _ n]
    unfolding sel by simp
  have "apply_mark (mark_if Q e) = keep_if Q e" if "listed_ok e" for Q e
    using that by (intro apply_mark_mark_if) (simp add: listed_ok_def)
  then have "map apply_mark (map (mark_if (selected exts)) (take items l)) = map (keep_if (selected exts)) (take items l)"
    using assms(1) by simp
  then show ?thesis unfolding filter_entries_def len Option.bind_lunit m loop by simp
qed


subsection \<open>The arranged listing\<close>

definition kept :: "byte list list option \<Rightarrow> scdf_file_entry \<Rightarrow> scdf_file_entry" where
  "kept exts e = (case exts of None \<Rightarrow> e | Some xs \<Rightarrow> keep_if (selected xs) e)"

definition exts_ok :: "byte list list option \<Rightarrow> bool" where
  "exts_ok exts \<longleftrightarrow> (\<forall>xs. exts = Some xs \<longrightarrow> xs \<noteq> [] \<and> (\<forall>x\<in>set xs. ext_ok x))"

lemma sanitize_flags:
  "fe_flags (sanitize_entry e) = fe_flags e \<or> fe_flags (sanitize_entry e) = fe_flags e AND NOT FLAG_ENABLED
    \<or> fe_flags (sanitize_entry e) = (fe_flags e AND NOT FLAG_ENABLED) AND NOT FLAG_ENABLED"
  by (simp add: sanitize_entry_def Let_def)

lemma not_enabled_folder: "(fl AND NOT FLAG_ENABLED) AND FLAG_FOLDER = fl AND FLAG_FOLDER" for fl :: byte
proof -
  have "NOT FLAG_ENABLED AND FLAG_FOLDER = (FLAG_FOLDER :: byte)" by simp
  then show ?thesis by (simp only: and.assoc)
qed

lemma sanitize_props:
  assumes "listed_ok e" "length (fe_filename e) = SC_FILENAME_MAXLEN"
  shows "listed_ok (sanitize_entry e)" "length (fe_filename (sanitize_entry e)) = SC_FILENAME_MAXLEN"
proof -
  show "length (fe_filename (sanitize_entry e)) = SC_FILENAME_MAXLEN"
    using assms(2) by (simp add: sanitize_entry_def Let_def)
  have z: "fe_flags e AND FLAG_FILTERED = 0" using assms(1) by (simp add: listed_ok_def)
  have "fe_flags (sanitize_entry e) AND FLAG_FILTERED = 0"
    using sanitize_flags [of e]
    by (elim disjE) (simp_all only: z flag_bits(4) [OF z] flag_bits(4) [OF flag_bits(4) [OF z]])
  moreover have "is_folder (sanitize_entry e) = is_folder e"
    using sanitize_flags [of e] by (elim disjE) (simp_all only: not_enabled_folder)
  moreover have "sanitize_entry e = e" if "\<not> is_folder e" using that by (simp add: sanitize_entry_def)
  ultimately show "listed_ok (sanitize_entry e)" using assms(1) by (auto simp: listed_ok_def)
qed

lemma reset_index_props:
  "length (reset_index l) = length l" "unsorted (reset_index l) = unsorted l"
  "n \<le> length l \<Longrightarrow> n < 2 ^ 16 \<Longrightarrow> sort_indexes n (reset_index l) = [0..<n]"
  "k < length l \<Longrightarrow> fe_filename (reset_index l ! k) = fe_filename (l ! k)"
  by (auto simp: reset_index_def unsorted_def sort_indexes_def take_map intro!: nth_equalityI)

lemma keep_if_props [simp]:
  "fe_filename (keep_if P e) = fe_filename e" "fe_sort_index (keep_if P e) = fe_sort_index e"
  by (simp_all add: keep_if_def)

lemma kept_props [simp]:
  "fe_filename (kept exts e) = fe_filename e" "fe_sort_index (kept exts e) = fe_sort_index e"
  by (simp_all add: kept_def split: option.split)

lemma kept_None [simp]: "kept None = (\<lambda>e. e)"
  by (rule ext) (simp add: kept_def)

lemma kept_index: "(kept exts (e\<lparr>fe_sort_index := k\<rparr>))\<lparr>fe_sort_index := 0\<rparr> = (kept exts e)\<lparr>fe_sort_index := 0\<rparr>"
  by (simp add: kept_def keep_if_def selected_def accepts_def split: option.split)

lemma unsorted_kept:
  assumes "unsorted l' = unsorted l"
  shows "unsorted (map (kept exts) l') = unsorted (map (kept exts) l)"
proof -
  have "unsorted (map (kept exts) x) = map (\<lambda>e. (kept exts e)\<lparr>fe_sort_index := 0\<rparr>) (unsorted x)" for x
    using kept_index [where exts = exts and k = 0] by (simp add: unsorted_def)
  then show ?thesis using assms by simp
qed

lemma unsorted_append [simp]: "unsorted (a @ b) = unsorted a @ unsorted b"
  by (simp add: unsorted_def)

lemma unsorted_take: "unsorted (take n l) = take n (unsorted l)" "unsorted (drop n l) = drop n (unsorted l)"
  by (simp_all add: unsorted_def take_map drop_map)

text \<open>What \<open>arrange_entries\<close> makes of the \<open>n\<close> listed entries and of the unused ones behind them.\<close>

definition arranged :: "nat \<Rightarrow> byte list list option \<Rightarrow> scdf_file_entry list \<Rightarrow> scdf_file_entry list" where
  "arranged n exts l = map (\<lambda>e. kept exts (sanitize_entry e)) (take n l) @ map sanitize_entry (drop n l)"

lemma arrange_entries_correct:
  assumes "length used = unat list_count" "n = unat (min retval list_count)" "n < 2 ^ 16"
    and "\<forall>e\<in>set used. listed_ok e \<and> length (fe_filename e) = SC_FILENAME_MAXLEN" "exts_ok exts"
  shows "\<exists>l'. arrange_entries retval list_count list_sort (map_option filter_bytes exts) (used @ rest) = Some (l' @ rest)
    \<and> unsorted l' = unsorted (arranged n exts used) \<and> sortable n l'
    \<and> (if list_sort = 0 then sort_indexes n l' = [0..<n] else in_order n l')"
proof -
  define items where "items = (if retval > list_count then list_count else retval)"
  have items: "unat items = n" "items = word_of_nat n"
    using assms(2) by (auto simp: items_def min_def not_le not_less word_less_nat_alt word_le_nat_alt)
  have n: "n \<le> length used" using assms(1,2) by (simp add: word_le_nat_alt [symmetric])
  define l0 where "l0 = reset_index (map sanitize_entry used)"
  have len: "length l0 = length used" by (simp add: l0_def reset_index_props)
  have ok: "listed_ok (l0 ! k) \<and> length (fe_filename (l0 ! k)) = SC_FILENAME_MAXLEN" if "k < length used" for k
  proof -
    have "listed_ok (sanitize_entry (used ! k))" "length (fe_filename (sanitize_entry (used ! k))) = SC_FILENAME_MAXLEN"
      using assms(4) that sanitize_props by auto
    then show ?thesis using that by (simp add: l0_def reset_index_def listed_ok_def)
  qed
  define l1 where "l1 = map (kept exts) (take n l0) @ drop n l0"
  have c: "(case map_option filter_bytes exts of None \<Rightarrow> Some l0 | Some f \<Rightarrow> filter_entries f n l0) = Some l1"
  proof (cases exts)
    case None
    then show ?thesis by (simp add: l1_def)
  next
    case (Some xs)
    have "\<forall>e\<in>set (take n l0). listed_ok e" using ok len by (auto simp: in_set_conv_nth)
    then show ?thesis
      using filter_entries_eq [of n l0 xs] assms(5) Some by (simp add: l1_def kept_def exts_ok_def)
  qed
  have tk: "take (unat list_count) (used @ rest) = used" "drop (unat list_count) (used @ rest) = rest"
      "\<not> length (used @ rest) < unat list_count" using assms(1) by simp_all
  have arr: "arrange_entries retval list_count list_sort (map_option filter_bytes exts) (used @ rest)
      = do { u \<leftarrow> (if list_sort \<noteq> 0 then sort_entries items l1 else Some l1); Some (u @ rest) }"
    unfolding arrange_entries_def items_def [symmetric] Let_def tk(1,2) items(1) l0_def [symmetric] c Option.bind_lunit
    using tk(3) by simp
  have u0: "unsorted l0 = unsorted (map sanitize_entry used)" by (simp add: l0_def reset_index_props)
  have "unsorted (take n l0) = unsorted (map sanitize_entry (take n used))"
    using u0 by (simp only: unsorted_take flip: take_map)
  moreover have "unsorted (drop n l0) = unsorted (map sanitize_entry (drop n used))"
    using u0 by (simp only: unsorted_take flip: drop_map)
  ultimately have u1: "unsorted l1 = unsorted (arranged n exts used)"
    using unsorted_kept by (fastforce simp: l1_def arranged_def comp_def)
  have idx: "sort_indexes n l1 = [0..<n]"
    using reset_index_props(3) [of n "map sanitize_entry used"] n assms(3) len
    by (simp add: l1_def l0_def [symmetric] sort_indexes_def take_map comp_def)
  have "\<forall>e\<in>set l1. length (fe_filename e) = SC_FILENAME_MAXLEN"
    using ok len by (auto simp: l1_def in_set_conv_nth)
  then have s1: "sortable n l1"
    using n assms(3) len idx by (auto simp: sortable_def l1_def)
  show ?thesis
  proof (cases "list_sort = 0")
    case True
    then show ?thesis using arr u1 s1 idx by simp
  next
    case False
    then show ?thesis using arr u1 sort_entries_correct [OF s1] items(2) by auto
  qed
qed


subsection \<open>What the name routines return\<close>

abbreviation to_slash :: "byte \<Rightarrow> byte" where
  "to_slash c \<equiv> (if c = backslash then slash else c)"

lemma bufferize_loop_eq:
  assumes "drop i filename = s @ 0 # r" "0 \<notin> set s" "i \<le> SC_PATHNAME_MAXLEN" "length buff = SC_PATHNAME_MAXLEN"
  shows "bufferize_loop filename i buff
    = Some (mem_write i (map to_slash (take (SC_PATHNAME_MAXLEN - i) (s @ [0]))) buff)"
  using assms
proof (induction s arbitrary: i buff)
  case Nil
  show ?case
  proof (cases "i < SC_PATHNAME_MAXLEN")
    case True
    then have t: "take (SC_PATHNAME_MAXLEN - i) ([] @ [0]) = [0 :: byte]" by (cases "SC_PATHNAME_MAXLEN - i") simp_all
    have "drop i filename = 0 # r" using Nil(1) by simp
    note d = drop_eq_Cons_D [OF this]
    show ?thesis unfolding t using True Nil d by (subst bufferize_loop.simps) (simp add: mem_write_Cons)
  qed (subst bufferize_loop.simps; simp)
next
  case (Cons c s)
  have "drop i filename = c # s @ 0 # r" using Cons.prems(1) by simp
  note d = drop_eq_Cons_D [OF this]
  show ?case
  proof (cases "i < SC_PATHNAME_MAXLEN")
    case True
    then have t: "take (SC_PATHNAME_MAXLEN - i) ((c # s) @ [0]) = c # take (SC_PATHNAME_MAXLEN - (i + 1)) (s @ [0])"
      using Suc_diff_Suc [OF True] by (simp flip: Suc_diff_Suc [OF True])
    have "bufferize_loop filename i buff = bufferize_loop filename (i + 1) (buff[i := to_slash c])"
      using True Cons.prems d by (subst bufferize_loop.simps) simp
    then show ?thesis
      unfolding t using Cons.IH [of "i + 1" "buff[i := to_slash c]"] Cons.prems True d(3) by (simp add: mem_write_Cons)
  qed (subst bufferize_loop.simps; simp)
qed

text \<open>The buffered name: slashes for backslashes, cut to 95 characters.\<close>

lemma scf_filename_bufferize_eq:
  assumes "filename = s @ 0 # r" "0 \<notin> set s"
  shows "\<exists>buff. scf_filename_bufferize filename = Some buff \<and> length buff = SC_PATHNAME_MAXLEN
    \<and> cstring buff = map to_slash (take (SC_PATHNAME_MAXLEN - 1) s)"
proof -
  let ?b = "mem_write 0 (map to_slash (take SC_PATHNAME_MAXLEN (s @ [0]))) (replicate SC_PATHNAME_MAXLEN 0)"
  have l: "length ?b = SC_PATHNAME_MAXLEN" by (subst length_mem_write) simp_all
  have f: "scf_filename_bufferize filename = Some (?b[SC_PATHNAME_MAXLEN - 1 := 0])"
    unfolding scf_filename_bufferize_def
    using bufferize_loop_eq [of 0 filename s r "replicate SC_PATHNAME_MAXLEN 0"] assms l by simp
  have z: "0 \<notin> set (map to_slash (take k s))" for k
    using assms(2) by (auto dest: in_set_takeD)
  have "\<exists>r'. ?b[SC_PATHNAME_MAXLEN - 1 := 0] = map to_slash (take (SC_PATHNAME_MAXLEN - 1) s) @ 0 # r'"
  proof (cases "length s < SC_PATHNAME_MAXLEN")
    case True
    then have "take SC_PATHNAME_MAXLEN (s @ [0]) = s @ [0]" "take (SC_PATHNAME_MAXLEN - 1) s = s" by simp_all
    then have b: "?b = map to_slash s @ 0 # replicate (SC_PATHNAME_MAXLEN - 1 - length s) 0"
      using True by (simp add: mem_write_def)
    show ?thesis
    proof (cases "length s = SC_PATHNAME_MAXLEN - 1")
      case True
      then show ?thesis unfolding b by (simp add: list_update_append)
    next
      case False
      then show ?thesis unfolding b using \<open>take (SC_PATHNAME_MAXLEN - 1) s = s\<close> \<open>length s < SC_PATHNAME_MAXLEN\<close>
        by (auto simp: list_update_append split: nat.split)
    qed
  next
    case False
    then have b: "?b = map to_slash (take SC_PATHNAME_MAXLEN s)" by (simp add: mem_write_def)
    have "take SC_PATHNAME_MAXLEN s = take (SC_PATHNAME_MAXLEN - 1) s @ [s ! (SC_PATHNAME_MAXLEN - 1)]"
      using False take_Suc_conv_app_nth [of "SC_PATHNAME_MAXLEN - 1" s] by simp
    then show ?thesis unfolding b using False by (simp add: list_update_append)
  qed
  then obtain r' where "?b[SC_PATHNAME_MAXLEN - 1 := 0] = map to_slash (take (SC_PATHNAME_MAXLEN - 1) s) @ 0 # r'" by blast
  then have "cstring (?b[SC_PATHNAME_MAXLEN - 1 := 0]) = map to_slash (take (SC_PATHNAME_MAXLEN - 1) s)"
    using cstring_append_null [OF z] by simp
  then show ?thesis using f l by (intro exI conjI) simp_all
qed

text \<open>The file name in a path is what follows the last separator that is not the last character.\<close>

abbreviation is_sep :: "byte \<Rightarrow> bool" where
  "is_sep c \<equiv> c = slash \<or> c = backslash"

lemma get_filename_loop_none:
  "\<forall>k. i \<le> k \<and> int k < n - 1 \<longrightarrow> \<not> is_sep (path ! k) \<Longrightarrow> get_filename_loop path n i ret = ret"
proof (induction path n i ret rule: get_filename_loop.induct)
  case (1 path n i ret)
  then show ?case by (subst get_filename_loop.simps) auto
qed

lemma get_filename_loop_last:
  assumes "i \<le> k" "int k < n - 1" "is_sep (path ! k)" "\<forall>m. k < m \<and> int m < n - 1 \<longrightarrow> \<not> is_sep (path ! m)"
  shows "get_filename_loop path n i ret = k + 1"
  using assms
proof (induction path n i ret rule: get_filename_loop.induct)
  case (1 path n i ret)
  show ?case
  proof (cases "i = k")
    case True
    then show ?thesis using 1(3-5) get_filename_loop_none [of "i + 1" n path "i + 1"]
      by (subst get_filename_loop.simps) auto
  next
    case False
    then show ?thesis using 1 by (subst get_filename_loop.simps) auto
  qed
qed

lemma scf_get_filename_eq:
  assumes "path = s @ 0 # r" "0 \<notin> set s"
  shows "\<forall>c\<in>set (butlast s). \<not> is_sep c \<Longrightarrow> scf_get_filename path = Some 0"
    "s = d @ c # name \<Longrightarrow> is_sep c \<Longrightarrow> name \<noteq> [] \<Longrightarrow> \<forall>x\<in>set (butlast name). \<not> is_sep x
      \<Longrightarrow> scf_get_filename path = Some (length d + 1)"
proof -
  have len: "str_len path = Some (length s)" using assms by (simp add: str_len_def)
  have at: "path ! k = butlast s ! k" if "int k < int (length s) - 1" for k
    using that assms(1) by (simp add: nth_append nth_butlast)
  show "scf_get_filename path = Some 0" if "\<forall>c\<in>set (butlast s). \<not> is_sep c"
    unfolding scf_get_filename_def len using that at
    by (simp add: get_filename_loop_none all_set_conv_all_nth)
  show "scf_get_filename path = Some (length d + 1)"
    if "s = d @ c # name" "is_sep c" "name \<noteq> []" "\<forall>x\<in>set (butlast name). \<not> is_sep x"
  proof -
    have "\<not> is_sep (path ! m)" if "length d < m" "int m < int (length s) - 1" for m
    proof -
      have "path ! m = butlast name ! (m - length d - 1)" "m - length d - 1 < length (butlast name)"
        using that assms(1) \<open>s = d @ c # name\<close> by (auto simp: nth_append nth_Cons' nth_butlast)
      then show ?thesis using \<open>\<forall>x\<in>set (butlast name). \<not> is_sep x\<close> nth_mem by metis
    qed
    moreover have "path ! length d = c" "int (length d) < int (length s) - 1" using assms(1) that(1,3) by (auto simp: nth_append)
    ultimately have "get_filename_loop path (int (length s)) 0 0 = length d + 1"
      using that(2) by (intro get_filename_loop_last) auto
    then show ?thesis unfolding scf_get_filename_def len by simp
  qed
qed


text \<open>The parent of a path is what stands before the last separator that does not end it, with slashes; a
  path of one name has the empty path as its parent.\<close>

lemma parent_loop_at:
  assumes "path ! j = slash" "j < k" "\<forall>m. j < m \<and> m < k \<longrightarrow> path ! m \<noteq> slash"
  shows "parent_loop path k = path[j := 0]"
  using assms
proof (induction k)
  case (Suc k)
  show ?case
  proof (cases "j = k")
    case False
    then have "k \<noteq> 0" "path ! k \<noteq> slash" using Suc.prems by auto
    then show ?thesis using Suc False by simp
  qed (use Suc in simp)
qed simp

lemma parent_loop_none:
  assumes "\<forall>m<k. path ! m \<noteq> slash" "0 < k"
  shows "parent_loop path k = path[0 := 0]"
  using assms
proof (induction k)
  case (Suc k)
  then show ?case by (cases k) simp_all
qed simp

abbreviation sep_slash :: "byte \<Rightarrow> byte" where
  "sep_slash c \<equiv> (if is_sep c then slash else c)"

lemma scf_parent_path_eq:
  assumes "path = s @ 0 # r" "0 \<notin> set s" "map sep_slash s = d @ name @ (if trail then [slash] else [])"
    and "name \<noteq> []" "slash \<notin> set name" "d = [] \<or> last d = slash"
  shows "\<exists>p. scf_parent_path path = Some p \<and> length p = length path \<and> cstring p = butlast d"
proof -
  let ?n = "length d + length name"
  have len: "str_len path = Some (length s)" using assms by (simp add: str_len_def)
  have n: "length s = ?n + (if trail then 1 else 0)" using arg_cong [OF assms(3), of length] by simp
  have z: "0 \<notin> set (map sep_slash s)" using assms(2) by auto
  have conv: "mem_write 0 (map sep_slash (take (length s) path)) path = map sep_slash s @ 0 # r"
    using assms(1) by (simp add: mem_write_def)
  have ls: "last name \<noteq> slash" using assms(4,5) last_in_set by metis
  define r1 where "r1 = (if trail then 0 # 0 # r else 0 # r)"
  have p1: "(let path = map sep_slash s @ 0 # r
      in if length s \<noteq> 0 \<and> path ! (length s - 1) = slash then (length s - 1, path[length s - 1 := 0]) else (length s, path))
    = (?n, d @ name @ r1)"
  proof (cases trail)
    case True
    then show ?thesis using n assms(3) by (simp add: Let_def r1_def nth_append list_update_append)
  next
    case False
    have "(d @ name @ 0 # r) ! (?n - 1) = last name"
      using assms(4) by (cases name rule: rev_cases) (simp_all add: nth_append)
    then show ?thesis using False n assms(3,4) ls by (simp add: Let_def r1_def)
  qed
  have len1: "length (d @ name @ r1) = length path" using assms(1) n by (auto simp: r1_def)
  have r: "scf_parent_path path = Some (parent_loop (d @ name @ r1) ?n)"
    using p1 assms(4) unfolding scf_parent_path_def len Option.bind_lunit conv by (auto simp: Let_def)
  show ?thesis
  proof (cases "d = []")
    case True
    have "parent_loop (d @ name @ r1) ?n = (d @ name @ r1)[0 := 0]"
      using assms(4,5) True by (intro parent_loop_none) (auto simp: nth_append in_set_conv_nth)
    moreover have "cstring ((d @ name @ r1)[0 := 0]) = []"
      using True assms(4) by (cases name) (simp_all add: cstring_def)
    ultimately show ?thesis using r len1 True by simp
  next
    case False
    then obtain d' where d: "d = d' @ [slash]" using assms(6) by (metis append_butlast_last_id)
    have nz: "0 \<notin> set d'" using z assms(3) d by (metis Un_iff set_append)
    have "parent_loop (d @ name @ r1) ?n = (d @ name @ r1)[length d' := 0]"
    proof (intro parent_loop_at allI impI)
      fix m assume m: "length d' < m \<and> m < ?n"
      then have "(d @ name @ r1) ! m = name ! (m - length d)" "m - length d < length name"
        using d by (auto simp: nth_append)
      then show "(d @ name @ r1) ! m \<noteq> slash" using assms(5) nth_mem by metis
    qed (use d in \<open>simp_all add: nth_append\<close>)
    moreover have "(d @ name @ r1)[length d' := 0] = d' @ 0 # name @ r1" using d by simp
    ultimately show ?thesis using r len1 d nz by auto
  qed
qed

end
