(* ===== verification/ScdCircbuffer.thy ===== *)
theory ScdCircbuffer
  imports FtxPrelude
begin

section \<open>The debugger's circular buffer\<close>

text \<open>
  Models \<open>satcom_lib/debugger/scd_circbuffer.inc.c\<close> on the structure \<open>scd_data_t\<close> of
  \<open>debugger/scd_common.h\<close>, which the Saturn program and the PC share: the Saturn side writes
  messages (\<open>scd_cbwrite\<close>), the PC side takes everything that is there (\<open>scd_cbread\<close>, given in
  the source as the specification of what the PC does; it is compiled out on the Saturn).
  Pointer arithmetic is on 32-bit words as in the code; \<open>None\<close> is an access outside the
  \<open>rbuffer\<close> array or outside the caller's data.
\<close>

subsection \<open>State and operations\<close>

abbreviation SCD_STRUCT_SIZE :: nat where "SCD_STRUCT_SIZE \<equiv> 3072"
abbreviation SCD_PROMPT_SIZE :: nat where "SCD_PROMPT_SIZE \<equiv> 256"
abbreviation SCD_RBUFFER_SIZE :: nat where
  "SCD_RBUFFER_SIZE \<equiv> SCD_STRUCT_SIZE - SCD_PROMPT_SIZE - 32"

record scd_data =
  readptr :: u16
  writeptr :: u16
  dbg_on :: byte
  proc_complete :: byte
  dbg_disable :: byte
  cb_memuse :: byte
  fileio_size :: u32
  version :: "byte list"
  structsz :: u16
  dbg_logflush :: byte
  wh_on_log :: byte
  reserved2 :: "byte list"
  buffer_size :: u32
  start_address :: u32
  end_address :: u32
  rbuffer :: "byte list"
  prompt_answer :: "byte list"

text \<open>
  The address of the array \<open>d->rbuffer\<close> is the parameter \<open>base\<close>; \<open>cb_store base d addr data\<close>
  is \<open>memcpy((void*)addr, data, \<dots>)\<close> into it.
\<close>

definition scd_cbinit :: "u32 \<Rightarrow> scd_data \<Rightarrow> scd_data" where
  "scd_cbinit base d =
     d\<lparr>readptr := 0, writeptr := 0,
       start_address := base,
       end_address := base + word_of_nat (length (rbuffer d)) - 1,
       buffer_size := word_of_nat (length (rbuffer d))\<rparr>"

definition cb_store :: "u32 \<Rightarrow> u32 \<Rightarrow> byte list \<Rightarrow> byte list \<Rightarrow> byte list option" where
  "cb_store base addr src buf =
     (let off = unat (addr - base)
      in if off + length src \<le> length buf then Some (mem_write off src buf) else None)"

definition scd_cbwrite :: "u32 \<Rightarrow> scd_data \<Rightarrow> byte list \<Rightarrow> u32 \<Rightarrow> scd_data option" where
  "scd_cbwrite base d data datalen = (
     let w = ucast (writeptr d) :: u32; r = ucast (readptr d) :: u32;
       full =
         (if w \<ge> r then datalen + 1 > buffer_size d - w + r - 1
          else datalen + 1 > r - w - 1)
     in if full then Some d
        else if length data < unat datalen then None
        else do {
          buf \<leftarrow>
            (if w \<ge> r
             then (let end_space = buffer_size d - w in
               if end_space \<ge> datalen
               then cb_store base (start_address d + w) (take (unat datalen) data) (rbuffer d)
               else do {
                 buf \<leftarrow> cb_store base (start_address d + w) (take (unat end_space) data) (rbuffer d);
                 cb_store base (start_address d)
                   (mem_read (unat end_space) (unat (datalen - end_space)) data) buf })
             else cb_store base (start_address d + w) (take (unat datalen) data) (rbuffer d));
          let ptr = w + datalen;
          Some (d\<lparr>rbuffer := buf,
            writeptr := ucast (if ptr \<ge> buffer_size d then ptr - buffer_size d else ptr)\<rparr>) })"

definition scd_cbmemuse :: "scd_data \<Rightarrow> byte" where
  "scd_cbmemuse d = (
     let w = ucast (writeptr d) :: u32; r = ucast (readptr d) :: u32;
       ret =
         (if w = r then 0
          else if w \<ge> r
          then (let ret = push_bit 7 (buffer_size d - w + r - 1)
                in if buffer_size d \<noteq> 0 then ret div buffer_size d else ret)
          else (let ret = push_bit 7 (r - w - 1)
                in if buffer_size d \<noteq> 0 then ret div buffer_size d else ret))
     in ucast (128 - ret))"

text \<open>The reading side returns the bytes it copied and the structure with the pointer moved.\<close>

definition scd_cbread :: "scd_data \<Rightarrow> byte list \<times> scd_data" where
  "scd_cbread d = (
     let w = unat (writeptr d); r = unat (readptr d) in
     if w = r then ([], d)
     else if w > r
     then (mem_read r (w - r) (rbuffer d), d\<lparr>readptr := writeptr d\<rparr>)
     else (let read_size = unat (buffer_size d) - r in
       (mem_read r read_size (rbuffer d) @ mem_read 0 w (rbuffer d), d\<lparr>readptr := writeptr d\<rparr>)))"

subsection \<open>The queue it implements\<close>

text \<open>
  \<open>cb_inv\<close> is the invariant of an initialised structure; \<open>cb_contents\<close> the bytes written and
  not yet read, oldest first.
\<close>

definition cb_inv :: "u32 \<Rightarrow> scd_data \<Rightarrow> bool" where
  "cb_inv base d \<longleftrightarrow> length (rbuffer d) = SCD_RBUFFER_SIZE
     \<and> buffer_size d = word_of_nat SCD_RBUFFER_SIZE \<and> start_address d = base
     \<and> unat (readptr d) < SCD_RBUFFER_SIZE \<and> unat (writeptr d) < SCD_RBUFFER_SIZE"

definition cb_contents :: "scd_data \<Rightarrow> byte list" where
  "cb_contents d =
     (let w = unat (writeptr d); r = unat (readptr d) in
      if w \<ge> r then mem_read r (w - r) (rbuffer d) else drop r (rbuffer d) @ take w (rbuffer d))"

lemma cb_inv_init: "length (rbuffer d) = SCD_RBUFFER_SIZE \<Longrightarrow> cb_inv base (scd_cbinit base d)"
  and cb_contents_init: "cb_contents (scd_cbinit base d) = []"
  by (simp_all add: cb_inv_def scd_cbinit_def cb_contents_def mem_read_def)

lemma length_cb_contents:
  assumes "cb_inv base d"
  shows "length (cb_contents d) = (if unat (writeptr d) \<ge> unat (readptr d)
      then unat (writeptr d) - unat (readptr d)
      else SCD_RBUFFER_SIZE - unat (readptr d) + unat (writeptr d))"
  using assms by (auto simp: cb_inv_def cb_contents_def Let_def)

text \<open>Reading empties the buffer and returns what it held.\<close>

lemma scd_cbread_correct:
  assumes "cb_inv base d"
  shows "fst (scd_cbread d) = cb_contents d" "cb_contents (snd (scd_cbread d)) = []"
    "cb_inv base (snd (scd_cbread d))"
  using assms by (auto simp: scd_cbread_def cb_contents_def cb_inv_def Let_def mem_read_def)

text \<open>
  The pointers as numbers: the word arithmetic of the code does not wrap on them, so a write
  is refused, stored in one piece, or stored in two.
\<close>

definition cb_full :: "scd_data \<Rightarrow> nat \<Rightarrow> bool" where
  "cb_full d n \<longleftrightarrow> \<not> length (cb_contents d) + n + 2 \<le> SCD_RBUFFER_SIZE"

definition cb_stored :: "scd_data \<Rightarrow> byte list \<Rightarrow> byte list" where
  "cb_stored d data =
     (let w = unat (writeptr d); k = SCD_RBUFFER_SIZE - w in
      if w \<ge> unat (readptr d) \<and> k < length data
      then mem_write 0 (drop k data) (mem_write w (take k data) (rbuffer d))
      else mem_write w data (rbuffer d))"

definition cb_advance :: "nat \<Rightarrow> nat \<Rightarrow> nat" where
  "cb_advance w n = (if w + n \<ge> SCD_RBUFFER_SIZE then w + n - SCD_RBUFFER_SIZE else w + n)"

lemma cb_store_at: "w < 2 ^ 32 \<Longrightarrow> cb_store base (base + word_of_nat w) src buf
    = (if w + length src \<le> length buf then Some (mem_write w src buf) else None)"
  and cb_store_base: "cb_store base base src buf
    = (if length src \<le> length buf then Some (mem_write 0 src buf) else None)"
  by (simp_all add: cb_store_def)

lemma unat_u16_u32: "unat (ucast (x :: u16) :: u32) = unat x"
proof -
  have "unat x < 2 ^ 16" using unsigned_less [of x] by simp
  then show ?thesis by (simp add: unsigned_ucast_eq take_bit_nat_eq_self)
qed

lemma scd_cbwrite_nat:
  assumes inv: "cb_inv base d" and len: "length data < 2 ^ 32 - 1"
  shows "scd_cbwrite base d data (word_of_nat (length data))
    = Some (if cb_full d (length data) then d
        else d\<lparr>rbuffer := cb_stored d data,
          writeptr := word_of_nat (cb_advance (unat (writeptr d)) (length data))\<rparr>)"
proof -
  obtain w r n where nat: "w = unat (writeptr d)" "r = unat (readptr d)" "n = length data" by blast
  obtain W R N :: u32 where word: "W = ucast (writeptr d)" "R = ucast (readptr d)" "N = word_of_nat n"
    by blast
  have u: "unat W = w" "unat R = r" "unat N = n"
    using len by (simp_all add: nat word unat_u16_u32)
  have b: "w < 2784" "r < 2784" "n < 2 ^ 32 - 1" "buffer_size d = 2784" "length (rbuffer d) = 2784"
    "start_address d = base"
    using inv len by (auto simp: cb_inv_def nat)
  have N: "N + 1 = word_of_nat (n + 1)" by (simp add: word(3))
  have N1: "unat (N + 1) = n + 1"
    unfolding N by (rule unat_word_of_nat) (use b(3) in simp)
  have used: "length (cb_contents d) = (if w \<ge> r then w - r else 2784 - r + w)"
    using length_cb_contents [OF inv] by (simp add: nat)
  have ptr: "ucast (if W + N \<ge> 2784 then W + N - 2784 else W + N) = (word_of_nat (cb_advance w n) :: u16)"
    if "n \<le> 2784"
  proof -
    have "unat (W + N) = w + n"
      using unat_add_lem [of W N] u b(1) that by simp
    then have "unat (if W + N \<ge> 2784 then W + N - 2784 else W + N) = cb_advance w n"
      by (auto simp: cb_advance_def word_le_nat_alt unat_sub)
    then show ?thesis by (metis of_nat_unat)
  qed
  have ofn: "W = word_of_nat w" "R = word_of_nat r" using u by (metis of_nat_unat ucast_id)+
  have at: "cb_store base (base + W) src buf
      = (if w + length src \<le> length buf then Some (mem_write w src buf) else None)" for src buf
    using cb_store_at [of w base src buf] b(1) by (simp add: ofn [symmetric])
  have ln: "length data = n" by (simp add: nat)
  have data: "\<not> length data < unat N" "take (unat N) data = data" using u(3) by (simp_all add: nat)
  show ?thesis
  proof (cases "w \<ge> r")
    case True
    have "2784 - W + R - 1 = word_of_nat (2784 - w + r - 1)"
      using b by (simp add: ofn of_nat_diff)
    then have F: "unat (2784 - W + R - 1) = 2784 - w + r - 1"
      using True b(1) by (simp only:) (rule unat_word_of_nat, simp)
    have full: "N + 1 > 2784 - W + R - 1 \<longleftrightarrow> cb_full d n"
      using True b unfolding word_less_nat_alt N1 F cb_full_def used by auto
    have E: "unat (2784 - W) = 2784 - w"
      using u(1) b(1) by (simp add: unat_sub word_le_nat_alt)
    have D: "unat (N - (2784 - W)) = n - (2784 - w)" if "\<not> N \<le> 2784 - W"
      using E u(3) that by (simp add: unat_sub word_le_nat_alt)
    have "\<not> cb_full d n \<Longrightarrow> n \<le> 2784" by (simp add: cb_full_def)
    moreover have "scd_cbwrite base d data N = (if cb_full d n then Some d
        else do {
          buf \<leftarrow> (if N \<le> 2784 - W then cb_store base (base + W) data (rbuffer d)
            else do {
              buf \<leftarrow> cb_store base (base + W) (take (2784 - w) data) (rbuffer d);
              cb_store base base (mem_read (2784 - w) (unat (N - (2784 - W))) data) buf });
          Some (d\<lparr>rbuffer := buf,
            writeptr := ucast (if W + N \<ge> 2784 then W + N - 2784 else W + N)\<rparr>) })"
      using True u b(4,6) data E full unfolding scd_cbwrite_def Let_def word(1,2) [symmetric]
      by (simp add: word_le_nat_alt)
    moreover have "(if N \<le> 2784 - W then cb_store base (base + W) data (rbuffer d)
            else do {
              buf \<leftarrow> cb_store base (base + W) (take (2784 - w) data) (rbuffer d);
              cb_store base base (mem_read (2784 - w) (unat (N - (2784 - W))) data) buf })
        = Some (cb_stored d data)" if "n \<le> 2784"
    proof (cases "N \<le> 2784 - W")
      case True
      then have "n \<le> 2784 - w" by (simp add: word_le_nat_alt E u)
      then have "w + length data \<le> 2784" "\<not> 2784 - w < length data" using ln b(1) by simp_all
      then show ?thesis using True b(5) by (simp add: at cb_stored_def Let_def flip: nat(1))
    next
      case False
      then have n: "\<not> n \<le> 2784 - w" by (simp add: word_le_nat_alt E u)
      then have "mem_read (2784 - w) (n - (2784 - w)) data = drop (2784 - w) data"
        using ln by (simp add: mem_read_def)
      moreover have "length (take (2784 - w) data) = 2784 - w" "length (drop (2784 - w) data) \<le> 2784"
        using n ln that by simp_all
      ultimately show ?thesis
        using False n True b(1,5) D [OF False] ln
        by (simp add: at cb_store_base cb_stored_def Let_def flip: nat(1,2))
    qed
    ultimately show ?thesis
      unfolding nat(3) [symmetric] word(3) [symmetric] by (simp add: ptr flip: nat(1))
  next
    case False
    have "R - W - 1 = word_of_nat (r - w - 1)"
      using False by (simp add: ofn of_nat_diff)
    then have F: "unat (R - W - 1) = r - w - 1"
      using b(2) by (simp only:) (rule unat_word_of_nat, simp)
    have full: "N + 1 > R - W - 1 \<longleftrightarrow> cb_full d n"
      using False b unfolding word_less_nat_alt N1 F cb_full_def used by auto
    have "scd_cbwrite base d data N = (if cb_full d n then Some d
        else do {
          buf \<leftarrow> cb_store base (base + W) data (rbuffer d);
          Some (d\<lparr>rbuffer := buf,
            writeptr := ucast (if W + N \<ge> 2784 then W + N - 2784 else W + N)\<rparr>) })"
      using False u b(4,6) data full unfolding scd_cbwrite_def Let_def word(1,2) [symmetric]
      by (simp add: word_le_nat_alt)
    moreover have "\<not> cb_full d n \<Longrightarrow> w + n \<le> 2784" "\<not> cb_full d n \<Longrightarrow> n \<le> 2784"
      using False b(2) by (simp_all add: cb_full_def used)
    moreover have "cb_store base (base + W) data (rbuffer d) = Some (cb_stored d data)" if "\<not> cb_full d n"
      using calculation(2) [OF that] False b(5) ln by (simp add: at cb_stored_def Let_def flip: nat(1,2))
    ultimately show ?thesis
      unfolding nat(3) [symmetric] word(3) [symmetric] by (simp add: ptr flip: nat(1))
  qed
qed

text \<open>The contents after a write that is not refused.\<close>

lemma cb_stored_contents:
  assumes inv: "cb_inv base d" and room: "\<not> cb_full d (length data)"
  shows "cb_contents (d\<lparr>rbuffer := cb_stored d data,
      writeptr := word_of_nat (cb_advance (unat (writeptr d)) (length data))\<rparr>) = cb_contents d @ data"
    and "length (cb_stored d data) = SCD_RBUFFER_SIZE"
    and "cb_advance (unat (writeptr d)) (length data) < SCD_RBUFFER_SIZE"
proof -
  obtain w r n where nat: "w = unat (writeptr d)" "r = unat (readptr d)" "n = length data" by blast
  obtain buf where buf: "buf = rbuffer d" by blast
  have b: "w < 2784" "r < 2784" "length buf = 2784" "length data = n"
    using inv by (auto simp: cb_inv_def nat buf)
  have used: "length (cb_contents d) = (if r \<le> w then w - r else 2784 - r + w)"
    using length_cb_contents [OF inv] by (simp add: nat)
  have room': "if r \<le> w then w + n + 2 \<le> 2784 + r else w + n + 2 \<le> r"
    using room b(1,2) unfolding cb_full_def used b(4) by (cases "r \<le> w") simp_all
  show adv: "cb_advance (unat (writeptr d)) (length data) < SCD_RBUFFER_SIZE"
    using room' b(1,2) unfolding cb_advance_def nat [symmetric] b(4)
    by (cases "r \<le> w") (simp_all split: if_split, linarith+)
  show len: "length (cb_stored d data) = SCD_RBUFFER_SIZE"
  proof (cases "r \<le> w \<and> 2784 - w < n")
    case True
    then have "w + length (take (2784 - w) data) \<le> 2784" "length (drop (2784 - w) data) \<le> 2784"
      using room' b by (simp_all, linarith)
    then show ?thesis using True b by (simp add: cb_stored_def Let_def nat [symmetric] buf [symmetric])
  next
    case False
    then have "w + n \<le> 2784" using room' b by (cases "r \<le> w") simp_all
    then show ?thesis using False b by (auto simp: cb_stored_def Let_def nat [symmetric] buf [symmetric])
  qed
  have "unat (word_of_nat (cb_advance w n) :: u16) = cb_advance w n"
    using adv by (intro unat_word_of_nat) (simp add: nat)
  moreover have "(if cb_advance w n \<ge> r then mem_read r (cb_advance w n - r) (cb_stored d data)
        else drop r (cb_stored d data) @ take (cb_advance w n) (cb_stored d data))
      = (if w \<ge> r then mem_read r (w - r) buf else drop r buf @ take w buf) @ data"
  proof -
    consider (fits) "r \<le> w" "w + n < 2784" | (edge) "r \<le> w" "w + n = 2784" | (wrap) "r \<le> w" "w + n > 2784"
      | (low) "w < r" "w + n < r" using room' by (cases "r \<le> w"; force)
    then show ?thesis
    proof cases
      case fits
      then have "cb_stored d data = mem_write w data buf" "cb_advance w n = w + n"
        using b by (auto simp: cb_stored_def cb_advance_def Let_def nat [symmetric] buf [symmetric])
      then show ?thesis using fits b by (simp add: mem_write_def mem_read_def take_drop)
    next
      case edge
      then have "cb_stored d data = mem_write w data buf" "cb_advance w n = 0" "0 < r"
        using b room' by (auto simp: cb_stored_def cb_advance_def Let_def nat [symmetric] buf [symmetric])
      then show ?thesis using edge b by (simp add: mem_write_def mem_read_def take_drop)
    next
      case wrap
      then have "cb_stored d data = mem_write 0 (drop (2784 - w) data) (mem_write w (take (2784 - w) data) buf)"
        "cb_advance w n = w + n - 2784" "w + n - 2784 < r"
        using b room' by (auto simp: cb_stored_def cb_advance_def Let_def nat [symmetric] buf [symmetric])
      then show ?thesis using wrap b by (simp add: mem_write_def mem_read_def take_drop)
    next
      case low
      then have "cb_stored d data = mem_write w data buf" "cb_advance w n = w + n"
        using b by (auto simp: cb_stored_def cb_advance_def Let_def nat [symmetric] buf [symmetric])
      then show ?thesis using low b by (simp add: mem_write_def)
    qed
  qed
  ultimately show "cb_contents (d\<lparr>rbuffer := cb_stored d data,
      writeptr := word_of_nat (cb_advance (unat (writeptr d)) (length data))\<rparr>) = cb_contents d @ data"
    by (simp add: cb_contents_def Let_def nat [symmetric] buf [symmetric] split del: if_split
        cong: if_cong)
qed

subsection \<open>The queue interface\<close>

text \<open>
  What the two sides rely on: a write that has room appends, one that has not is dropped, a
  read takes everything. \<open>q_run\<close> runs a sequence of operations and collects the accepted and
  the delivered bytes.
\<close>

datatype cb_op = Put "byte list" | Get

fun q_run :: "('q \<Rightarrow> byte list \<Rightarrow> 'q option) \<Rightarrow> ('q \<Rightarrow> byte list \<times> 'q) \<Rightarrow> ('q \<Rightarrow> nat \<Rightarrow> bool)
    \<Rightarrow> 'q \<Rightarrow> cb_op list \<Rightarrow> (byte list \<times> byte list \<times> 'q) option" where
  "q_run put get room q [] = Some ([], [], q)"
| "q_run put get room q (Put xs # ops) = do {
     q' \<leftarrow> put q xs;
     (acc, del, q'') \<leftarrow> q_run put get room q' ops;
     Some (if room q (length xs) then xs @ acc else acc, del, q'') }"
| "q_run put get room q (Get # ops) = (let (ys, q') = get q in do {
     (acc, del, q'') \<leftarrow> q_run put get room q' ops;
     Some (acc, ys @ del, q'') })"

locale byte_queue =
  fixes inv :: "'q \<Rightarrow> bool" and contents :: "'q \<Rightarrow> byte list"
    and put :: "'q \<Rightarrow> byte list \<Rightarrow> 'q option" and get :: "'q \<Rightarrow> byte list \<times> 'q"
    and room :: "'q \<Rightarrow> nat \<Rightarrow> bool" and fits :: "byte list \<Rightarrow> bool"
  assumes put_law: "inv q \<Longrightarrow> fits xs \<Longrightarrow> \<exists>q'. put q xs = Some q' \<and> inv q'
      \<and> contents q' = (if room q (length xs) then contents q @ xs else contents q)"
    and get_law: "inv q \<Longrightarrow> fst (get q) = contents q \<and> contents (snd (get q)) = [] \<and> inv (snd (get q))"
begin

lemma fifo:
  assumes "inv q" "\<forall>xs. Put xs \<in> set ops \<longrightarrow> fits xs"
  shows "\<exists>acc del q'. q_run put get room q ops = Some (acc, del, q') \<and> inv q'
    \<and> contents q @ acc = del @ contents q'"
  using assms
proof (induction ops arbitrary: q)
  case (Cons x ops)
  have ops: "\<forall>xs. Put xs \<in> set ops \<longrightarrow> fits xs" using Cons.prems(2) by simp
  show ?case
  proof (cases x)
    case (Put xs)
    then obtain q1 where q1: "put q xs = Some q1" "inv q1"
      "contents q1 = (if room q (length xs) then contents q @ xs else contents q)"
      using put_law Cons.prems by (meson list.set_intros(1))
    obtain acc del q' where "q_run put get room q1 ops = Some (acc, del, q')" "inv q'"
      "contents q1 @ acc = del @ contents q'"
      using Cons.IH [OF q1(2) ops] by blast
    then show ?thesis using Put q1 by auto
  next
    case Get
    obtain ys q1 where q1: "get q = (ys, q1)" by (cases "get q")
    then have g: "ys = contents q" "contents q1 = []" "inv q1"
      using get_law [OF Cons.prems(1)] by simp_all
    obtain acc del q' where "q_run put get room q1 ops = Some (acc, del, q')" "inv q'"
      "contents q1 @ acc = del @ contents q'"
      using Cons.IH [OF g(3) ops] by blast
    then show ?thesis using Get q1 g by auto
  qed
qed simp

end

lemma scd_cbwrite_correct:
  assumes inv: "cb_inv base d" and len: "length data < 2 ^ 32 - 1"
  shows "\<exists>d'. scd_cbwrite base d data (word_of_nat (length data)) = Some d' \<and> cb_inv base d'
    \<and> cb_contents d' = (if \<not> cb_full d (length data) then cb_contents d @ data else cb_contents d)"
proof (cases "cb_full d (length data)")
  case True
  then show ?thesis using scd_cbwrite_nat [OF inv len] inv by simp
next
  case False
  have "unat (word_of_nat (cb_advance (unat (writeptr d)) (length data)) :: u16) < SCD_RBUFFER_SIZE"
    using cb_stored_contents(3) [OF inv False] by (subst unat_word_of_nat) simp_all
  then show ?thesis
    using False scd_cbwrite_nat [OF inv len] cb_stored_contents [OF inv False] inv
    by (simp add: cb_inv_def)
qed

interpretation scdq: byte_queue "cb_inv base" cb_contents
    "\<lambda>d xs. scd_cbwrite base d xs (word_of_nat (length xs))" scd_cbread
    "\<lambda>d n. \<not> cb_full d n" "\<lambda>xs. length xs < 2 ^ 32 - 1"
  for base
  by unfold_locales (rule scd_cbwrite_correct, simp_all add: scd_cbread_correct)

subsection \<open>Properties\<close>

text \<open>
  Writing \<open>data\<close> to an initialised buffer stays inside the array and the caller's data,
  appends all of it to the unread bytes if these and two spare bytes then still fit the array,
  and otherwise changes nothing: the queue never overwrites unread data and never takes part of
  a message.
\<close>

theorem scd_cbwrite_append:
  assumes "cb_inv base d" "length data < 2 ^ 32 - 1"
  shows "\<exists>d'. scd_cbwrite base d data (word_of_nat (length data)) = Some d' \<and> cb_inv base d'
    \<and> (if length (cb_contents d) + length data + 2 \<le> SCD_RBUFFER_SIZE
       then cb_contents d' = cb_contents d @ data else d' = d)"
  using scd_cbwrite_correct [OF assms] scd_cbwrite_nat [OF assms] by (auto simp: cb_full_def)

text \<open>A structure whose pointers are about to wrap around.\<close>

definition cb_example :: scd_data where
  "cb_example = \<lparr>readptr = 2782, writeptr = 2782, dbg_on = 0, proc_complete = 0, dbg_disable = 0,
     cb_memuse = 0, fileio_size = 0, version = [5, 5], structsz = 3072, dbg_logflush = 0,
     wh_on_log = 0, reserved2 = [0, 0], buffer_size = 2784, start_address = 0x20200020,
     end_address = 0x20200AFF, rbuffer = replicate 2784 0, prompt_answer = replicate 256 0\<rparr>"

lemma cb_example_inv: "cb_inv 0x20200020 cb_example" "cb_contents cb_example = []"
  by (simp_all add: cb_example_def cb_inv_def cb_contents_def mem_read_def)

lemma scd_cbwrite_append_witness:
  "\<exists>d'. scd_cbwrite 0x20200020 cb_example [5, 77, 72, 105, 33] 5 = Some d' \<and> cb_inv 0x20200020 d'
    \<and> cb_contents d' = [5, 77, 72, 105, 33]"
  using scd_cbwrite_append [of "0x20200020" cb_example "[5, 77, 72, 105, 33]"]
  by (simp add: cb_example_inv)

text \<open>
  C32: Over every interleaving of writes and reads, started from an initialised buffer, the bytes
  delivered to the reader followed by those still stored are exactly the bytes of the accepted
  writes, in order: nothing is lost, duplicated or reordered across the wrap-around.
\<close>

theorem scd_queue_fifo:
  assumes "length (rbuffer d) = SCD_RBUFFER_SIZE"
    and "\<forall>xs. Put xs \<in> set ops \<longrightarrow> length xs < 2 ^ 32 - 1"
  shows "\<exists>acc del d'. q_run (\<lambda>d xs. scd_cbwrite base d xs (word_of_nat (length xs))) scd_cbread
      (\<lambda>d n. \<not> cb_full d n) (scd_cbinit base d) ops = Some (acc, del, d')
    \<and> acc = del @ cb_contents d'"
  using scdq.fifo [OF cb_inv_init [OF assms(1), of base] assms(2)] by (auto simp: cb_contents_init)

lemma scd_queue_fifo_witness:
  "\<exists>acc del d'. q_run (\<lambda>d xs. scd_cbwrite 0x20200020 d xs (word_of_nat (length xs))) scd_cbread
      (\<lambda>d n. \<not> cb_full d n) (scd_cbinit 0x20200020 cb_example)
      [Put [3, 77, 65], Get, Put [2, 80], Put (replicate 3000 0)] = Some (acc, del, d')
    \<and> acc = del @ cb_contents d'"
  using scd_queue_fifo [of cb_example "[Put [3, 77, 65], Get, Put [2, 80], Put (replicate 3000 0)]"
      "0x20200020"]
  by (simp add: cb_example_def)

text \<open>
  The usage the code computes: of a buffer that is not empty, 128 less the free share in
  128ths. For the empty buffer, where the free share should be 128, it takes 0.
\<close>

lemma unat_memuse:
  fixes F :: u32
  assumes "unat F < SCD_RBUFFER_SIZE"
  shows "unat (ucast (128 - push_bit 7 F div 2784) :: byte) = 128 - unat F * 128 div 2784"
proof -
  have "unat (F * 128) = unat F * 128"
    using unat_mult_lem [of F "128"] assms by simp
  then have q: "unat (push_bit 7 F div 2784) = unat F * 128 div 2784"
    by (simp add: push_bit_eq_mult unat_div)
  have "unat F * 128 div 2784 \<le> 128" using assms by simp
  then have "unat (128 - push_bit 7 F div 2784) = 128 - unat F * 128 div 2784"
    using q by (simp add: unat_sub word_le_nat_alt)
  then show ?thesis
    by (simp add: unsigned_ucast_eq take_bit_nat_eq_self)
qed

lemma scd_cbmemuse_nat:
  assumes inv: "cb_inv base d"
  shows "unat (scd_cbmemuse d) = (if cb_contents d = [] then 128
    else 128 - (SCD_RBUFFER_SIZE - length (cb_contents d) - 1) * 128 div SCD_RBUFFER_SIZE)"
proof -
  obtain w r where nat: "w = unat (writeptr d)" "r = unat (readptr d)" by blast
  obtain W R :: u32 where word: "W = ucast (writeptr d)" "R = ucast (readptr d)" by blast
  have u: "unat W = w" "unat R = r" by (simp_all add: nat word unat_u16_u32)
  have b: "w < 2784" "r < 2784" "buffer_size d = 2784"
    using inv by (auto simp: cb_inv_def nat)
  have used: "length (cb_contents d) = (if w \<ge> r then w - r else 2784 - r + w)"
    using length_cb_contents [OF inv] by (simp add: nat)
  have ofn: "W = word_of_nat w" "R = word_of_nat r" using u by (metis of_nat_unat ucast_id)+
  have eq: "W = R \<longleftrightarrow> w = r" using u by (metis word_unat_eq_iff)
  have le: "W \<ge> R \<longleftrightarrow> w \<ge> r" by (simp add: word_le_nat_alt u)
  let ?f = "2784 - length (cb_contents d) - 1"
  consider (empty) "w = r" | (up) "r < w" | (down) "w < r" by linarith
  then show ?thesis
  proof cases
    case empty
    then have "length (cb_contents d) = 0" by (simp add: used)
    moreover have "scd_cbmemuse d = 128"
      using empty eq by (simp add: scd_cbmemuse_def Let_def flip: word)
    ultimately show ?thesis by simp
  next
    case up
    then have F: "2784 - W + R - 1 = word_of_nat ?f" and n: "?f < 2784" "cb_contents d \<noteq> []"
      using b used by (auto simp: ofn of_nat_diff)
    have "unat (2784 - W + R - 1) = ?f" unfolding F by (rule unat_word_of_nat) (use n in simp)
    then show ?thesis
      using up eq le b(3) n unat_memuse [of "2784 - W + R - 1"]
      by (simp add: scd_cbmemuse_def Let_def flip: word)
  next
    case down
    then have F: "R - W - 1 = word_of_nat ?f" and n: "?f < 2784" "cb_contents d \<noteq> []"
      using b used by (auto simp: ofn of_nat_diff)
    have "unat (R - W - 1) = ?f" unfolding F by (rule unat_word_of_nat) (use n in simp)
    then show ?thesis
      using down eq le b(3) n unat_memuse [of "R - W - 1"]
      by (simp add: scd_cbmemuse_def Let_def flip: word)
  qed
qed

text \<open>
  \<open>scd_cbmemuse\<close> of an initialised buffer with unread bytes lies between 1 and 128, and
  reaches the 96 at which the log is flushed to the PC exactly when at least 2066 of the 2784
  bytes are unread. Of an empty buffer it is 128, the value of a full one (the source documents
  0), so the automatic flush also fires when there is nothing to flush.
\<close>

theorem scd_cbmemuse_correct:
  assumes "cb_inv base d"
  shows "(if cb_contents d = [] then scd_cbmemuse d = 128
      else 1 \<le> unat (scd_cbmemuse d) \<and> unat (scd_cbmemuse d) \<le> 128
        \<and> (96 \<le> unat (scd_cbmemuse d) \<longleftrightarrow> 2066 \<le> length (cb_contents d)))"
proof (cases "cb_contents d = []")
  case True
  then show ?thesis using scd_cbmemuse_nat [OF assms] by (simp add: word_unat_eq_iff)
next
  case False
  let ?n = "length (cb_contents d)"
  define q where "q = (2783 - ?n) * 128 div 2784"
  have "1 \<le> ?n" using False by (simp add: Suc_le_eq)
  moreover have "?n < 2784"
    unfolding length_cb_contents [OF assms] using assms by (auto simp: cb_inv_def)
  ultimately have n: "1 \<le> ?n" "?n < 2784" by simp_all
  have "unat (scd_cbmemuse d) = 128 - q"
    using scd_cbmemuse_nat [OF assms] False by (simp add: q_def)
  moreover have "q < 128" using n by (simp add: q_def div_less_iff_less_mult)
  moreover have "q < 33 \<longleftrightarrow> 2066 \<le> ?n"
    using n by (auto simp: q_def div_less_iff_less_mult)
  ultimately show ?thesis using False by auto
qed

lemma scd_cbmemuse_correct_witness: "scd_cbmemuse cb_example = 128"
  using scd_cbmemuse_correct [of "0x20200020" cb_example] by (simp add: cb_example_inv)

end
