(* ===== verification/ScDevices.thy ===== *)
theory ScDevices
  imports ScFiles ScdCircbuffer
begin

section \<open>The file devices of the console\<close>

text \<open>
  Models the file layer of \<open>satcom_lib/sc_saturn.c\<close> (\<open>_scd_file_request\<close>, \<open>scd_logflush\<close>,
  \<open>sc_romfs_setdata\<close>, \<open>sc_romfs_get_dataptr\<close> and the routines \<open>scf_\<close>): one interface to the files of
  the RomFs image, the SD card, the CD and, through the circular buffer of the debugger, the PC. The state
  holds the fields of \<open>sc_internal_t\<close> that it uses. What runs elsewhere is a field of
  \<open>scf_env\<close>: \<open>e_check\<close> is one call of \<open>sc_check\<close>, in which the PC may change the debugger's structure and
  the memory the request names; the \<open>cd_\<close> fields are the routines of Iapetus for the CD, which is
  hardware. \<open>e_release\<close> says whether \<open>SC_RELEASE\<close> is defined. A routine is \<open>None\<close> where the C reads or
  writes memory it does not own or never returns. Debug output is left out. The lemmas join this layer to
  the file systems below: what a read from the RomFs delivers, what a listing holds and how it is sorted,
  and what a request leaves for the PC.
\<close>

record ('c, 'f) scf_env =
  e_release :: bool
  e_card :: "'c card_env"
  e_now :: tm
  e_junk :: "byte list"
  e_lfn :: lfn_cache
  e_dirstat :: fs_dir_list_status
  e_dirent :: fs_dir_ent
  e_rbuffer :: u32
  e_size_addr :: u32
  e_check :: "scd_data \<Rightarrow> byte list \<Rightarrow> scd_data \<times> byte list"
  cd_init :: "'f \<Rightarrow> 'f"
  cd_open :: "byte list \<Rightarrow> 'f \<Rightarrow> 'f"
  cd_close :: "'f \<Rightarrow> 'f"
  cd_size :: "'f \<Rightarrow> u32"
  cd_seek :: "u32 \<Rightarrow> 'f \<Rightarrow> 'f"
  cd_read :: "u32 \<Rightarrow> byte list \<Rightarrow> 'f \<Rightarrow> bool \<times> byte list \<times> 'f"
  cd_list :: "scdf_file_entry list option \<Rightarrow> u32 \<Rightarrow> u32 \<Rightarrow> byte list \<Rightarrow> 'f \<Rightarrow> u32 \<times> scdf_file_entry list option \<times> 'f"

record ('c, 'f) scf_state =
  romfs :: "byte list option"
  filename_buff :: "byte list"
  request_buff :: "byte list"
  cdrom_status :: byte
  ext_dev :: byte
  dbg :: scd_data
  dbg_valid :: bool
  decomp_buff :: "byte list"
  cdrom_file :: 'f
  sd_fs :: "'c sd_global"

abbreviation (input) SC_CDSTATUS_USE :: byte where "SC_CDSTATUS_USE \<equiv> 0x01"
abbreviation (input) SC_CDSTATUS_INIT :: byte where "SC_CDSTATUS_INIT \<equiv> 0x02"
abbreviation (input) SCDF_BUFFSIZE :: nat where "SCDF_BUFFSIZE \<equiv> 256"

subsection \<open>Requests to the PC\<close>

text \<open>The loops that wait for the PC.\<close>

partial_function (option) logflush_loop :: "('c, 'f) scf_env \<Rightarrow> scd_data \<Rightarrow> byte list \<Rightarrow> (scd_data \<times> byte list) option" where
  "logflush_loop env d m =
     (if writeptr d \<noteq> readptr d then (let (d, m) = e_check env d m in logflush_loop env d m) else Some (d, m))"

definition scd_logflush :: "('c, 'f) scf_env \<Rightarrow> bool \<Rightarrow> scd_data \<Rightarrow> byte list \<Rightarrow> (scd_data \<times> byte list) option" where
  "scd_logflush env valid d m =
     (if \<not> valid then Some (d, m) else if dbg_disable d \<noteq> 0 then Some (d, m) else logflush_loop env d m)"

partial_function (option) complete_loop :: "('c, 'f) scf_env \<Rightarrow> scd_data \<Rightarrow> byte list \<Rightarrow> (scd_data \<times> byte list) option" where
  "complete_loop env d m =
     (let (d, m) = e_check env d m in if proc_complete d = 0 then complete_loop env d m else Some (d, m))"

text \<open>
  The message. The name is the format string of \<open>snprintf\<close>: one with a per cent sign would make it read
  arguments that are not there.
\<close>

definition request_message :: "byte \<Rightarrow> u32 \<Rightarrow> u32 \<Rightarrow> u32 \<Rightarrow> byte list \<Rightarrow> byte list \<Rightarrow> (byte list \<times> u32) option" where
  "request_message type foffset frw_address frw_len fname buff =
     (if of_char (CHR ''%'') \<in> set fname then None
      else do {
        let buff = mem_write 2 (be_bytes 4 foffset) buff;
        let buff = mem_write 6 (be_bytes 4 frw_address) buff;
        let buff = mem_write 10 (be_bytes 4 frw_len) buff;
        let offs = 14;
        let buff = mem_write offs (take (SCDF_BUFFSIZE - offs - 1) fname @ [0]) buff;
        let len = (word_of_nat (offs + length (take (SCDF_BUFFSIZE - offs - 1) fname)) :: u32);
        Some (buff[0 := ucast (2 + len), 1 := type], 2 + len) })"

text \<open>The memory \<open>m\<close> is what the request names by its address.\<close>

definition scd_file_request :: "('c, 'f) scf_env \<Rightarrow> byte \<Rightarrow> u32 \<Rightarrow> u32 \<Rightarrow> u32 \<Rightarrow> byte list \<Rightarrow> byte list \<Rightarrow> ('c, 'f) scf_state
    \<Rightarrow> (u32 \<times> byte list \<times> ('c, 'f) scf_state) option" where
  "scd_file_request env type foffset frw_address frw_len fname m st =
     (if e_release env then Some (0, m, st)
      else if dbg_disable (dbg st) \<noteq> 0 then Some (0, m, st)
      else do {
        (buff, len) \<leftarrow> request_message type foffset frw_address frw_len fname (request_buff st);
        (d, m) \<leftarrow> scd_logflush env (dbg_valid st) (dbg st) m;
        d \<leftarrow> scd_cbwrite (e_rbuffer env) d buff len;
        (d, m) \<leftarrow> complete_loop env (d\<lparr>proc_complete := 0, fileio_size := 0\<rparr>) m;
        Some (fileio_size d, m, st\<lparr>request_buff := buff, dbg := d\<rparr>) })"

subsection \<open>The RomFs image and the CD\<close>

definition sc_romfs_setdata :: "byte list option \<Rightarrow> ('c, 'f) scf_state \<Rightarrow> (bool \<times> ('c, 'f) scf_state) option" where
  "sc_romfs_setdata r st = do {
     ok \<leftarrow> romfs_check_header r True;
     Some (if ok then (True, st\<lparr>romfs := r\<rparr>) else (False, st)) }"

text \<open>The offset of the data in the image and the length; a folder and a missing file have none.\<close>

definition sc_romfs_get_dataptr :: "byte list \<Rightarrow> ('c, 'f) scf_state \<Rightarrow> (u32 option \<times> u32) option" where
  "sc_romfs_get_dataptr filename st = do {
     e \<leftarrow> romfs_get_first_entry (romfs st) filename;
     case e of
       None \<Rightarrow> Some (None, 0)
     | Some e \<Rightarrow> do {
         entry \<leftarrow> romfs_entry_at (the (romfs st)) e;
         if e_flags entry AND FLAG_FOLDER \<noteq> 0 then Some (None, 0)
         else Some (romfs_get_entry_ptr entry) } }"

definition cdrom_init_check :: "('c, 'f) scf_env \<Rightarrow> ('c, 'f) scf_state \<Rightarrow> ('c, 'f) scf_state" where
  "cdrom_init_check env st =
     (if cdrom_status st AND SC_CDSTATUS_USE \<noteq> 0 \<and> cdrom_status st AND SC_CDSTATUS_INIT = 0
      then st\<lparr>cdrom_file := cd_init env (cdrom_file st), cdrom_status := cdrom_status st OR SC_CDSTATUS_INIT\<rparr>
      else st)"

definition cdrom_open_file :: "('c, 'f) scf_env \<Rightarrow> ('c, 'f) scf_state \<Rightarrow> ('c, 'f) scf_state" where
  "cdrom_open_file env st = st\<lparr>cdrom_file := cd_open env (cstring (filename_buff st)) (cdrom_file st)\<rparr>"

definition cdrom_close_file :: "('c, 'f) scf_env \<Rightarrow> ('c, 'f) scf_state \<Rightarrow> ('c, 'f) scf_state" where
  "cdrom_close_file env st = st\<lparr>cdrom_file := cd_close env (cdrom_file st)\<rparr>"

subsection \<open>The devices\<close>

record sc_device =
  dv_name :: "byte list"
  dv_id :: byte
  dv_available :: byte
  dv_read_only :: byte
  dv_model :: byte

definition scf_dev_status :: "byte \<Rightarrow> ('c, 'f) scf_state \<Rightarrow> sc_device option" where
  "scf_dev_status dev_id st = do {
     let dev = \<lparr>dv_name = scf_dev_getname dev_id, dv_id = dev_id, dv_available = 0, dv_read_only = 0, dv_model = 0\<rparr>;
     if dev_id = SC_FILE_CDROM
     then Some (dev\<lparr>dv_available := (if cdrom_status st AND SC_CDSTATUS_USE \<noteq> 0 then 1 else 0), dv_read_only := 1\<rparr>)
     else if dev_id = SC_FILE_ROMFS
     then do {
       ok \<leftarrow> romfs_check_header (romfs st) False;
       Some (dev\<lparr>dv_available := (if ok then 1 else 0), dv_read_only := 1\<rparr>) }
     else if dev_id = SC_FILE_PC
     then Some (dev\<lparr>dv_available := (if dbg_on (dbg st) \<noteq> 0 then 1 else 0)\<rparr>)
     else if dev_id = SC_FILE_SDCARD
     then Some (dev\<lparr>dv_model := ext_dev st,
       dv_available := (if ext_dev st \<noteq> 0 then (if init_ok (sd_of (sd_fs st)) \<noteq> 0 then 1 else 0) else 0)\<rparr>)
     else Some dev }"

text \<open>The loop over the device numbers; \<open>devlist\<close> is the caller's array.\<close>

fun dev_list_loop :: "byte list \<Rightarrow> nat \<Rightarrow> sc_device list \<Rightarrow> ('c, 'f) scf_state \<Rightarrow> (nat \<times> sc_device list) option" where
  "dev_list_loop [] j devlist st = Some (j, devlist)"
| "dev_list_loop (i # is) j devlist st = do {
     dev \<leftarrow> scf_dev_status i st;
     devlist \<leftarrow> poke devlist j dev;
     dev_list_loop is (if dv_available dev \<noteq> 0 then j + 1 else j) devlist st }"

definition scf_dev_list :: "('c, 'f) scf_env \<Rightarrow> sc_device list \<Rightarrow> ('c, 'f) scf_state
    \<Rightarrow> (nat \<times> sc_device list \<times> ('c, 'f) scf_state) option" where
  "scf_dev_list env devlist st = do {
     let st = st\<lparr>dbg := fst (e_check env (dbg st) [])\<rparr>;
     (n, devlist) \<leftarrow> dev_list_loop [SC_FILE_CDROM, SC_FILE_ROMFS, SC_FILE_PC, SC_FILE_SDCARD] 0 devlist st;
     Some (n, devlist, st) }"

text \<open>In a release build the CD takes the place of the PC.\<close>

definition released :: "('c, 'f) scf_env \<Rightarrow> byte \<Rightarrow> byte" where
  "released env dev_id = (if e_release env \<and> dev_id = SC_FILE_PC then SC_FILE_CDROM else dev_id)"

definition bufferize :: "byte list \<Rightarrow> ('c, 'f) scf_state \<Rightarrow> ('c, 'f) scf_state option" where
  "bufferize filename st = do {
     b \<leftarrow> scf_filename_bufferize filename;
     Some (st\<lparr>filename_buff := b\<rparr>) }"

definition scf_size :: "('c, 'f) scf_env \<Rightarrow> byte \<Rightarrow> byte list \<Rightarrow> ('c, 'f) scf_state \<Rightarrow> (u32 \<times> ('c, 'f) scf_state) option" where
  "scf_size env dev_id filename st = do {
     st \<leftarrow> bufferize filename st;
     let dev_id = released env dev_id;
     let name = cstring (filename_buff st);
     if dev_id = SC_FILE_PC
     then do {
       (n, m, st) \<leftarrow> scd_file_request env (of_char (CHR ''S'')) 0 (e_size_addr env) 4 name (replicate 4 0) st;
       size \<leftarrow> be32_at m 0;
       Some (size, st) }
     else if dev_id = SC_FILE_ROMFS
     then do {
       e \<leftarrow> romfs_get_first_entry (romfs st) name;
       case e of
         None \<Rightarrow> Some (0, st)
       | Some e \<Rightarrow> do {
           entry \<leftarrow> romfs_entry_at (the (romfs st)) e;
           if e_flags entry AND FLAG_FOLDER \<noteq> 0 then Some (0, st)
           else do { size \<leftarrow> romfs_get_entry_size (the (romfs st)) entry; Some (size, st) } } }
     else if dev_id = SC_FILE_CDROM
     then if cdrom_status st AND SC_CDSTATUS_USE \<noteq> 0
       then do {
         let st = cdrom_open_file env (cdrom_init_check env st);
         Some (cd_size env (cdrom_file st), cdrom_close_file env st) }
       else Some (0, st)
     else if dev_id = SC_FILE_SDCARD
     then do {
       (r, size, fg) \<leftarrow> sdc_fat_file_size (e_card env) (e_now env) (e_junk env) name True (sd_fs st);
       Some (size, st\<lparr>sd_fs := fg\<rparr>) }
     else Some (0, st) }"


text \<open>The range that a read is cut to: a start behind the end of the file becomes its beginning.\<close>

definition read_range :: "u32 \<Rightarrow> u32 \<Rightarrow> u32 \<Rightarrow> u32 \<times> u32" where
  "read_range file_size offset sz =
     (let offset = (if offset > file_size then 0 else offset)
      in (offset, if offset + sz > file_size then file_size - offset else sz))"

definition scf_read :: "('c, 'f) scf_env \<Rightarrow> byte \<Rightarrow> byte list \<Rightarrow> u32 \<Rightarrow> u32 \<Rightarrow> u32 \<Rightarrow> byte list \<Rightarrow> ('c, 'f) scf_state
    \<Rightarrow> (u32 \<times> byte list \<times> ('c, 'f) scf_state) option" where
  "scf_read env dev_id filename offset sz ptr m st = do {
     st \<leftarrow> bufferize filename st;
     let dev_id = released env dev_id;
     if dev_id = SC_FILE_PC
     then do {
       (file_size, st) \<leftarrow> scf_size env dev_id filename st;
       let (offset, retsize) = read_range file_size offset sz;
       if retsize \<noteq> 0
       then scd_file_request env (of_char (CHR ''R'')) offset ptr retsize (cstring (filename_buff st)) m st
       else Some (retsize, m, st) }
     else if dev_id = SC_FILE_ROMFS
     then do {
       (file_size, st) \<leftarrow> scf_size env dev_id filename st;
       let (offset, retsize) = read_range file_size offset sz;
       if retsize \<noteq> 0
       then do {
         e \<leftarrow> romfs_get_first_entry (romfs st) (cstring (filename_buff st));
         case e of
           None \<Rightarrow> Some (0, m, st)
         | Some e \<Rightarrow> do {
             entry \<leftarrow> romfs_entry_at (the (romfs st)) e;
             if e_flags entry AND FLAG_FOLDER \<noteq> 0 then Some (0, m, st)
             else do {
               (buf, m) \<leftarrow> romfs_get_entry_data (the (romfs st)) entry (decomp_buff st) m offset retsize;
               Some (retsize, m, st\<lparr>decomp_buff := buf\<rparr>) } } }
       else Some (retsize, m, st) }
     else if dev_id = SC_FILE_CDROM
     then if cdrom_status st AND SC_CDSTATUS_USE \<noteq> 0
       then do {
         let st = cdrom_open_file env (cdrom_init_check env st);
         let (offset, sz) = read_range (cd_size env (cdrom_file st)) offset sz;
         let (ok, m, f) = cd_read env sz m (cd_seek env offset (cdrom_file st));
         Some (if ok then sz else 0, m, cdrom_close_file env (st\<lparr>cdrom_file := f\<rparr>)) }
       else Some (0, m, st)
     else if dev_id = SC_FILE_SDCARD
     then do {
       (file_size, st) \<leftarrow> scf_size env dev_id filename st;
       let (offset, retsize) = read_range file_size offset sz;
       if retsize \<noteq> 0
       then do {
         (ret, n, m, fg) \<leftarrow> sdc_fat_read_file (e_card env) (e_now env) (e_junk env) (cstring (filename_buff st))
           offset retsize m (sd_fs st);
         Some (if ret \<noteq> SDC_OK then 0 else n, m, st\<lparr>sd_fs := fg\<rparr>) }
       else Some (retsize, m, st) }
     else Some (0, m, st) }"

text \<open>Writing and appending. On the SD card the name is passed as the caller gave it.\<close>

definition scf_write :: "('c, 'f) scf_env \<Rightarrow> u32 \<Rightarrow> byte list \<Rightarrow> u32 \<Rightarrow> byte \<Rightarrow> byte list \<Rightarrow> ('c, 'f) scf_state
    \<Rightarrow> (u32 \<times> byte list \<times> ('c, 'f) scf_state) option" where
  "scf_write env ptr m sz dev_id filename st = do {
     st \<leftarrow> bufferize filename st;
     let dev_id = released env dev_id;
     if dev_id = SC_FILE_PC
     then scd_file_request env (of_char (CHR ''W'')) 0 ptr sz (cstring (filename_buff st)) m st
     else if dev_id = SC_FILE_ROMFS then Some (0, m, st)
     else if dev_id = SC_FILE_CDROM then Some (0, m, st)
     else if dev_id = SC_FILE_SDCARD
     then do {
       (ret, n, fg) \<leftarrow> sdc_fat_write_file (e_card env) (e_now env) (e_junk env) (cstring filename) sz m (sd_fs st);
       Some (if ret \<noteq> SDC_OK then 0 else n, m, st\<lparr>sd_fs := fg\<rparr>) }
     else Some (0, m, st) }"

definition scf_append :: "('c, 'f) scf_env \<Rightarrow> u32 \<Rightarrow> byte list \<Rightarrow> u32 \<Rightarrow> byte \<Rightarrow> byte list \<Rightarrow> ('c, 'f) scf_state
    \<Rightarrow> (u32 \<times> byte list \<times> ('c, 'f) scf_state) option" where
  "scf_append env ptr m sz dev_id filename st = do {
     st \<leftarrow> bufferize filename st;
     let dev_id = released env dev_id;
     if dev_id = SC_FILE_PC
     then scd_file_request env (of_char (CHR ''A'')) 0 ptr sz (cstring (filename_buff st)) m st
     else if dev_id = SC_FILE_ROMFS then Some (0, m, st)
     else if dev_id = SC_FILE_CDROM then Some (0, m, st)
     else if dev_id = SC_FILE_SDCARD
     then do {
       (ret, n, fg) \<leftarrow> sdc_fat_append_file (e_card env) (e_now env) (e_junk env) (cstring filename) sz m (sd_fs st);
       Some (if ret \<noteq> SDC_OK then 0 else n, m, st\<lparr>sd_fs := fg\<rparr>) }
     else Some (0, m, st) }"

definition scf_mkdir :: "('c, 'f) scf_env \<Rightarrow> byte \<Rightarrow> byte list \<Rightarrow> ('c, 'f) scf_state \<Rightarrow> (u32 \<times> ('c, 'f) scf_state) option" where
  "scf_mkdir env dev_id folder st = do {
     let dev_id = released env dev_id;
     if dev_id = SC_FILE_PC
     then do {
       (r, m, st) \<leftarrow> scd_file_request env (of_char (CHR ''m'')) 0 0 0 (cstring folder) [] st;
       Some (r, st) }
     else if dev_id = SC_FILE_ROMFS then Some (0, st)
     else if dev_id = SC_FILE_CDROM then Some (0, st)
     else if dev_id = SC_FILE_SDCARD
     then do {
       (ret, fg) \<leftarrow> sdc_fat_mkdir (e_card env) (e_now env) (e_junk env) (cstring folder) (sd_fs st);
       Some (if ret = SDC_OK then 1 else 0, st\<lparr>sd_fs := fg\<rparr>) }
     else Some (0, st) }"

definition scf_delete :: "('c, 'f) scf_env \<Rightarrow> byte \<Rightarrow> byte list \<Rightarrow> ('c, 'f) scf_state \<Rightarrow> (u32 \<times> ('c, 'f) scf_state) option" where
  "scf_delete env dev_id path st = do {
     let dev_id = released env dev_id;
     if dev_id = SC_FILE_PC
     then do {
       (r, m, st) \<leftarrow> scd_file_request env (of_char (CHR ''x'')) 0 0 0 (cstring path) [] st;
       Some (r, st) }
     else if dev_id = SC_FILE_ROMFS then Some (0, st)
     else if dev_id = SC_FILE_CDROM then Some (0, st)
     else if dev_id = SC_FILE_SDCARD
     then do {
       (ret, fg) \<leftarrow> sdc_fat_unlink (e_card env) (e_now env) (e_junk env) (cstring path) (sd_fs st);
       Some (if ret = SDC_OK then 1 else 0, st\<lparr>sd_fs := fg\<rparr>) }
     else Some (0, st) }"

subsection \<open>Listings\<close>

text \<open>An entry as the 32 bytes that the PC writes: the structure is packed and the byte order big endian.\<close>

definition entry_bytes :: "scdf_file_entry \<Rightarrow> byte list" where
  "entry_bytes e = fe_flags e # fe_filename e @ be_bytes 2 (ucast (fe_index e)) @ be_bytes 2 (ucast (fe_sort_index e))"

definition bytes_entry :: "byte list \<Rightarrow> scdf_file_entry" where
  "bytes_entry b = \<lparr>fe_flags = b ! 0, fe_filename = mem_read 1 SC_FILENAME_MAXLEN b,
     fe_index = ucast (the (be16_at b 28)), fe_sort_index = ucast (the (be16_at b 30))\<rparr>"

definition list_bytes :: "scdf_file_entry list \<Rightarrow> byte list" where
  "list_bytes l = concat (map entry_bytes l)"

definition bytes_list :: "nat \<Rightarrow> byte list \<Rightarrow> scdf_file_entry list" where
  "bytes_list n m = map (\<lambda>k. bytes_entry (mem_read (32 * k) 32 m)) [0..<n]"

text \<open>The loop over a folder of the RomFs, with the entry at \<open>e\<close>.\<close>

partial_function (option) romfs_list_loop :: "byte list \<Rightarrow> u32 \<Rightarrow> u32 \<Rightarrow> nat \<Rightarrow> u32 \<Rightarrow> u32 \<Rightarrow> scdf_file_entry list option
    \<Rightarrow> (u32 \<times> scdf_file_entry list option) option" where
  "romfs_list_loop m list_count list_offset e file_index retval ptr =
     Option.bind (peek m (e + 8)) (\<lambda>flags.
     Option.bind (if file_index \<ge> list_offset \<and> retval < list_count
       then (case ptr of
           None \<Rightarrow> None
         | Some l \<Rightarrow> Option.bind (peek l (unat retval)) (\<lambda>x. Option.bind (peek m (e + 9)) (\<lambda>nl.
             if unat nl \<le> length (fe_filename x) \<and> e + ENTRY_SIZE + unat nl \<le> length m
             then Some (retval + 1, Some (l[unat retval := x\<lparr>fe_flags := flags,
               fe_filename := mem_write 0 (mem_read (e + ENTRY_SIZE) (unat nl) m) (fe_filename x)\<rparr>]))
             else None)))
       else Some (retval, ptr)) (\<lambda>(retval, ptr).
     if flags AND FLAG_LASTENTRY \<noteq> 0 then Some (retval, ptr)
     else Option.bind (romfs_get_next_entry m (Some e)) (\<lambda>n. (case n of
         None \<Rightarrow> None
       | Some e \<Rightarrow> romfs_list_loop m list_count list_offset e (file_index + 1) retval ptr))))"

definition romfs_list :: "byte list option \<Rightarrow> u32 \<Rightarrow> u32 \<Rightarrow> byte list \<Rightarrow> scdf_file_entry list option
    \<Rightarrow> (u32 \<times> scdf_file_entry list option) option" where
  "romfs_list r list_count list_offset path ptr = do {
     e \<leftarrow> romfs_get_first_entry r path;
     case e of
       None \<Rightarrow> Some (0, ptr)
     | Some e \<Rightarrow> do {
         flags \<leftarrow> peek (the r) (e + 8);
         if flags AND FLAG_FOLDER \<noteq> 0 then romfs_list_loop (the r) list_count list_offset e 0 0 ptr
         else Some (0, ptr) } }"

text \<open>The first half of \<open>scf_filelist\<close>: what the device says. \<open>addr\<close> is the address of the list.\<close>

definition device_list :: "('c, 'f) scf_env \<Rightarrow> byte \<Rightarrow> u32 \<Rightarrow> scdf_file_entry list option \<Rightarrow> u32 \<Rightarrow> u32 \<Rightarrow> byte list \<Rightarrow> ('c, 'f) scf_state
    \<Rightarrow> (u32 \<times> scdf_file_entry list option \<times> ('c, 'f) scf_state) option" where
  "device_list env dev_id addr ptr list_count list_offset path st =
     (if dev_id = SC_FILE_PC
      then (case ptr of
          None \<Rightarrow> do {
            (r, m, st) \<leftarrow> scd_file_request env (of_char (CHR ''l'')) list_offset 0 list_count path [] st;
            Some (r, None, st) }
        | Some l \<Rightarrow> do {
            (r, m, st) \<leftarrow> scd_file_request env (of_char (CHR ''l'')) list_offset addr list_count path (list_bytes l) st;
            Some (r, Some (bytes_list (length l) m), st) })
      else if dev_id = SC_FILE_CDROM
      then if cdrom_status st AND SC_CDSTATUS_USE \<noteq> 0
        then (let st = cdrom_init_check env st; (r, ptr, f) = cd_list env ptr list_count list_offset path (cdrom_file st)
          in Some (r, ptr, st\<lparr>cdrom_file := f\<rparr>))
        else Some (0, ptr, st)
      else if dev_id = SC_FILE_ROMFS
      then do {
        (r, ptr) \<leftarrow> romfs_list (romfs st) list_count list_offset path ptr;
        Some (r, ptr, st) }
      else if dev_id = SC_FILE_SDCARD
      then do {
        (ret, n, ptr, fg) \<leftarrow> sdc_fat_filelist (e_card env) (e_lfn env) (e_dirstat env) (e_dirent env) ptr list_count list_offset
          path 0 (sd_fs st);
        Some (n, ptr, st\<lparr>sd_fs := fg\<rparr>) }
      else Some (0, ptr, st))"

definition clear_list :: "u32 \<Rightarrow> scdf_file_entry list option \<Rightarrow> scdf_file_entry list option option" where
  "clear_list list_count ptr = (case ptr of
     None \<Rightarrow> Some None
   | Some l \<Rightarrow> if unat list_count \<le> length l
       then Some (Some (mem_write 0 (replicate (unat list_count) zero_entry) l)) else None)"

definition scf_filelist :: "('c, 'f) scf_env \<Rightarrow> u32 \<Rightarrow> scdf_file_entry list option \<Rightarrow> u32 \<Rightarrow> u32 \<Rightarrow> byte \<Rightarrow> byte list option \<Rightarrow> byte
    \<Rightarrow> byte list \<Rightarrow> ('c, 'f) scf_state \<Rightarrow> (u32 \<times> scdf_file_entry list option \<times> ('c, 'f) scf_state) option" where
  "scf_filelist env addr ptr list_count list_offset list_sort f dev_id path st = do {
     ptr \<leftarrow> clear_list list_count ptr;
     (retval, ptr, st) \<leftarrow> device_list env (released env dev_id) addr ptr list_count list_offset (cstring path) st;
     case ptr of
       None \<Rightarrow> Some (retval, None, st)
     | Some l \<Rightarrow> do {
         l \<leftarrow> arrange_entries retval list_count list_sort f l;
         Some (retval, Some l, st) } }"

definition scf_filecount :: "('c, 'f) scf_env \<Rightarrow> byte \<Rightarrow> byte list \<Rightarrow> ('c, 'f) scf_state
    \<Rightarrow> (u32 \<times> ('c, 'f) scf_state) option" where
  "scf_filecount env dev_id path st = do {
     (n, ptr, st) \<leftarrow> scf_filelist env 0 None 0 0 0 None dev_id path st;
     Some (n, st) }"


subsection \<open>Reading from the RomFs\<close>

text \<open>Where a read starts: an offset behind the end of the file is taken as its beginning.\<close>

definition read_start :: "nat \<Rightarrow> nat \<Rightarrow> nat" where
  "read_start off len = (if len < off then 0 else off)"

lemma read_range_eq:
  assumes "off < 2 ^ 32" "len < 2 ^ 32" "read_start off len + n < 2 ^ 32"
  shows "read_range (word_of_nat len) (word_of_nat off) (word_of_nat n)
    = (word_of_nat (read_start off len), word_of_nat (min n (len - read_start off len)))"
proof -
  have inside: "read_range (word_of_nat len) (word_of_nat s0) (word_of_nat n) = (word_of_nat s0, word_of_nat (min n (len - s0)))"
    if le: "s0 \<le> len" "s0 + n < 2 ^ 32" for s0
  proof -
    have b: "s0 < 2 ^ 32" using le by linarith
    have nl: "\<not> (word_of_nat s0 :: u32) > word_of_nat len"
      using le(1) assms(2) b by (simp add: word_less_nat_alt)
    have s: "(word_of_nat s0 + word_of_nat n :: u32) = word_of_nat (s0 + n)" by simp
    have gt: "(word_of_nat s0 + word_of_nat n :: u32) > word_of_nat len \<longleftrightarrow> s0 + n > len"
      unfolding s using assms(2) le(2) by (simp add: word_less_nat_alt del: of_nat_add)
    show ?thesis using nl gt le(1) by (auto simp: read_range_def Let_def of_nat_diff min_def)
  qed
  show ?thesis
  proof (cases "len < off")
    case True
    then have "(word_of_nat off :: u32) > word_of_nat len" using assms(1,2) by (simp add: word_less_nat_alt)
    then have "read_range (word_of_nat len) (word_of_nat off) (word_of_nat n) = read_range (word_of_nat len) (word_of_nat 0) (word_of_nat n)"
      by (simp add: read_range_def Let_def)
    then show ?thesis using inside [of 0] assms(3) True by (simp add: read_start_def)
  next
    case False
    then show ?thesis using inside [of off] assms(3) by (simp add: read_start_def)
  qed
qed

text \<open>When the offset and the size wrap at 32 bits, the check passes and the whole size is asked for.\<close>

lemma read_range_wraps:
  assumes "off \<le> len" "len < 2 ^ 32" "n < 2 ^ 32" "2 ^ 32 \<le> off + n" "off + n - 2 ^ 32 \<le> len"
  shows "read_range (word_of_nat len) (word_of_nat off) (word_of_nat n) = (word_of_nat off, word_of_nat n)"
proof -
  have "off + n - 2 ^ 32 < 2 ^ 32" using assms by linarith
  then have "unat (word_of_nat (off + n) :: u32) = off + n - 2 ^ 32"
    using assms(4) by (simp add: unat_of_nat le_mod_geq del: of_nat_add)
  then have "\<not> (word_of_nat (off + n) :: u32) > word_of_nat len"
    using assms(2,5) by (simp add: word_less_nat_alt del: of_nat_add)
  moreover have "\<not> (word_of_nat off :: u32) > word_of_nat len" using assms(1,2) by (simp add: word_less_nat_alt)
  ultimately show ?thesis by (simp add: read_range_def Let_def)
qed

lemma romfs_size_of:
  assumes "scf_filename_bufferize filename = Some b" "romfs st = Some m"
    and "romfs_get_first_entry (Some m) (cstring b) = Some (Some e)" "romfs_entry_at m e = Some entry"
    and "e_flags entry AND FLAG_FOLDER = 0" "romfs_get_entry_size m entry = Some n"
  shows "scf_size env SC_FILE_ROMFS filename st = Some (n, st\<lparr>filename_buff := b\<rparr>)"
  using assms by (simp add: scf_size_def bufferize_def released_def)

text \<open>
  C28: Reading a file of the RomFs image by its path, in whatever case and with slashes or backslashes,
  delivers the bytes of its contents from the offset on, as many as were asked for or as there are, raw or
  compressed, to the start of the caller's memory, which has room for them, leaves the rest of that memory alone and returns their
  number. An offset behind the end is taken as 0, so that the beginning of the file is delivered. The offset so
  corrected and the size asked for must not add up to \<open>2 ^ 32\<close> or more: then the code's check for the end wraps.
\<close>

theorem scf_read_romfs_correct:
  assumes "filename = s @ 0 # r" "0 \<notin> set s" "length s < SC_PATHNAME_MAXLEN"
    and "map to_slash s = path_bytes lead cs trail" "\<forall>c\<in>set cs. name_ok c"
    and "romfs st = Some m" "romfs_check_header (Some m) False = Some True" "length m < 2 ^ 32"
    and "romfs_resolve m HEADER_SIZE cs = Some (Some e)" "romfs_entry_at m e = Some entry" "entry_content m entry content"
    and "off < 2 ^ 32" "s0 = (if length content < off then 0 else off)" "s0 + n < 2 ^ 32"
    and "length (decomp_buff st) = ROMFS_COMP_CHUNK" "min n (length content - s0) \<le> length buffer"
  shows "\<exists>st'. scf_read env SC_FILE_ROMFS filename (word_of_nat off) (word_of_nat n) ptr buffer st
      = Some (word_of_nat (min n (length content - s0)), mem_write 0 (take n (drop s0 content)) buffer, st')
    \<and> romfs st' = romfs st \<and> sd_fs st' = sd_fs st \<and> cdrom_file st' = cdrom_file st"
proof -
  let ?k = "min n (length content - s0)"
  obtain b where b: "scf_filename_bufferize filename = Some b" "cstring b = path_bytes lead cs trail"
    using scf_filename_bufferize_eq [OF assms(1,2)] assms(3,4) by auto
  have look: "romfs_get_first_entry (Some m) (cstring b) = Some (Some e)"
    unfolding b(2) using romfs_lookup_correct [OF assms(7,5)] assms(9) by simp
  have flags: "e_flags entry AND FLAG_FOLDER = 0" and len: "length content < 2 ^ 32"
    using assms(11) by (simp_all add: entry_content_def)
  have s0: "s0 = read_start off (length content)" using assms(13) by (simp add: read_start_def)
  have in_file: "s0 + ?k \<le> length content" using assms(13) by (auto simp: min_def)
  obtain buf' where data: "romfs_get_entry_size m entry = Some (word_of_nat (length content))"
      "romfs_get_entry_data m entry (decomp_buff st) buffer (word_of_nat s0) (word_of_nat ?k)
        = Some (buf', mem_write 0 (mem_read s0 ?k content) buffer)"
    using romfs_read_range [OF assms(11) in_file assms(8,16,15)] by blast
  have take: "mem_read s0 ?k content = take n (drop s0 content)"
    by (simp add: mem_read_def min_def)
  define st1 where "st1 = st\<lparr>filename_buff := b\<rparr>"
  have sz: "scf_size env SC_FILE_ROMFS filename st1 = Some (word_of_nat (length content), st1)"
    using romfs_size_of [of filename b st1 m e entry "word_of_nat (length content)" env] b(1) look assms(6,10) flags data(1)
    by (simp add: st1_def)
  have st1: "romfs st1 = Some m" "filename_buff st1 = b" "decomp_buff st1 = decomp_buff st" "sd_fs st1 = sd_fs st"
      "cdrom_file st1 = cdrom_file st"
    using assms(6) by (simp_all add: st1_def)
  note rng = read_range_eq [OF assms(12) len assms(14) [unfolded s0], folded s0]
  have dev: "released env SC_FILE_ROMFS = SC_FILE_ROMFS" by (simp add: released_def)
  have start: "bufferize filename st = Some st1" using b(1) by (simp add: bufferize_def st1_def)
  show ?thesis
  proof (cases "?k = 0")
    case True
    then have nil: "take n (drop s0 content) = []" by auto
    have "scf_read env SC_FILE_ROMFS filename (word_of_nat off) (word_of_nat n) ptr buffer st
        = Some (0, buffer, st1)"
      unfolding scf_read_def start Option.bind_lunit dev Let_def sz using rng True by simp
    then show ?thesis unfolding nil using True st1 assms(6) by simp
  next
    case False
    have "?k < 2 ^ 32" using len by linarith
    then have nz: "(word_of_nat ?k :: u32) \<noteq> 0" using False by (simp only: word_of_nat_eq_0_iff) (auto dest: dvd_imp_le)
    have "scf_read env SC_FILE_ROMFS filename (word_of_nat off) (word_of_nat n) ptr buffer st
        = Some (word_of_nat ?k, mem_write 0 (mem_read s0 ?k content) buffer, st1\<lparr>decomp_buff := buf'\<rparr>)"
      unfolding scf_read_def start Option.bind_lunit dev Let_def sz
      using rng nz st1 look assms(6,10) flags data(2) by simp
    then show ?thesis
      unfolding take using st1 assms(6) by (intro exI [where x = "st1\<lparr>decomp_buff := buf'\<rparr>"] conjI) simp_all
  qed
qed


subsection \<open>Listing a folder of the RomFs\<close>

text \<open>
  The loop takes the first entry of the folder as it is and then the enabled ones. A name of 27 characters
  with its null would not fit in the entry.
\<close>

abbreviation d_enabled :: "dent \<Rightarrow> bool" where
  "d_enabled d \<equiv> d_flags d AND FLAG_ENABLED \<noteq> 0"

definition visible :: "dent list \<Rightarrow> dent list" where
  "visible ds = (case ds of [] \<Rightarrow> [] | d # ds \<Rightarrow> d # filter (\<lambda>d. d_enabled d) ds)"

definition dent_entry :: "dent \<Rightarrow> scdf_file_entry" where
  "dent_entry d = zero_entry\<lparr>fe_flags := d_flags d, fe_filename := mem_write 0 (d_name d @ [0]) (fe_filename zero_entry)\<rparr>"

lemma next_enabled:
  assumes "folder_at m p ds" "\<exists>d\<in>set ds. d_enabled d"
  shows "\<exists>pre d' ds' p'. ds = pre @ d' # ds' \<and> (\<forall>d\<in>set pre. \<not> d_enabled d) \<and> d_enabled d'
    \<and> head_opt (enabled_from p ds) = Some p' \<and> folder_at m p' (d' # ds')"
  using assms
proof (induction ds arbitrary: p)
  case (Cons d ds)
  show ?case
  proof (cases "d_enabled d")
    case True
    then show ?thesis using Cons.prems(1) by (intro exI [where x = "[]"] exI [where x = d] exI [where x = ds] exI [where x = p])
      (simp add: head_opt_def)
  next
    case False
    then have e: "\<exists>d\<in>set ds. d_enabled d" using Cons.prems(2) by auto
    then have "ds \<noteq> []" by auto
    then have "folder_at m (p + d_len d) ds" using folder_at_Cons(6) [OF Cons.prems(1)] by simp
    from Cons.IH [OF this e] obtain pre d' ds' p' where "ds = pre @ d' # ds'" "\<forall>d\<in>set pre. \<not> d_enabled d" "d_enabled d'"
      "head_opt (enabled_from (p + d_len d) ds) = Some p'" "folder_at m p' (d' # ds')" by blast
    then show ?thesis using False by (intro exI [where x = "d # pre"] exI [where x = d'] exI [where x = ds'] exI [where x = p']) simp
  qed
qed simp

lemma romfs_list_loop_eq:
  assumes "folder_at m e (d # ds)" "d_enabled (last (d # ds))" "\<forall>x\<in>set (d # ds). length (d_name x) < SC_FILENAME_MAXLEN"
    and "k + length (d # ds) < 2 ^ 32" "ret \<le> unat cnt" "unat cnt \<le> length l" "\<forall>i. ret \<le> i \<and> i < unat cnt \<longrightarrow> l ! i = zero_entry"
    and "xs = take (unat cnt - ret) (drop (unat off - k) (visible (d # ds)))"
  shows "romfs_list_loop m cnt off e (word_of_nat k) (word_of_nat ret) (Some l)
    = Some (word_of_nat (ret + length xs), Some (mem_write ret (map dent_entry xs) l))"
  using assms
proof (induction "length ds" arbitrary: d ds e k ret l xs rule: less_induct)
  case less
  note d = folder_at_Cons [OF less.prems(1)]
  let ?nl = "word_of_nat (length (d_name d) + 1) :: byte"
  obtain r where r: "drop (e + ENTRY_SIZE) m = (d_name d @ [0]) @ r" using d(5) by auto
  have nm: "mem_read (e + ENTRY_SIZE) (unat ?nl) m = d_name d @ [0]" "e + ENTRY_SIZE + unat ?nl \<le> length m"
    using drop_eq_append_D(1,2) [OF r] unfolding d(3) by simp_all
  have fit: "unat ?nl \<le> SC_FILENAME_MAXLEN" unfolding d(3) using less.prems(3) by simp
  have "unat cnt < 2 ^ LENGTH(32)" by (rule unsigned_less)
  then have ret: "ret < 2 ^ 32" "k < 2 ^ 32" using less.prems(4,5) by simp_all
  have c: "(word_of_nat ret :: u32) < cnt \<longleftrightarrow> ret < unat cnt" "off \<le> (word_of_nat k :: u32) \<longleftrightarrow> unat off \<le> k"
    using ret by (simp_all add: word_less_nat_alt word_le_nat_alt)
  let ?take = "unat off \<le> k \<and> ret < unat cnt"
  define ret' where "ret' = (if ?take then ret + 1 else ret)"
  define l' where "l' = (if ?take then l[ret := dent_entry d] else l)"
  define v where "v = filter (\<lambda>d. d_enabled d) ds"
  have xs: "xs = (if ?take then [d] else []) @ take (unat cnt - ret') (drop (unat off - (k + 1)) v)"
    using less.prems(8) by (auto simp: visible_def v_def ret'_def drop_Cons' take_Cons' not_le not_less)
  have step: "romfs_list_loop m cnt off e (word_of_nat k) (word_of_nat ret) (Some l)
    = (if d_flags d AND FLAG_LASTENTRY \<noteq> 0 then Some (word_of_nat ret', Some l')
       else Option.bind (romfs_get_next_entry m (Some e)) (\<lambda>n. (case n of None \<Rightarrow> None
         | Some e \<Rightarrow> romfs_list_loop m cnt off e (word_of_nat k + 1) (word_of_nat ret') (Some l'))))"
  proof (cases ?take)
    case True
    then have z: "l ! ret = zero_entry" "ret < length l" using less.prems(6,7) by auto
    have "zero_entry\<lparr>fe_flags := d_flags d, fe_filename := mem_write 0 (mem_read (e + ENTRY_SIZE) (unat ?nl) m) (fe_filename zero_entry)\<rparr>
        = dent_entry d" unfolding nm(1) dent_entry_def ..
    moreover have "length (fe_filename zero_entry) = SC_FILENAME_MAXLEN" by (simp add: zero_entry_def)
    moreover have "unat (word_of_nat ret :: u32) = ret" using ret(1) by simp
    moreover have "word_of_nat ret + 1 = (word_of_nat (ret + 1) :: u32)" by simp
    ultimately show ?thesis
      using True d(1,2) z nm(2) fit c by (subst romfs_list_loop.simps)
        (simp del: unat_word_of_nat of_nat_Suc of_nat_add add: ret'_def l'_def)
  next
    case False
    then show ?thesis
      using d(1) c by (subst romfs_list_loop.simps) (auto simp: ret'_def l'_def)
  qed
  have mw: "mem_write ret (map dent_entry xs) l = mem_write ret' (map dent_entry (take (unat cnt - ret') (drop (unat off - (k + 1)) v))) l'"
    using less.prems(6) by (auto simp: xs ret'_def l'_def mem_write_Cons)
  have rl: "ret + length xs = ret' + length (take (unat cnt - ret') (drop (unat off - (k + 1)) v))"
    by (simp only: xs ret'_def) simp
  show ?case
  proof (cases "ds = []")
    case True
    then show ?thesis unfolding step mw rl using d(7) by (simp add: v_def)
  next
    case False
    then have l: "d_flags d AND FLAG_LASTENTRY = 0" "folder_at m (e + d_len d) ds" using d(6) by simp_all
    have "d_enabled (last ds)" "last ds \<in> set ds" using less.prems(2) False by simp_all
    then obtain pre d' ds' p' where n: "ds = pre @ d' # ds'" "\<forall>d\<in>set pre. \<not> d_enabled d" "d_enabled d'"
        "head_opt (enabled_from (e + d_len d) ds) = Some p'" "folder_at m p' (d' # ds')"
      using next_enabled [OF l(2)] by blast
    have nx: "romfs_get_next_entry m (Some e) = Some (Some p')"
      using romfs_get_next_entry_correct [OF less.prems(1)] n(4) by simp
    have v: "v = visible (d' # ds')" using n(2,3) by (simp add: v_def n(1) visible_def)
    have zero: "\<forall>i. ret' \<le> i \<and> i < unat cnt \<longrightarrow> l' ! i = zero_entry" "ret' \<le> unat cnt" "unat cnt \<le> length l'"
      using less.prems(5,6,7) by (auto simp: ret'_def l'_def)
    have "romfs_list_loop m cnt off p' (word_of_nat (k + 1)) (word_of_nat ret') (Some l')
        = Some (word_of_nat (ret' + length (take (unat cnt - ret') (drop (unat off - (k + 1)) v))),
            Some (mem_write ret' (map dent_entry (take (unat cnt - ret') (drop (unat off - (k + 1)) v))) l'))"
      using less.prems(2,3,4) n zero by (intro less.hyps [OF _ n(5)]) (simp_all add: v)
    moreover have "(word_of_nat k + 1 :: u32) = word_of_nat (k + 1)" by simp
    ultimately show ?thesis
      unfolding step mw rl nx Option.bind_lunit l(1) by (simp only: option.case simp_thms if_False)
  qed
qed


lemma padded_dent:
  assumes "length (d_name d) < SC_FILENAME_MAXLEN" "0 \<notin> set (d_name d)"
  shows "padded_name (fe_filename (dent_entry d))" "length (fe_filename (dent_entry d)) = SC_FILENAME_MAXLEN"
proof -
  have n: "fe_filename (dent_entry d) = d_name d @ 0 # replicate (SC_FILENAME_MAXLEN - 1 - length (d_name d)) 0"
    using assms(1) by (simp add: dent_entry_def zero_entry_def mem_write_def)
  then have c: "cstring (fe_filename (dent_entry d)) = d_name d" using assms(2) by simp
  have "0 # replicate (SC_FILENAME_MAXLEN - 1 - length (d_name d)) 0 = replicate (SC_FILENAME_MAXLEN - length (d_name d)) (0 :: byte)"
    using assms(1) by (simp add: Suc_diff_Suc flip: replicate_Suc)
  then show "padded_name (fe_filename (dent_entry d))" "length (fe_filename (dent_entry d)) = SC_FILENAME_MAXLEN"
    using assms(1) c by (simp_all add: padded_name_def n)
qed

lemma listed_zero: "listed_ok zero_entry" "length (fe_filename zero_entry) = SC_FILENAME_MAXLEN"
  by (simp_all add: listed_ok_def zero_entry_def padded_name_def cstring_def)

text \<open>What the device leaves in the list before it is put in order.\<close>

lemma romfs_list_eq:
  assumes "cstring path = path_bytes lead cs trail" "\<forall>c\<in>set cs. name_ok c" "romfs_check_header (Some m) False = Some True"
    and "romfs_resolve m HEADER_SIZE cs = Some (Some e)" "folder_at m e (d # ds)" "d_flags d AND FLAG_FOLDER \<noteq> 0"
    and "d_enabled (last (d # ds))" "\<forall>x\<in>set (d # ds). length (d_name x) < SC_FILENAME_MAXLEN" "length (d # ds) < 2 ^ 32"
    and "unat cnt \<le> length l" "v = take (unat cnt) (drop (unat off) (visible (d # ds)))"
  shows "romfs_list (Some m) cnt off (cstring path) (Some (mem_write 0 (replicate (unat cnt) zero_entry) l))
    = Some (word_of_nat (length v), Some (map dent_entry v @ replicate (unat cnt - length v) zero_entry @ drop (unat cnt) l))"
proof -
  let ?l = "mem_write 0 (replicate (unat cnt) zero_entry) l"
  have l: "?l = replicate (unat cnt) zero_entry @ drop (unat cnt) l" by (simp add: mem_write_def)
  have "romfs_list_loop m cnt off e (word_of_nat 0) (word_of_nat 0) (Some ?l)
      = Some (word_of_nat (0 + length v), Some (mem_write 0 (map dent_entry v) ?l))"
    using assms(9,10,11) by (intro romfs_list_loop_eq [OF assms(5,7,8)]) (simp_all add: l nth_append)
  moreover have "length v \<le> unat cnt" using assms(11) by simp
  then have "mem_write 0 (map dent_entry v) ?l
      = map dent_entry v @ replicate (unat cnt - length v) zero_entry @ drop (unat cnt) l"
    by (simp add: l mem_write_def drop_replicate)
  moreover have "romfs_get_first_entry (Some m) (cstring path) = Some (Some e)"
    unfolding assms(1) using romfs_lookup_correct [OF assms(3,2)] assms(4) by simp
  ultimately show ?thesis
    using folder_at_Cons(1) [OF assms(5)] assms(6) by (simp add: romfs_list_def)
qed

text \<open>
  C25: Listing a folder of the RomFs image of fewer than 65536 entries, whose names have at most 26 characters,
  whose first entry is a folder, whose last one is enabled and of which none has the flag of a filtered entry already, with a filter whose extensions have at most four characters: the
  entries from \<open>list_offset\<close> on, as many as there are and the list has room for, are stored in their order in
  the folder, with a slash before the names of folders, \<open>.\<close>, \<open>..\<close> and the files without one of the
  extensions of the filter disabled, and the rest of the list is cleared; their number is returned. Without
  sorting, \<open>sort_index\<close> counts; with it, it is a permutation that puts the entries in order, folders before
  files and then by name without regard to case; for so many entries the sort returns. This is what the code does: contrary
  to the comment of its header, it also sorts with an offset or a list that is too short, and it
  returns the number of entries stored and not that of the folder.
\<close>

theorem scf_filelist_romfs_correct:
  assumes "cstring path = path_bytes lead cs trail" "\<forall>c\<in>set cs. name_ok c"
    and "romfs st = Some m" "romfs_check_header (Some m) False = Some True"
    and "romfs_resolve m HEADER_SIZE cs = Some (Some e)" "folder_at m e (d # ds)" "d_flags d AND FLAG_FOLDER \<noteq> 0"
    and "d_enabled (last (d # ds))" "length (d # ds) < 2 ^ 16"
    and "\<forall>x\<in>set (d # ds). length (d_name x) < SC_FILENAME_MAXLEN \<and> 0 \<notin> set (d_name x) \<and> d_flags x AND FLAG_FILTERED = 0"
    and "unat list_count \<le> length l" "exts_ok exts"
    and "v = take (unat list_count) (drop (unat list_offset) (visible (d # ds)))" "n = length v"
  shows "\<exists>l'. scf_filelist env addr (Some l) list_count list_offset list_sort (map_option filter_bytes exts) SC_FILE_ROMFS path st
      = Some (word_of_nat n, Some (l' @ drop (unat list_count) l), st)
    \<and> unsorted l' = unsorted (arranged n exts (map dent_entry v @ replicate (unat list_count - n) zero_entry))
    \<and> distinct (sort_indexes n l') \<and> set (sort_indexes n l') = {..<n}
    \<and> (if list_sort = 0 then sort_indexes n l' = [0..<n] else in_order n l')"
proof -
  let ?used = "map dent_entry v @ replicate (unat list_count - n) zero_entry"
  have names: "\<forall>x\<in>set (d # ds). length (d_name x) < SC_FILENAME_MAXLEN" using assms(10) by simp
  have n: "n \<le> unat list_count" "length ?used = unat list_count" using assms(13,14) by simp_all
  have "length (visible (d # ds)) \<le> length (d # ds)" by (simp add: visible_def)
  then have n16: "n < 2 ^ 16" using assms(9,13,14) by simp
  have "(word_of_nat n :: u32) \<le> list_count" using n(1) n16 by (simp add: word_le_nat_alt)
  then have mn: "n = unat (min (word_of_nat n) list_count)" using n16 by (simp add: min_def)
  have "set v \<subseteq> set (d # ds)"
    using assms(13) by (auto simp: visible_def dest!: in_set_takeD in_set_dropD)
  then have ve: "\<forall>x\<in>set v. listed_ok (dent_entry x) \<and> length (fe_filename (dent_entry x)) = SC_FILENAME_MAXLEN"
    using assms(10) padded_dent by (fastforce simp: listed_ok_def dent_entry_def [of _])
  have ok: "\<forall>e\<in>set ?used. listed_ok e \<and> length (fe_filename e) = SC_FILENAME_MAXLEN"
    using ve listed_zero by auto
  have dev: "device_list env (released env SC_FILE_ROMFS) addr (Some (mem_write 0 (replicate (unat list_count) zero_entry) l))
      list_count list_offset (cstring path) st = Some (word_of_nat n, Some (?used @ drop (unat list_count) l), st)"
    using romfs_list_eq [OF assms(1,2,4,5,6,7,8) names _ assms(11,13)] assms(3,9,14)
    by (simp add: device_list_def released_def)
  have clear: "clear_list list_count (Some l) = Some (Some (mem_write 0 (replicate (unat list_count) zero_entry) l))"
    using assms(11) by (simp add: clear_list_def)
  obtain l' where l': "arrange_entries (word_of_nat n) list_count list_sort (map_option filter_bytes exts)
        (?used @ drop (unat list_count) l) = Some (l' @ drop (unat list_count) l)"
      "unsorted l' = unsorted (arranged n exts ?used)" "sortable n l'"
      "if list_sort = 0 then sort_indexes n l' = [0..<n] else in_order n l'"
    using arrange_entries_correct [OF n(2) mn n16 ok assms(12)] by blast
  have "scf_filelist env addr (Some l) list_count list_offset list_sort (map_option filter_bytes exts) SC_FILE_ROMFS path st
      = Some (word_of_nat n, Some (l' @ drop (unat list_count) l), st)"
    unfolding scf_filelist_def clear Option.bind_lunit dev prod.case option.case l'(1) ..
  then show ?thesis using l'(2,3,4) by (intro exI [where x = l'] conjI) (simp_all add: sortable_def)
qed

text \<open>
  Counting the entries of a folder of the RomFs always gives zero: the count is the number of entries that
  have been stored, and no room is given.
\<close>

lemma romfs_list_loop_count:
  assumes "romfs_list_loop m cnt off e k r p = Some y" "cnt = 0" "p = None"
  shows "y = (r, None)"
proof -
  have "cnt = 0 \<longrightarrow> p = None \<longrightarrow> y = (r, None)"
  proof (rule romfs_list_loop.raw_induct [where P = "\<lambda>m cnt off e k r p y. cnt = 0 \<longrightarrow> p = None \<longrightarrow> y = (r, None)", OF _ assms(1)])
    fix loop :: "byte list \<Rightarrow> u32 \<Rightarrow> u32 \<Rightarrow> nat \<Rightarrow> u32 \<Rightarrow> u32 \<Rightarrow> scdf_file_entry list option
      \<Rightarrow> (u32 \<times> scdf_file_entry list option) option"
    fix m cnt off e k r p y
    assume IH: "\<And>m cnt off e k r p y. loop m cnt off e k r p = Some y \<Longrightarrow> cnt = 0 \<longrightarrow> p = None \<longrightarrow> y = (r, None)"
    assume "Option.bind (peek m (e + 8)) (\<lambda>flags.
     Option.bind (if k \<ge> off \<and> r < cnt
       then (case p of
           None \<Rightarrow> None
         | Some l \<Rightarrow> Option.bind (peek l (unat r)) (\<lambda>x. Option.bind (peek m (e + 9)) (\<lambda>nl.
             if unat nl \<le> length (fe_filename x) \<and> e + ENTRY_SIZE + unat nl \<le> length m
             then Some (r + 1, Some (l[unat r := x\<lparr>fe_flags := flags,
               fe_filename := mem_write 0 (mem_read (e + ENTRY_SIZE) (unat nl) m) (fe_filename x)\<rparr>]))
             else None)))
       else Some (r, p)) (\<lambda>(r, p).
     if flags AND FLAG_LASTENTRY \<noteq> 0 then Some (r, p)
     else Option.bind (romfs_get_next_entry m (Some e)) (\<lambda>n. (case n of
         None \<Rightarrow> None
       | Some e \<Rightarrow> loop m cnt off e (k + 1) r p)))) = Some y"
    then show "cnt = 0 \<longrightarrow> p = None \<longrightarrow> y = (r, None)"
      using IH [of _ 0 _ _ _ _ None] by (cases y) (auto simp: bind_eq_Some_conv simp del: split_paired_All split: if_splits option.splits)
  qed
  then show ?thesis using assms(2,3) by simp
qed

lemma scf_filecount_romfs:
  assumes "scf_filecount env SC_FILE_ROMFS path st = Some (n, st')"
  shows "n = 0"
proof -
  obtain r p where "romfs_list (romfs st) 0 0 (cstring path) None = Some (r, p)" "n = r"
    using assms by (auto simp: scf_filecount_def scf_filelist_def clear_list_def device_list_def released_def
        bind_eq_Some_conv split: option.splits)
  then show ?thesis
    by (auto simp: romfs_list_def bind_eq_Some_conv dest: romfs_list_loop_count split: option.splits if_splits)
qed


subsection \<open>What a request leaves for the PC\<close>

text \<open>The frame: its length, the type, three numbers, the name and its null, and one byte of what the buffer
  held before, since the two bytes of the header are counted twice.\<close>

definition request_frame :: "byte \<Rightarrow> u32 \<Rightarrow> u32 \<Rightarrow> u32 \<Rightarrow> byte list \<Rightarrow> byte \<Rightarrow> byte list" where
  "request_frame type foffset frw_address frw_len fname stale =
     word_of_nat (16 + length fname) # type # be_bytes 4 foffset @ be_bytes 4 frw_address @ be_bytes 4 frw_len
       @ fname @ [0, stale]"

lemma request_message_eq:
  assumes "of_char (CHR ''%'') \<notin> set fname" "length fname \<le> 239" "length buff = SCDF_BUFFSIZE"
  shows "\<exists>buff'. request_message type foffset frw_address frw_len fname buff = Some (buff', word_of_nat (16 + length fname))
    \<and> length buff' = SCDF_BUFFSIZE
    \<and> take (16 + length fname) buff' = request_frame type foffset frw_address frw_len fname (buff ! (15 + length fname))"
proof -
  let ?f = "be_bytes 4 foffset" and ?a = "be_bytes 4 frw_address" and ?l = "be_bytes 4 frw_len"
  define body where "body = ?f @ ?a @ ?l @ fname @ [0]"
  have len: "length body = 13 + length fname" by (simp add: body_def)
  have "mem_write 14 (fname @ [0]) (mem_write 10 ?l (mem_write 6 ?a (mem_write 2 ?f buff))) = mem_write 2 body buff"
    using mem_write_append [of 2 ?f ?a buff] mem_write_append [of 2 "?f @ ?a" ?l buff]
      mem_write_append [of 2 "?f @ ?a @ ?l" "fname @ [0]" buff] assms(2,3) by (simp add: body_def)
  moreover have "take (SCDF_BUFFSIZE - 14 - 1) fname = fname" using assms(2) by simp
  moreover have "(2 + word_of_nat (14 + length fname) :: u32) = word_of_nat (16 + length fname)" by simp
  moreover have "ucast (word_of_nat (16 + length fname) :: u32) = (word_of_nat (16 + length fname) :: byte)"
    using assms(2) by (simp add: unsigned_of_nat take_bit_nat_eq_self del: of_nat_add)
  ultimately have m: "request_message type foffset frw_address frw_len fname buff
    = Some ((mem_write 2 body buff)[0 := word_of_nat (16 + length fname), 1 := type], word_of_nat (16 + length fname))"
    using assms(1) unfolding request_message_def Let_def by (simp only: if_False)
  obtain x y where "take 2 buff = [x, y]"
    using assms(3) by (cases buff; cases "tl buff") auto
  then have w: "(mem_write 2 body buff)[0 := v, 1 := t] = v # t # body @ drop (15 + length fname) buff" for v t
    by (simp add: mem_write_def len)
  have "drop (15 + length fname) buff = buff ! (15 + length fname) # drop (16 + length fname) buff"
    using assms(2,3) Cons_nth_drop_Suc [of "15 + length fname" buff] by simp
  then have "take (16 + length fname) (v # t # body @ drop (15 + length fname) buff) = v # t # body @ [buff ! (15 + length fname)]" for v t
    using len by (simp add: numeral_eq_Suc)
  then show ?thesis
    unfolding m w using assms(2,3)
    by (intro exI [where x = "word_of_nat (16 + length fname) # type # body @ drop (15 + length fname) buff"] conjI)
      (simp_all add: len request_frame_def, simp add: body_def)
qed

lemma scd_cbwrite_take:
  assumes "unat n \<le> length data"
  shows "scd_cbwrite base d data n = scd_cbwrite base d (take (unat n) data) n"
proof -
  have "mem_read (unat e) (unat (n - e)) (take (unat n) data) = mem_read (unat e) (unat (n - e)) data"
    "take (unat e) (take (unat n) data) = take (unat e) data" if "\<not> e \<ge> n" for e
  proof -
    have le: "e \<le> n" using that by simp
    then have "unat (n - e) = unat n - unat e" "unat e \<le> unat n" by (simp_all add: unat_sub word_le_nat_alt)
    then show "mem_read (unat e) (unat (n - e)) (take (unat n) data) = mem_read (unat e) (unat (n - e)) data"
      "take (unat e) (take (unat n) data) = take (unat e) data"
      by (simp_all add: mem_read_def drop_take min_def)
  qed
  then show ?thesis using assms unfolding scd_cbwrite_def Let_def by (auto split: if_splits)
qed

lemma cb_contents_status: "cb_contents (d\<lparr>proc_complete := a, fileio_size := b\<rparr>) = cb_contents d"
  by (simp add: cb_contents_def Let_def)

text \<open>
  A request with the debugger in use waits until the PC has consumed what the circular buffer held, and
  then the buffer holds the frame of the request when the console starts to wait for the answer.
\<close>

lemma scd_file_request_frame:
  assumes "\<not> e_release env" "dbg_disable (dbg st) = 0" "length (request_buff st) = SCDF_BUFFSIZE"
    and "of_char (CHR ''%'') \<notin> set fname" "length fname \<le> 239"
    and "scd_logflush env (dbg_valid st) (dbg st) m = Some (d0, m0)" "cb_inv (e_rbuffer env) d0" "cb_contents d0 = []"
  shows "\<exists>b d1. cb_contents d1 = request_frame type foffset frw_address frw_len fname (request_buff st ! (15 + length fname))
    \<and> proc_complete d1 = 0 \<and> fileio_size d1 = 0
    \<and> scd_file_request env type foffset frw_address frw_len fname m st
      = do { (d, m) \<leftarrow> complete_loop env d1 m0; Some (fileio_size d, m, st\<lparr>request_buff := b, dbg := d\<rparr>) }"
proof -
  let ?fr = "request_frame type foffset frw_address frw_len fname (request_buff st ! (15 + length fname))"
  obtain b where b: "request_message type foffset frw_address frw_len fname (request_buff st)
      = Some (b, word_of_nat (16 + length fname))" "length b = SCDF_BUFFSIZE" "take (16 + length fname) b = ?fr"
    using request_message_eq [OF assms(4,5,3)] by blast
  have u: "unat (word_of_nat (16 + length fname) :: u32) = 16 + length fname"
    using assms(5) by (intro unat_word_of_nat) simp
  have lf: "length ?fr = 16 + length fname" by (simp add: request_frame_def)
  have "scd_cbwrite (e_rbuffer env) d0 b (word_of_nat (16 + length fname))
      = scd_cbwrite (e_rbuffer env) d0 ?fr (word_of_nat (length ?fr))"
    using scd_cbwrite_take [of "word_of_nat (16 + length fname)" b] u b(2,3) assms(5) unfolding lf by simp
  then obtain d1 where d1: "scd_cbwrite (e_rbuffer env) d0 b (word_of_nat (16 + length fname)) = Some d1" "cb_contents d1 = ?fr"
    using scd_cbwrite_append [OF assms(7), of ?fr] assms(5,8) lf by auto
  have "scd_file_request env type foffset frw_address frw_len fname m st
      = do { (d, m) \<leftarrow> complete_loop env (d1\<lparr>proc_complete := 0, fileio_size := 0\<rparr>) m0; Some (fileio_size d, m, st\<lparr>request_buff := b, dbg := d\<rparr>) }"
    unfolding scd_file_request_def using assms(1,2) by (simp only: b(1) assms(6) d1(1) if_False simp_thms Option.bind_lunit prod.case)
  moreover have "cb_contents (d1\<lparr>proc_complete := 0, fileio_size := 0\<rparr>) = ?fr"
    using d1(2) by (simp only: cb_contents_status)
  ultimately show ?thesis by (intro exI [where x = b] exI [where x = "d1\<lparr>proc_complete := 0, fileio_size := 0\<rparr>"] conjI) simp_all
qed


subsection \<open>A console with an image\<close>

text \<open>The PC never answers, there is no CD, and the SD card is the sample volume.\<close>

definition example_env :: "(sample_card, unit) scf_env" where
  "example_env = \<lparr>e_release = False, e_card = sample_env, e_now = sample_now, e_junk = [], e_lfn = empty_lfn,
     e_dirstat = \<lparr>dirls_sector = 0, dirls_cluster = 0, dirls_offset = 0\<rparr>,
     e_dirent = \<lparr>de_filename = [], de_is_dir = False, de_cluster = 0, de_size = 0, de_access_date = 0, de_write_time = 0,
       de_write_date = 0, de_create_date = 0, de_create_time = 0\<rparr>,
     e_rbuffer = 0x20200020, e_size_addr = 0x06001000, e_check = (\<lambda>d m. (d, m)), cd_init = id, cd_open = (\<lambda>_. id), cd_close = id,
     cd_size = (\<lambda>_. 0), cd_seek = (\<lambda>_. id), cd_read = (\<lambda>_ b f. (False, b, f)), cd_list = (\<lambda>p _ _ _ f. (0, p, f))\<rparr>"

definition example_state :: "byte list \<Rightarrow> (sample_card, unit) scf_state" where
  "example_state m = \<lparr>romfs = Some m, filename_buff = replicate SC_PATHNAME_MAXLEN 0, request_buff = replicate SCDF_BUFFSIZE 0,
     cdrom_status = 0, ext_dev = 0, dbg = cb_example, dbg_valid = True, decomp_buff = replicate ROMFS_COMP_CHUNK 0,
     cdrom_file = (), sd_fs = sd_volume\<rparr>"

lemma romfs_image_header: "romfs_check_header (Some romfs_image) False = Some True"
  by (simp add: romfs_check_header_def romfs_image_def romfs_header_at_def be32_at_def be_bytes_simps
      ascii_def mem_read_def dent_bytes_def peek_def)

definition image_file :: romfs_entry where
  "image_file = \<lparr>e_offset = 44, e_size = 4, e_flags = 0x41, filename_len = 2\<rparr>"

lemma romfs_image_file:
  "romfs_resolve romfs_image HEADER_SIZE [ascii ''D'', ascii ''f''] = Some (Some 36)"
  "romfs_entry_at romfs_image 36 = Some image_file"
  "entry_content romfs_image image_file [0x41, 2, 0x46, 0]"
proof -
  have f1: "folder_at romfs_image 24 [\<lparr>d_offset = 36, d_size = 0, d_flags = 0x43, d_name = ascii ''D''\<rparr>]"
    by (auto simp: folder_at_def romfs_image_def dent_bytes_def be_bytes_simps ascii_def)
  have f2: "folder_at romfs_image 36 [\<lparr>d_offset = 44, d_size = 4, d_flags = 0x41, d_name = ascii ''F''\<rparr>]"
    by (auto simp: folder_at_def romfs_image_def dent_bytes_def be_bytes_simps ascii_def)
  show "romfs_resolve romfs_image HEADER_SIZE [ascii ''D'', ascii ''f''] = Some (Some 36)"
    using romfs_search_correct [OF f1, of "ascii ''D''"] romfs_search_correct [OF f2, of "ascii ''f''"]
    by (simp add: dent_match_def ascii_def sc_toupper_def)
  show "romfs_entry_at romfs_image 36 = Some image_file"
    using folder_at_Cons(4) [OF f2] by (simp add: image_file_def ascii_def)
  show "entry_content romfs_image image_file [0x41, 2, 0x46, 0]"
    by (simp add: entry_content_def image_file_def romfs_image_def mem_read_def dent_bytes_def be_bytes_simps ascii_def)
qed

text \<open>Ten bytes from the second one on of a file of four, with a backslash and small letters in its path.\<close>

lemma scf_read_romfs_correct_witness:
  "\<exists>st'. scf_read example_env SC_FILE_ROMFS [backslash, 0x44, slash, 0x66, 0] 1 10 0x06004000 [7, 7, 7, 7] (example_state romfs_image)
    = Some (3, [2, 0x46, 0, 7], st')"
proof -
  have "\<exists>st'. scf_read example_env SC_FILE_ROMFS [backslash, 0x44, slash, 0x66, 0] (word_of_nat 1) (word_of_nat 10) 0x06004000
      [7, 7, 7, 7] (example_state romfs_image)
    = Some (word_of_nat (min 10 (length [0x41 :: byte, 2, 0x46, 0] - 1)), mem_write 0 (take 10 (drop 1 [0x41, 2, 0x46, 0])) [7, 7, 7, 7], st')
    \<and> romfs st' = romfs (example_state romfs_image) \<and> sd_fs st' = sd_fs (example_state romfs_image)
    \<and> cdrom_file st' = cdrom_file (example_state romfs_image)"
  proof (rule scf_read_romfs_correct [where s = "[backslash, 0x44, slash, 0x66]" and r = "[]" and lead = True
        and cs = "[ascii ''D'', ascii ''f'']" and trail = False, OF _ _ _ _ _ _ romfs_image_header _ romfs_image_file])
    show "map to_slash [backslash, 0x44, slash, 0x66] = path_bytes True [ascii ''D'', ascii ''f''] False"
      by (simp add: path_bytes_def ascii_def)
    show "\<forall>c\<in>set [ascii ''D'', ascii ''f'']. name_ok c" by (simp add: name_ok_def ascii_def)
    show "length romfs_image < 2 ^ 32" by (simp add: romfs_image_def dent_bytes_def ascii_def)
  qed (simp_all add: example_state_def)
  then show ?thesis by (auto simp: mem_write_def)
qed


text \<open>A root folder of two folders, two files that the filter accepts and a disabled entry between them.\<close>

definition root_dents :: "dent list" where
  "root_dents = [\<lparr>d_offset = 0, d_size = 0, d_flags = 0x03, d_name = ascii ''b''\<rparr>,
     \<lparr>d_offset = 0, d_size = 0, d_flags = 0x01, d_name = ascii ''c.TXT''\<rparr>,
     \<lparr>d_offset = 0, d_size = 0, d_flags = 0x00, d_name = ascii ''old''\<rparr>,
     \<lparr>d_offset = 0, d_size = 0, d_flags = 0x01, d_name = ascii ''A.bin''\<rparr>,
     \<lparr>d_offset = 0, d_size = 0, d_flags = 0x43, d_name = ascii ''a''\<rparr>]"

definition root_image :: "byte list" where
  "root_image = ascii ''RomFs1'' @ [0xCA, 0xFE] @ be_bytes 4 200 @ be_bytes 4 0 @ be_bytes 4 2 @ be_bytes 4 2
     @ concat (map dent_bytes root_dents)"

lemma scf_filelist_romfs_correct_witness:
  "\<exists>l'. scf_filelist example_env 0x06004000 (Some (replicate 5 zero_entry)) 5 0 1 (Some (ascii ''.bin,txt'' @ [0])) SC_FILE_ROMFS [0]
      (example_state root_image) = Some (4, Some l', example_state root_image)
    \<and> distinct (sort_indexes 4 l') \<and> set (sort_indexes 4 l') = {..<4} \<and> in_order 4 l'"
proof -
  let ?v = "take (unat (5 :: u32)) (drop (unat (0 :: u32)) (visible root_dents)) :: dent list"
  obtain d ds where ds: "root_dents = d # ds" by (simp add: root_dents_def)
  have v: "length ?v = 4" by (simp add: visible_def root_dents_def)
  have f: "map_option filter_bytes (Some [ascii ''.bin'', ascii ''txt'']) = Some (ascii ''.bin,txt'' @ [0])"
    by (simp add: ascii_def)
  have "\<exists>l'. scf_filelist example_env 0x06004000 (Some (replicate 5 zero_entry)) 5 0 1
        (map_option filter_bytes (Some [ascii ''.bin'', ascii ''txt''])) SC_FILE_ROMFS [0] (example_state root_image)
      = Some (word_of_nat 4, Some (l' @ drop (unat (5 :: u32)) (replicate 5 zero_entry)), example_state root_image)
    \<and> unsorted l' = unsorted (arranged 4 (Some [ascii ''.bin'', ascii ''txt''])
        (map dent_entry ?v @ replicate (unat (5 :: u32) - 4) zero_entry))
    \<and> distinct (sort_indexes 4 l') \<and> set (sort_indexes 4 l') = {..<4}
    \<and> (if (1 :: byte) = 0 then sort_indexes 4 l' = [0..<4] else in_order 4 l')"
  proof (rule scf_filelist_romfs_correct [where lead = False and cs = "[]" and trail = False and m = root_image and e = 24
        and d = d and ds = ds])
    show "folder_at root_image 24 (d # ds)" unfolding ds [symmetric]
      by (auto simp: folder_at_def root_image_def root_dents_def dent_bytes_def be_bytes_simps ascii_def)
    show "romfs_check_header (Some root_image) False = Some True"
      by (simp add: romfs_check_header_def root_image_def romfs_header_at_def be32_at_def be_bytes_simps
          ascii_def mem_read_def peek_def)
    show "exts_ok (Some [ascii ''.bin'', ascii ''txt''])" by (simp add: exts_ok_def ext_ok_def ascii_def)
    show "d_flags d AND FLAG_FOLDER \<noteq> 0" using ds by (auto simp: root_dents_def)
    show "\<forall>x\<in>set (d # ds). length (d_name x) < SC_FILENAME_MAXLEN \<and> 0 \<notin> set (d_name x) \<and> d_flags x AND FLAG_FILTERED = 0"
      unfolding ds [symmetric] by (simp add: root_dents_def ascii_def)
    show "d_enabled (last (d # ds))" "length (d # ds) < 2 ^ 16" unfolding ds [symmetric] by (simp_all add: root_dents_def)
    show "?v = take (unat (5 :: u32)) (drop (unat (0 :: u32)) (visible (d # ds)))" unfolding ds [symmetric] ..
    show "4 = length ?v" using v by simp
  qed (simp_all add: example_state_def path_bytes_def cstring_def)
  then show ?thesis unfolding f by auto
qed

end
