(* ===== verification/FatMount.thy ===== *)
theory FatMount
  imports SdFat
begin

section \<open>Mounting a volume\<close>

text \<open>
  What \<open>fatfs_init\<close> makes of a medium: the values that the partition table and the boot sector give,
  as natural numbers, and the object after mounting. With it the medium of a sound volume satisfies the
  invariant \<open>fat_inv\<close> that the other properties start from.
\<close>

definition le16 :: "byte list \<Rightarrow> nat \<Rightarrow> nat" where
  "le16 b i = unat (b ! i) + 256 * unat (b ! (i + 1))"

definition le32 :: "byte list \<Rightarrow> nat \<Rightarrow> nat" where
  "le32 b i = le16 b i + 65536 * le16 b (i + 2)"

text \<open>The start of the volume: the first partition, when its type is one that is known, or sector 0.\<close>

definition partition_start :: "byte list \<Rightarrow> nat" where
  "partition_start mbr = (if unat (mbr ! 450) \<in> {1, 2, 3, 4, 5, 6, 11, 12, 14, 15} then le32 mbr 454 else 0)"

definition boot_fat_size :: "byte list \<Rightarrow> nat" where
  "boot_fat_size b = (if le16 b 22 \<noteq> 0 then le16 b 22 else le32 b 36)"

definition boot_total :: "byte list \<Rightarrow> nat" where
  "boot_total b = (if le16 b 19 \<noteq> 0 then le16 b 19 else le32 b 32)"

text \<open>The sectors before the clusters: reserved, tables, and the root directory of FAT16.\<close>

definition boot_tables :: "byte list \<Rightarrow> nat" where
  "boot_tables b = le16 b 14 + unat (b ! 16) * boot_fat_size b"

definition boot_data :: "byte list \<Rightarrow> nat" where
  "boot_data b = boot_tables b + (le16 b 17 * 32 + 511) div 512"

definition boot_clusters :: "byte list \<Rightarrow> nat" where
  "boot_clusters b = (boot_total b - boot_data b) div unat (b ! 13)"

text \<open>A boot sector \<open>b\<close> of a volume that starts at sector \<open>p\<close> and lies on a medium of \<open>n\<close> sectors.\<close>

definition boot_sound :: "nat \<Rightarrow> nat \<Rightarrow> byte list \<Rightarrow> bool" where
  "boot_sound n p b \<longleftrightarrow> length b = FAT_SECTOR_SIZE \<and> le16 b 510 = 0xAA55 \<and> le16 b 11 = 512 \<and> b ! 13 \<noteq> 0
     \<and> 0 < unat (b ! 16) \<and> boot_data b \<le> boot_total b \<and> p + boot_total b \<le> n"

definition mounted :: "nat \<Rightarrow> byte list \<Rightarrow> 'd fatfs \<Rightarrow> bool" where
  "mounted p b fs \<longleftrightarrow> unat (lba_begin fs) = p \<and> sectors_per_cluster fs = b ! 13 \<and> unat (fat_begin_lba fs) = p + le16 b 14
     \<and> unat (fat_sectors fs) = boot_fat_size b \<and> unat (cluster_begin_lba fs) = p + boot_tables b
     \<and> unat (root_entry_count fs) = le16 b 17 \<and> unat (rootdir_first_sector fs) = boot_tables b
     \<and> unat (rootdir_sectors fs) = (le16 b 17 * 32 + 511) div 512
     \<and> fat_type fs = (if boot_clusters b < 65525 then FAT_TYPE_16 else FAT_TYPE_32)
     \<and> unat (rootdir_first_cluster fs) = (if boot_clusters b < 65525 then 0 else le32 b 44)"

subsection \<open>Words of a sector\<close>

lemma le16_less: "le16 b i < 2 ^ 16"
proof -
  have "unat (b ! i) < 2 ^ LENGTH(8)" "unat (b ! (i + 1)) < 2 ^ LENGTH(8)" by (rule unsigned_less)+
  then show ?thesis by (simp add: le16_def)
qed

lemma le32_less: "le32 b i < 2 ^ 32"
  using le16_less [of b i] le16_less [of b "i + 2"] by (simp add: le32_def)

lemma GET_16BIT_le16: "i + 1 < length b \<Longrightarrow> GET_16BIT_WORD b i = Some (word_of_nat (le16 b i))"
  by (simp add: GET_16BIT_WORD_def le16_def push_bit_eq_mult mult.commute)

lemma GET_32BIT_le32: "i + 3 < length b \<Longrightarrow> GET_32BIT_WORD b i = Some (word_of_nat (le32 b i))"
  by (simp add: GET_32BIT_WORD_def le32_def le16_def push_bit_eq_mult algebra_simps numeral_3_eq_3)

lemma partition_types: "valid_partition_type t \<longleftrightarrow> unat t \<in> {1, 2, 3, 4, 5, 6, 11, 12, 14, 15}"
proof -
  have eq: "t = 11 \<longleftrightarrow> unat t = 11" "t = 6 \<longleftrightarrow> unat t = 6" "t = 12 \<longleftrightarrow> unat t = 12" "t = 14 \<longleftrightarrow> unat t = 14"
    "t = 15 \<longleftrightarrow> unat t = 15" "t = 5 \<longleftrightarrow> unat t = 5" "t = 0 \<longleftrightarrow> unat t = 0" "t \<le> 6 \<longleftrightarrow> unat t \<le> 6"
    by (simp_all add: word_unat_eq_iff word_le_nat_alt)
  show ?thesis unfolding valid_partition_type_def insert_iff empty_iff eq by auto
qed

subsection \<open>The parameters of the volume\<close>

lemma word_of_sum: "unat (word_of_nat n :: u32) = n" if "n < 2 ^ 32"
  using that by simp

lemma boot_bounds:
  assumes "boot_sound n p b" "n < 2 ^ 32"
  shows "boot_fat_size b < 2 ^ 32" "unat (b ! 16) * boot_fat_size b < 2 ^ 32" "boot_tables b < 2 ^ 32" "p + boot_tables b < 2 ^ 32"
    "boot_data b < 2 ^ 32" "boot_total b < 2 ^ 32" "p < 2 ^ 32" "p + le16 b 14 + boot_fat_size b \<le> n"
proof -
  have d: "boot_data b \<le> boot_total b" "p + boot_total b \<le> n" "0 < unat (b ! 16)" using assms(1) by (simp_all add: boot_sound_def)
  have t: "boot_tables b \<le> boot_data b" by (simp add: boot_data_def)
  have f: "unat (b ! 16) * boot_fat_size b \<le> boot_tables b" by (simp add: boot_tables_def)
  have m: "boot_fat_size b \<le> unat (b ! 16) * boot_fat_size b" using d(3) by simp
  have r: "le16 b 14 + unat (b ! 16) * boot_fat_size b = boot_tables b" by (simp add: boot_tables_def)
  show "boot_fat_size b < 2 ^ 32" "unat (b ! 16) * boot_fat_size b < 2 ^ 32" "boot_tables b < 2 ^ 32" "p + boot_tables b < 2 ^ 32"
    "boot_data b < 2 ^ 32" "boot_total b < 2 ^ 32" "p < 2 ^ 32" "p + le16 b 14 + boot_fat_size b \<le> n"
    using assms(2) d t f m r by linarith+
qed

text \<open>The object with the parameters of the boot sector.\<close>

definition with_bpb :: "nat \<Rightarrow> byte list \<Rightarrow> 'd fatfs \<Rightarrow> 'd fatfs" where
  "with_bpb p b fs = fs\<lparr>sectors_per_cluster := b ! 13, cluster_begin_lba := word_of_nat (p + boot_tables b),
     rootdir_first_cluster := word_of_nat (le32 b 44), rootdir_first_sector := word_of_nat (boot_tables b),
     rootdir_sectors := word_of_nat ((le16 b 17 * 32 + 511) div 512), fat_begin_lba := word_of_nat (p + le16 b 14),
     fs_info_sector := word_of_nat (le16 b 48), fat_sectors := word_of_nat (boot_fat_size b), root_entry_count := word_of_nat (le16 b 17)\<rparr>"

lemma ucast_16:
  assumes "n < 2 ^ 16"
  shows "ucast (word_of_nat n :: u32) = (word_of_nat n :: u16)" "ucast (word_of_nat n :: u16) = (word_of_nat n :: u32)"
  using assms by (simp_all add: unsigned_of_nat take_bit_nat_eq_self)

lemma root_sectors_word:
  assumes "n < 2 ^ 16"
  shows "(word_of_nat n * 32 + 511) div 512 = (word_of_nat ((n * 32 + 511) div 512) :: u32)"
proof -
  have e: "word_of_nat n * 32 + 511 = (word_of_nat (n * 32 + 511) :: u32)" by simp
  have u: "unat (word_of_nat (n * 32 + 511) :: u32) = n * 32 + 511" using assms by (subst word_of_sum) simp_all
  have v: "unat (word_of_nat ((n * 32 + 511) div 512) :: u32) = (n * 32 + 511) div 512" using assms by (subst word_of_sum) simp_all
  show ?thesis unfolding e word_unat_eq_iff unat_div_distrib u v by simp
qed

lemma word_of_nat_0: "n < 2 ^ 32 \<Longrightarrow> (word_of_nat n :: u32) = 0 \<longleftrightarrow> n = 0"
  using word_of_sum [of n] by (auto simp: word_unat_eq_iff)

lemma boot_words:
  "(if (word_of_nat (le16 b 22) :: u32) \<noteq> 0 then word_of_nat (le16 b 22) else word_of_nat (le32 b 36)) = (word_of_nat (boot_fat_size b) :: u32)"
  "(if (word_of_nat (le16 b 19) :: u32) \<noteq> 0 then word_of_nat (le16 b 19) else word_of_nat (le32 b 32)) = (word_of_nat (boot_total b) :: u32)"
  "word_of_nat (le16 b 14) + ucast (b ! 16) * word_of_nat (boot_fat_size b) = (word_of_nat (boot_tables b) :: u32)"
  using le16_less [of b 22] le16_less [of b 19]
  by (simp_all add: boot_fat_size_def boot_total_def boot_tables_def word_of_nat_0)

lemma load_bpb:
  assumes "length b = FAT_SECTOR_SIZE" "fb_sector (currentsector fs) = b" "lba_begin fs = word_of_nat p"
  shows "fat_load_bpb fs = Some (with_bpb p b fs)"
proof -
  have get: "i + 1 < 512 \<Longrightarrow> GET_16BIT_WORD b i = Some (word_of_nat (le16 b i))"
    "i + 3 < 512 \<Longrightarrow> GET_32BIT_WORD b i = Some (word_of_nat (le32 b i))" for i
    using assms(1) by (simp_all add: GET_16BIT_le16 GET_32BIT_le32)
  have w: "word_of_nat p + word_of_nat (le16 b 14) + ucast (b ! 16) * word_of_nat (boot_fat_size b) = (word_of_nat (p + boot_tables b) :: u32)"
    using boot_words(3) [of b] by (simp add: add.assoc)
  show ?thesis
    using assms(1)
    by (simp add: fat_load_bpb_def assms(2,3) get boot_words(1,3) w ucast_16 [OF le16_less] root_sectors_word [OF le16_less] with_bpb_def Let_def)
qed

lemma count_clusters:
  assumes "boot_sound n p b" "n < 2 ^ 32" "fb_sector (currentsector fs) = b" "sectors_per_cluster fs = b ! 13"
  shows "fat_count_of_clusters fs = Some (word_of_nat (boot_clusters b))" "boot_clusters b < 2 ^ 32"
proof -
  have l: "length b = 512" "le16 b 11 = 512" "boot_data b \<le> boot_total b" using assms(1) by (simp_all add: boot_sound_def)
  have get: "i + 1 < 512 \<Longrightarrow> GET_16BIT_WORD b i = Some (word_of_nat (le16 b i))"
    "i + 3 < 512 \<Longrightarrow> GET_32BIT_WORD b i = Some (word_of_nat (le32 b i))" for i
    using l(1) by (simp_all add: GET_16BIT_le16 GET_32BIT_le32)
  have w: "word_of_nat (boot_tables b) + word_of_nat ((le16 b 17 * 32 + 511) div 512) = (word_of_nat (boot_data b) :: u32)"
    by (simp add: boot_data_def)
  have t: "boot_total b < 2 ^ 32" by (rule boot_bounds(6) [OF assms(1,2)])
  have d: "word_of_nat (boot_total b) - word_of_nat (boot_data b) = (word_of_nat (boot_total b - boot_data b) :: u32)"
    using l(3) by simp
  have u: "unat (word_of_nat (boot_total b - boot_data b) :: u32) = boot_total b - boot_data b" using t by (subst word_of_sum) simp_all
  have le: "boot_clusters b \<le> boot_total b" unfolding boot_clusters_def by (rule order_trans [OF div_le_dividend]) simp
  then show lt: "boot_clusters b < 2 ^ 32" using t by linarith
  have v: "word_of_nat (boot_total b - boot_data b) div ucast (b ! 13) = (word_of_nat (boot_clusters b) :: u32)"
    unfolding word_unat_eq_iff unat_div_distrib u word_of_sum [OF lt] by (simp add: boot_clusters_def upcast_byte)
  show "fat_count_of_clusters fs = Some (word_of_nat (boot_clusters b))"
    using l(1) by (simp add: fat_count_of_clusters_def assms(3,4) get boot_words l(2) root_sectors_word [OF le16_less] w d v Let_def)
qed

subsection \<open>Mounting\<close>

lemma read_sector_ok:
  assumes "block_device rd wr disk n valid" "device_ok rd wr n valid" "valid d" "unat s < n" "length buf = FAT_SECTOR_SIZE"
  shows "\<exists>d'. rd s buf 1 d = (True, disk d s, d') \<and> valid d' \<and> length (disk d s) = FAT_SECTOR_SIZE
    \<and> (\<forall>t. unat t < n \<longrightarrow> disk d' t = disk d t)"
  using block_device.read_law [OF assms(1,3-5)] assms(2-5) unfolding device_ok_def by fastforce

lemma le16_signature:
  assumes "le16 b 510 = 0xAA55"
  shows "b ! 510 = 0x55" "b ! 511 = 0xAA"
proof -
  have u: "unat (b ! 510) < 2 ^ LENGTH(8)" "unat (b ! 511) < 2 ^ LENGTH(8)" by (rule unsigned_less)+
  moreover have "x = 0x55 \<and> y = 0xAA" if "x < 256" "x + 256 * y = 0xAA55" for x y :: nat
    using that by presburger
  ultimately have "unat (b ! 510) = 0x55" "unat (b ! 511) = 0xAA" using assms by (simp_all add: le16_def)
  then show "b ! 510 = 0x55" "b ! 511 = 0xAA" by (simp_all add: word_unat_eq_iff)
qed

lemma fatfs_init_lemma:
  assumes dev: "block_device rd wr disk n valid" "device_ok rd wr n valid" "n < 2 ^ 32" "valid (medium fs)"
    and fs: "read_media fs = Some rd" "write_media fs = Some wr" "length (fb_sector (currentsector fs)) = FAT_SECTOR_SIZE"
    and mbr: "0 < n" "le16 (disk (medium fs) 0) 510 = 0xAA55" "p = partition_start (disk (medium fs) 0)"
    and b: "b = disk (medium fs) (word_of_nat p)" "p < n" "boot_sound n p b"
  shows "\<exists>fs'. fatfs_init fs = Some (if boot_clusters b < 4085 then FAT_INIT_WRONG_FILESYS_TYPE else FAT_INIT_OK, fs')
    \<and> fat_inv rd wr disk n valid fs' \<and> (4085 \<le> boot_clusters b \<longrightarrow> mounted p b fs')
    \<and> (\<forall>t. unat t < n \<longrightarrow> disk (medium fs') t = disk (medium fs) t \<and> eff disk fs' t = disk (medium fs) t)"
proof -
  let ?m = "disk (medium fs) 0" and ?s = "word_of_nat p :: u32"
  have "unat (0 :: u32) < n" using mbr(1) by simp
  from read_sector_ok [OF dev(1,2,4) this fs(3)] obtain d1 where r1: "rd 0 (fb_sector (currentsector fs)) 1 (medium fs) = (True, ?m, d1)"
    "valid d1" "length ?m = 512" "\<forall>t. unat t < n \<longrightarrow> disk d1 t = disk (medium fs) t" by blast
  have p: "unat ?s = p" using b(2) dev(3) by (subst word_of_sum) simp_all
  then have "unat ?s < n" using b(2) by simp
  from read_sector_ok [OF dev(1,2) r1(2) this r1(3)] obtain d2 where r2: "rd ?s ?m 1 d1 = (True, b, d2)" "valid d2"
    "\<forall>t. unat t < n \<longrightarrow> disk d2 t = disk (medium fs) t"
    using r1(4) b(1) \<open>unat ?s < n\<close> by auto
  have bs: "length b = 512" "le16 b 510 = 0xAA55" "le16 b 11 = 512" "b ! 13 \<noteq> 0" using b(3) by (simp_all add: boot_sound_def)
  note m = le16_signature [OF mbr(2)]
  have get: "GET_16BIT_WORD ?m 510 = Some 0xAA55" "GET_32BIT_WORD ?m 454 = Some (word_of_nat (le32 ?m 454))"
    "GET_16BIT_WORD b 11 = Some 512" "GET_16BIT_WORD b 510 = Some 0xAA55"
    using r1(3) bs(1-3) mbr(2) by (simp_all add: GET_16BIT_le16 GET_32BIT_le32)
  have lba: "(if valid_partition_type (?m ! 450) then word_of_nat (le32 ?m 454) else 0) = ?s"
    by (simp add: partition_types mbr(3) partition_start_def)
  let ?f2 = "fs\<lparr>next_free_cluster := 0,
      fat_chain := [\<lparr>fb_sector = replicate 512 0, fb_address = FAT32_INVALID_CLUSTER, fb_dirty = False, fb_ptr = None\<rparr>],
      lba_begin := ?s, medium := d2,
      currentsector := (currentsector fs)\<lparr>fb_address := FAT32_INVALID_CLUSTER, fb_dirty := False, fb_sector := b\<rparr>\<rparr>"
  have cur: "length b = 512" "fb_sector (currentsector ?f2) = b" "lba_begin ?f2 = ?s" using bs(1) by simp_all
  note bpb = load_bpb [OF cur]
  note cnt = count_clusters [OF b(3) dev(3), of "with_bpb p b ?f2"]
  have c: "fat_count_of_clusters (with_bpb p b ?f2) = Some (word_of_nat (boot_clusters b))" "boot_clusters b < 2 ^ 32"
    using cnt by (simp_all add: with_bpb_def)
  have spc: "sectors_per_cluster (with_bpb p b ?f2) = b ! 13" by (simp add: with_bpb_def)
  have cmp: "(word_of_nat (boot_clusters b) :: u32) < 4085 \<longleftrightarrow> boot_clusters b < 4085"
    "(word_of_nat (boot_clusters b) :: u32) < 65525 \<longleftrightarrow> boot_clusters b < 65525"
    using c(2) by (simp_all add: word_less_nat_alt)
  have init: "fatfs_init fs = Some (if boot_clusters b < 4085 then (FAT_INIT_WRONG_FILESYS_TYPE, with_bpb p b ?f2)
      else if boot_clusters b < 65525 then (FAT_INIT_OK, (with_bpb p b ?f2)\<lparr>rootdir_first_cluster := 0, fat_type := FAT_TYPE_16\<rparr>)
      else (FAT_INIT_OK, (with_bpb p b ?f2)\<lparr>fat_type := FAT_TYPE_32\<rparr>))"
  proof -
    show ?thesis
      using m get lba r1(3) r2(1) bpb c(1) spc bs cmp
      by (simp add: fatfs_init_def fatfs_sector_read_def fatfs_fat_init_def fs(1) r1(1) Let_def)
  qed
  have inv: "fat_inv rd wr disk n valid fs'" if "fs' \<in> {with_bpb p b ?f2, (with_bpb p b ?f2)\<lparr>rootdir_first_cluster := 0, fat_type := FAT_TYPE_16\<rparr>,
      (with_bpb p b ?f2)\<lparr>fat_type := FAT_TYPE_32\<rparr>}" for fs'
  proof -
    have g: "unat (word_of_nat (p + le16 b 14) :: u32) = p + le16 b 14" "unat (word_of_nat (boot_fat_size b) :: u32) = boot_fat_size b"
      using boot_bounds(1,8) [OF b(3) dev(3)] dev(3) by (simp_all only: word_of_sum)
    then have "fat_geometry n fs'"
      using that boot_bounds(8) [OF b(3) dev(3)] dev(3) by (auto simp: fat_geometry_def with_bpb_def simp del: unat_word_of_nat)
    then show ?thesis using that fs(1,2) r2(2) by (auto simp: fat_inv_def with_bpb_def)
  qed
  have mnt: "mounted p b ((with_bpb p b ?f2)\<lparr>rootdir_first_cluster := r, fat_type := t\<rparr>)"
    if "unat r = (if boot_clusters b < 65525 then 0 else le32 b 44)" "t = (if boot_clusters b < 65525 then FAT_TYPE_16 else FAT_TYPE_32)" for r t
  proof -
    have w: "unat (word_of_nat k :: u32) = k" if "k \<in> {boot_fat_size b, boot_tables b, p + boot_tables b, p + le16 b 14, p, (le16 b 17 * 32 + 511) div 512}" for k
      using that boot_bounds(1,3,4,7,8) [OF b(3) dev(3)] dev(3) le16_less [of b 17] by (intro word_of_sum) auto
    have "unat (word_of_nat (le16 b 17) :: u16) = le16 b 17" using le16_less [of b 17] by simp
    then show ?thesis using that w by (simp add: mounted_def with_bpb_def del: unat_word_of_nat of_nat_add)
  qed
  have z: "unat (word_of_nat (le32 b 44) :: u32) = le32 b 44" by (rule word_of_sum [OF le32_less])
  have same: "(with_bpb p b ?f2)\<lparr>fat_type := t\<rparr> = (with_bpb p b ?f2)\<lparr>rootdir_first_cluster := word_of_nat (le32 b 44), fat_type := t\<rparr>" for t
    by (simp add: with_bpb_def)
  let ?f16 = "(with_bpb p b ?f2)\<lparr>rootdir_first_cluster := 0, fat_type := FAT_TYPE_16\<rparr>"
  let ?f32 = "(with_bpb p b ?f2)\<lparr>fat_type := FAT_TYPE_32\<rparr>"
  have view: "\<forall>t. unat t < n \<longrightarrow> disk (medium f) t = disk (medium fs) t \<and> eff disk f t = disk (medium fs) t"
    if "f \<in> {with_bpb p b ?f2, ?f16, ?f32}" for f
  proof (intro allI impI)
    fix t :: u32 assume t: "unat t < n"
    then have "t \<noteq> FAT32_INVALID_CLUSTER" using dev(3) by auto
    then show "disk (medium f) t = disk (medium fs) t \<and> eff disk f t = disk (medium fs) t"
      using that r2(3) t by (auto simp: eff_def with_bpb_def)
  qed
  consider "boot_clusters b < 4085" | "4085 \<le> boot_clusters b" "boot_clusters b < 65525" | "65525 \<le> boot_clusters b" by linarith
  then show ?thesis
  proof cases
    case 1
    then show ?thesis using init inv [of "with_bpb p b ?f2"] view [of "with_bpb p b ?f2"] by simp
  next
    case 2
    then show ?thesis using init inv [of ?f16] view [of ?f16] mnt [of 0 FAT_TYPE_16] by simp
  next
    case 3
    have "mounted p b ?f32"
      unfolding same using mnt [of "word_of_nat (le32 b 44)" FAT_TYPE_32] 3 z by simp
    then show ?thesis using init inv [of ?f32] view [of ?f32] 3 by simp
  qed
qed

text \<open>
  C14: on a medium that does not fail, with a signature in sector 0 and, where the partition table says
  (or in sector 0 itself), the boot sector of a sound volume that lies on the medium, mounting succeeds for
  FAT16 and FAT32, decided by the number of clusters, and reports the wrong kind for the smaller FAT12. The
  object then has the geometry of the volume without any overflow and satisfies the invariant of the table's
  buffer; the medium is not changed, and is what is seen through the buffer.
\<close>

theorem fatfs_init_correct:
  assumes "block_device rd wr disk n valid" and "device_ok rd wr n valid" and "n < 2 ^ 32" and "valid (medium fs)"
    and "read_media fs = Some rd" and "write_media fs = Some wr" and "length (fb_sector (currentsector fs)) = FAT_SECTOR_SIZE"
    and "0 < n" and "le16 (disk (medium fs) 0) 510 = 0xAA55" and "p = partition_start (disk (medium fs) 0)"
    and "b = disk (medium fs) (word_of_nat p)" and "p < n" and "boot_sound n p b"
  shows "\<exists>fs'. fatfs_init fs = Some (if boot_clusters b < 4085 then FAT_INIT_WRONG_FILESYS_TYPE else FAT_INIT_OK, fs')
    \<and> fat_inv rd wr disk n valid fs' \<and> (4085 \<le> boot_clusters b \<longrightarrow> mounted p b fs')
    \<and> (\<forall>t. unat t < n \<longrightarrow> disk (medium fs') t = disk (medium fs) t \<and> eff disk fs' t = disk (medium fs) t)"
  using assms by (rule fatfs_init_lemma)

text \<open>A small volume without a partition table: one reserved sector, a table of 16 sectors, no entries in
  the root directory, clusters of one sector.\<close>

definition sample_boot :: "byte list" where
  "sample_boot = replicate 11 0 @ [0, 2, 1, 1, 0, 1, 0, 0, 0x88, 0x13, 0, 16, 0] @ replicate 486 0 @ [0x55, 0xAA]"

lemma sample_boot_nth:
  assumes "i < 512"
  shows "sample_boot ! i = (if 11 \<le> i \<and> i < 24 then [0, 2, 1, 1, 0, 1, 0, 0, 0x88, 0x13, 0, 16, 0] ! (i - 11) else if i = 510 then 0x55 else if i = 511 then 0xAA else 0)"
proof -
  consider "i < 11" | "11 \<le> i" "i < 24" | "24 \<le> i" "i < 510" | "i = 510" | "i = 511" using assms by linarith
  then show ?thesis by cases (simp_all add: sample_boot_def nth_append del: append_Cons)
qed

lemma sample_boot_sound: "boot_sound 5001 0 sample_boot" "boot_clusters sample_boot = 4983" "partition_start sample_boot = 0"
  "le16 sample_boot 510 = 0xAA55" "length sample_boot = 512" "boot_fat_size sample_boot = 16" "boot_tables sample_boot = 17"
proof -
  note v = le16_def le32_def sample_boot_nth
  show l: "length sample_boot = 512" by (simp add: sample_boot_def)
  show f: "boot_fat_size sample_boot = 16" by (simp add: boot_fat_size_def v)
  show t: "boot_tables sample_boot = 17" unfolding boot_tables_def f by (simp add: v)
  have d: "boot_data sample_boot = 17" unfolding boot_data_def t by (simp add: v)
  have s: "boot_total sample_boot = 5000" by (simp add: boot_total_def v)
  show "boot_clusters sample_boot = 4983" unfolding boot_clusters_def s d by (simp add: v)
  show "partition_start sample_boot = 0" by (simp add: partition_start_def v)
  show g: "le16 sample_boot 510 = 0xAA55" by (simp add: v)
  show "boot_sound 5001 0 sample_boot" unfolding boot_sound_def l s d g by (simp add: v)
qed

text \<open>The small volume in a file on the PC.\<close>

definition mount_image :: "byte list" where
  "mount_image = sample_boot @ replicate (5000 * 512) 0"

definition unmounted :: "byte list fatfs" where
  "unmounted = (zero_fatfs mount_image)\<lparr>read_media := Some fat_media_read, write_media := Some fat_media_write\<rparr>"

lemma mount_image_facts: "file_valid 5001 mount_image" "file_sector mount_image 0 = sample_boot"
  using sample_boot_sound(5) by (simp_all add: file_valid_def mount_image_def file_sector_def mem_read_def)

theorem fatfs_init_correct_witness:
  "\<exists>fs. fatfs_init unmounted = Some (FAT_INIT_OK, fs) \<and> fat_type fs = FAT_TYPE_16 \<and> sectors_per_cluster fs = 1
    \<and> unat (fat_begin_lba fs) = 1 \<and> unat (cluster_begin_lba fs) = 17"
proof -
  have u: "medium unmounted = mount_image" "read_media unmounted = Some fat_media_read" "write_media unmounted = Some fat_media_write"
    "length (fb_sector (currentsector unmounted)) = FAT_SECTOR_SIZE"
    by (simp_all add: unmounted_def zero_fatfs_def)
  have n: "(5001 :: nat) < 2 ^ 32" "0 < (5001 :: nat)" by simp_all
  have d: "file_valid 5001 (medium unmounted)" "le16 (file_sector (medium unmounted) 0) 510 = 0xAA55"
    "0 = partition_start (file_sector (medium unmounted) 0)" "sample_boot = file_sector (medium unmounted) (word_of_nat 0)"
    using sample_boot_sound by (simp_all add: u mount_image_facts)
  have "sample_boot ! 13 = 1" "le16 sample_boot 14 = 1" by (simp_all add: le16_def sample_boot_nth)
  then show ?thesis
    using fatfs_init_correct [OF file_device.block_device_axioms file_device_ok n(1) d(1) u(2-4) n(2) d(2-4) n(2) sample_boot_sound(1)]
      sample_boot_sound(2,7) by (auto simp: mounted_def)
qed

end
