(* ===== verification/SdMount.thy ===== *)
theory SdMount
  imports FatMount
begin

section \<open>From the power-on to a usable volume\<close>

text \<open>
  \<open>sdc_fat_init\<close>: the initialisation of the card, of the lists of handles and the mounting of the volume
  together. What it establishes is what the properties about files ask for.
\<close>

subsection \<open>The lists of handles\<close>


lemma fl_init_handles:
  "handles (fl_init fg) [] [0..<length (files fg)] \<and> filelib_init (fl_init fg) \<and> list_frame (fg\<lparr>filelib_init := True\<rparr>) (fl_init fg)"
proof -
  let ?z = "set_open_list (fat_list_init (open_list (set_free_list (fat_list_init (free_list fg)) fg))) (set_free_list (fat_list_init (free_list fg)) fg)"
  let ?step = "\<lambda>i fg. set_free_list (fat_list_insert_last (free_list fg) i) fg"
  have loop: "dlist (free_list (fold ?step [0..<k] ?z)) [0..<k] \<and> dlist (open_list (fold ?step [0..<k] ?z)) [] \<and> list_frame fg (fold ?step [0..<k] ?z)" for k
  proof (induction k)
    case 0
    have "list_head (free_list ?z) = None" "list_tail (free_list ?z) = None" by (simp_all add: fat_list_init_def)
    then show ?case
      using list_frame_simps(4) [OF list_frame_simps(2) list_frame_simps(3)] dlist_init
      by (auto simp: dlist_def)
  next
    case (Suc k)
    then show ?case
      using dlist_insert_last [of "free_list (fold ?step [0..<k] ?z)" "[0..<k]" k] list_frame_simps(4) [OF _ list_frame_simps(2)]
      by (auto simp: dlist_def)
  qed
  let ?r = "fold ?step [0..<length (files fg)] ?z"
  have i: "fl_init fg = ?r\<lparr>filelib_init := True\<rparr>" by (simp add: fl_init_def Let_def)
  have f: "list_frame fg ?r" using loop by blast
  have l: "free_list (?r\<lparr>filelib_init := True\<rparr>) = free_list ?r" "open_list (?r\<lparr>filelib_init := True\<rparr>) = open_list ?r"
    by (simp_all add: free_list_def open_list_def)
  have "handles (fl_init fg) [] [0..<length (files fg)]"
    using loop [of "length (files fg)"] list_frame_fields(1) [OF f] unfolding i handles_def l by auto
  moreover have "list_frame (fg\<lparr>filelib_init := True\<rparr>) (?r\<lparr>filelib_init := True\<rparr>)"
  proof -
    obtain a b c where r: "?r = fg\<lparr>open_file_list := a, free_file_list := b, list_nodes := c\<rparr>"
      using f unfolding list_frame_def by blast
    show ?thesis unfolding list_frame_def r by (intro exI [of _ a] exI [of _ b] exI [of _ c]) simp
  qed
  ultimately show ?thesis by (simp add: i)
qed

subsection \<open>The whole initialisation\<close>

lemma fat_inv_medium:
  assumes "fat_inv rd wr disk n valid fs" "valid d" "disk d = disk (medium fs)"
  shows "fat_inv rd wr disk n valid (fs\<lparr>medium := d\<rparr>)"
  using assms unfolding fat_inv_def fat_geometry_def by simp metis

lemma attach_media_lemma:
  assumes dev: "block_device rd wr disk n valid" "device_ok rd wr n valid" "n < 2 ^ 32" "valid d"
    and mbr: "0 < n" "le16 (disk d 0) 510 = 0xAA55" "p = partition_start (disk d 0)"
    and b: "b = disk d (word_of_nat p)" "p < n" "boot_sound n p b" "4085 \<le> boot_clusters b"
  shows "\<exists>fg'. fl_attach_media (Some rd) (Some wr) (fl_init (zero_global k d)) = Some (FAT_INIT_OK, fg')
    \<and> filelib_init fg' \<and> filelib_valid fg' \<and> handles fg' [] [0..<k] \<and> fat_inv rd wr disk n valid (fg_fs fg') \<and> mounted p b (fg_fs fg')
    \<and> (\<forall>t. unat t < n \<longrightarrow> disk (medium (fg_fs fg')) t = disk d t)"
proof -
  let ?g = "zero_global k d"
  have z: "length (files ?g) = k" "fg_fs ?g = zero_fatfs d" by (simp_all add: zero_global_def)
  have i: "handles (fl_init ?g) [] [0..<k]" "filelib_init (fl_init ?g)" "fg_fs (fl_init ?g) = zero_fatfs d"
    using fl_init_handles [of ?g] list_frame_fields(2) [of "?g\<lparr>filelib_init := True\<rparr>" "fl_init ?g"] z by simp_all
  let ?f = "(zero_fatfs d)\<lparr>read_media := Some rd, write_media := Some wr\<rparr>"
  have f: "medium ?f = d" "length (fb_sector (currentsector ?f)) = 512" by (simp_all add: zero_fatfs_def)
  obtain fs where fs: "fatfs_init ?f = Some (FAT_INIT_OK, fs)" "fat_inv rd wr disk n valid fs" "mounted p b fs"
    "\<forall>t. unat t < n \<longrightarrow> disk (medium fs) t = disk d t"
    using fatfs_init_lemma [of rd wr disk n valid ?f p b] dev mbr b f by auto
  have "fl_attach_media (Some rd) (Some wr) (fl_init ?g) = Some (FAT_INIT_OK, (fl_init ?g)\<lparr>fg_fs := fs, filelib_valid := True\<rparr>)"
    by (simp add: fl_attach_media_def CHECK_FL_INIT_def i fs(1))
  moreover have "handles ((fl_init ?g)\<lparr>fg_fs := fs, filelib_valid := True\<rparr>) [] [0..<k]"
    using i(1) by (simp add: handles_def open_list_def free_list_def)
  ultimately show ?thesis using fs i(2) by simp
qed

text \<open>
  C2: with a card of the second version and of high capacity in the cartridge, which answers every command of the
  initialisation with its response and is busy for fewer than 5000 rounds, which then serves blocks as \<open>sd_card\<close> asks, and
  which holds a sound FAT16 or FAT32 volume, \<open>sdc_fat_init\<close> succeeds, whatever bytes the card sends for its registers CID and CSD
  as long as the one that the driver takes for the first of the CSD tells the high capacity, and the library is ready: all handles are free, the object has the geometry of the volume and satisfies the
  invariant, and no block of the card has changed.
\<close>

theorem sdc_fat_init_correct:
  assumes "satcart_found env" and "\<not> bit (reg_read env REG_CPLD_IO (sd_bus (sd_of fg))) SD_EJECT_LSHFT"
    and "answers_all env (powered_up env (the_card (sd_bus (sd_of fg))))
      ([(SDC_GO_IDLE_STATE, 0, [1]), (SDC_SEND_IF_COND, 0x1AA, [1, 0, 0, 1, 0xAA])] @ op_cond_cmds xs y @
        register_cmds ocr cidr y' csdr z) c'"
    and "length xs < 5000" and "drop_bit 6 (csdr ! 3) = 1"
    and "c = on_pins env True True False c'" and "sd_card env (drop_bit 6 (ocr ! 1) AND 1) blocks n ready" and "ready c"
    and "0 < n" and "le16 (blocks c 0) 510 = 0xAA55" and "p = partition_start (blocks c 0)"
    and "b = blocks c (word_of_nat p)" and "p < n" and "boot_sound n p b" and "4085 \<le> boot_clusters b"
  shows "\<exists>fg'. sdc_fat_init env fg = Some (SDC_OK, fg') \<and> init_ok (sd_of fg') = 1 \<and> filelib_init fg' \<and> filelib_valid fg'
    \<and> handles fg' [] [0..<length (files fg)] \<and> mounted p b (fg_fs fg')
    \<and> fat_inv (sd_media_read env) (sd_media_write env) (sd_sector blocks) n (sd_valid (drop_bit 6 (ocr ! 1) AND 1) ready) (fg_fs fg')
    \<and> (\<forall>t. unat t < n \<longrightarrow> sd_sector blocks (sd_of fg') t = blocks c t)"
proof -
  let ?v = "drop_bit 6 (ocr ! 1) AND 1"
  let ?fg = "on_sd (\<lambda>sd. sd\<lparr>init_ok := 0\<rparr>) fg"
  have bus: "sd_bus (sd_of ?fg) = sd_bus (sd_of fg)" "length (files ?fg) = length (files fg)"
    by (simp_all add: sd_of_def on_sd_def)
  obtain sd where sd: "sdc_init env (sd_of ?fg) = Some (SDC_OK, sd)" "at_card sd True c" "length (stat_reg_buffer sd) = SDC_CMDBUFFER_LEN"
    "ccs sd = ?v"
    using sdc_init_lemma [of env "sd_of ?fg", unfolded bus(1), OF assms(1-5)] assms(6) by auto
  let ?d = "sd\<lparr>init_status := SDC_OK\<rparr>"
  have d: "sd_valid ?v ready ?d" "sd_sector blocks ?d = blocks c"
    using sd(2-4) assms(8) by (auto simp: sd_valid_def at_card_def sd_sector_def fun_eq_iff)
  note card = sd_device_lemma [OF assms(7)]
  have n: "n < 2 ^ 32" using assms(7) by (simp add: sd_card_def)
  obtain fg1 where f: "fl_attach_media (Some (sd_media_read env)) (Some (sd_media_write env)) (fl_init (zero_global (length (files fg)) ?d))
      = Some (FAT_INIT_OK, fg1)" "filelib_init fg1" "filelib_valid fg1" "handles fg1 [] [0..<length (files fg)]"
    "fat_inv (sd_media_read env) (sd_media_write env) (sd_sector blocks) n (sd_valid ?v ready) (fg_fs fg1)" "mounted p b (fg_fs fg1)"
    "\<forall>t. unat t < n \<longrightarrow> sd_sector blocks (medium (fg_fs fg1)) t = blocks c t"
    using attach_media_lemma [OF run_device.axioms(1) [OF card(1)] card(2) n d(1) assms(9), of p b "length (files fg)"] assms(10-15)
    unfolding d(2) by blast
  let ?r = "on_sd (\<lambda>sd. sd\<lparr>init_ok := 1\<rparr>) fg1"
  have r: "fg_fs ?r = (fg_fs fg1)\<lparr>medium := (medium (fg_fs fg1))\<lparr>init_ok := 1\<rparr>\<rparr>" by (simp add: on_sd_def)
  have "sdc_fat_init env fg = Some (SDC_OK, ?r)"
    unfolding sdc_fat_init_def by (simp add: sd(1) bus(2) f(1) Let_def)
  moreover have "fat_inv (sd_media_read env) (sd_media_write env) (sd_sector blocks) n (sd_valid ?v ready) (fg_fs ?r)"
    unfolding r by (rule fat_inv_medium [OF f(5)])
      (use f(5) in \<open>auto simp: fat_inv_def sd_valid_def at_card_def sd_sector_def fun_eq_iff\<close>)
  moreover have "handles ?r [] [0..<length (files fg)]" "mounted p b (fg_fs ?r)" "filelib_init ?r" "filelib_valid ?r"
    using f(2-4,6) by (simp_all add: on_sd_def mounted_def)
  moreover have "init_ok (sd_of ?r) = 1" "sd_sector blocks (sd_of ?r) t = sd_sector blocks (medium (fg_fs fg1)) t" for t
    by (simp_all add: sd_of_def on_sd_def sd_sector_def)
  ultimately show ?thesis using f(7) by auto
qed

subsection \<open>A card that starts and then serves blocks\<close>

text \<open>
  The card of \<open>SdInit\<close> that says what it was told to, until its script is empty and it is deselected; then
  the card of \<open>SdSample\<close>. A card that behaves inside another one behaves as it does alone.
\<close>

definition embeds :: "'a card_env \<Rightarrow> 'b card_env \<Rightarrow> bool \<Rightarrow> ('a \<Rightarrow> 'b) \<Rightarrow> bool" where
  "embeds env env' cs emb \<longleftrightarrow> (\<forall>d k a. on_pins env' cs d k (emb a) = emb (on_pins env cs d k a)) \<and> (\<forall>a. dout env' (emb a) = dout env a)"

lemma embeds_pins: "embeds env env' cs emb \<Longrightarrow> on_pins env' cs d k (emb a) = emb (on_pins env cs d k a)"
  by (simp add: embeds_def)

lemma embeds_dout: "embeds env env' cs emb \<Longrightarrow> dout env' (emb a) = dout env a"
  by (simp add: embeds_def)

lemma embeds_tx: "embeds env env' cs emb \<Longrightarrow> tx_bytes env' cs bs (emb a) = emb (tx_bytes env cs bs a)"
proof -
  assume e: "embeds env env' cs emb"
  have "fold (tx env' cs) ds (emb a) = emb (fold (tx env cs) ds a)" for ds
    by (induction ds arbitrary: a) (simp_all add: tx_def embeds_pins [OF e])
  then show ?thesis by (simp add: tx_bytes_def)
qed

lemma embeds_rx: "embeds env env' cs emb \<Longrightarrow> rx env' cs (emb a) = emb (rx env cs a)"
  by (simp add: rx_def embeds_pins)

lemma embeds_replies: "embeds env env' cs emb \<Longrightarrow> replies env cs a bs a' \<Longrightarrow> replies env' cs (emb a) bs (emb a')"
  by (induction bs arbitrary: a) (auto simp: embeds_rx embeds_dout)

lemma embeds_answers: "embeds env env' False emb \<Longrightarrow> answers env a cmd a' \<Longrightarrow> answers env' (emb a) cmd (emb a')"
  by (auto simp: answers_def embeds_pins embeds_tx intro: embeds_replies)

lemma embeds_answers_all: "embeds env env' False emb \<Longrightarrow> answers_all env a cmds a' \<Longrightarrow> answers_all env' (emb a) cmds (emb a')"
  by (induction cmds arbitrary: a) (auto intro: embeds_answers)

lemma embeds_idle: "embeds env env' True emb \<Longrightarrow> idle_clocks env' (emb a) = emb (idle_clocks env a)"
proof -
  assume e: "embeds env env' True emb"
  have "(rx env' True ^^ k) (emb a) = emb ((rx env True ^^ k) a)" for k a
    by (induction k) (simp_all add: embeds_rx [OF e])
  then show ?thesis by (simp add: idle_clocks_def embeds_pins [OF e])
qed

lemma embeds_card:
  assumes e: "embeds env env' False emb" "embeds env env' True emb"
    and r: "\<And>x. ready' x \<longleftrightarrow> (\<exists>a. x = emb a \<and> ready a)" "\<And>a. ready' (emb a) = ready a" "\<And>a. blocks' (emb a) = blocks a"
    and card: "sd_card env v blocks n ready"
  shows "sd_card env' v blocks' n ready'"
proof -
  note re = embeds_replies [OF e(1)]
  have "reads_blocks env' v blocks' n ready'"
    unfolding reads_blocks_def
  proof (intro allI impI)
    fix x and s :: u32 assume "ready' x" and s: "unat s < n"
    then obtain a where a: "x = emb a" "ready a" using r(1) by blast
    have "reads_blocks env v blocks n ready" using card by (simp add: sd_card_def)
    from this [unfolded reads_blocks_def, rule_format, OF a(2) s] obtain k r1 c1 j crc c2
      where h: "k \<le> SDC_POLL_COUNTMAX" "length r1 = 7" "j \<le> SDC_POLL_COUNTMAX" "length crc = 3"
        "replies env False (commanded env v SDC_READ_SINGLE_BLOCK s a) (replicate k True @ False # r1) c1"
        "replies env False c1 (data_block j (blocks a s) crc) c2"
        "ready (idle_clocks env c2)" "\<forall>t. unat t < n \<longrightarrow> blocks (idle_clocks env c2) t = blocks a t"
      by blast
    show "\<exists>k r1 c1 j crc c2. k \<le> SDC_POLL_COUNTMAX \<and> length r1 = 7 \<and> j \<le> SDC_POLL_COUNTMAX \<and> length crc = 3
       \<and> replies env' False (commanded env' v SDC_READ_SINGLE_BLOCK s x) (replicate k True @ False # r1) c1
       \<and> replies env' False c1 (data_block j (blocks' x s) crc) c2
       \<and> ready' (idle_clocks env' c2) \<and> (\<forall>t. unat t < n \<longrightarrow> blocks' (idle_clocks env' c2) t = blocks' x t)"
      by (rule exI [of _ k], rule exI [of _ r1], rule exI [of _ "emb c1"], rule exI [of _ j], rule exI [of _ crc], rule exI [of _ "emb c2"])
        (use h(1-4,7,8) re [OF h(5)] re [OF h(6)] in
          \<open>simp add: a(1) r(2,3) commanded_def embeds_pins [OF e(1)] embeds_tx [OF e(1)] embeds_idle [OF e(2)] del: replies.simps\<close>)
  qed
  moreover have "writes_blocks env' v blocks' n ready'"
    unfolding writes_blocks_def
  proof (intro allI impI)
    fix x and s :: u32 and dat :: "byte list" assume "ready' x" and s: "unat s < n" and d: "length dat = SDC_BLOCK_SIZE"
    then obtain a where a: "x = emb a" "ready a" using r(1) by blast
    have "writes_blocks env v blocks n ready" using card by (simp add: sd_card_def)
    from this [unfolded writes_blocks_def, rule_format, OF a(2) s d] obtain k r1 c1 tmp c2 j z c3 i y c4
      where h: "k \<le> SDC_POLL_COUNTMAX" "length r1 = 7" "tmp AND 0x1F = 0x05" "j \<le> SDC_POLL_COUNTMAX" "z \<noteq> 0" "i \<le> SDC_POLL_COUNTMAX" "y \<noteq> 0"
        "replies env False (commanded env v SDC_WRITE_SINGLE_BLOCK s a) (replicate k True @ False # r1) c1"
        "replies env False (block_sent env dat c1) (bits_of tmp) c2" "replies env False c2 (busy_then j z) c3"
        "replies env False (asked_again env c3) (busy_then i y) c4"
        "ready (on_pins env True True False c4)" "blocks (on_pins env True True False c4) s = dat"
        "\<forall>t. unat t < n \<longrightarrow> t \<noteq> s \<longrightarrow> blocks (on_pins env True True False c4) t = blocks a t"
      by blast
    have q: "commanded env' v SDC_WRITE_SINGLE_BLOCK s (emb a) = emb (commanded env v SDC_WRITE_SINGLE_BLOCK s a)"
      "block_sent env' dat (emb c1) = emb (block_sent env dat c1)" "asked_again env' (emb c3) = emb (asked_again env c3)"
      by (simp_all add: commanded_def block_sent_def asked_again_def embeds_pins [OF e(1)] embeds_pins [OF e(2)] embeds_tx [OF e(1)] embeds_tx [OF e(2)])
    show "\<exists>k r1 c1 tmp c2 j z c3 i y c4. k \<le> SDC_POLL_COUNTMAX \<and> length r1 = 7 \<and> tmp AND 0x1F = 0x05
       \<and> j \<le> SDC_POLL_COUNTMAX \<and> z \<noteq> 0 \<and> i \<le> SDC_POLL_COUNTMAX \<and> y \<noteq> 0
       \<and> replies env' False (commanded env' v SDC_WRITE_SINGLE_BLOCK s x) (replicate k True @ False # r1) c1
       \<and> replies env' False (block_sent env' dat c1) (bits_of tmp) c2
       \<and> replies env' False c2 (busy_then j z) c3
       \<and> replies env' False (asked_again env' c3) (busy_then i y) c4
       \<and> ready' (on_pins env' True True False c4) \<and> blocks' (on_pins env' True True False c4) s = dat
       \<and> (\<forall>t. unat t < n \<longrightarrow> t \<noteq> s \<longrightarrow> blocks' (on_pins env' True True False c4) t = blocks' x t)"
      by (rule exI [of _ k], rule exI [of _ r1], rule exI [of _ "emb c1"], rule exI [of _ tmp], rule exI [of _ "emb c2"], rule exI [of _ j],
          rule exI [of _ z], rule exI [of _ "emb c3"], rule exI [of _ i], rule exI [of _ y], rule exI [of _ "emb c4"])
        (use h(1-7,12-14) re [OF h(8)] re [OF h(9)] re [OF h(10)] re [OF h(11)] in
          \<open>simp add: q embeds_pins [OF e(2)] r(2,3) a(1) del: replies.simps\<close>)
  qed
  ultimately show ?thesis using card r by (auto simp: sd_card_def)
qed

datatype whole_card = Starting script_card sample_card | Started sample_card

fun whole_pins :: "bool \<Rightarrow> bool \<Rightarrow> bool \<Rightarrow> whole_card \<Rightarrow> whole_card" where
  "whole_pins cs d k (Starting s c) = (if cs \<and> script s = [] then Started c else Starting (script_pins cs d k s) c)"
| "whole_pins cs d k (Started c) = Started (rc_pins cs d k c)"

fun whole_dout :: "whole_card \<Rightarrow> bool" where
  "whole_dout (Starting s c) = spoken s"
| "whole_dout (Started c) = rc_dout c"

definition whole_env :: "whole_card card_env" where
  "whole_env = \<lparr>on_pins = whole_pins, dout = whole_dout, io_inputs = \<lambda>_. 0, lap_usec = \<lambda>_. 0, satcart_found = True\<rparr>"

lemma whole_env_simps [simp]: "on_pins whole_env = whole_pins" "dout whole_env = whole_dout" "satcart_found whole_env"
  "io_inputs whole_env c = 0"
  by (simp_all add: whole_env_def)

fun whole_blocks :: "whole_card \<Rightarrow> u32 \<Rightarrow> byte list" where
  "whole_blocks (Starting s c) = rc_data c"
| "whole_blocks (Started c) = rc_data c"

fun whole_ready :: "nat \<Rightarrow> whole_card \<Rightarrow> bool" where
  "whole_ready n (Starting s c) = False"
| "whole_ready n (Started c) = rc_ready n c"

lemma whole_sd_card: "n < 2 ^ 32 \<Longrightarrow> sd_card whole_env 1 whole_blocks n (whole_ready n)"
proof (rule embeds_card [where emb = Started, OF _ _ _ _ _ sample_sd_card])
  show "whole_ready n x \<longleftrightarrow> (\<exists>a. x = Started a \<and> rc_ready n a)" for x by (cases x) simp_all
qed (simp_all add: embeds_def)

definition mount_card :: sample_card where
  "mount_card = \<lparr>rc_blocks = sample_boot # replicate 5000 (replicate 512 0), rc_mode = Awaits_command, rc_in = [], rc_out = [],
     rc_dout = True, rc_clk = False\<rparr>"

definition power_on :: "whole_card sd_global" where
  "power_on = zero_global 2 (zero_sdcard \<lparr>pin_cs = True, pin_din = True, pin_clk = False, leds = 0, reinsert = False,
     the_card = Starting (the_card (sd_bus script_sd)) mount_card\<rparr>)"

lemma starting_rx:
  "n < length (script s) \<Longrightarrow> (rx whole_env True ^^ n) (Starting s c) = Starting ((rx script_env True ^^ n) s) c"
proof (induction n)
  case (Suc n)
  let ?s = "(rx script_env True ^^ n) s"
  have "script ?s \<noteq> []" "script (script_pins True True True ?s) \<noteq> []"
    using Suc.prems by (simp_all add: script_clocks script_pins_def)
  then have "rx whole_env True (Starting ?s c) = Starting (rx script_env True ?s) c" by (simp add: rx_def)
  then show ?case using Suc by simp
qed simp

lemma power_on_dialogue:
  "\<exists>s. answers_all whole_env (powered_up whole_env (the_card (sd_bus (sd_of power_on)))) script_cmds (Starting s mount_card) \<and> script s = []"
proof -
  let ?s = "the_card (sd_bus script_sd)" and ?emb = "\<lambda>s. Starting s mount_card"
  have e: "embeds script_env whole_env False ?emb" by (simp add: embeds_def)
  have "74 < length (script ?s)" by (simp add: script_sd_def zero_sdcard_def script_cmds_def spoken_answer_def)
  then have p: "powered_up whole_env (the_card (sd_bus (sd_of power_on))) = ?emb (powered_up script_env ?s)"
    by (simp add: powered_up_def starting_rx power_on_def sd_of_def zero_global_def zero_fatfs_def zero_sdcard_def)
  have "\<forall>(cmd, arg, resp) \<in> set script_cmds. length resp = fst (response_lengths cmd) \<and> \<not> bit (hd resp) 7"
    by (simp add: script_cmds_def op_cond_cmds_def register_cmds_def response_lengths_def script_csd_def bit_1_iff)
  from script_answers_all [OF script_powered_up this] obtain s
    where "answers_all script_env (powered_up script_env ?s) script_cmds s" "script s = []" by blast
  then show ?thesis unfolding p using embeds_answers_all [OF e] by blast
qed

theorem sdc_fat_init_correct_witness:
  "\<exists>fg. sdc_fat_init whole_env power_on = Some (SDC_OK, fg) \<and> init_ok (sd_of fg) = 1 \<and> handles fg [] [0, 1]
    \<and> fat_type (fg_fs fg) = FAT_TYPE_16 \<and> unat (cluster_begin_lba (fg_fs fg)) = 17"
proof -
  obtain s where a: "answers_all whole_env (powered_up whole_env (the_card (sd_bus (sd_of power_on)))) script_cmds (Starting s mount_card)"
    "script s = []" using power_on_dialogue by blast
  have e: "\<not> bit (reg_read whole_env REG_CPLD_IO (sd_bus (sd_of power_on))) SD_EJECT_LSHFT"
    by (simp add: reg_read_def power_on_def sd_of_def zero_global_def zero_fatfs_def zero_sdcard_def)
  have l: "length [1, 1 :: byte] < 5000" "drop_bit 6 (([0, 0xFF, 0xFE] @ script_csd @ [0]) ! 3) = 1"
    by (simp_all add: script_csd_def)
  have v: "drop_bit 6 ([0, 0xC0, 0xFF, 0x80, 0] ! 1) AND 1 = (1 :: byte)" by simp
  have c: "Started mount_card = on_pins whole_env True True False (Starting s mount_card)" using a(2) by simp
  have w: "sd_card whole_env (drop_bit 6 ([0, 0xC0, 0xFF, 0x80, 0] ! 1) AND 1) whole_blocks 5001 (whole_ready 5001)"
    unfolding v by (rule whole_sd_card) simp
  have r: "whole_ready 5001 (Started mount_card)" by (simp add: rc_ready_def mount_card_def sample_boot_sound(5))
  have b: "whole_blocks (Started mount_card) 0 = sample_boot" by (simp add: rc_data_def mount_card_def)
  have m: "(0 :: nat) < 5001" "le16 (whole_blocks (Started mount_card) 0) 510 = 0xAA55"
    "0 = partition_start (whole_blocks (Started mount_card) 0)" "sample_boot = whole_blocks (Started mount_card) (word_of_nat 0)"
    "4085 \<le> boot_clusters sample_boot"
    using sample_boot_sound b by simp_all
  have f: "[0..<length (files power_on)] = [0, 1]" by (simp add: power_on_def zero_global_def upt_rec)
  show ?thesis
    using sdc_fat_init_correct [OF whole_env_simps(3) e a(1) [unfolded script_cmds_def] l c w r m(1-4) m(1) sample_boot_sound(1) m(5)]
      sample_boot_sound(2,7) unfolding f by (auto simp: mounted_def)
qed

end
