(* ===== verification/FatFormat.thy ===== *)
theory FatFormat
  imports FatMount
begin

section \<open>Formatting\<close>

text \<open>
  Models \<open>fat_format.c\<close>, which a build may switch on. As in \<open>FatAccess\<close> the outer option is \<open>None\<close> for a
  null function pointer. The results 1 and 0 of the inner functions are truth values, those of the functions for a
  whole volume are numbers: besides 1 and 0 there is the code of \<open>FAT_INIT_MEDIA_ACCESS_ERROR\<close>.
\<close>

subsection \<open>The size of a cluster\<close>

definition cluster_size_table16 :: "(u32 \<times> byte) list" where
  "cluster_size_table16 = [(32680, 2), (262144, 4), (524288, 8), (1048576, 16), (2097152, 32), (4194304, 64), (8388608, 128), (0, 0)]"

definition cluster_size_table32 :: "(u32 \<times> byte) list" where
  "cluster_size_table32 = [(532480, 1), (16777216, 8), (33554432, 16), (67108864, 32), (0xFFFFFFFF, 64), (0, 0)]"

fun cluster_size_loop :: "(u32 \<times> byte) list \<Rightarrow> u32 \<Rightarrow> byte" where
  "cluster_size_loop [] sectors = 0"
| "cluster_size_loop ((limit, spc) # table) sectors =
     (if spc = 0 then 0 else if sectors \<le> limit then spc else cluster_size_loop table sectors)"

definition fatfs_calc_cluster_size :: "u32 \<Rightarrow> bool \<Rightarrow> byte" where
  "fatfs_calc_cluster_size sectors is_fat32 =
     (if \<not> is_fat32 then cluster_size_loop cluster_size_table16 sectors else cluster_size_loop cluster_size_table32 sectors)"

subsection \<open>Writing sectors\<close>

definition set_sector :: "byte list \<Rightarrow> 'd fatfs \<Rightarrow> 'd fatfs" where
  "set_sector s fs = fs\<lparr>currentsector := (currentsector fs)\<lparr>fb_sector := s\<rparr>\<rparr>"

text \<open>The working buffer is written to \<open>k\<close> sectors, from the \<open>i\<close>th behind \<open>lba\<close> on.\<close>

fun write_run :: "'d fatfs \<Rightarrow> u32 \<Rightarrow> nat \<Rightarrow> nat \<Rightarrow> (bool \<times> 'd fatfs) option" where
  "write_run fs lba i 0 = Some (True, fs)"
| "write_run fs lba i (Suc k) = do {
     (ok, fs) \<leftarrow> fatfs_sector_write fs (lba + word_of_nat i) (fb_sector (currentsector fs)) 1;
     if ok then write_run fs lba (Suc i) k else Some (False, fs) }"

definition fatfs_erase_sectors :: "'d fatfs \<Rightarrow> u32 \<Rightarrow> int \<Rightarrow> (bool \<times> 'd fatfs) option" where
  "fatfs_erase_sectors fs lba count = write_run (set_sector (replicate FAT_SECTOR_SIZE 0) fs) lba 0 (nat count)"

subsection \<open>The boot sector\<close>

definition bytes16 :: "u16 \<Rightarrow> byte list" where
  "bytes16 v = map (\<lambda>k. ucast (drop_bit k v AND 0xFF)) [0, 8]"

definition bytes32 :: "u32 \<Rightarrow> byte list" where
  "bytes32 v = map (\<lambda>k. ucast (drop_bit k v AND 0xFF)) [0, 8, 16, 24]"

definition volume_name :: "byte list \<Rightarrow> byte list" where
  "volume_name name = map (\<lambda>i. if i < length (cstring name) then name ! i else 0x20) [0..<11]"

text \<open>The fields are written one after the other, each at its offset.\<close>

fun write_fields :: "(nat \<times> byte list) list \<Rightarrow> byte list \<Rightarrow> byte list" where
  "write_fields [] s = s"
| "write_fields ((p, xs) # fds) s = write_fields fds (mem_write p xs s)"

definition boot_start :: "(nat \<times> byte list) list" where
  "boot_start = [(0, [0xEB, 0x3C, 0x90, 0x4D, 0x53, 0x44, 0x4F, 0x53, 0x35, 0x2E, 0x30]), (11, [0x00, 0x02])]"

definition boot_head :: "byte \<Rightarrow> u16 \<Rightarrow> byte \<Rightarrow> u16 \<Rightarrow> (nat \<times> byte list) list" where
  "boot_head spc reserved fats root_entries = [(13, [spc]), (14, bytes16 reserved), (16, [fats]), (17, bytes16 root_entries), (19, [0, 0]), (21, [0xF8])]"

definition boot_fat16 :: "u32 \<Rightarrow> u32 \<Rightarrow> byte list \<Rightarrow> (nat \<times> byte list) list" where
  "boot_fat16 fat_size vol_sectors name = [(22, take 2 (bytes32 fat_size)), (24, [0, 0]), (26, [0, 0]), (28, [0x20, 0, 0, 0]),
     (32, bytes32 vol_sectors), (36, [0]), (37, [0]), (38, [0x29]), (39, [0x12, 0x34, 0x56, 0x78]), (43, volume_name name),
     (54, ascii ''FAT16   ''), (510, [0x55, 0xAA])]"

definition boot_fat32 :: "u32 \<Rightarrow> u32 \<Rightarrow> u32 \<Rightarrow> u16 \<Rightarrow> byte list \<Rightarrow> (nat \<times> byte list) list" where
  "boot_fat32 fat_size vol_sectors root_cluster fs_info name = [(22, [0, 0]), (24, [0x3F, 0]), (26, [0xFF, 0]), (28, [0, 0, 0, 0]),
     (32, bytes32 vol_sectors), (36, bytes32 fat_size), (40, [0, 0]), (42, [0, 0]), (44, bytes32 root_cluster), (48, bytes16 fs_info),
     (50, [6, 0]), (64, [0]), (66, [0x29]), (67, [0x12, 0x34, 0x56, 0x78]), (71, volume_name name), (82, ascii ''FAT32   ''), (510, [0x55, 0xAA])]"

definition fatfs_create_boot_sector :: "'d fatfs \<Rightarrow> u32 \<Rightarrow> u32 \<Rightarrow> byte list \<Rightarrow> bool \<Rightarrow> (bool \<times> 'd fatfs) option" where
  "fatfs_create_boot_sector fs boot_sector_lba vol_sectors name is_fat32 =
     (let s = write_fields boot_start (replicate FAT_SECTOR_SIZE 0);
          fs = fs\<lparr>sectors_per_cluster := fatfs_calc_cluster_size vol_sectors is_fat32\<rparr>
      in if sectors_per_cluster fs = 0 then Some (False, set_sector s fs)
         else let fs = fs\<lparr>reserved_sectors := (if \<not> is_fat32 then 8 else 32), num_of_fats := 2, root_entry_count := (if \<not> is_fat32 then 512 else 0)\<rparr>;
                  s = write_fields (boot_head (sectors_per_cluster fs) (reserved_sectors fs) (num_of_fats fs) (root_entry_count fs)) s;
                  total_clusters = vol_sectors div ucast (sectors_per_cluster fs) + 1;
                  fs = fs\<lparr>fat_sectors := total_clusters div (if \<not> is_fat32 then 512 div 2 else 512 div 4) + 1\<rparr>;
                  s = write_fields (if \<not> is_fat32 then boot_fat16 (fat_sectors fs) vol_sectors name
                    else boot_fat32 (fat_sectors fs) vol_sectors (rootdir_first_cluster fs) (fs_info_sector fs) name) s
              in fatfs_sector_write (set_sector s fs) boot_sector_lba s 1)"

definition fsinfo_fields :: "(nat \<times> byte list) list" where
  "fsinfo_fields = [(0, [0x52, 0x52, 0x61, 0x41]), (484, [0x72, 0x72, 0x41, 0x61]), (488, [0xFF, 0xFF, 0xFF, 0xFF]),
     (492, [0xFF, 0xFF, 0xFF, 0xFF]), (510, [0x55, 0xAA])]"

definition fatfs_create_fsinfo_sector :: "'d fatfs \<Rightarrow> u32 \<Rightarrow> (bool \<times> 'd fatfs) option" where
  "fatfs_create_fsinfo_sector fs sector_lba =
     (let s = write_fields fsinfo_fields (replicate FAT_SECTOR_SIZE 0)
      in fatfs_sector_write (set_sector s fs) sector_lba s 1)"

subsection \<open>The table and the volume\<close>

definition fatfs_erase_fat :: "'d fatfs \<Rightarrow> bool \<Rightarrow> (bool \<times> 'd fatfs) option" where
  "fatfs_erase_fat fs is_fat32 = do {
     let z = replicate FAT_SECTOR_SIZE 0;
     s \<leftarrow> (if \<not> is_fat32
       then do { s \<leftarrow> SET_16BIT_WORD z 0 0xFFF8; SET_16BIT_WORD s 2 0xFFFF }
       else do { s \<leftarrow> SET_32BIT_WORD z 0 0x0FFFFFF8; s \<leftarrow> SET_32BIT_WORD s 4 0xFFFFFFFF; SET_32BIT_WORD s 8 0x0FFFFFFF });
     let fs = set_sector s fs;
     (ok, fs) \<leftarrow> fatfs_sector_write fs (fat_begin_lba fs + 0) s 1;
     if \<not> ok then Some (False, fs)
     else write_run (set_sector z fs) (fat_begin_lba fs) 1 (unat (fat_sectors fs * ucast (num_of_fats fs)) - 1) }"

text \<open>What both functions start with.\<close>

definition format_start :: "'d fatfs \<Rightarrow> 'd fatfs" where
  "format_start fs = fatfs_fat_init 1 (fs\<lparr>currentsector := (currentsector fs)\<lparr>fb_address := FAT32_INVALID_CLUSTER, fb_dirty := False\<rparr>,
     next_free_cluster := 0\<rparr>)"

definition fatfs_format_fat16 :: "'d fatfs \<Rightarrow> u32 \<Rightarrow> byte list \<Rightarrow> (int \<times> 'd fatfs) option" where
  "fatfs_format_fat16 fs volume_sectors name = do {
     let fs = format_start fs;
     if read_media fs = None \<or> write_media fs = None then Some (- 1, fs)
     else do {
       let fs = fs\<lparr>fat_type := FAT_TYPE_16, fs_info_sector := 0, rootdir_first_cluster := 0, lba_begin := 0\<rparr>;
       (ok, fs) \<leftarrow> fatfs_create_boot_sector fs (lba_begin fs) volume_sectors name False;
       if \<not> ok then Some (0, fs)
       else do {
         let fs = fs\<lparr>rootdir_first_sector := ucast (reserved_sectors fs) + ucast (num_of_fats fs) * fat_sectors fs,
           rootdir_sectors := (ucast (root_entry_count fs) * 32 + (512 - 1)) div 512,
           fat_begin_lba := lba_begin fs + ucast (reserved_sectors fs)\<rparr>;
         let fs = fs\<lparr>cluster_begin_lba := fat_begin_lba fs + ucast (num_of_fats fs) * fat_sectors fs\<rparr>;
         (ok, fs) \<leftarrow> fatfs_erase_fat fs False;
         if \<not> ok then Some (0, fs)
         else do {
           (ok, fs) \<leftarrow> fatfs_erase_sectors fs (lba_begin fs + rootdir_first_sector fs) (sint (rootdir_sectors fs));
           Some (of_bool ok, fs) } } } }"

definition fatfs_format_fat32 :: "'d fatfs \<Rightarrow> u32 \<Rightarrow> byte list \<Rightarrow> (int \<times> 'd fatfs) option" where
  "fatfs_format_fat32 fs volume_sectors name = do {
     let fs = format_start fs;
     if read_media fs = None \<or> write_media fs = None then Some (- 1, fs)
     else do {
       let fs = fs\<lparr>fat_type := FAT_TYPE_32, fs_info_sector := 1, rootdir_first_cluster := 2, lba_begin := 0\<rparr>;
       (ok, fs) \<leftarrow> fatfs_create_boot_sector fs (lba_begin fs) volume_sectors name True;
       if \<not> ok then Some (0, fs)
       else do {
         let fs = fs\<lparr>fat_begin_lba := lba_begin fs + ucast (reserved_sectors fs)\<rparr>;
         let fs = fs\<lparr>cluster_begin_lba := fat_begin_lba fs + ucast (num_of_fats fs) * fat_sectors fs\<rparr>;
         (ok, fs) \<leftarrow> fatfs_create_fsinfo_sector fs (ucast (fs_info_sector fs));
         if \<not> ok then Some (0, fs)
         else do {
           (ok, fs) \<leftarrow> fatfs_erase_fat fs True;
           if \<not> ok then Some (0, fs)
           else do {
             (ok, fs) \<leftarrow> fatfs_erase_sectors fs (fatfs_lba_of_cluster fs (rootdir_first_cluster fs)) (uint (sectors_per_cluster fs));
             Some (of_bool ok, fs) } } } } }"

definition fatfs_format :: "'d fatfs \<Rightarrow> u32 \<Rightarrow> byte list \<Rightarrow> (int \<times> 'd fatfs) option" where
  "fatfs_format fs volume_sectors name =
     (if volume_sectors \<le> 4194304 then fatfs_format_fat16 fs volume_sectors name else fatfs_format_fat32 fs volume_sectors name)"

definition fl_format :: "u32 \<Rightarrow> byte list \<Rightarrow> 'd FL_GLOBAL \<Rightarrow> (int \<times> 'd FL_GLOBAL) option" where
  "fl_format volume_sectors name fg = do {
     (r, fs) \<leftarrow> fatfs_format (fg_fs fg) volume_sectors name;
     Some (r, fg\<lparr>fg_fs := fs\<rparr>) }"

subsection \<open>What the boot sector says\<close>

lemma bytes_lengths [simp]: "length (bytes16 v) = 2" "length (bytes32 w) = 4" "length (volume_name name) = 11"
  by (simp_all add: bytes16_def bytes32_def volume_name_def)

fun field_byte :: "(nat \<times> byte list) list \<Rightarrow> nat \<Rightarrow> byte option" where
  "field_byte [] i = None"
| "field_byte ((p, xs) # fds) i = (case field_byte fds i of Some x \<Rightarrow> Some x
     | None \<Rightarrow> if p \<le> i \<and> i < p + length xs then Some (xs ! (i - p)) else None)"

definition fields_fit :: "nat \<Rightarrow> (nat \<times> byte list) list \<Rightarrow> bool" where
  "fields_fit n fds \<longleftrightarrow> (\<forall>(p, xs) \<in> set fds. p + length xs \<le> n)"

lemma write_fields_append: "write_fields (xs @ ys) s = write_fields ys (write_fields xs s)"
  by (induction xs arbitrary: s) auto

lemma length_write_fields: "fields_fit (length s) fds \<Longrightarrow> length (write_fields fds s) = length s"
  by (induction fds arbitrary: s) (auto simp: fields_fit_def)

lemma nth_write_fields:
  "fields_fit (length s) fds \<Longrightarrow> i < length s \<Longrightarrow>
    write_fields fds s ! i = (case field_byte fds i of Some x \<Rightarrow> x | None \<Rightarrow> s ! i)"
proof (induction fds arbitrary: s)
  case (Cons f fds)
  obtain p xs where f: "f = (p, xs)" by (cases f)
  have l: "length (mem_write p xs s) = length s" using Cons.prems(1) by (simp add: fields_fit_def f)
  have "write_fields fds (mem_write p xs s) ! i = (case field_byte fds i of Some x \<Rightarrow> x | None \<Rightarrow> mem_write p xs s ! i)"
    using Cons.IH [of "mem_write p xs s"] Cons.prems by (simp add: l) (simp add: fields_fit_def)
  then show ?case using Cons.prems by (auto simp: f fields_fit_def nth_mem_write split: option.split)
qed simp

definition fields16 :: "u32 \<Rightarrow> byte list \<Rightarrow> (nat \<times> byte list) list" where
  "fields16 vol name = (let spc = fatfs_calc_cluster_size vol False in
     boot_start @ boot_head spc 8 2 512 @ boot_fat16 ((vol div ucast spc + 1) div 256 + 1) vol name)"

definition fields32 :: "u32 \<Rightarrow> byte list \<Rightarrow> (nat \<times> byte list) list" where
  "fields32 vol name = (let spc = fatfs_calc_cluster_size vol True in
     boot_start @ boot_head spc 32 2 0 @ boot_fat32 ((vol div ucast spc + 1) div 128 + 1) vol 2 1 name)"

lemmas fields_def = fields16_def fields32_def boot_start_def boot_head_def boot_fat16_def boot_fat32_def Let_def

definition boot_of :: "(nat \<times> byte list) list \<Rightarrow> byte list" where
  "boot_of fds = write_fields fds (replicate FAT_SECTOR_SIZE 0)"

lemma fields_fit: "fields_fit 512 (fields16 vol name)" "fields_fit 512 (fields32 vol name)" "fields_fit 512 fsinfo_fields"
  by (simp_all add: fields_fit_def fields_def fsinfo_fields_def ascii_def)

lemma length_boot: "fields_fit 512 fds \<Longrightarrow> length (boot_of fds) = FAT_SECTOR_SIZE"
  using length_write_fields [of "replicate 512 0" fds] by (simp add: boot_of_def)

lemma nth_boot: "fields_fit 512 fds \<Longrightarrow> i < 512 \<Longrightarrow> boot_of fds ! i = (case field_byte fds i of Some x \<Rightarrow> x | None \<Rightarrow> 0)"
  using nth_write_fields [of "replicate 512 0" fds i] by (simp add: boot_of_def split: option.split)

lemma le32_bytes:
  assumes "i + 3 < length b" "\<And>k. k < 4 \<Longrightarrow> b ! (i + k) = bytes32 v ! k"
  shows "le32 b i = unat v"
proof -
  have "mem_read i 4 b = le_bytes32 v"
  proof (rule nth_equalityI)
    fix k assume "k < length (mem_read i 4 b)"
    then have k: "k < 4" using assms(1) by simp
    have "bytes32 v = le_bytes32 v" by (simp add: bytes32_def le_bytes32_def)
    then show "mem_read i 4 b ! k = le_bytes32 v ! k" using assms k by (simp add: nth_mem_read)
  qed (use assms(1) in \<open>simp add: le_bytes32_def\<close>)
  from GET_32BIT_WORD_eq [OF this] assms(1) have "GET_32BIT_WORD b i = Some v" by simp
  then have "word_of_nat (le32 b i) = v" using GET_32BIT_le32 [OF assms(1)] by simp
  then show ?thesis using le32_less [of b i] by (metis word_of_sum)
qed

lemma le16_bytes32:
  assumes "b ! i = bytes32 v ! 0" "b ! (i + 1) = bytes32 v ! 1" "unat v < 2 ^ 16"
  shows "le16 b i = unat v"
proof -
  have "unat v div 256 < 256" using assms(3) by (simp add: div_less_iff_less_mult)
  then show ?thesis
    using assms by (simp add: le16_def bytes32_def unsigned_ucast_eq take_bit_eq_mod drop_bit_eq_div unat_div_distrib)
qed

lemma boot16_fields:
  defines "b vol name \<equiv> boot_of (fields16 vol name)"
  shows "b vol name ! 13 = fatfs_calc_cluster_size vol False" "b vol name ! 16 = 2" "b vol name ! 450 = 0"
    "le16 (b vol name) 11 = 512" "le16 (b vol name) 14 = 8" "le16 (b vol name) 17 = 512" "le16 (b vol name) 19 = 0"
    "le16 (b vol name) 510 = 0xAA55" "le32 (b vol name) 32 = unat vol"
    "unat ((vol div ucast (fatfs_calc_cluster_size vol False) + 1) div 256 + 1) < 2 ^ 16 \<Longrightarrow>
      le16 (b vol name) 22 = unat ((vol div ucast (fatfs_calc_cluster_size vol False) + 1) div 256 + 1)"
proof -
  note n = nth_boot [OF fields_fit(1) [of vol name], folded b_def]
  note v = fields_def ascii_def
  show "b vol name ! 13 = fatfs_calc_cluster_size vol False" "b vol name ! 16 = 2" "b vol name ! 450 = 0"
    by (simp_all add: n) (simp_all add: v)
  show "le16 (b vol name) 11 = 512" "le16 (b vol name) 19 = 0" "le16 (b vol name) 510 = 0xAA55"
    by (simp_all add: n le16_def) (simp_all add: v)
  show "le16 (b vol name) 14 = 8" "le16 (b vol name) 17 = 512" by (simp_all add: n le16_def) (simp_all add: v bytes16_def)
  show "le32 (b vol name) 32 = unat vol"
  proof (rule le32_bytes)
    fix k :: nat assume "k < 4"
    then show "b vol name ! (32 + k) = bytes32 vol ! k" by (simp add: n) (simp add: v)
  qed (simp add: b_def length_boot [OF fields_fit(1)])
  have f: "b vol name ! 22 = bytes32 ((vol div ucast (fatfs_calc_cluster_size vol False) + 1) div 256 + 1) ! 0"
    "b vol name ! (22 + 1) = bytes32 ((vol div ucast (fatfs_calc_cluster_size vol False) + 1) div 256 + 1) ! 1"
    by (simp_all add: n) (simp_all add: v)
  assume "unat ((vol div ucast (fatfs_calc_cluster_size vol False) + 1) div 256 + 1) < 2 ^ 16"
  then show "le16 (b vol name) 22 = unat ((vol div ucast (fatfs_calc_cluster_size vol False) + 1) div 256 + 1)"
    by (intro le16_bytes32) (simp_all only: f)
qed

lemma boot32_fields:
  defines "b vol name \<equiv> boot_of (fields32 vol name)"
  shows "b vol name ! 13 = fatfs_calc_cluster_size vol True" "b vol name ! 16 = 2" "b vol name ! 450 = 0"
    "le16 (b vol name) 11 = 512" "le16 (b vol name) 14 = 32" "le16 (b vol name) 17 = 0" "le16 (b vol name) 19 = 0" "le16 (b vol name) 22 = 0"
    "le16 (b vol name) 510 = 0xAA55" "le32 (b vol name) 32 = unat vol" "le32 (b vol name) 44 = 2"
    "le32 (b vol name) 36 = unat ((vol div ucast (fatfs_calc_cluster_size vol True) + 1) div 128 + 1)"
proof -
  note n = nth_boot [OF fields_fit(2) [of vol name], folded b_def]
  note v = fields_def ascii_def
  show "b vol name ! 13 = fatfs_calc_cluster_size vol True" "b vol name ! 16 = 2" "b vol name ! 450 = 0"
    by (simp_all add: n) (simp_all add: v)
  show "le16 (b vol name) 11 = 512" "le16 (b vol name) 17 = 0" "le16 (b vol name) 19 = 0" "le16 (b vol name) 22 = 0" "le16 (b vol name) 510 = 0xAA55"
    by (simp_all add: n le16_def) (simp_all add: v bytes16_def)
  show "le16 (b vol name) 14 = 32" by (simp_all add: n le16_def) (simp_all add: v bytes16_def)
  have word: "le32 (b vol name) i = unat x" if "i \<in> {32, 36, 44}"
    "\<And>k. k < 4 \<Longrightarrow> field_byte (fields32 vol name) (i + k) = Some (bytes32 x ! k)" for i x
  proof (rule le32_bytes)
    fix k :: nat assume "k < 4"
    then show "b vol name ! (i + k) = bytes32 x ! k" using that by (auto simp: n)
  qed (use that(1) in \<open>auto simp: b_def length_boot [OF fields_fit(2)]\<close>)
  show "le32 (b vol name) 32 = unat vol" by (rule word) (simp_all add: v)
  have "le32 (b vol name) 44 = unat (2 :: u32)" by (rule word) (simp_all add: v)
  then show "le32 (b vol name) 44 = 2" by simp
  show "le32 (b vol name) 36 = unat ((vol div ucast (fatfs_calc_cluster_size vol True) + 1) div 128 + 1)"
    by (rule word) (simp_all add: v)
qed

subsection \<open>The geometry that formatting chooses\<close>

lemma cluster_size16:
  assumes "unat vol \<le> 4194304"
  shows "\<exists>s. unat (fatfs_calc_cluster_size vol False) = s \<and> (s = 2 \<and> unat vol \<le> 32680 \<or> s = 4 \<and> 32680 < unat vol \<and> unat vol \<le> 262144
    \<or> s = 8 \<and> 262144 < unat vol \<and> unat vol \<le> 524288 \<or> s = 16 \<and> 524288 < unat vol \<and> unat vol \<le> 1048576
    \<or> s = 32 \<and> 1048576 < unat vol \<and> unat vol \<le> 2097152 \<or> s = 64 \<and> 2097152 < unat vol)"
  using assms by (simp add: fatfs_calc_cluster_size_def cluster_size_table16_def word_le_nat_alt)

lemma cluster_size32:
  assumes "4194304 < unat vol"
  shows "unat (fatfs_calc_cluster_size vol True) = 8 \<or> unat (fatfs_calc_cluster_size vol True) \<in> {16, 32, 64} \<and> 16777216 < unat vol"
proof -
  have "unat vol < 2 ^ LENGTH(32)" by (rule unsigned_less)
  then have "vol \<le> 0xFFFFFFFF" by (simp add: word_le_nat_alt)
  then show ?thesis using assms by (auto simp: fatfs_calc_cluster_size_def cluster_size_table32_def word_le_nat_alt)
qed

lemma table_size:
  assumes "2 \<le> unat (spc :: byte)"
  shows "unat ((vol div ucast spc + 1) div 256 + 1 :: u32) = (unat vol div unat spc + 1) div 256 + 1"
    "unat ((vol div ucast spc + 1) div 128 + 1 :: u32) = (unat vol div unat spc + 1) div 128 + 1"
proof -
  have q: "unat (vol div ucast spc) = unat vol div unat spc" by (simp add: unat_div_distrib upcast_byte)
  have v: "unat vol < 4294967296" using unsigned_less [of vol] by simp
  have "unat vol div unat spc \<le> unat vol div 2" using assms by (rule div_le_mono2 [rotated]) simp
  then have b: "unat vol div unat spc < 2147483648" using v by simp
  have suc: "unat (x + 1) = unat x + 1" if "unat x \<le> 2147483648" for x :: u32 using that by (simp add: unat_word_ariths)
  have one: "unat (vol div ucast spc + 1) = unat vol div unat spc + 1" using suc [of "vol div ucast spc"] b by (simp add: q)
  have le: "(unat vol div unat spc + 1) div k \<le> 2147483648" for k
    using b by (intro order_trans [OF div_le_dividend]) simp
  show "unat ((vol div ucast spc + 1) div 256 + 1 :: u32) = (unat vol div unat spc + 1) div 256 + 1"
    "unat ((vol div ucast spc + 1) div 128 + 1 :: u32) = (unat vol div unat spc + 1) div 128 + 1"
    using suc le by (simp_all add: unat_div_distrib one)
qed

lemma clusters16:
  fixes v s f :: nat
  assumes "8244 \<le> v" "f = (v div s + 1) div 256 + 1"
    and "s = 2 \<and> v \<le> 32680 \<or> s = 4 \<and> 32680 < v \<and> v \<le> 262144 \<or> s = 8 \<and> 262144 < v \<and> v \<le> 524288
      \<or> s = 16 \<and> 524288 < v \<and> v \<le> 1048576 \<or> s = 32 \<and> 1048576 < v \<and> v \<le> 2097152 \<or> s = 64 \<and> 2097152 < v \<and> v \<le> 4194304"
  shows "40 + 2 * f \<le> v" "4085 \<le> (v - (40 + 2 * f)) div s" "(v - (40 + 2 * f)) div s < 65525 \<longleftrightarrow> v < 4194152" "f < 2 ^ 16" "0 < f"
proof -
  have s: "0 < s" using assms(3) by auto
  have c: "k \<le> (v - (40 + 2 * f)) div s \<longleftrightarrow> s * k \<le> v - (40 + 2 * f)" for k
    using s by (simp add: less_eq_div_iff_mult_less_eq mult.commute)
  obtain q where q: "s * q \<le> v" "v < s * q + s" "256 * f \<le> q + 257" "q + 1 < 256 * f"
  proof
    show "s * (v div s) \<le> v" by simp
    show "v < s * (v div s) + s" using dividend_less_times_div [OF s, of v] by simp
    show "256 * f \<le> v div s + 257" unfolding assms(2) using times_div_less_eq_dividend [of 256 "v div s + 1"] by (simp add: add_mult_distrib2)
    show "v div s + 1 < 256 * f" unfolding assms(2) using dividend_less_times_div [of 256 "v div s + 1"] by (simp add: add_mult_distrib2)
  qed
  have cut: "s = 2 \<Longrightarrow> v \<le> 8700 \<Longrightarrow> f \<le> 17" "s = 64 \<Longrightarrow> 4193640 + 2 * f \<le> v \<Longrightarrow> 256 \<le> f" "s = 64 \<Longrightarrow> v < 4194240 \<Longrightarrow> f \<le> 256"
    using q by simp_all
  show "0 < f" using assms(2) by simp
  show le: "40 + 2 * f \<le> v" using assms(1,3) q by (elim disjE conjE; simp; linarith)
  show "f < 2 ^ 16" using assms(3) q by (elim disjE conjE; simp; linarith)
  have "s * 4085 + 40 + 2 * f \<le> v"
  proof (cases "s = 2 \<and> v \<le> 8700")
    case True then show ?thesis using cut(1) assms(1) by simp
  next
    case False then show ?thesis using assms(3) q by (elim disjE conjE; simp; linarith)
  qed
  then show "4085 \<le> (v - (40 + 2 * f)) div s" unfolding c by simp
  have "s * 65525 + 40 + 2 * f \<le> v \<longleftrightarrow> 4194152 \<le> v"
  proof (cases "s = 64")
    case True
    have "4194152 \<le> v" if "4193640 + 2 * f \<le> v" using cut(2) [OF True that] that by linarith
    moreover have "4193640 + 2 * f \<le> v" if "4194152 \<le> v"
      using cut(3) [OF True] q [unfolded True] that by linarith
    ultimately show ?thesis using True by auto
  next
    case False
    then have "\<not> s * 65525 + 40 + 2 * f \<le> v" "\<not> 4194152 \<le> v" using assms(3) q by (elim disjE conjE; simp; linarith)+
    then show ?thesis by simp
  qed
  then have "65525 \<le> (v - (40 + 2 * f)) div s \<longleftrightarrow> 4194152 \<le> v" unfolding c using le by linarith
  then show "(v - (40 + 2 * f)) div s < 65525 \<longleftrightarrow> v < 4194152" by linarith
qed

lemma geometry16:
  assumes "8244 \<le> unat vol" "unat vol \<le> 4194304" "b = boot_of (fields16 vol name)" "s = unat (fatfs_calc_cluster_size vol False)"
    and "f = (unat vol div s + 1) div 256 + 1"
  shows "boot_fat_size b = f" "boot_total b = unat vol" "boot_tables b = 8 + 2 * f" "boot_data b = 40 + 2 * f" "40 + 2 * f \<le> unat vol"
    "4085 \<le> boot_clusters b" "boot_clusters b < 65525 \<longleftrightarrow> unat vol < 4194152" "f < 2 ^ 16"
    "unat ((vol div ucast (fatfs_calc_cluster_size vol False) + 1) div 256 + 1) = f"
proof -
  have c: "s = 2 \<and> unat vol \<le> 32680 \<or> s = 4 \<and> 32680 < unat vol \<and> unat vol \<le> 262144
      \<or> s = 8 \<and> 262144 < unat vol \<and> unat vol \<le> 524288 \<or> s = 16 \<and> 524288 < unat vol \<and> unat vol \<le> 1048576
      \<or> s = 32 \<and> 1048576 < unat vol \<and> unat vol \<le> 2097152 \<or> s = 64 \<and> 2097152 < unat vol \<and> unat vol \<le> 4194304"
    using cluster_size16 [OF assms(2)] assms(2,4) by auto
  note k = clusters16 [OF assms(1,5) c]
  have "2 \<le> unat (fatfs_calc_cluster_size vol False)" using c assms(4) by auto
  from table_size(1) [OF this] show t: "unat ((vol div ucast (fatfs_calc_cluster_size vol False) + 1) div 256 + 1) = f"
    using assms(4,5) by simp
  note v = boot16_fields [of vol name, folded assms(3)]
  have w: "le16 b 22 = f" using v(10) k(4) unfolding t by simp
  show fs: "boot_fat_size b = f" using w k(5) by (simp add: boot_fat_size_def)
  show "boot_total b = unat vol" by (simp add: boot_total_def v)
  show tb: "boot_tables b = 8 + 2 * f" by (simp add: boot_tables_def v fs)
  show d: "boot_data b = 40 + 2 * f" by (simp add: boot_data_def tb v)
  show "40 + 2 * f \<le> unat vol" "f < 2 ^ 16" using k by simp_all
  have "boot_clusters b = (unat vol - (40 + 2 * f)) div s" by (simp add: boot_clusters_def boot_total_def v d assms(4))
  then show "4085 \<le> boot_clusters b" "boot_clusters b < 65525 \<longleftrightarrow> unat vol < 4194152" using k by simp_all
qed

lemma clusters32:
  fixes v s f :: nat
  assumes "4194304 < v" "f = (v div s + 1) div 128 + 1" "s \<in> {8, 16, 32, 64}"
    and "s = 8 \<or> 16777216 < v"
  shows "32 + 2 * f + s \<le> v" "65525 \<le> (v - (32 + 2 * f)) div s" "0 < f"
proof -
  have s: "0 < s" using assms(3) by auto
  have q: "s * (v div s) \<le> v" "128 * f \<le> v div s + 129"
    unfolding assms(2) using times_div_less_eq_dividend [of 128 "v div s + 1"] by simp_all
  have "s * 65525 + 32 + 2 * f \<le> v" using assms(1,3,4) q by (elim insertE; simp; linarith)
  then have "s * 65525 \<le> v - (32 + 2 * f)" by simp
  then show "65525 \<le> (v - (32 + 2 * f)) div s"
    using s by (simp add: less_eq_div_iff_mult_less_eq mult.commute)
  show "32 + 2 * f + s \<le> v" using \<open>s * 65525 + 32 + 2 * f \<le> v\<close> by linarith
  show "0 < f" using assms(2) by simp
qed

lemma geometry32:
  assumes "4194304 < unat vol" "b = boot_of (fields32 vol name)" "s = unat (fatfs_calc_cluster_size vol True)"
    and "f = (unat vol div s + 1) div 128 + 1"
  shows "boot_fat_size b = f" "boot_total b = unat vol" "boot_tables b = 32 + 2 * f" "boot_data b = 32 + 2 * f" "32 + 2 * f + s \<le> unat vol"
    "65525 \<le> boot_clusters b" "unat ((vol div ucast (fatfs_calc_cluster_size vol True) + 1) div 128 + 1) = f"
proof -
  have c: "s \<in> {8, 16, 32, 64}" "s = 8 \<or> 16777216 < unat vol" using cluster_size32 [OF assms(1)] assms(3) by auto
  note k = clusters32 [OF assms(1,4) c]
  have "2 \<le> unat (fatfs_calc_cluster_size vol True)" using c assms(3) by auto
  from table_size(2) [OF this] show t: "unat ((vol div ucast (fatfs_calc_cluster_size vol True) + 1) div 128 + 1) = f"
    using assms(3,4) by simp
  note v = boot32_fields [of vol name, folded assms(2)]
  show fs: "boot_fat_size b = f" using v(8,12) unfolding t by (simp add: boot_fat_size_def)
  show "boot_total b = unat vol" by (simp add: boot_total_def v)
  show tb: "boot_tables b = 32 + 2 * f" by (simp add: boot_tables_def v fs)
  show d: "boot_data b = 32 + 2 * f" by (simp add: boot_data_def tb v)
  show "32 + 2 * f + s \<le> unat vol" using k by simp
  have "boot_clusters b = (unat vol - (32 + 2 * f)) div s" by (simp add: boot_clusters_def boot_total_def v d assms(3))
  then show "65525 \<le> boot_clusters b" using k by simp
qed

subsection \<open>Writing to a medium that does not fail\<close>

lemma write_sector_ok:
  assumes "block_device rd wr disk n valid" "device_ok rd wr n valid" "valid (medium fs)" "write_media fs = Some wr" "unat lba < n"
    and "length s = FAT_SECTOR_SIZE"
  shows "\<exists>d. fatfs_sector_write fs lba s 1 = Some (True, fs\<lparr>medium := d\<rparr>) \<and> valid d
    \<and> (\<forall>t. unat t < n \<longrightarrow> disk d t = (if t = lba then s else disk (medium fs) t))"
proof -
  obtain d ok where d: "wr lba s 1 (medium fs) = (ok, d)" "valid d" "ok \<longrightarrow> disk d lba = s"
    "\<forall>t. unat t < n \<longrightarrow> t \<noteq> lba \<longrightarrow> disk d t = disk (medium fs) t"
    using block_device.write_law [OF assms(1,3,5,6)] by blast
  have ok using assms(2,3,5,6) d(1) unfolding device_ok_def by fastforce
  then show ?thesis using d by (intro exI [of _ d]) (simp add: fatfs_sector_write_def assms(4))
qed

lemma write_run_ok:
  assumes dev: "block_device rd wr disk n valid" "device_ok rd wr n valid" "n < 2 ^ 32"
  shows "valid (medium fs) \<Longrightarrow> write_media fs = Some wr \<Longrightarrow> unat lba + i + k \<le> n \<Longrightarrow> fb_sector (currentsector fs) = s \<Longrightarrow> length s = FAT_SECTOR_SIZE \<Longrightarrow>
    \<exists>d. write_run fs lba i k = Some (True, fs\<lparr>medium := d\<rparr>) \<and> valid d
      \<and> (\<forall>t. unat t < n \<longrightarrow> disk d t = (if unat lba + i \<le> unat t \<and> unat t < unat lba + i + k then s else disk (medium fs) t))"
proof (induction k arbitrary: i fs)
  case 0
  then show ?case by (intro exI [of _ "medium fs"]) auto
next
  case (Suc k)
  have u: "unat (lba + word_of_nat i) = unat lba + i"
    using Suc.prems(3) dev(3) unat_add_lem [of lba "word_of_nat i"] word_of_sum [of i] by simp
  then have "unat (lba + word_of_nat i) < n" using Suc.prems(3) by simp
  from write_sector_ok [OF dev(1,2) Suc.prems(1,2) this Suc.prems(5)] obtain d
    where d: "fatfs_sector_write fs (lba + word_of_nat i) s 1 = Some (True, fs\<lparr>medium := d\<rparr>)" "valid d"
      "\<forall>t. unat t < n \<longrightarrow> disk d t = (if t = lba + word_of_nat i then s else disk (medium fs) t)" by blast
  obtain e where e: "write_run (fs\<lparr>medium := d\<rparr>) lba (Suc i) k = Some (True, fs\<lparr>medium := e\<rparr>)" "valid e"
    "\<forall>t. unat t < n \<longrightarrow> disk e t = (if unat lba + Suc i \<le> unat t \<and> unat t < unat lba + Suc i + k then s else disk d t)"
    using Suc.IH [of "fs\<lparr>medium := d\<rparr>" "Suc i"] Suc.prems d(2) by auto
  have "disk e t = (if unat lba + i \<le> unat t \<and> unat t < unat lba + i + Suc k then s else disk (medium fs) t)" if "unat t < n" for t
  proof -
    have "t = lba + word_of_nat i \<longleftrightarrow> unat t = unat lba + i" unfolding word_unat_eq_iff u ..
    then show ?thesis using d(3) e(3) that by auto
  qed
  then show ?case using d(1) e(1,2) Suc.prems(4) by (intro exI [of _ e]) simp
qed

subsection \<open>What formatting writes\<close>

text \<open>The first sector of the new table, and what is written to sector \<open>t\<close> of the medium; \<open>None\<close>: nothing.\<close>

definition first_table16 :: "byte list" where
  "first_table16 = [0xF8, 0xFF, 0xFF, 0xFF] @ replicate 508 0"

definition first_table32 :: "byte list" where
  "first_table32 = [0xF8, 0xFF, 0xFF, 0x0F, 0xFF, 0xFF, 0xFF, 0xFF, 0xFF, 0xFF, 0xFF, 0x0F] @ replicate 500 0"

definition fresh16 :: "u32 \<Rightarrow> byte list \<Rightarrow> nat \<Rightarrow> byte list option" where
  "fresh16 vol name t = (let b = boot_of (fields16 vol name) in
     if t = 0 then Some b else if t = 8 then Some first_table16 else if 8 < t \<and> t < boot_data b then Some (replicate FAT_SECTOR_SIZE 0) else None)"

definition fresh32 :: "u32 \<Rightarrow> byte list \<Rightarrow> nat \<Rightarrow> byte list option" where
  "fresh32 vol name t = (let b = boot_of (fields32 vol name) in
     if t = 0 then Some b else if t = 1 then Some (boot_of fsinfo_fields) else if t = 32 then Some first_table32
     else if 32 < t \<and> t < boot_data b + unat (fatfs_calc_cluster_size vol True) then Some (replicate FAT_SECTOR_SIZE 0) else None)"

lemma table_starts:
  "SET_16BIT_WORD (replicate FAT_SECTOR_SIZE 0) 0 0xFFF8 = Some ([0xF8, 0xFF] @ replicate 510 0)"
  "SET_16BIT_WORD ([0xF8, 0xFF] @ replicate 510 0) 2 0xFFFF = Some first_table16"
  "SET_32BIT_WORD (replicate FAT_SECTOR_SIZE 0) 0 0x0FFFFFF8 = Some ([0xF8, 0xFF, 0xFF, 0x0F] @ replicate 508 0)"
  "SET_32BIT_WORD ([0xF8, 0xFF, 0xFF, 0x0F] @ replicate 508 0) 4 0xFFFFFFFF = Some ([0xF8, 0xFF, 0xFF, 0x0F, 0xFF, 0xFF, 0xFF, 0xFF] @ replicate 504 0)"
  "SET_32BIT_WORD ([0xF8, 0xFF, 0xFF, 0x0F, 0xFF, 0xFF, 0xFF, 0xFF] @ replicate 504 0) 8 0x0FFFFFFF = Some first_table32"
  by (simp_all add: SET_16BIT_WORD_eq SET_32BIT_WORD_eq le_bytes16_def le_bytes32_def mem_write_def first_table16_def first_table32_def drop_bit_eq_div)

lemma boot_sector_ok:
  assumes dev: "block_device rd wr disk n valid" "device_ok rd wr n valid" "valid (medium fs)" "write_media fs = Some wr" "0 < n"
    and "unat (fatfs_calc_cluster_size vol False) \<noteq> 0"
  shows "\<exists>d. fatfs_create_boot_sector fs 0 vol name False = Some (True, set_sector (boot_of (fields16 vol name))
      (fs\<lparr>sectors_per_cluster := fatfs_calc_cluster_size vol False, reserved_sectors := 8, num_of_fats := 2, root_entry_count := 512,
        fat_sectors := (vol div ucast (fatfs_calc_cluster_size vol False) + 1) div 256 + 1, medium := d\<rparr>)) \<and> valid d
    \<and> (\<forall>t. unat t < n \<longrightarrow> disk d t = (if t = 0 then boot_of (fields16 vol name) else disk (medium fs) t))"
proof -
  let ?spc = "fatfs_calc_cluster_size vol False" and ?b = "boot_of (fields16 vol name)"
  let ?f = "set_sector ?b (fs\<lparr>sectors_per_cluster := ?spc, reserved_sectors := 8, num_of_fats := 2, root_entry_count := 512,
      fat_sectors := (vol div ucast ?spc + 1) div 256 + 1\<rparr>)"
  have f: "valid (medium ?f)" "write_media ?f = Some wr" "unat (0 :: u32) < n" using dev(3-5) by (simp_all add: set_sector_def)
  obtain d where d: "fatfs_sector_write ?f 0 ?b 1 = Some (True, ?f\<lparr>medium := d\<rparr>)" "valid d"
    "\<forall>t. unat t < n \<longrightarrow> disk d t = (if t = 0 then ?b else disk (medium fs) t)"
    using write_sector_ok [OF dev(1,2) f length_boot [OF fields_fit(1) [of vol name]]] by (auto simp: set_sector_def)
  have nz: "?spc \<noteq> 0" using assms(6) by (metis unat_0)
  have "write_fields (boot_fat16 ((vol div ucast ?spc + 1) div 256 + 1) vol name) (write_fields (boot_head ?spc 8 2 512) (write_fields boot_start (replicate 512 0))) = ?b"
    by (simp add: boot_of_def fields16_def write_fields_append Let_def)
  then have "fatfs_create_boot_sector fs 0 vol name False = fatfs_sector_write ?f 0 ?b 1"
    using nz by (simp add: fatfs_create_boot_sector_def Let_def)
  then show ?thesis using d by (intro exI [of _ d]) (simp add: set_sector_def)
qed

lemma boot_sector32_ok:
  assumes dev: "block_device rd wr disk n valid" "device_ok rd wr n valid" "valid (medium fs)" "write_media fs = Some wr" "0 < n"
    and "unat (fatfs_calc_cluster_size vol True) \<noteq> 0" "rootdir_first_cluster fs = 2" "fs_info_sector fs = 1"
  shows "\<exists>d. fatfs_create_boot_sector fs 0 vol name True = Some (True, set_sector (boot_of (fields32 vol name))
      (fs\<lparr>sectors_per_cluster := fatfs_calc_cluster_size vol True, reserved_sectors := 32, num_of_fats := 2, root_entry_count := 0,
        fat_sectors := (vol div ucast (fatfs_calc_cluster_size vol True) + 1) div 128 + 1, medium := d\<rparr>)) \<and> valid d
    \<and> (\<forall>t. unat t < n \<longrightarrow> disk d t = (if t = 0 then boot_of (fields32 vol name) else disk (medium fs) t))"
proof -
  let ?spc = "fatfs_calc_cluster_size vol True" and ?b = "boot_of (fields32 vol name)"
  let ?f = "set_sector ?b (fs\<lparr>sectors_per_cluster := ?spc, reserved_sectors := 32, num_of_fats := 2, root_entry_count := 0,
      fat_sectors := (vol div ucast ?spc + 1) div 128 + 1\<rparr>)"
  have f: "valid (medium ?f)" "write_media ?f = Some wr" "unat (0 :: u32) < n" using dev(3-5) by (simp_all add: set_sector_def)
  obtain d where d: "fatfs_sector_write ?f 0 ?b 1 = Some (True, ?f\<lparr>medium := d\<rparr>)" "valid d"
    "\<forall>t. unat t < n \<longrightarrow> disk d t = (if t = 0 then ?b else disk (medium fs) t)"
    using write_sector_ok [OF dev(1,2) f length_boot [OF fields_fit(2) [of vol name]]] by (auto simp: set_sector_def)
  have nz: "?spc \<noteq> 0" using assms(6) by (metis unat_0)
  have "write_fields (boot_fat32 ((vol div ucast ?spc + 1) div 128 + 1) vol 2 1 name) (write_fields (boot_head ?spc 32 2 0) (write_fields boot_start (replicate 512 0))) = ?b"
    by (simp add: boot_of_def fields32_def write_fields_append Let_def)
  then have "fatfs_create_boot_sector fs 0 vol name True = fatfs_sector_write ?f 0 ?b 1"
    using nz assms(7,8) by (simp add: fatfs_create_boot_sector_def Let_def)
  then show ?thesis using d by (intro exI [of _ d]) (simp add: set_sector_def)
qed

lemma erase_fat_ok:
  assumes dev: "block_device rd wr disk n valid" "device_ok rd wr n valid" "n < 2 ^ 32" "valid (medium fs)" "write_media fs = Some wr"
    and f: "num_of_fats fs = 2" "unat (fat_sectors fs) = f" "0 < f" "unat (fat_begin_lba fs) + 2 * f \<le> n"
    and z: "first = (if k then first_table32 else first_table16)"
  shows "\<exists>d. fatfs_erase_fat fs k = Some (True, set_sector (replicate FAT_SECTOR_SIZE 0) (fs\<lparr>medium := d\<rparr>)) \<and> valid d
    \<and> (\<forall>t. unat t < n \<longrightarrow> disk d t = (if t = fat_begin_lba fs then first
        else if unat (fat_begin_lba fs) < unat t \<and> unat t < unat (fat_begin_lba fs) + 2 * f then replicate FAT_SECTOR_SIZE 0
        else disk (medium fs) t))"
proof -
  let ?z = "replicate FAT_SECTOR_SIZE (0 :: byte)" and ?r = "fat_begin_lba fs"
  have l: "length first = FAT_SECTOR_SIZE" by (simp add: z first_table16_def first_table32_def)
  let ?g = "set_sector first fs"
  have g: "valid (medium ?g)" "write_media ?g = Some wr" "unat ?r < n" using dev(4,5) f(3,4) by (simp_all add: set_sector_def)
  obtain d where d: "fatfs_sector_write ?g ?r first 1 = Some (True, ?g\<lparr>medium := d\<rparr>)" "valid d"
    "\<forall>t. unat t < n \<longrightarrow> disk d t = (if t = ?r then first else disk (medium fs) t)"
    using write_sector_ok [OF dev(1,2) g l] by (auto simp: set_sector_def)
  let ?h = "set_sector ?z (?g\<lparr>medium := d\<rparr>)"
  have h: "valid (medium ?h)" "write_media ?h = Some wr" "unat ?r + 1 + (2 * f - 1) \<le> n" "fb_sector (currentsector ?h) = ?z" "length ?z = FAT_SECTOR_SIZE"
    using d(2) dev(5) f(3,4) by (simp_all add: set_sector_def)
  obtain e where e: "write_run ?h ?r 1 (2 * f - 1) = Some (True, ?h\<lparr>medium := e\<rparr>)" "valid e"
    "\<forall>t. unat t < n \<longrightarrow> disk e t = (if unat ?r + 1 \<le> unat t \<and> unat t < unat ?r + 1 + (2 * f - 1) then ?z else disk d t)"
    using write_run_ok [OF dev(1-3) h] by (auto simp: set_sector_def)
  have "2 * f < 2 ^ 32" using f(4) dev(3) by linarith
  then have c: "unat (fat_sectors fs * ucast (num_of_fats fs)) = 2 * f"
    using f(1,2) unat_mult_lem [of "fat_sectors fs" 2] by simp
  have s: "(if \<not> k then do { s \<leftarrow> SET_16BIT_WORD ?z 0 0xFFF8; SET_16BIT_WORD s 2 0xFFFF }
       else do { s \<leftarrow> SET_32BIT_WORD ?z 0 0x0FFFFFF8; s \<leftarrow> SET_32BIT_WORD s 4 0xFFFFFFFF; SET_32BIT_WORD s 8 0x0FFFFFFF }) = Some first"
    using table_starts by (simp add: z del: append_Cons)
  have "fatfs_erase_fat fs k = Some (True, ?h\<lparr>medium := e\<rparr>)"
    unfolding fatfs_erase_fat_def Let_def s using d(1) e(1) c by (simp add: set_sector_def)
  moreover have "?h\<lparr>medium := e\<rparr> = set_sector ?z (fs\<lparr>medium := e\<rparr>)" by (simp add: set_sector_def)
  moreover have "disk e t = (if t = ?r then first else if unat ?r < unat t \<and> unat t < unat ?r + 2 * f then ?z else disk (medium fs) t)"
    if "unat t < n" for t
  proof -
    have "t = ?r \<longleftrightarrow> unat t = unat ?r" by (simp add: word_unat_eq_iff)
    then show ?thesis using d(3) e(3) that f(3) by auto
  qed
  ultimately show ?thesis using e(2) by auto
qed

lemma set_sector_simps [simp]:
  "medium (set_sector s fs) = medium fs" "write_media (set_sector s fs) = write_media fs" "read_media (set_sector s fs) = read_media fs"
  "fb_sector (currentsector (set_sector s fs)) = s" "num_of_fats (set_sector s fs) = num_of_fats fs" "fat_sectors (set_sector s fs) = fat_sectors fs"
  "reserved_sectors (set_sector s fs) = reserved_sectors fs" "root_entry_count (set_sector s fs) = root_entry_count fs"
  "lba_begin (set_sector s fs) = lba_begin fs" "fat_begin_lba (set_sector s fs) = fat_begin_lba fs"
  "rootdir_first_sector (set_sector s fs) = rootdir_first_sector fs" "rootdir_sectors (set_sector s fs) = rootdir_sectors fs"
  "cluster_begin_lba (set_sector s fs) = cluster_begin_lba fs" "sectors_per_cluster (set_sector s fs) = sectors_per_cluster fs"
  "rootdir_first_cluster (set_sector s fs) = rootdir_first_cluster fs" "fs_info_sector (set_sector s fs) = fs_info_sector fs"
  "fat_type (set_sector s fs) = fat_type fs"
  by (simp_all add: set_sector_def)

lemma format_start_simps [simp]: "medium (format_start fs) = medium fs" "write_media (format_start fs) = write_media fs" "read_media (format_start fs) = read_media fs"
  by (simp_all add: format_start_def fatfs_fat_init_def)

lemma two_tables:
  assumes "unat (x :: u32) = f" "2 * f + c < 2 ^ 32"
  shows "unat (word_of_nat c + 2 * x) = c + 2 * f"
  using assms unat_mult_lem [of 2 x] unat_add_lem [of "word_of_nat c" "2 * x"] word_of_sum [of c] by simp

lemma format16_lemma:
  assumes dev: "block_device rd wr disk n valid" "device_ok rd wr n valid" "n < 2 ^ 32" "valid (medium fs)"
    and media: "read_media fs = Some rd" "write_media fs = Some wr"
    and vol: "8244 \<le> unat vol" "unat vol \<le> 4194304" "unat vol \<le> n"
  shows "\<exists>fs'. fatfs_format_fat16 fs vol name = Some (1, fs') \<and> valid (medium fs') \<and> read_media fs' = Some rd \<and> write_media fs' = Some wr
    \<and> fb_sector (currentsector fs') = replicate FAT_SECTOR_SIZE 0
    \<and> (\<forall>t. unat t < n \<longrightarrow> disk (medium fs') t = (case fresh16 vol name (unat t) of Some s \<Rightarrow> s | None \<Rightarrow> disk (medium fs) t))"
proof -
  let ?spc = "fatfs_calc_cluster_size vol False" and ?b = "boot_of (fields16 vol name)"
  define F where "F = ((vol div ucast ?spc + 1) div 256 + 1 :: u32)"
  define f where "f = (unat vol div unat ?spc + 1) div 256 + 1"
  note g = geometry16 [where name = name, OF vol(1,2) refl refl f_def, folded F_def]
  let ?f0 = "(format_start fs)\<lparr>fat_type := FAT_TYPE_16, fs_info_sector := 0, rootdir_first_cluster := 0, lba_begin := 0\<rparr>"
  have f0: "valid (medium ?f0)" "write_media ?f0 = Some wr" "0 < n" "unat ?spc \<noteq> 0"
    using dev(4) media vol cluster_size16 [OF vol(2)] by auto
  obtain d where d: "fatfs_create_boot_sector ?f0 0 vol name False = Some (True, set_sector ?b (?f0\<lparr>sectors_per_cluster := ?spc,
      reserved_sectors := 8, num_of_fats := 2, root_entry_count := 512, fat_sectors := F, medium := d\<rparr>))" "valid d"
    "\<forall>t. unat t < n \<longrightarrow> disk d t = (if t = 0 then ?b else disk (medium fs) t)"
    using boot_sector_ok [OF dev(1,2) f0, of name, folded F_def] by auto
  let ?f1 = "set_sector ?b (?f0\<lparr>sectors_per_cluster := ?spc, reserved_sectors := 8, num_of_fats := 2, root_entry_count := 512,
      fat_sectors := F, medium := d\<rparr>)"
  let ?f2 = "?f1\<lparr>rootdir_first_sector := 8 + 2 * F, rootdir_sectors := 32, fat_begin_lba := 8, cluster_begin_lba := 8 + 2 * F\<rparr>"
  have f2: "valid (medium ?f2)" "write_media ?f2 = Some wr" "num_of_fats ?f2 = 2" "unat (fat_sectors ?f2) = f" "0 < f"
    "unat (fat_begin_lba ?f2) + 2 * f \<le> n"
    using d(2) media(2) g(5,9) vol(3) by (simp_all add: f_def)
  obtain e where e: "fatfs_erase_fat ?f2 False = Some (True, set_sector (replicate FAT_SECTOR_SIZE 0) (?f2\<lparr>medium := e\<rparr>))" "valid e"
    "\<forall>t. unat t < n \<longrightarrow> disk e t = (if t = 8 then first_table16
        else if 8 < unat t \<and> unat t < 8 + 2 * f then replicate FAT_SECTOR_SIZE 0 else disk d t)"
    using erase_fat_ok [OF dev(1-3) f2 refl, of False] by auto
  let ?f3 = "set_sector (replicate FAT_SECTOR_SIZE 0) (?f2\<lparr>medium := e\<rparr>)"
  have r: "unat (8 + 2 * F) = 8 + 2 * f" using two_tables [OF g(9), of 8] g(5) vol(3) dev(3) by simp
  have f3: "valid (medium (set_sector (replicate FAT_SECTOR_SIZE 0) ?f3))" "write_media (set_sector (replicate FAT_SECTOR_SIZE 0) ?f3) = Some wr"
    "unat (8 + 2 * F) + 0 + 32 \<le> n" "fb_sector (currentsector (set_sector (replicate FAT_SECTOR_SIZE 0) ?f3)) = replicate FAT_SECTOR_SIZE 0"
    "length (replicate FAT_SECTOR_SIZE (0 :: byte)) = FAT_SECTOR_SIZE"
    using e(2) media(2) g(5) vol(3) by (simp_all add: r)
  obtain h where h: "write_run (set_sector (replicate FAT_SECTOR_SIZE 0) ?f3) (8 + 2 * F) 0 32
      = Some (True, (set_sector (replicate FAT_SECTOR_SIZE 0) ?f3)\<lparr>medium := h\<rparr>)" "valid h"
    "\<forall>t. unat t < n \<longrightarrow> disk h t = (if 8 + 2 * f \<le> unat t \<and> unat t < 40 + 2 * f then replicate FAT_SECTOR_SIZE 0 else disk e t)"
    using write_run_ok [OF dev(1-3) f3] by (auto simp: r)
  let ?r = "(set_sector (replicate FAT_SECTOR_SIZE 0) ?f3)\<lparr>medium := h\<rparr>"
  have "fatfs_format_fat16 fs vol name = Some (1, ?r)"
    unfolding fatfs_format_fat16_def Let_def using d(1) e(1) h(1) media
    by (simp add: fatfs_erase_sectors_def)
  moreover have "disk h t = (case fresh16 vol name (unat t) of Some s \<Rightarrow> s | None \<Rightarrow> disk (medium fs) t)" if "unat t < n" for t
  proof -
    have "t = 0 \<longleftrightarrow> unat t = 0" "t = 8 \<longleftrightarrow> unat t = 8" by (simp_all add: word_unat_eq_iff)
    then show ?thesis using d(3) e(3) h(3) f2(5) that by (auto simp: fresh16_def g(4) Let_def)
  qed
  ultimately show ?thesis using h(2) media by (intro exI [of _ ?r]) simp
qed

lemma format32_lemma:
  assumes dev: "block_device rd wr disk n valid" "device_ok rd wr n valid" "n < 2 ^ 32" "valid (medium fs)"
    and media: "read_media fs = Some rd" "write_media fs = Some wr"
    and vol: "4194304 < unat vol" "unat vol \<le> n"
  shows "\<exists>fs'. fatfs_format_fat32 fs vol name = Some (1, fs') \<and> valid (medium fs') \<and> read_media fs' = Some rd \<and> write_media fs' = Some wr
    \<and> fb_sector (currentsector fs') = replicate FAT_SECTOR_SIZE 0
    \<and> (\<forall>t. unat t < n \<longrightarrow> disk (medium fs') t = (case fresh32 vol name (unat t) of Some s \<Rightarrow> s | None \<Rightarrow> disk (medium fs) t))"
proof -
  let ?spc = "fatfs_calc_cluster_size vol True" and ?b = "boot_of (fields32 vol name)" and ?z = "replicate FAT_SECTOR_SIZE (0 :: byte)"
  define F where "F = ((vol div ucast ?spc + 1) div 128 + 1 :: u32)"
  define f where "f = (unat vol div unat ?spc + 1) div 128 + 1"
  note g = geometry32 [where name = name, OF vol(1) refl refl f_def, folded F_def]
  let ?f0 = "(format_start fs)\<lparr>fat_type := FAT_TYPE_32, fs_info_sector := 1, rootdir_first_cluster := 2, lba_begin := 0\<rparr>"
  have f0: "valid (medium ?f0)" "write_media ?f0 = Some wr" "0 < n" "unat ?spc \<noteq> 0" "rootdir_first_cluster ?f0 = 2" "fs_info_sector ?f0 = 1"
    using dev(4) media vol cluster_size32 [OF vol(1)] by auto
  obtain d where d: "fatfs_create_boot_sector ?f0 0 vol name True = Some (True, set_sector ?b (?f0\<lparr>sectors_per_cluster := ?spc,
      reserved_sectors := 32, num_of_fats := 2, root_entry_count := 0, fat_sectors := F, medium := d\<rparr>))" "valid d"
    "\<forall>t. unat t < n \<longrightarrow> disk d t = (if t = 0 then ?b else disk (medium fs) t)"
    using boot_sector32_ok [OF dev(1,2) f0, of name, folded F_def] by auto
  let ?f1 = "set_sector ?b (?f0\<lparr>sectors_per_cluster := ?spc, reserved_sectors := 32, num_of_fats := 2, root_entry_count := 0,
      fat_sectors := F, medium := d\<rparr>)"
  let ?f2 = "?f1\<lparr>fat_begin_lba := 32, cluster_begin_lba := 32 + 2 * F\<rparr>"
  let ?i = "boot_of fsinfo_fields" and ?g2 = "set_sector (boot_of fsinfo_fields) ?f2"
  have g2: "valid (medium ?g2)" "write_media ?g2 = Some wr" "unat (1 :: u32) < n" "length ?i = FAT_SECTOR_SIZE"
    using d(2) media(2) vol by (simp_all add: length_boot [OF fields_fit(3)])
  obtain a where a: "fatfs_sector_write ?g2 1 ?i 1 = Some (True, ?g2\<lparr>medium := a\<rparr>)" "valid a"
    "\<forall>t. unat t < n \<longrightarrow> disk a t = (if t = 1 then ?i else disk d t)"
    using write_sector_ok [OF dev(1,2) g2] by auto
  let ?f3 = "?g2\<lparr>medium := a\<rparr>"
  have f3: "valid (medium ?f3)" "write_media ?f3 = Some wr" "num_of_fats ?f3 = 2" "unat (fat_sectors ?f3) = f" "0 < f"
    "unat (fat_begin_lba ?f3) + 2 * f \<le> n"
    using a(2) media(2) g(5,7) vol(2) by (simp_all add: f_def)
  obtain e where e: "fatfs_erase_fat ?f3 True = Some (True, set_sector ?z (?f3\<lparr>medium := e\<rparr>))" "valid e"
    "\<forall>t. unat t < n \<longrightarrow> disk e t = (if t = 32 then first_table32 else if 32 < unat t \<and> unat t < 32 + 2 * f then ?z else disk a t)"
    using erase_fat_ok [OF dev(1-3) f3 refl, of True] by auto
  let ?f4 = "set_sector ?z (?f3\<lparr>medium := e\<rparr>)"
  have r: "unat (32 + 2 * F) = 32 + 2 * f" using two_tables [OF g(7), of 32] g(5) vol(2) dev(3) by simp
  have f4: "valid (medium (set_sector ?z ?f4))" "write_media (set_sector ?z ?f4) = Some wr"
    "unat (32 + 2 * F) + 0 + unat ?spc \<le> n" "fb_sector (currentsector (set_sector ?z ?f4)) = ?z" "length ?z = FAT_SECTOR_SIZE"
    using e(2) media(2) g(5) vol(2) by (simp_all add: r)
  obtain h where h: "write_run (set_sector ?z ?f4) (32 + 2 * F) 0 (unat ?spc) = Some (True, (set_sector ?z ?f4)\<lparr>medium := h\<rparr>)" "valid h"
    "\<forall>t. unat t < n \<longrightarrow> disk h t = (if 32 + 2 * f \<le> unat t \<and> unat t < 32 + 2 * f + unat ?spc then ?z else disk e t)"
    using write_run_ok [OF dev(1-3) f4] by (auto simp: r)
  let ?r = "(set_sector ?z ?f4)\<lparr>medium := h\<rparr>"
  have i: "fatfs_create_fsinfo_sector ?f2 1 = fatfs_sector_write ?g2 1 ?i 1" by (simp add: fatfs_create_fsinfo_sector_def boot_of_def Let_def)
  have root: "fatfs_lba_of_cluster ?f4 2 = 32 + 2 * F" by (simp add: fatfs_lba_of_cluster_def)
  have "fatfs_format_fat32 fs vol name = Some (1, ?r)"
    unfolding fatfs_format_fat32_def Let_def using d(1) i a(1) e(1) root h(1) media
    by (simp add: fatfs_erase_sectors_def)
  moreover have "disk h t = (case fresh32 vol name (unat t) of Some s \<Rightarrow> s | None \<Rightarrow> disk (medium fs) t)" if "unat t < n" for t
  proof -
    have "t = 0 \<longleftrightarrow> unat t = 0" "t = 1 \<longleftrightarrow> unat t = 1" "t = 32 \<longleftrightarrow> unat t = 32" by (simp_all add: word_unat_eq_iff)
    then show ?thesis using d(3) a(3) e(3) h(3) f3(5) that by (auto simp: fresh32_def g(4) Let_def)
  qed
  ultimately show ?thesis using h(2) media by (intro exI [of _ ?r]) simp
qed

subsection \<open>Mounting what was formatted\<close>

definition fresh :: "u32 \<Rightarrow> byte list \<Rightarrow> nat \<Rightarrow> byte list option" where
  "fresh vol name = (if vol \<le> 4194304 then fresh16 vol name else fresh32 vol name)"

lemma zero_word:
  assumes "length s = FAT_SECTOR_SIZE" "\<forall>i < FAT_SECTOR_SIZE. k \<le> i \<longrightarrow> s ! i = 0" "k \<le> p"
  shows "p + 2 \<le> FAT_SECTOR_SIZE \<Longrightarrow> GET_16BIT_WORD s p = Some 0" "p + 4 \<le> FAT_SECTOR_SIZE \<Longrightarrow> GET_32BIT_WORD s p = Some 0"
  using assms by (simp_all add: GET_16BIT_le16 GET_32BIT_le32 le32_def le16_def)

lemma free_entry:
  assumes s: "length s = FAT_SECTOR_SIZE" "\<forall>i < FAT_SECTOR_SIZE. k \<le> i \<longrightarrow> s ! i = 0" "k \<le> unat (fat_position fs c)"
  shows "entry_next fs (entry_number fs s c) = 0"
proof (cases "fat_type fs = FAT_TYPE_16")
  case True
  have "unat (fat_position fs c) = unat c mod 256 * 2" by (simp add: fat_position_unat entries_per_sector_def entry_width_def True)
  then have "unat (fat_position fs c) + 2 \<le> 512" using mod_less_divisor [of 256 "unat c"] by simp
  then show ?thesis using zero_word(1) [OF s] by (simp add: entry_next_def entry_number_def True)
next
  case False
  have "unat (fat_position fs c) = unat c mod 128 * 4" by (simp add: fat_position_unat entries_per_sector_def entry_width_def False)
  then have "unat (fat_position fs c) + 4 \<le> 512" using mod_less_divisor [of 128 "unat c"] by simp
  then show ?thesis using zero_word(2) [OF s] by (simp add: entry_next_def entry_number_def False)
qed

lemma fresh_free:
  assumes t: "unat (fat_begin_lba fs) = r" "unat (fat_sectors fs) = f" "r + 2 * f \<le> n" "n < 2 ^ 32"
    and view: "\<forall>t. unat t < n \<longrightarrow> eff disk fs t = D t"
    and first: "\<forall>t. unat t = r \<longrightarrow> D t = s" "length s = FAT_SECTOR_SIZE" "\<forall>i < FAT_SECTOR_SIZE. 3 * entry_width fs \<le> i \<longrightarrow> s ! i = 0"
    and rest: "\<forall>t. r < unat t \<longrightarrow> unat t < r + f \<longrightarrow> D t = replicate FAT_SECTOR_SIZE 0"
    and c: "3 \<le> c" "entry_in fs c"
  shows "fat_next disk fs c = 0"
proof -
  let ?o = "fat_sector_offset fs c"
  have o: "unat ?o < f" using c(2) t(2) by (simp add: entry_in_def word_less_nat_alt)
  have e: "unat (entry_sector fs c) = r + unat ?o"
    using o t unat_add_lem [of "fat_begin_lba fs" ?o] by (simp add: entry_sector_def)
  have v: "eff disk fs (entry_sector fs c) = D (entry_sector fs c)" using view e o t(3) by simp
  show ?thesis
  proof (cases "unat ?o = 0")
    case True
    have w: "0 < entries_per_sector fs" by (simp add: entries_per_sector_def)
    have "unat c < entries_per_sector fs" using True fat_sector_offset_unat [of fs c] by (simp add: div_eq_0_iff entries_per_sector_def split: if_splits)
    moreover have "3 \<le> unat c" using c(1) by (simp add: word_le_nat_alt)
    ultimately have "3 * entry_width fs \<le> unat (fat_position fs c)" by (simp add: fat_position_unat)
    moreover have "D (entry_sector fs c) = s" using first(1) e True by simp
    ultimately show ?thesis using free_entry [OF first(2,3)] by (simp add: fat_next_def raw_entry_def v)
  next
    case False
    then have "D (entry_sector fs c) = replicate FAT_SECTOR_SIZE 0" using rest e o by simp
    then show ?thesis using free_entry [of "replicate FAT_SECTOR_SIZE 0" 0 fs c] by (simp add: fat_next_def raw_entry_def v)
  qed
qed

lemma first_table_rest:
  "length first_table16 = FAT_SECTOR_SIZE" "length first_table32 = FAT_SECTOR_SIZE"
  "i < FAT_SECTOR_SIZE \<Longrightarrow> 4 \<le> i \<Longrightarrow> first_table16 ! i = 0" "i < FAT_SECTOR_SIZE \<Longrightarrow> 12 \<le> i \<Longrightarrow> first_table32 ! i = 0"
  by (simp_all add: first_table16_def first_table32_def nth_append del: append_Cons)

lemma format_lemma:
  assumes dev: "block_device rd wr disk n valid" "device_ok rd wr n valid" "n < 2 ^ 32" "valid (medium fs)"
    and media: "read_media fs = Some rd" "write_media fs = Some wr"
    and vol: "8244 \<le> unat vol" "unat vol \<le> n"
  shows "\<exists>fs'. fatfs_format fs vol name = Some (1, fs') \<and> valid (medium fs') \<and> read_media fs' = Some rd \<and> write_media fs' = Some wr
    \<and> fb_sector (currentsector fs') = replicate FAT_SECTOR_SIZE 0
    \<and> (\<forall>t. unat t < n \<longrightarrow> disk (medium fs') t = (case fresh vol name (unat t) of Some s \<Rightarrow> s | None \<Rightarrow> disk (medium fs) t))"
proof (cases "vol \<le> 4194304")
  case True
  then have "unat vol \<le> 4194304" by (simp add: word_le_nat_alt)
  from format16_lemma [OF dev media vol(1) this vol(2), of name] True show ?thesis by (simp add: fatfs_format_def fresh_def)
next
  case False
  then have "4194304 < unat vol" by (simp add: word_le_nat_alt)
  from format32_lemma [OF dev media this vol(2), of name] False show ?thesis by (simp add: fatfs_format_def fresh_def)
qed

lemma fresh_volume:
  assumes "8244 \<le> unat vol" "unat vol \<le> n" "b = the (fresh vol name 0)" "r = le16 b 14" "f = boot_fat_size b"
  shows "boot_sound n 0 b" "partition_start b = 0" "4085 \<le> boot_clusters b" "boot_clusters b < 65525 \<longleftrightarrow> unat vol < 4194152"
    "r + 2 * f \<le> n" "fresh vol name 0 = Some b" "r < n"
    "\<exists>s. fresh vol name r = Some s \<and> length s = FAT_SECTOR_SIZE
      \<and> (\<forall>i < FAT_SECTOR_SIZE. 3 * (if unat vol < 4194152 then 2 else 4) \<le> i \<longrightarrow> s ! i = 0)"
    "\<forall>t. r < t \<longrightarrow> t < r + f \<longrightarrow> fresh vol name t = Some (replicate FAT_SECTOR_SIZE 0)"
proof -
  have "boot_sound n 0 b \<and> partition_start b = 0 \<and> 4085 \<le> boot_clusters b \<and> (boot_clusters b < 65525 \<longleftrightarrow> unat vol < 4194152)
    \<and> r + 2 * f \<le> n \<and> fresh vol name 0 = Some b \<and> r < n
    \<and> (\<exists>s. fresh vol name r = Some s \<and> length s = FAT_SECTOR_SIZE
      \<and> (\<forall>i < FAT_SECTOR_SIZE. 3 * (if unat vol < 4194152 then 2 else 4) \<le> i \<longrightarrow> s ! i = 0))
    \<and> (\<forall>t. r < t \<longrightarrow> t < r + f \<longrightarrow> fresh vol name t = Some (replicate FAT_SECTOR_SIZE 0))"
  proof (cases "vol \<le> 4194304")
    case True
    then have v: "unat vol \<le> 4194304" by (simp add: word_le_nat_alt)
    have fr: "fresh vol name = fresh16 vol name" using True by (simp add: fresh_def)
    have b: "b = boot_of (fields16 vol name)" using assms(3) by (simp add: fr fresh16_def)
    note g = geometry16 [OF assms(1) v b refl refl]
    note w = boot16_fields [of vol name, folded b]
    have spc: "b ! 13 \<noteq> 0" using cluster_size16 [OF v] by (auto simp: w)
    have l: "length b = FAT_SECTOR_SIZE" unfolding b by (rule length_boot [OF fields_fit(1)])
    have r: "r = 8" using assms(4) w(5) by simp
    have f: "8 + 2 * f + 32 = boot_data b" "8 + 2 * f + 32 \<le> unat vol" using g(1,4,5) assms(5) by simp_all
    have sound: "boot_sound n 0 b" unfolding boot_sound_def using l spc f assms(2) by (simp add: w g(2) g(4))
    moreover have "partition_start b = 0" by (simp add: partition_start_def w)
    moreover have "\<exists>s. fresh vol name r = Some s \<and> length s = FAT_SECTOR_SIZE
        \<and> (\<forall>i < FAT_SECTOR_SIZE. 3 * (if unat vol < 4194152 then 2 else 4) \<le> i \<longrightarrow> s ! i = 0)"
      by (intro exI [of _ first_table16]) (simp add: fr fresh16_def r first_table_rest)
    moreover have "fresh vol name 0 = Some b" by (simp add: fr fresh16_def b)
    moreover have "\<forall>t. r < t \<longrightarrow> t < r + f \<longrightarrow> fresh vol name t = Some (replicate FAT_SECTOR_SIZE 0)"
      unfolding fr fresh16_def Let_def b [symmetric] using f by (simp add: r)
    ultimately show ?thesis using g(6,7) f(2) assms(1,2) r by simp
  next
    case False
    then have v: "4194304 < unat vol" by (simp add: word_le_nat_alt)
    have fr: "fresh vol name = fresh32 vol name" using False by (simp add: fresh_def)
    have b: "b = boot_of (fields32 vol name)" using assms(3) by (simp add: fr fresh32_def)
    note g = geometry32 [OF v b refl refl]
    note w = boot32_fields [of vol name, folded b]
    have spc: "b ! 13 \<noteq> 0" using cluster_size32 [OF v] by (auto simp: w)
    have l: "length b = FAT_SECTOR_SIZE" unfolding b by (rule length_boot [OF fields_fit(2)])
    have r: "r = 32" using assms(4) w(5) by simp
    have f: "32 + 2 * f = boot_data b" "32 + 2 * f \<le> unat vol" using g(1,4,5) assms(5) by simp_all
    have sound: "boot_sound n 0 b" unfolding boot_sound_def using l spc f assms(2) by (simp add: w g(2) g(4))
    moreover have "partition_start b = 0" by (simp add: partition_start_def w)
    moreover have "\<exists>s. fresh vol name r = Some s \<and> length s = FAT_SECTOR_SIZE
        \<and> (\<forall>i < FAT_SECTOR_SIZE. 3 * (if unat vol < 4194152 then 2 else 4) \<le> i \<longrightarrow> s ! i = 0)"
      using v by (intro exI [of _ first_table32]) (simp add: fr fresh32_def r first_table_rest)
    moreover have "fresh vol name 0 = Some b" by (simp add: fr fresh32_def b)
    moreover have "\<forall>t. r < t \<longrightarrow> t < r + f \<longrightarrow> fresh vol name t = Some (replicate FAT_SECTOR_SIZE 0)"
      unfolding fr fresh32_def Let_def b [symmetric] using f by (simp add: r)
    moreover have "4085 \<le> boot_clusters b" "boot_clusters b < 65525 \<longleftrightarrow> unat vol < 4194152" using g(6) v by simp_all
    ultimately show ?thesis using f(2) assms(1,2) r by simp
  qed
  then show "boot_sound n 0 b" "partition_start b = 0" "4085 \<le> boot_clusters b" "boot_clusters b < 65525 \<longleftrightarrow> unat vol < 4194152"
    "r + 2 * f \<le> n" "fresh vol name 0 = Some b" "r < n"
    "\<exists>s. fresh vol name r = Some s \<and> length s = FAT_SECTOR_SIZE
      \<and> (\<forall>i < FAT_SECTOR_SIZE. 3 * (if unat vol < 4194152 then 2 else 4) \<le> i \<longrightarrow> s ! i = 0)"
    "\<forall>t. r < t \<longrightarrow> t < r + f \<longrightarrow> fresh vol name t = Some (replicate FAT_SECTOR_SIZE 0)"
    by blast+
qed

text \<open>
  C15: on a medium that does not fail and has the room for a volume of at least 8244 sectors, \<open>fatfs_format\<close>
  answers 1, writes exactly the sectors of \<open>fresh\<close>, and what it wrote mounts: \<open>fatfs_init\<close> finds the geometry of
  the new boot sector, and all clusters from 3 on are free. The volume is mounted as FAT32 from 4194152
  sectors on, although it is formatted as FAT16 up to 4194304: the last 153 sizes of FAT16 are misread.
\<close>

theorem format_mount_correct:
  assumes "block_device rd wr disk n valid" and "device_ok rd wr n valid" and "n < 2 ^ 32" and "valid (medium fs)"
    and "read_media fs = Some rd" and "write_media fs = Some wr" and "8244 \<le> unat vol" and "unat vol \<le> n"
  shows "\<exists>fs' fs''. fatfs_format fs vol name = Some (1, fs')
    \<and> (\<forall>t. unat t < n \<longrightarrow> disk (medium fs') t = (case fresh vol name (unat t) of Some s \<Rightarrow> s | None \<Rightarrow> disk (medium fs) t))
    \<and> fatfs_init fs' = Some (FAT_INIT_OK, fs'') \<and> mounted 0 (the (fresh vol name 0)) fs'' \<and> fat_inv rd wr disk n valid fs''
    \<and> fat_type fs'' = (if unat vol < 4194152 then FAT_TYPE_16 else FAT_TYPE_32)
    \<and> (\<forall>c. 3 \<le> c \<longrightarrow> entry_in fs'' c \<longrightarrow> fat_next disk fs'' c = 0)"
proof -
  let ?b = "the (fresh vol name 0)"
  note v = fresh_volume [OF assms(7,8) refl refl refl, of name]
  obtain fs' where f: "fatfs_format fs vol name = Some (1, fs')" "valid (medium fs')" "read_media fs' = Some rd" "write_media fs' = Some wr"
    "length (fb_sector (currentsector fs')) = FAT_SECTOR_SIZE"
    "\<forall>t. unat t < n \<longrightarrow> disk (medium fs') t = (case fresh vol name (unat t) of Some s \<Rightarrow> s | None \<Rightarrow> disk (medium fs) t)"
    using format_lemma [OF assms, of name] by auto
  have b: "disk (medium fs') 0 = ?b" using f(6) v(6) assms(7,8) by (cases "fresh vol name 0") simp_all
  have sig: "0 < n" "le16 (disk (medium fs') 0) 510 = 0xAA55" "0 = partition_start (disk (medium fs') 0)" "?b = disk (medium fs') (word_of_nat 0)"
    using v(1,2) assms(7,8) by (simp_all add: b boot_sound_def)
  obtain fs'' where m: "fatfs_init fs' = Some (FAT_INIT_OK, fs'')" "fat_inv rd wr disk n valid fs''" "mounted 0 ?b fs''"
    "\<forall>t. unat t < n \<longrightarrow> eff disk fs'' t = disk (medium fs') t"
    using fatfs_init_lemma [OF assms(1-3) f(2-5) sig(1-4) sig(1) v(1)] v(3) by auto
  have t: "fat_type fs'' = (if unat vol < 4194152 then FAT_TYPE_16 else FAT_TYPE_32)" "unat (fat_begin_lba fs'') = le16 ?b 14"
    "unat (fat_sectors fs'') = boot_fat_size ?b"
    using m(3) v(4) by (simp_all add: mounted_def)
  obtain s where s: "fresh vol name (le16 ?b 14) = Some s" "length s = FAT_SECTOR_SIZE"
    "\<forall>i < FAT_SECTOR_SIZE. 3 * entry_width fs'' \<le> i \<longrightarrow> s ! i = 0"
    using v(8) by (auto simp: t(1) entry_width_def)
  have "fat_next disk fs'' c = 0" if "3 \<le> c" "entry_in fs'' c" for c
  proof (rule fresh_free [OF t(2,3) v(5) assms(3) m(4) _ s(2,3) _ that])
    show "\<forall>t. unat t = le16 ?b 14 \<longrightarrow> disk (medium fs') t = s" using f(6) s(1) v(7) by simp
    show "\<forall>t. le16 ?b 14 < unat t \<longrightarrow> unat t < le16 ?b 14 + boot_fat_size ?b \<longrightarrow> disk (medium fs') t = replicate FAT_SECTOR_SIZE 0"
      using f(6) v(5,9) by simp
  qed
  then show ?thesis using f(1,6) m(1-3) t(1) by blast
qed

text \<open>A file of 10000 empty sectors.\<close>

definition blank_fs :: "byte list fatfs" where
  "blank_fs = (zero_fatfs (replicate (10000 * 512) 0))\<lparr>read_media := Some fat_media_read, write_media := Some fat_media_write\<rparr>"

theorem format_mount_correct_witness:
  "\<exists>fs' fs''. fatfs_format blank_fs 10000 (ascii ''SATURN'') = Some (1, fs') \<and> fatfs_init fs' = Some (FAT_INIT_OK, fs'')
    \<and> fat_type fs'' = FAT_TYPE_16 \<and> sectors_per_cluster fs'' = 2 \<and> unat (fat_begin_lba fs'') = 8
    \<and> (3 \<le> (4 :: u32) \<longrightarrow> entry_in fs'' 4 \<longrightarrow> fat_next file_sector fs'' 4 = 0)"
proof -
  have b: "valid_file = file_valid 10000 \<Longrightarrow> valid_file (medium blank_fs)" "read_media blank_fs = Some fat_media_read"
    "write_media blank_fs = Some fat_media_write" for valid_file
    by (simp_all add: blank_fs_def zero_fatfs_def file_valid_def)
  have n: "(10000 :: nat) < 2 ^ 32" "8244 \<le> unat (10000 :: u32)" "unat (10000 :: u32) \<le> 10000" by simp_all
  have "the (fresh 10000 name 0) = boot_of (fields16 10000 name)" for name by (simp add: fresh_def fresh16_def Let_def)
  then have "the (fresh 10000 name 0) ! 13 = 2" "le16 (the (fresh 10000 name 0)) 14 = 8" for name
    by (simp_all add: boot16_fields fatfs_calc_cluster_size_def cluster_size_table16_def)
  then show ?thesis
    using format_mount_correct [OF file_device.block_device_axioms file_device_ok n(1) b(1) [OF refl] b(2,3) n(2,3), of "ascii ''SATURN''"]
    by (auto simp: mounted_def)
qed

end
