(* ===== verification/ScMemory.thy ===== *)
theory ScMemory
  imports FtxPrelude
begin

section \<open>The memory of the console\<close>

text \<open>
  The address space of the Saturn as a function from addresses to bytes, for the parts of SatCom that
  work on memory at addresses they are given (the USB commands and the copy stub). Addresses wrap at
  32 bits. A range is given by its first address and its length; \<open>load\<close> reads one and \<open>store\<close> writes
  one. The hardware that is mapped into the address space is not part of it.
\<close>

type_synonym memory = "u32 \<Rightarrow> byte"

definition load :: "u32 \<Rightarrow> nat \<Rightarrow> memory \<Rightarrow> byte list" where
  "load a n m = map (\<lambda>i. m (a + word_of_nat i)) [0..<n]"

fun store :: "u32 \<Rightarrow> byte list \<Rightarrow> memory \<Rightarrow> memory" where
  "store a [] m = m"
| "store a (b # bs) m = store (a + 1) bs (m(a := b))"

definition within :: "u32 \<Rightarrow> nat \<Rightarrow> u32 \<Rightarrow> bool" where
  "within a n x \<longleftrightarrow> unat (x - a) < n"

lemma length_load [simp]: "length (load a n m) = n"
  by (simp add: load_def)

lemma load_0 [simp]: "load a 0 m = []"
  by (simp add: load_def)

lemma load_Suc: "load a (Suc n) m = m a # load (a + 1) n m"
proof -
  have "map (\<lambda>i. m (a + word_of_nat i)) [0..<Suc n] = m (a + word_of_nat 0) # map (\<lambda>i. m (a + word_of_nat (Suc i))) [0..<n]"
    by (rule nth_equalityI) (auto simp: nth_Cons' simp del: upt_Suc)
  then show ?thesis by (simp add: load_def add.assoc)
qed

lemma nth_load: "i < n \<Longrightarrow> load a n m ! i = m (a + word_of_nat i)"
  by (simp add: load_def)

lemma load_cong: "(\<And>x. within a n x \<Longrightarrow> m x = m' x) \<Longrightarrow> n \<le> 2 ^ 32 \<Longrightarrow> load a n m = load a n m'"
  unfolding load_def within_def by (rule map_cong [OF refl]) (auto simp: unat_of_nat)

lemma offset_next:
  fixes x a :: u32
  assumes "x \<noteq> a"
  shows "unat (x - a) = Suc (unat (x - (a + 1)))"
proof -
  have "x - a \<noteq> 0" using assms by simp
  then have "unat (x - a - 1) = unat (x - a) - 1" "0 < unat (x - a)" by (simp_all add: unat_minus_one unat_gt_0)
  then show ?thesis by (simp only: diff_diff_eq)
qed

lemma within_Suc: "n < 2 ^ 32 \<Longrightarrow> within a (Suc n) x \<longleftrightarrow> x = a \<or> within (a + 1) n x"
  by (cases "x = a") (simp_all add: within_def offset_next)

lemma not_within_next: "n < 2 ^ 32 \<Longrightarrow> \<not> within (a + 1) n a"
  by (simp add: within_def unsigned_minus_1_eq_mask mask_eq_exp_minus_1)

lemma store_apply:
  "length bs \<le> 2 ^ 32 \<Longrightarrow> store a bs m x = (if within a (length bs) x then bs ! unat (x - a) else m x)"
proof (induction bs arbitrary: a m)
  case (Cons b bs)
  have l: "length bs < 2 ^ 32" "length bs \<le> 2 ^ 32" using Cons.prems by simp_all
  have IH: "store a (b # bs) m x = (if within (a + 1) (length bs) x then bs ! unat (x - (a + 1)) else (m(a := b)) x)"
    unfolding store.simps by (rule Cons.IH [OF l(2)])
  show ?case
  proof (cases "x = a")
    case True
    then have "\<not> within (a + 1) (length bs) x" using not_within_next [OF l(1)] by simp
    then show ?thesis unfolding IH using True by (simp add: within_def)
  next
    case False
    then show ?thesis unfolding IH list.size add_Suc_right add_0_right within_Suc [OF l(1)] by (simp add: offset_next)
  qed
qed (simp add: within_def)

lemma load_store_same:
  assumes "length bs \<le> 2 ^ 32"
  shows "load a (length bs) (store a bs m) = bs"
proof (rule nth_equalityI)
  fix i assume "i < length (load a (length bs) (store a bs m))"
  then have i: "i < length bs" by simp
  then have "unat (a + word_of_nat i - a) = i" using assms by (simp add: unat_of_nat)
  then show "load a (length bs) (store a bs m) ! i = bs ! i" using i assms by (simp add: nth_load store_apply within_def)
qed simp

lemma store_outside: "length bs \<le> 2 ^ 32 \<Longrightarrow> \<not> within a (length bs) x \<Longrightarrow> store a bs m x = m x"
  by (simp add: store_apply)

lemma load_store_apart:
  assumes "length bs \<le> 2 ^ 32" "n \<le> 2 ^ 32" "\<And>x. within a n x \<Longrightarrow> \<not> within b (length bs) x"
  shows "load a n (store b bs m) = load a n m"
  by (rule load_cong) (use assms store_outside in auto)

lemma store_append: "store a (xs @ ys) m = store (a + word_of_nat (length xs)) ys (store a xs m)"
  by (induction xs arbitrary: a m) (simp_all add: algebra_simps)

lemma store_snoc: "store a (xs @ [y]) m = (store a xs m)(a + word_of_nat (length xs) := y)"
  by (simp add: store_append)

text \<open>Ranges that do not go past the end of the address space.\<close>

lemma within_less:
  assumes "unat a + n \<le> 2 ^ 32"
  shows "within a n x \<longleftrightarrow> unat a \<le> unat x \<and> unat x < unat a + n"
proof (cases "a \<le> x")
  case True
  then have "unat (x - a) = unat x - unat a" "unat a \<le> unat x" by (simp_all add: unat_sub word_le_nat_alt)
  then show ?thesis by (auto simp: within_def)
next
  case False
  then have l: "unat x < unat a" by (simp add: word_le_nat_alt)
  have "unat x < 2 ^ 32" "unat a < 2 ^ 32" by (rule unat_u32_less)+
  then have "unat (x - a) = 2 ^ 32 + unat x - unat a" using l by (simp add: unat_sub_if_size word_size)
  then show ?thesis using assms l by (simp add: within_def)
qed

end
