(* ===== verification/ScCopystub.thy ===== *)
theory ScCopystub
  imports ScMemory
begin

section \<open>The copy stub\<close>

text \<open>
  Models \<open>copystub/copystub.c\<close>, the program that SatCom puts at the end of the low RAM to start another
  one: it copies the new program to the address where it runs, clears the rest of the RAM if asked to,
  and calls it. \<open>copystub_main\<close> is \<open>_main\<close> up to this call and returns the memory at that moment. The
  machine code of the stub is in \<open>copystub_inc.c\<close> (\<open>ScUsbdc\<close>).
\<close>

abbreviation COPYSTUB_START_ADRESS :: u32 where "COPYSTUB_START_ADRESS \<equiv> 0x002FF800"
abbreviation SC_SOFTRES_HRAM :: u32 where "SC_SOFTRES_HRAM \<equiv> 1"
abbreviation SC_SOFTRES_LRAM :: u32 where "SC_SOFTRES_LRAM \<equiv> 2"
abbreviation HRAM_STT :: u32 where "HRAM_STT \<equiv> 0x06004000"
abbreviation HRAM_END :: u32 where "HRAM_END \<equiv> 0x06100000"
abbreviation LRAM_STT :: u32 where "LRAM_STT \<equiv> 0x00200000"
abbreviation LRAM_END :: u32 where "LRAM_END \<equiv> COPYSTUB_START_ADRESS"

definition CLAMP :: "u32 \<Rightarrow> u32 \<Rightarrow> u32 \<Rightarrow> u32" where
  "CLAMP x low high = (if x > high then high else if x < low then low else x)"

text \<open>The loop that copies from the end, for a target that starts inside the source, and the other one.\<close>

function copy_backward :: "u32 \<Rightarrow> u32 \<Rightarrow> u32 \<Rightarrow> memory \<Rightarrow> memory" where
  "copy_backward dst_stt ptr1 ptr2 m =
     (if ptr2 + 1 = dst_stt then m else copy_backward dst_stt (ptr1 - 1) (ptr2 - 1) (m(ptr2 := m ptr1)))"
  by auto
termination
proof (relation "measure (\<lambda>(dst_stt, ptr1, ptr2, m). unat (ptr2 + 1 - dst_stt))", goal_cases)
  case (2 dst_stt ptr1 ptr2 m)
  then show ?case using offset_next [of "ptr2 + 1" dst_stt] by simp
qed simp

function copy_forward :: "u32 \<Rightarrow> u32 \<Rightarrow> u32 \<Rightarrow> memory \<Rightarrow> memory" where
  "copy_forward ptr1 ptr2 dst_end m =
     (if ptr2 = dst_end then m else copy_forward (ptr1 + 1) (ptr2 + 1) dst_end (m(ptr2 := m ptr1)))"
  by auto
termination
proof (relation "measure (\<lambda>(ptr1, ptr2, dst_end, m). unat (dst_end - ptr2))", goal_cases)
  case (2 ptr1 ptr2 dst_end m)
  then show ?case using offset_next [of dst_end ptr2] by simp
qed simp

declare copy_backward.simps [simp del] copy_forward.simps [simp del]

definition copy_program :: "u32 \<Rightarrow> u32 \<Rightarrow> u32 \<Rightarrow> memory \<Rightarrow> memory" where
  "copy_program src_stt len dst_stt m =
     (if src_stt \<noteq> dst_stt
      then (if dst_stt > src_stt \<and> dst_stt < src_stt + len
        then copy_backward dst_stt (src_stt + len - 1) (dst_stt + len - 1) m
        else copy_forward src_stt dst_stt (dst_stt + len) m)
      else m)"

text \<open>The zone number \<open>j\<close> of the low RAM (\<open>i\<close> is 0) or the high RAM, cropped at the program; and
  clearing from an address on.\<close>

definition erase_zone :: "nat \<Rightarrow> nat \<Rightarrow> u32 \<Rightarrow> u32 \<Rightarrow> u32 \<times> u32" where
  "erase_zone i j dst_stt dst_end =
     (if i = 0
      then (if j = 0 then (LRAM_STT, CLAMP dst_stt LRAM_STT LRAM_END) else (CLAMP dst_end LRAM_STT LRAM_END, LRAM_END))
      else (if j = 0 then (HRAM_STT, CLAMP dst_stt HRAM_STT HRAM_END) else (CLAMP dst_end HRAM_STT HRAM_END, HRAM_END)))"

fun erase :: "nat \<Rightarrow> u32 \<Rightarrow> memory \<Rightarrow> memory" where
  "erase 0 ptr1 m = m"
| "erase (Suc n) ptr1 m = erase n (ptr1 + 1) (m(ptr1 := 0))"

definition clear_zone :: "u32 \<Rightarrow> u32 \<Rightarrow> u32 \<Rightarrow> nat \<times> nat \<Rightarrow> memory \<Rightarrow> memory" where
  "clear_zone softres_flags dst_stt dst_end z m =
     (case z of (i, j) \<Rightarrow> (case erase_zone i j dst_stt dst_end of (erase_stt, erase_end) \<Rightarrow>
        if softres_flags AND (if i = 0 then SC_SOFTRES_LRAM else SC_SOFTRES_HRAM) \<noteq> 0
        then erase (unat (erase_end - erase_stt)) erase_stt m else m))"

definition copystub_main :: "u32 \<Rightarrow> u32 \<Rightarrow> u32 \<Rightarrow> u32 \<Rightarrow> memory \<Rightarrow> memory" where
  "copystub_main softres_flags src_stt len dst_stt m =
     fold (clear_zone softres_flags dst_stt (dst_stt + len)) [(0, 0), (0, 1), (1, 0), (1, 1)] (copy_program src_stt len dst_stt m)"

subsection \<open>Copying\<close>

lemma word_sum_neq:
  fixes a b :: u32
  assumes "n < unat a" "unat b < n"
  shows "unat (a + b) \<noteq> n"
  using assms unat_u32_less [of a] by (auto simp: unat_plus_if')

lemma copy_forward_lemma:
  "n \<le> unat (dst - src) \<Longrightarrow> copy_forward src dst (dst + word_of_nat n) m x = (if within dst n x then m (src + (x - dst)) else m x)"
proof (induction n arbitrary: src dst m)
  case 0
  then show ?case by (simp add: copy_forward.simps within_def)
next
  case (Suc n)
  have n: "Suc n < 2 ^ 32" using Suc.prems unat_u32_less [of "dst - src"] by simp
  then have ne: "dst \<noteq> dst + word_of_nat (Suc n)" using unat_word_of_nat [of "Suc n", where 'a = 32] by (auto simp del: of_nat_Suc unat_word_of_nat)
  have e: "dst + 1 + word_of_nat n = dst + word_of_nat (Suc n)" by simp
  have d: "dst + 1 - (src + 1) = dst - src" by simp
  have "copy_forward src dst (dst + word_of_nat (Suc n)) m x = copy_forward (src + 1) (dst + 1) (dst + 1 + word_of_nat n) (m(dst := m src)) x"
    unfolding e using ne by (subst copy_forward.simps) simp
  also have "\<dots> = (if within (dst + 1) n x then (m(dst := m src)) (src + 1 + (x - (dst + 1))) else (m(dst := m src)) x)"
    by (rule Suc.IH) (use Suc.prems d in simp)
  also have "src + 1 + (x - (dst + 1)) = src + (x - dst)" by simp
  also have "(if within (dst + 1) n x then (m(dst := m src)) (src + (x - dst)) else (m(dst := m src)) x)
      = (if within dst (Suc n) x then m (src + (x - dst)) else m x)"
  proof (cases "within (dst + 1) n x")
    case True
    then have x: "x \<noteq> dst" "unat (x - dst) < Suc n"
      using n within_Suc [of n dst x] not_within_next [of n dst] by (auto simp: within_def)
    have "src + (x - dst) \<noteq> dst"
    proof
      assume "src + (x - dst) = dst"
      then have "x - dst = dst - src" by (simp add: algebra_simps)
      then show False using x(2) Suc.prems by simp
    qed
    then show ?thesis using True x by (simp add: within_def)
  next
    case False
    then show ?thesis using n within_Suc [of n dst x] by auto
  qed
  finally show ?case .
qed

lemma copy_backward_lemma:
  "n \<le> unat (src - dst) \<Longrightarrow> copy_backward dst (src + word_of_nat n - 1) (dst + word_of_nat n - 1) m x
    = (if within dst n x then m (src + (x - dst)) else m x)"
proof (induction n arbitrary: m)
  case 0
  then show ?case by (subst copy_backward.simps) (simp add: within_def)
next
  case (Suc n)
  let ?e = "dst + word_of_nat n" and ?m = "m(dst + word_of_nat n := m (src + word_of_nat n))"
  have n: "Suc n < 2 ^ 32" using Suc.prems unat_u32_less [of "src - dst"] by simp
  then have ne: "dst + word_of_nat (Suc n) \<noteq> dst"
    using unat_word_of_nat [of "Suc n", where 'a = 32] by (auto simp del: of_nat_Suc unat_word_of_nat)
  have eq: "a + word_of_nat (Suc n) - 1 = a + word_of_nat n" for a :: u32 by simp
  have "copy_backward dst (src + word_of_nat (Suc n) - 1) (dst + word_of_nat (Suc n) - 1) m x
      = copy_backward dst (src + word_of_nat n - 1) (dst + word_of_nat n - 1) ?m x"
    unfolding eq using ne by (subst copy_backward.simps) (simp add: algebra_simps)
  also have "\<dots> = (if within dst n x then ?m (src + (x - dst)) else ?m x)"
    by (rule Suc.IH) (use Suc.prems in simp)
  also have "\<dots> = (if within dst (Suc n) x then m (src + (x - dst)) else m x)"
  proof (cases "within dst n x")
    case True
    have "unat ((src - dst) + (x - dst)) \<noteq> n"
      by (rule word_sum_neq) (use Suc.prems True in \<open>simp_all add: within_def\<close>)
    moreover have "unat (word_of_nat n :: u32) = n" using n by simp
    ultimately have "(src - dst) + (x - dst) \<noteq> word_of_nat n" by metis
    then have "src + (x - dst) \<noteq> ?e" by (simp add: algebra_simps)
    then show ?thesis using True by (simp add: within_def)
  next
    case False
    have "within dst (Suc n) x \<longleftrightarrow> x = ?e"
    proof
      assume "within dst (Suc n) x"
      then have "unat (x - dst) = n" using False by (simp add: within_def)
      moreover have "x - dst = word_of_nat (unat (x - dst))" by (simp del: word_of_nat_eq_iff)
      ultimately have "x - dst = word_of_nat n" by (simp only:)
      then show "x = ?e" by (simp add: algebra_simps)
    qed (use n in \<open>simp add: within_def\<close>)
    then show ?thesis using False by auto
  qed
  finally show ?case .
qed

text \<open>Neither the source nor the target may go past the end of the address space.\<close>

lemma copy_program_apply:
  assumes "unat src + unat len \<le> 2 ^ 32" "unat dst + unat len < 2 ^ 32"
  shows "copy_program src len dst m x = (if within dst (unat len) x then m (src + (x - dst)) else m x)"
proof -
  have dist: "unat (b - a) = (if unat a \<le> unat b then unat b - unat a else 2 ^ 32 + unat b - unat a)" for a b :: u32
    by (auto simp: unat_sub_if_size word_size)
  consider "src = dst" | "src \<noteq> dst" "dst > src" "dst < src + len" | "src \<noteq> dst" "\<not> (dst > src \<and> dst < src + len)" by blast
  then show ?thesis
  proof cases
    case 1
    then show ?thesis by (simp add: copy_program_def)
  next
    case 2
    then have "unat src < unat dst" by (simp add: word_less_nat_alt)
    then have "unat len \<le> unat (src - dst)" using assms by (simp add: dist)
    from copy_backward_lemma [OF this, of m x] 2 show ?thesis by (simp add: copy_program_def)
  next
    case 3
    have "unat len \<le> unat (dst - src)"
    proof (cases "unat src \<le> unat dst")
      case True
      have sum: "unat (src + len) = (if unat src + unat len < 2 ^ 32 then unat src + unat len else unat src + unat len - 2 ^ 32)"
        by (simp add: unat_plus_if')
      have "unat src < unat dst" using True 3(1) by (metis order_le_less word_unat_eq_iff)
      then have "\<not> unat dst < unat (src + len)" using 3(2) by (simp add: word_less_nat_alt)
      then show ?thesis using assms True sum unat_u32_less [of dst] \<open>unat src < unat dst\<close> by (auto simp: dist split: if_splits)
    next
      case False
      then show ?thesis using assms by (simp add: dist)
    qed
    moreover have "copy_program src len dst m x = copy_forward src dst (dst + len) m x"
      using 3 unfolding copy_program_def by (simp only: if_True if_False not_False_eq_True)
    ultimately show ?thesis using copy_forward_lemma [of "unat len" dst src m x] by simp
  qed
qed

subsection \<open>Clearing\<close>

lemma erase_store: "erase n p m = store p (replicate n 0) m"
  by (induction n arbitrary: p m) simp_all

lemma erase_apply:
  assumes "a \<le> e"
  shows "erase (unat (e - a)) a m x = (if a \<le> x \<and> x < e then 0 else m x)"
proof -
  have d: "unat (e - a) = unat e - unat a" "unat a \<le> unat e"
    using assms by (simp_all add: unat_sub word_le_nat_alt)
  have "unat a + unat (e - a) \<le> 2 ^ 32" using d unat_u32_less [of e] by simp
  then have "within a (unat (e - a)) x \<longleftrightarrow> a \<le> x \<and> x < e"
    using d by (simp add: within_less word_le_nat_alt word_less_nat_alt)
  moreover have "unat (e - a) \<le> 2 ^ 32" using unat_u32_less [of "e - a"] by simp
  ultimately show ?thesis by (simp add: erase_store store_apply within_def)
qed

subsection \<open>The stub\<close>

text \<open>The addresses that the flags ask to clear.\<close>

definition cleared :: "u32 \<Rightarrow> u32 \<Rightarrow> bool" where
  "cleared softres_flags x \<longleftrightarrow> softres_flags AND SC_SOFTRES_LRAM \<noteq> 0 \<and> LRAM_STT \<le> x \<and> x < LRAM_END
     \<or> softres_flags AND SC_SOFTRES_HRAM \<noteq> 0 \<and> HRAM_STT \<le> x \<and> x < HRAM_END"

lemma CLAMP_bounds:
  "low \<le> high \<Longrightarrow> low \<le> CLAMP x low high" "low \<le> high \<Longrightarrow> CLAMP x low high \<le> high"
  "low \<le> y \<Longrightarrow> y < high \<Longrightarrow> y < CLAMP x low high \<longleftrightarrow> y < x" "low \<le> y \<Longrightarrow> y < high \<Longrightarrow> CLAMP x low high \<le> y \<longleftrightarrow> x \<le> y"
  by (auto simp: CLAMP_def)

lemma clear_both_zones:
  assumes "d \<le> e" "low \<le> high"
  shows "erase (unat (high - CLAMP e low high)) (CLAMP e low high) (erase (unat (CLAMP d low high - low)) low m) x
    = (if low \<le> x \<and> x < high \<and> \<not> (d \<le> x \<and> x < e) then 0 else m x)"
proof (cases "low \<le> x \<and> x < high")
  case True
  then show ?thesis
    unfolding erase_apply [OF CLAMP_bounds(1) [OF assms(2)]] erase_apply [OF CLAMP_bounds(2) [OF assms(2)]]
    using CLAMP_bounds(3,4) [of low x high] assms(1) by (auto simp: not_less)
next
  case False
  have "low \<le> x" if "CLAMP e low high \<le> x" using CLAMP_bounds(1) [OF assms(2)] that by (rule order_trans)
  moreover have "x < high" if "x < CLAMP d low high" using that CLAMP_bounds(2) [OF assms(2)] by (rule order_less_le_trans)
  ultimately show ?thesis
    unfolding erase_apply [OF CLAMP_bounds(1) [OF assms(2)]] erase_apply [OF CLAMP_bounds(2) [OF assms(2)]]
    using False by auto
qed

lemma copystub_lemma:
  assumes "unat src_stt + unat len \<le> 2 ^ 32" and "unat dst_stt + unat len < 2 ^ 32"
  shows "copystub_main softres_flags src_stt len dst_stt m x =
    (if within dst_stt (unat len) x then m (src_stt + (x - dst_stt)) else if cleared softres_flags x then 0 else m x)"
proof -
  have s: "unat (dst_stt + len) = unat dst_stt + unat len" using assms(2) by (simp add: unat_plus_if')
  then have le: "dst_stt \<le> dst_stt + len" by (simp add: word_le_nat_alt)
  have w: "within dst_stt (unat len) x \<longleftrightarrow> dst_stt \<le> x \<and> x < dst_stt + len"
    using assms(2) by (simp add: within_less word_le_nat_alt word_less_nat_alt s)
  have b: "LRAM_STT \<le> LRAM_END" "HRAM_STT \<le> HRAM_END" by simp_all
  show ?thesis
    by (simp add: copystub_main_def clear_zone_def erase_zone_def clear_both_zones [OF le] copy_program_apply [OF assms] w cleared_def)
qed

text \<open>
  C38: the copy stub leaves at the target the bytes that were at the source, also when the two overlap
  in either direction, null bytes in the parts of the low and the high RAM that the flags ask to clear
  and that are not the target, and the rest of the memory as it was.
\<close>

theorem copystub_correct:
  assumes "unat src_stt + unat len \<le> 2 ^ 32" and "unat dst_stt + unat len < 2 ^ 32"
  shows "copystub_main softres_flags src_stt len dst_stt m x =
    (if within dst_stt (unat len) x then m (src_stt + (x - dst_stt)) else if cleared softres_flags x then 0 else m x)"
  using assms by (rule copystub_lemma)

theorem copystub_correct_witness:
  "copystub_main 3 0x200000 4 0x200002 (\<lambda>x. ucast x) 0x200004 = 2 \<and> copystub_main 3 0x200000 4 0x200002 (\<lambda>x. ucast x) 0x200001 = 0"
  using copystub_correct [of "0x200000" 4 "0x200002" 3 "\<lambda>x. ucast x" "0x200004"]
    copystub_correct [of "0x200000" 4 "0x200002" 3 "\<lambda>x. ucast x" "0x200001"]
  by (simp add: within_def cleared_def unsigned_minus_1_eq_mask mask_eq_exp_minus_1)

end
