(* ===== verification/ScUsbdc.thy ===== *)
theory ScUsbdc
  imports ScCommon ScCopystub
begin

section \<open>The USB commands of the console\<close>

text \<open>
  Models the USB part of \<open>sc_saturn.c\<close> (from \<open>RecvByte\<close> to \<open>sc_check_usbdc\<close>, and \<open>sc_execute\<close>). The
  state is the memory, the bytes that the PC sends and those that were sent to it, and the two
  pointers of \<open>sc_internal_t\<close> that these functions use. The flags of the USB chip are the state of the
  two queues: a byte can be received when one is there, and sending waits until there is space. The
  input is all that the PC ever sends, so a function that waits for a byte beyond it does not return
  (\<open>Stays\<close>). The client's callback for a reset and the code that is called are parameters.
\<close>

record console =
  con_mem :: memory
  usb_rx :: "byte list"
  usb_tx :: "byte list"
  exec_buffer :: u32
  rw4_buffer :: u32

text \<open>A call returns a value, or it does not return and the console is left as it is then.\<close>

datatype 'a run = Returns 'a console | Stays console

record console_env =
  soft_reset :: "(u32 \<Rightarrow> console \<Rightarrow> console) option"
  run_code :: "u32 \<Rightarrow> console \<Rightarrow> unit run"

fun and_then :: "'a run \<Rightarrow> ('a \<Rightarrow> console \<Rightarrow> 'b run) \<Rightarrow> 'b run" where
  "and_then (Returns x c) f = f x c"
| "and_then (Stays c) f = Stays c"

fun last_state :: "'a run \<Rightarrow> console" where
  "last_state (Returns x c) = c"
| "last_state (Stays c) = c"

abbreviation USBDC_FUNC_DOWNLOAD :: byte where "USBDC_FUNC_DOWNLOAD \<equiv> 1"
abbreviation USBDC_FUNC_UPLOAD :: byte where "USBDC_FUNC_UPLOAD \<equiv> 2"
abbreviation USBDC_FUNC_EXEC :: byte where "USBDC_FUNC_EXEC \<equiv> 3"
abbreviation USBDC_FUNC_GET_BUFF_ADDR :: byte where "USBDC_FUNC_GET_BUFF_ADDR \<equiv> 4"
abbreviation USBDC_FUNC_COPYEXEC :: byte where "USBDC_FUNC_COPYEXEC \<equiv> 5"
abbreviation USBDC_FUNC_EXEC_EXT :: byte where "USBDC_FUNC_EXEC_EXT \<equiv> 6"
abbreviation SC_SOFTRES_ALL :: u32 where "SC_SOFTRES_ALL \<equiv> 0xFFFFFFFF"
abbreviation SC_GLOBAL_DATA_ADR :: u32 where "SC_GLOBAL_DATA_ADR \<equiv> 0x002FFFF8"
abbreviation COPYSTUB_LENGTH :: nat where "COPYSTUB_LENGTH \<equiv> 1024"

subsection \<open>Bytes and words\<close>

definition RecvByte :: "console \<Rightarrow> byte run" where
  "RecvByte c = (case usb_rx c of [] \<Rightarrow> Stays c | b # bs \<Rightarrow> Returns b (c\<lparr>usb_rx := bs\<rparr>))"

definition SendByte :: "byte \<Rightarrow> console \<Rightarrow> console" where
  "SendByte b c = c\<lparr>usb_tx := usb_tx c @ [b]\<rparr>"

definition RecvDword :: "console \<Rightarrow> u32 run" where
  "RecvDword c =
     and_then (RecvByte c) (\<lambda>a c. let tmp = ucast a in
     and_then (RecvByte c) (\<lambda>a c. let tmp = push_bit 8 tmp OR ucast a in
     and_then (RecvByte c) (\<lambda>a c. let tmp = push_bit 8 tmp OR ucast a in
     and_then (RecvByte c) (\<lambda>a c. Returns (push_bit 8 tmp OR ucast a) c))))"

definition SendDword :: "u32 \<Rightarrow> console \<Rightarrow> console" where
  "SendDword v c = SendByte (ucast (v AND 0xFF)) (SendByte (ucast (drop_bit 8 v AND 0xFF))
     (SendByte (ucast (drop_bit 16 v AND 0xFF)) (SendByte (ucast (drop_bit 24 v AND 0xFF)) c)))"

text \<open>The loop that receives bytes to memory.\<close>

fun recv_bytes :: "nat \<Rightarrow> u32 \<Rightarrow> console \<Rightarrow> unit run" where
  "recv_bytes 0 p c = Returns () c"
| "recv_bytes (Suc n) p c = and_then (RecvByte c) (\<lambda>b c. recv_bytes n (p + 1) (c\<lparr>con_mem := (con_mem c)(p := b)\<rparr>))"

definition checksum_of :: "byte list \<Rightarrow> byte" where
  "checksum_of dat = crc_usbdc_finalize (crc_usbdc_update crc_usbdc_init dat)"

subsection \<open>The commands\<close>

definition usbdc_version_dat :: "byte list" where
  "usbdc_version_dat = 0x31 # replicate 15 0"

definition DoDownload :: "console \<Rightarrow> unit run" where
  "DoDownload c =
     and_then (RecvDword c) (\<lambda>pData c.
     and_then (RecvDword c) (\<lambda>len c.
       let short = (len = 2 \<or> len = 4);
           src = (if len = 2 then pData AND 0xFFFFFFFE else pData AND 0xFFFFFFFC);
           c = (if short then c\<lparr>con_mem := store (rw4_buffer c) (load src (unat len) (con_mem c)) (con_mem c)\<rparr> else c);
           pData = (if short then rw4_buffer c else pData);
           dat = (if pData AND 0x0FFFFFFF = 0x007FFFF0 \<and> len = 16 then usbdc_version_dat else load pData (unat len) (con_mem c))
       in Returns () (SendByte (checksum_of dat) (fold SendByte dat c))))"

text \<open>The end of \<open>DoExecExt\<close>'s transfer: the checksum of what is in the memory, and the answer.\<close>

definition check_received :: "u32 \<Rightarrow> u32 \<Rightarrow> console \<Rightarrow> bool run" where
  "check_received p len c = (let checksum = checksum_of (load p (unat len) (con_mem c)) in
     and_then (RecvByte c) (\<lambda>readchecksum c.
       if checksum \<noteq> readchecksum then Returns False (SendByte 1 c) else Returns True (SendByte 0 c)))"

definition DoUpload :: "console \<Rightarrow> unit run" where
  "DoUpload c =
     and_then (RecvDword c) (\<lambda>pData c.
     and_then (RecvDword c) (\<lambda>len c.
       let short = (len = 2 \<or> len = 4);
           p = (if short then rw4_buffer c else pData);
           dst = (if len = 2 then pData AND 0xFFFFFFFE else pData AND 0xFFFFFFFC)
       in and_then (recv_bytes (unat len) p c) (\<lambda>_ c.
            let checksum = checksum_of (load p (unat len) (con_mem c));
                c = (if short then c\<lparr>con_mem := store dst (load p (unat len) (con_mem c)) (con_mem c)\<rparr> else c)
            in and_then (RecvByte c) (\<lambda>readchecksum c.
                 Returns () (SendByte (if checksum \<noteq> readchecksum then 1 else 0) c)))))"

definition call_soft_reset :: "console_env \<Rightarrow> u32 \<Rightarrow> console \<Rightarrow> console" where
  "call_soft_reset env softres_flags c = (case soft_reset env of None \<Rightarrow> c | Some f \<Rightarrow> f softres_flags c)"

definition DoExecute :: "console_env \<Rightarrow> console \<Rightarrow> unit run" where
  "DoExecute env c = and_then (RecvDword c) (\<lambda>pFun c. run_code env pFun (call_soft_reset env SC_SOFTRES_ALL c))"

definition copystub_bin_dat :: "byte list" where
  "copystub_bin_dat = [
   0x2F, 0x86, 0x60, 0x43, 0x2F, 0x96, 0xC8, 0x02, 0x2F, 0xA6, 0xE9, 0xFF, 0x2F, 0xB6, 0x69, 0x9A,
   0x2F, 0xC6, 0xC9, 0x01, 0x2F, 0xD6, 0x68, 0x63, 0x2F, 0xE6, 0x37, 0x50, 0x4F, 0x22, 0x38, 0x7C,
   0x7F, 0xF4, 0x1F, 0x91, 0x8D, 0x10, 0x1F, 0x02, 0x37, 0x56, 0x8F, 0x44, 0x61, 0x83, 0x36, 0x5C,
   0x37, 0x62, 0x8D, 0x41, 0x37, 0x80, 0x8D, 0x07, 0x62, 0x83, 0x31, 0x78, 0x76, 0xFF, 0x63, 0x60,
   0x41, 0x10, 0x8F, 0xFB, 0x22, 0x34, 0x00, 0x09, 0xDD, 0x39, 0xE4, 0x00, 0xDC, 0x39, 0xE6, 0x00,
   0xDB, 0x39, 0xDE, 0x3A, 0x38, 0xD2, 0x62, 0x4C, 0x8D, 0x01, 0x63, 0x83, 0xD3, 0x34, 0x33, 0xC6,
   0x8F, 0x01, 0x22, 0x28, 0xD3, 0x33, 0x8B, 0x3C, 0xD1, 0x33, 0x2F, 0x12, 0x38, 0xB2, 0x8D, 0x01,
   0x61, 0x83, 0xD1, 0x31, 0x31, 0xE6, 0x8F, 0x01, 0x22, 0x28, 0xD1, 0x30, 0x8D, 0x2D, 0xE5, 0x00,
   0xDA, 0x2C, 0xE0, 0x01, 0x24, 0x48, 0x8D, 0x47, 0x25, 0x58, 0x8D, 0x3A, 0x37, 0xD2, 0x29, 0x98,
   0x8D, 0x0B, 0x88, 0x02, 0x61, 0xA3, 0x62, 0x33, 0x31, 0x28, 0x21, 0x18, 0x8D, 0x05, 0x88, 0x02,
   0x22, 0x60, 0x41, 0x10, 0x8F, 0xFC, 0x72, 0x01, 0x88, 0x02, 0x89, 0x10, 0x70, 0x01, 0x75, 0x01,
   0x60, 0x0C, 0xAF, 0xE7, 0x65, 0x5C, 0x37, 0x80, 0x62, 0x73, 0x8D, 0xC5, 0x31, 0x78, 0x00, 0x09,
   0x63, 0x54, 0x41, 0x10, 0x22, 0x30, 0x8F, 0xFB, 0x72, 0x01, 0xAF, 0xBD, 0x00, 0x09, 0x74, 0x01,
   0x60, 0x43, 0x88, 0x02, 0x89, 0x08, 0xAF, 0xBD, 0x59, 0xF2, 0x63, 0x13, 0xDA, 0x17, 0xAF, 0xD1,
   0xE0, 0x01, 0xD0, 0x13, 0xAF, 0xC2, 0x2F, 0x02, 0x47, 0x0B, 0x00, 0x09, 0xE0, 0x00, 0x7F, 0x0C,
   0x4F, 0x26, 0x6E, 0xF6, 0x6D, 0xF6, 0x6C, 0xF6, 0x6B, 0xF6, 0x6A, 0xF6, 0x69, 0xF6, 0x00, 0x0B,
   0x68, 0xF6, 0x8D, 0x01, 0x61, 0x73, 0xD1, 0x0A, 0x31, 0xC6, 0x8F, 0x02, 0x29, 0x98, 0xD1, 0x09,
   0x29, 0x98, 0x89, 0xCB, 0xAF, 0xC0, 0x62, 0xF2, 0x8F, 0xBA, 0x29, 0x98, 0x37, 0xB2, 0x8D, 0x01,
   0x61, 0x73, 0xD1, 0x05, 0x31, 0xE6, 0x8F, 0xF3, 0x29, 0x98, 0xD1, 0x04, 0xAF, 0xF1, 0x00, 0x09,
   0x06, 0x00, 0x40, 0x00, 0x06, 0x10, 0x00, 0x00, 0x00, 0x20, 0x00, 0x00, 0x00, 0x2F, 0xF8, 0x00]"

text \<open>\<open>copystub_bin_dat\<close> is the compiled \<open>_main\<close> of the copy stub, so calling it is \<open>copystub_main\<close> and
  then the program.\<close>

definition copystub_execute :: "console_env \<Rightarrow> u32 \<Rightarrow> u32 \<Rightarrow> u32 \<Rightarrow> u32 \<Rightarrow> console \<Rightarrow> unit run" where
  "copystub_execute env softres_flags tmp_address len exec_address c =
     (if length copystub_bin_dat > COPYSTUB_LENGTH then Returns () c
      else let dst = exec_address AND 0x0FFFFFFF;
               m = store COPYSTUB_START_ADRESS copystub_bin_dat (con_mem c);
               m = copystub_main softres_flags (tmp_address AND 0x0FFFFFFF) len dst m
        in run_code env dst (c\<lparr>con_mem := m\<rparr>))"

definition sc_execute :: "console_env \<Rightarrow> u32 \<Rightarrow> u32 \<Rightarrow> u32 \<Rightarrow> u32 \<Rightarrow> console \<Rightarrow> unit run" where
  "sc_execute env softres_flags tmp_address len exec_address c =
     (let c = call_soft_reset env softres_flags c;
          m = store (SC_GLOBAL_DATA_ADR + 4) (replicate 4 0) (store SC_GLOBAL_DATA_ADR (replicate 4 0) (con_mem c))
      in copystub_execute env softres_flags tmp_address len exec_address (c\<lparr>con_mem := m\<rparr>))"

definition DoExecExt :: "console_env \<Rightarrow> console \<Rightarrow> unit run" where
  "DoExecExt env c =
     and_then (RecvDword c) (\<lambda>pExec c.
       let pData = (if pExec AND 0x0F000000 \<noteq> exec_buffer c AND 0x0F000000 then exec_buffer c else pExec) in
     and_then (RecvDword c) (\<lambda>len c.
     and_then (RecvDword c) (\<lambda>softres_flags c.
     and_then (recv_bytes (unat len) pData c) (\<lambda>_ c.
     and_then (check_received pData len c) (\<lambda>ok c.
       if \<not> ok then Returns () c
       else sc_execute env softres_flags pData len pExec (call_soft_reset env softres_flags c))))))"

definition DoSendBufferAddress :: "console \<Rightarrow> unit run" where
  "DoSendBufferAddress c = Returns () (SendDword (exec_buffer c) c)"

definition DoCopyExec :: "console_env \<Rightarrow> console \<Rightarrow> unit run" where
  "DoCopyExec env c =
     and_then (RecvDword c) (\<lambda>tmp_address c.
     and_then (RecvDword c) (\<lambda>len c.
     and_then (RecvDword c) (\<lambda>exec_address c. sc_execute env SC_SOFTRES_ALL tmp_address len exec_address c)))"

subsection \<open>The server\<close>

text \<open>One command; the result is the new value of \<open>can_exit\<close>.\<close>

definition usbdc_command :: "console_env \<Rightarrow> byte \<Rightarrow> bool \<Rightarrow> console \<Rightarrow> bool run" where
  "usbdc_command env command can_exit c =
     (if command = USBDC_FUNC_DOWNLOAD then and_then (DoDownload c) (\<lambda>_. Returns can_exit)
      else if command = USBDC_FUNC_UPLOAD then and_then (DoUpload c) (\<lambda>_. Returns can_exit)
      else if command = USBDC_FUNC_EXEC then and_then (DoExecute env c) (\<lambda>_. Returns True)
      else if command = USBDC_FUNC_GET_BUFF_ADDR then and_then (DoSendBufferAddress c) (\<lambda>_. Returns False)
      else if command = USBDC_FUNC_COPYEXEC then and_then (DoCopyExec env c) (\<lambda>_. Returns True)
      else if command = USBDC_FUNC_EXEC_EXT then and_then (DoExecExt env c) (\<lambda>_. Returns False)
      else Returns can_exit c)"

text \<open>The loop of \<open>sc_check_usbdc\<close>. While it may not exit and no byte is there it polls for good. A
  program that was called and returned may have left any state, so the loop may not end.\<close>

partial_function (option) usbdc_loop :: "console_env \<Rightarrow> bool \<Rightarrow> console \<Rightarrow> unit run option" where
  "usbdc_loop env can_exit c =
     (case usb_rx c of
        [] \<Rightarrow> Some (if can_exit then Returns () c else Stays c)
      | command # rest \<Rightarrow>
          (case usbdc_command env command can_exit (c\<lparr>usb_rx := rest\<rparr>) of
             Stays c \<Rightarrow> Some (Stays c)
           | Returns can_exit c \<Rightarrow> if can_exit then Some (Returns () c) else usbdc_loop env can_exit c))"

definition sc_check_usbdc :: "console_env \<Rightarrow> console \<Rightarrow> unit run option" where
  "sc_check_usbdc env c = usbdc_loop env True c"

subsection \<open>Receiving and sending\<close>

text \<open>A word in the order in which it is sent.\<close>

definition be32 :: "u32 \<Rightarrow> byte list" where
  "be32 v = [ucast (drop_bit 24 v), ucast (drop_bit 16 v), ucast (drop_bit 8 v), ucast v]"

lemma length_be32 [simp]: "length (be32 v) = 4"
  by (simp add: be32_def)

lemma RecvByte_Cons: "usb_rx c = b # bs \<Longrightarrow> RecvByte c = Returns b (c\<lparr>usb_rx := bs\<rparr>)"
  by (simp add: RecvByte_def)

lemma RecvDword_be32:
  assumes "usb_rx c = be32 v @ r"
  shows "RecvDword c = Returns v (c\<lparr>usb_rx := r\<rparr>)"
proof -
  have "push_bit 8 (push_bit 8 (push_bit 8 (ucast a) OR ucast b) OR ucast d) OR ucast e
      = push_bit 24 (ucast a) OR push_bit 16 (ucast b) OR push_bit 8 (ucast d) OR (ucast e :: u32)" for a b d e :: byte
    by (simp add: push_bit_or or.assoc)
  then show ?thesis
    using assms by (simp add: RecvDword_def RecvByte_def be32_def bytes_join_32)
qed

lemma recv_bytes_all:
  "usb_rx c = dat @ r \<Longrightarrow> recv_bytes (length dat) p c = Returns () (c\<lparr>con_mem := store p dat (con_mem c), usb_rx := r\<rparr>)"
  by (induction dat arbitrary: p c) (simp_all add: RecvByte_def)

lemma send_all: "fold SendByte dat c = c\<lparr>usb_tx := usb_tx c @ dat\<rparr>"
  by (induction dat arbitrary: c) (simp_all add: SendByte_def)

lemma SendDword_be32: "SendDword v c = c\<lparr>usb_tx := usb_tx c @ be32 v\<rparr>"
  by (simp add: SendDword_def SendByte_def be32_def)

lemmas usbdc_steps = RecvDword_be32 RecvByte_Cons SendByte_def

text \<open>One command of the server, started when it may exit.\<close>

lemma sc_check_usbdc_command:
  assumes "usb_rx c = command # rest"
  shows "sc_check_usbdc env c = (case usbdc_command env command True (c\<lparr>usb_rx := rest\<rparr>) of
     Stays c \<Rightarrow> Some (Stays c) | Returns can_exit c \<Rightarrow> if can_exit then Some (Returns () c) else usbdc_loop env can_exit c)"
  unfolding sc_check_usbdc_def by (subst usbdc_loop.simps) (simp add: assms)

text \<open>
  The memory after an upload. Blocks of two and four bytes go through the buffer for short accesses
  and are written at the aligned address.
\<close>

definition uploaded :: "u32 \<Rightarrow> byte list \<Rightarrow> console \<Rightarrow> memory" where
  "uploaded a dat c =
     (if length dat = 2 then store (a AND 0xFFFFFFFE) dat (store (rw4_buffer c) dat (con_mem c))
      else if length dat = 4 then store (a AND 0xFFFFFFFC) dat (store (rw4_buffer c) dat (con_mem c))
      else store a dat (con_mem c))"

text \<open>
  A block that the PC sends with the command for an upload is in the memory at its address when
  the server returns; the answer is 0 when the checksum
  is that of the block and 1 otherwise. Blocks of two and four bytes also pass through the buffer for
  short accesses and are written at the aligned address.
\<close>

lemma usbdc_upload_lemma:
  assumes "usb_rx c = USBDC_FUNC_UPLOAD # be32 a @ be32 len @ dat @ k # rest" and "length dat = unat len"
  shows "sc_check_usbdc env c = Some (Returns () (c\<lparr>con_mem := uploaded a dat c, usb_rx := rest,
    usb_tx := usb_tx c @ [if k = checksum_of dat then 0 else 1]\<rparr>))"
proof -
  have l: "length dat \<le> 2 ^ 32" using assms(2) unat_u32_less [of len] by simp
  have r: "recv_bytes (unat len) p (c\<lparr>usb_rx := dat @ k # rest\<rparr>)
      = Returns () (c\<lparr>con_mem := store p dat (con_mem c), usb_rx := k # rest\<rparr>)" for p
    unfolding assms(2) [symmetric] by (subst recv_bytes_all [of _ dat "k # rest"]) simp_all
  note load = load_store_same [OF l, of _ "con_mem c", unfolded assms(2)]
  have s: "len = 2 \<longleftrightarrow> length dat = 2" "len = 4 \<longleftrightarrow> length dat = 4"
    unfolding assms(2) by (simp_all add: word_unat_eq_iff)
  have "DoUpload (c\<lparr>usb_rx := be32 a @ be32 len @ dat @ k # rest\<rparr>) = Returns () (c\<lparr>con_mem := uploaded a dat c,
      usb_rx := rest, usb_tx := usb_tx c @ [if k = checksum_of dat then 0 else 1]\<rparr>)"
    by (simp add: DoUpload_def RecvDword_be32 r RecvByte_Cons SendByte_def load uploaded_def s)
  then show ?thesis by (simp add: sc_check_usbdc_command [OF assms(1)] usbdc_command_def)
qed

text \<open>Where the bytes of an upload or a download are: two and four bytes at an aligned address.\<close>

definition block_start :: "u32 \<Rightarrow> nat \<Rightarrow> u32" where
  "block_start a n = (if n = 2 then a AND 0xFFFFFFFE else if n = 4 then a AND 0xFFFFFFFC else a)"

lemma uploaded_block:
  assumes "length dat < 2 ^ 32"
  shows "load (block_start a (length dat)) (length dat) (uploaded a dat c) = dat"
    "\<not> within (block_start a (length dat)) (length dat) x \<Longrightarrow>
      (length dat = 2 \<or> length dat = 4 \<longrightarrow> \<not> within (rw4_buffer c) (length dat) x) \<Longrightarrow> uploaded a dat c x = con_mem c x"
proof -
  have l: "load b (length dat) (store b dat m) = dat" for b m using assms by (simp add: load_store_same)
  then show "load (block_start a (length dat)) (length dat) (uploaded a dat c) = dat"
    unfolding uploaded_def block_start_def by presburger
  show "\<not> within (block_start a (length dat)) (length dat) x \<Longrightarrow>
      (length dat = 2 \<or> length dat = 4 \<longrightarrow> \<not> within (rw4_buffer c) (length dat) x) \<Longrightarrow> uploaded a dat c x = con_mem c x"
    using assms by (auto simp: uploaded_def block_start_def store_outside split: if_splits)
qed

text \<open>
  For the command for a download the server sends the bytes of the memory at the address, read
  when the command came, and then their checksum. The version of the firmware is sent for its address,
  and short reads are aligned and go through the buffer for short accesses.
\<close>

definition downloaded :: "u32 \<Rightarrow> nat \<Rightarrow> console \<Rightarrow> byte list" where
  "downloaded a n c = (if a AND 0x0FFFFFFF = 0x007FFFF0 \<and> n = 16 then usbdc_version_dat
     else load (block_start a n) n (con_mem c))"

lemma length_downloaded [simp]: "length (downloaded a n c) = n"
  by (simp add: downloaded_def usbdc_version_dat_def)

lemma usbdc_download_lemma:
  assumes "usb_rx c = USBDC_FUNC_DOWNLOAD # be32 a @ be32 len @ rest"
  shows "\<exists>m. sc_check_usbdc env c = Some (Returns () (c\<lparr>con_mem := m, usb_rx := rest,
    usb_tx := usb_tx c @ downloaded a (unat len) c @ [checksum_of (downloaded a (unat len) c)]\<rparr>))"
proof -
  let ?c = "c\<lparr>usb_rx := be32 a @ be32 len @ rest\<rparr>" and ?D = "downloaded a (unat len) c"
  have s: "len = 2 \<longleftrightarrow> unat len = 2" "len = 4 \<longleftrightarrow> unat len = 4" "len = 16 \<longleftrightarrow> unat len = 16"
    by (simp_all add: word_unat_eq_iff)
  have l: "load b k (store b (load a' k m) m) = load a' k m" if "k = 2 \<or> k = 4" for a' b m and k :: nat
    using that load_store_same [of "load a' k m" b m] by auto
  have "\<exists>m. DoDownload ?c = Returns () (c\<lparr>con_mem := m, usb_rx := rest, usb_tx := usb_tx c @ ?D @ [checksum_of ?D]\<rparr>)"
  proof (cases "len = 2 \<or> len = 4")
    case True
    let ?m = "store (rw4_buffer c) (load (block_start a (unat len)) (unat len) (con_mem c)) (con_mem c)"
    have "DoDownload ?c = Returns () (c\<lparr>con_mem := ?m, usb_rx := rest, usb_tx := usb_tx c @ ?D @ [checksum_of ?D]\<rparr>)"
      using True l by (elim disjE) (simp_all add: DoDownload_def RecvDword_be32 send_all SendByte_def Let_def downloaded_def block_start_def)
    then show ?thesis by blast
  next
    case False
    then have b: "block_start a (unat len) = a" using s(1,2) by (simp add: block_start_def)
    have "DoDownload ?c = Returns () (c\<lparr>con_mem := con_mem c, usb_rx := rest, usb_tx := usb_tx c @ ?D @ [checksum_of ?D]\<rparr>)"
      using False s(3) by (simp add: DoDownload_def RecvDword_be32 send_all SendByte_def Let_def downloaded_def b)
    then show ?thesis by blast
  qed
  then show ?thesis by (auto simp: sc_check_usbdc_command [OF assms] usbdc_command_def)
qed

text \<open>
  C36: when one byte of the data of an upload is altered on the way, whatever its value and place, the
  console answers 1.
\<close>

theorem usbdc_upload_detects:
  assumes "usb_rx c = USBDC_FUNC_UPLOAD # be32 a @ be32 len @ (p @ y # q) @ checksum_of (p @ x # q) # rest"
    and "length (p @ y # q) = unat len" and "x \<noteq> y"
  shows "\<exists>c'. sc_check_usbdc env c = Some (Returns () c') \<and> usb_tx c' = usb_tx c @ [1]"
proof -
  have "checksum_of (p @ x # q) \<noteq> checksum_of (p @ y # q)"
    unfolding checksum_of_def crc_usbdc_finalize_def word_xor_right_cancel by (rule crc_usbdc_detects_byte [OF assms(3)])
  then show ?thesis using usbdc_upload_lemma [OF assms(1,2)] by simp
qed

theorem usbdc_upload_detects_witness:
  "\<exists>c'. sc_check_usbdc \<lparr>soft_reset = None, run_code = \<lambda>_. Returns ()\<rparr>
      \<lparr>con_mem = \<lambda>_. 0, usb_rx = USBDC_FUNC_UPLOAD # be32 0x06004000 @ be32 3 @ [1, 4, 3] @ [checksum_of [1, 2, 3]],
       usb_tx = [], exec_buffer = 0x00200000, rw4_buffer = 0x06010000\<rparr>
    = Some (Returns () c') \<and> usb_tx c' = [1]"
  using usbdc_upload_detects [where p = "[1]" and y = 4 and q = "[3]" and x = 2 and a = "0x06004000" and len = 3 and rest = "[]"
      and c = "\<lparr>con_mem = \<lambda>_. 0, usb_rx = USBDC_FUNC_UPLOAD # be32 0x06004000 @ be32 3 @ [1, 4, 3] @ [checksum_of [1, 2, 3]],
       usb_tx = [], exec_buffer = 0x00200000, rw4_buffer = 0x06010000\<rparr>"]
  by simp

subsection \<open>Running a program\<close>

text \<open>The buffer for programs must leave the last kilobytes of the low RAM to the copy stub, its
  table and the debugger's data.\<close>

definition program_area :: "u32 \<Rightarrow> nat \<Rightarrow> bool" where
  "program_area p n \<longleftrightarrow> unat p + n \<le> 0x002FF800 \<or> 0x00300000 \<le> unat p \<and> unat p + n < 0x10000000"

lemma program_area_outside:
  assumes "program_area p n" "within p n x"
  shows "\<not> within COPYSTUB_START_ADRESS (length copystub_bin_dat) x" "\<not> within SC_GLOBAL_DATA_ADR 4 x"
    "\<not> within (SC_GLOBAL_DATA_ADR + 4) 4 x"
proof -
  have "unat p + n \<le> 2 ^ 32" using assms(1) by (auto simp: program_area_def)
  then have "unat p \<le> unat x" "unat x < unat p + n" using assms(2) by (simp_all add: within_less)
  then show "\<not> within COPYSTUB_START_ADRESS (length copystub_bin_dat) x" "\<not> within SC_GLOBAL_DATA_ADR 4 x"
    "\<not> within (SC_GLOBAL_DATA_ADR + 4) 4 x"
    using assms(1) by (auto simp: program_area_def within_less copystub_bin_dat_def)
qed

text \<open>What is needed of the client's callback: it may change the memory (the video memory, for example),
  but it returns, it leaves the link to the PC alone, and it keeps the bytes that have been received.\<close>

definition quiet_reset :: "console_env \<Rightarrow> u32 \<Rightarrow> nat \<Rightarrow> bool" where
  "quiet_reset env p n \<longleftrightarrow> (\<forall>f softres_flags c. soft_reset env = Some f \<longrightarrow>
     (\<exists>m. f softres_flags c = c\<lparr>con_mem := m\<rparr> \<and> load p n m = load p n (con_mem c)))"

lemma quiet_call:
  assumes "quiet_reset env p n"
  obtains m where "call_soft_reset env softres_flags c = c\<lparr>con_mem := m\<rparr>" "load p n m = load p n (con_mem c)"
proof (cases "soft_reset env")
  case None
  then show ?thesis using that [of "con_mem c"] by (simp add: call_soft_reset_def)
next
  case (Some f)
  then obtain m where "f softres_flags c = c\<lparr>con_mem := m\<rparr>" "load p n m = load p n (con_mem c)"
    using assms unfolding quiet_reset_def by blast
  then show ?thesis using that Some by (simp add: call_soft_reset_def)
qed

lemma low_address: "unat (a :: u32) < 0x10000000 \<Longrightarrow> a AND 0x0FFFFFFF = a"
proof -
  assume a: "unat a < 0x10000000"
  have "(0x0FFFFFFF :: u32) = mask 28" by (simp add: mask_eq_exp_minus_1)
  moreover have "take_bit 28 a = a"
  proof (rule bit_word_eqI)
    fix n
    have "unat a < 2 ^ 28" using a by simp
    from not_bit_ge [OF this, of n] show "bit (take_bit 28 a) n = bit a n"
      by (cases "n < 28") (simp_all add: bit_take_bit_iff not_less)
  qed
  ultimately show ?thesis by (simp add: take_bit_eq_mask)
qed

lemma sc_execute_lemma:
  assumes "quiet_reset env p (unat len)" "program_area p (unat len)" "program_area a (unat len)" "unat a < 0x10000000" "unat p < 0x10000000"
  shows "\<exists>m. sc_execute env softres_flags p len a c = run_code env a (c\<lparr>con_mem := m\<rparr>)
    \<and> load a (unat len) m = load p (unat len) (con_mem c)"
proof -
  obtain m1 where m1: "call_soft_reset env softres_flags c = c\<lparr>con_mem := m1\<rparr>"
    "load p (unat len) m1 = load p (unat len) (con_mem c)" using quiet_call [OF assms(1)] by blast
  let ?g = "store (SC_GLOBAL_DATA_ADR + 4) (replicate 4 0) (store SC_GLOBAL_DATA_ADR (replicate 4 0) m1)"
  let ?s = "store COPYSTUB_START_ADRESS copystub_bin_dat ?g"
  let ?m = "copystub_main softres_flags p len a ?s"
  have n: "unat len \<le> 2 ^ 32" using unat_u32_less [of len] by simp
  have b: "length copystub_bin_dat = 320" by (simp add: copystub_bin_dat_def)
  have l: "unat p + unat len \<le> 2 ^ 32" "unat a + unat len < 2 ^ 32"
    using assms(2,3) by (auto simp: program_area_def)
  have e: "sc_execute env softres_flags p len a c = run_code env a (c\<lparr>con_mem := ?m\<rparr>)"
    by (simp add: sc_execute_def m1(1) copystub_execute_def b low_address assms(4,5) Let_def)
  have "load a (unat len) ?m = load p (unat len) ?s"
  proof (rule nth_equalityI)
    fix i assume "i < length (load a (unat len) ?m)"
    then have i: "i < unat len" by simp
    then have "unat (word_of_nat i :: u32) = i" using n by simp
    then have "within a (unat len) (a + word_of_nat i)" using i by (simp add: within_def)
    then show "load a (unat len) ?m ! i = load p (unat len) ?s ! i"
      using i by (simp add: nth_load copystub_lemma [OF l])
  qed simp
  also have "\<dots> = load p (unat len) ?g"
    by (rule load_store_apart) (use program_area_outside [OF assms(2)] n b in simp_all)
  also have "\<dots> = load p (unat len) (store SC_GLOBAL_DATA_ADR (replicate 4 0) m1)"
    by (rule load_store_apart) (use program_area_outside(3) [OF assms(2)] n in simp_all)
  also have "\<dots> = load p (unat len) m1"
    by (rule load_store_apart) (use program_area_outside(2) [OF assms(2)] n in simp_all)
  also have "\<dots> = load p (unat len) (con_mem c)" by (rule m1(2))
  finally show ?thesis using e by blast
qed

text \<open>Where a program is received: at its own address when that is in the same part of the memory as
  the buffer for programs, in this buffer otherwise.\<close>

definition upload_area :: "u32 \<Rightarrow> console \<Rightarrow> u32" where
  "upload_area a c = (if a AND 0x0F000000 \<noteq> exec_buffer c AND 0x0F000000 then exec_buffer c else a)"

lemma upload_area_update [simp]:
  "upload_area a (c\<lparr>usb_rx := r\<rparr>) = upload_area a c" "upload_area a (c\<lparr>usb_tx := t\<rparr>) = upload_area a c"
  by (simp_all add: upload_area_def)

lemma DoExecExt_lemma:
  assumes "usb_rx c = be32 a @ be32 len @ be32 softres_flags @ dat @ k # rest" "length dat = unat len"
  shows "DoExecExt env c = (let p = upload_area a c; c = c\<lparr>con_mem := store p dat (con_mem c), usb_rx := rest\<rparr> in
     if k = checksum_of dat
     then sc_execute env softres_flags p len a (call_soft_reset env softres_flags (c\<lparr>usb_tx := usb_tx c @ [0]\<rparr>))
     else Returns () (c\<lparr>usb_tx := usb_tx c @ [1]\<rparr>))"
proof -
  have l: "length dat \<le> 2 ^ 32" using assms(2) unat_u32_less [of len] by simp
  have r: "recv_bytes (unat len) p (c\<lparr>usb_rx := dat @ k # rest\<rparr>)
      = Returns () (c\<lparr>con_mem := store p dat (con_mem c), usb_rx := k # rest\<rparr>)" for p
    unfolding assms(2) [symmetric] by (subst recv_bytes_all [of _ dat "k # rest"]) simp_all
  note load = load_store_same [OF l, of _ "con_mem c", unfolded assms(2)]
  show ?thesis
    by (simp add: DoExecExt_def assms(1) RecvDword_be32 r RecvByte_Cons SendByte_def load check_received_def Let_def upload_area_def)
qed

lemma usbdc_exec_lemma:
  assumes "usb_rx c = USBDC_FUNC_EXEC_EXT # be32 a @ be32 len @ be32 softres_flags @ dat @ checksum_of dat # rest"
    and "length dat = unat len" and "quiet_reset env (upload_area a c) (unat len)" and "program_area a (unat len)" and "unat a < 0x10000000"
    and "program_area (exec_buffer c) (unat len)" and "unat (exec_buffer c) < 0x10000000"
  shows "\<exists>m. load a (unat len) m = dat \<and> sc_check_usbdc env c =
    (case run_code env a (c\<lparr>con_mem := m, usb_rx := rest, usb_tx := usb_tx c @ [0]\<rparr>) of
       Stays c \<Rightarrow> Some (Stays c) | Returns _ c \<Rightarrow> usbdc_loop env False c)"
proof -
  let ?p = "upload_area a c"
  let ?c = "c\<lparr>con_mem := store ?p dat (con_mem c), usb_rx := rest, usb_tx := usb_tx c @ [0]\<rparr>"
  have l: "length dat \<le> 2 ^ 32" using assms(2) unat_u32_less [of len] by simp
  have p: "program_area ?p (unat len)" "unat ?p < 0x10000000"
    using assms(4-7) by (simp_all add: upload_area_def)
  obtain m0 where m0: "call_soft_reset env softres_flags ?c = ?c\<lparr>con_mem := m0\<rparr>"
    "load ?p (unat len) m0 = load ?p (unat len) (con_mem ?c)" using quiet_call [OF assms(3)] by blast
  let ?d = "\<lambda>m. c\<lparr>con_mem := m, usb_rx := rest, usb_tx := usb_tx c @ [0]\<rparr>"
  obtain m where m: "sc_execute env softres_flags ?p len a (?c\<lparr>con_mem := m0\<rparr>) = run_code env a (?d m)"
    "load a (unat len) m = load ?p (unat len) m0"
  proof -
    have eq: "?c\<lparr>con_mem := m0, con_mem := m\<rparr> = ?d m" for m by simp
    show ?thesis
      using that sc_execute_lemma [OF assms(3) p(1) assms(4,5) p(2), of softres_flags "?c\<lparr>con_mem := m0\<rparr>"] unfolding eq by auto
  qed
  have d: "load a (unat len) m = dat" using m(2) m0(2) load_store_same [OF l, of ?p "con_mem c"] by (simp add: assms(2))
  have "DoExecExt env (c\<lparr>usb_rx := be32 a @ be32 len @ be32 softres_flags @ dat @ checksum_of dat # rest\<rparr>)
      = sc_execute env softres_flags ?p len a (?c\<lparr>con_mem := m0\<rparr>)"
    using m0(1) by (subst DoExecExt_lemma [OF _ assms(2), where k = "checksum_of dat" and rest = rest and a = a and softres_flags = softres_flags])
      (simp_all add: Let_def)
  then have "usbdc_command env USBDC_FUNC_EXEC_EXT True (c\<lparr>usb_rx := be32 a @ be32 len @ be32 softres_flags @ dat @ checksum_of dat # rest\<rparr>)
      = and_then (run_code env a (?d m)) (\<lambda>_. Returns False)"
    using m(1) by (simp add: usbdc_command_def)
  then show ?thesis
    using d by (intro exI [of _ m]) (cases "run_code env a (?d m)"; simp add: sc_check_usbdc_command [OF assms(1)])
qed

end
