(* ===== verification/XferPc.thy ===== *)
theory XferPc
  imports ScUsbdc
begin

section \<open>The PC side of the USB link\<close>

text \<open>
  Models the CRC of \<open>src/crc.cpp\<close> and the transfers of \<open>src/xfer.cpp\<close> with the server of the console:
  upload, download and execution. The USB chip is driven by the library \<open>libftdi\<close>, a parameter:
  \<open>write_data\<close> and \<open>read_data\<close> are its functions on a state of any type, with its return values (negative
  for an error, otherwise the number of bytes), and \<open>interrupted\<close> is the flag that the user's break
  sets. Messages and the measurement of the time are left out.
\<close>

record 'd ftdi =
  write_data :: "byte list \<Rightarrow> 'd \<Rightarrow> int \<times> 'd"
  read_data :: "nat \<Rightarrow> 'd \<Rightarrow> int \<times> byte list \<times> 'd"
  interrupted :: "'d \<Rightarrow> bool"

text \<open>A file of the PC: its size, if it can be found, whether it can be opened, the bytes that reading it
  gives, and whether reading ends with an error.\<close>

record host_file =
  hf_size :: "nat option"
  hf_opens :: bool
  hf_contents :: "byte list"
  hf_error :: bool

abbreviation USB_READPACKET_SIZE :: nat where "USB_READPACKET_SIZE \<equiv> 65536"

subsection \<open>Checksum\<close>

definition crc_table :: "byte list" where
  "crc_table = [
   0x00, 0x07, 0x0e, 0x09, 0x1c, 0x1b, 0x12, 0x15, 0x38, 0x3f, 0x36, 0x31, 0x24, 0x23, 0x2a, 0x2d,
   0x70, 0x77, 0x7e, 0x79, 0x6c, 0x6b, 0x62, 0x65, 0x48, 0x4f, 0x46, 0x41, 0x54, 0x53, 0x5a, 0x5d,
   0xe0, 0xe7, 0xee, 0xe9, 0xfc, 0xfb, 0xf2, 0xf5, 0xd8, 0xdf, 0xd6, 0xd1, 0xc4, 0xc3, 0xca, 0xcd,
   0x90, 0x97, 0x9e, 0x99, 0x8c, 0x8b, 0x82, 0x85, 0xa8, 0xaf, 0xa6, 0xa1, 0xb4, 0xb3, 0xba, 0xbd,
   0xc7, 0xc0, 0xc9, 0xce, 0xdb, 0xdc, 0xd5, 0xd2, 0xff, 0xf8, 0xf1, 0xf6, 0xe3, 0xe4, 0xed, 0xea,
   0xb7, 0xb0, 0xb9, 0xbe, 0xab, 0xac, 0xa5, 0xa2, 0x8f, 0x88, 0x81, 0x86, 0x93, 0x94, 0x9d, 0x9a,
   0x27, 0x20, 0x29, 0x2e, 0x3b, 0x3c, 0x35, 0x32, 0x1f, 0x18, 0x11, 0x16, 0x03, 0x04, 0x0d, 0x0a,
   0x57, 0x50, 0x59, 0x5e, 0x4b, 0x4c, 0x45, 0x42, 0x6f, 0x68, 0x61, 0x66, 0x73, 0x74, 0x7d, 0x7a,
   0x89, 0x8e, 0x87, 0x80, 0x95, 0x92, 0x9b, 0x9c, 0xb1, 0xb6, 0xbf, 0xb8, 0xad, 0xaa, 0xa3, 0xa4,
   0xf9, 0xfe, 0xf7, 0xf0, 0xe5, 0xe2, 0xeb, 0xec, 0xc1, 0xc6, 0xcf, 0xc8, 0xdd, 0xda, 0xd3, 0xd4,
   0x69, 0x6e, 0x67, 0x60, 0x75, 0x72, 0x7b, 0x7c, 0x51, 0x56, 0x5f, 0x58, 0x4d, 0x4a, 0x43, 0x44,
   0x19, 0x1e, 0x17, 0x10, 0x05, 0x02, 0x0b, 0x0c, 0x21, 0x26, 0x2f, 0x28, 0x3d, 0x3a, 0x33, 0x34,
   0x4e, 0x49, 0x40, 0x47, 0x52, 0x55, 0x5c, 0x5b, 0x76, 0x71, 0x78, 0x7f, 0x6a, 0x6d, 0x64, 0x63,
   0x3e, 0x39, 0x30, 0x37, 0x22, 0x25, 0x2c, 0x2b, 0x06, 0x01, 0x08, 0x0f, 0x1a, 0x1d, 0x14, 0x13,
   0xae, 0xa9, 0xa0, 0xa7, 0xb2, 0xb5, 0xbc, 0xbb, 0x96, 0x91, 0x98, 0x9f, 0x8a, 0x8d, 0x84, 0x83,
   0xde, 0xd9, 0xd0, 0xd7, 0xc2, 0xc5, 0xcc, 0xcb, 0xe6, 0xe1, 0xe8, 0xef, 0xfa, 0xfd, 0xf4, 0xf3]"

fun crc_update :: "byte \<Rightarrow> byte list \<Rightarrow> byte" where
  "crc_update crc [] = crc AND 0xff"
| "crc_update crc (d # ds) =
     (let tbl_idx = (drop_bit 0 (ucast crc :: u32) XOR ucast d) AND 0xff
      in crc_update (ucast ((ucast (crc_table ! unat tbl_idx) XOR push_bit 8 (ucast crc :: u32)) AND 0xff)) ds)"

subsection \<open>Sending\<close>

definition SendCommandWithAddressAndLength :: "'d ftdi \<Rightarrow> byte \<Rightarrow> u32 \<Rightarrow> u32 \<Rightarrow> 'd \<Rightarrow> int \<times> 'd" where
  "SendCommandWithAddressAndLength dev cmd address sz d =
     write_data dev (cmd # be32 address @ be32 sz @ (if USBDC_FUNC_EXEC_EXT = cmd then [0, 0, 0, 0] else [])) d"

text \<open>The function that \<open>DoUpload\<close> gives to \<open>StreamAndCrc\<close>: it goes on until all is sent or the user
  interrupts it.\<close>

partial_function (option) send_loop :: "'d ftdi \<Rightarrow> byte list \<Rightarrow> nat \<Rightarrow> 'd \<Rightarrow> (bool \<times> 'd) option" where
  "send_loop dev dat sent d =
     (if sent < length dat \<and> \<not> interrupted dev d
      then (case write_data dev (drop sent dat) d of (write_status, d) \<Rightarrow>
        if write_status < 0 then Some (False, d) else send_loop dev dat (sent + nat write_status) d)
      else Some (True, d))"

text \<open>A file is sent in parts of the size of the buffer; the function that sends one part is an argument.\<close>

partial_function (option) stream_loop :: "(byte list \<Rightarrow> 'd \<Rightarrow> (bool \<times> 'd) option) \<Rightarrow> byte list \<Rightarrow> byte \<Rightarrow> 'd \<Rightarrow> (bool \<times> byte \<times> 'd) option" where
  "stream_loop write_func contents checksum d =
     (if contents = [] then Some (True, checksum, d)
      else Option.bind (write_func (take USB_READPACKET_SIZE contents) d) (\<lambda>(ok, d).
        if \<not> ok then Some (False, checksum, d)
        else stream_loop write_func (drop USB_READPACKET_SIZE contents) (crc_update checksum (take USB_READPACKET_SIZE contents)) d))"

definition StreamAndCrc :: "(byte list \<Rightarrow> 'd \<Rightarrow> (bool \<times> 'd) option) \<Rightarrow> host_file \<Rightarrow> 'd \<Rightarrow> (bool \<times> byte \<times> 'd) option" where
  "StreamAndCrc write_func f d = do {
     (ok, checksum, d) \<leftarrow> stream_loop write_func (hf_contents f) 0 d;
     Some (ok \<and> \<not> hf_error f, checksum, d) }"

text \<open>The loop that waits for one byte, or for the user.\<close>

partial_function (option) wait_byte :: "'d ftdi \<Rightarrow> 'd \<Rightarrow> (int \<times> byte list \<times> 'd) option" where
  "wait_byte dev d =
     (case read_data dev 1 d of (status, bs, d) \<Rightarrow>
        if status = 0 \<and> \<not> interrupted dev d then wait_byte dev d else Some (status, bs, d))"

subsection \<open>Transfers\<close>

text \<open>The result is 1 for a success and 0 for a failure. \<open>recv0\<close> is what the first byte of the buffer
  \<open>RecvBuf\<close> holds before.\<close>

definition xfer_DoUpload :: "'d ftdi \<Rightarrow> byte \<Rightarrow> host_file \<Rightarrow> u32 \<Rightarrow> bool \<Rightarrow> 'd \<Rightarrow> (int \<times> 'd) option" where
  "xfer_DoUpload dev recv0 f address execute d =
     (case hf_size f of
        None \<Rightarrow> Some (0, d)
      | Some n \<Rightarrow>
          if n = 0 \<or> n > 0xFFFFFFFF \<or> \<not> hf_opens f then Some (0, d)
          else let (status, d) = SendCommandWithAddressAndLength dev (if execute then USBDC_FUNC_EXEC_EXT else USBDC_FUNC_UPLOAD)
                     address (word_of_nat n) d
            in if status < 0 then Some (0, d)
               else do {
                 (ok, checksum, d) \<leftarrow> StreamAndCrc (\<lambda>dat. send_loop dev dat 0) f d;
                 if \<not> ok then Some (0, d)
                 else let (status, d) = write_data dev [checksum] d
                   in if status < 0 then Some (0, d)
                      else do {
                        (status, bs, d) \<leftarrow> wait_byte dev d;
                        if status < 0 then Some (0, d)
                        else if (if status = 0 then recv0 else hd bs) \<noteq> 0 then Some (0, d)
                        else Some (1, d) } })"

definition xfer_DoExecute :: "'d ftdi \<Rightarrow> byte \<Rightarrow> host_file \<Rightarrow> u32 \<Rightarrow> 'd \<Rightarrow> (int \<times> 'd) option" where
  "xfer_DoExecute dev recv0 f address d = do {
     (r, d) \<leftarrow> xfer_DoUpload dev recv0 f address True d;
     Some (if r \<noteq> 0 then 1 else 0, d) }"

definition xfer_DoRun :: "'d ftdi \<Rightarrow> u32 \<Rightarrow> 'd \<Rightarrow> int \<times> 'd" where
  "xfer_DoRun dev address d =
     (let (status, d) = write_data dev (USBDC_FUNC_EXEC # be32 address) d in if status < 0 then (0, d) else (1, d))"

text \<open>The loop of \<open>DoDownload\<close>. \<open>room\<close> is the space for the output file; a write that does not fit fails.\<close>

partial_function (option) download_loop :: "'d ftdi \<Rightarrow> nat \<Rightarrow> nat \<Rightarrow> nat \<Rightarrow> byte \<Rightarrow> byte list \<Rightarrow> 'd \<Rightarrow> (bool \<times> byte \<times> byte list \<times> 'd) option" where
  "download_loop dev sz room received calcChecksum out d =
     (if received \<noteq> sz \<and> \<not> interrupted dev d
      then (case read_data dev (min USB_READPACKET_SIZE (sz - received)) d of (status, bs, d) \<Rightarrow>
        if status < 0 then Some (False, calcChecksum, out, d)
        else if status = 0 then download_loop dev sz room received calcChecksum out d
        else let bs = take (nat status) bs
          in if length out + length bs > room then Some (False, calcChecksum, out, d)
             else download_loop dev sz room (received + nat status) (crc_update calcChecksum bs) (out @ bs) d)
      else Some (True, calcChecksum, out, d))"

text \<open>The output file is given back; \<open>room\<close> is \<open>None\<close> when it cannot be created.\<close>

definition xfer_DoDownload :: "'d ftdi \<Rightarrow> nat option \<Rightarrow> u32 \<Rightarrow> nat \<Rightarrow> 'd \<Rightarrow> (int \<times> byte list \<times> 'd) option" where
  "xfer_DoDownload dev room address sz d =
     (case room of
        None \<Rightarrow> Some (0, [], d)
      | Some room \<Rightarrow>
          let (status, d) = SendCommandWithAddressAndLength dev USBDC_FUNC_DOWNLOAD address (word_of_nat sz) d
          in if status < 0 then Some (0, [], d)
             else do {
               (ok, calcChecksum, out, d) \<leftarrow> download_loop dev sz room 0 0 [] d;
               if \<not> ok then Some (0, out, d)
               else do {
                 (status, bs, d) \<leftarrow> wait_byte dev d;
                 if status < 0 then Some (0, out, d)
                 else Some (if (if status = 0 then 0 else hd bs) \<noteq> calcChecksum then 0 else 1, out, d) } })"

definition xfer_DoBiosDump :: "'d ftdi \<Rightarrow> nat option \<Rightarrow> 'd \<Rightarrow> (int \<times> byte list \<times> 'd) option" where
  "xfer_DoBiosDump dev room d = xfer_DoDownload dev room 0x00000000 524288 d"

subsection \<open>The two checksums agree\<close>

lemma crc_table_usbdc: "crc_table = crc_usbdc_table"
  unfolding crc_table_def crc_usbdc_table_def by (rule refl)

lemma crc_update_usbdc: "crc_update crc dat = crc_usbdc_update crc dat"
  by (induction dat arbitrary: crc) (simp_all only: crc_update.simps crc_usbdc_update.simps crc_table_usbdc)

lemma checksum_of_crc: "checksum_of dat = crc_update 0 dat"
  by (simp add: checksum_of_def crc_update_usbdc crc_usbdc_init_def crc_usbdc_finalize_def)

lemma crc_update_append: "crc_update c (a @ b) = crc_update (crc_update c a) b"
  by (simp only: crc_update_usbdc crc_usbdc_append)

end
