(* ===== verification/UsbLink.thy ===== *)
theory UsbLink
  imports XferPc
begin

section \<open>The PC and the console on one link\<close>

text \<open>
  What the transfers of the PC rely on: a link that keeps the order of the bytes. \<open>sent d\<close> is what it
  has accepted from the PC and \<open>taken d\<close> how many bytes of the answer the PC has read; \<open>answer s\<close> is
  all that the other side sends when it is sent \<open>s\<close>. A write accepts any part of the data, and all of it
  up to the size of a packet; a read gives any part of what is due. The link may do nothing for a while
  (\<open>stall\<close>), but not for good, and the user does not interrupt.
\<close>

locale usb_link =
  fixes dev :: "'d ftdi" and sent :: "'d \<Rightarrow> byte list" and taken :: "'d \<Rightarrow> nat" and stall :: "'d \<Rightarrow> nat"
    and answer :: "byte list \<Rightarrow> byte list"
  assumes quiet: "\<not> interrupted dev d"
    and writes: "\<exists>n d'. write_data dev bs d = (int n, d') \<and> n \<le> length bs \<and> (length bs \<le> 64 \<longrightarrow> n = length bs)
      \<and> sent d' = sent d @ take n bs \<and> taken d' = taken d \<and> (n = 0 \<longrightarrow> bs \<noteq> [] \<longrightarrow> stall d' < stall d)"
    and reads: "\<exists>k d'. read_data dev n d = (int k, take k (drop (taken d) (answer (sent d))), d')
      \<and> k \<le> n \<and> k \<le> length (answer (sent d)) - taken d \<and> sent d' = sent d \<and> taken d' = taken d + k
      \<and> (k = 0 \<longrightarrow> n \<noteq> 0 \<longrightarrow> taken d < length (answer (sent d)) \<longrightarrow> stall d' < stall d)"
begin

lemma send_loop_all:
  "i \<le> length dat \<Longrightarrow> \<exists>d'. send_loop dev dat i d = Some (True, d') \<and> sent d' = sent d @ drop i dat \<and> taken d' = taken d"
proof (induction "(length dat - i, stall d)" arbitrary: i d rule: wf_induct_rule [OF wf_lex_prod [OF wf_less_than wf_less_than]])
  case 1
  show ?case
  proof (cases "i = length dat")
    case True
    then show ?thesis by (subst send_loop.simps) simp
  next
    case False
    then have i: "i < length dat" "drop i dat \<noteq> []" using 1(2) by simp_all
    obtain n d1 where w: "write_data dev (drop i dat) d = (int n, d1)" "n \<le> length (drop i dat)"
      "sent d1 = sent d @ take n (drop i dat)" "taken d1 = taken d" "n = 0 \<longrightarrow> stall d1 < stall d"
      using writes [of "drop i dat" d] i(2) by blast
    have "i + n \<le> length dat" using w(2) i(1) by simp
    moreover have "((length dat - (i + n), stall d1), (length dat - i, stall d)) \<in> less_than <*lex*> less_than"
      using w(2,5) i(1) by auto
    ultimately obtain d' where d': "send_loop dev dat (i + n) d1 = Some (True, d')" "sent d' = sent d1 @ drop (i + n) dat" "taken d' = taken d1"
      using 1(1) by blast
    have "send_loop dev dat i d = send_loop dev dat (i + n) d1"
      using i(1) quiet w(1) by (subst send_loop.simps) simp
    moreover have "sent d' = sent d @ drop i dat"
      by (simp add: d'(2) w(3) add.commute [of i] flip: drop_drop)
    ultimately show ?thesis using d'(1,3) w(4) by simp
  qed
qed

lemma stream_loop_all:
  assumes w: "\<And>dat d. P d \<Longrightarrow> \<exists>d'. w dat d = Some (True, d') \<and> P d' \<and> sent d' = sent d @ dat \<and> taken d' = taken d"
  shows "P d \<Longrightarrow> \<exists>d'. stream_loop w dat c d = Some (True, (if dat = [] then c else crc_update c dat), d')
    \<and> P d' \<and> sent d' = sent d @ dat \<and> taken d' = taken d"
proof (induction "length dat" arbitrary: dat c d rule: less_induct)
  case less
  show ?case
  proof (cases "dat = []")
    case True
    then show ?thesis using less(2) by (subst stream_loop.simps) simp
  next
    case False
    let ?a = "take USB_READPACKET_SIZE dat" and ?b = "drop USB_READPACKET_SIZE dat"
    obtain d1 where s: "w ?a d = Some (True, d1)" "P d1" "sent d1 = sent d @ ?a" "taken d1 = taken d"
      using w [OF less(2), of ?a] by auto
    have "length ?b < length dat" using False by (cases dat) simp_all
    from less(1) [OF this s(2)] obtain d2 where t: "stream_loop w ?b (crc_update c ?a) d1
        = Some (True, (if ?b = [] then crc_update c ?a else crc_update (crc_update c ?a) ?b), d2)"
      "P d2" "sent d2 = sent d1 @ ?b" "taken d2 = taken d1"
      by meson
    have "crc_update (crc_update c ?a) ?b = crc_update c dat" by (simp flip: crc_update_append)
    moreover have "crc_update c ?a = crc_update c dat" if "?b = []" using that by simp
    moreover have "stream_loop w dat c d = stream_loop w ?b (crc_update c ?a) d1"
      using False s(1) by (subst stream_loop.simps) simp
    ultimately show ?thesis using False t s(3,4) by auto
  qed
qed

lemma wait_byte_due:
  "taken d < length (answer (sent d)) \<Longrightarrow>
    \<exists>d'. wait_byte dev d = Some (1, [answer (sent d) ! taken d], d') \<and> sent d' = sent d \<and> taken d' = Suc (taken d)"
proof (induction "stall d" arbitrary: d rule: less_induct)
  case less
  obtain k d1 where r: "read_data dev 1 d = (int k, take k (drop (taken d) (answer (sent d))), d1)" "k \<le> 1"
    "sent d1 = sent d" "taken d1 = taken d + k" "k = 0 \<longrightarrow> stall d1 < stall d"
    using reads [of 1 d] less(2) by auto
  show ?case
  proof (cases k)
    case 0
    then have "\<exists>d'. wait_byte dev d1 = Some (1, [answer (sent d1) ! taken d1], d') \<and> sent d' = sent d1 \<and> taken d' = Suc (taken d1)"
      using less(1) [of d1] less(2) r(3-5) by simp
    moreover have "wait_byte dev d = wait_byte dev d1" using r(1) 0 quiet by (subst wait_byte.simps) simp
    ultimately show ?thesis using r(3,4) 0 by simp
  next
    case (Suc j)
    then have "k = 1" using r(2) by simp
    then show ?thesis
      using r less(2) by (subst wait_byte.simps) (simp add: take_Suc_conv_app_nth hd_drop_conv_nth take_Suc)
  qed
qed

lemma download_loop_all:
  assumes "sz < length (answer (sent d))" "sz \<le> room" "taken d = length out" "length out \<le> sz" "out = take (taken d) (answer (sent d))"
    and "c = crc_update 0 out"
  shows "\<exists>d'. download_loop dev sz room (length out) c out d
      = Some (True, crc_update 0 (take sz (answer (sent d))), take sz (answer (sent d)), d')
    \<and> sent d' = sent d \<and> taken d' = sz"
  using assms
proof (induction "(sz - length out, stall d)" arbitrary: out c d rule: wf_induct_rule [OF wf_lex_prod [OF wf_less_than wf_less_than]])
  case 1
  let ?A = "answer (sent d)"
  show ?case
  proof (cases "length out = sz")
    case True
    have o: "out = take sz ?A" unfolding True [symmetric] 1(4) [symmetric] by (rule 1(6))
    have "download_loop dev sz room (length out) c out d = Some (True, c, out, d)"
      by (subst download_loop.simps) (simp only: True simp_thms if_False)
    moreover have "taken d = sz" using 1(4) True by (rule trans)
    ultimately show ?thesis unfolding 1(7) o [symmetric] by blast
  next
    case False
    obtain n where nd: "n = min USB_READPACKET_SIZE (sz - length out)" by blast
    have "0 < sz - length out" using False 1(5) by simp
    then have "0 < n" "n \<le> sz - length out" unfolding nd by (simp_all only: min_less_iff_conj min.cobounded2 zero_less_numeral)
    then have n: "n = min USB_READPACKET_SIZE (sz - length out)" "n \<noteq> 0" "n \<le> sz - length out" using nd by blast+
    have due: "taken d < length ?A" using False 1(2,4,5) by simp
    obtain k d1 where r: "read_data dev n d = (int k, take k (drop (taken d) ?A), d1)" "k \<le> n" "k \<le> length ?A - taken d"
      "sent d1 = sent d" "taken d1 = taken d + k" "k = 0 \<longrightarrow> stall d1 < stall d"
      using reads [of n d] n(2) due by blast
    obtain bs where bs: "bs = take k (drop (taken d) ?A)" "length bs = k" "take k bs = bs" using r(3) by simp
    have len: "length out + k \<le> sz" using r(2) n(3) 1(5) by simp
    have app: "out @ bs = take (taken d1) ?A" using 1(6) r(5) by (simp add: take_add bs(1))
    have step: "download_loop dev sz room (length out) c out d
        = (if k = 0 then download_loop dev sz room (length out) c out d1
           else download_loop dev sz room (length out + k) (crc_update c bs) (out @ bs) d1)"
      using False quiet r(1) len 1(3) bs(2,3) by (subst download_loop.simps) (simp flip: n(1) bs(1))
    show ?thesis
    proof (cases "k = 0")
      case True
      have "\<exists>d'. download_loop dev sz room (length out) c out d1 = Some (True, crc_update 0 (take sz (answer (sent d1))), take sz (answer (sent d1)), d')
          \<and> sent d' = sent d1 \<and> taken d' = sz"
        by (rule 1(1)) (use True 1(2-7) r(4-6) in simp_all)
      then show ?thesis using step True r(4) by simp
    next
      case k: False
      have "\<exists>d'. download_loop dev sz room (length (out @ bs)) (crc_update c bs) (out @ bs) d1
          = Some (True, crc_update 0 (take sz (answer (sent d1))), take sz (answer (sent d1)), d') \<and> sent d' = sent d1 \<and> taken d' = sz"
      proof (rule 1(1))
        have "sz - length (out @ bs) < sz - length out" using k len bs(2) by simp
        then show "((sz - length (out @ bs), stall d1), sz - length out, stall d) \<in> less_than <*lex*> less_than" by simp
        show "crc_update c bs = crc_update 0 (out @ bs)" unfolding 1(7) by (rule crc_update_append [symmetric])
      qed (use 1(2-4) r(4,5) bs(2) len app in simp_all)
      then show ?thesis using step k r(4) bs(2) by simp
    qed
  qed
qed

lemma command_sent_whole:
  "\<exists>n d'. SendCommandWithAddressAndLength dev cmd a sz d = (int n, d') \<and> taken d' = taken d
    \<and> sent d' = sent d @ cmd # be32 a @ be32 sz @ (if cmd = USBDC_FUNC_EXEC_EXT then be32 0 else [])"
proof -
  have "[0, 0, 0, 0] = be32 0" by (simp add: be32_def)
  then show ?thesis
    using writes [of "cmd # be32 a @ be32 sz @ (if USBDC_FUNC_EXEC_EXT = cmd then [0, 0, 0, 0] else [])" d]
    unfolding SendCommandWithAddressAndLength_def by (auto split: if_splits)
qed

text \<open>An upload succeeds when the other side answers with one null byte to all that is sent.\<close>

lemma upload_all:
  assumes "hf_size f = Some (length (hf_contents f))" "hf_opens f" "\<not> hf_error f" "hf_contents f \<noteq> []"
    and "length (hf_contents f) < 2 ^ 32" "sent d = []" "taken d = 0"
    and s: "s = (if execute then USBDC_FUNC_EXEC_EXT else USBDC_FUNC_UPLOAD) # be32 a @ be32 (word_of_nat (length (hf_contents f)))
      @ (if execute then be32 0 else []) @ hf_contents f @ [checksum_of (hf_contents f)]"
    and "answer s \<noteq> []" "hd (answer s) = 0"
  shows "\<exists>d'. xfer_DoUpload dev old f a execute d = Some (1, d') \<and> sent d' = s"
proof -
  let ?cmd = "if execute then USBDC_FUNC_EXEC_EXT else USBDC_FUNC_UPLOAD" and ?n = "length (hf_contents f)"
  obtain n d1 where c: "SendCommandWithAddressAndLength dev ?cmd a (word_of_nat ?n) d = (int n, d1)" "taken d1 = 0"
    "sent d1 = ?cmd # be32 a @ be32 (word_of_nat ?n) @ (if execute then be32 0 else [])"
    using command_sent_whole [of ?cmd a "word_of_nat ?n" d] assms(6,7) by (auto split: if_splits)
  have w: "\<exists>d'. send_loop dev dat 0 d = Some (True, d') \<and> True \<and> sent d' = sent d @ dat \<and> taken d' = taken d" for dat d
    using send_loop_all [of 0 dat d] by simp
  obtain d2 where t: "StreamAndCrc (\<lambda>dat. send_loop dev dat 0) f d1 = Some (True, checksum_of (hf_contents f), d2)" "taken d2 = 0"
    "sent d2 = sent d1 @ hf_contents f"
    using stream_loop_all [of "\<lambda>_. True" "\<lambda>dat. send_loop dev dat 0", OF w, where d = d1 and dat = "hf_contents f" and c = 0] assms(3,4) c(2)
    by (auto simp: StreamAndCrc_def checksum_of_crc)
  obtain m d3 where w: "write_data dev [checksum_of (hf_contents f)] d2 = (int m, d3)" "taken d3 = 0" "sent d3 = s"
    using writes [of "[checksum_of (hf_contents f)]" d2] t(2,3) c(3) s by auto
  obtain d4 where a: "wait_byte dev d3 = Some (1, [answer s ! 0], d4)" "sent d4 = s"
    using wait_byte_due [of d3] w(2,3) assms(9) by auto
  have z: "answer s ! 0 = 0" using assms(9,10) by (simp add: hd_conv_nth)
  have "?n \<noteq> 0" "\<not> 0xFFFFFFFF < ?n" using assms(4,5) by simp_all
  then show ?thesis
    using c(1) t(1) w(1) a z by (simp add: xfer_DoUpload_def assms(1,2))
qed

end

subsection \<open>The console behind the link\<close>

text \<open>All that the console, in the state \<open>c\<close>, sends when its server gets the bytes \<open>s\<close>.\<close>

definition usbdc_answer :: "console_env \<Rightarrow> console \<Rightarrow> byte list \<Rightarrow> byte list" where
  "usbdc_answer env c s = (case sc_check_usbdc env (c\<lparr>usb_rx := s\<rparr>) of None \<Rightarrow> [] | Some r \<Rightarrow> usb_tx (last_state r))"

text \<open>
  A link as the witnesses use it: packets of 64 bytes, and before every answer that is not empty the
  PC reads nothing once.
\<close>

record cable =
  cb_sent :: "byte list"
  cb_taken :: nat
  cb_wait :: nat

definition cable_ftdi :: "(byte list \<Rightarrow> byte list) \<Rightarrow> cable ftdi" where
  "cable_ftdi answer = \<lparr>
     write_data = \<lambda>bs d. (int (min 64 (length bs)), d\<lparr>cb_sent := cb_sent d @ take 64 bs\<rparr>),
     read_data = \<lambda>n d. (let due = take (min n 62) (drop (cb_taken d) (answer (cb_sent d)))
        in if cb_wait d > 0 then (0, [], d\<lparr>cb_wait := cb_wait d - 1\<rparr>)
           else (int (length due), due, d\<lparr>cb_taken := cb_taken d + length due, cb_wait := 1\<rparr>)),
     interrupted = \<lambda>_. False\<rparr>"

lemma cable_link: "usb_link (cable_ftdi answer) cb_sent cb_taken cb_wait answer"
proof unfold_locales
  fix d and n :: nat and bs
  show "\<not> interrupted (cable_ftdi answer) d" by (simp add: cable_ftdi_def)
  show "\<exists>n d'. write_data (cable_ftdi answer) bs d = (int n, d') \<and> n \<le> length bs
      \<and> (length bs \<le> 64 \<longrightarrow> n = length bs) \<and> cb_sent d' = cb_sent d @ take n bs \<and> cb_taken d' = cb_taken d
      \<and> (n = 0 \<longrightarrow> bs \<noteq> [] \<longrightarrow> cb_wait d' < cb_wait d)"
    by (intro exI [of _ "min 64 (length bs)"]) (simp add: cable_ftdi_def min_def)
  let ?A = "answer (cb_sent d)"
  let ?k = "if cb_wait d > 0 then 0 else min (min n 62) (length ?A - cb_taken d)"
  show "\<exists>k d'. read_data (cable_ftdi answer) n d = (int k, take k (drop (cb_taken d) ?A), d') \<and> k \<le> n
      \<and> k \<le> length ?A - cb_taken d \<and> cb_sent d' = cb_sent d \<and> cb_taken d' = cb_taken d + k
      \<and> (k = 0 \<longrightarrow> n \<noteq> 0 \<longrightarrow> cb_taken d < length ?A \<longrightarrow> cb_wait d' < cb_wait d)"
    by (intro exI [of _ ?k]) (auto simp: cable_ftdi_def Let_def min_def)
qed

interpretation cable: usb_link "cable_ftdi (usbdc_answer env c)" cb_sent cb_taken cb_wait "usbdc_answer env c" for env c
  by (rule cable_link)

text \<open>
  C8: over a link that keeps the order of the bytes, an upload of a file that is not empty and has fewer
  than \<open>2 ^ 32\<close> bytes succeeds, and then the bytes of the file are in the memory of the console and no
  other byte of it has changed: the PC and the console agree on the command, its fields, the data and the checksum.
  The bytes are at the address, with the exception that the code makes for files of two and of four bytes:
  these go to the aligned address at or below it, and through the buffer for short accesses, which is
  then changed as well.
\<close>

theorem usb_upload_correct:
  assumes "usb_link dev sent taken stall (usbdc_answer env c)" and "sent d = []" and "taken d = 0" and "usb_tx c = []"
    and "hf_size f = Some (length (hf_contents f))" and "hf_opens f" and "\<not> hf_error f" and "hf_contents f \<noteq> []"
    and "length (hf_contents f) < 2 ^ 32"
  shows "\<exists>d' m. xfer_DoUpload dev old f a False d = Some (1, d')
    \<and> sc_check_usbdc env (c\<lparr>usb_rx := sent d'\<rparr>) = Some (Returns () (c\<lparr>con_mem := m, usb_rx := [], usb_tx := [0]\<rparr>))
    \<and> load (block_start a (length (hf_contents f))) (length (hf_contents f)) m = hf_contents f
    \<and> (\<forall>x. \<not> within (block_start a (length (hf_contents f))) (length (hf_contents f)) x
        \<and> (length (hf_contents f) \<in> {2, 4} \<longrightarrow> \<not> within (rw4_buffer c) (length (hf_contents f)) x) \<longrightarrow> m x = con_mem c x)"
proof -
  let ?dat = "hf_contents f" and ?m = "uploaded a (hf_contents f) c"
  let ?s = "USBDC_FUNC_UPLOAD # be32 a @ be32 (word_of_nat (length ?dat)) @ ?dat @ checksum_of ?dat # []"
  have n: "length ?dat = unat (word_of_nat (length ?dat) :: u32)" using assms(9) by simp
  have run: "sc_check_usbdc env (c\<lparr>usb_rx := ?s\<rparr>)
      = Some (Returns () (c\<lparr>con_mem := uploaded a ?dat c, usb_rx := [], usb_tx := [0]\<rparr>))"
    using usbdc_upload_lemma [of "c\<lparr>usb_rx := ?s\<rparr>" a "word_of_nat (length ?dat)" ?dat "checksum_of ?dat" "[]" env, OF _ n] assms(4)
    by (simp add: uploaded_def)
  then have "usbdc_answer env c ?s = [0]" by (simp add: usbdc_answer_def)
  then obtain d' where "xfer_DoUpload dev old f a False d = Some (1, d')" "sent d' = ?s"
    using usb_link.upload_all [OF assms(1,5-9,2,3), of ?s False a old] by auto
  moreover have "\<forall>x. \<not> within (block_start a (length ?dat)) (length ?dat) x
      \<and> (length ?dat \<in> {2, 4} \<longrightarrow> \<not> within (rw4_buffer c) (length ?dat) x) \<longrightarrow> ?m x = con_mem c x"
    using uploaded_block(2) [OF assms(9)] by blast
  ultimately show ?thesis
    using run uploaded_block(1) [OF assms(9), of a c] by (intro exI [of _ d'] exI [of _ ?m]) simp
qed

definition sample_console :: console where
  "sample_console = \<lparr>con_mem = (\<lambda>x. ucast x), usb_rx = [], usb_tx = [], exec_buffer = 0x00200000, rw4_buffer = 0x06010000\<rparr>"

definition sample_console_env :: console_env where
  "sample_console_env = \<lparr>soft_reset = Some (\<lambda>_ c. c\<lparr>con_mem := (con_mem c)(0x05C00000 := 0)\<rparr>), run_code = \<lambda>a c. Stays (c\<lparr>usb_tx := usb_tx c @ [0x55]\<rparr>)\<rparr>"

definition sample_upload :: host_file where
  "sample_upload = \<lparr>hf_size = Some 3, hf_opens = True, hf_contents = [7, 8, 9], hf_error = False\<rparr>"

definition new_cable :: cable where
  "new_cable = \<lparr>cb_sent = [], cb_taken = 0, cb_wait = 2\<rparr>"

theorem usb_upload_correct_witness:
  "\<exists>d' m. xfer_DoUpload (cable_ftdi (usbdc_answer sample_console_env sample_console)) 9 sample_upload 0x06004000 False new_cable = Some (1, d')
    \<and> sc_check_usbdc sample_console_env (sample_console\<lparr>usb_rx := cb_sent d'\<rparr>)
      = Some (Returns () (sample_console\<lparr>con_mem := m, usb_rx := [], usb_tx := [0]\<rparr>))
    \<and> load 0x06004000 3 m = [7, 8, 9]"
  using usb_upload_correct [OF cable.usb_link_axioms [of sample_console_env sample_console], where d = new_cable and f = sample_upload and old = 9
      and a = "0x06004000"]
  by (auto simp: new_cable_def sample_console_def sample_upload_def block_start_def numeral_3_eq_3)

text \<open>
  C9: over such a link a download of fewer than \<open>2 ^ 32\<close> bytes, for which the PC has room, succeeds and
  writes to the file the bytes of the console's memory at the address, as they are when the command comes, with the exceptions
  that the code makes: two and four bytes are read from the aligned address at or below it, and sixteen
  bytes at the address of the firmware version are the version of the firmware and not the memory.
\<close>

theorem usb_download_correct:
  assumes "usb_link dev sent taken stall (usbdc_answer env c)" and "sent d = []" and "taken d = 0" and "usb_tx c = []"
    and "sz < 2 ^ 32" and "sz \<le> room"
  shows "\<exists>dat d'. xfer_DoDownload dev (Some room) a sz d = Some (1, dat, d')
    \<and> dat = (if a AND 0x0FFFFFFF = 0x007FFFF0 \<and> sz = 16 then usbdc_version_dat else load (block_start a sz) sz (con_mem c))"
proof -
  let ?w = "word_of_nat sz :: u32" and ?D = "downloaded a sz c"
  let ?s = "USBDC_FUNC_DOWNLOAD # be32 a @ be32 ?w @ []"
  have n: "unat ?w = sz" using assms(5) by simp
  have e: "downloaded a sz (c\<lparr>usb_rx := ?s\<rparr>) = ?D" by (simp add: downloaded_def)
  obtain m where "sc_check_usbdc env (c\<lparr>usb_rx := ?s\<rparr>)
      = Some (Returns () (c\<lparr>con_mem := m, usb_rx := [], usb_tx := ?D @ [checksum_of ?D]\<rparr>))"
    using usbdc_download_lemma [of "c\<lparr>usb_rx := ?s\<rparr>" a ?w "[]" env] assms(4) unfolding n e by auto
  then have "usbdc_answer env c ?s = ?D @ [checksum_of ?D]" by (simp add: usbdc_answer_def)
  moreover obtain k d1 where c: "SendCommandWithAddressAndLength dev USBDC_FUNC_DOWNLOAD a ?w d = (int k, d1)" "taken d1 = 0"
    "sent d1 = ?s"
    using usb_link.command_sent_whole [OF assms(1), of USBDC_FUNC_DOWNLOAD a ?w d] assms(2,3) by auto
  ultimately have ans: "usbdc_answer env c (sent d1) = ?D @ [checksum_of ?D]" by simp
  obtain d2 where t: "download_loop dev sz room 0 0 [] d1 = Some (True, checksum_of ?D, ?D, d2)" "sent d2 = sent d1" "taken d2 = sz"
    using usb_link.download_loop_all [OF assms(1), of sz d1 room "[]" 0] c(2) assms(6)
    by (auto simp: ans checksum_of_crc)
  obtain d3 where "wait_byte dev d2 = Some (1, [checksum_of ?D], d3)"
    using usb_link.wait_byte_due [OF assms(1), of d2] by (auto simp: t(2,3) ans nth_append)
  then have "xfer_DoDownload dev (Some room) a sz d = Some (1, ?D, d3)" using c(1) t(1) by (simp add: xfer_DoDownload_def)
  then show ?thesis by (simp add: downloaded_def)
qed

theorem usb_download_correct_witness:
  "\<exists>d'. xfer_DoDownload (cable_ftdi (usbdc_answer sample_console_env sample_console)) (Some 10) 0x06004001 3 new_cable = Some (1, [1, 2, 3], d')"
proof -
  have "load 0x06004001 3 (con_mem sample_console) = [1, 2, 3]" by (simp add: sample_console_def load_def upt_rec)
  then show ?thesis
    using usb_download_correct [OF cable.usb_link_axioms [of sample_console_env sample_console], where d = new_cable and sz = 3 and room = 10
      and a = "0x06004001"]
    by (simp add: new_cable_def sample_console_def block_start_def)
qed

text \<open>
  C7: over such a link, executing a file that is not empty puts its bytes at the address it runs at and starts it there,
  through the buffer for programs and the copy stub, for a program that does not return and at most sends more bytes; before that
  the PC has been told of the success. This is for a callback for the soft reset that returns, leaves the
  link alone and keeps the bytes received (it may change other memory, like that of the video processors), for
  addresses of the file and of the buffer for programs below 0x10000000, and for both areas apart from the last two
  kilobytes of the low RAM, where the copy stub and the data for the debugger are.
\<close>

theorem usb_execute_correct:
  assumes "usb_link dev sent taken stall (usbdc_answer env c)" and "sent d = []" and "taken d = 0" and "usb_tx c = []"
    and "hf_size f = Some (length (hf_contents f))" and "hf_opens f" and "\<not> hf_error f" and "hf_contents f \<noteq> []"
    and "length (hf_contents f) < 2 ^ 32" and "quiet_reset env (upload_area a c) (length (hf_contents f))"
    and "program_area a (length (hf_contents f))" and "unat a < 0x10000000"
    and "program_area (exec_buffer c) (length (hf_contents f))" and "unat (exec_buffer c) < 0x10000000"
    and "\<And>c. \<exists>c' more. run_code env a c = Stays c' \<and> usb_tx c' = usb_tx c @ more"
  shows "\<exists>d' m c'. xfer_DoExecute dev old f a d = Some (1, d') \<and> load a (length (hf_contents f)) m = hf_contents f
    \<and> run_code env a (c\<lparr>con_mem := m, usb_rx := [], usb_tx := [0]\<rparr>) = Stays c'
    \<and> sc_check_usbdc env (c\<lparr>usb_rx := sent d'\<rparr>) = Some (Stays c')"
proof -
  let ?dat = "hf_contents f" and ?w = "word_of_nat (length (hf_contents f)) :: u32"
  let ?s = "USBDC_FUNC_EXEC_EXT # be32 a @ be32 ?w @ be32 0 @ ?dat @ checksum_of ?dat # []"
  have n: "length ?dat = unat ?w" using assms(9) by simp
  have q: "quiet_reset env (upload_area a (c\<lparr>usb_rx := ?s\<rparr>)) (unat ?w)" using assms(10) n by simp
  obtain m where m: "load a (unat ?w) m = ?dat" "sc_check_usbdc env (c\<lparr>usb_rx := ?s\<rparr>) =
      (case run_code env a (c\<lparr>con_mem := m, usb_rx := [], usb_tx := [0]\<rparr>) of
         Stays c \<Rightarrow> Some (Stays c) | Returns _ c \<Rightarrow> usbdc_loop env False c)"
    using usbdc_exec_lemma [of "c\<lparr>usb_rx := ?s\<rparr>" a ?w 0 ?dat "[]" env, OF _ n q] assms(4,11-14) n by auto
  obtain c' more where c': "run_code env a (c\<lparr>con_mem := m, usb_rx := [], usb_tx := [0]\<rparr>) = Stays c'" "usb_tx c' = [0] @ more"
    using assms(15) [of "c\<lparr>con_mem := m, usb_rx := [], usb_tx := [0]\<rparr>"] by auto
  have run: "sc_check_usbdc env (c\<lparr>usb_rx := ?s\<rparr>) = Some (Stays c')" using m(2) c'(1) by simp
  then have "usbdc_answer env c ?s = [0] @ more" using c'(2) by (simp add: usbdc_answer_def)
  then obtain d' where "xfer_DoUpload dev old f a True d = Some (1, d')" "sent d' = ?s"
    using usb_link.upload_all [OF assms(1,5-9,2,3), of ?s True a old] by auto
  then show ?thesis using run m(1) c'(1) n by (auto simp: xfer_DoExecute_def)
qed

theorem usb_execute_correct_witness:
  "\<exists>d' m c'. xfer_DoExecute (cable_ftdi (usbdc_answer sample_console_env sample_console)) 9 sample_upload 0x06004000 new_cable = Some (1, d')
    \<and> load 0x06004000 3 m = [7, 8, 9] \<and> run_code sample_console_env 0x06004000 (sample_console\<lparr>con_mem := m, usb_rx := [], usb_tx := [0]\<rparr>) = Stays c'
    \<and> sc_check_usbdc sample_console_env (sample_console\<lparr>usb_rx := cb_sent d'\<rparr>) = Some (Stays c')"
proof -
  have "quiet_reset sample_console_env (upload_area 0x06004000 sample_console) 3"
    by (auto simp: quiet_reset_def sample_console_env_def upload_area_def sample_console_def load_def upt_rec)
  then show ?thesis
    using usb_execute_correct [OF cable.usb_link_axioms [of sample_console_env sample_console], where d = new_cable and f = sample_upload
        and a = "0x06004000" and old = 9]
    by (simp add: new_cable_def sample_console_def sample_upload_def sample_console_env_def program_area_def numeral_3_eq_3)
qed

lemma stream_loop_interrupted:
  "(\<And>d. interrupted dev d) \<Longrightarrow> stream_loop (\<lambda>dat. send_loop dev dat 0) dat c d = Some (True, if dat = [] then c else crc_update c dat, d)"
proof (induction "length dat" arbitrary: dat c rule: less_induct)
  case less
  show ?case
  proof (cases "dat = []")
    case True
    then show ?thesis by (subst stream_loop.simps) simp
  next
    case False
    let ?a = "take USB_READPACKET_SIZE dat" and ?b = "drop USB_READPACKET_SIZE dat"
    have "length ?b < length dat" using False by (cases dat) simp_all
    then have IH: "stream_loop (\<lambda>dat. send_loop dev dat 0) ?b (crc_update c ?a) d
        = Some (True, if ?b = [] then crc_update c ?a else crc_update (crc_update c ?a) ?b, d)"
      using less by blast
    have "crc_update (crc_update c ?a) ?b = crc_update c dat" by (simp flip: crc_update_append)
    moreover have "crc_update c ?a = crc_update c dat" if "?b = []" using that by simp
    moreover have "send_loop dev ?a 0 d = Some (True, d)" using less(2) by (subst send_loop.simps) simp
    ultimately show ?thesis using False IH by (subst stream_loop.simps) auto
  qed
qed

text \<open>
  C37: when the user interrupts an upload right after the command, nothing of the file is sent, and
  \<open>DoUpload\<close> nevertheless reports a success if the byte left in the receive buffer is null.
\<close>

theorem upload_interrupted:
  assumes "\<And>bs d. write_data dev bs d = (int (length bs), d @ bs)" and "\<And>n d. read_data dev n d = (0, [], d)"
    and "\<And>d. interrupted dev d" and "hf_size f = Some (length (hf_contents f))" and "hf_opens f" and "\<not> hf_error f"
    and "hf_contents f \<noteq> []" and "length (hf_contents f) < 2 ^ 32"
  shows "xfer_DoUpload dev 0 f a False [] = Some (1, USBDC_FUNC_UPLOAD # be32 a @ be32 (word_of_nat (length (hf_contents f)))
    @ [checksum_of (hf_contents f)])"
proof -
  have s: "StreamAndCrc (\<lambda>dat. send_loop dev dat 0) f d = Some (True, checksum_of (hf_contents f), d)" for d
    using stream_loop_interrupted [of dev "hf_contents f" 0 d] assms(3,6,7) by (simp add: StreamAndCrc_def checksum_of_crc)
  have w: "wait_byte dev d = Some (0, [], d)" for d
    using assms(2,3) by (subst wait_byte.simps) simp
  have "length (hf_contents f) \<noteq> 0" "\<not> 0xFFFFFFFF < length (hf_contents f)" using assms(7,8) by simp_all
  then show ?thesis
    by (simp add: xfer_DoUpload_def assms(1,4,5) SendCommandWithAddressAndLength_def s w)
qed

theorem upload_interrupted_witness:
  "xfer_DoUpload \<lparr>write_data = \<lambda>bs d. (int (length bs), d @ bs), read_data = \<lambda>n d. (0, [], d), interrupted = \<lambda>_. True\<rparr>
     0 sample_upload 0x06004000 False [] = Some (1, USBDC_FUNC_UPLOAD # be32 0x06004000 @ be32 3 @ [checksum_of [7, 8, 9]])"
  using upload_interrupted [where dev = "\<lparr>write_data = \<lambda>bs d. (int (length bs), d @ bs), read_data = \<lambda>n d. (0, [], d),
      interrupted = \<lambda>_. True\<rparr>" and f = sample_upload and a = "0x06004000"]
  by (simp add: sample_upload_def)

end
