(* ===== verification/XferRemote.thy ===== *)
theory XferRemote
  imports UsbLink
begin

section \<open>The remote file commands\<close>

text \<open>
  Models the part of \<open>src/xfer.cpp\<close> that works on the files of the SD card through a program on the console
  (\<open>RemoteIo\<close>): a command is a header of seven bytes and an argument, the answer a header with a status
  and a payload. The program itself is not in the repository; here it is what is behind the link. A \<open>const
  char *\<close> that may be null is an option. What a command prints of the answer is given back; other
  messages and the waiting are left out.
\<close>

subsection \<open>Whole buffers over the link\<close>

partial_function (option) WriteAllToDevice :: "'d ftdi \<Rightarrow> byte list \<Rightarrow> nat \<Rightarrow> 'd \<Rightarrow> (bool \<times> 'd) option" where
  "WriteAllToDevice dev dat written d =
     (if written < length dat \<and> \<not> interrupted dev d
      then (case write_data dev (drop written dat) d of (rc, d) \<Rightarrow>
        if rc < 0 then Some (False, d)
        else if rc = 0 then WriteAllToDevice dev dat written d
        else WriteAllToDevice dev dat (written + nat rc) d)
      else Some (written = length dat, d))"

text \<open>Reading gives up after \<open>max_idle_cycles\<close> reads without a byte; \<open>got\<close> are the bytes in the buffer.\<close>

function read_exact :: "'d ftdi \<Rightarrow> nat \<Rightarrow> int \<Rightarrow> byte list \<Rightarrow> nat \<Rightarrow> int \<Rightarrow> 'd \<Rightarrow> bool \<times> byte list \<times> 'd" where
  "read_exact dev sz max_idle_cycles got count idleCycles d =
     (if count < sz \<and> \<not> interrupted dev d
      then (case read_data dev (sz - count) d of (rc, bs, d) \<Rightarrow>
        if rc < 0 then (False, got, d)
        else if rc = 0
        then (if idleCycles + 1 \<ge> max_idle_cycles then (False, got, d)
          else read_exact dev sz max_idle_cycles got count (idleCycles + 1) d)
        else read_exact dev sz max_idle_cycles (got @ take (nat rc) bs) (count + nat rc) 0 d)
      else (count = sz, got, d))"
  by pat_completeness auto
termination
  by (relation "measures [\<lambda>(dev, sz, m, got, count, idle, d). sz - count, \<lambda>(dev, sz, m, got, count, idle, d). nat (m - idle)]") auto

declare read_exact.simps [simp del]

definition ReadExactFromDevice :: "'d ftdi \<Rightarrow> nat \<Rightarrow> int \<Rightarrow> 'd \<Rightarrow> bool \<times> byte list \<times> 'd" where
  "ReadExactFromDevice dev sz max_idle_cycles d = read_exact dev sz max_idle_cycles [] 0 0 d"

subsection \<open>Commands and answers\<close>

datatype RemoteIoCommand = IO_LIST | IO_REMOVE | IO_CRC | IO_UPLOAD | IO_MKDIR | IO_RMDIR | IO_RENAME | IO_DOWNLOAD

definition command_code :: "RemoteIoCommand \<Rightarrow> byte" where
  "command_code c = (case c of IO_LIST \<Rightarrow> 1 | IO_REMOVE \<Rightarrow> 2 | IO_CRC \<Rightarrow> 3 | IO_UPLOAD \<Rightarrow> 4 | IO_MKDIR \<Rightarrow> 5 | IO_RMDIR \<Rightarrow> 6
     | IO_RENAME \<Rightarrow> 7 | IO_DOWNLOAD \<Rightarrow> 8)"

abbreviation STATUS_OK :: byte where "STATUS_OK \<equiv> 0"
abbreviation STATUS_ERR :: byte where "STATUS_ERR \<equiv> 1"

definition REMOTE_IO_MAGIC :: "byte list" where
  "REMOTE_IO_MAGIC = ascii ''SRL1''"

record RemoteIoReply =
  rr_status :: byte
  rr_payload :: "byte list"

definition new_reply :: RemoteIoReply where
  "new_reply = \<lparr>rr_status = STATUS_ERR, rr_payload = []\<rparr>"

definition remote_header :: "byte \<Rightarrow> nat \<Rightarrow> byte list" where
  "remote_header code payloadLen = REMOTE_IO_MAGIC @ [code, word_of_nat (drop_bit 8 payloadLen AND 0xFF), word_of_nat (payloadLen AND 0xFF)]"

definition SendRemoteIoCommand :: "'d ftdi \<Rightarrow> RemoteIoCommand \<Rightarrow> byte list option \<Rightarrow> 'd \<Rightarrow> (bool \<times> 'd) option" where
  "SendRemoteIoCommand dev command argument d =
     (case argument of
        None \<Rightarrow> Some (False, d)
      | Some argument \<Rightarrow>
          let payload = cstring argument
          in if length payload > 0xFFFF then Some (False, d)
             else do {
               (ok, d) \<leftarrow> WriteAllToDevice dev (remote_header (command_code command) (length payload)) 0 d;
               if \<not> ok then Some (False, d)
               else if length payload > 0 then WriteAllToDevice dev payload 0 d
               else Some (True, d) })"

text \<open>The result is 1 for an answer, 0 when none came in time and negative for a wrong one.\<close>

definition TryReadRemoteIoReply :: "'d ftdi \<Rightarrow> RemoteIoReply \<Rightarrow> int \<Rightarrow> 'd \<Rightarrow> int \<times> RemoteIoReply \<times> 'd" where
  "TryReadRemoteIoReply dev reply header_idle_cycles d =
     (let (ok, header, d) = ReadExactFromDevice dev 7 header_idle_cycles d
      in if \<not> ok then (0, reply, d)
         else if take 4 header \<noteq> REMOTE_IO_MAGIC then (- 1, reply, d)
         else let payloadLen = push_bit 8 (unat (header ! 5)) OR unat (header ! 6);
                  reply = \<lparr>rr_status = header ! 4, rr_payload = replicate payloadLen 0\<rparr>
              in if payloadLen > 0
                 then let (ok, bs, d) = ReadExactFromDevice dev payloadLen 5000 d
                      in (if ok then 1 else - 1, reply\<lparr>rr_payload := mem_write 0 bs (rr_payload reply)\<rparr>, d)
                 else (1, reply, d))"

definition ReadRemoteIoReply :: "'d ftdi \<Rightarrow> RemoteIoReply \<Rightarrow> 'd \<Rightarrow> bool \<times> RemoteIoReply \<times> 'd" where
  "ReadRemoteIoReply dev reply d =
     (let (rc, reply, d) = TryReadRemoteIoReply dev reply 5000 d in (rc = 1, reply, d))"

definition printed :: "byte list \<Rightarrow> byte list" where
  "printed payload = (if payload = [] then [] else payload @ (if last payload \<noteq> 0x0A then [0x0A] else []))"

definition finish_command :: "'d ftdi \<Rightarrow> 'd \<Rightarrow> int \<times> byte list \<times> 'd" where
  "finish_command dev d =
     (let (ok, reply, d) = ReadRemoteIoReply dev new_reply d
      in if \<not> ok then (0, [], d) else (if rr_status reply = STATUS_OK then 1 else 0, printed (rr_payload reply), d))"

definition ExecuteRemoteIoCommand :: "'d ftdi \<Rightarrow> RemoteIoCommand \<Rightarrow> byte list option \<Rightarrow> 'd \<Rightarrow> (int \<times> byte list \<times> 'd) option" where
  "ExecuteRemoteIoCommand dev command argument d = do {
     (ok, d) \<leftarrow> SendRemoteIoCommand dev command argument d;
     if \<not> ok then Some (0, [], d) else Some (finish_command dev d) }"

definition SendRemoteIoRenameCommand :: "'d ftdi \<Rightarrow> byte list option \<Rightarrow> byte list option \<Rightarrow> 'd \<Rightarrow> (bool \<times> 'd) option" where
  "SendRemoteIoRenameCommand dev old_path new_path d =
     (case (old_path, new_path) of
        (Some old_path, Some new_path) \<Rightarrow>
          let old_path = cstring old_path; new_path = cstring new_path; payloadLen = length old_path + 1 + length new_path
          in if payloadLen > 0xFFFF then Some (False, d)
             else do {
               (ok, d) \<leftarrow> WriteAllToDevice dev (remote_header (command_code IO_RENAME) payloadLen) 0 d;
               if \<not> ok then Some (False, d)
               else do {
                 (ok, d) \<leftarrow> WriteAllToDevice dev (old_path @ [0]) 0 d;
                 if \<not> ok then Some (False, d)
                 else if length new_path > 0 then WriteAllToDevice dev new_path 0 d
                 else Some (True, d) } }
      | _ \<Rightarrow> Some (False, d))"

definition ExecuteRemoteIoRenameCommand :: "'d ftdi \<Rightarrow> byte list option \<Rightarrow> byte list option \<Rightarrow> 'd \<Rightarrow> (int \<times> byte list \<times> 'd) option" where
  "ExecuteRemoteIoRenameCommand dev old_path new_path d = do {
     (ok, d) \<leftarrow> SendRemoteIoRenameCommand dev old_path new_path d;
     if \<not> ok then Some (0, [], d) else Some (finish_command dev d) }"

definition xfer_DoRemove :: "'d ftdi \<Rightarrow> byte list option \<Rightarrow> 'd \<Rightarrow> (int \<times> byte list \<times> 'd) option" where
  "xfer_DoRemove dev path d = ExecuteRemoteIoCommand dev IO_REMOVE path d"

definition xfer_DoRename :: "'d ftdi \<Rightarrow> byte list option \<Rightarrow> byte list option \<Rightarrow> 'd \<Rightarrow> (int \<times> byte list \<times> 'd) option" where
  "xfer_DoRename dev old_path new_path d = ExecuteRemoteIoRenameCommand dev old_path new_path d"

definition xfer_DoMkdir :: "'d ftdi \<Rightarrow> byte list option \<Rightarrow> 'd \<Rightarrow> (int \<times> byte list \<times> 'd) option" where
  "xfer_DoMkdir dev path d = ExecuteRemoteIoCommand dev IO_MKDIR path d"

definition xfer_DoRmdir :: "'d ftdi \<Rightarrow> byte list option \<Rightarrow> 'd \<Rightarrow> (int \<times> byte list \<times> 'd) option" where
  "xfer_DoRmdir dev path d = ExecuteRemoteIoCommand dev IO_RMDIR path d"

definition xfer_DoCrc :: "'d ftdi \<Rightarrow> byte list option \<Rightarrow> 'd \<Rightarrow> (int \<times> byte list \<times> 'd) option" where
  "xfer_DoCrc dev filename d = ExecuteRemoteIoCommand dev IO_CRC filename d"

subsection \<open>Listings\<close>

text \<open>The loop over the answers, which \<open>DoList\<close> and \<open>DoListStr\<close> share but for where the text goes.\<close>

partial_function (option) list_loop :: "'d ftdi \<Rightarrow> RemoteIoReply \<Rightarrow> byte list \<Rightarrow> 'd \<Rightarrow> (int \<times> byte list \<times> 'd) option" where
  "list_loop dev reply out d =
     (if rr_status reply \<noteq> STATUS_OK then Some (0, out @ printed (rr_payload reply), d)
      else if rr_payload reply = [] then Some (1, out @ printed (rr_payload reply), d)
      else (case TryReadRemoteIoReply dev reply 200 d of (rc, next, d) \<Rightarrow>
        if rc = 0 then Some (1, out @ printed (rr_payload reply), d)
        else if rc < 0 then Some (0, out @ printed (rr_payload reply), d)
        else list_loop dev next (out @ printed (rr_payload reply)) d))"

definition xfer_DoListStr :: "'d ftdi \<Rightarrow> byte list option \<Rightarrow> byte list \<Rightarrow> 'd \<Rightarrow> (int \<times> byte list \<times> 'd) option" where
  "xfer_DoListStr dev path out_listing d = do {
     (ok, d) \<leftarrow> SendRemoteIoCommand dev IO_LIST path d;
     if \<not> ok then Some (0, out_listing, d)
     else let (ok, reply, d) = ReadRemoteIoReply dev new_reply d
          in if \<not> ok then Some (0, out_listing, d) else list_loop dev reply out_listing d }"

definition xfer_DoList :: "'d ftdi \<Rightarrow> byte list option \<Rightarrow> 'd \<Rightarrow> (int \<times> byte list \<times> 'd) option" where
  "xfer_DoList dev path d = do {
     (ok, d) \<leftarrow> SendRemoteIoCommand dev IO_LIST path d;
     if \<not> ok then Some (0, [], d)
     else let (ok, reply, d) = ReadRemoteIoReply dev new_reply d
          in if \<not> ok then Some (0, [], d) else list_loop dev reply [] d }"

subsection \<open>Targets on the card\<close>

text \<open>\<open>strtoul\<close> of the C library with base 0, for a 64-bit \<open>unsigned long\<close>: the value and how many characters
  it used, 0 when there is no number.\<close>

definition is_space :: "byte \<Rightarrow> bool" where
  "is_space c \<longleftrightarrow> c = 0x20 \<or> 9 \<le> c \<and> c \<le> 13"

definition digit_value :: "byte \<Rightarrow> nat" where
  "digit_value c = (if 0x30 \<le> c \<and> c \<le> 0x39 then unat c - 0x30
     else if 0x41 \<le> c \<and> c \<le> 0x5A then unat c - 0x41 + 10
     else if 0x61 \<le> c \<and> c \<le> 0x7A then unat c - 0x61 + 10 else 36)"

definition number_base :: "byte list \<Rightarrow> nat \<times> nat" where
  "number_base s = (case s of
     a # x # d # _ \<Rightarrow> if a = 0x30 \<and> (x = 0x78 \<or> x = 0x58) \<and> digit_value d < 16 then (16, 2) else if a = 0x30 then (8, 0) else (10, 0)
   | a # _ \<Rightarrow> if a = 0x30 then (8, 0) else (10, 0)
   | [] \<Rightarrow> (10, 0))"

definition strtoul :: "byte list \<Rightarrow> nat \<times> nat" where
  "strtoul s =
     (let blanks = length (takeWhile is_space s);
          s = drop blanks s;
          sign = (if s \<noteq> [] \<and> (hd s = 0x2B \<or> hd s = 0x2D) then 1 else 0);
          negative = (s \<noteq> [] \<and> hd s = 0x2D);
          s = drop sign s;
          (base, skip) = number_base s;
          digits = takeWhile (\<lambda>c. digit_value c < base) (drop skip s);
          n = foldl (\<lambda>n c. n * base + digit_value c) 0 digits
      in if digits = [] then (0, 0)
         else (if n \<ge> 2 ^ 64 then 2 ^ 64 - 1 else if negative then (2 ^ 64 - n) mod 2 ^ 64 else n, blanks + sign + skip + length digits))"

record SdUploadTarget =
  start_sector :: u32
  sector_count :: u32
  has_range :: bool

text \<open>A number in a string that has nothing behind it.\<close>

definition whole_number :: "byte list \<Rightarrow> nat option" where
  "whole_number s = (let (n, end_pos) = strtoul s in if end_pos = length s \<and> n \<le> 0xFFFFFFFF then Some n else None)"

definition ParseSdUploadTarget :: "byte list option \<Rightarrow> SdUploadTarget option" where
  "ParseSdUploadTarget saturn_sd_path =
     (case saturn_sd_path of
        None \<Rightarrow> None
      | Some path \<Rightarrow>
          let path = cstring path; prefix = ascii ''sdraw:''
          in if take (length prefix) path = prefix
             then let remainder = drop (length prefix) path; startText = takeWhile (\<lambda>c. c \<noteq> 0x3A) remainder;
                      countText = drop (length startText + 1) remainder
                  in if 0x3A \<notin> set remainder \<or> 0x3A \<in> set countText then None
                     else if startText = [] \<or> countText = [] then None
                     else (case whole_number startText of
                         None \<Rightarrow> None
                       | Some parsedStart \<Rightarrow> (case whole_number countText of
                           None \<Rightarrow> None
                         | Some parsedCount \<Rightarrow> if parsedCount = 0 then None
                             else Some \<lparr>start_sector = word_of_nat parsedStart, sector_count = word_of_nat parsedCount, has_range = True\<rparr>))
             else let (parsed, end_pos) = strtoul path
                  in if end_pos = 0 \<or> end_pos \<noteq> length path \<or> parsed > 0xFFFFFFFF then None
                     else Some \<lparr>start_sector = word_of_nat parsed, sector_count = 0, has_range = False\<rparr>)"

subsection \<open>Files\<close>

text \<open>The upload of a file by its path on the card. \<open>result0\<close> is what the byte for the result holds when
  nothing was read.\<close>

definition upload_to_path :: "'d ftdi \<Rightarrow> host_file \<Rightarrow> u32 \<Rightarrow> byte list \<Rightarrow> 'd \<Rightarrow> (int \<times> 'd) option" where
  "upload_to_path dev f file_size path d = do {
     (ok, d) \<leftarrow> SendRemoteIoCommand dev IO_UPLOAD (Some path) d;
     if \<not> ok then Some (0, d)
     else let (ok, reply, d) = ReadRemoteIoReply dev new_reply d
          in if \<not> ok \<or> rr_status reply \<noteq> STATUS_OK then Some (0, d)
             else do {
               (ok, d) \<leftarrow> WriteAllToDevice dev (be32 file_size) 0 d;
               if \<not> ok then Some (0, d)
               else do {
                 (ok, checksum, d) \<leftarrow> StreamAndCrc (\<lambda>dat. WriteAllToDevice dev dat 0) f d;
                 if \<not> ok then Some (0, d)
                 else do {
                   (ok, d) \<leftarrow> WriteAllToDevice dev [checksum] 0 d;
                   if \<not> ok then Some (0, d)
                   else let (ok, bs, d) = ReadExactFromDevice dev 1 5000 d
                        in Some (if ok \<and> bs ! 0 = 0 then 1 else 0, d) } } } }"

text \<open>The name of the file without its directories.\<close>

definition display_name :: "byte list \<Rightarrow> byte list" where
  "display_name host_filename = foldl (\<lambda>name c. if c = 0x2F \<or> c = 0x5C then [] else name @ [c]) [] (cstring host_filename)"

text \<open>The fields of the command for raw sectors are sent one after the other, with the loop of \<open>DoUpload\<close>.\<close>

fun send_fields :: "'d ftdi \<Rightarrow> byte list list \<Rightarrow> 'd \<Rightarrow> (bool \<times> 'd) option" where
  "send_fields dev [] d = Some (True, d)"
| "send_fields dev (dat # fds) d = do {
     (ok, d) \<leftarrow> send_loop dev dat 0 d;
     if ok then send_fields dev fds d else Some (False, d) }"

definition upload_to_sectors :: "'d ftdi \<Rightarrow> byte \<Rightarrow> byte list \<Rightarrow> host_file \<Rightarrow> u32 \<Rightarrow> byte list option \<Rightarrow> 'd \<Rightarrow> (int \<times> 'd) option" where
  "upload_to_sectors dev result0 host_filename f file_size saturn_sd_path d =
     (case ParseSdUploadTarget saturn_sd_path of
        None \<Rightarrow> Some (0, d)
      | Some target \<Rightarrow>
          let name = display_name host_filename
          in if has_range target \<and> unat file_size > unat (sector_count target) * 512 then Some (0, d)
             else do {
               (ok, d) \<leftarrow> send_fields dev ([[0x10], be32 (word_of_nat (length name))] @ (if name \<noteq> [] then [name] else []) @
                 [be32 (start_sector target), be32 file_size]) d;
               if \<not> ok then Some (0, d)
               else do {
                 (ok, checksum, d) \<leftarrow> StreamAndCrc (\<lambda>dat. send_loop dev dat 0) f d;
                 if \<not> ok then Some (0, d)
                 else do {
                   (ok, d) \<leftarrow> send_loop dev [checksum] 0 d;
                   if \<not> ok then Some (0, d)
                   else do {
                     (status, bs, d) \<leftarrow> wait_byte dev d;
                     if status < 0 then Some (0, d)
                     else Some (if (if status = 0 then result0 else hd bs) = 0 then 1 else 0, d) } } } })"

definition xfer_DoSdUpload :: "'d ftdi \<Rightarrow> byte \<Rightarrow> byte list \<Rightarrow> host_file \<Rightarrow> byte list option \<Rightarrow> 'd \<Rightarrow> (int \<times> 'd) option" where
  "xfer_DoSdUpload dev result0 host_filename f saturn_sd_path d =
     (case hf_size f of
        None \<Rightarrow> Some (0, d)
      | Some n \<Rightarrow>
          if n > 0xFFFFFFFF \<or> \<not> hf_opens f then Some (0, d)
          else (case saturn_sd_path of
              Some path \<Rightarrow> if cstring path \<noteq> [] \<and> hd (cstring path) = 0x2F then upload_to_path dev f (word_of_nat n) path d
                else upload_to_sectors dev result0 host_filename f (word_of_nat n) saturn_sd_path d
            | None \<Rightarrow> upload_to_sectors dev result0 host_filename f (word_of_nat n) saturn_sd_path d))"

text \<open>The output file is given back, as in \<open>xfer_DoDownload\<close>.\<close>

function sd_download_loop :: "'d ftdi \<Rightarrow> nat \<Rightarrow> nat \<Rightarrow> nat \<Rightarrow> byte \<Rightarrow> byte list \<Rightarrow> 'd \<Rightarrow> bool \<times> byte \<times> byte list \<times> 'd" where
  "sd_download_loop dev room file_size received checksum out d =
     (if received < file_size
      then let chunk = min 4096 (file_size - received);
               (ok, bs, d) = ReadExactFromDevice dev chunk 5000 d
           in if \<not> ok then (False, checksum, out, d)
              else if length out + chunk > room then (False, crc_update checksum bs, out, d)
              else sd_download_loop dev room file_size (received + chunk) (crc_update checksum bs) (out @ bs) d
      else (True, checksum, out, d))"
  by pat_completeness auto
termination
  by (relation "measure (\<lambda>(dev, room, n, received, c, out, d). n - received)") auto

declare sd_download_loop.simps [simp del]

definition xfer_DoSdDownload :: "'d ftdi \<Rightarrow> byte list option \<Rightarrow> bool \<Rightarrow> nat option \<Rightarrow> 'd \<Rightarrow> (int \<times> byte list \<times> 'd) option" where
  "xfer_DoSdDownload dev saturn_sd_path named room d =
     (case (saturn_sd_path, room) of
        (Some path, Some room) \<Rightarrow>
          if \<not> named then Some (0, [], d)
          else do {
            (ok, d) \<leftarrow> SendRemoteIoCommand dev IO_DOWNLOAD (Some path) d;
            if \<not> ok then Some (0, [], d)
            else let (ok, reply, d) = ReadRemoteIoReply dev new_reply d
                 in if \<not> ok \<or> rr_status reply \<noteq> STATUS_OK \<or> length (rr_payload reply) < 4 then Some (0, [], d)
                    else let p = rr_payload reply;
                             (ok, checksum, out, d) = sd_download_loop dev room (unat (push_bit 24 (ucast (p ! 0)) OR push_bit 16 (ucast (p ! 1)) OR push_bit 8 (ucast (p ! 2)) OR ucast (p ! 3) :: u32)) 0 0 [] d
                         in if \<not> ok then Some (0, out, d)
                            else let (ok, bs, d) = ReadExactFromDevice dev 1 5000 d
                                 in Some (if ok \<and> bs ! 0 = checksum then 1 else 0, out, d) }
      | _ \<Rightarrow> Some (0, [], d))"

subsection \<open>The messages\<close>

text \<open>An answer as it is on the link.\<close>

definition reply_bytes :: "byte \<Rightarrow> byte list \<Rightarrow> byte list" where
  "reply_bytes status payload = remote_header status (length payload) @ payload"

lemma remote_header_parts:
  assumes "n \<le> 0xFFFF"
  shows "length (remote_header c n) = 7" "take 4 (remote_header c n) = REMOTE_IO_MAGIC" "remote_header c n ! 4 = c"
    "push_bit 8 (unat (remote_header c n ! 5)) OR unat (remote_header c n ! 6) = n"
proof -
  show "length (remote_header c n) = 7" "take 4 (remote_header c n) = REMOTE_IO_MAGIC" "remote_header c n ! 4 = c"
    by (simp_all add: remote_header_def REMOTE_IO_MAGIC_def ascii_def)
  have m: "k AND 0xFF = take_bit 8 k" for k :: nat by (simp add: take_bit_eq_mask mask_eq_exp_minus_1)
  have "remote_header c n ! 5 = word_of_nat (take_bit 8 (drop_bit 8 n))" "remote_header c n ! 6 = word_of_nat (take_bit 8 n)"
    by (simp_all add: remote_header_def REMOTE_IO_MAGIC_def ascii_def m)
  moreover have "unat (word_of_nat (take_bit 8 k) :: byte) = take_bit 8 k" for k
    by (simp add: unsigned_of_nat)
  moreover have "take_bit 8 (drop_bit 8 n) = drop_bit 8 n"
    using assms by (simp add: take_bit_nat_eq_self_iff drop_bit_eq_div div_less_iff_less_mult)
  moreover have "push_bit 8 (drop_bit 8 n) OR take_bit 8 n = n" by (rule bit_eqI) (auto simp: bit_simps)
  ultimately show "push_bit 8 (unat (remote_header c n ! 5)) OR unat (remote_header c n ! 6) = n" by metis
qed

lemma be32_join: "push_bit 24 (ucast (be32 v ! 0)) OR push_bit 16 (ucast (be32 v ! 1)) OR push_bit 8 (ucast (be32 v ! 2)) OR ucast (be32 v ! 3) = v"
  using bytes_join_32 [of v] by (simp add: be32_def numeral_3_eq_3)

subsection \<open>A link that does not wait for long\<close>

text \<open>
  The remote commands give up after 5000 (between the parts of a listing: 200) reads without a byte. A link that
  never does nothing for 200 times in a row, once it is in such a state, keeps them from giving up too early.
\<close>

locale prompt_link = usb_link +
  assumes write_prompt: "stall d < 200 \<Longrightarrow> write_data dev bs d = (k, d') \<Longrightarrow> stall d' < 200"
    and read_prompt: "stall d < 200 \<Longrightarrow> read_data dev n d = (k, bs, d') \<Longrightarrow> stall d' < 200"
begin

lemma write_all:
  "i \<le> length dat \<Longrightarrow> stall d < 200 \<Longrightarrow> \<exists>d'. WriteAllToDevice dev dat i d = Some (True, d') \<and> stall d' < 200
    \<and> sent d' = sent d @ drop i dat \<and> taken d' = taken d"
proof (induction "(length dat - i, stall d)" arbitrary: i d rule: wf_induct_rule [OF wf_lex_prod [OF wf_less_than wf_less_than]])
  case 1
  show ?case
  proof (cases "i = length dat")
    case True
    then show ?thesis using 1(3) by (subst WriteAllToDevice.simps) simp
  next
    case False
    then have i: "i < length dat" "drop i dat \<noteq> []" using 1(2) by simp_all
    obtain n d1 where w: "write_data dev (drop i dat) d = (int n, d1)" "n \<le> length (drop i dat)"
      "sent d1 = sent d @ take n (drop i dat)" "taken d1 = taken d" "n = 0 \<longrightarrow> stall d1 < stall d"
      using writes [of "drop i dat" d] i(2) by blast
    have p: "stall d1 < 200" by (rule write_prompt [OF 1(3) w(1)])
    have "i + n \<le> length dat" using w(2) i(1) by simp
    moreover have "((length dat - (i + n), stall d1), (length dat - i, stall d)) \<in> less_than <*lex*> less_than"
      using w(2,5) i(1) by auto
    ultimately obtain d' where d': "WriteAllToDevice dev dat (i + n) d1 = Some (True, d')" "stall d' < 200"
      "sent d' = sent d1 @ drop (i + n) dat" "taken d' = taken d1"
      using 1(1) p by blast
    have "WriteAllToDevice dev dat i d = WriteAllToDevice dev dat (i + n) d1"
      using i(1) quiet w(1) by (subst WriteAllToDevice.simps) simp
    moreover have "sent d' = sent d @ drop i dat"
      by (simp add: d'(3) w(3) add.commute [of i] flip: drop_drop)
    ultimately show ?thesis using d'(1,2,4) w(4) by simp
  qed
qed

lemma read_all:
  assumes "sz \<le> length (answer (sent d)) - t" "200 \<le> m"
  shows "count \<le> sz \<Longrightarrow> taken d = t + count \<Longrightarrow> idle + int (stall d) < m \<Longrightarrow> stall d < 200 \<Longrightarrow>
    got = take count (drop t (answer (sent d))) \<Longrightarrow>
    \<exists>d'. read_exact dev sz m got count idle d = (True, take sz (drop t (answer (sent d))), d')
      \<and> stall d' < 200 \<and> sent d' = sent d \<and> taken d' = t + sz"
  using assms
proof (induction "(sz - count, stall d)" arbitrary: count idle d got rule: wf_induct_rule [OF wf_lex_prod [OF wf_less_than wf_less_than]])
  case 1
  let ?A = "answer (sent d)"
  show ?case
  proof (cases "count = sz")
    case True
    then show ?thesis using 1(3,5,6) by (subst read_exact.simps) simp
  next
    case False
    then have c: "count < sz" using 1(2) by simp
    obtain k d1 where r: "read_data dev (sz - count) d = (int k, take k (drop (taken d) ?A), d1)" "k \<le> sz - count"
      "k \<le> length ?A - taken d" "sent d1 = sent d" "taken d1 = taken d + k"
      "k = 0 \<longrightarrow> sz - count \<noteq> 0 \<longrightarrow> taken d < length ?A \<longrightarrow> stall d1 < stall d"
      using reads [of "sz - count" d] by blast
    have p: "stall d1 < 200" by (rule read_prompt [OF 1(5) r(1)])
    show ?thesis
    proof (cases "k = 0")
      case True
      then have lt: "stall d1 < stall d" using r(6) c 1(3,7) by simp
      have "read_exact dev sz m got count idle d = read_exact dev sz m got count (idle + 1) d1"
        using c quiet r(1) True lt 1(4) by (subst read_exact.simps) simp
      moreover have "((sz - count, stall d1), (sz - count, stall d)) \<in> less_than <*lex*> less_than" using lt by simp
      ultimately show ?thesis
        using 1(1) [of count d1 "idle + 1" got] 1(2-8) r(4,5) True lt p by simp
    next
      case False
      have eq: "read_exact dev sz m got count idle d
          = read_exact dev sz m (got @ take k (drop (taken d) ?A)) (count + k) 0 d1"
        using c quiet r(1) False by (subst read_exact.simps) simp
      have g: "got @ take k (drop (taken d) ?A) = take (count + k) (drop t (answer (sent d1)))"
        using 1(3,6) r(4) by (simp add: take_add drop_drop add.commute)
      have "((sz - (count + k), stall d1), (sz - count, stall d)) \<in> less_than <*lex*> less_than" using False c by auto
      then show ?thesis
        unfolding eq g using 1(1) [of "count + k" d1 0 "take (count + k) (drop t (answer (sent d1)))"] 1(3,7,8) r(2,4,5) c p by simp
    qed
  qed
qed

lemma read_exact_all:
  assumes "sz \<le> length (answer (sent d)) - taken d" "200 \<le> m" "stall d < 200"
  shows "\<exists>d'. ReadExactFromDevice dev sz m d = (True, take sz (drop (taken d) (answer (sent d))), d')
    \<and> stall d' < 200 \<and> sent d' = sent d \<and> taken d' = taken d + sz"
  unfolding ReadExactFromDevice_def using assms by (intro read_all) simp_all

lemma send_command_all:
  assumes "length (cstring path) \<le> 0xFFFF" "stall d < 200"
  shows "\<exists>d'. SendRemoteIoCommand dev c (Some path) d = Some (True, d') \<and> stall d' < 200
    \<and> sent d' = sent d @ remote_header (command_code c) (length (cstring path)) @ cstring path \<and> taken d' = taken d"
proof -
  let ?h = "remote_header (command_code c) (length (cstring path))"
  obtain d1 where d1: "WriteAllToDevice dev ?h 0 d = Some (True, d1)" "stall d1 < 200" "sent d1 = sent d @ ?h" "taken d1 = taken d"
    using write_all [of 0 ?h d] assms(2) by auto
  obtain d2 where "WriteAllToDevice dev (cstring path) 0 d1 = Some (True, d2)" "stall d2 < 200" "sent d2 = sent d1 @ cstring path" "taken d2 = taken d1"
    using write_all [of 0 "cstring path" d1] d1(2) by auto
  then show ?thesis
    using d1 assms(1) by (cases "cstring path = []") (auto simp: SendRemoteIoCommand_def Let_def)
qed

lemma reply_read:
  assumes a: "drop (taken d) (answer (sent d)) = reply_bytes st p @ rest" "length p \<le> 0xFFFF" and "200 \<le> m" "stall d < 200"
  shows "\<exists>d'. TryReadRemoteIoReply dev r m d = (1, \<lparr>rr_status = st, rr_payload = p\<rparr>, d') \<and> stall d' < 200 \<and> sent d' = sent d
    \<and> taken d' = taken d + 7 + length p"
proof -
  let ?h = "remote_header st (length p)" and ?A = "answer (sent d)"
  note h = remote_header_parts [OF a(2), of st]
  have len: "length ?A - taken d = 7 + length p + length rest"
    using arg_cong [OF a(1), of length] h(1) by (simp add: reply_bytes_def)
  have hd: "take 7 (drop (taken d) ?A) = ?h" unfolding a(1) using h(1) by (simp add: reply_bytes_def)
  obtain d1 where d1: "ReadExactFromDevice dev 7 m d = (True, ?h, d1)" "stall d1 < 200" "sent d1 = sent d" "taken d1 = taken d + 7"
    using read_exact_all [of 7 d m] assms(3,4) len hd by auto
  have "drop (taken d1) ?A = drop 7 (drop (taken d) ?A)" by (simp add: d1(4) add.commute)
  then have "drop (taken d1) ?A = p @ rest" unfolding a(1) using h(1) by (simp add: reply_bytes_def)
  moreover have "length p \<le> length ?A - taken d1" using len d1(4) by arith
  ultimately obtain d2 where d2: "ReadExactFromDevice dev (length p) 5000 d1 = (True, p, d2)" "stall d2 < 200" "sent d2 = sent d1" "taken d2 = taken d1 + length p"
    using read_exact_all [of "length p" d1 5000] d1(2-4) len by auto
  show ?thesis
  proof (cases "p = []")
    case True
    then show ?thesis using d1 h by (simp add: TryReadRemoteIoReply_def Let_def)
  next
    case False
    then show ?thesis using d1 d2 h by (simp add: TryReadRemoteIoReply_def Let_def mem_write_def)
  qed
qed

lemma sd_download_all:
  assumes "n = length dat" "n \<le> room"
  shows "length out \<le> n \<Longrightarrow> drop (taken d) (answer (sent d)) = drop (length out) dat @ rest \<Longrightarrow> stall d < 200 \<Longrightarrow> out = take (length out) dat \<Longrightarrow>
    \<exists>d'. sd_download_loop dev room n (length out) (crc_update 0 out) out d = (True, crc_update 0 dat, dat, d') \<and> stall d' < 200
      \<and> sent d' = sent d \<and> drop (taken d') (answer (sent d')) = rest"
proof (induction "n - length out" arbitrary: out d rule: less_induct)
  case less
  show ?case
  proof (cases "length out = n")
    case True
    then have "out = dat" using less(5) assms(1) by simp
    then show ?thesis using True less(3,4) assms(1) by (subst sd_download_loop.simps) simp
  next
    case False
    let ?A = "answer (sent d)"
    obtain k where kd: "k = min 4096 (n - length out)" by blast
    obtain bs where bs: "bs = take k (drop (length out) dat)" by blast
    have k: "k \<le> n - length out" "0 < k" "length out + k \<le> n" using False less(2) by (simp_all add: kd)
    have lb: "length bs = k" using k(1) assms(1) by (simp add: bs)
    have "length ?A - taken d = n - length out + length rest"
      using arg_cong [OF less(3), of length] by (simp add: assms(1))
    moreover have "take k (drop (taken d) ?A) = bs" unfolding less(3) bs using k(1) assms(1) by simp
    ultimately obtain d1 where d1: "ReadExactFromDevice dev k 5000 d = (True, bs, d1)" "stall d1 < 200" "sent d1 = sent d" "taken d1 = taken d + k"
      using read_exact_all [of k d 5000] k(1) less(4) by auto
    have lo: "length (out @ bs) = length out + k" using lb by simp
    have o: "out @ bs = take (length (out @ bs)) dat" unfolding lo using less(5) by (simp add: take_add bs)
    have dr: "drop (taken d1) (answer (sent d1)) = drop (length (out @ bs)) dat @ rest"
    proof -
      have "drop (taken d1) (answer (sent d1)) = drop k (drop (taken d) ?A)" by (simp add: d1(3,4) add.commute)
      also have "\<dots> = drop k (drop (length out) dat) @ rest" unfolding less(3) using k(1) assms(1) by simp
      finally show ?thesis unfolding lo by (simp add: add.commute)
    qed
    have fits: "\<not> room < length out + k" "length out < n" using k assms(2) by simp_all
    have "sd_download_loop dev room n (length out) (crc_update 0 out) out d
        = sd_download_loop dev room n (length out + k) (crc_update (crc_update 0 out) bs) (out @ bs) d1"
      by (subst sd_download_loop.simps) (simp only: fits d1(1) Let_def prod.case simp_thms if_True if_False flip: kd)
    then have "sd_download_loop dev room n (length out) (crc_update 0 out) out d
        = sd_download_loop dev room n (length (out @ bs)) (crc_update 0 (out @ bs)) (out @ bs) d1"
      unfolding lo crc_update_append .
    moreover have "n - length (out @ bs) < n - length out" "length (out @ bs) \<le> n" unfolding lo using k by simp_all
    ultimately show ?thesis using less(1) [of "out @ bs" d1, OF _ _ dr d1(2) o] d1(3) by simp
  qed
qed

lemma list_all:
  assumes "\<forall>p \<in> set ps. p \<noteq> [] \<and> length p \<le> 0xFFFF"
  shows "drop (taken d) (answer (sent d)) = concat (map (reply_bytes STATUS_OK) ps) @ reply_bytes STATUS_OK [] @ rest \<Longrightarrow> stall d < 200 \<Longrightarrow>
    p \<noteq> [] \<Longrightarrow> \<exists>d'. list_loop dev \<lparr>rr_status = STATUS_OK, rr_payload = p\<rparr> out d = Some (1, out @ concat (map printed (p # ps)), d')
      \<and> sent d' = sent d \<and> drop (taken d') (answer (sent d')) = rest"
  using assms
proof (induction ps arbitrary: p out d)
  case Nil
  obtain d1 where d1: "TryReadRemoteIoReply dev \<lparr>rr_status = STATUS_OK, rr_payload = p\<rparr> 200 d = (1, \<lparr>rr_status = STATUS_OK, rr_payload = []\<rparr>, d1)"
    "sent d1 = sent d" "taken d1 = taken d + 7"
    using reply_read [of d STATUS_OK "[]" rest 200] Nil by auto
  have "drop (taken d1) (answer (sent d1)) = drop 7 (drop (taken d) (answer (sent d)))" by (simp add: d1(2,3) add.commute)
  then have "drop (taken d1) (answer (sent d1)) = rest" using Nil(1) remote_header_parts(1) [of 0 STATUS_OK] by (simp add: reply_bytes_def)
  moreover have "list_loop dev \<lparr>rr_status = STATUS_OK, rr_payload = p\<rparr> out d = Some (1, out @ printed p, d1)"
    using d1(1) Nil(3) by (subst list_loop.simps, subst list_loop.simps) (simp add: printed_def)
  ultimately show ?case using d1(2) by simp
next
  case (Cons q ps)
  have q: "q \<noteq> []" "length q \<le> 0xFFFF" using Cons.prems(4) by simp_all
  let ?more = "concat (map (reply_bytes STATUS_OK) ps) @ reply_bytes STATUS_OK [] @ rest"
  have a: "drop (taken d) (answer (sent d)) = reply_bytes STATUS_OK q @ ?more" using Cons.prems(1) by simp
  obtain d1 where d1: "TryReadRemoteIoReply dev \<lparr>rr_status = STATUS_OK, rr_payload = p\<rparr> 200 d = (1, \<lparr>rr_status = STATUS_OK, rr_payload = q\<rparr>, d1)"
    "stall d1 < 200" "sent d1 = sent d" "taken d1 = taken d + 7 + length q"
    using reply_read [OF a q(2), of 200] Cons.prems(2) by auto
  have "drop (taken d1) (answer (sent d1)) = drop (7 + length q) (drop (taken d) (answer (sent d)))" by (simp add: d1(3,4) ac_simps)
  then have m: "drop (taken d1) (answer (sent d1)) = ?more"
    unfolding a using remote_header_parts(1) [OF q(2), of STATUS_OK] by (simp add: reply_bytes_def)
  have "list_loop dev \<lparr>rr_status = STATUS_OK, rr_payload = p\<rparr> out d = list_loop dev \<lparr>rr_status = STATUS_OK, rr_payload = q\<rparr> (out @ printed p) d1"
    using d1(1) Cons.prems(3) by (subst list_loop.simps) simp
  then show ?case using Cons.IH [OF m d1(2) q(1), of "out @ printed p"] Cons.prems(4) d1(3) by simp
qed

end

subsection \<open>What the transfers achieve\<close>

text \<open>
  C10: over a link that keeps the order of the bytes and does not wait for long, when the program on the console
  answers the request for a file with its size, its bytes and a checksum, \<open>DoSdDownload\<close> writes these bytes
  to the file, and reports a success exactly when the checksum is that of the bytes.
\<close>

theorem sd_download_correct:
  assumes "prompt_link dev sent taken stall answer" and "stall d < 200" and "length (cstring path) \<le> 0xFFFF"
    and "drop (taken d) (answer (sent d @ remote_header (command_code IO_DOWNLOAD) (length (cstring path)) @ cstring path))
      = reply_bytes STATUS_OK (be32 (word_of_nat (length dat)) @ extra) @ dat @ c # rest"
    and "length extra < 0xFFFC" and "length dat < 2 ^ 32" and "length dat \<le> room"
  shows "\<exists>d'. xfer_DoSdDownload dev (Some path) True (Some room) d = Some (if c = crc_update 0 dat then 1 else 0, dat, d')
    \<and> drop (taken d') (answer (sent d')) = rest"
proof -
  let ?p = "be32 (word_of_nat (length dat)) @ extra"
  have lp: "length ?p \<le> 0xFFFF" using assms(5) by simp
  obtain d1 where d1: "SendRemoteIoCommand dev IO_DOWNLOAD (Some path) d = Some (True, d1)" "stall d1 < 200" "taken d1 = taken d"
    "sent d1 = sent d @ remote_header (command_code IO_DOWNLOAD) (length (cstring path)) @ cstring path"
    using prompt_link.send_command_all [OF assms(1,3,2), of IO_DOWNLOAD] by auto
  have a1: "drop (taken d1) (answer (sent d1)) = reply_bytes STATUS_OK ?p @ dat @ c # rest" using assms(4) d1(3,4) by simp
  obtain d2 where d2: "TryReadRemoteIoReply dev new_reply 5000 d1 = (1, \<lparr>rr_status = STATUS_OK, rr_payload = ?p\<rparr>, d2)" "stall d2 < 200"
    "sent d2 = sent d1" "taken d2 = taken d1 + 7 + length ?p"
    using prompt_link.reply_read [OF assms(1) a1 lp, of 5000 new_reply] d1(2) by auto
  have "drop (taken d2) (answer (sent d2)) = drop (7 + length ?p) (drop (taken d1) (answer (sent d1)))" by (simp add: d2(3,4) ac_simps)
  then have a2: "drop (taken d2) (answer (sent d2)) = dat @ c # rest"
    unfolding a1 using remote_header_parts(1) [OF lp, of STATUS_OK] by (simp add: reply_bytes_def)
  obtain d3 where d3: "sd_download_loop dev room (length dat) 0 0 [] d2 = (True, crc_update 0 dat, dat, d3)" "stall d3 < 200"
    "drop (taken d3) (answer (sent d3)) = c # rest"
    using prompt_link.sd_download_all [OF assms(1) refl assms(7), of "[]" d2 "c # rest"] a2 d2(2) by auto
  have "1 \<le> length (answer (sent d3)) - taken d3" using arg_cong [OF d3(3), of length] by simp
  from prompt_link.read_exact_all [OF assms(1) this, of 5000] d3(2,3) obtain d4 where
    d4: "ReadExactFromDevice dev 1 5000 d3 = (True, [c], d4)" "sent d4 = sent d3" "taken d4 = Suc (taken d3)" by auto
  have "drop (taken d4) (answer (sent d4)) = drop 1 (drop (taken d3) (answer (sent d3)))" by (simp add: d4(2,3))
  then have "drop (taken d4) (answer (sent d4)) = rest" by (simp add: d3(3))
  moreover have sz: "unat (push_bit 24 (ucast (?p ! 0)) OR push_bit 16 (ucast (?p ! 1)) OR push_bit 8 (ucast (?p ! 2)) OR ucast (?p ! 3) :: u32) = length dat"
    using be32_join [of "word_of_nat (length dat)"] assms(6) by (simp add: nth_append)
  ultimately show ?thesis
    unfolding xfer_DoSdDownload_def using d1(1) d2(1) d3(1) d4(1)
    by (simp add: ReadRemoteIoReply_def Let_def sz del: append.simps)
qed

text \<open>
  C11: over such a link, when the program accepts the request and then answers one byte to the file, \<open>DoSdUpload\<close>
  to a path sends the request, the size, the bytes of the file and their checksum, nothing else, and reports a
  success exactly when that byte is 0.
\<close>

theorem sd_upload_correct:
  assumes "prompt_link dev sent taken stall answer" and "stall d < 200" and "length (cstring path) \<le> 0xFFFF"
    and "cstring path \<noteq> []" and "hd (cstring path) = 0x2F"
    and "hf_size f = Some (length (hf_contents f))" and "hf_opens f" and "\<not> hf_error f" and "length (hf_contents f) < 2 ^ 32"
    and "request = remote_header (command_code IO_UPLOAD) (length (cstring path)) @ cstring path"
    and "drop (taken d) (answer (sent d @ request)) = reply_bytes STATUS_OK p @ rest" and "length p \<le> 0xFFFF"
    and "message = request @ be32 (word_of_nat (length (hf_contents f))) @ hf_contents f @ [crc_update 0 (hf_contents f)]"
    and "drop (taken d + 7 + length p) (answer (sent d @ message)) = v # rest'"
  shows "\<exists>d'. xfer_DoSdUpload dev old name f (Some path) d = Some (if v = 0 then 1 else 0, d') \<and> sent d' = sent d @ message"
proof -
  let ?dat = "hf_contents f" and ?n = "word_of_nat (length (hf_contents f)) :: u32"
  obtain d1 where d1: "SendRemoteIoCommand dev IO_UPLOAD (Some path) d = Some (True, d1)" "stall d1 < 200" "taken d1 = taken d"
    "sent d1 = sent d @ request"
    using prompt_link.send_command_all [OF assms(1,3,2), of IO_UPLOAD] assms(10) by auto
  have a1: "drop (taken d1) (answer (sent d1)) = reply_bytes STATUS_OK p @ rest" using assms(11) d1(3,4) by simp
  obtain d2 where d2: "TryReadRemoteIoReply dev new_reply 5000 d1 = (1, \<lparr>rr_status = STATUS_OK, rr_payload = p\<rparr>, d2)" "stall d2 < 200"
    "sent d2 = sent d1" "taken d2 = taken d1 + 7 + length p"
    using prompt_link.reply_read [OF assms(1) a1 assms(12), of 5000 new_reply] d1(2) by auto
  have w: "\<exists>d'. WriteAllToDevice dev dat 0 d = Some (True, d') \<and> stall d' < 200 \<and> sent d' = sent d @ dat \<and> taken d' = taken d"
    if "stall d < 200" for dat d using prompt_link.write_all [OF assms(1) _ that, of 0 dat] by simp
  obtain d3 where d3: "WriteAllToDevice dev (be32 ?n) 0 d2 = Some (True, d3)" "stall d3 < 200" "sent d3 = sent d2 @ be32 ?n" "taken d3 = taken d2"
    using w [OF d2(2), of "be32 ?n"] by blast
  obtain d4 where d4: "StreamAndCrc (\<lambda>dat. WriteAllToDevice dev dat 0) f d3 = Some (True, crc_update 0 ?dat, d4)" "stall d4 < 200"
    "sent d4 = sent d3 @ ?dat" "taken d4 = taken d3"
    using usb_link.stream_loop_all [OF prompt_link.axioms(1) [OF assms(1)], of "\<lambda>d. stall d < 200" "\<lambda>dat. WriteAllToDevice dev dat 0",
      OF w, where d = d3 and dat = ?dat and c = 0] d3(2) assms(8) by (auto simp: StreamAndCrc_def)
  obtain d5 where d5: "WriteAllToDevice dev [crc_update 0 ?dat] 0 d4 = Some (True, d5)" "stall d5 < 200"
    "sent d5 = sent d4 @ [crc_update 0 ?dat]" "taken d5 = taken d4"
    using w [OF d4(2), of "[crc_update 0 ?dat]"] by blast
  have s5: "sent d5 = sent d @ message" "taken d5 = taken d + 7 + length p"
    by (simp_all add: d5(3,4) d4(3,4) d3(3,4) d2(3,4) d1(3,4) assms(13))
  have a5: "drop (taken d5) (answer (sent d5)) = v # rest'" unfolding s5 by (rule assms(14))
  have "1 \<le> length (answer (sent d5)) - taken d5" using arg_cong [OF a5, of length] by simp
  from prompt_link.read_exact_all [OF assms(1) this, of 5000] d5(2) a5 obtain d6
    where d6: "ReadExactFromDevice dev 1 5000 d5 = (True, [v], d6)" "sent d6 = sent d5" by (auto simp del: drop_eq_Nil)
  have "upload_to_path dev f ?n path d = Some (if v = 0 then 1 else 0, d6)"
    unfolding upload_to_path_def using d1(1) d2(1) d3(1) d4(1) d5(1) d6(1) by (simp add: ReadRemoteIoReply_def Let_def)
  moreover have "\<not> 0xFFFFFFFF < length ?dat" using assms(9) by simp
  ultimately have "xfer_DoSdUpload dev old name f (Some path) d = Some (if v = 0 then 1 else 0, d6)"
    unfolding xfer_DoSdUpload_def assms(6) option.case using assms(4,5,7) by (simp only: simp_thms if_True if_False)
  moreover have "sent d6 = sent d @ message" by (rule trans [OF d6(2) s5(1)])
  ultimately show ?thesis by (intro exI [of _ d6] conjI)
qed

text \<open>A listing comes in parts; the text of all of them is put together, up to the empty part at the end.\<close>

theorem listing_correct:
  assumes "prompt_link dev sent taken stall answer" and "stall d < 200" and "length (cstring path) \<le> 0xFFFF"
    and "drop (taken d) (answer (sent d @ remote_header (command_code IO_LIST) (length (cstring path)) @ cstring path))
      = concat (map (reply_bytes STATUS_OK) (p # ps)) @ reply_bytes STATUS_OK [] @ rest"
    and "\<forall>p \<in> set (p # ps). p \<noteq> [] \<and> length p \<le> 0xFFFF"
  shows "\<exists>d'. xfer_DoListStr dev (Some path) out d = Some (1, out @ concat (map printed (p # ps)), d')
    \<and> drop (taken d') (answer (sent d')) = rest"
proof -
  let ?more = "concat (map (reply_bytes STATUS_OK) ps) @ reply_bytes STATUS_OK [] @ rest"
  obtain d1 where d1: "SendRemoteIoCommand dev IO_LIST (Some path) d = Some (True, d1)" "stall d1 < 200" "taken d1 = taken d"
    "sent d1 = sent d @ remote_header (command_code IO_LIST) (length (cstring path)) @ cstring path"
    using prompt_link.send_command_all [OF assms(1,3,2), of IO_LIST] by auto
  have a1: "drop (taken d1) (answer (sent d1)) = reply_bytes STATUS_OK p @ ?more" using assms(4) d1(3,4) by simp
  have lp: "length p \<le> 0xFFFF" "p \<noteq> []" using assms(5) by simp_all
  obtain d2 where d2: "TryReadRemoteIoReply dev new_reply 5000 d1 = (1, \<lparr>rr_status = STATUS_OK, rr_payload = p\<rparr>, d2)" "stall d2 < 200"
    "sent d2 = sent d1" "taken d2 = taken d1 + 7 + length p"
    using prompt_link.reply_read [OF assms(1) a1 lp(1), of 5000 new_reply] d1(2) by auto
  have "drop (taken d2) (answer (sent d2)) = drop (7 + length p) (drop (taken d1) (answer (sent d1)))" by (simp add: d2(3,4) ac_simps)
  then have m: "drop (taken d2) (answer (sent d2)) = ?more"
    unfolding a1 using remote_header_parts(1) [OF lp(1), of STATUS_OK] by (simp add: reply_bytes_def)
  have ps: "\<forall>p \<in> set ps. p \<noteq> [] \<and> length p \<le> 0xFFFF" using assms(5) by simp
  show ?thesis
    using prompt_link.list_all [OF assms(1) ps m d2(2) lp(2), of out] d1(1) d2(1)
    by (auto simp: xfer_DoListStr_def ReadRemoteIoReply_def)
qed

subsection \<open>A link that is prompt\<close>

interpretation prompt_cable: prompt_link "cable_ftdi answer" cb_sent cb_taken cb_wait answer for answer
proof (intro prompt_link.intro cable_link prompt_link_axioms.intro)
  fix d d' :: cable and k n and bs :: "byte list"
  assume "cb_wait d < 200"
  then show "write_data (cable_ftdi answer) bs d = (k, d') \<Longrightarrow> cb_wait d' < 200"
    "read_data (cable_ftdi answer) n d = (k, bs, d') \<Longrightarrow> cb_wait d' < 200"
    by (auto simp: cable_ftdi_def Let_def split: if_splits)
qed

text \<open>A program that has one file, and takes another one.\<close>

definition sample_remote :: "byte list \<Rightarrow> byte list" where
  "sample_remote s = (if length s < 9 then [] else
     if s ! 4 = command_code IO_DOWNLOAD then reply_bytes STATUS_OK (be32 3) @ [7, 8, 9, crc_update 0 [7, 8, 9]]
     else reply_bytes STATUS_OK [] @ (if length s < 17 then [] else [0]))"

theorem sd_download_correct_witness:
  "\<exists>d'. xfer_DoSdDownload (cable_ftdi sample_remote) (Some (ascii ''/A'')) True (Some 10) new_cable = Some (1, [7, 8, 9], d')"
proof -
  have p: "cstring (ascii ''/A'') = ascii ''/A''" by (simp add: cstring_def ascii_def)
  have a: "drop (cb_taken new_cable) (sample_remote (cb_sent new_cable @ remote_header (command_code IO_DOWNLOAD) (length (cstring (ascii ''/A''))) @ cstring (ascii ''/A'')))
      = reply_bytes STATUS_OK (be32 (word_of_nat (length [7, 8, 9 :: byte])) @ []) @ [7, 8, 9] @ crc_update 0 [7, 8, 9] # []"
    unfolding p by (simp add: sample_remote_def new_cable_def remote_header_def REMOTE_IO_MAGIC_def ascii_def del: crc_update.simps)
  show ?thesis
    using sd_download_correct [OF prompt_cable.prompt_link_axioms [of sample_remote], where d = new_cable and path = "ascii ''/A''" and rest = "[]"
      and dat = "[7, 8, 9]" and extra = "[]" and c = "crc_update 0 [7, 8, 9]" and room = 10, OF _ _ a] unfolding p
    by (auto simp: new_cable_def ascii_def simp del: crc_update.simps)
qed

theorem sd_upload_correct_witness:
  "\<exists>d'. xfer_DoSdUpload (cable_ftdi sample_remote) 1 [] sample_upload (Some (ascii ''/A'')) new_cable = Some (1, d')
    \<and> cb_sent d' = ascii ''SRL1'' @ [4, 0, 2] @ ascii ''/A'' @ [0, 0, 0, 3, 7, 8, 9, crc_update 0 [7, 8, 9]]"
proof -
  have p: "cstring (ascii ''/A'') = ascii ''/A''" by (simp add: cstring_def ascii_def)
  let ?r = "remote_header (command_code IO_UPLOAD) (length (cstring (ascii ''/A''))) @ cstring (ascii ''/A'')"
  let ?m = "?r @ be32 (word_of_nat (length (hf_contents sample_upload))) @ hf_contents sample_upload @ [crc_update 0 (hf_contents sample_upload)]"
  have r: "?r = ascii ''SRL1'' @ [4, 0, 2] @ ascii ''/A''"
    unfolding p by (simp add: remote_header_def REMOTE_IO_MAGIC_def command_code_def ascii_def flip: numeral_2_eq_2)
  have m: "?m = ascii ''SRL1'' @ [4, 0, 2] @ ascii ''/A'' @ [0, 0, 0, 3, 7, 8, 9, crc_update 0 [7, 8, 9]]"
    unfolding r by (simp add: be32_def sample_upload_def del: crc_update.simps)
  have a: "drop (cb_taken new_cable) (sample_remote (cb_sent new_cable @ ?r)) = reply_bytes STATUS_OK [] @ []"
    unfolding r by (simp add: sample_remote_def new_cable_def command_code_def ascii_def)
  have b: "drop (cb_taken new_cable + 7 + length ([] :: byte list)) (sample_remote (cb_sent new_cable @ ?m)) = 0 # []"
    unfolding m using remote_header_parts(1) [of 0 STATUS_OK]
    by (simp add: sample_remote_def new_cable_def command_code_def ascii_def reply_bytes_def del: crc_update.simps)
  have f: "cb_wait new_cable < 200" "length (cstring (ascii ''/A'')) \<le> 0xFFFF" "cstring (ascii ''/A'') \<noteq> []" "hd (cstring (ascii ''/A'')) = 0x2F"
    "hf_size sample_upload = Some (length (hf_contents sample_upload))" "hf_opens sample_upload" "\<not> hf_error sample_upload"
    "length (hf_contents sample_upload) < 2 ^ 32" "length ([] :: byte list) \<le> 0xFFFF"
    unfolding p by (simp_all add: new_cable_def ascii_def sample_upload_def)
  show ?thesis
    using sd_upload_correct [OF prompt_cable.prompt_link_axioms f(1-8) refl a f(9) refl b, of 1 "[]"] unfolding m
    by (simp add: new_cable_def)
qed

end
