(* ===== verification/Spec2Isabelle.thy ===== *)
theory Spec2Isabelle
  imports ScCompress ScDevices SdMount FatFormat XferRemote
begin

text \<open>
  Verification of the SatCom library, its FAT file-system library and its SD card driver, from the \<open>ftx\<close> repository
  (paths below are under \<open>src/satcom_lib\<close>).

  \<^bold>\<open>The program.\<close> SatCom is a C library for the SEGA Saturn, a 32-bit big-endian console. It has
  checksums for the link to a PC (\<open>sc_common.c\<close>), an LZF compressor with a small container format
  (\<open>sc_compress.c\<close>), a read-only file system whose files may be stored compressed in chunks
  (\<open>sc_romfs.c\<close>), a circular buffer through which the debugger's log reaches the PC
  (\<open>debugger/scd_circbuffer.inc.c\<close>), a library for FAT16 and FAT32 volumes on SD cards
  (\<open>sdcard/fat_io_lib\<close>), the driver that exchanges the bits of commands and blocks with a card through
  five registers of the cartridge (\<open>sdcard/sdcard_packet.c\<close>), the commands that use both
  (\<open>sdcard/sdcard_fat.c\<close>), a layer of file devices over them and over files on the CD and the PC, and a server
  for the commands of a PC on a USB link (both in \<open>sc_saturn.c\<close>), which starts uploaded programs through a stub that copies them (\<open>copystub\<close>). The tool on the PC, in C++, is
  under \<open>src/src\<close>; its transfers (\<open>xfer.cpp\<close>) are the other side of that server.

  \<^bold>\<open>Theories.\<close>
  \<^item> \<open>FtxPrelude\<close>: machine words, byte buffers with checked accesses (\<open>peek\<close>, \<open>poke\<close>), C strings,
    and tables of XOR-linear functions.
  \<^item> \<open>ScCommon\<close>: the CRC-32 and the CRC-8 with their tables, and the character functions.
  \<^item> \<open>ScCompress\<close>: \<open>lzf_compress\<close> and \<open>lzf_decompress\<close> with every buffer access checked, the header
    of the container, \<open>comp_exec\<close> and \<open>decomp_exec\<close>.
  \<^item> \<open>ScRomfs\<close>: the entries of a ROM image, lookup of a path, the range of a file that is read from
    chunks; it uses \<open>ScCompress\<close> for the chunks.
  \<^item> \<open>ScdCircbuffer\<close>: the circular buffer, refined to a byte queue through the locale \<open>byte_queue\<close>.
  \<^item> \<open>FatDefs\<close>: words in sectors, directory entries, the file-system object, and the locale
    \<open>block_device\<close>, what the library needs of a medium. It is interpreted by the dump file of
    \<open>fat_global.c\<close>; the medium may fail.
  \<^item> \<open>FatTable\<close>: \<open>fat_table.c\<close>, the buffered file allocation table: \<open>eff\<close> is the medium seen through
    the buffer, \<open>fat_inv\<close> the invariant, \<open>raw_entry\<close> and \<open>fat_next\<close> the table as a function from
    clusters to their entries, \<open>cluster_chain\<close> the chain of a file.
  \<^item> \<open>FatMisc\<close>: \<open>fat_misc.c\<close>, long and short names, directory-entry kinds, times and dates.
  \<^item> \<open>FatString\<close>: \<open>fat_string.c\<close>, paths and the comparison of names.
  \<^item> \<open>FatAccess\<close>: \<open>fat_access.c\<close>, mounting, the sectors of a chain, directory search and listing.
  \<^item> \<open>FatReading\<close>: the invariant of the working buffer and reading a chain or the root directory
    sector by sector.
  \<^item> \<open>FatDirs\<close>: \<open>directory\<close>, a sound directory of the volume, as a list of 32-byte slots (\<open>dir_slots\<close>)
    and of named entries (\<open>dir_names\<close>); lookup, rewriting and deleting an entry.
  \<^item> \<open>FatWrite\<close>: \<open>fat_write.c\<close>, allocation of clusters and new directory entries.
  \<^item> \<open>FatAdd\<close>: the run of vacant slots, the slots that are written into it, and that the file is
    found afterwards.
  \<^item> \<open>FatList\<close>: \<open>fat_list.c\<close>, doubly linked lists on a store of nodes, refined to lists.
  \<^item> \<open>FatCache\<close>: \<open>fat_cache.c\<close> and the structure of an open file.
  \<^item> \<open>FatFilelib\<close>: \<open>fat_filelib.c\<close>, the calls named after those of \<open>stdio.h\<close> on a global object.
  \<^item> \<open>FatRead\<close>: \<open>fl_fread\<close> returns the bytes of the chain of a file (\<open>readable_file\<close>). Its buffer may
    receive several sectors at once, which the locale \<open>run_device\<close> adds to \<open>block_device\<close>.
  \<^item> \<open>FatSeek\<close>: moving the position of an open file, and reading a part of a file.
  \<^item> \<open>SatCart\<close>: the registers of the cartridge; \<open>SdPacket\<close>: \<open>sdcard_packet.c\<close> on them.
  \<^item> \<open>SdBits\<close>: the bits that the card is sent (\<open>tx\<close>) and those it answers with (\<open>rx\<close>, \<open>replies\<close>), and
    that the driver's routines for bytes send and receive them.
  \<^item> \<open>SdCard\<close>: packets for one block against a card that follows the specification (\<open>sd_card\<close>), the
    back end of \<open>fat_global.c\<close> for the Saturn, and that it is a \<open>run_device\<close>; \<open>SdSample\<close>: a card as a
    machine with four blocks, for the witnesses.
  \<^item> \<open>SdDriver\<close>: what the driver's functions return, on every outcome; \<open>SdInit\<close>: the initialisation.
  \<^item> \<open>SdFat\<close>: \<open>sdcard_fat.c\<close>, with the whole way from a file's name to the bits of the card.
  \<^item> \<open>FatMount\<close>: what \<open>fatfs_init\<close> makes of a partition table and a boot sector, as natural numbers, and that a
    mounted volume satisfies \<open>fat_inv\<close>; \<open>SdMount\<close>: from the power-on of the card to a usable volume.
  \<^item> \<open>FatFormat\<close>: \<open>fat_format.c\<close>, the sectors that formatting writes (\<open>fresh\<close>), and that the result mounts.
  \<^item> \<open>FatOpen\<close>: the two lists of handles (\<open>handles\<close>), paths (\<open>resolves\<close>), \<open>fl_fopen\<close> and the session
    of opening, reading and closing a file.

  \<^item> \<open>ScMemory\<close>: the address space of the console; \<open>ScCopystub\<close>: \<open>copystub.c\<close>, copying between areas that
    may overlap and clearing the rest.
  \<^item> \<open>ScUsbdc\<close>: the USB commands of \<open>sc_saturn.c\<close>; \<open>XferPc\<close>: \<open>crc.cpp\<close> and the transfers of \<open>xfer.cpp\<close>.
  \<^item> \<open>UsbLink\<close>: the PC and the console together, over any link that keeps the order of the bytes (the
    locale \<open>usb_link\<close>): what a transfer leaves in the memory or in the file.
  \<^item> \<open>XferRemote\<close>: the remote file commands of \<open>xfer.cpp\<close> (listing, removing, uploading, downloading), over a
    link that also answers in time (the locale \<open>prompt_link\<close>).
  \<^item> \<open>ScFiles\<close>: file names and the order of a listing, from the second half of the file layer of
    \<open>sc_saturn.c\<close>; the order of two entries is that of their \<open>entry_key\<close>. \<open>ScDevices\<close>: the layer itself (the
    routines \<open>scf_\<close>), one interface to the RomFs image, the SD card, the CD and the PC, over \<open>ScRomfs\<close>,
    \<open>SdFat\<close> and the circular buffer.

  \<^bold>\<open>Conventions.\<close> Every definition is named after the function it models or the part of it. The
  state is passed and returned. The outer \<open>option\<close> of a result is \<open>None\<close> where the C has no defined
  behaviour (an access outside a buffer, a null function pointer, a division by zero) or does not
  return; errors that the C reports are values inside it. Words have the width of the C type and
  wrap. The macros are those of the Saturn's build: big endian, long names, write support, one FAT
  buffer of one sector. The invariant \<open>fat_inv\<close> is stated for that one buffer; the definitions
  themselves take any number.

  \<^bold>\<open>Loops.\<close> Loops with a bound are structural recursion or functions with a measure. Loops over the
  chains and the sectors of a volume may not end on a damaged volume (a chain with a cycle) and are
  partial functions; the properties about them prove that they return on sound volumes, with no
  fuel. The numbers of the table's entries are assumed to fit 32 bits (fewer than \<open>2 ^ 24\<close> sectors
  of the table), as on every volume of the supported sizes.

  \<^bold>\<open>Parameters.\<close> The medium (\<open>read_media\<close>, \<open>write_media\<close>) and the clock are arguments of the FAT
  library. On the Saturn the medium is the driver, and the card is its parameter (\<open>card_env\<close>): a state of
  any type with the reaction to its three lines. The hypotheses about it are
  \<open>sd_card\<close> for blocks, which is what the SD specification says of them, and \<open>answers_all\<close> for the dialogue of the
  initialisation: every command gets a response of its length in time. The bytes that come for the registers CID and CSD are
  arbitrary; the driver takes the sixteen behind the third one for the register, which the specification does not promise. The waiting
  times of the driver (200001 clocks, 5000 tries) are those of the source. On the PC the library
  \<open>libftdi\<close> is a parameter (\<open>ftdi\<close>), with \<open>usb_link\<close> as what is documented of it; on the console the code
  that is called at an address and the callback for a reset are (\<open>console_env\<close>; \<open>quiet_reset\<close> is what running a
  program needs of the callback: it may change memory, but not the bytes that were received), and for
  the file devices one call of \<open>sc_check\<close> with what the PC does in it, and the CD (\<open>scf_env\<close>).

  \<^bold>\<open>Not modelled.\<close> Code that works on other memory-mapped hardware or calls BIOS routines (the rest of
  \<open>sc_saturn.c\<close>, the vendored \<open>iapetus\<close>), register definitions, logging, tests and examples, and on the PC
  the command line, the console, the GDB and WebDAV servers and the synchronisation of whole directories.
  The other side of the remote file commands is not in the repository: it is what answers on the link.
\<close>

end
